(* ===== verification/Prelude.thy ===== *)
theory Prelude
  imports Main "HOL-Library.Sublist" "HOL-Library.Char_ord" "HOL-Library.List_Lexorder"
begin

text \<open>
  The vocabulary the component theories share.

  Strings. A Rust \<open>str\<close>, \<open>String\<close> or \<open>Bytes\<close> is its UTF-8 byte sequence, so all three are
  \<^typ>\<open>string\<close> (an Isabelle \<^typ>\<open>char\<close> is an eight-bit byte). The \<open>str\<close> methods the source
  uses (\<open>starts_with\<close>, \<open>strip_prefix\<close>, \<open>rsplit_once\<close>, \<open>split_once\<close>, integer \<open>parse\<close>,
  decimal display) are defined here on byte lists.

  Effects. An async function that talks to the bucket is a state transformer that returns
  a result: \<open>('s, 'e, 'a) io\<close> maps the store state to \<open>Inl\<close> of the error or \<open>Inr\<close> of
  the value, together with the new state. \<open>and_then\<close> is Rust's \<open>?\<close>, \<open>match_io\<close> is a
  \<open>match\<close> on a \<open>Result\<close>, \<open>map_err\<close> is the conversion \<open>?\<close> or \<open>map_err\<close> applies, and
  \<open>fold_io\<close> is a \<open>for\<close> loop whose body may return early.

  Reasoning. \<open>wp\<close> is the weakest precondition of a program for a normal and an error
  postcondition, with one introduction rule per construct in \<open>wp_intros\<close>; \<open>keeps\<close> says
  that a program relates every start state to its end state by a preorder, with its
  rules in \<open>keeps_intros\<close>.
\<close>

named_theorems wp_intros "weakest-precondition rules, one per program construct"
named_theorems keeps_intros "rules for relations every program step respects"
named_theorems yields_intros "rules for facts about results alone"
named_theorems calm_intros "weakest-precondition rules on a store that does not fail"

subsection \<open>Strings\<close>

abbreviation starts_with :: "string \<Rightarrow> string \<Rightarrow> bool" where
  "starts_with s p \<equiv> prefix p s"

abbreviation ends_with :: "string \<Rightarrow> string \<Rightarrow> bool" where
  "ends_with s p \<equiv> suffix p s"

fun strip_prefix :: "string \<Rightarrow> string \<Rightarrow> string option" where
  "strip_prefix [] s = Some s"
| "strip_prefix (c # p) [] = None"
| "strip_prefix (c # p) (d # s) = (if c = d then strip_prefix p s else None)"

definition strip_suffix :: "string \<Rightarrow> string \<Rightarrow> string option" where
  "strip_suffix p s = map_option rev (strip_prefix (rev p) (rev s))"

text \<open>The part after the last occurrence of the separator, the whole string without one.\<close>

definition last_segment :: "char \<Rightarrow> string \<Rightarrow> string" where
  "last_segment c s = rev (takeWhile (\<lambda>x. x \<noteq> c) (rev s))"

definition rsplit_once :: "char \<Rightarrow> string \<Rightarrow> (string \<times> string) option" where
  "rsplit_once c s =
     (case dropWhile (\<lambda>x. x \<noteq> c) (rev s) of
        [] \<Rightarrow> None
      | _ # before \<Rightarrow> Some (rev before, last_segment c s))"

fun split_once :: "char \<Rightarrow> string \<Rightarrow> (string \<times> string) option" where
  "split_once c [] = None"
| "split_once c (d # s) =
     (if d = c then Some ([], s)
      else map_option (\<lambda>(a, b). (d # a, b)) (split_once c s))"

lemma strip_prefix_Some [simp]: "strip_prefix p s = Some r \<longleftrightarrow> s = p @ r"
  by (induction p s rule: strip_prefix.induct) auto

lemma strip_prefix_append [simp]: "strip_prefix p (p @ r) = Some r"
  by simp

lemma strip_prefix_None: "strip_prefix p s = None \<longleftrightarrow> \<not> prefix p s"
  by (induction p s rule: strip_prefix.induct) auto

lemma strip_suffix_Some [simp]: "strip_suffix p s = Some r \<longleftrightarrow> s = r @ p"
  by (auto simp: strip_suffix_def rev_swap)

lemma strip_suffix_append [simp]: "strip_suffix p (r @ p) = Some r"
  by simp

lemma strip_suffix_None: "strip_suffix p s = None \<longleftrightarrow> \<not> suffix p s"
  by (metis option.exhaust option.distinct(1) strip_suffix_Some suffix_def)

lemma takeWhile_rev_append:
  "c \<notin> set b \<Longrightarrow> takeWhile (\<lambda>x. x \<noteq> c) (rev b @ c # t) = rev b"
  by (subst takeWhile_append2) auto

lemma dropWhile_rev_append:
  "c \<notin> set b \<Longrightarrow> dropWhile (\<lambda>x. x \<noteq> c) (rev b @ c # t) = c # t"
  by (subst dropWhile_append2) auto

lemma last_segment_append [simp]: "c \<notin> set b \<Longrightarrow> last_segment c (a @ c # b) = b"
  by (simp add: last_segment_def takeWhile_rev_append)

lemma last_segment_whole [simp]: "c \<notin> set b \<Longrightarrow> last_segment c b = b"
proof -
  assume "c \<notin> set b"
  then have "takeWhile (\<lambda>x. x \<noteq> c) (rev b) = rev b" by (subst takeWhile_eq_all_conv) auto
  then show ?thesis unfolding last_segment_def by (metis rev_rev_ident)
qed

lemma last_segment_free: "c \<notin> set (last_segment c s)"
  by (auto simp: last_segment_def dest: set_takeWhileD)

lemma last_segment_suffix: "suffix (last_segment c s) s"
  by (metis last_segment_def prefixI suffix_to_prefix rev_rev_ident takeWhile_dropWhile_id)

lemma rsplit_once_append [simp]: "c \<notin> set b \<Longrightarrow> rsplit_once c (a @ c # b) = Some (a, b)"
  by (simp add: rsplit_once_def dropWhile_rev_append)

lemma rsplit_once_Some: "rsplit_once c s = Some (a, b) \<longleftrightarrow> s = a @ c # b \<and> c \<notin> set b"
proof
  assume r: "rsplit_once c s = Some (a, b)"
  then obtain d t where d: "dropWhile (\<lambda>x. x \<noteq> c) (rev s) = d # t"
    by (auto simp: rsplit_once_def split: list.splits)
  then have "d = c" using hd_dropWhile [of "\<lambda>x. x \<noteq> c" "rev s"] by simp
  have "rev s = takeWhile (\<lambda>x. x \<noteq> c) (rev s) @ d # t"
    using takeWhile_dropWhile_id [of "\<lambda>x. x \<noteq> c" "rev s"] d by simp
  then have "rev (rev s) = rev (takeWhile (\<lambda>x. x \<noteq> c) (rev s) @ d # t)" by (rule arg_cong)
  then have "s = rev t @ c # last_segment c s"
    using \<open>d = c\<close> by (simp add: last_segment_def)
  with r d show "s = a @ c # b \<and> c \<notin> set b"
    by (auto simp: rsplit_once_def last_segment_free)
qed auto

lemma rsplit_once_None: "rsplit_once c s = None \<longleftrightarrow> c \<notin> set s"
proof -
  have "rsplit_once c s = None \<longleftrightarrow> dropWhile (\<lambda>x. x \<noteq> c) (rev s) = []"
    unfolding rsplit_once_def by (simp split: list.split del: dropWhile_eq_Nil_conv)
  also have "\<dots> \<longleftrightarrow> c \<notin> set s" unfolding dropWhile_eq_Nil_conv by auto
  finally show ?thesis .
qed

lemma split_once_append [simp]: "c \<notin> set a \<Longrightarrow> split_once c (a @ c # b) = Some (a, b)"
  by (induction a) auto

lemma split_once_SomeD: "split_once c s = Some (a, b) \<Longrightarrow> s = a @ c # b \<and> c \<notin> set a"
proof (induction s arbitrary: a)
  case (Cons d s)
  then show ?case by (cases "d = c") auto
qed simp

lemma split_once_Some: "split_once c s = Some (a, b) \<longleftrightarrow> s = a @ c # b \<and> c \<notin> set a"
  using split_once_append split_once_SomeD by blast

lemma split_once_None: "split_once c s = None \<longleftrightarrow> c \<notin> set s"
  by (induction s) auto

text \<open>\<open>str::split\<close> on a character, and \<open>join\<close>.\<close>

fun split_on :: "char \<Rightarrow> string \<Rightarrow> string list" where
  "split_on c [] = [[]]"
| "split_on c (d # s) =
     (if d = c then [] # split_on c s
      else (case split_on c s of [] \<Rightarrow> [[d]] | p # ps \<Rightarrow> (d # p) # ps))"

fun join_on :: "string \<Rightarrow> string list \<Rightarrow> string" where
  "join_on sep [] = []"
| "join_on sep [p] = p"
| "join_on sep (p # q # ps) = p @ sep @ join_on sep (q # ps)"

lemma split_on_ne [simp]: "split_on c s \<noteq> []"
  by (induction s) (auto split: list.split)

lemma join_split_on [simp]: "join_on [c] (split_on c s) = s"
proof (induction s)
  case (Cons d s)
  obtain p ps where "split_on c s = p # ps" by (cases "split_on c s") auto
  with Cons show ?case by (cases ps) auto
qed simp

lemma split_on_parts: "p \<in> set (split_on c s) \<Longrightarrow> c \<notin> set p"
  by (induction s arbitrary: p) (fastforce split: if_splits list.splits)+

lemma split_on_free: "c \<notin> set p \<Longrightarrow> split_on c p = [p]"
  by (induction p) auto

lemma split_on_append: "c \<notin> set p \<Longrightarrow> split_on c (p @ c # s) = p # split_on c s"
  by (induction p) auto

lemma split_on_join:
  "ps \<noteq> [] \<Longrightarrow> (\<And>p. p \<in> set ps \<Longrightarrow> c \<notin> set p) \<Longrightarrow> split_on c (join_on [c] ps) = ps"
proof (induction ps)
  case (Cons p ps)
  then show ?case by (cases ps) (auto simp: split_on_free split_on_append)
qed simp

subsection \<open>UTF-8\<close>

text \<open>\<open>String::from_utf8\<close>: a byte-at-a-time acceptor of well-formed UTF-8.\<close>

datatype utf8_state = U0 | U1 | U2 | U3 | UE0 | UED | UF0 | UF4

definition utf8_cont :: "nat \<Rightarrow> bool" where
  "utf8_cont b \<longleftrightarrow> 128 \<le> b \<and> b < 192"

definition utf8_lead :: "nat \<Rightarrow> utf8_state option" where
  "utf8_lead b =
     (if b < 128 then Some U0
      else if 194 \<le> b \<and> b \<le> 223 then Some U1
      else if b = 224 then Some UE0
      else if b = 237 then Some UED
      else if 225 \<le> b \<and> b \<le> 239 then Some U2
      else if b = 240 then Some UF0
      else if 241 \<le> b \<and> b \<le> 243 then Some U3
      else if b = 244 then Some UF4
      else None)"

fun utf8_step :: "utf8_state \<Rightarrow> nat \<Rightarrow> utf8_state option" where
  "utf8_step U0 b = utf8_lead b"
| "utf8_step U1 b = (if utf8_cont b then Some U0 else None)"
| "utf8_step U2 b = (if utf8_cont b then Some U1 else None)"
| "utf8_step U3 b = (if utf8_cont b then Some U2 else None)"
| "utf8_step UE0 b = (if 160 \<le> b \<and> utf8_cont b then Some U1 else None)"
| "utf8_step UED b = (if b < 160 \<and> utf8_cont b then Some U1 else None)"
| "utf8_step UF0 b = (if 144 \<le> b \<and> utf8_cont b then Some U2 else None)"
| "utf8_step UF4 b = (if b < 144 \<and> utf8_cont b then Some U2 else None)"

fun utf8_run :: "utf8_state \<Rightarrow> string \<Rightarrow> utf8_state option" where
  "utf8_run q [] = Some q"
| "utf8_run q (c # s) =
     (case utf8_step q (of_char c) of None \<Rightarrow> None | Some q' \<Rightarrow> utf8_run q' s)"

definition utf8_valid :: "string \<Rightarrow> bool" where
  "utf8_valid s \<longleftrightarrow> utf8_run U0 s = Some U0"

lemma utf8_run_append:
  "utf8_run q (a @ b) = Option.bind (utf8_run q a) (\<lambda>q'. utf8_run q' b)"
  by (induction a arbitrary: q) (auto split: option.splits)

lemma utf8_step_ascii: "b < 128 \<Longrightarrow> utf8_step q b = (if q = U0 then Some U0 else None)"
  by (cases q) (auto simp: utf8_lead_def utf8_cont_def)

lemma utf8_valid_snoc_ascii:
  "(of_char c :: nat) < 128 \<Longrightarrow> utf8_valid (a @ [c]) \<longleftrightarrow> utf8_valid a"
  by (auto simp: utf8_valid_def utf8_run_append utf8_step_ascii bind_eq_Some_conv
      split: if_splits)

lemma utf8_valid_append: "utf8_valid a \<Longrightarrow> utf8_valid b \<Longrightarrow> utf8_valid (a @ b)"
  by (simp add: utf8_valid_def utf8_run_append)

lemma utf8_valid_ascii:
  "list_all (\<lambda>c. (of_char c :: nat) < 128) a \<Longrightarrow> utf8_valid a"
proof (induction a rule: rev_induct)
  case Nil
  show ?case by (simp add: utf8_valid_def)
qed (simp add: utf8_valid_snoc_ascii)

text \<open>
  The prefixes the code lists with: like every Rust \<open>str\<close> they are well-formed UTF-8, and they
  are empty or end in an ASCII character below DEL (a slash, mostly).
\<close>

definition listable :: "string \<Rightarrow> bool" where
  "listable p \<longleftrightarrow> (p = [] \<or> (of_char (last p) :: nat) < 127) \<and> utf8_valid p"

lemma listable_slash: "utf8_valid (p @ ''/'') \<Longrightarrow> listable (p @ ''/'')"
  by (simp add: listable_def)

subsection \<open>Decimal numbers\<close>

definition digit_char :: "nat \<Rightarrow> char" where
  "digit_char d = char_of (48 + d)"

fun show_nat :: "nat \<Rightarrow> string" where
  "show_nat n = (if n < 10 then [digit_char n] else show_nat (n div 10) @ [digit_char (n mod 10)])"

declare show_nat.simps [simp del]

definition digit_val :: "char \<Rightarrow> nat option" where
  "digit_val c = (let n = of_char c :: nat in if 48 \<le> n \<and> n \<le> 57 then Some (n - 48) else None)"

fun parse_digits :: "nat \<Rightarrow> string \<Rightarrow> nat option" where
  "parse_digits acc [] = Some acc"
| "parse_digits acc (c # s) =
     (case digit_val c of None \<Rightarrow> None | Some d \<Rightarrow> parse_digits (10 * acc + d) s)"

text \<open>
  \<open>str::parse::<u64>\<close>: an optional plus sign, then at least one digit, and the value must
  fit in 64 bits.
\<close>

definition parse_u64 :: "string \<Rightarrow> nat option" where
  "parse_u64 s =
     (let digits = (case s of c # r \<Rightarrow> if c = CHR ''+'' then r else s | [] \<Rightarrow> [])
      in if digits = [] then None
         else case parse_digits 0 digits of
                None \<Rightarrow> None
              | Some n \<Rightarrow> if n < 2 ^ 64 then Some n else None)"

lemma digit_val_digit_char [simp]: "d < 10 \<Longrightarrow> digit_val (digit_char d) = Some d"
  by (simp add: digit_val_def digit_char_def)

lemma parse_digits_append:
  "parse_digits acc (s @ t) = Option.bind (parse_digits acc s) (\<lambda>a. parse_digits a t)"
  by (induction acc s rule: parse_digits.induct) (auto split: option.splits)

lemma parse_digits_show: "parse_digits 0 (show_nat n) = Some n"
proof (induction n rule: show_nat.induct)
  case (1 n)
  show ?case
  proof (cases "n < 10")
    case True
    then show ?thesis by (simp add: show_nat.simps [of n])
  next
    case False
    with 1 have "parse_digits 0 (show_nat (n div 10)) = Some (n div 10)" by simp
    with False show ?thesis by (simp add: show_nat.simps [of n] parse_digits_append)
  qed
qed

lemma show_nat_nonempty [simp]: "show_nat n \<noteq> []"
  by (subst show_nat.simps) simp

lemma show_nat_digits: "c \<in> set (show_nat n) \<Longrightarrow> \<exists>d < 10. c = digit_char d"
proof (induction n rule: show_nat.induct)
  case (1 n)
  show ?case
  proof (cases "n < 10")
    case True
    with "1.prems" show ?thesis by (auto simp: show_nat.simps [of n])
  next
    case False
    have "n mod 10 < 10" by simp
    from False "1.prems" have "c \<in> set (show_nat (n div 10)) \<or> c = digit_char (n mod 10)"
      by (auto simp: show_nat.simps [of n])
    with False "1.IH" \<open>n mod 10 < 10\<close> show ?thesis by blast
  qed
qed

lemma digit_char_not_plus: "d < 10 \<Longrightarrow> digit_char d \<noteq> CHR ''+''"
proof
  assume "d < 10" "digit_char d = CHR ''+''"
  then have "digit_val (CHR ''+'') = Some d" by (metis digit_val_digit_char)
  then show False by (simp add: digit_val_def)
qed

lemma parse_u64_show_nat: "n < 2 ^ 64 \<Longrightarrow> parse_u64 (show_nat n) = Some n"
proof -
  assume n: "n < 2 ^ 64"
  obtain c r where s: "show_nat n = c # r" by (cases "show_nat n") auto
  then have "c \<noteq> CHR ''+''" using show_nat_digits [of c n] digit_char_not_plus by auto
  then show ?thesis using n parse_digits_show [of n] by (simp add: parse_u64_def s)
qed

subsection \<open>Programs over a store state\<close>

type_synonym ('s, 'e, 'a) io = "'s \<Rightarrow> ('e + 'a) \<times> 's"

definition ok :: "'a \<Rightarrow> ('s, 'e, 'a) io" where
  "ok x = (\<lambda>s. (Inr x, s))"

definition fail_with :: "'e \<Rightarrow> ('s, 'e, 'a) io" where
  "fail_with e = (\<lambda>s. (Inl e, s))"

definition match_io ::
    "('s, 'e, 'a) io \<Rightarrow> ('e \<Rightarrow> ('s, 'f, 'b) io) \<Rightarrow> ('a \<Rightarrow> ('s, 'f, 'b) io) \<Rightarrow> ('s, 'f, 'b) io" where
  "match_io m on_err on_ok =
     (\<lambda>s. case m s of (Inl e, t) \<Rightarrow> on_err e t | (Inr x, t) \<Rightarrow> on_ok x t)"

definition and_then :: "('s, 'e, 'a) io \<Rightarrow> ('a \<Rightarrow> ('s, 'e, 'b) io) \<Rightarrow> ('s, 'e, 'b) io" where
  "and_then m f = match_io m fail_with f"

definition map_err :: "('e \<Rightarrow> 'f) \<Rightarrow> ('s, 'e, 'a) io \<Rightarrow> ('s, 'f, 'a) io" where
  "map_err g m = match_io m (\<lambda>e. fail_with (g e)) ok"

definition of_result :: "'e + 'a \<Rightarrow> ('s, 'e, 'a) io" where
  "of_result r = (\<lambda>s. (r, s))"

fun fold_io :: "('c \<Rightarrow> 'b \<Rightarrow> ('s, 'e, 'c) io) \<Rightarrow> 'c \<Rightarrow> 'b list \<Rightarrow> ('s, 'e, 'c) io" where
  "fold_io f acc [] = ok acc"
| "fold_io f acc (x # xs) = and_then (f acc x) (\<lambda>acc'. fold_io f acc' xs)"

lemmas io_defs = ok_def fail_with_def match_io_def and_then_def map_err_def of_result_def

lemma ok_apply: "ok x s = (Inr x, s)"
  and fail_with_apply: "fail_with e s = (Inl e, s)"
  and of_result_apply: "of_result r s = (r, s)"
  by (simp_all add: io_defs)

lemma match_io_apply:
  "match_io m h f s = (case m s of (Inl e, t) \<Rightarrow> h e t | (Inr x, t) \<Rightarrow> f x t)"
  by (simp add: match_io_def)

lemma and_then_apply:
  "and_then m f s = (case m s of (Inl e, t) \<Rightarrow> (Inl e, t) | (Inr x, t) \<Rightarrow> f x t)"
  by (auto simp: and_then_def match_io_def fail_with_def split: prod.splits sum.splits)

lemma map_err_apply:
  "map_err g m s = (case m s of (Inl e, t) \<Rightarrow> (Inl (g e), t) | (Inr x, t) \<Rightarrow> (Inr x, t))"
  by (auto simp: map_err_def match_io_def fail_with_def ok_def split: prod.splits sum.splits)

lemmas io_apply = ok_apply fail_with_apply of_result_apply match_io_apply and_then_apply map_err_apply

text \<open>Forward evaluation: a step whose outcome is known is replaced by its continuation.\<close>

lemma and_then_ok: "m s = (Inr x, t) \<Longrightarrow> and_then m f s = f x t"
  and and_then_err: "m s = (Inl e, t) \<Longrightarrow> and_then m f s = (Inl e, t)"
  and match_io_ok: "m s = (Inr x, t) \<Longrightarrow> match_io m h f s = f x t"
  and match_io_err: "m s = (Inl e, t) \<Longrightarrow> match_io m h f s = h e t"
  and map_err_ok: "m s = (Inr x, t) \<Longrightarrow> map_err g m s = (Inr x, t)"
  and map_err_err: "m s = (Inl e, t) \<Longrightarrow> map_err g m s = (Inl (g e), t)"
  by (simp_all add: io_apply)

lemmas io_step = and_then_ok and_then_err match_io_ok match_io_err map_err_ok map_err_err

subsection \<open>Weakest preconditions\<close>

definition wp ::
    "('s, 'e, 'a) io \<Rightarrow> ('a \<Rightarrow> 's \<Rightarrow> bool) \<Rightarrow> ('e \<Rightarrow> 's \<Rightarrow> bool) \<Rightarrow> 's \<Rightarrow> bool" where
  "wp m Q E s = (case m s of (Inl e, t) \<Rightarrow> E e t | (Inr x, t) \<Rightarrow> Q x t)"

lemma wpI: "(\<And>x t. m s = (Inr x, t) \<Longrightarrow> Q x t) \<Longrightarrow> (\<And>e t. m s = (Inl e, t) \<Longrightarrow> E e t) \<Longrightarrow> wp m Q E s"
  by (auto simp: wp_def split: prod.splits sum.splits)

lemma wp_ok_resultD: "wp m Q E s \<Longrightarrow> m s = (Inr x, t) \<Longrightarrow> Q x t"
  and wp_err_resultD: "wp m Q E s \<Longrightarrow> m s = (Inl e, t) \<Longrightarrow> E e t"
  by (simp_all add: wp_def)

lemma wp_mono:
  "wp m Q E s \<Longrightarrow> (\<And>x t. Q x t \<Longrightarrow> Q' x t) \<Longrightarrow> (\<And>e t. E e t \<Longrightarrow> E' e t) \<Longrightarrow> wp m Q' E' s"
  by (auto simp: wp_def split: prod.splits sum.splits)

lemma wp_totalD: "wp m Q (\<lambda>_ _. False) s \<Longrightarrow> \<exists>x t. m s = (Inr x, t) \<and> Q x t"
  by (auto simp: wp_def split: prod.splits sum.splits)

lemma wp_cases:
  "wp m Q E s \<longleftrightarrow> (case m s of (Inl e, t) \<Rightarrow> E e t | (Inr x, t) \<Rightarrow> Q x t)"
  by (simp add: wp_def)

lemma wp_snd: "wp m (\<lambda>_. P) (\<lambda>_. P) s \<Longrightarrow> P (snd (m s))"
  by (auto simp: wp_def split: prod.splits sum.splits)

lemma wp_conj:
  "wp m Q E s \<Longrightarrow> wp m Q' E' s \<Longrightarrow> wp m (\<lambda>x t. Q x t \<and> Q' x t) (\<lambda>e t. E e t \<and> E' e t) s"
  by (auto simp: wp_def split: prod.splits sum.splits)

lemma wp_ok [wp_intros]: "Q x s \<Longrightarrow> wp (ok x) Q E s"
  and wp_fail [wp_intros]: "E e s \<Longrightarrow> wp (fail_with e) Q E s"
  by (simp_all add: wp_def io_apply)

lemma wp_of_result [wp_intros]:
  "(\<And>x. r = Inr x \<Longrightarrow> Q x s) \<Longrightarrow> (\<And>e. r = Inl e \<Longrightarrow> E e s) \<Longrightarrow> wp (of_result r) Q E s"
  by (cases r) (simp_all add: wp_def io_apply)

lemma wp_match [wp_intros]:
  "wp m (\<lambda>x. wp (f x) Q E) (\<lambda>e. wp (h e) Q E) s \<Longrightarrow> wp (match_io m h f) Q E s"
  by (auto simp: wp_def match_io_def split: prod.splits sum.splits)

lemma wp_and_then [wp_intros]: "wp m (\<lambda>x. wp (f x) Q E) E s \<Longrightarrow> wp (and_then m f) Q E s"
  by (auto simp: wp_def and_then_apply split: prod.splits sum.splits)

lemma wp_map_err [wp_intros]: "wp m Q (\<lambda>e. E (g e)) s \<Longrightarrow> wp (map_err g m) Q E s"
  by (auto simp: wp_def map_err_apply split: prod.splits sum.splits)

lemma wp_if [wp_intros]:
  "(b \<Longrightarrow> wp m Q E s) \<Longrightarrow> (\<not> b \<Longrightarrow> wp m' Q E s) \<Longrightarrow> wp (if b then m else m') Q E s"
  by simp

lemma wp_option [wp_intros]:
  "(v = None \<Longrightarrow> wp m Q E s) \<Longrightarrow> (\<And>x. v = Some x \<Longrightarrow> wp (f x) Q E s) \<Longrightarrow>
   wp (case v of None \<Rightarrow> m | Some x \<Rightarrow> f x) Q E s"
  by (cases v) auto

lemma wp_sum [wp_intros]:
  "(\<And>x. v = Inl x \<Longrightarrow> wp (f x) Q E s) \<Longrightarrow> (\<And>x. v = Inr x \<Longrightarrow> wp (g x) Q E s) \<Longrightarrow>
   wp (case v of Inl x \<Rightarrow> f x | Inr x \<Rightarrow> g x) Q E s"
  by (cases v) auto

lemma wp_list [wp_intros]:
  "(v = [] \<Longrightarrow> wp m Q E s) \<Longrightarrow> (\<And>x xs. v = x # xs \<Longrightarrow> wp (f x xs) Q E s) \<Longrightarrow>
   wp (case v of [] \<Rightarrow> m | x # xs \<Rightarrow> f x xs) Q E s"
  by (cases v) auto

lemma wp_let [wp_intros]: "wp (f v) Q E s \<Longrightarrow> wp (Let v f) Q E s"
  by simp

text \<open>The loop rule: an invariant over the processed prefix, the rest and the accumulator.\<close>

lemma wp_fold_io:
  assumes step: "\<And>acc x xs t. I acc (x # xs) t \<Longrightarrow> wp (f acc x) (\<lambda>acc'. I acc' xs) E t"
    and start: "I acc xs s"
    and final: "\<And>acc t. I acc [] t \<Longrightarrow> Q acc t"
  shows "wp (fold_io f acc xs) Q E s"
  using start
proof (induction xs arbitrary: acc s)
  case Nil
  then show ?case by (auto intro: wp_intros final)
next
  case (Cons x xs)
  have "wp (f acc x) (\<lambda>acc'. I acc' xs) E s" using Cons.prems by (rule step)
  then show ?case by (auto intro!: wp_intros elim!: wp_mono intro: Cons.IH)
qed

subsection \<open>Relations a program respects\<close>

definition keeps :: "('s \<Rightarrow> 's \<Rightarrow> bool) \<Rightarrow> ('s, 'e, 'a) io \<Rightarrow> bool" where
  "keeps R m \<longleftrightarrow> (\<forall>s. R s (snd (m s)))"

lemma keepsD: "keeps R m \<Longrightarrow> m s = (r, t) \<Longrightarrow> R s t"
  by (metis keeps_def snd_conv)

lemma keepsI: "(\<And>s r t. m s = (r, t) \<Longrightarrow> R s t) \<Longrightarrow> keeps R m"
  by (metis keeps_def surjective_pairing)

lemma keeps_ok [keeps_intros]: "reflp R \<Longrightarrow> keeps R (ok x)"
  and keeps_fail [keeps_intros]: "reflp R \<Longrightarrow> keeps R (fail_with e)"
  and keeps_of_result [keeps_intros]: "reflp R \<Longrightarrow> keeps R (of_result r)"
  by (simp_all add: keeps_def reflpD io_apply)

lemma keeps_match [keeps_intros]:
  assumes "transp R" "keeps R m" "\<And>e. keeps R (h e)" "\<And>x. keeps R (f x)"
  shows "keeps R (match_io m h f)"
proof (rule keepsI)
  fix s r t
  assume run: "match_io m h f s = (r, t)"
  obtain q u where m: "m s = (q, u)" by force
  with assms(2) have "R s u" by (auto dest: keepsD)
  moreover have "R u t"
    using run m assms(3,4) by (cases q) (auto simp: match_io_def dest: keepsD)
  ultimately show "R s t" using assms(1) by (blast dest: transpD)
qed

lemma keeps_and_then [keeps_intros]:
  assumes "reflp R" "transp R" "keeps R m" "\<And>x. keeps R (f x)"
  shows "keeps R (and_then m f)"
  unfolding and_then_def by (intro keeps_intros assms)

lemma keeps_map_err [keeps_intros]:
  assumes "reflp R" "transp R" "keeps R m"
  shows "keeps R (map_err g m)"
  unfolding map_err_def by (intro keeps_intros assms)

lemma keeps_if [keeps_intros]:
  "(b \<Longrightarrow> keeps R m) \<Longrightarrow> (\<not> b \<Longrightarrow> keeps R m') \<Longrightarrow> keeps R (if b then m else m')"
  by simp

lemma keeps_option [keeps_intros]:
  "(v = None \<Longrightarrow> keeps R m) \<Longrightarrow> (\<And>x. v = Some x \<Longrightarrow> keeps R (f x)) \<Longrightarrow>
   keeps R (case v of None \<Rightarrow> m | Some x \<Rightarrow> f x)"
  by (cases v) auto

lemma keeps_sum [keeps_intros]:
  "(\<And>x. v = Inl x \<Longrightarrow> keeps R (f x)) \<Longrightarrow> (\<And>x. v = Inr x \<Longrightarrow> keeps R (g x)) \<Longrightarrow>
   keeps R (case v of Inl x \<Rightarrow> f x | Inr x \<Rightarrow> g x)"
  by (cases v) auto

lemma keeps_list [keeps_intros]:
  "(v = [] \<Longrightarrow> keeps R m) \<Longrightarrow> (\<And>x xs. v = x # xs \<Longrightarrow> keeps R (f x xs)) \<Longrightarrow>
   keeps R (case v of [] \<Rightarrow> m | x # xs \<Rightarrow> f x xs)"
  by (cases v) auto

lemma keeps_let [keeps_intros]: "(\<And>v. keeps R (f v)) \<Longrightarrow> keeps R (Let v f)"
  by simp

lemma keeps_fold_io [keeps_intros]:
  assumes "reflp R" "transp R" "\<And>acc x. keeps R (f acc x)"
  shows "keeps R (fold_io f acc xs)"
  by (induction xs arbitrary: acc) (auto intro!: keeps_intros assms)

lemma keeps_fold_io_mem:
  assumes "reflp R" "transp R" "\<And>acc x. x \<in> set xs \<Longrightarrow> keeps R (f acc x)"
  shows "keeps R (fold_io f acc xs)"
  using assms(3)
proof (induction xs arbitrary: acc)
  case Nil
  show ?case by (simp add: keeps_ok assms(1))
next
  case (Cons x xs)
  show ?case unfolding fold_io.simps
    by (intro keeps_and_then assms(1,2) Cons.prems Cons.IH) auto
qed

text \<open>A relation the program keeps, as a postcondition that extends what is known so far.\<close>

lemma wp_keeps:
  assumes "keeps R m" "transp R" "R s0 s"
    and "\<And>x t. R s0 t \<Longrightarrow> Q x t" "\<And>e t. R s0 t \<Longrightarrow> E e t"
  shows "wp m Q E s"
  by (rule wpI) (use assms in \<open>blast dest: keepsD transpD\<close>)+

lemma keeps_from_wp: "(\<And>s. wp m (\<lambda>_. R s) (\<lambda>_. R s) s) \<Longrightarrow> keeps R m"
  by (rule keepsI) (metis wp_ok_resultD wp_err_resultD sum.exhaust)

lemma keeps_mono: "keeps R m \<Longrightarrow> (\<And>s t. R s t \<Longrightarrow> R' s t) \<Longrightarrow> keeps R' m"
  by (simp add: keeps_def)

subsection \<open>Facts about results alone\<close>

definition yields :: "('a \<Rightarrow> bool) \<Rightarrow> ('e \<Rightarrow> bool) \<Rightarrow> ('s, 'e, 'a) io \<Rightarrow> bool" where
  "yields P F m \<longleftrightarrow> (\<forall>s. wp m (\<lambda>x _. P x) (\<lambda>e _. F e) s)"

lemma yieldsI: "(\<And>s. wp m (\<lambda>x _. P x) (\<lambda>e _. F e) s) \<Longrightarrow> yields P F m"
  by (simp add: yields_def)

lemma yields_wp: "yields P F m \<Longrightarrow> wp m (\<lambda>x _. P x) (\<lambda>e _. F e) s"
  by (simp add: yields_def)

lemma yields_any: "(\<And>x. P x) \<Longrightarrow> (\<And>e. F e) \<Longrightarrow> yields P F m"
  by (auto simp: yields_def wp_def split: prod.splits sum.splits)

lemma yields_mono: "yields P F m \<Longrightarrow> (\<And>x. P x \<Longrightarrow> P' x) \<Longrightarrow> (\<And>e. F e \<Longrightarrow> F' e) \<Longrightarrow> yields P' F' m"
  by (rule yieldsI, rule wp_mono, rule yields_wp)

lemma yields_ok [yields_intros]: "P x \<Longrightarrow> yields P F (ok x)"
  and yields_fail [yields_intros]: "F e \<Longrightarrow> yields P F (fail_with e)"
  by (auto simp: yields_def intro: wp_intros)

lemma yields_of_result [yields_intros]:
  "(\<And>x. r = Inr x \<Longrightarrow> P x) \<Longrightarrow> (\<And>e. r = Inl e \<Longrightarrow> F e) \<Longrightarrow> yields P F (of_result r)"
  by (auto simp: yields_def intro: wp_of_result)

lemma yields_match:
  assumes "yields A B m" "\<And>x. A x \<Longrightarrow> yields P F (f x)" "\<And>e. B e \<Longrightarrow> yields P F (h e)"
  shows "yields P F (match_io m h f)"
  by (rule yieldsI, rule wp_match, rule wp_mono [OF yields_wp [OF assms(1)]])
    (auto intro: yields_wp assms(2,3))

lemma yields_and_then:
  "yields A F m \<Longrightarrow> (\<And>x. A x \<Longrightarrow> yields P F (f x)) \<Longrightarrow> yields P F (and_then m f)"
  by (rule yieldsI, rule wp_and_then, rule wp_mono, erule yields_wp) (auto intro: yields_wp)

lemma yields_map_err: "yields P (\<lambda>e. F (g e)) m \<Longrightarrow> yields P F (map_err g m)"
  by (auto simp: yields_def intro!: wp_map_err)

lemma yields_if [yields_intros]:
  "(b \<Longrightarrow> yields P F m) \<Longrightarrow> (\<not> b \<Longrightarrow> yields P F m') \<Longrightarrow> yields P F (if b then m else m')"
  by simp

lemma yields_option [yields_intros]:
  "(v = None \<Longrightarrow> yields P F m) \<Longrightarrow> (\<And>x. v = Some x \<Longrightarrow> yields P F (f x)) \<Longrightarrow>
   yields P F (case v of None \<Rightarrow> m | Some x \<Rightarrow> f x)"
  by (cases v) auto

lemma yields_sum [yields_intros]:
  "(\<And>x. v = Inl x \<Longrightarrow> yields P F (f x)) \<Longrightarrow> (\<And>x. v = Inr x \<Longrightarrow> yields P F (g x)) \<Longrightarrow>
   yields P F (case v of Inl x \<Rightarrow> f x | Inr x \<Rightarrow> g x)"
  by (cases v) auto

lemma yields_fold_io:
  assumes "\<And>acc x. x \<in> set xs \<Longrightarrow> yields (\<lambda>_. True) F (f acc x)"
  shows "yields (\<lambda>_. True) F (fold_io f acc xs)"
  using assms
proof (induction xs arbitrary: acc)
  case (Cons x xs)
  then show ?case by (auto intro!: yields_and_then)
qed (simp add: yields_ok)

subsection \<open>Programs over a part of the state\<close>

definition in_store :: "('s, 'e, 'a) io \<Rightarrow> ('s \<times> 'c, 'e, 'a) io" where
  "in_store m = (\<lambda>(s, c). let (r, t) = m s in (r, (t, c)))"

lemma wp_in_store [wp_intros]:
  "wp m (\<lambda>x t. Q x (t, snd p)) (\<lambda>e t. E e (t, snd p)) (fst p) \<Longrightarrow> wp (in_store m) Q E p"
  by (cases p) (auto simp: wp_def in_store_def split: prod.splits sum.splits)

lemma yields_in_store: "yields P F m \<Longrightarrow> yields P F (in_store m)"
  by (rule yieldsI, rule wp_in_store, erule yields_wp)

end
