(* ===== verification/Keys.thy ===== *)
theory Keys
  imports Prelude
begin

text \<open>
  Object keys: \<open>src/keys.rs\<close>, \<open>src/packchain/keys.rs\<close>, the key helpers of
  \<open>src/protocol/push.rs\<close> and of \<open>src/packchain/gc.rs\<close>, and the 40-hex validation of
  \<open>Sha40\<close>. A key prefix is \<open>None\<close> or \<open>Some p\<close>; \<open>None\<close> and \<open>Some ''''\<close> give the same keys.
  The lemmas show that each inspector inverts the builder it belongs to, that the
  namespaces of the key families are disjoint, and that every key built for a ref lies
  under that ref's listing prefix.

  Third-party code the repository calls is the record \<open>ext\<close>, an argument of every
  definition that needs it: hex decoding of object ids and ref-name validation from gix,
  JSON text from \<open>serde_json\<close>, RFC 3339 timestamps from \<open>time\<close>.
\<close>

subsection \<open>Third-party functions\<close>

text \<open>A JSON document as \<open>serde_json\<close> sees it; object members keep their order.\<close>

datatype json =
    JNull
  | JBool bool
  | JInt int
  | JFloat string
  | JStr string
  | JArr "json list"
  | JObj "(string \<times> json) list"

record ext =
  oid_from_hex :: "string \<Rightarrow> string option"
  ref_name_ok :: "string \<Rightarrow> bool"
  ref_partial_ok :: "string \<Rightarrow> bool"
  json_parse :: "string \<Rightarrow> json option"
  json_print :: "json \<Rightarrow> string"
  rfc3339_format :: "int \<Rightarrow> string option"
  rfc3339_parse :: "string \<Rightarrow> int option"

subsection \<open>src/keys.rs\<close>

definition PROTECTED_MARKER_SEGMENT :: string where
  "PROTECTED_MARKER_SEGMENT = ''PROTECTED#''"

definition is_protected_marker_segment :: "string \<Rightarrow> bool" where
  "is_protected_marker_segment seg = (seg = PROTECTED_MARKER_SEGMENT)"

text \<open>\<open>ObjectMeta\<close> of \<open>src/object_store/mod.rs\<close>; times are in nanoseconds.\<close>

record object_meta =
  om_key :: string
  om_size :: nat
  om_last_modified :: int
  om_etag :: "string option"

definition entries_have_protected_marker :: "object_meta list \<Rightarrow> bool" where
  "entries_have_protected_marker entries =
     list_ex (\<lambda>e. case rsplit_once CHR ''/'' (om_key e) of
                    None \<Rightarrow> False
                  | Some (_, seg) \<Rightarrow> is_protected_marker_segment seg) entries"

definition join :: "string option \<Rightarrow> string \<Rightarrow> string" where
  "join pfx sfx =
     (case pfx of
        Some p \<Rightarrow>
          if p \<noteq> [] then (if sfx = [] then p @ ''/'' else p @ ''/'' @ sfx) else sfx
      | None \<Rightarrow> sfx)"

definition ref_listing_prefix :: "string option \<Rightarrow> string \<Rightarrow> string" where
  "ref_listing_prefix pfx ref_path =
     (case pfx of
        Some p \<Rightarrow> if p \<noteq> [] then p @ ''/'' @ ref_path @ ''/'' else ref_path @ ''/''
      | None \<Rightarrow> ref_path @ ''/'')"

definition is_lower_hex :: "char \<Rightarrow> bool" where
  "is_lower_hex b \<longleftrightarrow> (CHR ''0'' \<le> b \<and> b \<le> CHR ''9'') \<or> (CHR ''a'' \<le> b \<and> b \<le> CHR ''f'')"

definition is_valid_bundle_stem :: "string \<Rightarrow> bool" where
  "is_valid_bundle_stem stem \<longleftrightarrow> length stem = 40 \<and> list_all is_lower_hex stem"

definition bundle_key :: "string option \<Rightarrow> string \<Rightarrow> string \<Rightarrow> string" where
  "bundle_key pfx ref_name sha =
     (case pfx of
        Some p \<Rightarrow>
          if p \<noteq> [] then p @ ''/'' @ ref_name @ ''/'' @ sha @ ''.bundle''
          else ref_name @ ''/'' @ sha @ ''.bundle''
      | None \<Rightarrow> ref_name @ ''/'' @ sha @ ''.bundle'')"

subsection \<open>The key helpers of src/protocol/push.rs\<close>

definition lock_key :: "string option \<Rightarrow> string \<Rightarrow> string" where
  "lock_key pfx remote_ref = ref_listing_prefix pfx remote_ref @ ''LOCK#.lock''"

definition archive_key :: "string option \<Rightarrow> string \<Rightarrow> string" where
  "archive_key pfx remote_ref = ref_listing_prefix pfx remote_ref @ ''repo.zip''"

definition head_key :: "string option \<Rightarrow> string" where
  "head_key pfx = join pfx ''HEAD''"

definition protected_marker_key :: "string option \<Rightarrow> string \<Rightarrow> string" where
  "protected_marker_key pfx remote_ref =
     ref_listing_prefix pfx remote_ref @ PROTECTED_MARKER_SEGMENT"

definition parse_remote_sha_stem_from_key :: "string \<Rightarrow> string option" where
  "parse_remote_sha_stem_from_key key =
     (case strip_suffix ''.bundle'' (last_segment CHR ''/'' key) of
        None \<Rightarrow> None
      | Some stem \<Rightarrow> if \<not> is_valid_bundle_stem stem then None else Some stem)"

text \<open>\<open>Sha::from_hex\<close> of \<open>src/git.rs\<close>; an object id is its lower-case hex display.\<close>

datatype sha_error = ShaEmpty | ShaDecode

definition sha_from_hex :: "ext \<Rightarrow> string \<Rightarrow> sha_error + string" where
  "sha_from_hex x hex =
     (if hex = [] then Inl ShaEmpty
      else case oid_from_hex x hex of None \<Rightarrow> Inl ShaDecode | Some oid \<Rightarrow> Inr oid)"

definition parse_remote_sha_from_key :: "ext \<Rightarrow> string \<Rightarrow> string option" where
  "parse_remote_sha_from_key x key =
     (case parse_remote_sha_stem_from_key key of
        None \<Rightarrow> None
      | Some stem \<Rightarrow> (case sha_from_hex x stem of Inl _ \<Rightarrow> None | Inr sha \<Rightarrow> Some sha))"

definition is_bundle_candidate :: "ext \<Rightarrow> string \<Rightarrow> bool" where
  "is_bundle_candidate x key \<longleftrightarrow> parse_remote_sha_from_key x key \<noteq> None"

subsection \<open>src/packchain/keys.rs\<close>

text \<open>\<open>Sha40::try_new\<close>: the same 40-lower-hex check; the error carries the string.\<close>

definition sha40_try_new :: "string \<Rightarrow> string + string" where
  "sha40_try_new s =
     (if length s \<noteq> 40 \<or> \<not> list_all is_lower_hex s then Inl s else Inr s)"

definition CHAIN_JSON_SUFFIX :: string where
  "CHAIN_JSON_SUFFIX = ''/chain.json''"

definition is_chain_json_key :: "string \<Rightarrow> bool" where
  "is_chain_json_key key = ends_with key CHAIN_JSON_SUFFIX"

definition pack_key_from_relative :: "string option \<Rightarrow> string \<Rightarrow> string" where
  "pack_key_from_relative pfx bucket_relative_pack = join pfx bucket_relative_pack"

definition ref_path_from_chain_key :: "string option \<Rightarrow> string \<Rightarrow> string option" where
  "ref_path_from_chain_key pfx key =
     (case strip_suffix CHAIN_JSON_SUFFIX key of
        None \<Rightarrow> None
      | Some without_suffix \<Rightarrow>
          (case pfx of
             None \<Rightarrow> Some without_suffix
           | Some p \<Rightarrow>
               if p = [] then Some without_suffix
               else Option.bind (strip_prefix p without_suffix) (strip_prefix ''/'')))"

definition sha_from_pack_key :: "string \<Rightarrow> string option" where
  "sha_from_pack_key pack =
     (case rsplit_once CHR ''/'' pack of
        None \<Rightarrow> None
      | Some (parent, basename) \<Rightarrow>
          (case strip_suffix ''.pack'' basename of
             None \<Rightarrow> None
           | Some sha \<Rightarrow>
               if parent \<noteq> ''packs'' \<and> \<not> ends_with parent ''/packs'' then None
               else (case sha40_try_new sha of Inl _ \<Rightarrow> None | Inr s \<Rightarrow> Some s)))"

definition chain_key :: "string option \<Rightarrow> string \<Rightarrow> string" where
  "chain_key pfx ref_name =
     (case pfx of
        Some p \<Rightarrow>
          if p \<noteq> [] then p @ ''/'' @ ref_name @ ''/chain.json'' else ref_name @ ''/chain.json''
      | None \<Rightarrow> ref_name @ ''/chain.json'')"

definition path_index_key :: "string option \<Rightarrow> string \<Rightarrow> string" where
  "path_index_key pfx ref_name =
     (case pfx of
        Some p \<Rightarrow>
          if p \<noteq> [] then p @ ''/'' @ ref_name @ ''/path-index.json''
          else ref_name @ ''/path-index.json''
      | None \<Rightarrow> ref_name @ ''/path-index.json'')"

definition or_else :: "'a option \<Rightarrow> 'a option \<Rightarrow> 'a option" where
  "or_else a b = (case a of None \<Rightarrow> b | Some _ \<Rightarrow> a)"

definition pack_sha_from_full_key :: "string option \<Rightarrow> string \<Rightarrow> string option" where
  "pack_sha_from_full_key pfx key =
     (let unprefixed =
        (case pfx of
           Some p \<Rightarrow>
             if p \<noteq> [] then Option.bind (strip_prefix p key) (strip_prefix ''/'') else Some key
         | None \<Rightarrow> Some key)
      in Option.bind unprefixed (\<lambda>u.
         Option.bind (strip_prefix ''packs/'' u) (\<lambda>s.
         Option.bind (or_else (strip_suffix ''.pack'' s) (strip_suffix ''.idx'' s)) (\<lambda>stem.
           case sha40_try_new stem of Inl _ \<Rightarrow> None | Inr sha \<Rightarrow> Some sha))))"

definition pack_key :: "string option \<Rightarrow> string \<Rightarrow> string" where
  "pack_key pfx sha =
     (case pfx of
        Some p \<Rightarrow>
          if p \<noteq> [] then p @ ''/packs/'' @ sha @ ''.pack'' else ''packs/'' @ sha @ ''.pack''
      | None \<Rightarrow> ''packs/'' @ sha @ ''.pack'')"

definition pack_idx_key :: "string option \<Rightarrow> string \<Rightarrow> string" where
  "pack_idx_key pfx sha =
     (case pfx of
        Some p \<Rightarrow>
          if p \<noteq> [] then p @ ''/packs/'' @ sha @ ''.idx'' else ''packs/'' @ sha @ ''.idx''
      | None \<Rightarrow> ''packs/'' @ sha @ ''.idx'')"

subsection \<open>The key helpers of src/packchain/gc.rs\<close>

definition gc_listing_prefix :: "string \<Rightarrow> string" where
  "gc_listing_prefix pfx = join (Some pfx) ''gc/''"

definition tombstone_key :: "string \<Rightarrow> string \<Rightarrow> string \<Rightarrow> string" where
  "tombstone_key pfx run_id marked_at =
     join (Some pfx) (''gc/tombstones-'' @ run_id @ ''-'' @ marked_at @ ''.json'')"

definition BASELINE_TOMBSTONE_KEY_FRAGMENT :: string where
  "BASELINE_TOMBSTONE_KEY_FRAGMENT = ''gc/baseline-tomb-''"

definition baseline_tombstone_key :: "string \<Rightarrow> string \<Rightarrow> string" where
  "baseline_tombstone_key pfx run_id =
     join (Some pfx) (BASELINE_TOMBSTONE_KEY_FRAGMENT @ run_id @ ''.json'')"

definition baseline_tombstone_listing_prefix :: "string option \<Rightarrow> string" where
  "baseline_tombstone_listing_prefix pfx = join pfx BASELINE_TOMBSTONE_KEY_FRAGMENT"

definition is_tombstone_key :: "string \<Rightarrow> string \<Rightarrow> bool" where
  "is_tombstone_key key pfx = starts_with key (join (Some pfx) ''gc/tombstones-'')"

definition is_baseline_tombstone_key :: "string \<Rightarrow> string \<Rightarrow> bool" where
  "is_baseline_tombstone_key key pfx =
     starts_with key (baseline_tombstone_listing_prefix (Some pfx))"


subsection \<open>One shape for every builder\<close>

text \<open>\<open>key_base\<close> is the "empty prefix means no leading slash" rule, in one place.\<close>

definition key_base :: "string option \<Rightarrow> string" where
  "key_base pfx = (case pfx of Some p \<Rightarrow> if p \<noteq> [] then p @ ''/'' else [] | None \<Rightarrow> [])"

lemma join_base: "join pfx sfx = key_base pfx @ sfx"
  and ref_listing_prefix_base: "ref_listing_prefix pfx r = key_base pfx @ r @ ''/''"
  and bundle_key_base: "bundle_key pfx r sha = key_base pfx @ r @ ''/'' @ sha @ ''.bundle''"
  and chain_key_base: "chain_key pfx r = key_base pfx @ r @ ''/chain.json''"
  and path_index_key_base: "path_index_key pfx r = key_base pfx @ r @ ''/path-index.json''"
  and pack_key_base: "pack_key pfx sha = key_base pfx @ ''packs/'' @ sha @ ''.pack''"
  and pack_idx_key_base: "pack_idx_key pfx sha = key_base pfx @ ''packs/'' @ sha @ ''.idx''"
  by (auto simp: join_def ref_listing_prefix_def bundle_key_def chain_key_def path_index_key_def
      pack_key_def pack_idx_key_def key_base_def split: option.splits)

lemmas builder_base =
  join_base ref_listing_prefix_base bundle_key_base chain_key_base path_index_key_base
  pack_key_base pack_idx_key_base

lemmas ref_key_defs =
  lock_key_def archive_key_def protected_marker_key_def PROTECTED_MARKER_SEGMENT_def

lemma key_base_empty [simp]: "key_base (Some []) = []" "key_base None = []"
  by (simp_all add: key_base_def)

lemma key_base_nonempty [simp]: "key_base (if p \<noteq> [] then Some p else None) = key_base (Some p)"
  by (simp add: key_base_def)

lemma strip_key_base:
  "(case pfx of
      None \<Rightarrow> Some s
    | Some p \<Rightarrow> if p = [] then Some s else Option.bind (strip_prefix p s) (strip_prefix ''/''))
   = Some r \<longleftrightarrow> s = key_base pfx @ r"
  by (auto simp: key_base_def bind_eq_Some_conv split: option.splits)

definition utf8_prefix :: "string option \<Rightarrow> bool" where
  "utf8_prefix pfx \<longleftrightarrow> (case pfx of None \<Rightarrow> True | Some p \<Rightarrow> utf8_valid p)"

lemma utf8_key_base: "utf8_prefix pfx \<Longrightarrow> utf8_valid (key_base pfx)"
  by (auto simp: utf8_prefix_def key_base_def utf8_valid_append utf8_valid_ascii
      split: option.splits)

lemma utf8_prefix_simps [simp]: "utf8_prefix None" "utf8_prefix (Some p) \<longleftrightarrow> utf8_valid p"
  by (simp_all add: utf8_prefix_def)

lemma listable_base:
  "utf8_prefix pfx \<Longrightarrow> utf8_valid d \<Longrightarrow> listable (key_base pfx @ d @ ''/'')"
  by (simp add: listable_def utf8_valid_append utf8_valid_ascii utf8_key_base)

lemma listable_ref [simp]:
  "utf8_prefix pfx \<Longrightarrow> utf8_valid r \<Longrightarrow> listable (ref_listing_prefix pfx r)"
  by (simp add: ref_listing_prefix_base listable_base)

lemma listable_gc [simp]: "utf8_valid p \<Longrightarrow> listable (gc_listing_prefix p)"
  using listable_base [of "Some p" "''gc''"]
  by (simp add: gc_listing_prefix_def join_base utf8_valid_ascii)

lemma listable_dir [simp]:
  "utf8_prefix pfx \<Longrightarrow> listable (join pfx ''refs/'')"
  "utf8_prefix pfx \<Longrightarrow> listable (join pfx ''packs/'')"
  using listable_base [of pfx "''refs''"] listable_base [of pfx "''packs''"]
  by (simp_all add: join_base utf8_valid_ascii)

lemma key_under_listing [simp]:
  "prefix (ref_listing_prefix pfx r) (bundle_key pfx r sha)"
  "prefix (ref_listing_prefix pfx r) (lock_key pfx r)"
  "prefix (ref_listing_prefix pfx r) (archive_key pfx r)"
  "prefix (ref_listing_prefix pfx r) (protected_marker_key pfx r)"
  "prefix (ref_listing_prefix pfx r) (chain_key pfx r)"
  "prefix (ref_listing_prefix pfx r) (path_index_key pfx r)"
  by (simp_all add: builder_base ref_key_defs)

subsection \<open>Hexadecimal stems\<close>

lemma is_lower_hex_sep [simp]: "\<not> is_lower_hex CHR ''/''" "\<not> is_lower_hex CHR ''.''"
  by (simp_all add: is_lower_hex_def less_eq_char_def)

lemma valid_stem_sep [simp]:
  "is_valid_bundle_stem sha \<Longrightarrow> CHR ''/'' \<notin> set sha"
  "is_valid_bundle_stem sha \<Longrightarrow> CHR ''.'' \<notin> set sha"
  by (auto simp: is_valid_bundle_stem_def list_all_iff)

lemma sha40_try_new_Inr [simp]: "sha40_try_new s = Inr t \<longleftrightarrow> is_valid_bundle_stem s \<and> t = s"
  by (auto simp: sha40_try_new_def is_valid_bundle_stem_def)

lemma sha40_option [simp]:
  "(case sha40_try_new s of Inl _ \<Rightarrow> None | Inr t \<Rightarrow> Some t) = Some t
   \<longleftrightarrow> is_valid_bundle_stem s \<and> t = s"
  by (auto simp: sha40_try_new_def is_valid_bundle_stem_def)

lemma sha40_valid: "is_valid_bundle_stem s \<Longrightarrow> sha40_try_new s = Inr s"
  by simp

text \<open>What \<open>ObjectId::from_hex\<close> is documented to do on 40 lower-case hex digits.\<close>

definition hex_law :: "ext \<Rightarrow> bool" where
  "hex_law x \<longleftrightarrow> (\<forall>h. is_valid_bundle_stem h \<longrightarrow> oid_from_hex x h = Some h)"

lemma sha_from_hex_valid [simp]:
  "hex_law x \<Longrightarrow> is_valid_bundle_stem h \<Longrightarrow> sha_from_hex x h = Inr h"
  by (auto simp: sha_from_hex_def hex_law_def is_valid_bundle_stem_def)

lemma parse_stem_Some:
  "parse_remote_sha_stem_from_key key = Some stem \<longleftrightarrow>
     last_segment CHR ''/'' key = stem @ ''.bundle'' \<and> is_valid_bundle_stem stem"
  by (auto simp: parse_remote_sha_stem_from_key_def split: option.splits)

lemma parse_sha_iff_stem:
  "hex_law x \<Longrightarrow> parse_remote_sha_from_key x key = parse_remote_sha_stem_from_key key"
  using parse_stem_Some [of key "the (parse_remote_sha_stem_from_key key)"]
  by (auto simp: parse_remote_sha_from_key_def split: option.split)

lemma parse_stem_bundle_key:
  "is_valid_bundle_stem sha \<Longrightarrow> parse_remote_sha_stem_from_key (bundle_key pfx r sha) = Some sha"
proof -
  assume sha: "is_valid_bundle_stem sha"
  then have "CHR ''/'' \<notin> set (sha @ ''.bundle'')" by simp
  then have "last_segment CHR ''/'' ((key_base pfx @ r) @ CHR ''/'' # sha @ ''.bundle'') = sha @ ''.bundle''"
    by (rule last_segment_append)
  with sha show ?thesis by (simp add: parse_stem_Some bundle_key_base)
qed

lemma last_segment_listing:
  "CHR ''/'' \<notin> set seg \<Longrightarrow> last_segment CHR ''/'' (ref_listing_prefix pfx r @ seg) = seg"
  using last_segment_append [of "CHR ''/''" seg "key_base pfx @ r"]
  by (simp add: ref_listing_prefix_base)

lemma not_candidate_special [simp]:
  "\<not> is_bundle_candidate x (lock_key pfx r)"
  "\<not> is_bundle_candidate x (archive_key pfx r)"
  "\<not> is_bundle_candidate x (protected_marker_key pfx r)"
  by (simp_all add: is_bundle_candidate_def parse_remote_sha_from_key_def ref_key_defs
      parse_remote_sha_stem_from_key_def last_segment_listing strip_suffix_def)

lemma candidate_bundle_key [simp]:
  "hex_law x \<Longrightarrow> is_valid_bundle_stem sha \<Longrightarrow> is_bundle_candidate x (bundle_key pfx r sha)"
  by (simp add: is_bundle_candidate_def parse_sha_iff_stem parse_stem_bundle_key)

lemma bundle_key_inject:
  assumes "is_valid_bundle_stem sha" "is_valid_bundle_stem sha'"
  shows "bundle_key pfx r sha = bundle_key pfx r' sha' \<longleftrightarrow> r = r' \<and> sha = sha'"
proof
  assume eq: "bundle_key pfx r sha = bundle_key pfx r' sha'"
  then have "Some sha = Some sha'" using assms by (metis parse_stem_bundle_key)
  with eq show "r = r' \<and> sha = sha'" by (simp add: bundle_key_base)
qed simp

subsection \<open>Packs and chains\<close>

lemma ref_path_from_chain_key_Some:
  "ref_path_from_chain_key pfx key = Some r \<longleftrightarrow> key = chain_key pfx r"
proof
  assume "ref_path_from_chain_key pfx key = Some r"
  then obtain w where w: "key = w @ CHAIN_JSON_SUFFIX"
    and r: "(case pfx of None \<Rightarrow> Some w | Some p \<Rightarrow> if p = [] then Some w
        else Option.bind (strip_prefix p w) (strip_prefix ''/'')) = Some r"
    by (auto simp: ref_path_from_chain_key_def split: option.splits)
  from r have "w = key_base pfx @ r" by (simp only: strip_key_base)
  with w show "key = chain_key pfx r" by (simp add: chain_key_base CHAIN_JSON_SUFFIX_def)
next
  assume "key = chain_key pfx r"
  then have s: "strip_suffix CHAIN_JSON_SUFFIX key = Some (key_base pfx @ r)"
    by (simp add: chain_key_base CHAIN_JSON_SUFFIX_def)
  have "(case pfx of None \<Rightarrow> Some (key_base pfx @ r) | Some p \<Rightarrow> if p = [] then Some (key_base pfx @ r)
        else Option.bind (strip_prefix p (key_base pfx @ r)) (strip_prefix ''/'')) = Some r"
    by (simp only: strip_key_base)
  then show "ref_path_from_chain_key pfx key = Some r"
    unfolding ref_path_from_chain_key_def s option.case(2) .
qed

lemma chain_key_is_chain [simp]: "is_chain_json_key (chain_key pfx r)"
  by (simp add: is_chain_json_key_def chain_key_base CHAIN_JSON_SUFFIX_def suffix_def)

lemma or_else_Some: "or_else a b = Some v \<longleftrightarrow> a = Some v \<or> (a = None \<and> b = Some v)"
  by (auto simp: or_else_def split: option.splits)

lemma strip_full_key:
  "(case pfx of
      Some p \<Rightarrow> if p \<noteq> [] then Option.bind (strip_prefix p key) (strip_prefix ''/'') else Some key
    | None \<Rightarrow> Some key) = Some u \<longleftrightarrow> key = key_base pfx @ u"
  using strip_key_base [where pfx = pfx and s = key and r = u] by (cases pfx) auto

lemma pack_and_idx_differ: "a @ ''.pack'' \<noteq> b @ ''.idx''"
proof
  assume "a @ ''.pack'' = b @ ''.idx''"
  then have "last (a @ ''.pack'') = last (b @ ''.idx'')" by simp
  then show False by simp
qed

text \<open>The full-key inspector accepts exactly the pack and index keys under the prefix.\<close>

lemma pack_sha_from_full_key_Some:
  "pack_sha_from_full_key pfx key = Some sha \<longleftrightarrow>
     is_valid_bundle_stem sha \<and> (key = pack_key pfx sha \<or> key = pack_idx_key pfx sha)"
  unfolding pack_sha_from_full_key_def Let_def bind_eq_Some_conv strip_full_key
  by (auto simp: or_else_Some strip_suffix_None suffix_def builder_base pack_and_idx_differ)

lemma sha_from_pack_key_pack_key:
  "is_valid_bundle_stem sha \<Longrightarrow> sha_from_pack_key (pack_key pfx sha) = Some sha"
proof -
  assume sha: "is_valid_bundle_stem sha"
  then have "CHR ''/'' \<notin> set (sha @ ''.pack'')" by simp
  then have s: "rsplit_once CHR ''/'' ((key_base pfx @ ''packs'') @ CHR ''/'' # sha @ ''.pack'')
      = Some (key_base pfx @ ''packs'', sha @ ''.pack'')"
    by (rule rsplit_once_append)
  have "key_base pfx @ ''packs'' = ''packs'' \<or> suffix ''/packs'' (key_base pfx @ ''packs'')"
    by (auto simp: key_base_def suffix_def split: option.splits)
  with s sha show ?thesis by (simp add: sha_from_pack_key_def pack_key_base)
qed

lemma sha_from_pack_key_valid: "sha_from_pack_key k = Some sha \<Longrightarrow> is_valid_bundle_stem sha"
  by (auto simp: sha_from_pack_key_def split: option.splits if_splits prod.splits)

lemma protected_marker_found:
  "e \<in> set es \<Longrightarrow> om_key e = protected_marker_key pfx r \<Longrightarrow> entries_have_protected_marker es"
proof -
  assume e: "e \<in> set es" "om_key e = protected_marker_key pfx r"
  have "rsplit_once CHR ''/'' ((key_base pfx @ r) @ CHR ''/'' # PROTECTED_MARKER_SEGMENT)
      = Some (key_base pfx @ r, PROTECTED_MARKER_SEGMENT)"
    by (rule rsplit_once_append) (simp add: PROTECTED_MARKER_SEGMENT_def)
  with e show ?thesis
    by (auto simp: entries_have_protected_marker_def list_ex_iff protected_marker_key_def
        ref_listing_prefix_base is_protected_marker_segment_def intro!: bexI [of _ e])
qed

lemma entries_protected_iff:
  "entries_have_protected_marker es \<longleftrightarrow>
     (\<exists>e \<in> set es. \<exists>d. om_key e = d @ CHR ''/'' # PROTECTED_MARKER_SEGMENT)"
proof -
  have free: "CHR ''/'' \<notin> set PROTECTED_MARKER_SEGMENT"
    by (simp add: PROTECTED_MARKER_SEGMENT_def)
  have "(case rsplit_once CHR ''/'' k of None \<Rightarrow> False | Some (_, seg) \<Rightarrow> is_protected_marker_segment seg)
     \<longleftrightarrow> (\<exists>d. rsplit_once CHR ''/'' k = Some (d, PROTECTED_MARKER_SEGMENT))" for k
    by (auto simp: is_protected_marker_segment_def split: option.splits)
  then show ?thesis
    by (simp add: entries_have_protected_marker_def list_ex_iff rsplit_once_Some free)
qed

end
