(* ===== verification/Object_Store.thy ===== *)
theory Object_Store
  imports Keys
begin

text \<open>
  The object-store interface: \<open>src/object_store/error.rs\<close> (the error type and its display)
  and \<open>src/object_store/mod.rs\<close> (the \<open>ObjectStore\<close> trait, its option types and the range
  checks every backend shares). A \<open>&dyn ObjectStore\<close> is a record of operations over a
  state \<open>'s\<close>; every client below takes such a record.

  \<open>store_contract\<close> is the trait's documented contract as a locale: what the operations
  tell a client about \<open>view\<close>, the map from keys to bodies and modification times. A write
  that reports an error may or may not have taken effect, as on a real network.
  \<open>honest\<close> excludes answers that a concurrent client would cause (an object reported
  missing that is there). \<open>calm_store\<close> adds that operations do not fail, for the theorems
  that say a client finishes its work.
\<close>

subsection \<open>Errors (src/object_store/error.rs)\<close>

datatype store_error =
    NotFound string
  | AccessDenied string
  | PreconditionFailed string
  | Conflict string
  | PayloadTooLarge nat
  | RangeNotSatisfiable string nat nat
  | Network string
  | Unsupported string
  | OtherError string

definition format_byte_limit :: "nat \<Rightarrow> string" where
  "format_byte_limit bytes =
     (let GIB = 2 ^ 30; MIB = 2 ^ 20 in
      if GIB \<le> bytes \<and> bytes mod GIB = 0 then show_nat (bytes div GIB) @ '' GiB''
      else if MIB \<le> bytes \<and> bytes mod MIB = 0 then show_nat (bytes div MIB) @ '' MiB''
      else show_nat bytes @ '' B'')"

fun store_error_display :: "store_error \<Rightarrow> string" where
  "store_error_display (NotFound k) = ''object not found: '' @ k"
| "store_error_display (AccessDenied k) = ''access denied: '' @ k"
| "store_error_display (PreconditionFailed k) = ''precondition failed: '' @ k"
| "store_error_display (Conflict k) = ''conflict: '' @ k"
| "store_error_display (PayloadTooLarge limit_bytes) =
     ''upload exceeds backend size limit ('' @ format_byte_limit limit_bytes @ '')''"
| "store_error_display (RangeNotSatisfiable key start end') =
     ''range '' @ show_nat start @ ''..'' @ show_nat end' @ '' not satisfiable for key `'' @ key @ ''`''"
| "store_error_display (Network e) = ''network error: '' @ e"
| "store_error_display (Unsupported m) = m"
| "store_error_display (OtherError e) = e"

subsection \<open>The trait (src/object_store/mod.rs)\<close>

text \<open>
  \<open>PutOpts\<close> without its progress callback: the callback observes a transfer and takes no
  part in what the bucket holds (the reports the mock makes are in \<open>Mock_Store\<close>).
\<close>

record put_opts =
  content_disposition :: "string option"
  user_metadata :: "(string \<times> string) list"

definition default_put_opts :: put_opts where
  "default_put_opts = \<lparr>content_disposition = None, user_metadata = []\<rparr>"

definition precheck_range :: "string \<Rightarrow> nat \<Rightarrow> nat \<Rightarrow> store_error + string option" where
  "precheck_range key range_start range_end =
     (if range_start = range_end then Inr (Some [])
      else if range_end < range_start then Inl (RangeNotSatisfiable key range_start range_end)
      else Inr None)"

definition verify_range_response_length ::
    "string \<Rightarrow> nat \<Rightarrow> nat \<Rightarrow> string \<Rightarrow> store_error + string" where
  "verify_range_response_length key range_start range_end body =
     (let expected = range_end - range_start; actual = length body
      in if actual = expected then Inr body
         else Inl (RangeNotSatisfiable key range_start range_end))"

text \<open>
  Local files are outside the bucket: \<open>get_to_file\<close> takes the outcome of writing its
  destination (\<open>None\<close> when the write succeeds) and returns the bytes written, \<open>put_path\<close>
  takes the outcome of reading its source.
\<close>

record 's store_api =
  st_list :: "string \<Rightarrow> ('s, store_error, object_meta list) io"
  st_get_to_file :: "string \<Rightarrow> store_error option \<Rightarrow> ('s, store_error, string) io"
  st_get_bytes :: "string \<Rightarrow> ('s, store_error, string) io"
  st_get_bytes_range :: "string \<Rightarrow> nat \<Rightarrow> nat \<Rightarrow> ('s, store_error, string) io"
  st_put_bytes :: "string \<Rightarrow> string \<Rightarrow> put_opts \<Rightarrow> ('s, store_error, unit) io"
  st_put_path :: "string \<Rightarrow> store_error + string \<Rightarrow> put_opts \<Rightarrow> ('s, store_error, unit) io"
  st_put_if_absent :: "string \<Rightarrow> string \<Rightarrow> ('s, store_error, bool) io"
  st_head :: "string \<Rightarrow> ('s, store_error, object_meta) io"
  st_copy :: "string \<Rightarrow> string \<Rightarrow> ('s, store_error, unit) io"
  st_delete :: "string \<Rightarrow> ('s, store_error, unit) io"
  st_presigned_get_url :: "string \<Rightarrow> nat \<Rightarrow> ('s, store_error, string) io"

text \<open>The trait's default \<open>put_path\<close> (read the file, then \<open>put_bytes\<close>) and default presigner.\<close>

definition default_put_path ::
    "(string \<Rightarrow> string \<Rightarrow> put_opts \<Rightarrow> ('s, store_error, unit) io) \<Rightarrow>
     string \<Rightarrow> store_error + string \<Rightarrow> put_opts \<Rightarrow> ('s, store_error, unit) io" where
  "default_put_path put_bytes key src opts =
     and_then (of_result src) (\<lambda>body. put_bytes key body opts)"

definition default_presigned_get_url :: "string \<Rightarrow> nat \<Rightarrow> ('s, store_error, string) io" where
  "default_presigned_get_url key ttl =
     fail_with (Unsupported ''presigned URLs are not supported by this backend'')"

subsection \<open>The contract\<close>

type_synonym bucket = "string \<Rightarrow> (string \<times> int) option"

text \<open>A listing answers exactly the stored keys with the prefix, each once.\<close>

definition lists :: "string \<Rightarrow> object_meta list \<Rightarrow> bucket \<Rightarrow> bool" where
  "lists p ms v \<longleftrightarrow>
     set (map om_key ms) = {k. prefix p k \<and> v k \<noteq> None} \<and> distinct (map om_key ms) \<and>
     (\<forall>m \<in> set ms. \<exists>b. v (om_key m) = Some (b, om_last_modified m))"

text \<open>The body stored at a key.\<close>

definition body_at :: "bucket \<Rightarrow> string \<Rightarrow> string" where
  "body_at v k = (case v k of Some (b, _) \<Rightarrow> b | None \<Rightarrow> [])"

lemma body_at_Some [simp]: "v k = Some (b, m) \<Longrightarrow> body_at v k = b"
  by (simp add: body_at_def)

text \<open>\<open>wrote k b v v'\<close>: the write of \<open>b\<close> at \<open>k\<close> leads from \<open>v\<close> to \<open>v'\<close>.\<close>

definition wrote :: "string \<Rightarrow> string \<Rightarrow> bucket \<Rightarrow> bucket \<Rightarrow> bool" where
  "wrote k b v v' \<longleftrightarrow> (\<exists>t. v' = v(k \<mapsto> (b, t)))"

lemma wrote_upd [simp]: "wrote k b v (v(k \<mapsto> (b, t)))"
  by (auto simp: wrote_def)

locale store_contract =
  fixes st :: "'s store_api"
    and view :: "'s \<Rightarrow> bucket"
    and honest :: "'s \<Rightarrow> bool"
  assumes list_law: "st_list st p s = (r1, t) \<Longrightarrow>
      view t = view s \<and> (honest s \<longrightarrow> honest t) \<and>
      (\<forall>ms. r1 = Inr ms \<and> listable p \<longrightarrow> lists p ms (view s))"
    and get_to_file_law: "st_get_to_file st k w s = (r2, t) \<Longrightarrow>
      view t = view s \<and> (honest s \<longrightarrow> honest t) \<and>
      (\<forall>b. r2 = Inr b \<longrightarrow> (\<exists>m. view s k = Some (b, m)))"
    and get_bytes_law: "st_get_bytes st k s = (r3, t) \<Longrightarrow>
      view t = view s \<and> (honest s \<longrightarrow> honest t) \<and>
      (\<forall>b. r3 = Inr b \<longrightarrow> (\<exists>m. view s k = Some (b, m))) \<and>
      (\<forall>x. r3 = Inl (NotFound x) \<longrightarrow> view s k = None)"
    and get_bytes_range_law: "st_get_bytes_range st k i j s = (r4, t) \<Longrightarrow>
      view t = view s \<and> (honest s \<longrightarrow> honest t) \<and>
      (\<forall>b. r4 = Inr b \<longrightarrow> length b = j - i \<and> i \<le> j \<and>
        (i < j \<longrightarrow> (\<exists>body m. view s k = Some (body, m) \<and> b = take (j - i) (drop i body))))"
    and put_bytes_law: "st_put_bytes st k b opts s = (r5, t) \<Longrightarrow>
      (honest s \<longrightarrow> honest t) \<and>
      (case r5 of Inr _ \<Rightarrow> wrote k b (view s) (view t)
       | Inl _ \<Rightarrow> view t = view s \<or> wrote k b (view s) (view t))"
    and put_path_law: "st_put_path st k f opts s = (r6, t) \<Longrightarrow>
      (honest s \<longrightarrow> honest t) \<and>
      (case r6 of Inr _ \<Rightarrow> \<exists>b. f = Inr b \<and> wrote k b (view s) (view t)
       | Inl _ \<Rightarrow> view t = view s \<or> (\<exists>b. f = Inr b \<and> wrote k b (view s) (view t)))"
    and put_if_absent_law: "st_put_if_absent st k b s = (r7, t) \<Longrightarrow>
      (honest s \<longrightarrow> honest t) \<and>
      (case r7 of
         Inr True \<Rightarrow> view s k = None \<and> wrote k b (view s) (view t)
       | Inr False \<Rightarrow> view t = view s \<and> (honest s \<longrightarrow> view s k \<noteq> None)
       | Inl _ \<Rightarrow> view t = view s \<or> (view s k = None \<and> wrote k b (view s) (view t)))"
    and head_law: "st_head st k s = (r8, t) \<Longrightarrow>
      view t = view s \<and> (honest s \<longrightarrow> honest t) \<and>
      (\<forall>m. r8 = Inr m \<longrightarrow> om_key m = k \<and>
        (\<exists>b. view s k = Some (b, om_last_modified m) \<and> om_size m = length b)) \<and>
      (\<forall>x. r8 = Inl (NotFound x) \<and> honest s \<longrightarrow> view s k = None)"
    and copy_law: "st_copy st src dst s = (r9, t) \<Longrightarrow>
      (honest s \<longrightarrow> honest t) \<and>
      (case r9 of
         Inr _ \<Rightarrow> \<exists>b m. view s src = Some (b, m) \<and> wrote dst b (view s) (view t)
       | Inl _ \<Rightarrow> view t = view s \<or> (\<exists>b m. view s src = Some (b, m) \<and> wrote dst b (view s) (view t)))"
    and delete_law: "st_delete st k s = (r10, t) \<Longrightarrow>
      (honest s \<longrightarrow> honest t) \<and>
      (\<forall>u. r10 = Inr u \<longrightarrow> view s k \<noteq> None \<and> view t = (view s)(k := None)) \<and>
      (\<forall>e. r10 = Inl e \<longrightarrow> view t = view s \<or> view t = (view s)(k := None)) \<and>
      (\<forall>x. r10 = Inl (NotFound x) \<longrightarrow> view t = view s \<and> (honest s \<longrightarrow> view s k = None))"
    and presign_law: "st_presigned_get_url st k ttl s = (r11, t) \<Longrightarrow>
      view t = view s \<and> (honest s \<longrightarrow> honest t)"
begin

text \<open>The laws as rules of the weakest-precondition calculus.\<close>

lemma wp_st_list [wp_intros]:
  assumes "\<And>ms t. view t = view s \<Longrightarrow> (honest s \<Longrightarrow> honest t) \<Longrightarrow>
      (listable p \<Longrightarrow> lists p ms (view s)) \<Longrightarrow> Q ms t"
    and "\<And>e t. view t = view s \<Longrightarrow> (honest s \<Longrightarrow> honest t) \<Longrightarrow> E e t"
  shows "wp (st_list st p) Q E s"
  by (rule wpI; drule list_law) (use assms in auto)

lemma wp_st_get_bytes [wp_intros]:
  assumes "\<And>b m t. view t = view s \<Longrightarrow> (honest s \<Longrightarrow> honest t) \<Longrightarrow>
      view s k = Some (b, m) \<Longrightarrow> Q b t"
    and "\<And>e t. view t = view s \<Longrightarrow> (honest s \<Longrightarrow> honest t) \<Longrightarrow>
      (\<And>x. e = NotFound x \<Longrightarrow> view s k = None) \<Longrightarrow> E e t"
  shows "wp (st_get_bytes st k) Q E s"
  by (rule wpI; drule get_bytes_law) (use assms in auto)

lemma wp_st_get_to_file [wp_intros]:
  assumes "\<And>b m t. view t = view s \<Longrightarrow> (honest s \<Longrightarrow> honest t) \<Longrightarrow>
      view s k = Some (b, m) \<Longrightarrow> Q b t"
    and "\<And>e t. view t = view s \<Longrightarrow> (honest s \<Longrightarrow> honest t) \<Longrightarrow> E e t"
  shows "wp (st_get_to_file st k w) Q E s"
  by (rule wpI; drule get_to_file_law) (use assms in auto)

lemma wp_st_put_bytes [wp_intros]:
  assumes "\<And>t. (honest s \<Longrightarrow> honest t) \<Longrightarrow> wrote k b (view s) (view t) \<Longrightarrow> Q () t"
    and "\<And>e t. (honest s \<Longrightarrow> honest t) \<Longrightarrow>
      view t = view s \<or> wrote k b (view s) (view t) \<Longrightarrow> E e t"
  shows "wp (st_put_bytes st k b opts) Q E s"
  by (rule wpI; drule put_bytes_law) (use assms in auto)

lemma wp_st_put_path [wp_intros]:
  assumes "\<And>b t. (honest s \<Longrightarrow> honest t) \<Longrightarrow> f = Inr b \<Longrightarrow> wrote k b (view s) (view t) \<Longrightarrow> Q () t"
    and "\<And>e t. (honest s \<Longrightarrow> honest t) \<Longrightarrow>
      view t = view s \<or> (\<exists>b. f = Inr b \<and> wrote k b (view s) (view t)) \<Longrightarrow> E e t"
  shows "wp (st_put_path st k f opts) Q E s"
  by (rule wpI; drule put_path_law) (use assms in auto)

lemma wp_st_put_if_absent [wp_intros]:
  assumes "\<And>t. (honest s \<Longrightarrow> honest t) \<Longrightarrow> view s k = None \<Longrightarrow>
      wrote k b (view s) (view t) \<Longrightarrow> Q True t"
    and "\<And>t. (honest s \<Longrightarrow> honest t) \<Longrightarrow> view t = view s \<Longrightarrow>
      (honest s \<Longrightarrow> view s k \<noteq> None) \<Longrightarrow> Q False t"
    and "\<And>e t. (honest s \<Longrightarrow> honest t) \<Longrightarrow>
      view t = view s \<or> (view s k = None \<and> wrote k b (view s) (view t)) \<Longrightarrow> E e t"
  shows "wp (st_put_if_absent st k b) Q E s"
  by (rule wpI; drule put_if_absent_law) (use assms in \<open>auto split: bool.splits\<close>)

lemma wp_st_head [wp_intros]:
  assumes "\<And>b m t. view t = view s \<Longrightarrow> (honest s \<Longrightarrow> honest t) \<Longrightarrow>
      om_key m = k \<Longrightarrow> view s k = Some (b, om_last_modified m) \<Longrightarrow> Q m t"
    and "\<And>e t. view t = view s \<Longrightarrow> (honest s \<Longrightarrow> honest t) \<Longrightarrow>
      (\<And>x. e = NotFound x \<Longrightarrow> honest s \<Longrightarrow> view s k = None) \<Longrightarrow> E e t"
  shows "wp (st_head st k) Q E s"
  by (rule wpI; drule head_law) (use assms in auto)

lemma wp_st_delete [wp_intros]:
  assumes "\<And>t. (honest s \<Longrightarrow> honest t) \<Longrightarrow> view s k \<noteq> None \<Longrightarrow>
      view t = (view s)(k := None) \<Longrightarrow> Q () t"
    and "\<And>e t. (honest s \<Longrightarrow> honest t) \<Longrightarrow> view t = view s \<or> view t = (view s)(k := None) \<Longrightarrow>
      (\<And>x. e = NotFound x \<Longrightarrow> view t = view s \<and> (honest s \<longrightarrow> view s k = None)) \<Longrightarrow> E e t"
  shows "wp (st_delete st k) Q E s"
  by (rule wpI; drule delete_law) (use assms in auto)

lemma wp_st_copy [wp_intros]:
  assumes "\<And>b m t. (honest s \<Longrightarrow> honest t) \<Longrightarrow> view s src = Some (b, m) \<Longrightarrow>
      wrote dst b (view s) (view t) \<Longrightarrow> Q () t"
    and "\<And>e t. (honest s \<Longrightarrow> honest t) \<Longrightarrow> view t = view s \<or>
      (\<exists>b m. view s src = Some (b, m) \<and> wrote dst b (view s) (view t)) \<Longrightarrow> E e t"
  shows "wp (st_copy st src dst) Q E s"
  by (rule wpI; drule copy_law) (use assms in auto)

end

subsection \<open>Frames\<close>

text \<open>\<open>frame view K\<close>: no key outside \<open>K\<close> changes. \<open>no_loss view K\<close>: no key outside \<open>K\<close> is lost.\<close>

definition frame :: "('s \<Rightarrow> bucket) \<Rightarrow> string set \<Rightarrow> 's \<Rightarrow> 's \<Rightarrow> bool" where
  "frame view K s t \<longleftrightarrow> (\<forall>k. k \<notin> K \<longrightarrow> view t k = view s k)"

lemma frame_refl [simp]: "reflp (frame view K)"
  and frame_trans [simp]: "transp (frame view K)"
  by (auto simp: frame_def reflp_def transp_def)

lemma frameD: "frame view K s t \<Longrightarrow> k \<notin> K \<Longrightarrow> view t k = view s k"
  by (simp add: frame_def)

lemma frame_same: "view t = view s \<Longrightarrow> frame view K s t"
  by (simp add: frame_def)

lemma frame_wrote: "wrote k b (view s) (view t) \<Longrightarrow> k \<in> K \<Longrightarrow> frame view K s t"
  by (auto simp: frame_def wrote_def)

lemma frame_removed: "view t = (view s)(k := None) \<Longrightarrow> k \<in> K \<Longrightarrow> frame view K s t"
  by (auto simp: frame_def)

lemma frame_mono: "frame view K s t \<Longrightarrow> K \<subseteq> L \<Longrightarrow> frame view L s t"
  by (auto simp: frame_def)

lemma keeps_frame_same:
  "(\<And>s r t. m s = (r, t) \<Longrightarrow> view t = view s) \<Longrightarrow> keeps (frame view K) m"
  by (rule keepsI) (simp add: frame_def)

context store_contract
begin

lemma frame_list [keeps_intros]: "keeps (frame view K) (st_list st p)"
  by (rule keeps_frame_same, drule list_law) simp

lemma frame_get [keeps_intros]: "keeps (frame view K) (st_get_bytes st k)"
  by (rule keeps_frame_same, drule get_bytes_law) simp

lemma frame_get_to_file [keeps_intros]: "keeps (frame view K) (st_get_to_file st k w)"
  by (rule keeps_frame_same, drule get_to_file_law) simp

lemma frame_head [keeps_intros]: "keeps (frame view K) (st_head st k)"
  by (rule keeps_frame_same, drule head_law) simp

lemma frame_put [keeps_intros]: "k \<in> K \<Longrightarrow> keeps (frame view K) (st_put_bytes st k b opts)"
  by (rule keepsI, drule put_bytes_law) (auto intro: frame_same frame_wrote split: sum.splits)

lemma frame_put_path [keeps_intros]: "k \<in> K \<Longrightarrow> keeps (frame view K) (st_put_path st k f opts)"
  by (rule keepsI, drule put_path_law) (auto intro: frame_same frame_wrote split: sum.splits)

lemma frame_put_if_absent [keeps_intros]: "k \<in> K \<Longrightarrow> keeps (frame view K) (st_put_if_absent st k b)"
  by (rule keepsI, drule put_if_absent_law)
    (auto intro: frame_same frame_wrote split: sum.splits bool.splits)

lemma frame_delete [keeps_intros]: "k \<in> K \<Longrightarrow> keeps (frame view K) (st_delete st k)"
  by (rule keepsI, drule delete_law) (metis frame_removed frame_same old.sum.exhaust)

lemma frame_copy [keeps_intros]: "dst \<in> K \<Longrightarrow> keeps (frame view K) (st_copy st src dst)"
  by (rule keepsI, drule copy_law) (auto intro: frame_same frame_wrote split: sum.splits)

lemma frame_presign [keeps_intros]: "keeps (frame view K) (st_presigned_get_url st k ttl)"
  by (rule keeps_frame_same, drule presign_law) simp

end

subsection \<open>Stores that do not fail\<close>

locale calm_store = store_contract +
  fixes calm :: "'s \<Rightarrow> bool"
  assumes calm_honest: "calm s \<Longrightarrow> honest s"
    and calm_list: "calm s \<Longrightarrow> \<exists>ms t. st_list st p s = (Inr ms, t) \<and> calm t"
    and calm_get_bytes: "calm s \<Longrightarrow> \<exists>t. calm t \<and> st_get_bytes st k s =
        (case view s k of None \<Rightarrow> Inl (NotFound k) | Some (b, _) \<Rightarrow> Inr b, t)"
    and calm_put_bytes: "calm s \<Longrightarrow> \<exists>t. st_put_bytes st k b opts s = (Inr (), t) \<and> calm t"
    and calm_put_path: "calm s \<Longrightarrow> \<exists>t. st_put_path st k (Inr b) opts s = (Inr (), t) \<and> calm t"
    and calm_put_if_absent: "calm s \<Longrightarrow>
        \<exists>t. st_put_if_absent st k b s = (Inr (view s k = None), t) \<and> calm t"
    and calm_head: "calm s \<Longrightarrow> \<exists>rh t. st_head st k s = (rh, t) \<and> calm t \<and>
        (if view s k = None then rh = Inl (NotFound k) else (\<exists>m. rh = Inr m))"
    and calm_delete: "calm s \<Longrightarrow> \<exists>t. calm t \<and> st_delete st k s =
        (if view s k = None then Inl (NotFound k) else Inr (), t)"
    and calm_get_to_file: "calm s \<Longrightarrow> \<exists>t. calm t \<and> st_get_to_file st k None s =
        (case view s k of None \<Rightarrow> Inl (NotFound k) | Some (b, _) \<Rightarrow> Inr b, t)"
    and calm_get_bytes_range: "calm s \<Longrightarrow> view s k = Some (b, m) \<Longrightarrow> i < j \<Longrightarrow> j \<le> length b \<Longrightarrow>
        \<exists>t. st_get_bytes_range st k i j s = (Inr (take (j - i) (drop i b)), t) \<and> calm t"

context calm_store
begin

text \<open>On a calm store a step has no error branch but the \<open>NotFound\<close> it must report.\<close>

lemma calm_wp_list [calm_intros]:
  assumes "calm s" "\<And>ms t. calm t \<Longrightarrow> view t = view s \<Longrightarrow> (listable p \<Longrightarrow> lists p ms (view s)) \<Longrightarrow> Q ms t"
  shows "wp (st_list st p) Q E s"
proof -
  obtain ms t where run: "st_list st p s = (Inr ms, t)" "calm t" using calm_list assms(1) by blast
  with list_law [OF run(1)] assms(2) show ?thesis by (simp add: wp_def)
qed

lemma calm_wp_get_bytes [calm_intros]:
  assumes "calm s"
    and "\<And>b m t. calm t \<Longrightarrow> view t = view s \<Longrightarrow> view s k = Some (b, m) \<Longrightarrow> Q b t"
    and "\<And>t. calm t \<Longrightarrow> view t = view s \<Longrightarrow> view s k = None \<Longrightarrow> E (NotFound k) t"
  shows "wp (st_get_bytes st k) Q E s"
proof -
  obtain t where run: "calm t" "st_get_bytes st k s =
      (case view s k of None \<Rightarrow> Inl (NotFound k) | Some (b, _) \<Rightarrow> Inr b, t)"
    using calm_get_bytes assms(1) by blast
  with get_bytes_law [OF run(2)] assms(2,3) show ?thesis
    by (auto simp: wp_def split: option.splits)
qed

lemma calm_wp_get_to_file [calm_intros]:
  assumes "calm s"
    and "\<And>b m t. calm t \<Longrightarrow> view t = view s \<Longrightarrow> view s k = Some (b, m) \<Longrightarrow> Q b t"
    and "\<And>t. calm t \<Longrightarrow> view t = view s \<Longrightarrow> view s k = None \<Longrightarrow> E (NotFound k) t"
  shows "wp (st_get_to_file st k None) Q E s"
proof -
  obtain t where run: "calm t" "st_get_to_file st k None s =
      (case view s k of None \<Rightarrow> Inl (NotFound k) | Some (b, _) \<Rightarrow> Inr b, t)"
    using calm_get_to_file assms(1) by blast
  with get_to_file_law [OF run(2)] assms(2,3) show ?thesis
    by (auto simp: wp_def split: option.splits)
qed

lemma calm_wp_put_bytes [calm_intros]:
  assumes "calm s" "\<And>t. calm t \<Longrightarrow> wrote k b (view s) (view t) \<Longrightarrow> Q () t"
  shows "wp (st_put_bytes st k b opts) Q E s"
proof -
  obtain t where run: "st_put_bytes st k b opts s = (Inr (), t)" "calm t"
    using calm_put_bytes assms(1) by blast
  with put_bytes_law [OF run(1)] assms(2) show ?thesis by (simp add: wp_def)
qed

lemma calm_wp_put_path [calm_intros]:
  assumes "calm s" "\<And>t. calm t \<Longrightarrow> wrote k b (view s) (view t) \<Longrightarrow> Q () t"
  shows "wp (st_put_path st k (Inr b) opts) Q E s"
proof -
  obtain t where run: "st_put_path st k (Inr b) opts s = (Inr (), t)" "calm t"
    using calm_put_path assms(1) by blast
  with put_path_law [OF run(1)] assms(2) show ?thesis by (simp add: wp_def)
qed

lemma calm_wp_put_if_absent [calm_intros]:
  assumes "calm s"
    and "\<And>t. calm t \<Longrightarrow> view s k = None \<Longrightarrow> wrote k b (view s) (view t) \<Longrightarrow> Q True t"
    and "\<And>t. calm t \<Longrightarrow> view s k \<noteq> None \<Longrightarrow> view t = view s \<Longrightarrow> Q False t"
  shows "wp (st_put_if_absent st k b) Q E s"
proof -
  obtain t where run: "st_put_if_absent st k b s = (Inr (view s k = None), t)" "calm t"
    using calm_put_if_absent assms(1) by blast
  with put_if_absent_law [OF run(1)] assms(2,3) show ?thesis
    by (cases "view s k = None") (auto simp: wp_def)
qed

lemma calm_wp_head [calm_intros]:
  assumes "calm s"
    and "\<And>b m t. calm t \<Longrightarrow> view t = view s \<Longrightarrow> om_key m = k \<Longrightarrow>
      view s k = Some (b, om_last_modified m) \<Longrightarrow> Q m t"
    and "\<And>t. calm t \<Longrightarrow> view t = view s \<Longrightarrow> view s k = None \<Longrightarrow> E (NotFound k) t"
  shows "wp (st_head st k) Q E s"
proof -
  obtain r t where run: "st_head st k s = (r, t)" "calm t"
    "if view s k = None then r = Inl (NotFound k) else (\<exists>m. r = Inr m)"
    using calm_head assms(1) by blast
  with head_law [OF run(1)] assms(2,3) show ?thesis
    by (auto simp: wp_def split: if_splits)
qed

lemma calm_wp_head_size:
  assumes "calm s" "view s k = Some (b, m)"
    and "\<And>meta t. calm t \<Longrightarrow> view t = view s \<Longrightarrow> om_key meta = k \<Longrightarrow> om_size meta = length b \<Longrightarrow> Q meta t"
  shows "wp (st_head st k) Q E s"
proof -
  obtain r t where run: "st_head st k s = (r, t)" "calm t" "\<exists>m. r = Inr m"
    using calm_head assms(1,2) by (metis option.distinct(1))
  with head_law [OF run(1)] assms(2,3) show ?thesis by (auto simp: wp_def)
qed

lemma calm_wp_get_bytes_range:
  assumes "calm s" "view s k = Some (b, m)" "i < j" "j \<le> length b"
    and "\<And>t. calm t \<Longrightarrow> view t = view s \<Longrightarrow> Q (take (j - i) (drop i b)) t"
  shows "wp (st_get_bytes_range st k i j) Q E s"
proof -
  obtain t where run: "st_get_bytes_range st k i j s = (Inr (take (j - i) (drop i b)), t)" "calm t"
    using calm_get_bytes_range [OF assms(1-4)] by blast
  with get_bytes_range_law [OF run(1)] assms(5) show ?thesis by (simp add: wp_def)
qed

lemma calm_wp_delete [calm_intros]:
  assumes "calm s"
    and "\<And>t. calm t \<Longrightarrow> view s k \<noteq> None \<Longrightarrow> view t = (view s)(k := None) \<Longrightarrow> Q () t"
    and "\<And>t. calm t \<Longrightarrow> view s k = None \<Longrightarrow> view t = view s \<Longrightarrow> E (NotFound k) t"
  shows "wp (st_delete st k) Q E s"
proof -
  obtain t where run: "calm t" "st_delete st k s = (if view s k = None then Inl (NotFound k) else Inr (), t)"
    using calm_delete assms(1) by blast
  show ?thesis
  proof (cases "view s k = None")
    case True
    with run delete_law [OF run(2)] assms(3) show ?thesis by (simp add: wp_def)
  next
    case False
    with run delete_law [OF run(2)] assms(2) show ?thesis by (simp add: wp_def)
  qed
qed

end

end
