(* ===== verification/Mock_Store.thy ===== *)
theory Mock_Store
  imports Object_Store "HOL-Library.RBT" "HOL-Library.Word"
begin

unbundle bit_operations_syntax

text \<open>
  \<open>src/object_store/mock.rs\<close>: the in-memory backend with armed faults, the repository's
  own executable account of what a backend does. Its \<open>BTreeMap\<close> is a red-black tree of
  the library, so a listing is the tree's sorted entries between two bounds, as in the
  code. The wall clock the code reads is the field \<open>clock\<close>. Two results carry the theory:
  the range query over \<open>next_lex\<close> is a prefix query, and the mock satisfies the contract
  of \<open>Object_Store\<close> whatever faults are armed.
\<close>

subsection \<open>State\<close>

datatype fault =
    PreconditionFailedOnPutIfAbsent string
  | NotFoundOnHead string
  | NetworkOnHead string
  | NetworkOnGetBytes string
  | AccessDeniedOnList string
  | AccessDeniedOnAnyList
  | NetworkOnDelete string
  | NotFoundOnDelete string
  | NetworkOnPutPath string
  | NetworkOnPutBytesPrefix string
  | PreconditionFailedOnGetToFile string
  | ContendedPutIfAbsent string

record mock_object =
  mo_body :: string
  mo_last_modified :: int
  mo_content_disposition :: "string option"
  mo_user_metadata :: "(string \<times> string) list"

record mock_state =
  objects :: "(string, mock_object) rbt"
  faults :: "fault list"
  progress_chunk_size :: "nat option"
  presign_stub :: "(string \<Rightarrow> nat \<Rightarrow> store_error + string) option"
  clock :: int

type_synonym 'a mock_io = "(mock_state, store_error, 'a) io"

definition empty_mock :: "int \<Rightarrow> mock_state" where
  "empty_mock now = \<lparr>objects = RBT.empty, faults = [], progress_chunk_size = None,
     presign_stub = None, clock = now\<rparr>"

subsection \<open>Helpers\<close>

text \<open>The FNV-1a hash of the body, sixteen hex digits in quotes.\<close>

definition fnv1a :: "string \<Rightarrow> 64 word" where
  "fnv1a body = foldl (\<lambda>h b. (h XOR of_nat (of_char b)) * 0x100000001b3) 0xcbf29ce484222325 body"

definition hex_digit :: "nat \<Rightarrow> char" where
  "hex_digit d = (if d < 10 then char_of (48 + d) else char_of (87 + d))"

fun hex_pad :: "nat \<Rightarrow> nat \<Rightarrow> string" where
  "hex_pad 0 n = []"
| "hex_pad (Suc w) n = hex_pad w (n div 16) @ [hex_digit (n mod 16)]"

definition mock_etag :: "string \<Rightarrow> string" where
  "mock_etag body = [CHR 0x22] @ hex_pad 16 (unat (fnv1a body)) @ [CHR 0x22]"

text \<open>The sizes the progress callback is called with for a body of the given length.\<close>

function emit_progress_chunks :: "nat \<Rightarrow> nat \<Rightarrow> nat list" where
  "emit_progress_chunks chunk_size remaining =
     (if remaining = 0 \<or> chunk_size = 0 then []
      else let step = min remaining chunk_size
           in step # emit_progress_chunks chunk_size (remaining - step))"
  by pat_completeness auto
termination
  by (relation "measure (\<lambda>(c, r). r)") auto

declare emit_progress_chunks.simps [simp del]

definition emit_progress :: "nat option \<Rightarrow> nat \<Rightarrow> nat list" where
  "emit_progress chunk body_len =
     (if body_len = 0 then []
      else case chunk of
             None \<Rightarrow> [body_len]
           | Some chunk_size \<Rightarrow>
               if chunk_size = 0 then [body_len] else emit_progress_chunks chunk_size body_len)"

text \<open>The first armed fault the operation reacts to is consumed and its error returned.\<close>

fun take_fault :: "(fault \<Rightarrow> store_error option) \<Rightarrow> fault list \<Rightarrow> (store_error \<times> fault list) option" where
  "take_fault f [] = None"
| "take_fault f (x # xs) =
     (case f x of
        Some e \<Rightarrow> Some (e, xs)
      | None \<Rightarrow> map_option (\<lambda>(e, ys). (e, x # ys)) (take_fault f xs))"

definition check_fault :: "(fault \<Rightarrow> store_error option) \<Rightarrow> unit mock_io" where
  "check_fault f = (\<lambda>s. case take_fault f (faults s) of
     None \<Rightarrow> (Inr (), s)
   | Some (e, rest) \<Rightarrow> (Inl e, s\<lparr>faults := rest\<rparr>))"

subsection \<open>The upper bound of a prefix query\<close>

datatype upper_bound = Unbounded | Excluded string

definition below :: "string \<Rightarrow> upper_bound \<Rightarrow> bool" where
  "below k hi = (case hi of Unbounded \<Rightarrow> True | Excluded h \<Rightarrow> k < h)"

definition next_lex :: "string \<Rightarrow> upper_bound" where
  "next_lex p =
     (case dropWhile (\<lambda>b. b = char_of (255 :: nat)) (rev p) of
        [] \<Rightarrow> Unbounded
      | pivot # before \<Rightarrow>
          (let nxt = rev before @ [char_of (of_char pivot + 1 :: nat)]
           in if utf8_valid nxt then Excluded nxt else Unbounded))"

subsection \<open>Operations\<close>

definition with_state :: "(mock_state \<Rightarrow> mock_state) \<Rightarrow> unit mock_io" where
  "with_state f = (\<lambda>s. (Inr (), f s))"

definition insert_with :: "string \<Rightarrow> string \<Rightarrow> int \<Rightarrow> put_opts \<Rightarrow> mock_state \<Rightarrow> mock_state" where
  "insert_with key body last_modified opts s =
     s\<lparr>objects := RBT.insert key
        \<lparr>mo_body = body, mo_last_modified = last_modified,
         mo_content_disposition = content_disposition opts,
         mo_user_metadata = user_metadata opts\<rparr> (objects s)\<rparr>"

definition mock_meta :: "string option \<Rightarrow> string \<times> mock_object \<Rightarrow> object_meta" where
  "mock_meta etag = (\<lambda>(key, ob). \<lparr>om_key = key, om_size = length (mo_body ob),
     om_last_modified = mo_last_modified ob, om_etag = etag\<rparr>)"

definition mock_list :: "string \<Rightarrow> object_meta list mock_io" where
  "mock_list p =
     and_then (check_fault (\<lambda>f. case f of
        AccessDeniedOnList q \<Rightarrow> if q = p then Some (AccessDenied q) else None
      | AccessDeniedOnAnyList \<Rightarrow> Some (AccessDenied p)
      | _ \<Rightarrow> None)) (\<lambda>_ s.
     (Inr (map (mock_meta None)
        (filter (\<lambda>(k, _). p \<le> k \<and> below k (next_lex p)) (RBT.entries (objects s)))), s))"

definition mock_get_bytes :: "string \<Rightarrow> string mock_io" where
  "mock_get_bytes key =
     and_then (check_fault (\<lambda>f. case f of
        NetworkOnGetBytes k \<Rightarrow> if k = key then Some (Network (''mock network: '' @ k)) else None
      | _ \<Rightarrow> None)) (\<lambda>_ s.
     (case RBT.lookup (objects s) key of
        Some ob \<Rightarrow> Inr (mo_body ob)
      | None \<Rightarrow> Inl (NotFound key), s))"

definition mock_get_to_file :: "string \<Rightarrow> store_error option \<Rightarrow> string mock_io" where
  "mock_get_to_file key write_dest =
     and_then (check_fault (\<lambda>f. case f of
        PreconditionFailedOnGetToFile k \<Rightarrow> if k = key then Some (PreconditionFailed k) else None
      | _ \<Rightarrow> None)) (\<lambda>_.
     and_then (mock_get_bytes key) (\<lambda>bytes.
     (case write_dest of Some e \<Rightarrow> fail_with e | None \<Rightarrow> ok bytes)))"

definition mock_get_bytes_range :: "string \<Rightarrow> nat \<Rightarrow> nat \<Rightarrow> string mock_io" where
  "mock_get_bytes_range key range_start range_end =
     and_then (of_result (precheck_range key range_start range_end)) (\<lambda>pre.
     case pre of
       Some empty_body \<Rightarrow> ok empty_body
     | None \<Rightarrow> (\<lambda>s.
         (case RBT.lookup (objects s) key of
            None \<Rightarrow> Inl (NotFound key)
          | Some ob \<Rightarrow>
              if length (mo_body ob) < range_end
              then Inl (RangeNotSatisfiable key range_start range_end)
              else Inr (take (range_end - range_start) (drop range_start (mo_body ob))), s)))"

definition mock_put_bytes :: "string \<Rightarrow> string \<Rightarrow> put_opts \<Rightarrow> unit mock_io" where
  "mock_put_bytes key body opts =
     and_then (check_fault (\<lambda>f. case f of
        NetworkOnPutBytesPrefix p \<Rightarrow>
          if starts_with key p
          then Some (Network (''mock network on put_bytes: '' @ key @ '' (prefix '' @ p @ '')''))
          else None
      | _ \<Rightarrow> None)) (\<lambda>_.
     with_state (\<lambda>s. insert_with key body (clock s) opts s))"

definition mock_put_path :: "string \<Rightarrow> store_error + string \<Rightarrow> put_opts \<Rightarrow> unit mock_io" where
  "mock_put_path key src opts =
     and_then (check_fault (\<lambda>f. case f of
        NetworkOnPutPath k \<Rightarrow>
          if k = key then Some (Network (''mock network on put_path: '' @ k)) else None
      | _ \<Rightarrow> None)) (\<lambda>_.
     and_then (of_result src) (\<lambda>body. mock_put_bytes key body opts))"

definition contended_fault :: "string \<Rightarrow> fault \<Rightarrow> store_error option" where
  "contended_fault key f = (case f of
     ContendedPutIfAbsent k \<Rightarrow> if k = key then Some (Conflict k) else None
   | _ \<Rightarrow> None)"

definition mock_put_if_absent :: "string \<Rightarrow> string \<Rightarrow> bool mock_io" where
  "mock_put_if_absent key body =
     and_then (check_fault (\<lambda>f. case f of
        PreconditionFailedOnPutIfAbsent k \<Rightarrow> if k = key then Some (PreconditionFailed k) else None
      | _ \<Rightarrow> None)) (\<lambda>_ s.
     if RBT.lookup (objects s) key \<noteq> None then (Inr False, s)
     else
       (case take_fault (contended_fault key) (faults s) of
          Some (_, rest) \<Rightarrow> (Inr False, s\<lparr>faults := rest\<rparr>)
        | None \<Rightarrow> (Inr True, insert_with key body (clock s) default_put_opts s)))"

definition mock_head :: "string \<Rightarrow> object_meta mock_io" where
  "mock_head key =
     and_then (check_fault (\<lambda>f. case f of
        NotFoundOnHead k \<Rightarrow> if k = key then Some (NotFound k) else None
      | NetworkOnHead k \<Rightarrow>
          if k = key then Some (Network (''mock network on head: '' @ k)) else None
      | _ \<Rightarrow> None)) (\<lambda>_ s.
     (case RBT.lookup (objects s) key of
        Some ob \<Rightarrow> Inr (mock_meta (Some (mock_etag (mo_body ob))) (key, ob))
      | None \<Rightarrow> Inl (NotFound key), s))"

definition mock_copy :: "string \<Rightarrow> string \<Rightarrow> unit mock_io" where
  "mock_copy src dst = (\<lambda>s.
     case RBT.lookup (objects s) src of
       None \<Rightarrow> (Inl (NotFound src), s)
     | Some ob \<Rightarrow>
         (Inr (), s\<lparr>objects := RBT.insert dst (ob\<lparr>mo_last_modified := clock s\<rparr>) (objects s)\<rparr>))"

definition mock_delete :: "string \<Rightarrow> unit mock_io" where
  "mock_delete key =
     and_then (check_fault (\<lambda>f. case f of
        NetworkOnDelete k \<Rightarrow>
          if k = key then Some (Network (''mock network on delete: '' @ k)) else None
      | NotFoundOnDelete k \<Rightarrow> if k = key then Some (NotFound k) else None
      | _ \<Rightarrow> None)) (\<lambda>_ s.
     case RBT.lookup (objects s) key of
       None \<Rightarrow> (Inl (NotFound key), s)
     | Some _ \<Rightarrow> (Inr (), s\<lparr>objects := RBT.delete key (objects s)\<rparr>))"

definition mock_presigned_get_url :: "string \<Rightarrow> nat \<Rightarrow> string mock_io" where
  "mock_presigned_get_url key ttl = (\<lambda>s.
     case presign_stub s of
       Some stub \<Rightarrow> (stub key ttl, s)
     | None \<Rightarrow> (Inl (Unsupported ''presigned URLs are not supported by this backend''), s))"

definition mock_store :: "mock_state store_api" where
  "mock_store = \<lparr>
     st_list = mock_list, st_get_to_file = mock_get_to_file, st_get_bytes = mock_get_bytes,
     st_get_bytes_range = mock_get_bytes_range, st_put_bytes = mock_put_bytes,
     st_put_path = mock_put_path, st_put_if_absent = mock_put_if_absent, st_head = mock_head,
     st_copy = mock_copy, st_delete = mock_delete,
     st_presigned_get_url = mock_presigned_get_url\<rparr>"

lemma mock_store_sel [simp]:
  "st_list mock_store = mock_list"
  "st_get_to_file mock_store = mock_get_to_file"
  "st_get_bytes mock_store = mock_get_bytes"
  "st_get_bytes_range mock_store = mock_get_bytes_range"
  "st_put_bytes mock_store = mock_put_bytes"
  "st_put_path mock_store = mock_put_path"
  "st_put_if_absent mock_store = mock_put_if_absent"
  "st_head mock_store = mock_head"
  "st_copy mock_store = mock_copy"
  "st_delete mock_store = mock_delete"
  "st_presigned_get_url mock_store = mock_presigned_get_url"
  by (simp_all add: mock_store_def)


subsection \<open>The range query is a prefix query\<close>

lemma char_less_iff: "(c :: char) < d \<longleftrightarrow> (of_char c :: nat) < of_char d"
  by (simp add: less_char_def)

lemma of_char_succ: "(of_char c :: nat) < 255 \<Longrightarrow> (of_char (char_of (of_char c + 1 :: nat) :: char) :: nat) = of_char c + 1"
  by simp

lemma between_succ:
  assumes "(of_char c :: nat) < 255"
  shows "(p @ [c] \<le> k \<and> k < p @ [char_of (of_char c + 1 :: nat)]) \<longleftrightarrow> prefix (p @ [c]) k"
proof (induction p arbitrary: k)
  case Nil
  show ?case
  proof (cases k)
    case (Cons d r)
    have "(c < d \<or> c = d) \<and> (d < char_of (of_char c + 1 :: nat)) \<longleftrightarrow> c = d"
      unfolding char_less_iff of_char_succ [OF assms]
      by (metis Suc_eq_plus1 less_Suc_eq less_asym less_irrefl of_char_eq_iff)
    then show ?thesis by (auto simp: Cons)
  qed simp
next
  case (Cons a p)
  show ?case
  proof (cases k)
    case (Cons d r)
    with Cons.IH [of r] show ?thesis by auto
  qed simp
qed

text \<open>
  The prefixes the code lists with end in an ASCII byte below DEL; for them the bound is
  the successor and the query returns exactly the keys with the prefix.
\<close>

lemma next_lex_snoc:
  assumes "(of_char c :: nat) < 127" "utf8_valid p"
  shows "next_lex (p @ [c]) = Excluded (p @ [char_of (of_char c + 1 :: nat)])"
proof -
  have "c \<noteq> char_of (255 :: nat)"
  proof
    assume "c = char_of (255 :: nat)"
    then have "(of_char c :: nat) = 255" by simp
    with assms show False by simp
  qed
  moreover have "(of_char (char_of (of_char c + 1 :: nat) :: char) :: nat) < 128"
    using assms of_char_succ [of c] by simp
  ultimately show ?thesis
    using assms(2) by (simp add: next_lex_def utf8_valid_snoc_ascii)
qed

lemma range_is_prefix:
  assumes "p = [] \<or> (of_char (last p) :: nat) < 127" "utf8_valid p"
  shows "(p \<le> k \<and> below k (next_lex p)) \<longleftrightarrow> prefix p k"
proof (cases p rule: rev_cases)
  case Nil
  then show ?thesis by (simp add: next_lex_def below_def)
next
  case (snoc q c)
  with assms have c: "(of_char c :: nat) < 127" by simp
  with assms snoc have "utf8_valid q" by (simp add: utf8_valid_snoc_ascii)
  with c show ?thesis using between_succ [of c q k] by (simp add: snoc next_lex_snoc below_def)
qed

subsection \<open>The mock's view of the bucket\<close>

definition mock_view :: "mock_state \<Rightarrow> bucket" where
  "mock_view s k = map_option (\<lambda>ob. (mo_body ob, mo_last_modified ob)) (RBT.lookup (objects s) k)"

text \<open>Faults that make the mock answer as if another client had intervened.\<close>

fun race_fault :: "fault \<Rightarrow> bool" where
  "race_fault (NotFoundOnHead k) = True"
| "race_fault (NotFoundOnDelete k) = True"
| "race_fault (ContendedPutIfAbsent k) = True"
| "race_fault f = False"

definition mock_honest :: "mock_state \<Rightarrow> bool" where
  "mock_honest s \<longleftrightarrow> (\<forall>f \<in> set (faults s). \<not> race_fault f)"

definition mock_calm :: "mock_state \<Rightarrow> bool" where
  "mock_calm s \<longleftrightarrow> faults s = []"

lemma take_fault_subset: "take_fault f xs = Some (e, ys) \<Longrightarrow> set ys \<subseteq> set xs"
  by (induction xs arbitrary: ys) (auto split: option.splits)

lemma take_fault_source: "take_fault f xs = Some (e, ys) \<Longrightarrow> \<exists>x \<in> set xs. f x = Some e"
  by (induction xs arbitrary: ys) (auto split: option.splits)

lemma check_fault_cases:
  "check_fault f s = (r, t) \<Longrightarrow>
   objects t = objects s \<and> clock t = clock s \<and> presign_stub t = presign_stub s \<and>
   set (faults t) \<subseteq> set (faults s) \<and>
   (r = Inr () \<and> t = s \<or> (\<exists>e. r = Inl e \<and> (\<exists>x \<in> set (faults s). f x = Some e)))"
proof (cases "take_fault f (faults s)")
  case (Some ey)
  obtain e ys where "ey = (e, ys)" by force
  then show "check_fault f s = (r, t) \<Longrightarrow> ?thesis"
    using Some take_fault_subset [of f "faults s" e ys] take_fault_source [of f "faults s" e ys]
    by (auto simp: check_fault_def)
qed (simp add: check_fault_def)

lemma mock_view_insert [simp]:
  "mock_view (insert_with k b m opts s) = (mock_view s)(k \<mapsto> (b, m))"
  by (rule ext) (simp add: mock_view_def insert_with_def)

lemma faults_insert [simp]: "faults (insert_with k b m opts s) = faults s"
  by (simp add: insert_with_def)

lemma mock_honest_insert [simp]: "mock_honest (insert_with k b m opts s) = mock_honest s"
  by (simp add: mock_honest_def insert_with_def)

lemma mock_calm_insert [simp]: "mock_calm (insert_with k b m opts s) = mock_calm s"
  by (simp add: mock_calm_def insert_with_def)

lemma mock_view_objects: "objects t = objects s \<Longrightarrow> mock_view t = mock_view s"
  by (rule ext) (simp add: mock_view_def)

lemma mock_honest_subset:
  "set (faults t) \<subseteq> set (faults s) \<Longrightarrow> mock_honest s \<longrightarrow> mock_honest t"
  by (auto simp: mock_honest_def)

text \<open>Every operation starts by consulting the fault queue; this is the case split.\<close>

lemma checked_cases:
  assumes "and_then (check_fault f) g s = (r, t)"
  obtains (fault) e x where "r = Inl e" "mock_view t = mock_view s"
      "mock_honest s \<longrightarrow> mock_honest t" "x \<in> set (faults s)" "f x = Some e"
    | (pass) "g () s = (r, t)"
proof (cases "check_fault f s")
  case (Pair q u)
  note c = check_fault_cases [OF Pair]
  show thesis
  proof (cases q)
    case (Inl e)
    with assms Pair have "r = Inl e" "t = u" by (simp_all add: and_then_apply)
    moreover from c Inl obtain x where "x \<in> set (faults s)" "f x = Some e" by auto
    moreover have "mock_view t = mock_view s" "mock_honest s \<longrightarrow> mock_honest t"
      using c \<open>t = u\<close> mock_view_objects mock_honest_subset by blast+
    ultimately show thesis by (intro fault)
  next
    case (Inr a)
    with c have "u = s" by auto
    with Inr assms Pair show thesis by (intro pass) (simp add: and_then_apply)
  qed
qed


subsection \<open>The mock satisfies the contract\<close>

lemma mock_list_law:
  assumes "mock_list p s = (r, t)"
  shows "mock_view t = mock_view s \<and> (mock_honest s \<longrightarrow> mock_honest t) \<and>
    (\<forall>ms. r = Inr ms \<and> listable p \<longrightarrow> lists p ms (mock_view s))"
  using assms unfolding mock_list_def
proof (cases rule: checked_cases)
  case pass
  let ?es = "filter (\<lambda>(k, _). p \<le> k \<and> below k (next_lex p)) (RBT.entries (objects s))"
  have st: "t = s" "r = Inr (map (mock_meta None) ?es)" using pass by auto
  have "lists p (map (mock_meta None) ?es) (mock_view s)" if l: "listable p"
  proof -
    from l have rng: "(p \<le> k \<and> below k (next_lex p)) = prefix p k" for k
      using range_is_prefix [of p k] by (simp add: listable_def)
    have keys: "map om_key (map (mock_meta None) es) = map fst es" for es
      by (simp add: mock_meta_def case_prod_beta)
    have "distinct (map fst (filter P (RBT.entries (objects s))))" for P
      by (rule distinct_map_filter) (rule RBT.distinct_entries)
    moreover have "fst ` set (filter (\<lambda>(k, _). prefix p k) (RBT.entries (objects s)))
        = {k. prefix p k \<and> mock_view s k \<noteq> None}"
      by (force simp: mock_view_def RBT.lookup_in_tree [symmetric])
    moreover have "\<exists>b. mock_view s (om_key m) = Some (b, om_last_modified m)"
      if "m \<in> set (map (mock_meta None) ?es)" for m
      using that by (auto simp: mock_view_def mock_meta_def RBT.lookup_in_tree [symmetric])
    ultimately show ?thesis
      unfolding lists_def keys by (simp add: rng)
  qed
  with st show ?thesis by simp
qed auto

lemma mock_get_bytes_law:
  assumes "mock_get_bytes k s = (r, t)"
  shows "mock_view t = mock_view s \<and> (mock_honest s \<longrightarrow> mock_honest t) \<and>
    (\<forall>b. r = Inr b \<longrightarrow> (\<exists>m. mock_view s k = Some (b, m))) \<and>
    (\<forall>x. r = Inl (NotFound x) \<longrightarrow> mock_view s k = None)"
  using assms unfolding mock_get_bytes_def
proof (cases rule: checked_cases)
  case (fault e x)
  then show ?thesis by (auto split: fault.splits if_splits)
next
  case pass
  then show ?thesis by (auto simp: mock_view_def split: option.splits)
qed

lemma mock_get_to_file_law:
  assumes "mock_get_to_file k w s = (r, t)"
  shows "mock_view t = mock_view s \<and> (mock_honest s \<longrightarrow> mock_honest t) \<and>
    (\<forall>b. r = Inr b \<longrightarrow> (\<exists>m. mock_view s k = Some (b, m)))"
  using assms unfolding mock_get_to_file_def
proof (cases rule: checked_cases)
  case pass
  obtain q u where g: "mock_get_bytes k s = (q, u)" by force
  from mock_get_bytes_law [OF g] pass g show ?thesis
    by (cases q) (auto simp: io_apply split: option.splits)
qed auto

lemma mock_get_bytes_range_law:
  assumes "mock_get_bytes_range k i j s = (r, t)"
  shows "mock_view t = mock_view s \<and> (mock_honest s \<longrightarrow> mock_honest t) \<and>
    (\<forall>b. r = Inr b \<longrightarrow> length b = j - i \<and> i \<le> j \<and>
      (i < j \<longrightarrow> (\<exists>body m. mock_view s k = Some (body, m) \<and> b = take (j - i) (drop i body))))"
  using assms
  by (auto simp: mock_get_bytes_range_def precheck_range_def io_apply mock_view_def
      split: if_splits option.splits)

lemma mock_put_bytes_law:
  assumes "mock_put_bytes k b opts s = (r, t)"
  shows "(mock_honest s \<longrightarrow> mock_honest t) \<and>
    (case r of Inr _ \<Rightarrow> wrote k b (mock_view s) (mock_view t)
     | Inl _ \<Rightarrow> mock_view t = mock_view s \<or> wrote k b (mock_view s) (mock_view t))"
  using assms unfolding mock_put_bytes_def
proof (cases rule: checked_cases)
  case pass
  then have "r = Inr ()" "t = insert_with k b (clock s) opts s" by (simp_all add: with_state_def)
  then show ?thesis by simp
qed auto

lemma mock_put_path_law:
  assumes "mock_put_path k f opts s = (r, t)"
  shows "(mock_honest s \<longrightarrow> mock_honest t) \<and>
    (case r of Inr _ \<Rightarrow> \<exists>b. f = Inr b \<and> wrote k b (mock_view s) (mock_view t)
     | Inl _ \<Rightarrow> mock_view t = mock_view s \<or>
         (\<exists>b. f = Inr b \<and> wrote k b (mock_view s) (mock_view t)))"
  using assms unfolding mock_put_path_def
proof (cases rule: checked_cases)
  case pass
  show ?thesis
  proof (cases f)
    case (Inr b)
    with pass have "mock_put_bytes k b opts s = (r, t)" by (simp add: io_apply)
    from mock_put_bytes_law [OF this] Inr show ?thesis by (auto split: sum.splits)
  qed (use pass in \<open>auto simp: io_apply\<close>)
qed auto

lemma contended_is_race: "contended_fault k f = Some e \<Longrightarrow> race_fault f"
  by (cases f) (simp_all add: contended_fault_def)

lemma mock_put_if_absent_law:
  assumes "mock_put_if_absent k b s = (r, t)"
  shows "(mock_honest s \<longrightarrow> mock_honest t) \<and>
    (case r of
       Inr True \<Rightarrow> mock_view s k = None \<and> wrote k b (mock_view s) (mock_view t)
     | Inr False \<Rightarrow> mock_view t = mock_view s \<and> (mock_honest s \<longrightarrow> mock_view s k \<noteq> None)
     | Inl _ \<Rightarrow> mock_view t = mock_view s \<or>
         (mock_view s k = None \<and> wrote k b (mock_view s) (mock_view t)))"
  using assms unfolding mock_put_if_absent_def
proof (cases rule: checked_cases)
  case pass
  consider (present) ob where "RBT.lookup (objects s) k = Some ob"
    | (contended) e ys where "RBT.lookup (objects s) k = None"
        "take_fault (contended_fault k) (faults s) = Some (e, ys)"
    | (created) "RBT.lookup (objects s) k = None" "take_fault (contended_fault k) (faults s) = None"
    by (cases "RBT.lookup (objects s) k"; cases "take_fault (contended_fault k) (faults s)") auto
  then show ?thesis
  proof cases
    case present
    then have "r = Inr False" "t = s" using pass by simp_all
    with present show ?thesis by (simp add: mock_view_def)
  next
    case (contended e ys)
    from contended(2) have "\<not> mock_honest s"
      using contended_is_race by (auto simp: mock_honest_def dest!: take_fault_source)
    moreover have "(Inr False, s\<lparr>faults := ys\<rparr>) = (r, t)"
      using pass by (simp only: contended simp_thms if_False option.case prod.case)
    then have "r = Inr False" "t = s\<lparr>faults := ys\<rparr>" by (simp_all only: prod.inject)
    ultimately show ?thesis using mock_view_objects [of t s] by simp
  next
    case created
    have "(Inr True, insert_with k b (clock s) default_put_opts s) = (r, t)"
      using pass by (simp only: created simp_thms if_False option.case)
    then have "r = Inr True" "t = insert_with k b (clock s) default_put_opts s"
      by (simp_all only: prod.inject)
    with created(1) show ?thesis by (simp add: mock_view_def [of s k])
  qed
qed auto

lemma mock_head_law:
  assumes "mock_head k s = (r, t)"
  shows "mock_view t = mock_view s \<and> (mock_honest s \<longrightarrow> mock_honest t) \<and>
    (\<forall>m. r = Inr m \<longrightarrow> om_key m = k \<and>
      (\<exists>b. mock_view s k = Some (b, om_last_modified m) \<and> om_size m = length b)) \<and>
    (\<forall>x. r = Inl (NotFound x) \<and> mock_honest s \<longrightarrow> mock_view s k = None)"
  using assms unfolding mock_head_def
proof (cases rule: checked_cases)
  case (fault e x)
  then show ?thesis by (auto simp: mock_honest_def split: fault.splits if_splits)
next
  case pass
  then show ?thesis by (auto simp: mock_view_def mock_meta_def split: option.splits)
qed

lemma mock_copy_law:
  assumes "mock_copy src dst s = (r, t)"
  shows "(mock_honest s \<longrightarrow> mock_honest t) \<and>
    (case r of
       Inr _ \<Rightarrow> \<exists>b m. mock_view s src = Some (b, m) \<and> wrote dst b (mock_view s) (mock_view t)
     | Inl _ \<Rightarrow> mock_view t = mock_view s \<or>
         (\<exists>b m. mock_view s src = Some (b, m) \<and> wrote dst b (mock_view s) (mock_view t)))"
proof (cases "RBT.lookup (objects s) src")
  case (Some ob)
  then have "mock_view t = (mock_view s)(dst \<mapsto> (mo_body ob, clock s))"
    using assms by (auto simp: mock_copy_def mock_view_def)
  moreover have "r = Inr ()" "faults t = faults s" using assms Some by (auto simp: mock_copy_def)
  ultimately show ?thesis using Some by (auto simp: wrote_def mock_honest_def mock_view_def [of s src])
qed (use assms in \<open>auto simp: mock_copy_def\<close>)

lemma mock_delete_law:
  assumes "mock_delete k s = (r, t)"
  shows "(mock_honest s \<longrightarrow> mock_honest t) \<and>
    (\<forall>u. r = Inr u \<longrightarrow> mock_view s k \<noteq> None \<and> mock_view t = (mock_view s)(k := None)) \<and>
    (\<forall>e. r = Inl e \<longrightarrow> mock_view t = mock_view s \<or> mock_view t = (mock_view s)(k := None)) \<and>
    (\<forall>x. r = Inl (NotFound x) \<longrightarrow>
       mock_view t = mock_view s \<and> (mock_honest s \<longrightarrow> mock_view s k = None))"
  using assms unfolding mock_delete_def
proof (cases rule: checked_cases)
  case (fault e x)
  then show ?thesis by (auto simp: mock_honest_def split: fault.splits if_splits)
next
  case pass
  show ?thesis
  proof (cases "RBT.lookup (objects s) k")
    case (Some ob)
    then have "r = Inr ()" "t = s\<lparr>objects := RBT.delete k (objects s)\<rparr>" using pass by auto
    moreover from this have "mock_view t = (mock_view s)(k := None)"
      by (auto simp: mock_view_def)
    ultimately show ?thesis using Some by (simp add: mock_honest_def mock_view_def [of s k])
  qed (use pass in \<open>auto simp: mock_view_def\<close>)
qed

interpretation mock: store_contract mock_store mock_view mock_honest
proof (unfold_locales, goal_cases)
  case 1 then show ?case by (simp add: mock_list_law)
next
  case 2 then show ?case by (simp add: mock_get_to_file_law)
next
  case 3 then show ?case by (simp add: mock_get_bytes_law)
next
  case 4 then show ?case using mock_get_bytes_range_law by simp
next
  case 5 then show ?case using mock_put_bytes_law by simp
next
  case 6 then show ?case using mock_put_path_law by simp
next
  case 7 then show ?case using mock_put_if_absent_law by simp
next
  case 8 then show ?case by (simp add: mock_head_law)
next
  case 9 then show ?case using mock_copy_law by simp
next
  case 10 then show ?case using mock_delete_law by simp
next
  case 11 then show ?case
    by (auto simp: mock_presigned_get_url_def split: option.splits)
qed

lemma mock_calm_pass: "mock_calm s \<Longrightarrow> check_fault f s = (Inr (), s)"
  by (simp add: mock_calm_def check_fault_def)

interpretation calm_mock: calm_store mock_store mock_view mock_honest mock_calm
proof (unfold_locales, goal_cases)
  case (1 s) then show ?case by (simp add: mock_calm_def mock_honest_def)
next
  case (2 s p) then show ?case by (simp add: mock_list_def and_then_ok mock_calm_pass)
next
  case (3 s k) then show ?case
    by (auto simp: mock_get_bytes_def and_then_ok mock_calm_pass mock_view_def split: option.splits)
next
  case (4 s k b opts) then show ?case
    by (simp add: mock_put_bytes_def and_then_ok mock_calm_pass with_state_def)
next
  case (5 s k b opts) then show ?case
    by (simp add: mock_put_path_def mock_put_bytes_def and_then_ok mock_calm_pass with_state_def
        of_result_apply)
next
  case (6 s k b) then show ?case
    using mock_calm_pass [of s]
    by (auto simp: mock_put_if_absent_def and_then_ok mock_view_def mock_calm_def)
next
  case (7 s k) then show ?case
    by (auto simp: mock_head_def and_then_ok mock_calm_pass mock_view_def split: option.splits)
next
  case (8 s k) then show ?case
    by (auto simp: mock_delete_def and_then_ok mock_calm_pass mock_view_def mock_calm_def
        split: option.splits)
next
  case (9 s k)
  obtain t where t: "mock_calm t" "mock_get_bytes k s =
      (case mock_view s k of None \<Rightarrow> Inl (NotFound k) | Some (b, _) \<Rightarrow> Inr b, t)"
    using 9 by (auto simp: mock_get_bytes_def and_then_ok mock_calm_pass mock_view_def split: option.splits)
  with 9 show ?case
    by (auto simp: mock_get_to_file_def and_then_apply mock_calm_pass io_apply split: option.splits)
next
  case (10 s k b m i j) then show ?case
    by (auto simp: mock_get_bytes_range_def precheck_range_def io_apply mock_view_def split: option.splits)
qed

end
