(* ===== verification/Schema.thy ===== *)
theory Schema
  imports Mock_Store
begin

text \<open>
  The JSON documents on the bucket: \<open>src/packchain/schema.rs\<close> (\<open>Sha40\<close>, \<open>ChainManifest\<close>,
  \<open>ChainSegment\<close>), the two tombstone documents of \<open>src/packchain/gc.rs\<close>, the error types
  of \<open>src/packchain/mod.rs\<close> and \<open>src/git.rs\<close>, \<open>src/packchain/manifest.rs\<close> and the retry
  discriminator of \<open>src/packchain/retry.rs\<close>. Reading JSON text is \<open>serde_json\<close>'s; what the
  derived \<open>Deserialize\<close> and \<open>Serialize\<close> make of a document is defined here field by field:
  a missing or repeated known field is an error, an unknown one is ignored, \<open>Option\<close> takes
  a missing field or \<open>null\<close> as \<open>None\<close>, and a struct may also be an array of its fields.
\<close>

subsection \<open>Errors\<close>

datatype git_error =
    EmptySpec
  | NoCommits
  | RemoteNotFound string
  | RemoteHasNoUrl string
  | NonUtf8RemoteUrl string
  | BundleError string
  | Panic
  | GitIo string
  | RevParse string
  | FindObject string
  | MergeBase string
  | OpenError string
  | ConfigKeyParse string
  | ConfigInvalidSectionName string
  | ConfigInvalidValueName string
  | ConfigKeyNotSet string
  | TagChainCycle string
  | GitOther string

datatype storage_engine = BundleEngine | PackchainEngine

datatype packchain_error =
    UnsupportedSchemaVersion nat nat
  | InvalidSha string
  | ParseJson
  | InvalidPath string
  | PackGit git_error
  | ShallowPushRejected
  | ChainAbsent string
  | PackMissing string
  | BaselineMissing string
  | PackTrailer string
  | PackBuild string
  | PackIndexWrite string
  | PackStore store_error
  | PackIo string
  | WrongEngine storage_engine
  | PathIndexAbsent string
  | PathNotFound string string
  | MalformedPath string string
  | PathNotABlob string
  | BlobNotInChain string string
  | MalformedPackEntry nat string
  | Decompress nat
  | DeltaTooDeep nat
  | MalformedDelta string
  | InvalidRefName string
  | TreeCycle string
  | TransientChainPathIndexMismatch string string string
  | ConcurrentGcRetriesExhausted string nat
  | ContentHashMismatch string string

subsection \<open>Derived deserialisation\<close>

definition count_key :: "string \<Rightarrow> (string \<times> json) list \<Rightarrow> nat" where
  "count_key n kvs = length (filter (\<lambda>(k, _). k = n) kvs)"

definition json_fields :: "string list \<Rightarrow> json \<Rightarrow> (string \<Rightarrow> json option) option" where
  "json_fields names j =
     (case j of
        JObj kvs \<Rightarrow> if list_all (\<lambda>n. count_key n kvs \<le> 1) names then Some (map_of kvs) else None
      | JArr js \<Rightarrow> if length js = length names then Some (map_of (zip names js)) else None
      | _ \<Rightarrow> None)"

definition de_uint :: "nat \<Rightarrow> json \<Rightarrow> nat option" where
  "de_uint bits j =
     (case j of JInt i \<Rightarrow> if 0 \<le> i \<and> i < 2 ^ bits then Some (nat i) else None | _ \<Rightarrow> None)"

definition de_string :: "json \<Rightarrow> string option" where
  "de_string j = (case j of JStr s \<Rightarrow> Some s | _ \<Rightarrow> None)"

definition de_sha40 :: "json \<Rightarrow> string option" where
  "de_sha40 j =
     Option.bind (de_string j) (\<lambda>s. case sha40_try_new s of Inl _ \<Rightarrow> None | Inr t \<Rightarrow> Some t)"

definition de_vec :: "(json \<Rightarrow> 'a option) \<Rightarrow> json \<Rightarrow> 'a list option" where
  "de_vec f j = (case j of JArr js \<Rightarrow> those (map f js) | _ \<Rightarrow> None)"

definition de_field :: "(json \<Rightarrow> 'a option) \<Rightarrow> (string \<Rightarrow> json option) \<Rightarrow> string \<Rightarrow> 'a option" where
  "de_field f fs n = Option.bind (fs n) f"

definition de_opt_field ::
    "(json \<Rightarrow> 'a option) \<Rightarrow> (string \<Rightarrow> json option) \<Rightarrow> string \<Rightarrow> 'a option option" where
  "de_opt_field f fs n =
     (case fs n of
        None \<Rightarrow> Some None
      | Some j \<Rightarrow> (case j of JNull \<Rightarrow> Some None | _ \<Rightarrow> map_option Some (f j)))"

subsection \<open>The chain manifest\<close>

record chain_segment =
  seg_sha :: string
  seg_parent_sha :: "string option"
  seg_pack :: string
  seg_bytes :: nat

record chain_manifest =
  cm_v :: nat
  cm_tip :: string
  cm_full_at :: string
  cm_segments :: "chain_segment list"

definition CHAIN_SCHEMA_VERSION :: nat where
  "CHAIN_SCHEMA_VERSION = 1"

definition segment_of_json :: "json \<Rightarrow> chain_segment option" where
  "segment_of_json j =
     Option.bind (json_fields [''sha'', ''parent_sha'', ''pack'', ''bytes''] j) (\<lambda>fs.
     Option.bind (de_field de_sha40 fs ''sha'') (\<lambda>sha.
     Option.bind (de_opt_field de_sha40 fs ''parent_sha'') (\<lambda>parent_sha.
     Option.bind (de_field de_string fs ''pack'') (\<lambda>pack.
     Option.bind (de_field (de_uint 64) fs ''bytes'') (\<lambda>bytes.
     Some \<lparr>seg_sha = sha, seg_parent_sha = parent_sha, seg_pack = pack, seg_bytes = bytes\<rparr>)))))"

definition chain_of_json :: "json \<Rightarrow> chain_manifest option" where
  "chain_of_json j =
     Option.bind (json_fields [''v'', ''tip'', ''full_at'', ''segments''] j) (\<lambda>fs.
     Option.bind (de_field (de_uint 32) fs ''v'') (\<lambda>v.
     Option.bind (de_field de_sha40 fs ''tip'') (\<lambda>tip.
     Option.bind (de_field de_sha40 fs ''full_at'') (\<lambda>full_at.
     Option.bind (de_field (de_vec segment_of_json) fs ''segments'') (\<lambda>segments.
     Some \<lparr>cm_v = v, cm_tip = tip, cm_full_at = full_at, cm_segments = segments\<rparr>)))))"

definition json_of_segment :: "chain_segment \<Rightarrow> json" where
  "json_of_segment g = JObj [
     (''sha'', JStr (seg_sha g)),
     (''parent_sha'', (case seg_parent_sha g of None \<Rightarrow> JNull | Some p \<Rightarrow> JStr p)),
     (''pack'', JStr (seg_pack g)),
     (''bytes'', JInt (int (seg_bytes g)))]"

definition json_of_chain :: "chain_manifest \<Rightarrow> json" where
  "json_of_chain c = JObj [
     (''v'', JInt (int (cm_v c))),
     (''tip'', JStr (cm_tip c)),
     (''full_at'', JStr (cm_full_at c)),
     (''segments'', JArr (map json_of_segment (cm_segments c)))]"

definition chain_from_json_bytes :: "ext \<Rightarrow> string \<Rightarrow> packchain_error + chain_manifest" where
  "chain_from_json_bytes x bytes =
     (case Option.bind (json_parse x bytes) chain_of_json of
        None \<Rightarrow> Inl ParseJson
      | Some parsed \<Rightarrow>
          if cm_v parsed \<noteq> CHAIN_SCHEMA_VERSION
          then Inl (UnsupportedSchemaVersion (cm_v parsed) CHAIN_SCHEMA_VERSION)
          else Inr parsed)"

definition chain_to_json_pretty :: "ext \<Rightarrow> chain_manifest \<Rightarrow> string" where
  "chain_to_json_pretty x c = json_print x (json_of_chain c)"

subsection \<open>Tombstones\<close>

record tombstone =
  tb_v :: nat
  tb_run_id :: string
  tb_marked_at :: string
  tb_orphan_packs :: "string list"

record baseline_tombstone =
  bt_v :: nat
  bt_marked_at :: string
  bt_ref_name :: string
  bt_sha :: string

definition TOMBSTONE_SCHEMA_VERSION :: nat where
  "TOMBSTONE_SCHEMA_VERSION = 1"

definition check_tombstone_schema_version :: "nat \<Rightarrow> packchain_error + unit" where
  "check_tombstone_schema_version found =
     (if found = TOMBSTONE_SCHEMA_VERSION then Inr ()
      else Inl (UnsupportedSchemaVersion found TOMBSTONE_SCHEMA_VERSION))"

definition tombstone_of_json :: "json \<Rightarrow> tombstone option" where
  "tombstone_of_json j =
     Option.bind (json_fields [''v'', ''run_id'', ''marked_at'', ''orphan_packs''] j) (\<lambda>fs.
     Option.bind (de_field (de_uint 32) fs ''v'') (\<lambda>v.
     Option.bind (de_field de_string fs ''run_id'') (\<lambda>run_id.
     Option.bind (de_field de_string fs ''marked_at'') (\<lambda>marked_at.
     Option.bind (de_field (de_vec de_sha40) fs ''orphan_packs'') (\<lambda>orphan_packs.
     Some \<lparr>tb_v = v, tb_run_id = run_id, tb_marked_at = marked_at,
           tb_orphan_packs = orphan_packs\<rparr>)))))"

definition json_of_tombstone :: "tombstone \<Rightarrow> json" where
  "json_of_tombstone t = JObj [
     (''v'', JInt (int (tb_v t))),
     (''run_id'', JStr (tb_run_id t)),
     (''marked_at'', JStr (tb_marked_at t)),
     (''orphan_packs'', JArr (map JStr (tb_orphan_packs t)))]"

definition tombstone_from_json_bytes :: "ext \<Rightarrow> string \<Rightarrow> packchain_error + tombstone" where
  "tombstone_from_json_bytes x bytes =
     (case Option.bind (json_parse x bytes) tombstone_of_json of
        None \<Rightarrow> Inl ParseJson
      | Some parsed \<Rightarrow>
          (case check_tombstone_schema_version (tb_v parsed) of
             Inl e \<Rightarrow> Inl e | Inr _ \<Rightarrow> Inr parsed))"

definition baseline_of_json :: "json \<Rightarrow> baseline_tombstone option" where
  "baseline_of_json j =
     Option.bind (json_fields [''v'', ''marked_at'', ''ref_name'', ''sha''] j) (\<lambda>fs.
     Option.bind (de_field (de_uint 32) fs ''v'') (\<lambda>v.
     Option.bind (de_field de_string fs ''marked_at'') (\<lambda>marked_at.
     Option.bind (de_field de_string fs ''ref_name'') (\<lambda>ref_name.
     Option.bind (de_field de_sha40 fs ''sha'') (\<lambda>sha.
     Some \<lparr>bt_v = v, bt_marked_at = marked_at, bt_ref_name = ref_name, bt_sha = sha\<rparr>)))))"

definition json_of_baseline :: "baseline_tombstone \<Rightarrow> json" where
  "json_of_baseline t = JObj [
     (''v'', JInt (int (bt_v t))),
     (''marked_at'', JStr (bt_marked_at t)),
     (''ref_name'', JStr (bt_ref_name t)),
     (''sha'', JStr (bt_sha t))]"

definition baseline_from_json_bytes :: "ext \<Rightarrow> string \<Rightarrow> packchain_error + baseline_tombstone" where
  "baseline_from_json_bytes x bytes =
     (case Option.bind (json_parse x bytes) baseline_of_json of
        None \<Rightarrow> Inl ParseJson
      | Some parsed \<Rightarrow>
          (case check_tombstone_schema_version (bt_v parsed) of
             Inl e \<Rightarrow> Inl e | Inr _ \<Rightarrow> Inr parsed))"

subsection \<open>src/packchain/manifest.rs\<close>

definition load_chain ::
    "ext \<Rightarrow> 's store_api \<Rightarrow> string option \<Rightarrow> string \<Rightarrow>
     ('s, packchain_error, chain_manifest option) io" where
  "load_chain x st pfx remote_ref =
     match_io (st_get_bytes st (chain_key pfx remote_ref))
       (\<lambda>e. case e of NotFound _ \<Rightarrow> ok None | _ \<Rightarrow> fail_with (PackStore e))
       (\<lambda>bytes. case chain_from_json_bytes x bytes of
          Inl e \<Rightarrow> fail_with e
        | Inr chain \<Rightarrow> ok (Some chain))"

definition write_chain ::
    "ext \<Rightarrow> 's store_api \<Rightarrow> string option \<Rightarrow> string \<Rightarrow> chain_manifest \<Rightarrow>
     ('s, packchain_error, unit) io" where
  "write_chain x st pfx remote_ref manifest =
     map_err PackStore
       (st_put_bytes st (chain_key pfx remote_ref) (chain_to_json_pretty x manifest)
          default_put_opts)"

definition next_manifest ::
    "chain_manifest option \<Rightarrow> string \<Rightarrow> chain_segment \<Rightarrow> bool \<Rightarrow> chain_manifest" where
  "next_manifest prior local_tip segment force =
     (let (full_at, segments) =
        (case (force, prior) of
           (False, Some p) \<Rightarrow>
             (cm_full_at p, segment\<lparr>seg_parent_sha := Some (cm_tip p)\<rparr> # cm_segments p)
         | _ \<Rightarrow> (local_tip, [segment\<lparr>seg_parent_sha := None\<rparr>]))
      in \<lparr>cm_v = CHAIN_SCHEMA_VERSION, cm_tip = local_tip, cm_full_at = full_at,
          cm_segments = segments\<rparr>)"

definition segment_pack_sha :: "chain_segment \<Rightarrow> packchain_error + string" where
  "segment_pack_sha segment =
     (case sha_from_pack_key (seg_pack segment) of
        Some sha \<Rightarrow> Inr sha
      | None \<Rightarrow> Inl (MalformedPackEntry 0
          (''chain segment pack key `'' @ seg_pack segment @
           ''` is not of the form `[<prefix>/]packs/<sha>.pack`'')))"

text \<open>\<open>chain_references_pack_key\<close> of \<open>src/packchain/retry.rs\<close>.\<close>

fun segments_reference :: "chain_segment list \<Rightarrow> string \<Rightarrow> packchain_error + bool" where
  "segments_reference [] missing_sha = Inr False"
| "segments_reference (g # gs) missing_sha =
     (case segment_pack_sha g of
        Inl e \<Rightarrow> Inl e
      | Inr sha \<Rightarrow> if sha = missing_sha then Inr True else segments_reference gs missing_sha)"

definition chain_references_pack_key ::
    "chain_manifest \<Rightarrow> string option \<Rightarrow> string \<Rightarrow> packchain_error + bool" where
  "chain_references_pack_key chain pfx missing_key =
     (case pack_sha_from_full_key pfx missing_key of
        None \<Rightarrow> Inr False
      | Some missing_sha \<Rightarrow> segments_reference (cm_segments chain) missing_sha)"

subsection \<open>Round trips\<close>

lemma json_fields_obj:
  "json_fields names (JObj kvs) =
     (if list_all (\<lambda>n. count_key n kvs \<le> 1) names then Some (map_of kvs) else None)"
  by (simp add: json_fields_def)

lemma count_key_simps [simp]:
  "count_key n [] = 0"
  "count_key n ((k, v) # kvs) = (if k = n then Suc (count_key n kvs) else count_key n kvs)"
  by (simp_all add: count_key_def)

lemma de_simps [simp]:
  "de_uint b (JInt (int n)) = (if n < 2 ^ b then Some n else None)"
  "de_string (JStr s) = Some s"
  "de_sha40 (JStr s) = (if is_valid_bundle_stem s then Some s else None)"
  "de_vec f (JArr js) = those (map f js)"
proof -
  show "de_uint b (JInt (int n)) = (if n < 2 ^ b then Some n else None)"
    by (simp add: de_uint_def)
qed (auto simp: de_string_def de_sha40_def de_vec_def sha40_try_new_def is_valid_bundle_stem_def)

lemma those_map_Some: "(\<And>y. y \<in> set ys \<Longrightarrow> f (g y) = Some y) \<Longrightarrow> those (map f (map g ys)) = Some ys"
  by (induction ys) auto

definition segment_wf :: "chain_segment \<Rightarrow> bool" where
  "segment_wf g \<longleftrightarrow> is_valid_bundle_stem (seg_sha g) \<and>
     (case seg_parent_sha g of None \<Rightarrow> True | Some p \<Rightarrow> is_valid_bundle_stem p) \<and>
     seg_bytes g < 2 ^ 64"

definition chain_typed :: "chain_manifest \<Rightarrow> bool" where
  "chain_typed c \<longleftrightarrow> cm_v c < 2 ^ 32 \<and> is_valid_bundle_stem (cm_tip c) \<and>
     is_valid_bundle_stem (cm_full_at c) \<and> list_all segment_wf (cm_segments c)"

lemma segment_roundtrip: "segment_wf g \<Longrightarrow> segment_of_json (json_of_segment g) = Some g"
  by (cases "seg_parent_sha g")
    (auto simp: segment_of_json_def json_of_segment_def json_fields_obj de_field_def de_opt_field_def
      segment_wf_def)

lemma chain_json_roundtrip: "chain_typed c \<Longrightarrow> chain_of_json (json_of_chain c) = Some c"
proof -
  assume c: "chain_typed c"
  then have "those (map segment_of_json (map json_of_segment (cm_segments c))) = Some (cm_segments c)"
    by (intro those_map_Some segment_roundtrip) (simp add: chain_typed_def list_all_iff)
  with c show ?thesis
    by (simp add: chain_of_json_def json_of_chain_def json_fields_obj de_field_def chain_typed_def)
qed

lemma tombstone_json_roundtrip:
  assumes "tb_v t < 2 ^ 32" "list_all is_valid_bundle_stem (tb_orphan_packs t)"
  shows "tombstone_of_json (json_of_tombstone t) = Some t"
proof -
  have "those (map de_sha40 (map JStr (tb_orphan_packs t))) = Some (tb_orphan_packs t)"
    by (intro those_map_Some) (use assms(2) in \<open>simp add: list_all_iff\<close>)
  with assms(1) show ?thesis
    by (simp add: tombstone_of_json_def json_of_tombstone_def json_fields_obj de_field_def)
qed

lemma baseline_json_roundtrip:
  "bt_v t < 2 ^ 32 \<Longrightarrow> is_valid_bundle_stem (bt_sha t) \<Longrightarrow>
   baseline_of_json (json_of_baseline t) = Some t"
  by (simp add: baseline_of_json_def json_of_baseline_def json_fields_obj de_field_def)

lemma baseline_bytes_roundtrip:
  assumes "json_parse x (json_print x (json_of_baseline t)) = Some (json_of_baseline t)"
    and "bt_v t = TOMBSTONE_SCHEMA_VERSION" "is_valid_bundle_stem (bt_sha t)"
  shows "baseline_from_json_bytes x (json_print x (json_of_baseline t)) = Inr t"
  using assms
  by (simp add: baseline_from_json_bytes_def baseline_json_roundtrip TOMBSTONE_SCHEMA_VERSION_def
      check_tombstone_schema_version_def)

lemma chain_bytes_roundtrip:
  assumes "json_parse x (json_print x (json_of_chain c)) = Some (json_of_chain c)"
    and "chain_typed c" "cm_v c = CHAIN_SCHEMA_VERSION"
  shows "chain_from_json_bytes x (chain_to_json_pretty x c) = Inr c"
  using assms by (simp add: chain_from_json_bytes_def chain_to_json_pretty_def chain_json_roundtrip)

text \<open>Reading back only ever yields validated shas: the type invariant of the documents.\<close>

lemma those_SomeD: "those xs = Some ys \<Longrightarrow> list_all2 (\<lambda>x y. x = Some y) xs ys"
  by (induction xs arbitrary: ys) (auto split: option.splits)

lemma those_map_all:
  "those (map f js) = Some ys \<Longrightarrow> (\<And>j y. f j = Some y \<Longrightarrow> P y) \<Longrightarrow> list_all P ys"
  by (induction js arbitrary: ys) (auto split: option.splits)

lemma de_vec_all:
  "de_vec f j = Some ys \<Longrightarrow> (\<And>j y. f j = Some y \<Longrightarrow> P y) \<Longrightarrow> list_all P ys"
  by (cases j) (auto simp: de_vec_def intro: those_map_all)

lemma de_sha40_valid: "de_sha40 j = Some s \<Longrightarrow> is_valid_bundle_stem s"
  by (auto simp: de_sha40_def sha40_try_new_def is_valid_bundle_stem_def bind_eq_Some_conv
      split: if_splits)

lemma de_uint_bound: "de_uint b j = Some n \<Longrightarrow> n < 2 ^ b"
  by (auto simp: de_uint_def nat_less_iff split: json.splits if_splits)

lemma de_opt_sha40_valid:
  "de_opt_field de_sha40 fs n = Some v \<Longrightarrow> (case v of None \<Rightarrow> True | Some p \<Rightarrow> is_valid_bundle_stem p)"
proof (cases "fs n")
  case (Some j)
  then show "de_opt_field de_sha40 fs n = Some v \<Longrightarrow> ?thesis"
    by (cases j) (auto simp: de_opt_field_def dest: de_sha40_valid split: if_splits)
qed (simp add: de_opt_field_def)

lemma segment_of_json_wf: "segment_of_json j = Some g \<Longrightarrow> segment_wf g"
  unfolding segment_of_json_def bind_eq_Some_conv de_field_def segment_wf_def
  by (auto dest!: de_sha40_valid de_opt_sha40_valid de_uint_bound)

lemma chain_of_json_typed: "chain_of_json j = Some c \<Longrightarrow> chain_typed c"
  unfolding chain_of_json_def bind_eq_Some_conv de_field_def chain_typed_def
  by (auto dest: de_sha40_valid de_uint_bound intro: de_vec_all [OF _ segment_of_json_wf])

lemma chain_from_json_bytes_typed:
  "chain_from_json_bytes x b = Inr c \<Longrightarrow> chain_typed c \<and> cm_v c = CHAIN_SCHEMA_VERSION"
  by (auto simp: chain_from_json_bytes_def bind_eq_Some_conv chain_of_json_typed
      split: option.splits if_splits)

lemma baseline_from_json_bytes_valid:
  "baseline_from_json_bytes x b = Inr t \<Longrightarrow> is_valid_bundle_stem (bt_sha t)"
  by (auto simp: baseline_from_json_bytes_def baseline_of_json_def bind_eq_Some_conv de_field_def
      dest!: de_sha40_valid split: option.splits sum.splits)

lemma tombstone_from_json_bytes_valid:
  "tombstone_from_json_bytes x b = Inr t \<Longrightarrow> list_all is_valid_bundle_stem (tb_orphan_packs t)"
  unfolding tombstone_from_json_bytes_def tombstone_of_json_def bind_eq_Some_conv de_field_def
  by (auto simp: bind_eq_Some_conv intro: de_vec_all [OF _ de_sha40_valid]
      split: option.splits sum.splits)

subsection \<open>Reading and writing a manifest\<close>

text \<open>What the chain at a ref is, read off the bucket.\<close>

definition chain_at :: "ext \<Rightarrow> bucket \<Rightarrow> string \<Rightarrow> chain_manifest option" where
  "chain_at x v key =
     (case v key of
        None \<Rightarrow> None
      | Some (b, _) \<Rightarrow> (case chain_from_json_bytes x b of Inl _ \<Rightarrow> None | Inr c \<Rightarrow> Some c))"

lemma chain_at_Some:
  "chain_at x v key = Some c \<longleftrightarrow> (\<exists>b m. v key = Some (b, m) \<and> chain_from_json_bytes x b = Inr c)"
  by (auto simp: chain_at_def split: option.splits sum.splits)

lemma chain_at_typed: "chain_at x v key = Some c \<Longrightarrow> chain_typed c \<and> cm_v c = CHAIN_SCHEMA_VERSION"
  by (auto simp: chain_at_Some dest: chain_from_json_bytes_typed)

context store_contract
begin

lemma wp_load_chain [wp_intros]:
  assumes "\<And>c t. view t = view s \<Longrightarrow> (honest s \<Longrightarrow> honest t) \<Longrightarrow> c = chain_at x (view s) (chain_key pfx r) \<Longrightarrow>
      (c = None \<Longrightarrow> view s (chain_key pfx r) = None) \<Longrightarrow> Q c t"
    and "\<And>e t. view t = view s \<Longrightarrow> (honest s \<Longrightarrow> honest t) \<Longrightarrow> E e t"
  shows "wp (load_chain x st pfx r) Q E s"
  unfolding load_chain_def
  by (intro wp_intros)
    (auto intro!: wp_intros assms simp: chain_at_def split: store_error.split sum.split)

lemma frame_load_chain [keeps_intros]: "keeps (frame view K) (load_chain x st pfx r)"
  unfolding load_chain_def
  by (intro keeps_intros frame_refl frame_trans)
    (auto intro!: keeps_intros split: store_error.split)

lemma wp_write_chain [wp_intros]:
  assumes "\<And>t. (honest s \<Longrightarrow> honest t) \<Longrightarrow>
      wrote (chain_key pfx r) (chain_to_json_pretty x c) (view s) (view t) \<Longrightarrow> Q () t"
    and "\<And>e t. (honest s \<Longrightarrow> honest t) \<Longrightarrow>
      view t = view s \<or> wrote (chain_key pfx r) (chain_to_json_pretty x c) (view s) (view t) \<Longrightarrow> E e t"
  shows "wp (write_chain x st pfx r c) Q E s"
  unfolding write_chain_def by (intro wp_intros assms)

lemma frame_write_chain [keeps_intros]:
  "chain_key pfx r \<in> K \<Longrightarrow> keeps (frame view K) (write_chain x st pfx r c)"
  unfolding write_chain_def by (intro keeps_intros frame_refl frame_trans)

end

context calm_store
begin

lemma calm_load_chain [calm_intros]:
  assumes "calm s"
    and "\<And>c t. calm t \<Longrightarrow> view t = view s \<Longrightarrow> c = chain_at x (view s) (chain_key pfx r) \<Longrightarrow>
      (c = None \<Longrightarrow> view s (chain_key pfx r) = None) \<Longrightarrow> Q c t"
    and "\<And>e b m t. calm t \<Longrightarrow> view t = view s \<Longrightarrow> view s (chain_key pfx r) = Some (b, m) \<Longrightarrow>
      chain_from_json_bytes x b = Inl e \<Longrightarrow> E e t"
  shows "wp (load_chain x st pfx r) Q E s"
  unfolding load_chain_def
  by (intro wp_match calm_wp_get_bytes assms(1))
    (auto intro!: wp_intros assms(2,3) simp: chain_at_def split: sum.split)

lemma calm_write_chain [calm_intros]:
  assumes "calm s" "\<And>t. calm t \<Longrightarrow>
      wrote (chain_key pfx r) (chain_to_json_pretty x c) (view s) (view t) \<Longrightarrow> Q () t"
  shows "wp (write_chain x st pfx r c) Q E s"
  unfolding write_chain_def by (intro wp_map_err calm_wp_put_bytes assms)

end

subsection \<open>The chain invariant\<close>

text \<open>
  A chain runs from the tip to its baseline: the newest segment is at the tip, each segment
  names the sha of the next one as its parent, and the oldest has no parent and is the
  baseline \<open>full_at\<close>.
\<close>

fun linked :: "string \<Rightarrow> chain_segment list \<Rightarrow> string \<Rightarrow> bool" where
  "linked tip [] full_at = False"
| "linked tip (g # gs) full_at =
     (seg_sha g = tip \<and>
      (case seg_parent_sha g of
         None \<Rightarrow> gs = [] \<and> tip = full_at
       | Some p \<Rightarrow> linked p gs full_at))"

definition chain_ok :: "chain_manifest \<Rightarrow> bool" where
  "chain_ok c \<longleftrightarrow> linked (cm_tip c) (cm_segments c) (cm_full_at c)"

text \<open>The manifests a reader may be handed: typed, of the known version, and linked.\<close>

definition chain_wf :: "chain_manifest \<Rightarrow> bool" where
  "chain_wf c \<longleftrightarrow> chain_typed c \<and> cm_v c = CHAIN_SCHEMA_VERSION \<and> chain_ok c"

lemma linked_mem_tip: "linked tip gs full_at \<Longrightarrow> tip \<in> seg_sha ` set gs"
  by (cases gs) auto

lemma linked_mem_base: "linked tip gs full_at \<Longrightarrow> full_at \<in> seg_sha ` set gs"
  by (induction gs arbitrary: tip) (auto split: option.splits)

lemma next_manifest_ok:
  assumes "\<And>p. prior = Some p \<Longrightarrow> chain_ok p" "seg_sha g = local_tip"
  shows "chain_ok (next_manifest prior local_tip g force)"
  using assms by (cases force; cases prior) (auto simp: next_manifest_def chain_ok_def)

lemma next_manifest_wf:
  assumes "\<And>p. prior = Some p \<Longrightarrow> chain_wf p" "seg_sha g = local_tip"
    and "is_valid_bundle_stem local_tip" "seg_bytes g < 2 ^ 64"
  shows "chain_wf (next_manifest prior local_tip g force)"
  using assms
  by (cases force; cases prior)
    (auto simp: next_manifest_def chain_ok_def chain_wf_def chain_typed_def segment_wf_def
      CHAIN_SCHEMA_VERSION_def)

text \<open>Appending keeps the history and its baseline; a force push starts over at the tip.\<close>

lemma next_manifest_append:
  "cm_segments (next_manifest (Some p) t g False) =
     g\<lparr>seg_parent_sha := Some (cm_tip p)\<rparr> # cm_segments p"
  "cm_full_at (next_manifest (Some p) t g False) = cm_full_at p"
  by (simp_all add: next_manifest_def)

lemma next_manifest_tip [simp]: "cm_tip (next_manifest prior t g force) = t"
  by (simp add: next_manifest_def split_beta)

lemma next_manifest_baseline:
  "cm_segments (next_manifest None t g force) = [g\<lparr>seg_parent_sha := None\<rparr>]"
  "cm_segments (next_manifest prior t g True) = [g\<lparr>seg_parent_sha := None\<rparr>]"
  by (simp_all add: next_manifest_def split: bool.splits)

lemma segments_reference_iff:
  assumes "\<And>g. g \<in> set gs \<Longrightarrow> \<exists>sha. sha_from_pack_key (seg_pack g) = Some sha"
  shows "segments_reference gs s = Inr (s \<in> (\<lambda>g. the (sha_from_pack_key (seg_pack g))) ` set gs)"
  using assms by (induction gs) (fastforce simp: segment_pack_sha_def)+

end
