(* ===== verification/Git_Repo.thy ===== *)
theory Git_Repo
  imports Schema
begin

text \<open>
  The local repository: the parts of \<open>src/git.rs\<close> and \<open>src/git/branch.rs\<close> that decide on
  top of what gix reads. A repository is the record \<open>git_repo\<close> of the gix queries the code
  makes (revision parsing, object lookup, merge base, object presence); everything computed
  from their answers is a definition here.
\<close>

subsection \<open>The repository\<close>

text \<open>
  An object as \<open>find_object\<close> returns it: a commit with its parents, a tag with the outcome
  of decoding its target, a tree or a blob.
\<close>

datatype git_object =
    CommitObject "string list"
  | TagObject "git_error + string"
  | TreeObject
  | BlobObject

text \<open>\<open>merge_base\<close> answers \<open>None\<close> when the histories share no commit.\<close>

record git_repo =
  rp_rev_parse :: "string \<Rightarrow> git_error + string"
  rp_find_object :: "string \<Rightarrow> git_error + git_object"
  rp_merge_base :: "string \<Rightarrow> string \<Rightarrow> git_error + string option"
  rp_contains :: "string \<Rightarrow> bool"
  rp_peel_to_commit :: "string \<Rightarrow> git_error + string list"

text \<open>\<open>git::branch::resolve\<close>.\<close>

definition resolve :: "git_repo \<Rightarrow> string \<Rightarrow> git_error + string" where
  "resolve repo spec = (if spec = [] then Inl EmptySpec else rp_rev_parse repo spec)"

definition is_ancestor :: "git_repo \<Rightarrow> string \<Rightarrow> string \<Rightarrow> git_error + bool" where
  "is_ancestor repo ancestor descendant =
     (if ancestor = descendant then Inr True
      else case rp_merge_base repo ancestor descendant of
             Inr (Some base) \<Rightarrow> Inr (base = ancestor)
           | Inr None \<Rightarrow> Inr False
           | Inl e \<Rightarrow> Inl e)"

lemma is_ancestor_refl [simp]: "is_ancestor repo a a = Inr True"
  by (simp add: is_ancestor_def)

end
