(* ===== verification/Gc.thy ===== *)
theory Gc
  imports Schema
begin

text \<open>
  Garbage collection: \<open>src/packchain/gc.rs\<close>. \<open>mark\<close> records the packs no \<open>chain.json\<close>
  references in a tombstone; \<open>sweep\<close> deletes what a tombstone past its grace window names
  and still nothing references, then the tombstone. Baseline tombstones do the same for one
  bundle of a ref. The clock, the fresh UUIDs and the environment variable are arguments;
  hash sets are duplicate-free lists, and the bounded-parallel \<open>chain.json\<close> reads run in
  listing order.
\<close>

subsection \<open>Options and outcomes\<close>

definition DEFAULT_GRACE_HOURS :: nat where
  "DEFAULT_GRACE_HOURS = 24"

datatype grace_decision = Within | Past

record mark_outcome =
  mk_run_id :: string
  mk_orphan_count :: nat
  mk_tombstone_key :: string

record sweep_outcome =
  swept_tombstones :: nat
  deferred_tombstones :: nat
  deleted_objects :: nat
  skipped_repointed_packs :: nat

definition default_sweep_outcome :: sweep_outcome where
  "default_sweep_outcome = \<lparr>swept_tombstones = 0, deferred_tombstones = 0,
     deleted_objects = 0, skipped_repointed_packs = 0\<rparr>"

record mark_opts =
  mk_dry_run :: bool

record sweep_opts =
  sw_grace_hours :: nat
  sw_force :: bool

datatype sweep_step = Deferred | Swept nat nat

definition grace_hours_from_env :: "string option \<Rightarrow> nat" where
  "grace_hours_from_env env_value =
     (case Option.bind env_value parse_u64 of
        Some h \<Rightarrow> if 0 < h then h else DEFAULT_GRACE_HOURS
      | None \<Rightarrow> DEFAULT_GRACE_HOURS)"

definition resolve_grace_hours :: "string option \<Rightarrow> nat option \<Rightarrow> nat" where
  "resolve_grace_hours env_value opt =
     (case opt of Some h \<Rightarrow> h | None \<Rightarrow> grace_hours_from_env env_value)"

definition rfc3339_now :: "ext \<Rightarrow> int \<Rightarrow> packchain_error + string" where
  "rfc3339_now x now =
     (case rfc3339_format x now of
        None \<Rightarrow> Inl (PackIo ''rfc3339 format failed'') | Some s \<Rightarrow> Inr s)"

text \<open>\<open>Duration::whole_hours\<close> truncates towards zero.\<close>

definition whole_hours :: "int \<Rightarrow> int" where
  "whole_hours d =
     (let hour = 3600 * 10 ^ 9 in if d < 0 then - ((- d) div hour) else d div hour)"

definition check_grace_window ::
    "ext \<Rightarrow> string \<Rightarrow> nat \<Rightarrow> string \<Rightarrow> int \<Rightarrow> packchain_error + grace_decision" where
  "check_grace_window x marked_at grace_hours kind now =
     (case rfc3339_parse x marked_at of
        None \<Rightarrow> Inl (PackIo (kind @ '' marked_at parse failed''))
      | Some marked_at_ts \<Rightarrow>
          (let age_hours = whole_hours (now - marked_at_ts);
               within = (if age_hours < 0 then True else nat age_hours < grace_hours)
           in Inr (if within then Within else Past)))"

subsection \<open>Baseline tombstones\<close>

definition write_baseline_tombstone_unconditional ::
    "ext \<Rightarrow> 's store_api \<Rightarrow> string option \<Rightarrow> string \<Rightarrow> string \<Rightarrow> int \<Rightarrow> string \<Rightarrow>
     ('s, packchain_error, unit) io" where
  "write_baseline_tombstone_unconditional x st pfx ref_name orphan_sha now uuid =
     and_then (of_result (rfc3339_now x now)) (\<lambda>marked_at.
     let tomb = \<lparr>bt_v = TOMBSTONE_SCHEMA_VERSION, bt_marked_at = marked_at,
                 bt_ref_name = ref_name, bt_sha = orphan_sha\<rparr>;
         key = baseline_tombstone_key (case pfx of None \<Rightarrow> [] | Some p \<Rightarrow> p) uuid;
         body = json_print x (json_of_baseline tomb)
     in map_err PackStore (st_put_bytes st key body default_put_opts))"

definition write_baseline_tombstone ::
    "ext \<Rightarrow> 's store_api \<Rightarrow> string option \<Rightarrow> string \<Rightarrow> string \<Rightarrow> string \<Rightarrow> int \<Rightarrow> string \<Rightarrow>
     ('s, packchain_error, unit) io" where
  "write_baseline_tombstone x st pfx ref_name prior_full_sha current_full_sha now uuid =
     (if prior_full_sha = current_full_sha then ok ()
      else write_baseline_tombstone_unconditional x st pfx ref_name prior_full_sha now uuid)"

definition write_baseline_tombstone_best_effort ::
    "ext \<Rightarrow> 's store_api \<Rightarrow> string option \<Rightarrow> string \<Rightarrow> string \<Rightarrow> string \<Rightarrow> int \<Rightarrow> string \<Rightarrow>
     ('s, 'e, bool) io" where
  "write_baseline_tombstone_best_effort x st pfx ref_name prior_full_sha current_full_sha now uuid =
     match_io
       (write_baseline_tombstone x st pfx ref_name prior_full_sha current_full_sha now uuid)
       (\<lambda>_. ok False)
       (\<lambda>_. ok (prior_full_sha \<noteq> current_full_sha))"

definition write_baseline_tombstone_for_orphan ::
    "ext \<Rightarrow> 's store_api \<Rightarrow> string option \<Rightarrow> string \<Rightarrow> string \<Rightarrow> int \<Rightarrow> string \<Rightarrow>
     ('s, packchain_error, unit) io" where
  "write_baseline_tombstone_for_orphan x st pfx ref_name orphan_sha now uuid =
     write_baseline_tombstone_unconditional x st pfx ref_name orphan_sha now uuid"

definition try_write_baseline_tombstone ::
    "ext \<Rightarrow> 's store_api \<Rightarrow> string option \<Rightarrow> string \<Rightarrow> object_meta list \<Rightarrow> int \<Rightarrow> string \<Rightarrow>
     ('s, 'e, string option) io" where
  "try_write_baseline_tombstone x st pfx remote_ref fresh now uuid =
     match_io (load_chain x st pfx remote_ref)
       (\<lambda>_. ok None)
       (\<lambda>found. case found of
          None \<Rightarrow> ok None
        | Some chain \<Rightarrow>
            (let key = bundle_key pfx remote_ref (cm_full_at chain) in
             if \<not> list_ex (\<lambda>m. om_key m = key) fresh then ok None
             else match_io
               (write_baseline_tombstone_for_orphan x st pfx remote_ref (cm_full_at chain) now uuid)
               (\<lambda>_. ok None)
               (\<lambda>_. ok (Some key))))"

text \<open>The body of the loop of \<open>tombstoned_bundle_keys\<close>.\<close>

definition tombstoned_step ::
    "ext \<Rightarrow> 's store_api \<Rightarrow> string option \<Rightarrow> string list \<Rightarrow> object_meta \<Rightarrow>
     ('s, store_error, string list) io" where
  "tombstoned_step x st pfx keys meta =
     (let prefix_str = (case pfx of None \<Rightarrow> [] | Some p \<Rightarrow> p) in
      if \<not> is_baseline_tombstone_key (om_key meta) prefix_str then ok keys
      else match_io (st_get_bytes st (om_key meta))
        (\<lambda>e. case e of NotFound _ \<Rightarrow> ok keys | _ \<Rightarrow> fail_with e)
        (\<lambda>body. case baseline_from_json_bytes x body of
           Inl _ \<Rightarrow> ok keys
         | Inr tomb \<Rightarrow>
             if \<not> ref_name_ok x (bt_ref_name tomb) then ok keys
             else ok (List.insert (bundle_key pfx (bt_ref_name tomb) (bt_sha tomb)) keys)))"

definition tombstoned_bundle_keys ::
    "ext \<Rightarrow> 's store_api \<Rightarrow> string option \<Rightarrow> ('s, store_error, string list) io" where
  "tombstoned_bundle_keys x st pfx =
     (let prefix_str = (case pfx of None \<Rightarrow> [] | Some p \<Rightarrow> p);
          gc_listing = gc_listing_prefix prefix_str
      in match_io (st_list st gc_listing)
        (\<lambda>e. case e of NotFound _ \<Rightarrow> ok [] | _ \<Rightarrow> fail_with e)
        (\<lambda>metas. fold_io
          (tombstoned_step x st pfx) [] metas))"

subsection \<open>Referenced and stored packs\<close>

fun collect_segments :: "string list \<Rightarrow> chain_segment list \<Rightarrow> packchain_error + string list" where
  "collect_segments acc [] = Inr acc"
| "collect_segments acc (g # gs) =
     (case segment_pack_sha g of
        Inl e \<Rightarrow> Inl e
      | Inr sha \<Rightarrow> collect_segments (List.insert sha acc) gs)"

definition list_referenced_packs ::
    "ext \<Rightarrow> 's store_api \<Rightarrow> string \<Rightarrow> ('s, packchain_error, string list) io" where
  "list_referenced_packs x st pfx =
     (let refs_prefix = join (Some pfx) ''refs/'' in
      and_then (map_err PackStore (st_list st refs_prefix)) (\<lambda>metas.
      fold_io
        (\<lambda>acc key.
           and_then (map_err PackStore (st_get_bytes st key)) (\<lambda>body.
           and_then (of_result (chain_from_json_bytes x body)) (\<lambda>chain.
           of_result (collect_segments acc (cm_segments chain)))))
        []
        (map om_key (filter (\<lambda>m. is_chain_json_key (om_key m)) metas))))"

definition pack_sha_of_listed :: "string \<Rightarrow> string option" where
  "pack_sha_of_listed key =
     (let basename = last_segment CHR ''/'' key;
          candidate = or_else (strip_suffix ''.pack'' basename) (strip_suffix ''.idx'' basename)
      in case candidate of
           None \<Rightarrow> None
         | Some sha \<Rightarrow> (case sha40_try_new sha of Inl _ \<Rightarrow> None | Inr parsed \<Rightarrow> Some parsed))"

definition list_pack_shas ::
    "'s store_api \<Rightarrow> string \<Rightarrow> ('s, packchain_error, string list) io" where
  "list_pack_shas st pfx =
     (let packs_prefix = join (Some pfx) ''packs/'' in
      and_then (map_err PackStore (st_list st packs_prefix)) (\<lambda>metas.
      ok (fold (\<lambda>meta shas.
            case pack_sha_of_listed (om_key meta) of
              None \<Rightarrow> shas | Some sha \<Rightarrow> List.insert sha shas) metas [])))"

text \<open>\<open>gc.rs\<close> has its own \<open>delete_idempotent\<close>, which reports whether there was an object.\<close>

definition gc_delete_idempotent :: "'s store_api \<Rightarrow> string \<Rightarrow> ('s, packchain_error, bool) io" where
  "gc_delete_idempotent st key =
     match_io (st_delete st key)
       (\<lambda>e. case e of NotFound _ \<Rightarrow> ok False | _ \<Rightarrow> fail_with (PackStore e))
       (\<lambda>_. ok True)"

subsection \<open>Mark\<close>

definition mark ::
    "ext \<Rightarrow> 's store_api \<Rightarrow> string \<Rightarrow> mark_opts \<Rightarrow> int \<Rightarrow> string \<Rightarrow>
     ('s, packchain_error, mark_outcome) io" where
  "mark x st pfx opts now run_id =
     and_then (list_pack_shas st pfx) (\<lambda>on_bucket.
     and_then (list_referenced_packs x st pfx) (\<lambda>referenced.
     let orphans = filter (\<lambda>sha. sha \<notin> set referenced) on_bucket in
     and_then (of_result (rfc3339_now x now)) (\<lambda>marked_at.
     let tkey = tombstone_key pfx run_id marked_at;
         orphan_count = length orphans;
         tomb = \<lparr>tb_v = TOMBSTONE_SCHEMA_VERSION, tb_run_id = run_id, tb_marked_at = marked_at,
                 tb_orphan_packs = orphans\<rparr>;
         outcome = \<lparr>mk_run_id = run_id, mk_orphan_count = orphan_count, mk_tombstone_key = tkey\<rparr>
     in if mk_dry_run opts then ok outcome
        else if orphan_count = 0 then ok outcome
        else
          (let body = json_print x (json_of_tombstone tomb) in
           and_then (map_err PackStore (st_put_bytes st tkey body default_put_opts)) (\<lambda>_.
           ok outcome)))))"

subsection \<open>Sweep\<close>

text \<open>The grace check of both sweeps: \<open>Inr True\<close> means the tombstone is deferred.\<close>

definition within_grace ::
    "ext \<Rightarrow> sweep_opts \<Rightarrow> string \<Rightarrow> string \<Rightarrow> int \<Rightarrow> packchain_error + bool" where
  "within_grace x opts marked_at kind now =
     (if sw_force opts then Inr False
      else case check_grace_window x marked_at (sw_grace_hours opts) kind now of
             Inl e \<Rightarrow> Inl e
           | Inr decision \<Rightarrow> Inr (decision = Within))"

definition sweep_one_tombstone ::
    "ext \<Rightarrow> 's store_api \<Rightarrow> string \<Rightarrow> string \<Rightarrow> sweep_opts \<Rightarrow> int \<Rightarrow>
     ('s, packchain_error, sweep_step) io" where
  "sweep_one_tombstone x st pfx tkey opts now =
     match_io (st_get_bytes st tkey)
       (\<lambda>e. case e of NotFound _ \<Rightarrow> ok (Swept 0 0) | _ \<Rightarrow> fail_with (PackStore e))
       (\<lambda>body.
          and_then (of_result (tombstone_from_json_bytes x body)) (\<lambda>tomb.
          and_then (of_result (within_grace x opts (tb_marked_at tomb) ''tombstone'' now)) (\<lambda>within.
          if within then ok Deferred
          else
            and_then
              (fold_io
                (\<lambda>(deleted, skipped) sha.
                   and_then (list_referenced_packs x st pfx) (\<lambda>referenced.
                   if sha \<in> set referenced then ok (deleted, skipped + 1)
                   else
                     (let pkey = pack_key (Some pfx) sha;
                          ikey = pack_idx_key (Some pfx) sha
                      in and_then (gc_delete_idempotent st pkey) (\<lambda>a.
                         and_then (gc_delete_idempotent st ikey) (\<lambda>b.
                         ok (deleted + of_bool a + of_bool b, skipped))))))
                (0, 0) (tb_orphan_packs tomb))
              (\<lambda>(deleted, skipped).
                 and_then (gc_delete_idempotent st tkey) (\<lambda>_.
                 ok (Swept deleted skipped))))))"

definition sweep_one_baseline_tombstone ::
    "ext \<Rightarrow> 's store_api \<Rightarrow> string \<Rightarrow> string \<Rightarrow> sweep_opts \<Rightarrow> int \<Rightarrow>
     ('s, packchain_error, sweep_step) io" where
  "sweep_one_baseline_tombstone x st pfx tkey opts now =
     match_io (st_get_bytes st tkey)
       (\<lambda>e. case e of NotFound _ \<Rightarrow> ok (Swept 0 0) | _ \<Rightarrow> fail_with (PackStore e))
       (\<lambda>body.
          and_then (of_result (baseline_from_json_bytes x body)) (\<lambda>tomb.
          and_then (of_result (within_grace x opts (bt_marked_at tomb) ''baseline tombstone'' now))
            (\<lambda>within.
          if within then ok Deferred
          else if \<not> ref_name_ok x (bt_ref_name tomb) then ok Deferred
          else
            (let ref_name = bt_ref_name tomb;
                 prefix_opt = (if pfx \<noteq> [] then Some pfx else None)
             in and_then (load_chain x st prefix_opt ref_name) (\<lambda>chain.
                let still_live = (case chain of None \<Rightarrow> False | Some c \<Rightarrow> cm_full_at c = bt_sha tomb) in
                if still_live then
                  and_then (gc_delete_idempotent st tkey) (\<lambda>_. ok (Swept 0 1))
                else
                  and_then (load_chain x st prefix_opt ref_name) (\<lambda>recheck.
                  if (case recheck of None \<Rightarrow> False | Some c \<Rightarrow> cm_full_at c = bt_sha tomb)
                  then ok Deferred
                  else
                    and_then (gc_delete_idempotent st (bundle_key prefix_opt ref_name (bt_sha tomb)))
                      (\<lambda>deleted.
                    and_then (gc_delete_idempotent st tkey) (\<lambda>_.
                    ok (Swept (of_bool deleted) 0)))))))))"

text \<open>The clock is read once per tombstone: \<open>now_at\<close> gives the reading for each key.\<close>

definition sweep_step_of ::
    "ext \<Rightarrow> 's store_api \<Rightarrow> string \<Rightarrow> sweep_opts \<Rightarrow> (string \<Rightarrow> int) \<Rightarrow> sweep_outcome \<Rightarrow> object_meta \<Rightarrow>
     ('s, packchain_error, sweep_outcome) io" where
  "sweep_step_of x st pfx opts now_at outcome meta =
     (let key = om_key meta;
          account = (\<lambda>step. match_io step
            (\<lambda>_. ok outcome)
            (\<lambda>done. case done of
               Deferred \<Rightarrow> ok (outcome\<lparr>deferred_tombstones := deferred_tombstones outcome + 1\<rparr>)
             | Swept deleted skipped \<Rightarrow> ok (outcome\<lparr>
                 swept_tombstones := swept_tombstones outcome + 1,
                 deleted_objects := deleted_objects outcome + deleted,
                 skipped_repointed_packs := skipped_repointed_packs outcome + skipped\<rparr>)))
      in if \<not> ends_with key ''.json'' then ok outcome
         else if is_tombstone_key key pfx then
           account (sweep_one_tombstone x st pfx key opts (now_at key))
         else if is_baseline_tombstone_key key pfx then
           account (sweep_one_baseline_tombstone x st pfx key opts (now_at key))
         else ok outcome)"

definition sweep ::
    "ext \<Rightarrow> 's store_api \<Rightarrow> string \<Rightarrow> sweep_opts \<Rightarrow> (string \<Rightarrow> int) \<Rightarrow>
     ('s, packchain_error, sweep_outcome) io" where
  "sweep x st pfx opts now_at =
     (let tombstones_prefix = gc_listing_prefix pfx in
      and_then (map_err PackStore (st_list st tombstones_prefix)) (\<lambda>metas.
      fold_io (sweep_step_of x st pfx opts now_at) default_sweep_outcome metas))"

end
