(* ===== verification/Ref_Lock.thy ===== *)
theory Ref_Lock
  imports Mock_Store
begin

text \<open>
  The per-ref lock of \<open>src/protocol/push.rs\<close>: its time-to-live (\<open>lock_ttl_from_env\<close> and its
  companions), the heartbeat interval, \<open>acquire_lock\<close>, \<open>LockGuard::release\<close> and
  \<open>delete_idempotent\<close>, as sequential programs over a store. A duration or time is an integer
  number of nanoseconds. The guard is the lock key it will delete; its heartbeat task runs
  beside the critical section and is modelled with the interleavings in \<open>Lock_Protocol\<close>.
\<close>

subsection \<open>Time to live\<close>

definition DEFAULT_LOCK_TTL_SECONDS :: nat where
  "DEFAULT_LOCK_TTL_SECONDS = 60"

definition seconds :: "int \<Rightarrow> int" where
  "seconds n = n * 10 ^ 9"

text \<open>\<open>Duration::whole_seconds\<close> truncates towards zero.\<close>

definition whole_seconds :: "int \<Rightarrow> int" where
  "whole_seconds d = (if d < 0 then - ((- d) div 10 ^ 9) else d div 10 ^ 9)"

definition saturating_duration_seconds :: "nat \<Rightarrow> int" where
  "saturating_duration_seconds secs =
     seconds (if secs < 2 ^ 63 then int secs else 2 ^ 63 - 1)"

definition lock_ttl_from_env :: "string option \<Rightarrow> int" where
  "lock_ttl_from_env env_value =
     saturating_duration_seconds
       (case Option.bind env_value parse_u64 of
          Some s \<Rightarrow> if 0 < s then s else DEFAULT_LOCK_TTL_SECONDS
        | None \<Rightarrow> DEFAULT_LOCK_TTL_SECONDS)"

definition lock_ttl_from_env_seconds :: "string option \<Rightarrow> nat" where
  "lock_ttl_from_env_seconds env_value = nat (whole_seconds (lock_ttl_from_env env_value))"

definition resolve_lock_ttl_seconds :: "string option \<Rightarrow> nat option \<Rightarrow> nat" where
  "resolve_lock_ttl_seconds env_value opt =
     (case opt of
        Some n \<Rightarrow> if 0 < n then n else lock_ttl_from_env_seconds env_value
      | None \<Rightarrow> lock_ttl_from_env_seconds env_value)"

text \<open>In seconds, as the code builds it with \<open>Duration::from_secs\<close>.\<close>

definition heartbeat_interval :: "int \<Rightarrow> nat" where
  "heartbeat_interval ttl = nat (max (whole_seconds ttl) 3 div 3)"

subsection \<open>Acquire and release\<close>

definition delete_idempotent :: "'s store_api \<Rightarrow> string \<Rightarrow> ('s, store_error, unit) io" where
  "delete_idempotent st key =
     match_io (st_delete st key)
       (\<lambda>e. case e of NotFound _ \<Rightarrow> ok () | _ \<Rightarrow> fail_with e)
       (\<lambda>_. ok ())"

type_synonym lock_guard = string

definition spawn_lock_guard :: "string \<Rightarrow> lock_guard" where
  "spawn_lock_guard key = key"

definition acquire_lock ::
    "'s store_api \<Rightarrow> string \<Rightarrow> int \<Rightarrow> int \<Rightarrow> ('s, store_error, lock_guard option) io" where
  "acquire_lock st key ttl now =
     and_then (st_put_if_absent st key []) (\<lambda>created.
     if created then ok (Some (spawn_lock_guard key))
     else
       match_io (st_head st key)
         (\<lambda>e. case e of NotFound _ \<Rightarrow> ok None | _ \<Rightarrow> fail_with e)
         (\<lambda>meta.
            let age = now - om_last_modified meta in
            if age \<le> ttl then ok None
            else
              and_then (delete_idempotent st key) (\<lambda>_.
              and_then (st_put_if_absent st key []) (\<lambda>created'.
              ok (if created' then Some (spawn_lock_guard key) else None)))))"

definition release_lock :: "'s store_api \<Rightarrow> lock_guard \<Rightarrow> ('s, store_error, unit) io" where
  "release_lock st guard = delete_idempotent st guard"

subsection \<open>What the contract gives\<close>

text \<open>A lock is live when its age does not exceed the time to live.\<close>

definition lock_live :: "bucket \<Rightarrow> string \<Rightarrow> int \<Rightarrow> int \<Rightarrow> bool" where
  "lock_live v key ttl now \<longleftrightarrow> (\<exists>b m. v key = Some (b, m) \<and> now - m \<le> ttl)"

context store_contract
begin

lemma wp_delete_idempotent [wp_intros]:
  assumes "\<And>t. (honest s \<Longrightarrow> honest t) \<Longrightarrow> view t = view s \<or> view t = (view s)(k := None) \<Longrightarrow>
      (honest s \<Longrightarrow> view t = (view s)(k := None)) \<Longrightarrow> Q () t"
    and "\<And>e t. (honest s \<Longrightarrow> honest t) \<Longrightarrow>
      view t = view s \<or> view t = (view s)(k := None) \<Longrightarrow> E e t"
  shows "wp (delete_idempotent st k) Q E s"
  unfolding delete_idempotent_def
proof (intro wp_match wp_st_delete, goal_cases)
  case (1 t)
  then show ?case by (intro wp_ok assms(1)) auto
next
  case (2 e t)
  show ?case
  proof (cases e)
    case (NotFound x)
    with 2 have "view t = view s" "honest s \<Longrightarrow> view t = (view s)(k := None)" by (auto simp: fun_upd_idem)
    with 2 NotFound show ?thesis by (auto intro!: wp_ok assms(1))
  qed (use 2 in \<open>auto intro!: wp_fail assms(2)\<close>)
qed

lemma frame_delete_idempotent [keeps_intros]:
  "k \<in> K \<Longrightarrow> keeps (frame view K) (delete_idempotent st k)"
  unfolding delete_idempotent_def
  by (intro keeps_intros frame_refl frame_trans)
    (auto intro!: keeps_intros split: store_error.split)

lemma frame_acquire_lock [keeps_intros]:
  "k \<in> K \<Longrightarrow> keeps (frame view K) (acquire_lock st k ttl now)"
  unfolding acquire_lock_def
  by (intro keeps_intros frame_refl frame_trans)
    (auto intro!: keeps_intros split: store_error.split)

lemma frame_release_lock [keeps_intros]:
  "k \<in> K \<Longrightarrow> keeps (frame view K) (release_lock st k)"
  unfolding release_lock_def by (rule frame_delete_idempotent)

text \<open>A live lock is respected: no guard is handed out and the bucket does not change.\<close>

lemma acquire_respects_live_lock:
  assumes live: "lock_live (view s) k ttl now"
  shows "wp (acquire_lock st k ttl now)
      (\<lambda>g t. g = None \<and> view t = view s) (\<lambda>_ t. view t = view s) s"
  unfolding acquire_lock_def
proof (intro wp_and_then wp_st_put_if_absent, goal_cases)
  case 1
  with live show ?case by (auto simp: lock_live_def)
next
  case (2 t)
  show ?case
    unfolding if_False
  proof (intro wp_match wp_st_head, goal_cases)
    case (1 b m u)
    with live 2 have "now - om_last_modified m \<le> ttl" by (auto simp: lock_live_def)
    with 1 2 show ?case by (simp add: wp_ok)
  next
    case (2 e u)
    with \<open>view t = view s\<close> show ?case by (cases e) (auto intro!: wp_intros)
  qed
next
  case (3 e t)
  with live show ?case by (auto simp: lock_live_def)
qed

text \<open>
  A guard is only handed out after this call itself wrote the lock, on a key that was free
  or held a stale lock; nothing but the lock key changes.
\<close>

lemma acquire_lock_sound:
  "wp (acquire_lock st k ttl now)
     (\<lambda>g t. (\<forall>h. g = Some h \<longrightarrow> h = k \<and> (\<exists>m. view t = (view s)(k \<mapsto> ([], m))) \<and>
               \<not> lock_live (view s) k ttl now) \<and>
            (g = None \<longrightarrow> view t = view s \<or>
               (view t = (view s)(k := None) \<and> \<not> lock_live (view s) k ttl now)))
     (\<lambda>_ _. True) s"
  unfolding acquire_lock_def
proof (intro wp_and_then wp_st_put_if_absent, goal_cases)
  case (1 t)
  then show ?case by (auto simp: spawn_lock_guard_def wrote_def lock_live_def intro!: wp_ok)
next
  case (2 t)
  then have vt: "view t = view s" by simp
  show ?case
    unfolding if_False
  proof (intro wp_match wp_st_head, goal_cases)
    case (1 b m u)
    show ?case
    proof (cases "now - om_last_modified m \<le> ttl")
      case True
      with 1 vt show ?thesis by (simp add: wp_ok)
    next
      case False
      with 1 vt have stale: "\<not> lock_live (view s) k ttl now" by (auto simp: lock_live_def)
      show ?thesis
        unfolding Let_def if_not_P [OF False]
        by (intro wp_intros)
          (use 1 vt stale in \<open>auto simp: spawn_lock_guard_def wrote_def fun_upd_upd\<close>)
    qed
  next
    case (2 e u)
    with vt show ?case by (cases e) (auto intro!: wp_intros)
  qed
next
  case 3
  show ?case ..
qed

text \<open>What a caller needs: the guard is for its key, only that key changed, honesty is kept.\<close>

lemma honest_acquire_lock: "keeps (\<lambda>s t. honest s \<longrightarrow> honest t) (acquire_lock st k ttl now)"
proof -
  have R: "reflp (\<lambda>s t. honest s \<longrightarrow> honest t)" "transp (\<lambda>s t. honest s \<longrightarrow> honest t)"
    by (auto simp: reflp_def transp_def)
  have put: "keeps (\<lambda>s t. honest s \<longrightarrow> honest t) (st_put_if_absent st k b)" for b
    by (rule keepsI, drule put_if_absent_law) simp
  have head: "keeps (\<lambda>s t. honest s \<longrightarrow> honest t) (st_head st k)"
    by (rule keepsI, drule head_law) simp
  have del: "keeps (\<lambda>s t. honest s \<longrightarrow> honest t) (delete_idempotent st k)"
    by (rule keeps_from_wp, rule wp_delete_idempotent) auto
  show ?thesis
    unfolding acquire_lock_def
    by (intro keeps_and_then keeps_match keeps_if keeps_ok R put head)
      (auto intro!: keeps_intros R put del split: store_error.split)
qed

lemma wp_acquire_lock [wp_intros]:
  assumes "\<And>g t. frame view {k} s t \<Longrightarrow> (honest s \<Longrightarrow> honest t) \<Longrightarrow> g = None \<or> g = Some k \<Longrightarrow> Q g t"
    and "\<And>e t. frame view {k} s t \<Longrightarrow> E e t"
  shows "wp (acquire_lock st k ttl now) Q E s"
proof (rule wpI)
  fix g t
  assume run: "acquire_lock st k ttl now s = (Inr g, t)"
  have "g = None \<or> g = Some k"
    using wp_ok_resultD [OF acquire_lock_sound run] by (cases g) auto
  with keepsD [OF honest_acquire_lock run] keepsD [OF frame_acquire_lock run, of "{k}"]
  show "Q g t" by (intro assms(1)) auto
next
  fix e t
  assume "acquire_lock st k ttl now s = (Inl e, t)"
  from keepsD [OF frame_acquire_lock this, of "{k}"] show "E e t" by (intro assms(2)) auto
qed

end

context calm_store
begin

lemma calm_delete_idempotent [calm_intros]:
  assumes "calm s" "\<And>t. calm t \<Longrightarrow> view t = (view s)(k := None) \<Longrightarrow> Q () t"
  shows "wp (delete_idempotent st k) Q E s"
  unfolding delete_idempotent_def
  by (intro wp_match calm_wp_delete assms(1))
    (auto intro!: wp_ok assms(2) simp: fun_upd_idem)

lemma calm_acquire_lock [calm_intros]:
  assumes c: "calm s"
    and taken: "\<And>m t. calm t \<Longrightarrow> \<not> lock_live (view s) k ttl now \<Longrightarrow>
      view t = (view s)(k \<mapsto> ([], m)) \<Longrightarrow> Q (Some k) t"
    and held: "\<And>t. calm t \<Longrightarrow> lock_live (view s) k ttl now \<Longrightarrow> view t = view s \<Longrightarrow> Q None t"
  shows "wp (acquire_lock st k ttl now) Q E s"
  unfolding acquire_lock_def
proof (intro wp_and_then calm_wp_put_if_absent [OF c], goal_cases)
  case (1 t)
  then show ?case
    by (auto simp: spawn_lock_guard_def wrote_def lock_live_def intro!: wp_ok taken)
next
  case (2 t)
  show ?case
    unfolding if_False
  proof (intro wp_match calm_wp_head [OF \<open>calm t\<close>], goal_cases)
    case (1 b m u)
    show ?case
    proof (cases "now - om_last_modified m \<le> ttl")
      case True
      with 1 2 have "lock_live (view s) k ttl now" by (auto simp: lock_live_def)
      with True 1 2 show ?thesis by (simp add: wp_ok held)
    next
      case False
      with 1 2 have stale: "\<not> lock_live (view s) k ttl now" by (auto simp: lock_live_def)
      have vu: "view u = view s" using 1 2 by simp
      show ?thesis
        unfolding Let_def if_not_P [OF False]
        by (intro wp_and_then calm_delete_idempotent calm_wp_put_if_absent \<open>calm u\<close>)
          (use vu stale in \<open>auto simp: spawn_lock_guard_def wrote_def fun_upd_upd
            intro!: wp_ok taken\<close>)
    qed
  qed (use 2 in auto)
qed

lemma calm_release_lock [calm_intros]:
  assumes "calm s" "\<And>t. calm t \<Longrightarrow> view t = (view s)(k := None) \<Longrightarrow> Q () t"
  shows "wp (release_lock st k) Q E s"
  unfolding release_lock_def by (rule calm_delete_idempotent) (use assms in auto)

end

end
