(* ===== verification/Bundle_Push.thy ===== *)
theory Bundle_Push
  imports Push_Wire Gc Ref_Lock
begin

text \<open>
  The bundle engine's push: \<open>src/protocol/push.rs\<close> from \<open>bundles_for_ref\<close> to \<open>push_batch\<close>.
  A ref is one \<open><ref>/<sha>.bundle\<close> object. A push looks at the ref before the lock
  (\<open>prepare_push\<close>), takes the ref's lock, looks again and commits
  (\<open>perform_push_under_lock\<close>) or deletes (\<open>delete_remote_ref_under_lock\<close>), and releases.

  What a push reads outside the bucket is the record \<open>local_env\<close>: the repository, the outcomes
  of creating temporary directories, archive and bundle files, and their contents. Clock
  readings and the fresh UUID are arguments. Progress reports have no part in the result.
\<close>

subsection \<open>Types\<close>

datatype backend_kind = S3 | Azure

definition engine_as_str :: "storage_engine \<Rightarrow> string" where
  "engine_as_str engine =
     (case engine of BundleEngine \<Rightarrow> ''bundle'' | PackchainEngine \<Rightarrow> ''packchain'')"

record push_config =
  pc_zip :: bool
  pc_engine :: storage_engine
  pc_ttl :: int
  pc_kind :: backend_kind

type_synonym local_file = "store_error + string"

record local_env =
  le_repo :: "git_error + git_repo"
  le_archive_tempdir :: "git_error option"
  le_archive :: "string \<Rightarrow> git_error + local_file"
  le_commit_message :: "git_error + string"
  le_push_tempdir :: "string option"
  le_bundle_at :: "string \<Rightarrow> string \<Rightarrow> git_error + local_file"

record zip_artifacts =
  za_archive :: local_file
  za_short_sha :: string
  za_commit_msg :: string

datatype git_probe_error = LocalRefNotFound | NotAncestor

record local_git =
  lg_local_sha :: string
  lg_zip_artifacts :: "zip_artifacts option"
  lg_pre_existing_was_ancestor :: bool

record push_ready_state =
  pr_remote_ref :: string
  pr_local_sha :: string
  pr_pre_existing :: "string option"
  pr_bundle :: local_file
  pr_zip_artifacts :: "zip_artifacts option"
  pr_engine :: storage_engine
  pr_force :: bool
  pr_pre_existing_was_ancestor :: bool
  pr_local_spec :: string
  pr_hidden_bundles :: "string list"

datatype prepare_outcome =
    Ready push_ready_state
  | DeleteRef string
  | Done push_outcome

subsection \<open>Reading the ref\<close>

definition bundles_for_ref ::
    "ext \<Rightarrow> 's store_api \<Rightarrow> string option \<Rightarrow> string \<Rightarrow> string list option \<Rightarrow>
     ('s, store_error, object_meta list) io" where
  "bundles_for_ref x st pfx remote_ref cached_hidden =
     (let listing = ref_listing_prefix pfx remote_ref in
      and_then (st_list st listing) (\<lambda>metas.
      let bundles = filter (\<lambda>m. is_bundle_candidate x (om_key m)) metas in
      if bundles = [] then ok bundles
      else
        and_then (case cached_hidden of Some h \<Rightarrow> ok h | None \<Rightarrow> tombstoned_bundle_keys x st pfx)
          (\<lambda>hidden. ok (filter (\<lambda>m. om_key m \<notin> set hidden) bundles))))"

definition is_protected ::
    "'s store_api \<Rightarrow> string option \<Rightarrow> string \<Rightarrow> ('s, store_error, bool) io" where
  "is_protected st pfx remote_ref =
     match_io (st_head st (protected_marker_key pfx remote_ref))
       (\<lambda>e. case e of NotFound _ \<Rightarrow> ok False | _ \<Rightarrow> fail_with e)
       (\<lambda>_. ok True)"

text \<open>The post-delete probe: it only logs what it finds.\<close>

definition verify_no_orphan_protected_after_delete ::
    "'s store_api \<Rightarrow> string option \<Rightarrow> string \<Rightarrow> ('s, 'e, unit) io" where
  "verify_no_orphan_protected_after_delete st pfx remote_ref =
     match_io (st_head st (protected_marker_key pfx remote_ref)) (\<lambda>_. ok ()) (\<lambda>_. ok ())"

subsection \<open>Before the lock\<close>

definition local_git_work ::
    "local_env \<Rightarrow> string \<Rightarrow> string option \<Rightarrow> bool \<Rightarrow> bool \<Rightarrow>
     git_error + (git_probe_error + local_git)" where
  "local_git_work env local_spec pre_existing_sha force_push with_zip =
     (case le_repo env of
        Inl e \<Rightarrow> Inl e
      | Inr repo \<Rightarrow>
          (case resolve repo local_spec of
             Inl _ \<Rightarrow> Inr (Inl LocalRefNotFound)
           | Inr local_sha \<Rightarrow>
               (case (case pre_existing_sha of
                        None \<Rightarrow> Inr True
                      | Some remote_sha \<Rightarrow> is_ancestor repo remote_sha local_sha) of
                  Inl e \<Rightarrow> Inl e
                | Inr was_ancestor \<Rightarrow>
                    if \<not> force_push \<and> \<not> was_ancestor then Inr (Inl NotAncestor)
                    else
                      (case (if with_zip then
                               (case le_archive_tempdir env of
                                  Some e \<Rightarrow> Inl e
                                | None \<Rightarrow>
                                    (case le_archive env local_spec of
                                       Inl e \<Rightarrow> Inl e
                                     | Inr archive \<Rightarrow> Inr (Some
                                         \<lparr>za_archive = archive, za_short_sha = take 8 local_sha,
                                          za_commit_msg = (case le_commit_message env of
                                             Inl _ \<Rightarrow> [] | Inr msg \<Rightarrow> msg)\<rparr>)))
                             else Inr None) of
                         Inl e \<Rightarrow> Inl e
                       | Inr artifacts \<Rightarrow> Inr (Inr
                           \<lparr>lg_local_sha = local_sha, lg_zip_artifacts = artifacts,
                            lg_pre_existing_was_ancestor = was_ancestor\<rparr>)))))"

definition multiple_bundles_message :: string where
  "multiple_bundles_message = wire_quote
     ''multiple bundles exist on server. Run git-remote-object-store doctor to fix.''"

definition prepare_push ::
    "ext \<Rightarrow> 's store_api \<Rightarrow> string option \<Rightarrow> local_env \<Rightarrow> push_config \<Rightarrow> push_spec \<Rightarrow>
     ('s, push_error, prepare_outcome) io" where
  "prepare_push x st pfx env config spec =
     (let force = ps_force spec; local_spec = ps_local_spec spec;
          remote_ref = ps_remote_ref spec in
      if local_spec = [] then ok (DeleteRef remote_ref)
      else
        and_then (map_err PushStore (tombstoned_bundle_keys x st pfx)) (\<lambda>hidden.
        and_then (map_err PushStore (bundles_for_ref x st pfx remote_ref (Some hidden)))
          (\<lambda>pre_bundles.
        if length pre_bundles > 1 then ok (Done (PushError remote_ref multiple_bundles_message))
        else
          (let pre_existing = (case pre_bundles of [] \<Rightarrow> None | m # _ \<Rightarrow> Some (om_key m)) in
           case (case pre_existing of
                   None \<Rightarrow> Some None
                 | Some key \<Rightarrow> map_option Some (parse_remote_sha_from_key x key)) of
             None \<Rightarrow> ok (Done (PushError remote_ref (wire_quote
               (''unable to parse remote bundle key '' @ debug_str (the pre_existing) @
                ''; run git-remote-object-store doctor to fix.''))))
           | Some pre_existing_sha \<Rightarrow>
               (case local_git_work env local_spec pre_existing_sha force (pc_zip config) of
                  Inl e \<Rightarrow> fail_with (PushGit e)
                | Inr (Inl LocalRefNotFound) \<Rightarrow>
                    ok (Done (PushError remote_ref (wire_quote (local_spec @ '' not found''))))
                | Inr (Inl NotAncestor) \<Rightarrow>
                    ok (Done (PushError remote_ref (not_ancestor_wire_message local_spec)))
                | Inr (Inr local) \<Rightarrow>
                    (case le_push_tempdir env of
                       Some e \<Rightarrow> fail_with (PushIo e)
                     | None \<Rightarrow>
                         (case le_bundle_at env (lg_local_sha local) local_spec of
                            Inl e \<Rightarrow> fail_with (PushGit e)
                          | Inr bundle \<Rightarrow> ok (Ready
                              \<lparr>pr_remote_ref = remote_ref, pr_local_sha = lg_local_sha local,
                               pr_pre_existing = pre_existing, pr_bundle = bundle,
                               pr_zip_artifacts = lg_zip_artifacts local,
                               pr_engine = pc_engine config, pr_force = force,
                               pr_pre_existing_was_ancestor = lg_pre_existing_was_ancestor local,
                               pr_local_spec = local_spec, pr_hidden_bundles = hidden\<rparr>))))))))"

subsection \<open>Under the lock\<close>

definition delete_prior_bundle_best_effort :: "'s store_api \<Rightarrow> string \<Rightarrow> ('s, 'e, unit) io" where
  "delete_prior_bundle_best_effort st prior_key =
     match_io (delete_idempotent st prior_key) (\<lambda>_. ok ()) (\<lambda>_. ok ())"

definition defer_prior_bundle_via_tombstone ::
    "ext \<Rightarrow> 's store_api \<Rightarrow> string option \<Rightarrow> string \<Rightarrow> string \<Rightarrow> string \<Rightarrow> int \<Rightarrow> string \<Rightarrow>
     ('s, 'e, unit) io" where
  "defer_prior_bundle_via_tombstone x st pfx remote_ref prior_key local_sha now uuid =
     (case parse_remote_sha_stem_from_key prior_key of
        None \<Rightarrow> delete_prior_bundle_best_effort st prior_key
      | Some prior_stem \<Rightarrow>
          (case (sha40_try_new prior_stem, sha40_try_new local_sha) of
             (Inr prior_sha40, Inr local_sha40) \<Rightarrow>
               and_then (write_baseline_tombstone_best_effort x st pfx remote_ref
                           prior_sha40 local_sha40 now uuid)
                 (\<lambda>wrote. if wrote then ok () else delete_prior_bundle_best_effort st prior_key)
           | _ \<Rightarrow> delete_prior_bundle_best_effort st prior_key))"

definition upload_zip_artifact_best_effort ::
    "'s store_api \<Rightarrow> string \<Rightarrow> local_file \<Rightarrow> put_opts \<Rightarrow> ('s, 'e, unit) io" where
  "upload_zip_artifact_best_effort st zip_dest archive opts =
     match_io (st_put_path st zip_dest archive opts) (\<lambda>_. ok ()) (\<lambda>_. ok ())"

definition zip_put_opts :: "backend_kind \<Rightarrow> zip_artifacts \<Rightarrow> put_opts" where
  "zip_put_opts kind artifacts =
     \<lparr>content_disposition = Some (''attachment; filename=repo-'' @ za_short_sha artifacts @ ''.zip''),
      user_metadata = (case kind of
         S3 \<Rightarrow> [(''codepipeline-artifact-revision-summary'',
                  sanitize_metadata_value (za_commit_msg artifacts))]
       | Azure \<Rightarrow> [])\<rparr>"

text \<open>The writes of \<open>perform_push_under_lock\<close>, once its checks have passed.\<close>

definition commit_push ::
    "ext \<Rightarrow> 's store_api \<Rightarrow> string option \<Rightarrow> backend_kind \<Rightarrow> push_ready_state \<Rightarrow> string option \<Rightarrow>
     int \<Rightarrow> string \<Rightarrow> ('s, push_error, push_outcome) io" where
  "commit_push x st pfx kind state current_key now uuid =
     (let remote_ref = pr_remote_ref state;
          bundle_dest = bundle_key pfx remote_ref (pr_local_sha state) in
      and_then (map_err PushStore
        (st_put_path st bundle_dest (pr_bundle state) default_put_opts)) (\<lambda>_.
      and_then (map_err PushStore (st_put_if_absent st (head_key pfx) remote_ref)) (\<lambda>_.
      and_then (map_err PushStore (st_put_if_absent st (join pfx ''FORMAT'')
        (engine_as_str (pr_engine state)))) (\<lambda>_.
      and_then
        (case current_key of
           None \<Rightarrow> ok ()
         | Some prev \<Rightarrow>
             if prev \<noteq> bundle_dest
             then defer_prior_bundle_via_tombstone x st pfx remote_ref prev
                    (pr_local_sha state) now uuid
             else ok ()) (\<lambda>_.
      and_then
        (case pr_zip_artifacts state of
           None \<Rightarrow> ok ()
         | Some artifacts \<Rightarrow>
             upload_zip_artifact_best_effort st (archive_key pfx remote_ref)
               (za_archive artifacts) (zip_put_opts kind artifacts)) (\<lambda>_.
      ok (PushOk remote_ref)))))))"

definition perform_push_under_lock ::
    "ext \<Rightarrow> 's store_api \<Rightarrow> string option \<Rightarrow> backend_kind \<Rightarrow> push_ready_state \<Rightarrow> int \<Rightarrow> string \<Rightarrow>
     ('s, push_error, push_outcome) io" where
  "perform_push_under_lock x st pfx kind state now uuid =
     (let remote_ref = pr_remote_ref state in
      and_then
        (if pr_force state \<and> \<not> pr_pre_existing_was_ancestor state
         then map_err PushStore (is_protected st pfx remote_ref) else ok False) (\<lambda>blocked.
      if blocked then ok (PushError remote_ref (not_ancestor_wire_message (pr_local_spec state)))
      else
        and_then (map_err PushStore
            (bundles_for_ref x st pfx remote_ref (Some (pr_hidden_bundles state)))) (\<lambda>current.
        if length current > 1 then
          ok (PushError remote_ref (wire_quote
            (''multiple bundles exist for the same ref on server. '' @
             ''Run git-remote-object-store doctor to fix.'')))
        else
          (let current_key = (case current of [] \<Rightarrow> None | m # _ \<Rightarrow> Some (om_key m)) in
           if pr_pre_existing state \<noteq> current_key then
             ok (PushError remote_ref (wire_quote ''stale remote. Please fetch and retry.''))
           else commit_push x st pfx kind state current_key now uuid))))"

definition delete_remote_ref_under_lock ::
    "ext \<Rightarrow> 's store_api \<Rightarrow> string option \<Rightarrow> string \<Rightarrow> string \<Rightarrow> ('s, push_error, push_outcome) io" where
  "delete_remote_ref_under_lock x st pfx remote_ref lkey =
     (let listing = ref_listing_prefix pfx remote_ref in
      and_then (map_err PushStore (st_list st listing)) (\<lambda>all_entries.
      if entries_have_protected_marker all_entries then
        ok (PushError remote_ref DELETE_PROTECTION_MESSAGE)
      else
        (let deletable = filter (\<lambda>e. om_key e \<noteq> lkey) all_entries;
             bundle_count = length (filter (\<lambda>e. is_bundle_candidate x (om_key e)) deletable)
         in if bundle_count = 0 then ok (PushError remote_ref (wire_quote ''not found''))
            else if bundle_count = 1 then
              and_then
                (fold_io (\<lambda>_ entry. map_err PushStore (delete_idempotent st (om_key entry)))
                   () deletable) (\<lambda>_.
              and_then (verify_no_orphan_protected_after_delete st pfx remote_ref) (\<lambda>_.
              ok (PushOk remote_ref)))
            else ok (PushError remote_ref multiple_bundles_message))))"

subsection \<open>One push\<close>

definition show_int :: "int \<Rightarrow> string" where
  "show_int i = (if i < 0 then ''-'' @ show_nat (nat (- i)) else show_nat (nat i))"

datatype under_lock_work = WorkPush push_ready_state | WorkDelete string

fun work_ref :: "under_lock_work \<Rightarrow> string" where
  "work_ref (WorkPush state) = pr_remote_ref state"
| "work_ref (WorkDelete remote_ref) = remote_ref"

definition lock_contended_message :: "string \<Rightarrow> int \<Rightarrow> string" where
  "lock_contended_message lock ttl = wire_quote
     (''failed to acquire ref lock at '' @ lock @
      ''. Another client may be pushing or deleting. If this persists beyond '' @
      show_int (whole_seconds ttl) @
      ''s, run git-remote-object-store doctor to inspect and optionally clear stale locks.'')"

definition lock_release_message :: "string \<Rightarrow> string" where
  "lock_release_message lock = wire_quote
     (''failed to release lock. You may need to manually remove the lock '' @ lock @
      '' from the server or use git-remote-object-store doctor to fix.'')"

text \<open>The result of a critical section whose lock may fail to be released afterwards.\<close>

definition release_around ::
    "'s store_api \<Rightarrow> lock_guard \<Rightarrow> string \<Rightarrow> string \<Rightarrow> ('s, 'e, push_outcome) io \<Rightarrow>
     ('s, 'e, push_outcome) io" where
  "release_around st guard remote_ref lock work =
     match_io work
       (\<lambda>e. match_io (release_lock st guard) (\<lambda>_. fail_with e) (\<lambda>_. fail_with e))
       (\<lambda>outcome. match_io (release_lock st guard)
          (\<lambda>_. case outcome of
             PushOk _ \<Rightarrow> ok (PushError remote_ref (lock_release_message lock))
           | PushError _ _ \<Rightarrow> ok outcome)
          (\<lambda>_. ok outcome))"

text \<open>The critical section of \<open>push_one\<close>, for either kind of work.\<close>

definition lock_and_work ::
    "ext \<Rightarrow> 's store_api \<Rightarrow> string option \<Rightarrow> push_config \<Rightarrow> int \<Rightarrow> int \<Rightarrow> string \<Rightarrow> under_lock_work \<Rightarrow>
     ('s, push_error, push_outcome) io" where
  "lock_and_work x st pfx config now tomb_now uuid work =
     (let remote_ref = work_ref work; lock = lock_key pfx remote_ref in
      and_then (map_err PushStore (acquire_lock st lock (pc_ttl config) now)) (\<lambda>acquired.
      case acquired of
        None \<Rightarrow> ok (PushError remote_ref (lock_contended_message lock (pc_ttl config)))
      | Some guard \<Rightarrow>
          release_around st guard remote_ref lock
            (case work of
               WorkPush state \<Rightarrow>
                 perform_push_under_lock x st pfx (pc_kind config) state tomb_now uuid
             | WorkDelete remote_ref \<Rightarrow>
                 delete_remote_ref_under_lock x st pfx remote_ref lock)))"

definition push_one ::
    "ext \<Rightarrow> 's store_api \<Rightarrow> string option \<Rightarrow> local_env \<Rightarrow> push_config \<Rightarrow> int \<Rightarrow> int \<Rightarrow> string \<Rightarrow>
     push_spec \<Rightarrow> ('s, push_error, push_outcome) io" where
  "push_one x st pfx env config now tomb_now uuid spec =
     and_then (prepare_push x st pfx env config spec) (\<lambda>prepared.
     case prepared of
       Done outcome \<Rightarrow> ok outcome
     | Ready state \<Rightarrow> lock_and_work x st pfx config now tomb_now uuid (WorkPush state)
     | DeleteRef remote_ref \<Rightarrow> lock_and_work x st pfx config now tomb_now uuid (WorkDelete remote_ref))"

text \<open>
  One command of a batch with the inputs its push reads: the local side, the time, the time
  and UUID of a tombstone.
\<close>

record push_input =
  pi_cmd :: string
  pi_env :: local_env
  pi_now :: int
  pi_tomb_now :: int
  pi_uuid :: string

definition push_batch ::
    "ext \<Rightarrow> 's store_api \<Rightarrow> string option \<Rightarrow> string option \<Rightarrow> backend_kind \<Rightarrow> bool \<Rightarrow>
     storage_engine \<Rightarrow> push_input list \<Rightarrow> ('s, push_error, push_outcome list) io" where
  "push_batch x st pfx env_ttl kind with_zip engine cmds =
     (if cmds = [] then ok []
      else
        (let config = \<lparr>pc_zip = with_zip, pc_engine = engine, pc_ttl = lock_ttl_from_env env_ttl,
                       pc_kind = kind\<rparr>
         in fold_io
           (\<lambda>outcomes cmd.
              and_then (of_result (parse_push_args x (pi_cmd cmd))) (\<lambda>spec.
              and_then
                (match_io
                  (push_one x st pfx (pi_env cmd) config (pi_now cmd) (pi_tomb_now cmd)
                     (pi_uuid cmd) spec)
                  (\<lambda>e. case e of
                     PushStore _ \<Rightarrow>
                       ok (PushError (ps_remote_ref spec) (wire_quote (full_error_chain e)))
                   | PushGit _ \<Rightarrow>
                       ok (PushError (ps_remote_ref spec) (wire_quote (full_error_chain e)))
                   | PushIo _ \<Rightarrow>
                       ok (PushError (ps_remote_ref spec) (wire_quote (full_error_chain e)))
                   | PushSha _ \<Rightarrow>
                       ok (PushError (ps_remote_ref spec) (wire_quote (full_error_chain e)))
                   | _ \<Rightarrow> fail_with e)
                  ok)
                (\<lambda>outcome. ok (outcomes @ [outcome]))))
           [] cmds))"

end
