(* ===== verification/Demo_World.thy ===== *)
theory Demo_World
  imports Mock_Store
begin

text \<open>
  A concrete choice of the third-party functions, on which the properties are applied to
  concrete inputs: object ids are the 40-digit hex strings, a time is its decimal number of
  nanoseconds, and a JSON document is written in a length-prefixed form that \<open>demo_parse\<close>
  reads back (\<open>demo_json_roundtrip\<close>). The choice meets the laws the properties assume of
  these libraries.
\<close>

subsection \<open>A document format\<close>

definition demo_text :: "string \<Rightarrow> string" where
  "demo_text s = show_nat (length s) @ '';'' @ s"

fun demo_print :: "json \<Rightarrow> string" where
  "demo_print JNull = ''n''"
| "demo_print (JBool b) = (if b then ''t'' else ''f'')"
| "demo_print (JInt i) = (if i < 0 then ''-'' else ''+'') @ show_nat (nat \<bar>i\<bar>) @ '';''"
| "demo_print (JFloat s) = ''d'' @ demo_text s"
| "demo_print (JStr s) = ''s'' @ demo_text s"
| "demo_print (JArr js) = ''['' @ concat (map demo_print js) @ '']''"
| "demo_print (JObj kvs) = ''{'' @ concat (map (\<lambda>(k, j). ''s'' @ demo_text k @ demo_print j) kvs) @ ''}''"

definition read_nat :: "string \<Rightarrow> (nat \<times> string) option" where
  "read_nat s =
     (case split_once CHR '';'' s of
        None \<Rightarrow> None
      | Some (digits, rest) \<Rightarrow> map_option (\<lambda>n. (n, rest)) (parse_digits 0 digits))"

definition read_text :: "string \<Rightarrow> (string \<times> string) option" where
  "read_text s =
     (case read_nat s of
        None \<Rightarrow> None
      | Some (n, rest) \<Rightarrow> if n \<le> length rest then Some (take n rest, drop n rest) else None)"

fun read_json :: "nat \<Rightarrow> string \<Rightarrow> (json \<times> string) option"
  and read_items :: "nat \<Rightarrow> string \<Rightarrow> (json list \<times> string) option"
  and read_members :: "nat \<Rightarrow> string \<Rightarrow> ((string \<times> json) list \<times> string) option" where
  "read_json 0 s = None"
| "read_json (Suc f) [] = None"
| "read_json (Suc f) (c # s) =
     (if c = CHR ''n'' then Some (JNull, s)
      else if c = CHR ''t'' then Some (JBool True, s)
      else if c = CHR ''f'' then Some (JBool False, s)
      else if c = CHR ''+'' then map_option (\<lambda>(n, r). (JInt (int n), r)) (read_nat s)
      else if c = CHR ''-'' then map_option (\<lambda>(n, r). (JInt (- int n), r)) (read_nat s)
      else if c = CHR ''d'' then map_option (\<lambda>(t, r). (JFloat t, r)) (read_text s)
      else if c = CHR ''s'' then map_option (\<lambda>(t, r). (JStr t, r)) (read_text s)
      else if c = CHR ''['' then map_option (\<lambda>(js, r). (JArr js, r)) (read_items f s)
      else if c = CHR ''{'' then map_option (\<lambda>(kvs, r). (JObj kvs, r)) (read_members f s)
      else None)"
| "read_items 0 s = None"
| "read_items (Suc f) s =
     (if prefix '']'' s then Some ([], tl s)
      else case read_json f s of
             None \<Rightarrow> None
           | Some (j, r) \<Rightarrow> map_option (\<lambda>(js, q). (j # js, q)) (read_items f r))"
| "read_members 0 s = None"
| "read_members (Suc f) s =
     (if prefix ''}'' s then Some ([], tl s)
      else case read_text (tl s) of
             None \<Rightarrow> None
           | Some (k, r) \<Rightarrow>
               (case read_json f r of
                  None \<Rightarrow> None
                | Some (j, q) \<Rightarrow> map_option (\<lambda>(kvs, p). ((k, j) # kvs, p)) (read_members f q)))"

definition demo_parse :: "string \<Rightarrow> json option" where
  "demo_parse s =
     (case read_json (2 * length s) s of Some (j, r) \<Rightarrow> if r = [] then Some j else None | None \<Rightarrow> None)"

lemma show_nat_no_semicolon [simp]: "CHR '';'' \<notin> set (show_nat n)"
proof
  assume "CHR '';'' \<in> set (show_nat n)"
  then obtain d where d: "d < 10" "CHR '';'' = digit_char d" using show_nat_digits by blast
  then have "digit_val (CHR '';'') = Some d" by simp
  then show False by (simp add: digit_val_def)
qed

lemma read_nat_show [simp]: "read_nat (show_nat n @ CHR '';'' # r) = Some (n, r)"
  by (simp add: read_nat_def parse_digits_show)

lemma read_text_demo [simp]: "read_text (demo_text s @ r) = Some (s, r)"
  by (simp add: read_text_def demo_text_def)

lemma demo_print_ends: "demo_print j \<noteq> [] \<and> \<not> prefix '']'' (demo_print j @ r)"
  by (cases j) auto

lemma demo_print_pos: "0 < length (demo_print j)"
  using demo_print_ends by auto

text \<open>Every document and every tail of members is read back, given enough fuel.\<close>

lemma read_items_print:
  assumes "\<And>j f r. j \<in> set js \<Longrightarrow> 2 * length (demo_print j) \<le> f \<Longrightarrow> read_json f (demo_print j @ r) = Some (j, r)"
    and "2 * length (concat (map demo_print js)) < f"
  shows "read_items f (concat (map demo_print js) @ CHR '']'' # r) = Some (js, r)"
  using assms
proof (induction js arbitrary: f)
  case Nil
  then show ?case by (cases f) auto
next
  case (Cons j js)
  then obtain g where f: "f = Suc g" by (cases f) auto
  have g: "2 * length (demo_print j) \<le> g" "2 * length (concat (map demo_print js)) < g"
    using Cons.prems(2) demo_print_pos [of j] by (cases "demo_print j"; auto simp: f)+
  have "read_items g (concat (map demo_print js) @ CHR '']'' # r) = Some (js, r)"
    by (rule Cons.IH) (use Cons.prems(1) g in auto)
  moreover have "\<not> prefix '']'' (demo_print j @ concat (map demo_print js) @ CHR '']'' # r)"
    using demo_print_ends by blast
  ultimately show ?case using Cons.prems(1) [of j g] g by (simp add: f)
qed

lemma read_members_print:
  assumes "\<And>k j f r. (k, j) \<in> set kvs \<Longrightarrow> 2 * length (demo_print j) \<le> f \<Longrightarrow> read_json f (demo_print j @ r) = Some (j, r)"
    and "2 * length (concat (map (\<lambda>(k, j). ''s'' @ demo_text k @ demo_print j) kvs)) < f"
  shows "read_members f (concat (map (\<lambda>(k, j). ''s'' @ demo_text k @ demo_print j) kvs) @ CHR ''}'' # r) =
    Some (kvs, r)"
  using assms
proof (induction kvs arbitrary: f)
  case Nil
  then show ?case by (cases f) auto
next
  case (Cons kv kvs)
  obtain k j where kv: "kv = (k, j)" by force
  obtain g where f: "f = Suc g" using Cons.prems(2) by (cases f) auto
  have g: "2 * length (demo_print j) \<le> g"
    "2 * length (concat (map (\<lambda>(k, j). ''s'' @ demo_text k @ demo_print j) kvs)) < g"
    using Cons.prems(2) by (auto simp: f kv)
  have "read_members g (concat (map (\<lambda>(k, j). ''s'' @ demo_text k @ demo_print j) kvs) @ CHR ''}'' # r) = Some (kvs, r)"
    by (rule Cons.IH) (use Cons.prems(1) g in auto)
  with Cons.prems(1) [of k j g] g show ?case by (simp add: f kv)
qed

lemma read_json_print: "2 * length (demo_print j) \<le> f \<Longrightarrow> read_json f (demo_print j @ r) = Some (j, r)"
proof (induction j arbitrary: f r)
  case (JArr js)
  then obtain g where f: "f = Suc g" by (cases f) auto
  have "read_items g (concat (map demo_print js) @ CHR '']'' # r) = Some (js, r)"
    by (rule read_items_print) (use JArr f in auto)
  then show ?case by (simp add: f)
next
  case (JObj kvs)
  then obtain g where f: "f = Suc g" by (cases f) auto
  have "read_members g (concat (map (\<lambda>(k, j). ''s'' @ demo_text k @ demo_print j) kvs) @ CHR ''}'' # r) = Some (kvs, r)"
    by (rule read_members_print) (use JObj f in force)+
  then show ?case by (simp add: f)
next
  case (JInt i)
  then show ?case by (cases f) auto
qed (case_tac [!] f, auto split: if_splits)

lemma demo_json_roundtrip: "demo_parse (demo_print j) = Some j"
  using read_json_print [of j "2 * length (demo_print j)" "[]"] by (simp add: demo_parse_def)

subsection \<open>The instance\<close>

definition demo_ext :: ext where
  "demo_ext = \<lparr>oid_from_hex = (\<lambda>h. if is_valid_bundle_stem h then Some h else None),
     ref_name_ok = (\<lambda>r. prefix ''refs/'' r), ref_partial_ok = (\<lambda>r. r \<noteq> []),
     json_parse = demo_parse, json_print = demo_print,
     rfc3339_format = (\<lambda>t. if 0 \<le> t \<and> t < 2 ^ 64 then Some (show_nat (nat t)) else None),
     rfc3339_parse = (\<lambda>s. map_option int (parse_u64 s))\<rparr>"

lemma demo_hex_law [simp]: "hex_law demo_ext"
  by (simp add: hex_law_def demo_ext_def)

lemma demo_sel [simp]:
  "ref_name_ok demo_ext r \<longleftrightarrow> prefix ''refs/'' r"
  "ref_partial_ok demo_ext r \<longleftrightarrow> r \<noteq> []"
  "json_parse demo_ext (json_print demo_ext j) = Some j"
  by (simp_all add: demo_ext_def demo_json_roundtrip)

lemma demo_time [simp]:
  "0 \<le> t \<Longrightarrow> t < 2 ^ 64 \<Longrightarrow> rfc3339_format demo_ext t = Some (show_nat (nat t))"
  "n < 2 ^ 64 \<Longrightarrow> rfc3339_parse demo_ext (show_nat n) = Some (int n)"
  by (simp_all add: demo_ext_def parse_u64_show_nat)

text \<open>Object ids: the same digit forty times.\<close>

definition demo_sha :: "char \<Rightarrow> string" where
  "demo_sha c = replicate 40 c"

lemma demo_sha_valid [simp]: "is_lower_hex c \<Longrightarrow> is_valid_bundle_stem (demo_sha c)"
  by (simp add: is_valid_bundle_stem_def demo_sha_def list_all_iff)

lemma demo_sha_eq [simp]: "demo_sha c = demo_sha d \<longleftrightarrow> c = d"
  by (simp add: demo_sha_def)

lemma demo_hex_digits [simp]:
  "is_lower_hex CHR ''a''" "is_lower_hex CHR ''b''" "is_lower_hex CHR ''c''"
  "is_lower_hex CHR ''d''" "is_lower_hex CHR ''1''" "is_lower_hex CHR ''2''"
  by (simp_all add: is_lower_hex_def less_eq_char_def)

subsection \<open>A bucket\<close>

text \<open>The mock store that holds the given keys, bodies and modification times.\<close>

definition demo_bucket :: "(string \<times> string \<times> int) list \<Rightarrow> mock_state" where
  "demo_bucket kvs =
     foldr (\<lambda>(k, b, m) s. insert_with k b m default_put_opts s) kvs (empty_mock 0)"

lemma demo_bucket_simps [simp]:
  "demo_bucket [] = empty_mock 0"
  "demo_bucket ((k, b, m) # kvs) = insert_with k b m default_put_opts (demo_bucket kvs)"
  by (simp_all add: demo_bucket_def)

lemma empty_mock_simps [simp]:
  "mock_view (empty_mock t) = (\<lambda>_. None)" "mock_calm (empty_mock t)" "mock_honest (empty_mock t)"
  by (auto simp: mock_view_def empty_mock_def mock_calm_def mock_honest_def)

lemma demo_bucket_calm [simp]: "mock_calm (demo_bucket kvs)"
  by (induction kvs) auto

lemma demo_bucket_honest [simp]: "mock_honest (demo_bucket kvs)"
  by (induction kvs) auto

lemma demo_bucket_dom: "mock_view (demo_bucket kvs) k \<noteq> None \<longleftrightarrow> k \<in> fst ` set kvs"
  by (induction kvs) auto

end
