(* ===== verification/Gc_Proofs.thy ===== *)
theory Gc_Proofs
  imports Gc Demo_World
begin

text \<open>
  What the collector of \<open>Gc\<close> guarantees. A run of \<open>sweep\<close> deletes only what a tombstone past
  its window justifies and nothing a readable chain still needs, whatever faults the store
  has (\<open>gc_safe\<close>); \<open>mark\<close> writes nothing but its tombstone, naming exactly the unreferenced
  packs; on a quiet store a due tombstone is applied in full. The bundles that baseline
  tombstones hide from readers are the set \<open>hidden\<close>.
\<close>

subsection \<open>Keys of the collector\<close>

lemma chain_not_pack [simp]:
  "is_chain_json_key k \<Longrightarrow> k \<noteq> pack_key pfx sha"
  "is_chain_json_key k \<Longrightarrow> k \<noteq> pack_idx_key pfx sha"
  "is_chain_json_key k \<Longrightarrow> k \<noteq> bundle_key pfx r sha"
  by (auto simp: is_chain_json_key_def CHAIN_JSON_SUFFIX_def suffix_def builder_base
      dest!: arg_cong [of _ _ last])

lemma bundle_not_pack [simp]:
  "bundle_key p r sha \<noteq> pack_key pfx sha'"
  "bundle_key p r sha \<noteq> pack_idx_key pfx sha'"
  "pack_key pfx sha \<noteq> pack_idx_key pfx sha'"
  by (auto simp: builder_base dest!: arg_cong [of _ _ last])

lemma prefix_opt_keys:
  "chain_key (if pfx \<noteq> [] then Some pfx else None) r = chain_key (Some pfx) r"
  "bundle_key (if pfx \<noteq> [] then Some pfx else None) r sha = bundle_key (Some pfx) r sha"
  by (simp_all add: builder_base)

lemma pack_key_inject [simp]:
  "pack_key pfx sha = pack_key pfx sha' \<longleftrightarrow> sha = sha'"
  "pack_idx_key pfx sha = pack_idx_key pfx sha' \<longleftrightarrow> sha = sha'"
  by (auto simp: builder_base)

definition tombstone_shaped :: "string \<Rightarrow> string \<Rightarrow> bool" where
  "tombstone_shaped pfx k \<longleftrightarrow>
     ends_with k ''.json'' \<and> (is_tombstone_key k pfx \<or> is_baseline_tombstone_key k pfx)"

lemma tombstone_shaped_gc: "tombstone_shaped pfx k \<Longrightarrow> prefix (join (Some pfx) ''gc/'') k"
  by (auto simp: tombstone_shaped_def is_tombstone_key_def is_baseline_tombstone_key_def
      baseline_tombstone_listing_prefix_def BASELINE_TOMBSTONE_KEY_FRAGMENT_def join_base
      prefix_def)

lemma tombstone_shaped_other:
  assumes "tombstone_shaped pfx k"
  shows "k \<noteq> pack_key (Some pfx) sha" "k \<noteq> pack_idx_key (Some pfx) sha"
    "k \<noteq> bundle_key q r sha" "\<not> prefix (join (Some pfx) ''refs/'') k"
proof -
  from tombstone_shaped_gc [OF assms] show "k \<noteq> pack_key (Some pfx) sha"
    "k \<noteq> pack_idx_key (Some pfx) sha" "\<not> prefix (join (Some pfx) ''refs/'') k"
    by (auto simp: builder_base prefix_def)
  from assms show "k \<noteq> bundle_key q r sha"
    by (auto simp: tombstone_shaped_def suffix_def builder_base dest!: arg_cong [of _ _ last])
qed

subsection \<open>What a run of the collector may delete\<close>

definition chain_slot :: "string \<Rightarrow> string \<Rightarrow> bool" where
  "chain_slot pfx k \<longleftrightarrow> prefix (join (Some pfx) ''refs/'') k \<and> is_chain_json_key k"

text \<open>A pack is referenced when some readable chain under \<open>refs/\<close> has a segment for it.\<close>

definition referenced :: "ext \<Rightarrow> string \<Rightarrow> bucket \<Rightarrow> string \<Rightarrow> bool" where
  "referenced x pfx v sha \<longleftrightarrow>
     (\<exists>k c g. chain_slot pfx k \<and> chain_at x v k = Some c \<and> g \<in> set (cm_segments c) \<and>
        sha_from_pack_key (seg_pack g) = Some sha)"

text \<open>
  The objects readers still need: the chains, the packs they reference with their indexes,
  and the baseline bundle of every chain.
\<close>

definition live :: "ext \<Rightarrow> string \<Rightarrow> bucket \<Rightarrow> string \<Rightarrow> bool" where
  "live x pfx v k \<longleftrightarrow>
     chain_slot pfx k \<or>
     (\<exists>sha. referenced x pfx v sha \<and> k \<in> {pack_key (Some pfx) sha, pack_idx_key (Some pfx) sha}) \<or>
     (\<exists>r c. prefix ''refs/'' r \<and> chain_at x v (chain_key (Some pfx) r) = Some c \<and>
        k = bundle_key (Some pfx) r (cm_full_at c))"

text \<open>A key is sweepable when a tombstone past its window (or \<open>force\<close>) accounts for it.\<close>

definition pack_sweep :: "ext \<Rightarrow> sweep_opts \<Rightarrow> int \<Rightarrow> string \<Rightarrow> string \<Rightarrow> string \<Rightarrow> string set" where
  "pack_sweep x opts now pfx tk b =
     {k. \<exists>t. tombstone_from_json_bytes x b = Inr t \<and>
        within_grace x opts (tb_marked_at t) ''tombstone'' now = Inr False \<and>
        (k = tk \<or> (\<exists>sha \<in> set (tb_orphan_packs t).
           k \<in> {pack_key (Some pfx) sha, pack_idx_key (Some pfx) sha}))}"

definition baseline_sweep :: "ext \<Rightarrow> sweep_opts \<Rightarrow> int \<Rightarrow> string \<Rightarrow> string \<Rightarrow> string \<Rightarrow> string set" where
  "baseline_sweep x opts now pfx tk b =
     {k. \<exists>t. baseline_from_json_bytes x b = Inr t \<and>
        within_grace x opts (bt_marked_at t) ''baseline tombstone'' now = Inr False \<and>
        k \<in> {tk, bundle_key (Some pfx) (bt_ref_name t) (bt_sha t)}}"

definition sweepable ::
    "ext \<Rightarrow> sweep_opts \<Rightarrow> (string \<Rightarrow> int) \<Rightarrow> string \<Rightarrow> bucket \<Rightarrow> string \<Rightarrow> bool" where
  "sweepable x opts now_at pfx v k \<longleftrightarrow>
     (\<exists>tk b m. v tk = Some (b, m) \<and> tombstone_shaped pfx tk \<and>
        k \<in> (if is_tombstone_key tk pfx then pack_sweep x opts (now_at tk) pfx tk b
              else baseline_sweep x opts (now_at tk) pfx tk b))"

definition gc_safe ::
    "ext \<Rightarrow> sweep_opts \<Rightarrow> (string \<Rightarrow> int) \<Rightarrow> string \<Rightarrow> bucket \<Rightarrow> bucket \<Rightarrow> bool" where
  "gc_safe x opts now_at pfx v v' \<longleftrightarrow>
     (\<forall>k. v' k \<noteq> v k \<longrightarrow> v' k = None \<and> sweepable x opts now_at pfx v k \<and> \<not> live x pfx v k)"

lemma gc_safe_refl [simp]: "gc_safe x opts now_at pfx v v"
  by (simp add: gc_safe_def)

lemma chain_slot_chain_key: "prefix ''refs/'' r \<Longrightarrow> chain_slot pfx (chain_key (Some pfx) r)"
  by (auto simp: chain_slot_def join_base chain_key_base prefix_def chain_key_is_chain)
    (metis chain_key_base chain_key_is_chain append_assoc append_Cons append_Nil)

lemma chain_slot_live: "chain_slot pfx k \<Longrightarrow> live x pfx v k"
  by (simp add: live_def)

lemma gc_safe_live: "gc_safe x opts now_at pfx v v' \<Longrightarrow> live x pfx v k \<Longrightarrow> v' k = v k"
  by (auto simp: gc_safe_def)

lemma gc_safe_chain_at:
  "gc_safe x opts now_at pfx v v' \<Longrightarrow> chain_slot pfx k \<Longrightarrow> chain_at x v' k = chain_at x v k"
  by (simp add: chain_at_def gc_safe_live chain_slot_live)

lemma gc_safe_referenced:
  "gc_safe x opts now_at pfx v v' \<Longrightarrow> referenced x pfx v' sha \<longleftrightarrow> referenced x pfx v sha"
  unfolding referenced_def by (metis gc_safe_chain_at)

lemma gc_safe_live_iff:
  "gc_safe x opts now_at pfx v v' \<Longrightarrow> live x pfx v' k \<longleftrightarrow> live x pfx v k"
  using gc_safe_referenced [of x opts now_at pfx v v']
    gc_safe_chain_at [of x opts now_at pfx v v', OF _ chain_slot_chain_key]
  unfolding live_def by (simp cong: conj_cong)

lemma gc_safe_sub: "gc_safe x opts now_at pfx v v' \<Longrightarrow> v' k = Some ob \<Longrightarrow> v k = Some ob"
  unfolding gc_safe_def by (metis option.distinct(1))

lemma gc_safe_sweepable:
  assumes "gc_safe x opts now_at pfx v v'" "sweepable x opts now_at pfx v' k"
  shows "sweepable x opts now_at pfx v k"
  using assms(2) gc_safe_sub [OF assms(1)] unfolding sweepable_def by blast

lemma gc_safe_trans:
  assumes "gc_safe x opts now_at pfx v u" "gc_safe x opts now_at pfx u w"
  shows "gc_safe x opts now_at pfx v w"
  unfolding gc_safe_def
proof (intro allI impI)
  fix k assume "w k \<noteq> v k"
  then consider "u k \<noteq> v k" | "u k = v k" "w k \<noteq> u k" by metis
  then show "w k = None \<and> sweepable x opts now_at pfx v k \<and> \<not> live x pfx v k"
  proof cases
    case 1
    with assms show ?thesis unfolding gc_safe_def by metis
  next
    case 2
    with assms show ?thesis
      using gc_safe_sweepable [OF assms(1)] gc_safe_live_iff [OF assms(1)]
      unfolding gc_safe_def by metis
  qed
qed

text \<open>One justified deletion; a delete that errs may or may not have happened.\<close>

lemma gc_safe_delete:
  assumes "gc_safe x opts now_at pfx v u" "sweepable x opts now_at pfx v k" "\<not> live x pfx v k"
    and "u' = u \<or> u' = u(k := None)"
  shows "gc_safe x opts now_at pfx v u'"
  using assms unfolding gc_safe_def by (auto split: if_splits)

definition orphans_at :: "ext \<Rightarrow> string \<Rightarrow> bucket \<Rightarrow> string set" where
  "orphans_at x pfx v =
     {sha. (\<exists>k. prefix (join (Some pfx) ''packs/'') k \<and> v k \<noteq> None \<and>
            pack_sha_of_listed k = Some sha) \<and> \<not> referenced x pfx v sha}"

definition mark_tombstone :: "string \<Rightarrow> string \<Rightarrow> string list \<Rightarrow> tombstone" where
  "mark_tombstone run_id marked_at orphans =
     \<lparr>tb_v = TOMBSTONE_SCHEMA_VERSION, tb_run_id = run_id, tb_marked_at = marked_at,
      tb_orphan_packs = orphans\<rparr>"

text \<open>What \<open>mark\<close> returns and leaves on the bucket: exactly the orphans, in one new tombstone.\<close>

definition mark_post ::
    "ext \<Rightarrow> string \<Rightarrow> mark_opts \<Rightarrow> int \<Rightarrow> string \<Rightarrow> bucket \<Rightarrow> mark_outcome \<Rightarrow> bucket \<Rightarrow> bool" where
  "mark_post x pfx opts now run_id v out v' \<longleftrightarrow>
     (\<exists>at orphans. rfc3339_format x now = Some at \<and>
       set orphans = orphans_at x pfx v \<and> distinct orphans \<and>
       out = \<lparr>mk_run_id = run_id, mk_orphan_count = length orphans,
              mk_tombstone_key = tombstone_key pfx run_id at\<rparr> \<and>
       (if mk_dry_run opts \<or> orphans = [] then v' = v
        else wrote (tombstone_key pfx run_id at)
          (json_print x (json_of_tombstone (mark_tombstone run_id at orphans))) v v'))"

text \<open>The one key \<open>mark\<close> may write.\<close>

definition mark_slot :: "ext \<Rightarrow> string \<Rightarrow> int \<Rightarrow> string \<Rightarrow> string \<Rightarrow> bool" where
  "mark_slot x pfx now run_id k \<longleftrightarrow>
     (\<exists>at. rfc3339_format x now = Some at \<and> k = tombstone_key pfx run_id at)"

lemma mark_slot_tombstone: "mark_slot x pfx now run_id k \<Longrightarrow> is_tombstone_key k pfx"
  by (auto simp: mark_slot_def is_tombstone_key_def tombstone_key_def join_base)

subsection \<open>The operations meet it\<close>

lemma collect_segments_Inr:
  "collect_segments acc gs = Inr out \<Longrightarrow>
     set out = set acc \<union> {sha. \<exists>g \<in> set gs. sha_from_pack_key (seg_pack g) = Some sha}"
proof (induction gs arbitrary: acc)
  case (Cons g gs)
  then obtain sha where sha: "sha_from_pack_key (seg_pack g) = Some sha"
    by (auto simp: segment_pack_sha_def split: option.splits)
  with Cons.prems have "collect_segments (List.insert sha acc) gs = Inr out"
    by (simp add: segment_pack_sha_def)
  from Cons.IH [OF this] sha show ?case by auto
qed simp

definition references_of :: "ext \<Rightarrow> bucket \<Rightarrow> string list \<Rightarrow> string set" where
  "references_of x v ks =
     {sha. \<exists>k \<in> set ks. \<exists>c. chain_at x v k = Some c \<and>
        (\<exists>g \<in> set (cm_segments c). sha_from_pack_key (seg_pack g) = Some sha)}"

lemma references_of_snoc:
  "references_of x v (ks @ [k]) = references_of x v ks \<union>
     (case chain_at x v k of None \<Rightarrow> {} | Some c \<Rightarrow>
        {sha. \<exists>g \<in> set (cm_segments c). sha_from_pack_key (seg_pack g) = Some sha})"
  by (auto simp: references_of_def split: option.splits)

lemma references_of_slots:
  "set ks = {k. chain_slot pfx k \<and> v k \<noteq> None} \<Longrightarrow> references_of x v ks = {sha. referenced x pfx v sha}"
  unfolding references_of_def referenced_def by (auto simp: chain_at_Some)

context store_contract
begin

lemma wp_list_referenced_packs [wp_intros]:
  assumes p: "utf8_valid pfx"
    and post: "\<And>shas t. view t = view s \<Longrightarrow> set shas = {sha. referenced x pfx (view s) sha} \<Longrightarrow> Q shas t"
    and err: "\<And>e t. view t = view s \<Longrightarrow> E e t"
  shows "wp (list_referenced_packs x st pfx) Q E s"
  unfolding list_referenced_packs_def Let_def
proof (intro wp_and_then wp_map_err wp_st_list, goal_cases)
  case (1 ms t)
  define ks where "ks = map om_key (filter (\<lambda>m. is_chain_json_key (om_key m)) ms)"
  from 1 p have "lists (join (Some pfx) ''refs/'') ms (view s)" by simp
  then have "set ks = {k. chain_slot pfx k \<and> view s k \<noteq> None}"
    by (auto simp: ks_def lists_def chain_slot_def image_iff)
  then have all: "references_of x (view s) ks = {sha. referenced x pfx (view s) sha}"
    by (rule references_of_slots)
  have "wp (fold_io (\<lambda>acc key.
           and_then (map_err PackStore (st_get_bytes st key)) (\<lambda>body.
           and_then (of_result (chain_from_json_bytes x body)) (\<lambda>chain.
           of_result (collect_segments acc (cm_segments chain))))) [] ks) Q E t"
  proof (rule wp_fold_io [where I = "\<lambda>acc rest u. view u = view s \<and>
      (\<exists>seen. ks = seen @ rest \<and> set acc = references_of x (view s) seen)"], goal_cases)
    case (1 acc k rest u)
    then obtain seen where u: "view u = view s" "ks = seen @ k # rest"
      "set acc = references_of x (view s) seen" by blast
    show ?case
    proof (intro wp_and_then wp_map_err wp_st_get_bytes wp_of_result, goal_cases)
      case (1 b m w c out)
      then have "chain_at x (view s) k = Some c" using u by (simp add: chain_at_Some)
      with 1 u have "set out = references_of x (view s) (seen @ [k])"
        by (simp add: references_of_snoc collect_segments_Inr)
      with 1 u show ?case by (intro conjI exI [of _ "seen @ [k]"]) auto
    qed (use u in \<open>auto intro: err\<close>)
  next
    case 2
    show ?case using 1 by (auto simp: references_of_def)
  next
    case (3 acc u)
    with all show ?case by (auto intro: post)
  qed
  then show ?case by (simp add: ks_def)
next
  case (2 e t)
  then show ?case by (auto intro: err)
qed

lemma wp_gc_delete_idempotent [wp_intros]:
  assumes "\<And>b t. (honest s \<Longrightarrow> honest t) \<Longrightarrow> view t = view s \<or> view t = (view s)(k := None) \<Longrightarrow> Q b t"
    and "\<And>e t. (honest s \<Longrightarrow> honest t) \<Longrightarrow> view t = view s \<or> view t = (view s)(k := None) \<Longrightarrow> E e t"
  shows "wp (gc_delete_idempotent st k) Q E s"
  unfolding gc_delete_idempotent_def
  by (intro wp_intros) (auto intro!: wp_intros assms split: store_error.split)

lemma wp_gc_delete_safe:
  assumes "gc_safe x opts now_at pfx v (view s)" "sweepable x opts now_at pfx v k" "\<not> live x pfx v k"
    and "\<And>b t. gc_safe x opts now_at pfx v (view t) \<Longrightarrow> Q b t"
    and "\<And>e t. gc_safe x opts now_at pfx v (view t) \<Longrightarrow> E e t"
  shows "wp (gc_delete_idempotent st k) Q E s"
  by (rule wp_gc_delete_idempotent; intro assms(4,5); erule gc_safe_delete [OF assms(1-3)])

lemma not_live_pack:
  assumes "\<not> referenced x pfx v sha" "k \<in> {pack_key (Some pfx) sha, pack_idx_key (Some pfx) sha}"
  shows "\<not> live x pfx v k"
  using assms unfolding live_def chain_slot_def
  by (auto simp: bundle_not_pack [symmetric] dest: chain_not_pack)

lemma not_live_tombstone: "tombstone_shaped pfx k \<Longrightarrow> \<not> live x pfx v k"
  using tombstone_shaped_other [of pfx k] unfolding live_def chain_slot_def by blast

lemma not_live_bundle:
  assumes "is_valid_bundle_stem sha"
    and "\<And>c. chain_at x v (chain_key (Some pfx) r) = Some c \<Longrightarrow> cm_full_at c \<noteq> sha"
  shows "\<not> live x pfx v (bundle_key (Some pfx) r sha)"
proof
  assume "live x pfx v (bundle_key (Some pfx) r sha)"
  then obtain r' c where c: "chain_at x v (chain_key (Some pfx) r') = Some c"
    and k: "bundle_key (Some pfx) r sha = bundle_key (Some pfx) r' (cm_full_at c)"
    unfolding live_def chain_slot_def by (auto dest: chain_not_pack)
  from c have "is_valid_bundle_stem (cm_full_at c)"
    by (auto dest!: chain_at_typed simp: chain_typed_def)
  with k assms(1) have "r = r'" "sha = cm_full_at c" by (simp_all add: bundle_key_inject)
  with assms(2) c show False by blast
qed

lemma sweep_one_tombstone_safe:
  assumes p: "utf8_valid pfx" and tk: "tombstone_shaped pfx tk" "is_tombstone_key tk pfx"
  shows "wp (sweep_one_tombstone x st pfx tk opts (now_at tk))
     (\<lambda>_ t. gc_safe x opts now_at pfx (view s) (view t))
     (\<lambda>_ t. gc_safe x opts now_at pfx (view s) (view t)) s"
  unfolding sweep_one_tombstone_def
proof (intro wp_match wp_st_get_bytes wp_and_then wp_of_result wp_if, goal_cases)
  case (1 b m t tomb within)
  then show ?case by (simp add: wp_ok)
next
  case (2 b m t tomb within)
  let ?v = "view s"
  let ?safe = "\<lambda>u. gc_safe x opts now_at pfx ?v (view u)"
  from 2 tk have own: "sweepable x opts now_at pfx ?v tk"
    and packs: "\<And>sha k. sha \<in> set (tb_orphan_packs tomb) \<Longrightarrow>
      k \<in> {pack_key (Some pfx) sha, pack_idx_key (Some pfx) sha} \<Longrightarrow>
      sweepable x opts now_at pfx ?v k"
    unfolding sweepable_def pack_sweep_def by (simp, blast)+
  show ?case
  proof (rule wp_fold_io [where I = "\<lambda>_ rest u. ?safe u \<and> set rest \<subseteq> set (tb_orphan_packs tomb)"],
      goal_cases)
    case (1 acc sha rest u)
    then have sha: "sha \<in> set (tb_orphan_packs tomb)" "set rest \<subseteq> set (tb_orphan_packs tomb)"
      and u: "?safe u" by auto
    show ?case
    proof (cases acc)
      case (Pair d k)
      show ?thesis
        unfolding Pair prod.case
      proof (intro wp_and_then wp_list_referenced_packs [OF p] wp_if, goal_cases)
        case (1 shas w)
        with u sha show ?case by (simp add: wp_ok)
      next
        case (2 shas w)
        then have nr: "\<not> referenced x pfx ?v sha"
          using u by (simp add: gc_safe_referenced)
        from 2 u have w: "?safe w" by simp
        have k: "sweepable x opts now_at pfx ?v k" "\<not> live x pfx ?v k"
          if "k \<in> {pack_key (Some pfx) sha, pack_idx_key (Some pfx) sha}" for k
          by (rule packs [OF sha(1) that], rule not_live_pack [OF nr that])
        show ?case
          unfolding Let_def
          by (intro wp_and_then wp_gc_delete_safe [where v = "?v"] wp_ok) (use k w sha in auto)
      qed (use u in auto)
    qed
  next
    case 2
    with \<open>view t = ?v\<close> show ?case by simp
  next
    case (3 acc u)
    show ?case
      by (cases acc, simp only: prod.case, intro wp_and_then wp_gc_delete_safe [where v = "?v"] own wp_ok)
        (use 3 own not_live_tombstone [OF tk(1)] in auto)
  qed
next
  case (5 e t)
  then show ?case by (cases e) (auto intro!: wp_intros)
qed auto

lemma sweep_one_baseline_tombstone_safe:
  assumes tk: "tombstone_shaped pfx tk" "\<not> is_tombstone_key tk pfx"
  shows "wp (sweep_one_baseline_tombstone x st pfx tk opts (now_at tk))
     (\<lambda>_ t. gc_safe x opts now_at pfx (view s) (view t))
     (\<lambda>_ t. gc_safe x opts now_at pfx (view s) (view t)) s"
  unfolding sweep_one_baseline_tombstone_def
proof (intro wp_match wp_st_get_bytes wp_and_then wp_of_result, goal_cases)
  case (1 b m t tomb within)
  let ?v = "view s"
  let ?safe = "\<lambda>u. gc_safe x opts now_at pfx ?v (view u)"
  let ?bk = "bundle_key (Some pfx) (bt_ref_name tomb) (bt_sha tomb)"
  have vt: "?safe t" using 1 by simp
  have own: "within = False \<Longrightarrow> sweepable x opts now_at pfx ?v tk"
    and bndl: "within = False \<Longrightarrow> sweepable x opts now_at pfx ?v ?bk"
    using 1 tk unfolding sweepable_def baseline_sweep_def by (simp, blast)+
  have valid: "is_valid_bundle_stem (bt_sha tomb)"
    using 1 by (auto dest: baseline_from_json_bytes_valid)
  have not_live: "\<not> live x pfx ?v ?bk" if "cc = chain_at x ?v (chain_key (Some pfx) (bt_ref_name tomb))"
    "\<not> (case cc of None \<Rightarrow> False | Some c \<Rightarrow> cm_full_at c = bt_sha tomb)" for cc
    by (rule not_live_bundle [OF valid]) (use that in auto)
  show ?case
    unfolding Let_def prefix_opt_keys
    by (intro wp_if wp_and_then wp_load_chain wp_ok wp_gc_delete_safe [where v = "?v"])
      (use vt 1 own bndl not_live not_live_tombstone [OF tk(1)] in \<open>simp_all add: prefix_opt_keys\<close>)
next
  case (4 e t)
  then show ?case by (cases e) (auto intro!: wp_intros)
qed auto

theorem sweep_safe:
  assumes p: "utf8_valid pfx"
  shows "wp (sweep x st pfx opts now_at)
     (\<lambda>_ t. gc_safe x opts now_at pfx (view s) (view t))
     (\<lambda>_ t. gc_safe x opts now_at pfx (view s) (view t)) s"
  unfolding sweep_def Let_def
proof (intro wp_and_then wp_map_err wp_st_list, goal_cases)
  case (1 ms t)
  let ?safe = "\<lambda>u. gc_safe x opts now_at pfx (view s) (view u)"
  show ?case
  proof (rule wp_fold_io [where I = "\<lambda>_ _. ?safe"], goal_cases)
    case (1 acc m rest u)
    then have u: "?safe u" .
    have step: "wp (match_io prog h f) (\<lambda>_. ?safe) (\<lambda>_. ?safe) u"
      if "wp prog (\<lambda>_ w. gc_safe x opts now_at pfx (view u) (view w))
           (\<lambda>_ w. gc_safe x opts now_at pfx (view u) (view w)) u"
        and "\<And>e. \<exists>a. h e = ok a" "\<And>r. \<exists>a. f r = ok a" for prog h f
      using that(1)
      by (intro wp_match, elim wp_mono) (use that(2,3) gc_safe_trans [OF u] in \<open>metis wp_ok\<close>)+
    show ?case
      unfolding sweep_step_of_def Let_def
      by (intro wp_if wp_ok u step sweep_one_tombstone_safe sweep_one_baseline_tombstone_safe p)
        (auto simp: tombstone_shaped_def split: sweep_step.split)
  next
    case 2
    show ?case using 1 by simp
  qed
next
  case (2 e t)
  then show ?case by simp
qed

lemma wp_list_pack_shas [wp_intros]:
  assumes p: "utf8_valid pfx"
    and post: "\<And>shas t. view t = view s \<Longrightarrow> distinct shas \<Longrightarrow>
      set shas = {sha. \<exists>k. prefix (join (Some pfx) ''packs/'') k \<and> view s k \<noteq> None \<and>
                     pack_sha_of_listed k = Some sha} \<Longrightarrow> Q shas t"
    and err: "\<And>e t. view t = view s \<Longrightarrow> E e t"
  shows "wp (list_pack_shas st pfx) Q E s"
  unfolding list_pack_shas_def Let_def
proof (intro wp_and_then wp_map_err wp_st_list wp_ok, goal_cases)
  case (1 ms t)
  let ?f = "\<lambda>m shas. case pack_sha_of_listed (om_key m) of None \<Rightarrow> shas | Some sha \<Rightarrow> List.insert sha shas"
  have "distinct (fold ?f ms acc) \<and>
      set (fold ?f ms acc) = set acc \<union> {sha. \<exists>m \<in> set ms. pack_sha_of_listed (om_key m) = Some sha}"
    if "distinct acc" for acc
    using that by (induction ms arbitrary: acc) (auto split: option.splits)
  from this [of "[]"] have f: "distinct (fold ?f ms [])"
    "set (fold ?f ms []) = {sha. \<exists>m \<in> set ms. pack_sha_of_listed (om_key m) = Some sha}" by simp_all
  from 1 p have "lists (join (Some pfx) ''packs/'') ms (view s)" by simp
  then have keys: "om_key ` set ms = {k. prefix (join (Some pfx) ''packs/'') k \<and> view s k \<noteq> None}"
    by (simp add: lists_def)
  have "(\<exists>m \<in> set ms. pack_sha_of_listed (om_key m) = Some sha) \<longleftrightarrow>
      (\<exists>k \<in> om_key ` set ms. pack_sha_of_listed k = Some sha)" for sha by blast
  then show ?case using 1 f by (intro post) (simp_all add: keys)
next
  case (2 e t)
  then show ?case by (intro err)
qed

lemma mark_sound:
  assumes p: "utf8_valid pfx"
  shows "wp (mark x st pfx opts now run_id)
    (\<lambda>out t. mark_post x pfx opts now run_id (view s) out (view t))
    (\<lambda>_ t. \<forall>k. view t k \<noteq> view s k \<longrightarrow> mark_slot x pfx now run_id k) s"
proof -
  show ?thesis
    unfolding mark_def Let_def
  proof (intro wp_and_then wp_list_pack_shas wp_list_referenced_packs wp_of_result wp_map_err p, goal_cases)
    case (1 shas t refd u at)
    define orphans where "orphans = filter (\<lambda>sha. sha \<notin> set refd) shas"
    have o: "set orphans = orphans_at x pfx (view s)" "distinct orphans"
      using 1 by (auto simp: orphans_def orphans_at_def)
    have at: "rfc3339_format x now = Some at"
      using 1 by (simp add: rfc3339_now_def split: option.splits)
    have post: "mark_post x pfx opts now run_id (view s) \<lparr>mk_run_id = run_id, mk_orphan_count = length orphans,
          mk_tombstone_key = tombstone_key pfx run_id at\<rparr> v'"
      if "if mk_dry_run opts \<or> orphans = [] then v' = view s
        else wrote (tombstone_key pfx run_id at)
          (json_print x (json_of_tombstone (mark_tombstone run_id at orphans))) (view s) v'" for v'
      unfolding mark_post_def using o at that by (intro exI [of _ at] exI [of _ orphans]) auto
    have "view u = view s" using 1 by simp
    then show ?case
      unfolding orphans_def [symmetric]
      by (intro wp_intros post)
        (auto simp: mark_tombstone_def wrote_def mark_slot_def at split: if_splits)
  qed auto
qed

end

subsection \<open>Tombstoned bundles\<close>

abbreviation prefix_str :: "string option \<Rightarrow> string" where
  "prefix_str pfx \<equiv> (case pfx of None \<Rightarrow> [] | Some p \<Rightarrow> p)"

lemma key_base_prefix_str [simp]: "key_base (Some (prefix_str pfx)) = key_base pfx"
  by (cases pfx) auto

text \<open>The bundle keys a baseline tombstone on the bucket hides from readers.\<close>

definition tomb_hides :: "ext \<Rightarrow> string option \<Rightarrow> bucket \<Rightarrow> string \<Rightarrow> string set" where
  "tomb_hides x pfx v k =
     {h. is_baseline_tombstone_key k (prefix_str pfx) \<and>
        (\<exists>b m t. v k = Some (b, m) \<and> baseline_from_json_bytes x b = Inr t \<and>
           ref_name_ok x (bt_ref_name t) \<and> h = bundle_key pfx (bt_ref_name t) (bt_sha t))}"

definition hidden :: "ext \<Rightarrow> string option \<Rightarrow> bucket \<Rightarrow> string set" where
  "hidden x pfx v = (\<Union>k. tomb_hides x pfx v k)"

lemma baseline_tombstone_under_gc:
  "is_baseline_tombstone_key k p \<Longrightarrow> prefix (gc_listing_prefix p) k"
  by (auto simp: is_baseline_tombstone_key_def baseline_tombstone_listing_prefix_def
      BASELINE_TOMBSTONE_KEY_FRAGMENT_def gc_listing_prefix_def join_base prefix_def)

lemma baseline_key_is_tombstone [simp]: "is_baseline_tombstone_key (baseline_tombstone_key p uuid) p"
  by (simp add: is_baseline_tombstone_key_def baseline_tombstone_listing_prefix_def
      baseline_tombstone_key_def join_base)

lemma utf8_prefix_str: "utf8_prefix pfx \<Longrightarrow> utf8_valid (prefix_str pfx)"
  by (cases pfx) (auto simp: utf8_valid_def)

lemma hidden_step:
  "(\<Union>k \<in> set (seen @ [k']). tomb_hides x pfx v k) =
     (\<Union>k \<in> set seen. tomb_hides x pfx v k) \<union> tomb_hides x pfx v k'"
  by auto

lemma hidden_of_listing:
  assumes "lists (gc_listing_prefix (prefix_str pfx)) ms v"
  shows "hidden x pfx v = (\<Union>k \<in> set (map om_key ms). tomb_hides x pfx v k)"
  using assms baseline_tombstone_under_gc
  unfolding hidden_def tomb_hides_def lists_def by blast

context store_contract
begin

lemma wp_tombstoned_loop:
  assumes "lists (gc_listing_prefix (prefix_str pfx)) ms (view s)" "view t = view s" "honest s \<longrightarrow> honest t"
    and "\<And>keys u. view u = view s \<Longrightarrow> (honest s \<Longrightarrow> honest u) \<Longrightarrow> set keys = hidden x pfx (view s) \<Longrightarrow> Q keys u"
    and "\<And>e u. view u = view s \<Longrightarrow> (honest s \<Longrightarrow> honest u) \<Longrightarrow> E e u"
  shows "wp (fold_io (tombstoned_step x st pfx) [] ms) Q E t"
proof (rule wp_fold_io [where I = "\<lambda>keys rest u. view u = view s \<and> (honest s \<longrightarrow> honest u) \<and>
    (\<exists>seen. ms = seen @ rest \<and> set keys = (\<Union>k \<in> set (map om_key seen). tomb_hides x pfx (view s) k))"],
    goal_cases)
  case (1 keys m rest u)
  then obtain seen where u: "view u = view s" "honest s \<longrightarrow> honest u" "ms = seen @ m # rest"
    "set keys = (\<Union>k \<in> set (map om_key seen). tomb_hides x pfx (view s) k)" by blast
  have present: "view s (om_key m) \<noteq> None"
    using assms(1) u(3) unfolding lists_def by auto
  have I: "view w = view s \<and> (honest s \<longrightarrow> honest w) \<and> (\<exists>seen'. ms = seen' @ rest \<and>
      set keys' = (\<Union>k \<in> set (map om_key seen'). tomb_hides x pfx (view s) k))"
    if "view w = view s" "honest s \<longrightarrow> honest w" "set keys' = set keys \<union> tomb_hides x pfx (view s) (om_key m)" for w keys'
    using that u by (intro conjI exI [of _ "seen @ [m]"]) auto
  show ?case
    unfolding tombstoned_step_def Let_def
  proof (intro wp_if wp_match wp_st_get_bytes, goal_cases)
    case 1
    with u show ?case by (intro wp_ok I) (auto simp: tomb_hides_def)
  next
    case (2 b m' w)
    with u show ?case
      by (intro wp_sum wp_if wp_ok I) (auto simp: tomb_hides_def)
  next
    case (3 e w)
    with u present show ?case by (cases e) (auto intro!: wp_fail assms(5))
  qed
next
  case 2
  with assms(2,3) show ?case by simp
next
  case (3 keys u)
  with hidden_of_listing [OF assms(1)] show ?case by (auto intro: assms(4))
qed

lemma wp_tombstoned_bundle_keys [wp_intros]:
  assumes p: "utf8_prefix pfx"
    and "\<And>keys t. view t = view s \<Longrightarrow> (honest s \<Longrightarrow> honest t) \<Longrightarrow> set keys \<subseteq> hidden x pfx (view s) \<Longrightarrow> Q keys t"
    and "\<And>e t. view t = view s \<Longrightarrow> (honest s \<Longrightarrow> honest t) \<Longrightarrow> E e t"
  shows "wp (tombstoned_bundle_keys x st pfx) Q E s"
  unfolding tombstoned_bundle_keys_def Let_def
proof (intro wp_match wp_st_list, goal_cases)
  case (1 ms t)
  with p have "lists (gc_listing_prefix (prefix_str pfx)) ms (view s)" by (simp add: utf8_prefix_str)
  from wp_tombstoned_loop [OF this] 1 assms(2,3) show ?case by simp
next
  case (2 e t)
  then show ?case by (cases e) (auto intro!: wp_intros assms(2,3))
qed

end

context calm_store
begin

lemma calm_tombstoned_bundle_keys [calm_intros]:
  assumes c: "calm s" and p: "utf8_prefix pfx"
    and post: "\<And>keys t. calm t \<Longrightarrow> view t = view s \<Longrightarrow> set keys = hidden x pfx (view s) \<Longrightarrow> Q keys t"
  shows "wp (tombstoned_bundle_keys x st pfx) Q E s"
  unfolding tombstoned_bundle_keys_def Let_def
proof (intro wp_match calm_wp_list c, goal_cases)
  case (1 ms t)
  with p have l: "lists (gc_listing_prefix (prefix_str pfx)) ms (view s)" by (simp add: utf8_prefix_str)
  have "wp (fold_io (tombstoned_step x st pfx) [] ms)
      (\<lambda>_ u. calm u) (\<lambda>_ _. False) t"
    by (rule wp_fold_io [where I = "\<lambda>_ _. calm"])
      (use 1 l in \<open>auto simp: tombstoned_step_def intro!: wp_if wp_match wp_ok calm_wp_get_bytes split: sum.split\<close>)
  moreover have "wp (fold_io (tombstoned_step x st pfx) [] ms)
      (\<lambda>keys u. view u = view s \<and> set keys = hidden x pfx (view s)) (\<lambda>_ _. True) t"
    by (rule wp_tombstoned_loop [OF l 1(2)]) (use 1 c in \<open>auto intro: calm_honest\<close>)
  ultimately show ?case by (rule wp_mono [OF wp_conj]) (auto intro: post)
qed

end

subsection \<open>Sweeping makes progress\<close>

text \<open>Every chain under \<open>refs/\<close> parses and names its packs.\<close>

definition readable :: "ext \<Rightarrow> string \<Rightarrow> bucket \<Rightarrow> bool" where
  "readable x pfx v \<longleftrightarrow>
     (\<forall>k. chain_slot pfx k \<and> v k \<noteq> None \<longrightarrow>
        (\<exists>c. chain_at x v k = Some c \<and>
           (\<forall>g \<in> set (cm_segments c). sha_from_pack_key (seg_pack g) \<noteq> None)))"

definition pack_objects :: "string \<Rightarrow> string set \<Rightarrow> string set" where
  "pack_objects pfx S = pack_key (Some pfx) ` S \<union> pack_idx_key (Some pfx) ` S"

definition without :: "string set \<Rightarrow> bucket \<Rightarrow> bucket" where
  "without K v = (\<lambda>k. if k \<in> K then None else v k)"

lemma without_slot: "chain_slot pfx k \<Longrightarrow> without (pack_objects pfx S) v k = v k"
  by (auto simp: without_def pack_objects_def chain_slot_def dest: chain_not_pack)

lemma without_chain_at:
  "chain_slot pfx k \<Longrightarrow> chain_at x (without (pack_objects pfx S) v) k = chain_at x v k"
  by (simp add: chain_at_def without_slot)

lemma without_referenced [simp]:
  "referenced x pfx (without (pack_objects pfx S) v) sha \<longleftrightarrow> referenced x pfx v sha"
  unfolding referenced_def by (metis without_chain_at)

lemma without_readable [simp]:
  "readable x pfx (without (pack_objects pfx S) v) \<longleftrightarrow> readable x pfx v"
  unfolding readable_def by (metis without_chain_at without_slot)

lemma without_insert: "(without K v)(k := None) = without (insert k K) v"
  by (auto simp: without_def)

lemma pack_objects_insert:
  "pack_objects pfx (insert sha S) =
     insert (pack_idx_key (Some pfx) sha) (insert (pack_key (Some pfx) sha) (pack_objects pfx S))"
  by (auto simp: pack_objects_def)

lemma collect_segments_ok:
  "\<forall>g \<in> set gs. sha_from_pack_key (seg_pack g) \<noteq> None \<Longrightarrow> \<exists>out. collect_segments acc gs = Inr out"
  by (induction gs arbitrary: acc) (auto simp: segment_pack_sha_def)

context calm_store
begin

lemma calm_list_referenced_packs [calm_intros]:
  assumes c: "calm s" and p: "utf8_valid pfx" and r: "readable x pfx (view s)"
    and post: "\<And>shas t. calm t \<Longrightarrow> view t = view s \<Longrightarrow>
      set shas = {sha. referenced x pfx (view s) sha} \<Longrightarrow> Q shas t"
  shows "wp (list_referenced_packs x st pfx) Q E s"
proof -
  have "wp (list_referenced_packs x st pfx) (\<lambda>_ t. calm t) (\<lambda>_ _. False) s"
    unfolding list_referenced_packs_def Let_def
  proof (intro wp_and_then wp_map_err calm_wp_list c, goal_cases)
    case (1 ms t)
    with p have l: "lists (join (Some pfx) ''refs/'') ms (view s)" by simp
    show ?case
    proof (rule wp_fold_io [where I = "\<lambda>acc rest u. calm u \<and> view u = view s \<and>
        (\<forall>k \<in> set rest. chain_slot pfx k \<and> view s k \<noteq> None)"], goal_cases)
      case (1 acc k rest u)
      then obtain ch out where ok: "chain_at x (view s) k = Some ch"
        "collect_segments acc (cm_segments ch) = Inr out"
        using r collect_segments_ok unfolding readable_def by (metis list.set_intros(1))
      with 1 show ?case
        by (intro wp_and_then wp_map_err calm_wp_get_bytes wp_of_result)
          (auto simp: chain_at_Some)
    next
      case 2
      show ?case using 1 l by (auto simp: lists_def chain_slot_def)
    qed auto
  qed
  moreover have "wp (list_referenced_packs x st pfx)
      (\<lambda>shas t. view t = view s \<and> set shas = {sha. referenced x pfx (view s) sha}) (\<lambda>_ _. True) s"
    by (rule wp_list_referenced_packs [OF p]) auto
  ultimately show ?thesis by (rule wp_mono [OF wp_conj]) (auto intro: post)
qed

text \<open>On a quiet store with readable chains nothing stops \<open>mark\<close>.\<close>

lemma calm_list_pack_shas:
  assumes "calm s" "\<And>shas t. calm t \<Longrightarrow> view t = view s \<Longrightarrow> Q shas t"
  shows "wp (list_pack_shas st pfx) Q E s"
  unfolding list_pack_shas_def Let_def
  by (intro wp_and_then wp_map_err calm_wp_list wp_ok assms)

lemma calm_mark:
  assumes c: "calm s" and p: "utf8_valid pfx" and r: "readable x pfx (view s)"
    and at: "rfc3339_format x now = Some at"
  shows "wp (mark x st pfx opts now run_id)
    (\<lambda>out t. mark_post x pfx opts now run_id (view s) out (view t)) (\<lambda>_ _. False) s"
proof -
  have "wp (mark x st pfx opts now run_id) (\<lambda>_ _. True) (\<lambda>_ _. False) s"
    unfolding mark_def Let_def
    by (intro wp_and_then calm_list_pack_shas calm_list_referenced_packs wp_of_result wp_if wp_ok
        wp_map_err calm_wp_put_bytes c p TrueI)
      (use r at in \<open>auto simp: rfc3339_now_def\<close>)
  from wp_conj [OF this mark_sound [OF p]] show ?thesis
    by (rule wp_mono) auto
qed

lemma calm_gc_delete_idempotent [calm_intros]:
  assumes "calm s" "\<And>t. calm t \<Longrightarrow> view t = (view s)(k := None) \<Longrightarrow> Q (view s k \<noteq> None) t"
  shows "wp (gc_delete_idempotent st k) Q E s"
  unfolding gc_delete_idempotent_def
  by (intro wp_match calm_wp_delete assms(1)) (use assms(2) in \<open>auto intro!: wp_ok simp: fun_upd_idem\<close>)

text \<open>
  Past its window, a tombstone on a quiet store is applied in full: every pack it names that
  no chain references is gone with its index, the others stay, and so does the rest.
\<close>

lemma sweep_one_tombstone_effect:
  assumes c: "calm s" and p: "utf8_valid pfx" and r: "readable x pfx (view s)"
    and tk: "view s tk = Some (b, m)" "tombstone_from_json_bytes x b = Inr tomb"
    and due: "within_grace x opts (tb_marked_at tomb) ''tombstone'' now = Inr False"
  shows "wp (sweep_one_tombstone x st pfx tk opts now)
     (\<lambda>done t. (\<exists>d k. done = Swept d k) \<and> calm t \<and>
        view t = without (insert tk (pack_objects pfx
          {sha \<in> set (tb_orphan_packs tomb). \<not> referenced x pfx (view s) sha})) (view s))
     (\<lambda>_ _. False) s"
  unfolding sweep_one_tombstone_def
proof (intro wp_match calm_wp_get_bytes c wp_and_then wp_of_result wp_if, goal_cases)
  case (2 b' m' t tomb' within)
  with tk have eq: "tomb' = tomb" by simp
  let ?v = "view s"
  let ?gone = "\<lambda>S. without (pack_objects pfx {sha \<in> S. \<not> referenced x pfx ?v sha}) ?v"
  show ?case
    unfolding eq
  proof (rule wp_fold_io [where I = "\<lambda>_ rest u. calm u \<and>
      (\<exists>seen. tb_orphan_packs tomb = seen @ rest \<and> view u = ?gone (set seen))"], goal_cases)
    case (1 acc sha rest u)
    then obtain seen where u: "calm u" "tb_orphan_packs tomb = seen @ sha # rest"
      "view u = ?gone (set seen)" by blast
    then have all: "tb_orphan_packs tomb = (seen @ [sha]) @ rest" by simp
    have skip: "?gone (set (seen @ [sha])) = ?gone (set seen)" if "referenced x pfx ?v sha"
      using that by (intro arg_cong [where f = "\<lambda>S. without (pack_objects pfx S) ?v"]) auto
    have del: "?gone (set (seen @ [sha])) =
        (?gone (set seen))(pack_key (Some pfx) sha := None, pack_idx_key (Some pfx) sha := None)"
      if "\<not> referenced x pfx ?v sha"
    proof -
      have "{s \<in> set (seen @ [sha]). \<not> referenced x pfx ?v s} =
          insert sha {s \<in> set seen. \<not> referenced x pfx ?v s}" using that by auto
      then show ?thesis by (simp add: without_insert pack_objects_insert)
    qed
    obtain d k where acc: "acc = (d, k)" by force
    show ?case
      unfolding acc prod.case Let_def
    proof (intro wp_and_then calm_list_referenced_packs wp_if calm_gc_delete_idempotent u(1) p wp_ok,
        goal_cases)
      case 1
      then show ?case using r u by simp
    next
      case (2 shas w)
      with u all skip show ?case by (auto intro!: exI [of _ "seen @ [sha]"])
    next
      case (5 shas w w' w'')
      with u have "\<not> referenced x pfx ?v sha" by simp
      with 5 u all del show ?case by (intro conjI exI [of _ "seen @ [sha]"]) simp_all
    qed simp_all
  next
    case 2
    show ?case using \<open>calm t\<close> \<open>view t = ?v\<close>
      by (auto simp: without_def pack_objects_def)
  next
    case (3 acc u)
    then show ?case
      by (cases acc, simp only: prod.case, intro wp_and_then calm_gc_delete_idempotent wp_ok)
        (auto simp: without_insert)
  qed
qed (use tk due in auto)

text \<open>
  A baseline tombstone past its window is applied when the ref's chain no longer starts at
  the tombstoned sha, or when there is no chain at all.
\<close>

lemma sweep_one_baseline_tombstone_effect:
  assumes c: "calm s"
    and tk: "view s tk = Some (b, m)" "baseline_from_json_bytes x b = Inr tomb" "ref_name_ok x (bt_ref_name tomb)"
    and due: "within_grace x opts (bt_marked_at tomb) ''baseline tombstone'' now = Inr False"
    and dead: "view s (chain_key (Some pfx) (bt_ref_name tomb)) = None \<or>
      (\<exists>ch. chain_at x (view s) (chain_key (Some pfx) (bt_ref_name tomb)) = Some ch \<and>
         cm_full_at ch \<noteq> bt_sha tomb)"
  shows "wp (sweep_one_baseline_tombstone x st pfx tk opts now)
     (\<lambda>done t. (\<exists>d. done = Swept d 0) \<and> calm t \<and>
        view t = (view s)(bundle_key (Some pfx) (bt_ref_name tomb) (bt_sha tomb) := None, tk := None))
     (\<lambda>_ _. False) s"
  unfolding sweep_one_baseline_tombstone_def Let_def prefix_opt_keys
proof (intro wp_match calm_wp_get_bytes c wp_and_then wp_of_result wp_if, goal_cases)
  case (3 b' m' t tomb' within)
  with tk have eq: "tomb' = tomb" by simp
  have vt: "view t = view s" "calm t" using 3 by simp_all
  have na: "\<not> (case chain_at x (view s) (chain_key (Some pfx) (bt_ref_name tomb)) of
      None \<Rightarrow> False | Some c \<Rightarrow> cm_full_at c = bt_sha tomb)"
    using dead by (auto simp: chain_at_def split: option.splits)
  show ?case
    unfolding eq
    by (intro calm_load_chain wp_if calm_gc_delete_idempotent wp_and_then wp_ok)
      (use vt dead na in \<open>auto simp: prefix_opt_keys chain_at_Some\<close>)
qed (use tk due in auto)

end

subsection \<open>The properties on the mock store\<close>

text \<open>
  A bucket for the examples: \<open>main\<close> is a chain of one pack \<open>d\<close>; an old tombstone names the
  pack \<open>c\<close>, which nothing references, and the pack \<open>d\<close>, which has come back into use.
\<close>

definition demo_chain :: chain_manifest where
  "demo_chain = \<lparr>cm_v = 1, cm_tip = demo_sha CHR ''a'', cm_full_at = demo_sha CHR ''a'',
     cm_segments = [\<lparr>seg_sha = demo_sha CHR ''a'', seg_parent_sha = None,
       seg_pack = pack_key None (demo_sha CHR ''d''), seg_bytes = 10\<rparr>]\<rparr>"

definition demo_tombstone :: tombstone where
  "demo_tombstone = \<lparr>tb_v = 1, tb_run_id = ''run'', tb_marked_at = show_nat 0,
     tb_orphan_packs = [demo_sha CHR ''c'', demo_sha CHR ''d'']\<rparr>"

definition demo_tombstone_key :: string where
  "demo_tombstone_key = tombstone_key ''repo'' ''run'' (show_nat 0)"

definition gc_world :: mock_state where
  "gc_world = demo_bucket
     [(chain_key (Some ''repo'') ''refs/heads/main'', json_print demo_ext (json_of_chain demo_chain), 1),
      (pack_key (Some ''repo'') (demo_sha CHR ''c''), ''PACK c'', 1),
      (pack_idx_key (Some ''repo'') (demo_sha CHR ''c''), ''IDX c'', 1),
      (pack_key (Some ''repo'') (demo_sha CHR ''d''), ''PACK d'', 1),
      (demo_tombstone_key, json_print demo_ext (json_of_tombstone demo_tombstone), 1)]"

lemma demo_chain_parses:
  "chain_from_json_bytes demo_ext (json_print demo_ext (json_of_chain demo_chain)) = Inr demo_chain"
  using chain_bytes_roundtrip [of demo_ext demo_chain]
  by (simp add: chain_to_json_pretty_def demo_chain_def chain_typed_def segment_wf_def
      CHAIN_SCHEMA_VERSION_def)

lemma demo_tombstone_parses:
  "tombstone_from_json_bytes demo_ext (json_print demo_ext (json_of_tombstone demo_tombstone)) =
     Inr demo_tombstone"
  by (simp add: tombstone_from_json_bytes_def tombstone_json_roundtrip demo_tombstone_def
      check_tombstone_schema_version_def TOMBSTONE_SCHEMA_VERSION_def)

lemma ascii_repo [simp]: "utf8_valid ''repo''" "utf8_valid ''refs/heads/main''"
  by (simp_all add: utf8_valid_ascii)

lemma not_demo_tombstone [simp]:
  "chain_key (Some ''repo'') r \<noteq> demo_tombstone_key" "pack_key (Some ''repo'') sha \<noteq> demo_tombstone_key"
  "pack_idx_key (Some ''repo'') sha \<noteq> demo_tombstone_key"
  by (auto simp: builder_base demo_tombstone_key_def tombstone_key_def join_base show_nat.simps
      dest!: arg_cong [of _ _ last])

lemma demo_keys_differ [simp]:
  "chain_key p r \<noteq> pack_key q sha" "pack_key q sha \<noteq> chain_key p r"
  "chain_key p r \<noteq> pack_idx_key q sha" "pack_idx_key q sha \<noteq> chain_key p r"
  "pack_idx_key q sha \<noteq> pack_key q sha'" "demo_tombstone_key \<noteq> chain_key (Some ''repo'') r"
  "demo_tombstone_key \<noteq> pack_key (Some ''repo'') sha" "demo_tombstone_key \<noteq> pack_idx_key (Some ''repo'') sha"
  by (rule chain_not_pack [OF chain_key_is_chain] not_sym [OF chain_not_pack(1) [OF chain_key_is_chain]]
      not_sym [OF chain_not_pack(2) [OF chain_key_is_chain]] not_sym [OF bundle_not_pack(3)]
      not_sym [OF not_demo_tombstone(1)] not_sym [OF not_demo_tombstone(2)]
      not_sym [OF not_demo_tombstone(3)])+

lemma gc_world_chain:
  "chain_at demo_ext (mock_view gc_world) (chain_key (Some ''repo'') ''refs/heads/main'') = Some demo_chain"
  by (simp add: chain_at_Some gc_world_def demo_chain_parses)

lemma demo_pack_stem [simp]:
  "is_lower_hex c \<Longrightarrow> sha_from_pack_key (pack_key pfx (demo_sha c)) = Some (demo_sha c)"
  by (simp add: sha_from_pack_key_pack_key)

lemma gc_world_chain_only:
  assumes "chain_slot ''repo'' k" "mock_view gc_world k \<noteq> None"
  shows "k = chain_key (Some ''repo'') ''refs/heads/main''"
proof -
  have c: "is_chain_json_key k" and r: "prefix (join (Some ''repo'') ''refs/'') k"
    using assms(1) by (simp_all add: chain_slot_def)
  have "\<not> prefix (join (Some ''repo'') ''refs/'') demo_tombstone_key"
    by (simp add: demo_tombstone_key_def tombstone_key_def join_base prefix_def)
  with r have "k \<noteq> demo_tombstone_key" by blast
  moreover note chain_not_pack [OF c]
  ultimately show ?thesis using assms(2) by (simp add: gc_world_def split: if_splits)
qed

lemma gc_world_referenced:
  "referenced demo_ext ''repo'' (mock_view gc_world) sha \<longleftrightarrow> sha = demo_sha CHR ''d''"
proof -
  let ?k = "chain_key (Some ''repo'') ''refs/heads/main''"
  have slot: "chain_slot ''repo'' ?k" by (rule chain_slot_chain_key) simp
  have packs: "(\<exists>g \<in> set (cm_segments demo_chain). sha_from_pack_key (seg_pack g) = Some sha) \<longleftrightarrow>
      sha = demo_sha CHR ''d''"
    by (auto simp: demo_chain_def)
  have only: "k = ?k \<and> c = demo_chain"
    if "chain_slot ''repo'' k" "chain_at demo_ext (mock_view gc_world) k = Some c" for k c
  proof -
    from that(2) have "mock_view gc_world k \<noteq> None" by (auto simp: chain_at_Some)
    with that(1) have "k = ?k" by (rule gc_world_chain_only)
    with that(2) gc_world_chain show ?thesis by simp
  qed
  show ?thesis
    unfolding referenced_def packs [symmetric] using slot gc_world_chain only by blast
qed

lemma gc_world_packs [simp]:
  "mock_view gc_world (pack_key (Some ''repo'') (demo_sha CHR ''d'')) = Some (''PACK d'', 1)"
  by (simp add: gc_world_def)

lemma gc_world_readable: "readable demo_ext ''repo'' (mock_view gc_world)"
  unfolding readable_def using gc_world_chain
  by (auto dest!: gc_world_chain_only) (auto simp: demo_chain_def)

lemma gc_world_tombstone:
  "mock_view gc_world demo_tombstone_key =
     Some (json_print demo_ext (json_of_tombstone demo_tombstone), 1)"
  "mock_calm gc_world"
  by (simp_all add: gc_world_def)



text \<open>Past its window, a tombstone is applied in full on a quiet store: every pack it names
  that no chain references is deleted with its index, then the tombstone itself, and nothing
  else changes.\<close>

lemma tombstone_is_applied:
  assumes "mock_calm s" "utf8_valid pfx" "readable x pfx (mock_view s)"
    and "mock_view s tk = Some (b, m)" "tombstone_from_json_bytes x b = Inr tomb"
    and "within_grace x opts (tb_marked_at tomb) ''tombstone'' now = Inr False"
  shows "\<exists>d k t. sweep_one_tombstone x mock_store pfx tk opts now s = (Inr (Swept d k), t) \<and>
    mock_view t = without (insert tk (pack_objects pfx
      {sha \<in> set (tb_orphan_packs tomb). \<not> referenced x pfx (mock_view s) sha})) (mock_view s)"
  using calm_mock.sweep_one_tombstone_effect [OF assms, THEN wp_totalD] by blast

lemma tombstone_is_applied_example:
  "\<exists>d k t. sweep_one_tombstone demo_ext mock_store ''repo'' demo_tombstone_key
       \<lparr>sw_grace_hours = 0, sw_force = True\<rparr> 5 gc_world = (Inr (Swept d k), t) \<and>
     mock_view t (pack_key (Some ''repo'') (demo_sha CHR ''c'')) = None \<and>
     mock_view t (pack_key (Some ''repo'') (demo_sha CHR ''d'')) = Some (''PACK d'', 1)"
proof -
  have "within_grace demo_ext \<lparr>sw_grace_hours = 0, sw_force = True\<rparr> (tb_marked_at demo_tombstone)
      ''tombstone'' 5 = Inr False"
    by (simp add: within_grace_def)
  from tombstone_is_applied [OF gc_world_tombstone(2) ascii_repo(1) gc_world_readable
      gc_world_tombstone(1) demo_tombstone_parses this]
  obtain d k t where "sweep_one_tombstone demo_ext mock_store ''repo'' demo_tombstone_key
       \<lparr>sw_grace_hours = 0, sw_force = True\<rparr> 5 gc_world = (Inr (Swept d k), t)"
    "mock_view t = without (insert demo_tombstone_key (pack_objects ''repo''
       {sha \<in> set (tb_orphan_packs demo_tombstone). \<not> referenced demo_ext ''repo'' (mock_view gc_world) sha}))
       (mock_view gc_world)" by blast
  then show ?thesis
    by (intro exI [of _ d] exI [of _ k] exI [of _ t])
      (auto simp: without_def pack_objects_def gc_world_referenced demo_tombstone_def)
qed

text \<open>What \<open>pack_sha_of_listed\<close> reads from the keys of a pack and its index, and the orphans of
  the example bucket.\<close>

lemma listed_pack_stem:
  "is_valid_bundle_stem sha \<Longrightarrow> pack_sha_of_listed (pack_key pfx sha) = Some sha"
  "is_valid_bundle_stem sha \<Longrightarrow> pack_sha_of_listed (pack_idx_key pfx sha) = Some sha"
proof -
  assume sha: "is_valid_bundle_stem sha"
  then have "CHR ''/'' \<notin> set (sha @ ''.pack'')" "CHR ''/'' \<notin> set (sha @ ''.idx'')" by simp_all
  note last = this [THEN last_segment_append, of "key_base pfx @ ''packs''"]
  from last(1) sha show "pack_sha_of_listed (pack_key pfx sha) = Some sha"
    by (simp add: pack_sha_of_listed_def pack_key_base or_else_def)
  have "strip_suffix ''.pack'' (sha @ ''.idx'') = None"
    by (auto simp: strip_suffix_None suffix_def dest!: arg_cong [of _ _ last])
  with last(2) sha show "pack_sha_of_listed (pack_idx_key pfx sha) = Some sha"
    by (simp add: pack_sha_of_listed_def pack_idx_key_base or_else_def)
qed

lemma gc_world_orphans: "orphans_at demo_ext ''repo'' (mock_view gc_world) = {demo_sha CHR ''c''}"
proof -
  let ?packs = "join (Some ''repo'') ''packs/''"
  have no: "\<not> prefix ?packs demo_tombstone_key" "\<not> prefix ?packs (chain_key (Some ''repo'') ''refs/heads/main'')"
    by (simp_all add: demo_tombstone_key_def tombstone_key_def join_base chain_key_base)
  have yes: "prefix ?packs (pack_key (Some ''repo'') sha)" for sha
    by (simp add: join_base pack_key_base)
  have stems: "pack_sha_of_listed (pack_key (Some ''repo'') (demo_sha CHR ''c'')) = Some (demo_sha CHR ''c'')"
    "pack_sha_of_listed (pack_idx_key (Some ''repo'') (demo_sha CHR ''c'')) = Some (demo_sha CHR ''c'')"
    "pack_sha_of_listed (pack_key (Some ''repo'') (demo_sha CHR ''d'')) = Some (demo_sha CHR ''d'')"
    by (simp_all add: listed_pack_stem)
  have "mock_view gc_world (pack_key (Some ''repo'') (demo_sha CHR ''c'')) \<noteq> None" by (simp add: gc_world_def)
  with yes stems(1) have "demo_sha CHR ''c'' \<in> orphans_at demo_ext ''repo'' (mock_view gc_world)"
    by (auto simp: orphans_at_def gc_world_referenced)
  moreover have "sha = demo_sha CHR ''c'' \<or> sha = demo_sha CHR ''d''"
    if "prefix ?packs k" "mock_view gc_world k \<noteq> None" "pack_sha_of_listed k = Some sha" for k sha
  proof -
    from that(2) have "k \<in> {chain_key (Some ''repo'') ''refs/heads/main'', pack_key (Some ''repo'') (demo_sha CHR ''c''),
        pack_idx_key (Some ''repo'') (demo_sha CHR ''c''), pack_key (Some ''repo'') (demo_sha CHR ''d''), demo_tombstone_key}"
      unfolding gc_world_def demo_bucket_dom by simp
    with no that(1) have "k \<in> {pack_key (Some ''repo'') (demo_sha CHR ''c''),
        pack_idx_key (Some ''repo'') (demo_sha CHR ''c''), pack_key (Some ''repo'') (demo_sha CHR ''d'')}" by blast
    then show ?thesis
      by (elim insertE emptyE) (use that(3) stems in simp_all)
  qed
  ultimately show ?thesis
    unfolding orphans_at_def gc_world_referenced set_eq_iff mem_Collect_eq singleton_iff by metis
qed

text \<open>C21. \<open>mark\<close> records in one new tombstone exactly the packs on the bucket that no chain
  references, or nothing on a dry run or when there is none, and changes nothing else. On a quiet
  store whose chains can be read it succeeds; when it fails, the only object it may have left is
  that tombstone.\<close>

theorem mark_records_exactly_the_orphans:
  assumes "utf8_valid pfx"
  shows "(case mark x mock_store pfx opts now run_id s of
      (Inr out, t) \<Rightarrow> mark_post x pfx opts now run_id (mock_view s) out (mock_view t)
    | (Inl _, t) \<Rightarrow> \<forall>k. mock_view t k \<noteq> mock_view s k \<longrightarrow>
        (\<exists>at. rfc3339_format x now = Some at \<and> k = tombstone_key pfx run_id at)) \<and>
    (mock_calm s \<and> readable x pfx (mock_view s) \<and> rfc3339_format x now \<noteq> None \<longrightarrow>
      (\<exists>out t. mark x mock_store pfx opts now run_id s = (Inr out, t)))"
proof (intro conjI impI, goal_cases)
  case 1
  show ?case
    using mock.mark_sound [OF assms] by (simp add: wp_cases mark_slot_def split: prod.splits sum.splits)
next
  case 2
  then obtain at where "rfc3339_format x now = Some at" by blast
  with 2 show ?case using calm_mock.calm_mark [OF _ assms, THEN wp_totalD] by blast
qed

text \<open>In the example bucket the pack \<open>c\<close> is the only orphan, and \<open>mark\<close> writes its tombstone.\<close>

theorem mark_records_exactly_the_orphans_witness:
  "\<exists>t. mark demo_ext mock_store ''repo'' \<lparr>mk_dry_run = False\<rparr> 7 ''fresh'' gc_world =
       (Inr \<lparr>mk_run_id = ''fresh'', mk_orphan_count = 1, mk_tombstone_key = tombstone_key ''repo'' ''fresh'' (show_nat 7)\<rparr>, t) \<and>
     (\<exists>m. mock_view t (tombstone_key ''repo'' ''fresh'' (show_nat 7)) =
       Some (json_print demo_ext (json_of_tombstone \<lparr>tb_v = 1, tb_run_id = ''fresh'', tb_marked_at = show_nat 7,
         tb_orphan_packs = [demo_sha CHR ''c'']\<rparr>), m))"
proof -
  have at: "rfc3339_format demo_ext 7 = Some (show_nat 7)" by simp
  note marked = mark_records_exactly_the_orphans [OF ascii_repo(1), where x = demo_ext and
      opts = "\<lparr>mk_dry_run = False\<rparr>" and now = 7 and run_id = "''fresh''" and s = gc_world]
  obtain out t where run: "mark demo_ext mock_store ''repo'' \<lparr>mk_dry_run = False\<rparr> 7 ''fresh'' gc_world = (Inr out, t)"
    using marked gc_world_tombstone(2) gc_world_readable at by blast
  with marked have post: "mark_post demo_ext ''repo'' \<lparr>mk_dry_run = False\<rparr> 7 ''fresh'' (mock_view gc_world) out (mock_view t)"
    by simp
  then obtain orphans where o: "set orphans = {demo_sha CHR ''c''}" "distinct orphans"
    "out = \<lparr>mk_run_id = ''fresh'', mk_orphan_count = length orphans, mk_tombstone_key = tombstone_key ''repo'' ''fresh'' (show_nat 7)\<rparr>"
    "orphans \<noteq> [] \<Longrightarrow> wrote (tombstone_key ''repo'' ''fresh'' (show_nat 7))
      (json_print demo_ext (json_of_tombstone (mark_tombstone ''fresh'' (show_nat 7) orphans))) (mock_view gc_world) (mock_view t)"
    by (auto simp: mark_post_def gc_world_orphans at)
  from o(1,2) have "orphans = [demo_sha CHR ''c'']"
    by (metis card_1_singleton_iff distinct_card length_Suc_conv length_0_conv list.set_intros(1) singletonD One_nat_def is_singletonI is_singleton_altdef)
  with run o(3,4) show ?thesis
    by (auto simp: wrote_def mark_tombstone_def TOMBSTONE_SCHEMA_VERSION_def)
qed

end
