(* ===== verification/Bundle_Push_Proofs.thy ===== *)
theory Bundle_Push_Proofs
  imports Bundle_Push Gc_Proofs Demo_World
begin

text \<open>
  What a push of the bundle engine guarantees, for the model of \<open>Bundle_Push\<close>: what it may
  touch, that a protected ref only moves forward, that a ref that changed since it was read
  is refused, what a push and a deletion leave on a store that does not fail, and that a
  batch answers every command. The lemmas are proved for every store that meets the
  contract; the properties at the end are their instances on the mock store.
\<close>

subsection \<open>Reading the ref\<close>

text \<open>The bundle keys a reader finds under a ref when \<open>h\<close> is hidden from it.\<close>

definition bundles_in :: "ext \<Rightarrow> string option \<Rightarrow> string \<Rightarrow> string set \<Rightarrow> bucket \<Rightarrow> string set" where
  "bundles_in x pfx r h v =
     {k. prefix (ref_listing_prefix pfx r) k \<and> v k \<noteq> None \<and> is_bundle_candidate x k \<and> k \<notin> h}"

definition visible :: "ext \<Rightarrow> string option \<Rightarrow> string \<Rightarrow> bucket \<Rightarrow> string set" where
  "visible x pfx r v = bundles_in x pfx r (hidden x pfx v) v"

lemma listed_bundles:
  assumes "lists (ref_listing_prefix pfx r) ms v"
  shows "set (map om_key (filter (\<lambda>m. om_key m \<notin> h) (filter (\<lambda>m. is_bundle_candidate x (om_key m)) ms)))
      = bundles_in x pfx r h v"
    and "distinct (map om_key (filter (\<lambda>m. om_key m \<notin> h) (filter (\<lambda>m. is_bundle_candidate x (om_key m)) ms)))"
proof -
  from assms have ks: "om_key ` set ms = {k. prefix (ref_listing_prefix pfx r) k \<and> v k \<noteq> None}"
    and d: "distinct (map om_key ms)" by (auto simp: lists_def)
  show "set (map om_key (filter (\<lambda>m. om_key m \<notin> h) (filter (\<lambda>m. is_bundle_candidate x (om_key m)) ms)))
      = bundles_in x pfx r h v"
  proof -
    have "set (map om_key (filter (\<lambda>m. om_key m \<notin> h) (filter (\<lambda>m. is_bundle_candidate x (om_key m)) ms)))
        = {k \<in> om_key ` set ms. is_bundle_candidate x k \<and> k \<notin> h}" by auto
    then show ?thesis unfolding ks bundles_in_def by blast
  qed
  from d show "distinct (map om_key (filter (\<lambda>m. om_key m \<notin> h) (filter (\<lambda>m. is_bundle_candidate x (om_key m)) ms)))"
    by (intro distinct_map_filter)
qed

text \<open>The first key of a listing result, as the code takes it with \<open>next()\<close>.\<close>

definition first_key :: "object_meta list \<Rightarrow> string option" where
  "first_key ms = (case ms of [] \<Rightarrow> None | m # _ \<Rightarrow> Some (om_key m))"

lemma first_key_of_set:
  assumes "distinct (map om_key ms)" "\<not> length ms > 1"
  shows "set_option (first_key ms) = set (map om_key ms)"
  using assms by (cases ms; cases "tl ms") (auto simp: first_key_def)

lemma many_keys:
  assumes "distinct (map om_key ms)" "length ms > 1"
  shows "set (map om_key ms) \<noteq> set_option v"
proof
  assume "set (map om_key ms) = set_option v"
  then have "card (set (map om_key ms)) \<le> 1" by (cases v) auto
  with distinct_card [OF assms(1)] assms(2) show False by simp
qed

context store_contract
begin

lemma wp_bundles_for_ref [wp_intros]:
  assumes u: "utf8_prefix pfx" "utf8_valid r"
    and post: "\<And>ms t. view t = view s \<Longrightarrow> (honest s \<Longrightarrow> honest t) \<Longrightarrow> distinct (map om_key ms) \<Longrightarrow>
      set (map om_key ms) = bundles_in x pfx r (set h) (view s) \<Longrightarrow> Q ms t"
    and err: "\<And>e t. view t = view s \<Longrightarrow> (honest s \<Longrightarrow> honest t) \<Longrightarrow> E e t"
  shows "wp (bundles_for_ref x st pfx r (Some h)) Q E s"
  unfolding bundles_for_ref_def Let_def option.case
proof (intro wp_and_then wp_st_list wp_if, goal_cases)
  case (1 ms t)
  with u have "lists (ref_listing_prefix pfx r) ms (view s)" by simp
  from listed_bundles [OF this, of "set h" x] 1 show ?case
    by (intro wp_ok post) auto
next
  case (2 ms t)
  with u have "lists (ref_listing_prefix pfx r) ms (view s)" by simp
  from listed_bundles [OF this, of "set h" x] 2 show ?case
    by (intro wp_and_then wp_ok post) auto
next
  case (3 e t)
  then show ?case by (intro err)
qed

lemma wp_is_protected [wp_intros]:
  assumes "\<And>b t. view t = view s \<Longrightarrow> (honest s \<Longrightarrow> honest t) \<Longrightarrow>
      (b \<Longrightarrow> view s (protected_marker_key pfx r) \<noteq> None) \<Longrightarrow>
      (honest s \<Longrightarrow> \<not> b \<Longrightarrow> view s (protected_marker_key pfx r) = None) \<Longrightarrow> Q b t"
    and "\<And>e t. view t = view s \<Longrightarrow> (honest s \<Longrightarrow> honest t) \<Longrightarrow> E e t"
  shows "wp (is_protected st pfx r) Q E s"
  unfolding is_protected_def
proof (intro wp_match wp_st_head, goal_cases)
  case (1 b m t)
  then show ?case by (intro wp_ok assms(1)) auto
next
  case (2 e t)
  then show ?case by (cases e) (auto intro!: wp_ok wp_fail assms)
qed

lemma frame_write_tombstone [keeps_intros]:
  "baseline_tombstone_key (prefix_str pfx) uuid \<in> K \<Longrightarrow>
     keeps (frame view K) (write_baseline_tombstone_unconditional x st pfx r sha now uuid)"
  unfolding write_baseline_tombstone_unconditional_def Let_def
  by (intro keeps_intros frame_refl frame_trans)

lemma frame_write_baseline_tombstone [keeps_intros]:
  "baseline_tombstone_key (prefix_str pfx) uuid \<in> K \<Longrightarrow>
     keeps (frame view K) (write_baseline_tombstone_best_effort x st pfx r prior current now uuid)"
  unfolding write_baseline_tombstone_best_effort_def write_baseline_tombstone_def
  by (intro keeps_intros frame_refl frame_trans)

lemma frame_delete_prior [keeps_intros]:
  "k \<in> K \<Longrightarrow> keeps (frame view K) (delete_prior_bundle_best_effort st k)"
  unfolding delete_prior_bundle_best_effort_def by (intro keeps_intros frame_refl frame_trans)

lemma frame_defer_prior [keeps_intros]:
  "k \<in> K \<Longrightarrow> baseline_tombstone_key (prefix_str pfx) uuid \<in> K \<Longrightarrow>
     keeps (frame view K) (defer_prior_bundle_via_tombstone x st pfx r k sha now uuid)"
  unfolding defer_prior_bundle_via_tombstone_def
  by (auto intro!: keeps_and_then keeps_if keeps_ok frame_write_baseline_tombstone
      frame_delete_prior split: sum.split option.split)

lemma frame_upload_zip [keeps_intros]:
  "k \<in> K \<Longrightarrow> keeps (frame view K) (upload_zip_artifact_best_effort st k f opts)"
  unfolding upload_zip_artifact_best_effort_def by (intro keeps_intros frame_refl frame_trans)

lemma frame_verify [keeps_intros]:
  "keeps (frame view K) (verify_no_orphan_protected_after_delete st pfx r)"
  unfolding verify_no_orphan_protected_after_delete_def by (intro keeps_intros frame_refl frame_trans)

end

subsection \<open>What a push touches\<close>

text \<open>
  Everything a push of a ref may write or delete: the objects under the ref, the two
  repository-wide keys it creates once, and its tombstone.
\<close>

definition push_keys :: "string option \<Rightarrow> string \<Rightarrow> string \<Rightarrow> string set" where
  "push_keys pfx r uuid =
     {k. prefix (ref_listing_prefix pfx r) k} \<union>
     {head_key pfx, join pfx ''FORMAT'', baseline_tombstone_key (prefix_str pfx) uuid}"

lemma push_keys_mem [simp]:
  "prefix (ref_listing_prefix pfx r) k \<Longrightarrow> k \<in> push_keys pfx r uuid"
  "head_key pfx \<in> push_keys pfx r uuid" "join pfx ''FORMAT'' \<in> push_keys pfx r uuid"
  "baseline_tombstone_key (prefix_str pfx) uuid \<in> push_keys pfx r uuid"
  by (simp_all add: push_keys_def)

context store_contract
begin

lemma frame_commit_push:
  assumes "\<And>k. current = Some k \<Longrightarrow> prefix (ref_listing_prefix pfx (pr_remote_ref state)) k"
  shows "keeps (frame view (push_keys pfx (pr_remote_ref state) uuid))
    (commit_push x st pfx kind state current now uuid)"
  unfolding commit_push_def Let_def
  by (intro keeps_intros frame_refl frame_trans)
    (use assms in \<open>auto split: option.split intro!: keeps_intros\<close>)

text \<open>
  The check under the lock: unless the ref shows exactly the bundle seen before the lock,
  nothing is written and the push is refused.
\<close>

lemma perform_push_cases:
  assumes u: "utf8_prefix pfx" "utf8_valid (pr_remote_ref state)"
    and refused: "\<And>msg t. view t = view s \<Longrightarrow> Q (PushError (pr_remote_ref state) msg) t"
    and failed: "\<And>e t. view t = view s \<Longrightarrow> E e t"
    and commit: "\<And>t. view t = view s \<Longrightarrow> (honest s \<Longrightarrow> honest t) \<Longrightarrow>
      bundles_in x pfx (pr_remote_ref state) (set (pr_hidden_bundles state)) (view s) =
        set_option (pr_pre_existing state) \<Longrightarrow>
      (honest s \<Longrightarrow> pr_force state \<Longrightarrow> \<not> pr_pre_existing_was_ancestor state \<Longrightarrow>
         view s (protected_marker_key pfx (pr_remote_ref state)) = None) \<Longrightarrow>
      wp (commit_push x st pfx kind state (pr_pre_existing state) now uuid) Q E t"
  shows "wp (perform_push_under_lock x st pfx kind state now uuid) Q E s"
proof -
  let ?r = "pr_remote_ref state"
  have main: "wp (and_then (map_err PushStore (bundles_for_ref x st pfx ?r (Some (pr_hidden_bundles state))))
        (\<lambda>current. if length current > 1 then
          ok (PushError ?r (wire_quote
            (''multiple bundles exist for the same ref on server. '' @
             ''Run git-remote-object-store doctor to fix.'')))
        else
          (let current_key = (case current of [] \<Rightarrow> None | m # _ \<Rightarrow> Some (om_key m)) in
           if pr_pre_existing state \<noteq> current_key then
             ok (PushError ?r (wire_quote ''stale remote. Please fetch and retry.''))
           else commit_push x st pfx kind state current_key now uuid))) Q E u"
    if vu: "view u = view s" "honest s \<Longrightarrow> honest u"
      and np: "honest s \<Longrightarrow> pr_force state \<Longrightarrow> \<not> pr_pre_existing_was_ancestor state \<Longrightarrow>
         view s (protected_marker_key pfx ?r) = None" for u
  proof (intro wp_and_then wp_map_err wp_bundles_for_ref u wp_if, goal_cases)
    case (2 ms t)
    show ?case
      unfolding Let_def first_key_def [symmetric]
    proof (intro wp_if, goal_cases)
      case 1
      with 2 vu show ?case by (intro wp_ok refused) simp
    next
      case 2
      then have fk: "first_key ms = pr_pre_existing state" by simp
      with first_key_of_set [OF \<open>distinct (map om_key ms)\<close>] \<open>\<not> 1 < length ms\<close>
        \<open>set (map om_key ms) = bundles_in x pfx ?r (set (pr_hidden_bundles state)) (view u)\<close> vu(1)
      have "bundles_in x pfx ?r (set (pr_hidden_bundles state)) (view s) = set_option (pr_pre_existing state)"
        by simp
      then show ?case
        unfolding fk using \<open>view t = view u\<close> \<open>honest u \<Longrightarrow> honest t\<close> vu np by (intro commit) auto
    qed
  qed (use vu in \<open>auto intro!: wp_ok refused failed\<close>)
  show ?thesis
    unfolding perform_push_under_lock_def Let_def
  proof (rule wp_and_then, rule wp_if, goal_cases)
    case 1
    show ?case
    proof (intro wp_map_err wp_is_protected, goal_cases)
      case (1 b t)
      show ?case
      proof (cases b)
        case True
        with 1 show ?thesis by (auto intro!: wp_ok refused)
      next
        case False
        with 1 show ?thesis using main [of t] unfolding Let_def by simp
      qed
    qed (auto intro: failed)
  next
    case 2
    then show ?case using main [of s] unfolding Let_def by (intro wp_ok) auto
  qed
qed

lemma perform_push_stale:
  assumes "utf8_prefix pfx" "utf8_valid (pr_remote_ref state)"
    and "bundles_in x pfx (pr_remote_ref state) (set (pr_hidden_bundles state)) (view s) \<noteq>
      set_option (pr_pre_existing state)"
  shows "wp (perform_push_under_lock x st pfx kind state now uuid)
     (\<lambda>o' t. view t = view s \<and> (\<exists>msg. o' = PushError (pr_remote_ref state) msg))
     (\<lambda>_ t. view t = view s) s"
  by (rule perform_push_cases) (use assms in auto)

lemma frame_perform_push:
  assumes u: "utf8_prefix pfx" "utf8_valid (pr_remote_ref state)"
  shows "wp (perform_push_under_lock x st pfx kind state now uuid)
     (\<lambda>_ t. frame view (push_keys pfx (pr_remote_ref state) uuid) s t)
     (\<lambda>_ t. frame view (push_keys pfx (pr_remote_ref state) uuid) s t) s"
proof (rule perform_push_cases [OF u], goal_cases)
  case (3 t)
  have "prefix (ref_listing_prefix pfx (pr_remote_ref state)) k" if "pr_pre_existing state = Some k" for k
    using 3(3) that by (auto simp: bundles_in_def)
  from frame_commit_push [OF this] show ?case
    by (rule wp_keeps [OF _ frame_trans frame_same]) (use 3 in auto)
qed (auto intro: frame_same)

end

subsection \<open>The part before the lock\<close>

text \<open>What a local probe that succeeds has established about the two histories.\<close>

lemma local_git_work_Inr:
  assumes "local_git_work env spec pre force with_zip = Inr (Inr local)"
  obtains repo where "le_repo env = Inr repo" "resolve repo spec = Inr (lg_local_sha local)"
    "case pre of None \<Rightarrow> lg_pre_existing_was_ancestor local
     | Some sha \<Rightarrow> is_ancestor repo sha (lg_local_sha local) = Inr (lg_pre_existing_was_ancestor local)"
    "force \<or> lg_pre_existing_was_ancestor local"
  using assms unfolding local_git_work_def
  by (auto split: sum.splits option.splits if_splits)

text \<open>The state a push carries into its critical section.\<close>

definition ready_state ::
    "push_config \<Rightarrow> push_spec \<Rightarrow> string list \<Rightarrow> string option \<Rightarrow> local_git \<Rightarrow> local_file \<Rightarrow> push_ready_state" where
  "ready_state config spec hid pre local bundle =
     \<lparr>pr_remote_ref = ps_remote_ref spec, pr_local_sha = lg_local_sha local, pr_pre_existing = pre,
      pr_bundle = bundle, pr_zip_artifacts = lg_zip_artifacts local, pr_engine = pc_engine config,
      pr_force = ps_force spec, pr_pre_existing_was_ancestor = lg_pre_existing_was_ancestor local,
      pr_local_spec = ps_local_spec spec, pr_hidden_bundles = hid\<rparr>"

lemma ready_state_sel [simp]:
  "pr_remote_ref (ready_state config spec hid pre local bundle) = ps_remote_ref spec"
  "pr_local_sha (ready_state config spec hid pre local bundle) = lg_local_sha local"
  "pr_pre_existing (ready_state config spec hid pre local bundle) = pre"
  "pr_bundle (ready_state config spec hid pre local bundle) = bundle"
  "pr_zip_artifacts (ready_state config spec hid pre local bundle) = lg_zip_artifacts local"
  "pr_engine (ready_state config spec hid pre local bundle) = pc_engine config"
  "pr_force (ready_state config spec hid pre local bundle) = ps_force spec"
  "pr_pre_existing_was_ancestor (ready_state config spec hid pre local bundle) =
     lg_pre_existing_was_ancestor local"
  "pr_hidden_bundles (ready_state config spec hid pre local bundle) = hid"
  by (simp_all add: ready_state_def)

definition pre_sha :: "ext \<Rightarrow> string option \<Rightarrow> string option" where
  "pre_sha x pre = Option.bind pre (parse_remote_sha_from_key x)"

context store_contract
begin

lemma prepare_push_cases:
  assumes u: "utf8_prefix pfx" "utf8_valid (ps_remote_ref spec)"
    and del: "ps_local_spec spec = [] \<Longrightarrow> Q (DeleteRef (ps_remote_ref spec)) s"
    and refused: "\<And>msg t. view t = view s \<Longrightarrow> Q (Done (PushError (ps_remote_ref spec) msg)) t"
    and failed: "\<And>e t. view t = view s \<Longrightarrow> E e t"
    and ready: "\<And>hid pre local bundle t. view t = view s \<Longrightarrow> (honest s \<Longrightarrow> honest t) \<Longrightarrow>
      ps_local_spec spec \<noteq> [] \<Longrightarrow> set hid \<subseteq> hidden x pfx (view s) \<Longrightarrow>
      bundles_in x pfx (ps_remote_ref spec) (set hid) (view s) = set_option pre \<Longrightarrow>
      local_git_work env (ps_local_spec spec) (pre_sha x pre) (ps_force spec) (pc_zip config)
        = Inr (Inr local) \<Longrightarrow>
      le_bundle_at env (lg_local_sha local) (ps_local_spec spec) = Inr bundle \<Longrightarrow>
      Q (Ready (ready_state config spec hid pre local bundle)) t"
  shows "wp (prepare_push x st pfx env config spec) Q E s"
proof (cases "ps_local_spec spec = []")
  case True
  with del show ?thesis by (simp add: prepare_push_def wp_ok)
next
  case False
  show ?thesis
    unfolding prepare_push_def Let_def if_not_P [OF False] first_key_def [symmetric]
  proof (rule wp_and_then, rule wp_map_err, rule wp_tombstoned_bundle_keys [OF u(1)], goal_cases)
    case (1 hid t)
    show ?case
    proof (rule wp_and_then, rule wp_map_err, rule wp_bundles_for_ref [OF u], goal_cases)
      case (1 ms w)
      then have vw: "view w = view s" using \<open>view t = view s\<close> by simp
      show ?case
      proof (cases "length ms > 1")
        case True
        with vw show ?thesis by (auto intro!: wp_ok refused)
      next
        case many: False
        define pre where "pre = first_key ms"
        have pre: "bundles_in x pfx (ps_remote_ref spec) (set hid) (view s) = set_option pre"
          using first_key_of_set [OF 1(3) many] 1(4) \<open>view t = view s\<close> by (simp add: pre_def)
        have hon: "honest s \<Longrightarrow> honest w" using 1 \<open>honest s \<Longrightarrow> honest t\<close> by blast
        have sha: "(case pre of None \<Rightarrow> Some None
            | Some key \<Rightarrow> map_option Some (parse_remote_sha_from_key x key)) = Some (pre_sha x pre)"
        proof (cases pre)
          case (Some k)
          with pre have "is_bundle_candidate x k" by (auto simp: bundles_in_def)
          with Some show ?thesis by (auto simp: pre_sha_def is_bundle_candidate_def)
        qed (simp add: pre_sha_def)
        show ?thesis
          using many False vw pre hon 1 \<open>set hid \<subseteq> hidden x pfx (view s)\<close>
          unfolding pre_def [symmetric] sha
          by (auto intro!: wp_ok wp_fail refused failed ready [unfolded ready_state_def]
            split: sum.split option.split git_probe_error.split)
      qed
    qed (use 1 in \<open>auto intro: failed\<close>)
  qed (auto intro: failed)
qed

end

subsection \<open>The frame of a push\<close>

lemma keeps_release_around:
  assumes "reflp R" "transp R" "keeps R (release_lock st g)" "keeps R work"
  shows "keeps R (release_around st g r l work)"
  unfolding release_around_def
  by (intro keeps_intros assms) (auto intro!: keeps_intros assms split: push_outcome.split)

context store_contract
begin

lemma frame_delete_ref:
  assumes u: "utf8_prefix pfx" "utf8_valid r"
  shows "keeps (frame view {k. prefix (ref_listing_prefix pfx r) k})
    (delete_remote_ref_under_lock x st pfx r l)"
proof (rule keeps_from_wp)
  fix s
  let ?K = "{k. prefix (ref_listing_prefix pfx r) k}"
  show "wp (delete_remote_ref_under_lock x st pfx r l) (\<lambda>_. frame view ?K s) (\<lambda>_. frame view ?K s) s"
    unfolding delete_remote_ref_under_lock_def Let_def
  proof (rule wp_and_then, rule wp_map_err, rule wp_st_list, goal_cases)
    case (1 ms t)
    with u have "lists (ref_listing_prefix pfx r) ms (view s)" by simp
    then have ms: "om_key ` set ms \<subseteq> ?K" by (auto simp: lists_def)
    have "keeps (frame view ?K) (fold_io (\<lambda>_ entry. map_err PushStore (delete_idempotent st (om_key entry)))
        () (filter (\<lambda>e. om_key e \<noteq> l) ms))"
      by (rule keeps_fold_io_mem) (use ms in \<open>auto intro!: keeps_intros\<close>)
    then show ?case
      by (intro wp_keeps [OF _ frame_trans frame_same [OF 1(1)]])
        (auto intro!: keeps_intros)
  next
    case (2 e t)
    then show ?case by (intro frame_same) simp
  qed
qed

lemma frame_lock_and_work:
  assumes u: "utf8_prefix pfx" "utf8_valid (work_ref work)"
  shows "keeps (frame view (push_keys pfx (work_ref work) uuid))
    (lock_and_work x st pfx config now tomb_now uuid work)"
proof -
  let ?K = "push_keys pfx (work_ref work) uuid"
  have "keeps (frame view ?K) (case work of
      WorkPush state \<Rightarrow> perform_push_under_lock x st pfx (pc_kind config) state tomb_now uuid
    | WorkDelete remote_ref \<Rightarrow>
        delete_remote_ref_under_lock x st pfx remote_ref (lock_key pfx (work_ref work)))"
  proof (cases work)
    case (WorkPush state)
    with u show ?thesis by (auto intro!: keeps_from_wp frame_perform_push)
  next
    case (WorkDelete r)
    with u have "keeps (frame view {k. prefix (ref_listing_prefix pfx r) k})
        (delete_remote_ref_under_lock x st pfx r (lock_key pfx r))" by (intro frame_delete_ref) auto
    then show ?thesis using WorkDelete
      by (auto elim!: keeps_mono frame_mono simp: push_keys_def)
  qed
  note work = this
  let ?l = "lock_key pfx (work_ref work)"
  have l: "?l \<in> ?K" by simp
  have body: "keeps (frame view ?K) (release_around st ?l (work_ref work) ?l (case work of
      WorkPush state \<Rightarrow> perform_push_under_lock x st pfx (pc_kind config) state tomb_now uuid
    | WorkDelete remote_ref \<Rightarrow> delete_remote_ref_under_lock x st pfx remote_ref ?l))"
    by (intro keeps_release_around frame_refl frame_trans frame_release_lock l work)
  show ?thesis
  proof (rule keeps_from_wp)
    fix s
    show "wp (lock_and_work x st pfx config now tomb_now uuid work)
        (\<lambda>_. frame view ?K s) (\<lambda>_. frame view ?K s) s"
      unfolding lock_and_work_def Let_def
    proof (rule wp_and_then, rule wp_map_err, rule wp_acquire_lock, goal_cases)
      case (1 g t)
      then have "frame view ?K s t" using l by (blast intro: frame_mono)
      with 1(3) show ?case
        by (auto intro!: wp_ok wp_keeps [OF body frame_trans])
    next
      case (2 e t)
      with l show ?case by (blast intro: frame_mono)
    qed
  qed
qed

end

text \<open>A push that would delete the ref or move it to a commit that does not contain its tip.\<close>

definition rewinds :: "ext \<Rightarrow> string option \<Rightarrow> local_env \<Rightarrow> push_spec \<Rightarrow> bucket \<Rightarrow> bool" where
  "rewinds x pfx env spec v \<longleftrightarrow>
     ps_local_spec spec = [] \<or>
     (\<exists>repo sha k old. le_repo env = Inr repo \<and> resolve repo (ps_local_spec spec) = Inr sha \<and>
        k \<in> visible x pfx (ps_remote_ref spec) v \<and> parse_remote_sha_from_key x k = Some old \<and>
        is_ancestor repo old sha = Inr False)"

lemma marker_not_lock [simp]: "protected_marker_key pfx r \<noteq> lock_key pfx r"
  by (simp add: ref_key_defs)

context store_contract
begin

lemma frame_push_one:
  assumes u: "utf8_prefix pfx" "utf8_valid (ps_remote_ref spec)"
  shows "keeps (frame view (push_keys pfx (ps_remote_ref spec) uuid))
    (push_one x st pfx env config now tomb_now uuid spec)"
proof (rule keeps_from_wp)
  fix s
  let ?K = "push_keys pfx (ps_remote_ref spec) uuid"
  have under: "wp (lock_and_work x st pfx config now tomb_now uuid work)
      (\<lambda>_. frame view ?K s) (\<lambda>_. frame view ?K s) t"
    if "view t = view s" "work_ref work = ps_remote_ref spec" for t work
    using frame_lock_and_work [of pfx work uuid x config now tomb_now] u that
    by (intro wp_keeps [OF _ frame_trans frame_same]) auto
  show "wp (push_one x st pfx env config now tomb_now uuid spec)
      (\<lambda>_. frame view ?K s) (\<lambda>_. frame view ?K s) s"
    unfolding push_one_def
    by (rule wp_and_then, rule prepare_push_cases [OF u])
      (auto intro!: under wp_ok frame_same)
qed

lemma wp_release_around:
  assumes "wp work (\<lambda>out u. frame view K s0 u \<and> P out) (\<lambda>_ u. frame view K s0 u) t"
    and "g \<in> K" "\<And>m. P (PushError r m)"
  shows "wp (release_around st g r l work) (\<lambda>out u. frame view K s0 u \<and> P out)
    (\<lambda>_ u. frame view K s0 u) t"
  unfolding release_around_def
proof (rule wp_match, rule wp_mono [OF assms(1)], goal_cases)
  case (1 out u)
  then have "frame view K s0 u" "P out" by auto
  then show ?case
    by (intro wp_match wp_keeps [OF frame_release_lock [OF assms(2)] frame_trans])
      (auto intro!: wp_ok assms(3) split: push_outcome.split)
next
  case (2 e u)
  then show ?case
    by (intro wp_match wp_keeps [OF frame_release_lock [OF assms(2)] frame_trans])
      (auto intro!: wp_fail)
qed

lemma delete_ref_protected:
  assumes u: "utf8_prefix pfx" "utf8_valid r" and marker: "view s (protected_marker_key pfx r) \<noteq> None"
  shows "wp (delete_remote_ref_under_lock x st pfx r l)
    (\<lambda>out t. view t = view s \<and> (\<exists>msg. out = PushError r msg)) (\<lambda>_ t. view t = view s) s"
  unfolding delete_remote_ref_under_lock_def Let_def
proof (rule wp_and_then, rule wp_map_err, rule wp_st_list, goal_cases)
  case (1 ms t)
  with u have "lists (ref_listing_prefix pfx r) ms (view s)" by simp
  then have "protected_marker_key pfx r \<in> om_key ` set ms" using marker by (simp add: lists_def)
  then obtain e where "e \<in> set ms" "om_key e = protected_marker_key pfx r" by (metis imageE)
  then have "entries_have_protected_marker ms" by (rule protected_marker_found)
  with 1 show ?case by (auto intro!: wp_ok)
next
  case (2 e t)
  then show ?case by simp
qed

text \<open>
  A protected ref only moves forward: on a store that does not lie about what it holds, a
  push that would delete or rewind it changes nothing but the lock, and reports an error.
\<close>

lemma push_one_protected:
  assumes u: "utf8_prefix pfx" "utf8_valid (ps_remote_ref spec)" and h: "honest s"
    and marker: "view s (protected_marker_key pfx (ps_remote_ref spec)) \<noteq> None"
    and rw: "rewinds x pfx env spec (view s)"
  shows "wp (push_one x st pfx env config now tomb_now uuid spec)
    (\<lambda>out t. frame view {lock_key pfx (ps_remote_ref spec)} s t \<and>
       (\<exists>msg. out = PushError (ps_remote_ref spec) msg))
    (\<lambda>_ t. frame view {lock_key pfx (ps_remote_ref spec)} s t) s"
proof -
  let ?r = "ps_remote_ref spec"
  let ?K = "{lock_key pfx ?r}"
  have under: "wp (lock_and_work x st pfx config now tomb_now uuid work)
      (\<lambda>out t. frame view ?K s t \<and> (\<exists>msg. out = PushError ?r msg)) (\<lambda>_. frame view ?K s) t"
    if t: "view t = view s" "honest t" and w: "work_ref work = ?r"
      and safe: "\<And>state. work = WorkPush state \<Longrightarrow> pr_force state \<and> \<not> pr_pre_existing_was_ancestor state"
    for t work
    unfolding lock_and_work_def Let_def w
  proof (rule wp_and_then, rule wp_map_err, rule wp_acquire_lock, goal_cases)
    case (1 g q)
    then have fr: "frame view ?K s q" using t by (simp add: frame_def)
    then have mk: "view q (protected_marker_key pfx ?r) \<noteq> None" using marker by (auto simp: frame_def)
    have inner: "wp (case work of
          WorkPush state \<Rightarrow> perform_push_under_lock x st pfx (pc_kind config) state tomb_now uuid
        | WorkDelete remote_ref \<Rightarrow>
            delete_remote_ref_under_lock x st pfx remote_ref (lock_key pfx ?r))
        (\<lambda>out t. frame view ?K s t \<and> (\<exists>msg. out = PushError ?r msg)) (\<lambda>_. frame view ?K s) q"
    proof (cases work)
      case (WorkPush state)
      with w have "pr_remote_ref state = ?r" by simp
      with WorkPush safe [OF WorkPush] u mk fr t 1(2) show ?thesis
        by (auto intro!: perform_push_cases simp: frame_def)
    next
      case (WorkDelete r)
      with w have "r = ?r" by simp
      with WorkDelete show ?thesis
        using fr by (auto simp: frame_def intro!: wp_mono [OF delete_ref_protected [OF u mk]])
    qed
    from 1(3) show ?case
    proof (elim disjE)
      assume "g = Some (lock_key pfx ?r)"
      then show ?thesis by (auto intro!: wp_release_around [OF inner])
    qed (use fr in \<open>auto intro!: wp_ok\<close>)
  next
    case (2 e q)
    with t show ?case by (simp add: frame_def)
  qed
  show ?thesis
    unfolding push_one_def
  proof (rule wp_and_then, rule prepare_push_cases [OF u], goal_cases)
    case 1
    show ?case using h by (auto intro!: under)
  next
    case (2 msg t)
    then show ?case by (auto intro!: wp_ok frame_same)
  next
    case (3 e t)
    then show ?case by (intro frame_same)
  next
    case (4 hid pre lg bd t)
    from rw 4(3) obtain repo sha k old where r: "le_repo env = Inr repo"
      "resolve repo (ps_local_spec spec) = Inr sha" "k \<in> visible x pfx ?r (view s)"
      "parse_remote_sha_from_key x k = Some old" "is_ancestor repo old sha = Inr False"
      by (auto simp: rewinds_def)
    then have "k \<in> bundles_in x pfx ?r (set hid) (view s)"
      using 4(4) by (auto simp: visible_def bundles_in_def)
    with 4(5) have pre: "pre = Some k" by (cases pre) auto
    from 4(6) have "\<not> lg_pre_existing_was_ancestor lg \<and> ps_force spec"
      by (rule local_git_work_Inr) (use r pre in \<open>auto simp: pre_sha_def\<close>)
    with 4 h show ?case by (auto intro!: under)
  qed
qed

end

subsection \<open>A push that succeeds\<close>

text \<open>Keys that are neither baseline tombstones nor bundles do not decide what a reader sees.\<close>

lemma candidate_suffix: "is_bundle_candidate x k \<Longrightarrow> suffix ''.bundle'' k"
  using last_segment_suffix [of "CHR ''/''" k]
  by (auto simp: is_bundle_candidate_def parse_remote_sha_from_key_def
      parse_remote_sha_stem_from_key_def suffix_def split: option.splits)

definition neutral :: "ext \<Rightarrow> string option \<Rightarrow> string \<Rightarrow> bool" where
  "neutral x pfx k \<longleftrightarrow> \<not> is_baseline_tombstone_key k (prefix_str pfx) \<and> \<not> is_bundle_candidate x k"

lemma hidden_cong:
  "(\<And>k. is_baseline_tombstone_key k (prefix_str pfx) \<Longrightarrow> v' k = v k) \<Longrightarrow> hidden x pfx v' = hidden x pfx v"
  unfolding hidden_def tomb_hides_def by auto

lemma neutral_frame:
  assumes "frame view (Collect (neutral x pfx)) s t"
  shows "hidden x pfx (view t) = hidden x pfx (view s)"
    and "bundles_in x pfx r h (view t) = bundles_in x pfx r h (view s)"
    and "is_bundle_candidate x k \<Longrightarrow> view t k = view s k"
    and "is_baseline_tombstone_key k (prefix_str pfx) \<Longrightarrow> view t k = view s k"
  using assms by (auto simp: frame_def neutral_def bundles_in_def intro!: hidden_cong)

lemma refs_not_tombstone:
  assumes "prefix ''refs/'' r" "prefix (ref_listing_prefix pfx r) k"
  shows "\<not> is_baseline_tombstone_key k (prefix_str pfx)"
  using assms by (auto simp: is_baseline_tombstone_key_def baseline_tombstone_listing_prefix_def
      BASELINE_TOMBSTONE_KEY_FRAGMENT_def builder_base prefix_def)

lemma refs_key_not_tombstone:
  assumes "prefix ''refs/'' r"
  shows "\<not> is_baseline_tombstone_key (bundle_key pfx r sha) (prefix_str pfx)"
    "\<not> is_baseline_tombstone_key (lock_key pfx r) (prefix_str pfx)"
    "\<not> is_baseline_tombstone_key (archive_key pfx r) (prefix_str pfx)"
  by (rule refs_not_tombstone [OF assms], simp)+

lemma top_key_not_candidate:
  assumes "CHR ''/'' \<notin> set name" "\<not> suffix ''.bundle'' name"
  shows "\<not> is_bundle_candidate x (key_base pfx @ name)"
proof -
  have "last_segment CHR ''/'' (key_base pfx @ name) = name"
    using last_segment_append [OF assms(1)] assms(1) by (auto simp: key_base_def split: option.split)
  then show ?thesis
    using assms(2)
    by (auto simp: is_bundle_candidate_def parse_remote_sha_from_key_def
        parse_remote_sha_stem_from_key_def suffix_def split: option.splits)
qed

lemma neutral_keys [simp]:
  "neutral x pfx (head_key pfx)" "neutral x pfx (join pfx ''FORMAT'')"
  "prefix ''refs/'' r \<Longrightarrow> neutral x pfx (lock_key pfx r)"
  "prefix ''refs/'' r \<Longrightarrow> neutral x pfx (archive_key pfx r)"
  using top_key_not_candidate [of "''HEAD''" x pfx] top_key_not_candidate [of "''FORMAT''" x pfx]
    refs_key_not_tombstone [of r pfx]
  by (auto simp: neutral_def head_key_def join_base is_baseline_tombstone_key_def
      baseline_tombstone_listing_prefix_def BASELINE_TOMBSTONE_KEY_FRAGMENT_def suffix_def)

lemma bundles_in_put:
  assumes "is_bundle_candidate x k" "prefix (ref_listing_prefix pfx r) k"
  shows "bundles_in x pfx r h (v(k \<mapsto> c)) = bundles_in x pfx r h v \<union> ({k} - h)"
  using assms by (auto simp: bundles_in_def)

lemma bundles_in_remove: "bundles_in x pfx r h (v(k := None)) = bundles_in x pfx r h v - {k}"
  by (auto simp: bundles_in_def)

lemma bundles_in_hide: "bundles_in x pfx r (h \<union> g) v = bundles_in x pfx r h v - g"
  by (auto simp: bundles_in_def)

lemma hidden_put_tombstone:
  assumes "is_baseline_tombstone_key tk (prefix_str pfx)" "v tk = None"
    "baseline_from_json_bytes x b = Inr t" "ref_name_ok x (bt_ref_name t)"
  shows "hidden x pfx (v(tk \<mapsto> (b, m))) = hidden x pfx v \<union> {bundle_key pfx (bt_ref_name t) (bt_sha t)}"
proof -
  have "tomb_hides x pfx (v(tk \<mapsto> (b, m))) k =
      (if k = tk then {bundle_key pfx (bt_ref_name t) (bt_sha t)} else tomb_hides x pfx v k)" for k
    using assms by (auto simp: tomb_hides_def)
  moreover have "tomb_hides x pfx v tk = {}" using assms(2) by (simp add: tomb_hides_def)
  ultimately have "(\<Union>k. tomb_hides x pfx (v(tk \<mapsto> (b, m))) k) =
      {bundle_key pfx (bt_ref_name t) (bt_sha t)} \<union> (\<Union>k \<in> UNIV - {tk}. tomb_hides x pfx v k)"
    and "(\<Union>k. tomb_hides x pfx v k) = (\<Union>k \<in> UNIV - {tk}. tomb_hides x pfx v k)"
    by (auto split: if_splits)
  then show ?thesis unfolding hidden_def by auto
qed

definition baseline_tombstone_of :: "string \<Rightarrow> string \<Rightarrow> string \<Rightarrow> baseline_tombstone" where
  "baseline_tombstone_of at r sha =
     \<lparr>bt_v = TOMBSTONE_SCHEMA_VERSION, bt_marked_at = at, bt_ref_name = r, bt_sha = sha\<rparr>"

text \<open>The JSON library reads the document back that it has written.\<close>

definition json_ok :: "ext \<Rightarrow> json \<Rightarrow> bool" where
  "json_ok x j \<longleftrightarrow> json_parse x (json_print x j) = Some j"

context calm_store
begin

lemma calm_bundles_for_ref [calm_intros]:
  assumes c: "calm s" and u: "utf8_prefix pfx" "utf8_valid r"
    and post: "\<And>ms t. calm t \<Longrightarrow> view t = view s \<Longrightarrow> distinct (map om_key ms) \<Longrightarrow>
      set (map om_key ms) = bundles_in x pfx r (set h) (view s) \<Longrightarrow> Q ms t"
  shows "wp (bundles_for_ref x st pfx r (Some h)) Q E s"
  unfolding bundles_for_ref_def Let_def option.case
proof (intro wp_and_then calm_wp_list c wp_if, goal_cases)
  case (1 ms t)
  with u have "lists (ref_listing_prefix pfx r) ms (view s)" by simp
  from listed_bundles [OF this, of "set h" x] 1 show ?case
    by (intro wp_ok post) auto
next
  case (2 ms t)
  with u have "lists (ref_listing_prefix pfx r) ms (view s)" by simp
  from listed_bundles [OF this, of "set h" x] 2 show ?case
    by (intro wp_and_then wp_ok post) auto
qed

lemma calm_is_protected [calm_intros]:
  assumes "calm s"
    and "\<And>t. calm t \<Longrightarrow> view t = view s \<Longrightarrow> Q (view s (protected_marker_key pfx r) \<noteq> None) t"
  shows "wp (is_protected st pfx r) Q E s"
  unfolding is_protected_def
  by (intro wp_match calm_wp_head assms(1)) (use assms(2) in \<open>auto intro!: wp_ok\<close>)

lemma calm_put_if_absent_neutral:
  assumes "calm s" "k \<in> K" "\<And>b t. calm t \<Longrightarrow> frame view K s t \<Longrightarrow> view t k \<noteq> None \<Longrightarrow> Q b t"
  shows "wp (st_put_if_absent st k body) Q E s"
  by (intro calm_wp_put_if_absent assms(1) assms(3))
    (use assms(2) in \<open>auto simp: wrote_def frame_def\<close>)

lemma calm_delete_prior [calm_intros]:
  assumes "calm s" "\<And>t. calm t \<Longrightarrow> view t = (view s)(k := None) \<Longrightarrow> Q () t"
  shows "wp (delete_prior_bundle_best_effort st k) Q E s"
  unfolding delete_prior_bundle_best_effort_def
  by (intro wp_match calm_delete_idempotent assms(1)) (auto intro!: wp_ok assms(2))

text \<open>The prior bundle leaves the view: hidden behind a tombstone, or deleted.\<close>

lemma calm_defer_prior:
  assumes c: "calm s" and sha: "is_valid_bundle_stem old" "is_valid_bundle_stem new" "old \<noteq> new"
    and r: "ref_name_ok x r" and fresh: "view s (baseline_tombstone_key (prefix_str pfx) uuid) = None"
    and js: "\<And>at. rfc3339_format x now = Some at \<Longrightarrow>
      json_ok x (json_of_baseline (baseline_tombstone_of at r old))"
    and hidden: "\<And>b m t. calm t \<Longrightarrow>
      view t = (view s)(baseline_tombstone_key (prefix_str pfx) uuid \<mapsto> (b, m)) \<Longrightarrow>
      hidden x pfx (view t) = hidden x pfx (view s) \<union> {bundle_key pfx r old} \<Longrightarrow> Q () t"
    and gone: "\<And>t. calm t \<Longrightarrow> view t = (view s)(bundle_key pfx r old := None) \<Longrightarrow> Q () t"
  shows "wp (defer_prior_bundle_via_tombstone x st pfx r (bundle_key pfx r old) new now uuid) Q E s"
proof -
  have stem: "parse_remote_sha_stem_from_key (bundle_key pfx r old) = Some old"
    by (rule parse_stem_bundle_key [OF sha(1)])
  show ?thesis
  proof (cases "rfc3339_format x now")
    case None
    then show ?thesis
      using sha c gone
      by (simp add: defer_prior_bundle_via_tombstone_def stem sha40_valid
          write_baseline_tombstone_best_effort_def write_baseline_tombstone_def
          write_baseline_tombstone_unconditional_def rfc3339_now_def)
        (auto intro!: wp_and_then wp_match wp_of_result wp_ok calm_delete_prior)
  next
    case (Some at)
    let ?T = "baseline_tombstone_of at r old"
    let ?tk = "baseline_tombstone_key (prefix_str pfx) uuid"
    have parsed: "baseline_from_json_bytes x (json_print x (json_of_baseline ?T)) = Inr ?T"
      using js [OF Some] sha
      by (intro baseline_bytes_roundtrip) (simp_all add: json_ok_def baseline_tombstone_of_def)
    have put: "Q () t" if "calm t" "wrote ?tk (json_print x (json_of_baseline ?T)) (view s) (view t)" for t
    proof -
      from that(2) obtain m where vt: "view t = (view s)(?tk \<mapsto> (json_print x (json_of_baseline ?T), m))"
        by (auto simp: wrote_def)
      from hidden_put_tombstone [where v = "view s" and m = m, OF baseline_key_is_tombstone fresh parsed] r
      have "hidden x pfx (view t) = hidden x pfx (view s) \<union> {bundle_key pfx r old}"
        unfolding vt by (simp add: baseline_tombstone_of_def)
      with that(1) vt show ?thesis by (rule hidden)
    qed
    show ?thesis
      using sha c put Some
      by (simp add: defer_prior_bundle_via_tombstone_def stem sha40_valid
          write_baseline_tombstone_best_effort_def write_baseline_tombstone_def
          write_baseline_tombstone_unconditional_def rfc3339_now_def Let_def
          baseline_tombstone_of_def [symmetric])
        (auto intro!: wp_and_then wp_match wp_of_result wp_ok wp_map_err calm_wp_put_bytes)
  qed
qed

lemma calm_upload_zip:
  assumes "calm s" "k \<in> K" "\<And>t. calm t \<Longrightarrow> frame view K s t \<Longrightarrow> Q () t"
    and "f = Inr body"
  shows "wp (upload_zip_artifact_best_effort st k f opts) Q E s"
  unfolding upload_zip_artifact_best_effort_def assms(4)
  by (intro wp_match calm_wp_put_path assms(1) wp_ok assms(3))
    (use assms(2) in \<open>auto simp: wrote_def frame_def\<close>)

end

text \<open>What a committed push leaves: the bundle in place, and exactly it in view unless hidden.\<close>

definition pushed :: "ext \<Rightarrow> string option \<Rightarrow> string \<Rightarrow> string \<Rightarrow> string \<Rightarrow> bucket \<Rightarrow> bucket \<Rightarrow> bool" where
  "pushed x pfx r new body v v' \<longleftrightarrow>
     (\<exists>m. v' (bundle_key pfx r new) = Some (body, m)) \<and>
     v' (head_key pfx) \<noteq> None \<and> v' (join pfx ''FORMAT'') \<noteq> None \<and>
     visible x pfx r v' = {bundle_key pfx r new} - hidden x pfx v"

lemma neutral_pushed:
  assumes "frame view (Collect (neutral x pfx)) s t"
    and "\<exists>m. view s (bundle_key pfx r new) = Some (body, m)" "is_bundle_candidate x (bundle_key pfx r new)"
    and "visible x pfx r (view s) = {bundle_key pfx r new} - h"
  shows "\<exists>m. view t (bundle_key pfx r new) = Some (body, m)"
    and "visible x pfx r (view t) = {bundle_key pfx r new} - h"
  using neutral_frame [OF assms(1)] assms(2-4) by (auto simp: visible_def)

text \<open>The key of the bundle in view before the push, when there is one.\<close>

definition flat_pre :: "string option \<Rightarrow> string \<Rightarrow> string option \<Rightarrow> string option" where
  "flat_pre pfx r old = map_option (bundle_key pfx r) old"

context calm_store
begin

lemma calm_replace_bundle:
  assumes c: "calm s" and hx: "hex_law x" and r: "ref_name_ok x r" "prefix ''refs/'' r"
    and new: "is_valid_bundle_stem new"
    and old: "\<And>sha. old = Some sha \<Longrightarrow> is_valid_bundle_stem sha"
    and pre: "bundles_in x pfx r (hidden x pfx (view s)) (view s) =
      set_option (flat_pre pfx r old) \<union> ({bundle_key pfx r new} - hidden x pfx (view s))"
    and notlost: "old = Some new \<Longrightarrow> bundle_key pfx r new \<notin> hidden x pfx (view s)"
    and fresh: "view s (baseline_tombstone_key (prefix_str pfx) uuid) = None"
    and js: "\<And>sha at. old = Some sha \<Longrightarrow> rfc3339_format x now = Some at \<Longrightarrow>
      json_ok x (json_of_baseline (baseline_tombstone_of at r sha))"
    and post: "\<And>t. calm t \<Longrightarrow> visible x pfx r (view t) = {bundle_key pfx r new} - hidden x pfx (view s) \<Longrightarrow>
      (\<And>k. k \<noteq> baseline_tombstone_key (prefix_str pfx) uuid \<Longrightarrow> k \<notin> set_option (flat_pre pfx r old) - {bundle_key pfx r new} \<Longrightarrow>
        view t k = view s k) \<Longrightarrow> Q () t"
  shows "wp (case flat_pre pfx r old of
      None \<Rightarrow> ok ()
    | Some prev \<Rightarrow>
        if prev \<noteq> bundle_key pfx r new
        then defer_prior_bundle_via_tombstone x st pfx r prev new now uuid else ok ()) Q E s"
proof (cases old)
  case None
  with pre have "visible x pfx r (view s) = {bundle_key pfx r new} - hidden x pfx (view s)"
    by (simp add: flat_pre_def visible_def)
  with c None show ?thesis by (simp add: flat_pre_def) (rule wp_ok, rule post, auto)
next
  case (Some sha)
  note sha = old [OF Some]
  show ?thesis
  proof (cases "sha = new")
    case True
    with Some pre notlost have "visible x pfx r (view s) = {bundle_key pfx r new} - hidden x pfx (view s)"
      by (auto simp: flat_pre_def visible_def)
    with c Some True show ?thesis by (simp add: flat_pre_def) (rule wp_ok, rule post, auto)
  next
    case False
    have ne: "bundle_key pfx r sha \<noteq> bundle_key pfx r new"
      using False sha new by (simp add: bundle_key_inject)
    have hid_gone: "hidden x pfx ((view s)(bundle_key pfx r sha := None)) = hidden x pfx (view s)"
      using refs_key_not_tombstone(1) [OF r(2)] by (auto intro!: hidden_cong)
    have cand: "\<not> is_bundle_candidate x (baseline_tombstone_key (prefix_str pfx) uuid)"
      using candidate_suffix [of x "baseline_tombstone_key (prefix_str pfx) uuid"]
      by (auto simp: baseline_tombstone_key_def join_base suffix_def dest!: arg_cong [of _ _ last])
    have "wp (defer_prior_bundle_via_tombstone x st pfx r (bundle_key pfx r sha) new now uuid) Q E s"
    proof (rule calm_defer_prior [OF c sha new False r(1) fresh js [OF Some]], goal_cases)
      case (2 b m t)
      have "bundles_in x pfx r h (view t) = bundles_in x pfx r h (view s)" for h
        using cand fresh by (auto simp: 2(2) bundles_in_def)
      then have "visible x pfx r (view t) = {bundle_key pfx r new} - hidden x pfx (view s)"
        unfolding visible_def 2(3) bundles_in_hide using pre ne Some by (auto simp: flat_pre_def)
      with 2 show ?case by (intro post) auto
    next
      case (3 t)
      then have "visible x pfx r (view t) = {bundle_key pfx r new} - hidden x pfx (view s)"
        unfolding visible_def using pre ne Some hid_gone by (auto simp: flat_pre_def bundles_in_remove)
      with 3 show ?case using ne Some by (intro post) (auto simp: flat_pre_def)
    qed
    with ne show ?thesis by (simp add: Some flat_pre_def)
  qed
qed

end

context calm_store
begin

lemma calm_commit_push:
  fixes state :: push_ready_state
  defines "r \<equiv> pr_remote_ref state" and "new \<equiv> pr_local_sha state"
  assumes c: "calm s" and hx: "hex_law x" and r: "ref_name_ok x r" "prefix ''refs/'' r"
    and new: "is_valid_bundle_stem new" and body: "pr_bundle state = Inr body"
    and zip_ok: "\<And>a. pr_zip_artifacts state = Some a \<Longrightarrow> \<exists>b. za_archive a = Inr b"
    and old: "\<And>sha. old = Some sha \<Longrightarrow> is_valid_bundle_stem sha"
    and pre: "visible x pfx r (view s) = set_option (flat_pre pfx r old)"
    and fresh: "view s (baseline_tombstone_key (prefix_str pfx) uuid) = None"
    and js: "\<And>sha at. old = Some sha \<Longrightarrow> rfc3339_format x now = Some at \<Longrightarrow>
      json_ok x (json_of_baseline (baseline_tombstone_of at r sha))"
    and post: "\<And>t. calm t \<Longrightarrow> pushed x pfx r new body (view s) (view t) \<Longrightarrow> Q (PushOk r) t"
  shows "wp (commit_push x st pfx kind state (flat_pre pfx r old) now uuid) Q E s"
  unfolding commit_push_def Let_def r_def [symmetric] new_def [symmetric] body
proof (rule wp_and_then, rule wp_map_err, rule calm_wp_put_path [OF c], rule wp_and_then, rule wp_map_err,
    rule calm_put_if_absent_neutral, assumption, rule singletonI, rule wp_and_then, rule wp_map_err,
    rule calm_put_if_absent_neutral, assumption, rule singletonI, goal_cases)
  case (1 s1 b s2 b' s3)
  let ?dest = "bundle_key pfx r new" and ?H = "head_key pfx" and ?F = "join pfx ''FORMAT''"
  let ?tk = "baseline_tombstone_key (prefix_str pfx) uuid" and ?N = "Collect (neutral x pfx)"
  from 1(2) obtain m where s1: "view s1 = (view s)(?dest \<mapsto> (body, m))" by (auto simp: wrote_def)
  have dest: "is_bundle_candidate x ?dest" "prefix (ref_listing_prefix pfx r) ?dest"
    "\<not> is_baseline_tombstone_key ?dest (prefix_str pfx)"
    using hx new refs_key_not_tombstone(1) [OF r(2)] by simp_all
  have h1: "hidden x pfx (view s1) = hidden x pfx (view s)"
    unfolding s1 using dest(3) by (auto intro!: hidden_cong)
  have "frame view ?N s1 s2" "frame view ?N s2 s3" using 1(4,7) by (auto elim!: frame_mono)
  then have fr: "frame view ?N s1 s3" by (rule transpD [OF frame_trans])
  note nf = neutral_frame [OF fr]
  have h3: "hidden x pfx (view s3) = hidden x pfx (view s)" using nf(1) h1 by simp
  have HF: "?H \<noteq> ?F" by (simp add: head_key_def join_base)
  with 1(4,5,7,8) have heads: "view s3 ?H \<noteq> None" "view s3 ?F \<noteq> None" by (auto simp: frame_def)
  have dest3: "view s3 ?dest = Some (body, m)" using nf(3) [OF dest(1)] s1 by simp
  have fresh3: "view s3 ?tk = None"
    using nf(4) [of ?tk] s1 fresh dest(3) by (metis baseline_key_is_tombstone fun_upd_other)
  have pre3: "bundles_in x pfx r (hidden x pfx (view s3)) (view s3) =
      set_option (flat_pre pfx r old) \<union> ({?dest} - hidden x pfx (view s3))"
    using pre by (simp add: nf(2) h3 s1 bundles_in_put [OF dest(1,2)] visible_def)
  have notlost: "old = Some new \<Longrightarrow> ?dest \<notin> hidden x pfx (view s3)"
    using pre by (auto simp: h3 flat_pre_def visible_def bundles_in_def)
  show ?case
  proof (rule wp_and_then, rule calm_replace_bundle [OF 1(6) hx r new old pre3 notlost fresh3 js], goal_cases)
    case (5 s4)
    have neq: "?dest \<noteq> ?tk" "?H \<noteq> ?tk" "?F \<noteq> ?tk"
      using dest(3) neutral_keys(1,2) [of x pfx] baseline_key_is_tombstone unfolding neutral_def by metis+
    have nb: "bundle_key pfx r sha \<noteq> ?H" "bundle_key pfx r sha \<noteq> ?F" if "old = Some sha" for sha
      using candidate_bundle_key [OF hx old [OF that], of pfx r] neutral_keys(1,2) [of x pfx]
      unfolding neutral_def by metis+
    have keep: "view s4 ?dest = view s3 ?dest" "view s4 ?H = view s3 ?H" "view s4 ?F = view s3 ?F"
      using 5(3) [of ?dest] 5(3) [of ?H] 5(3) [of ?F] neq nb
      by (auto simp: flat_pre_def)
    have done4: "pushed x pfx r new body (view s) (view s4)"
      using keep heads dest3 5(2) by (auto simp: pushed_def h3)
    show ?case
    proof (rule wp_and_then, rule wp_option, goal_cases)
      case 1
      then show ?case using 5(1) done4 by (auto intro!: wp_ok post)
    next
      case (2 a)
      from zip_ok [OF 2] obtain ab where "za_archive a = Inr ab" by blast
      then show ?case
      proof (rule calm_upload_zip [OF 5(1) singletonI, rotated], goal_cases)
        case (1 s5)
        then have fr5: "frame view ?N s4 s5" using r(2) by (auto elim!: frame_mono)
        note n5 = neutral_frame [OF fr5]
        have "?H \<noteq> archive_key pfx r" "?F \<noteq> archive_key pfx r"
          using r(2) by (auto simp: head_key_def builder_base ref_key_defs prefix_def)
        with 1(2) done4 have "view s5 ?H \<noteq> None" "view s5 ?F \<noteq> None"
          by (auto simp: pushed_def frame_def)
        with done4 have "pushed x pfx r new body (view s) (view s5)"
          using n5(3) [OF dest(1)] n5(1,2) by (simp add: pushed_def visible_def)
        with 1(1) show ?case by (auto intro!: wp_ok post)
      qed
    qed
  qed
qed

end

subsection \<open>A whole push on a quiet store\<close>

text \<open>
  The conditions under which a push of a commit goes through: the ref's path is a fully
  qualified name, the probe of the local repository succeeds, the ref shows at most one
  bundle, of the sha \<open>old\<close>, and a forced rewind does not meet a protection marker.
\<close>

record push_case =
  pk_old :: "string option"
  pk_local :: local_git
  pk_body :: string

definition push_ready ::
    "ext \<Rightarrow> string option \<Rightarrow> local_env \<Rightarrow> push_config \<Rightarrow> push_spec \<Rightarrow> bucket \<Rightarrow> push_case \<Rightarrow> bool" where
  "push_ready x pfx env config spec v c \<longleftrightarrow>
     (let r = ps_remote_ref spec; lg = pk_local c; old = pk_old c in
      utf8_prefix pfx \<and> utf8_valid r \<and> ref_name_ok x r \<and> prefix ''refs/'' r \<and>
      ps_local_spec spec \<noteq> [] \<and>
      (\<forall>sha. old = Some sha \<longrightarrow> is_valid_bundle_stem sha) \<and>
      visible x pfx r v = set_option (flat_pre pfx r old) \<and>
      local_git_work env (ps_local_spec spec) old (ps_force spec) (pc_zip config) = Inr (Inr lg) \<and>
      is_valid_bundle_stem (lg_local_sha lg) \<and>
      le_push_tempdir env = None \<and>
      le_bundle_at env (lg_local_sha lg) (ps_local_spec spec) = Inr (Inr (pk_body c)) \<and>
      (\<forall>a. lg_zip_artifacts lg = Some a \<longrightarrow> (\<exists>b. za_archive a = Inr b)) \<and>
      (lg_pre_existing_was_ancestor lg \<or> v (protected_marker_key pfx r) = None))"

context calm_store
begin

lemma calm_prepare_push:
  assumes c: "calm s" and hx: "hex_law x" and ready: "push_ready x pfx env config spec (view s) pc"
    and post: "\<And>hid t. calm t \<Longrightarrow> view t = view s \<Longrightarrow> set hid = hidden x pfx (view s) \<Longrightarrow>
      Q (Ready (ready_state config spec hid (flat_pre pfx (ps_remote_ref spec) (pk_old pc))
                  (pk_local pc) (Inr (pk_body pc)))) t"
  shows "wp (prepare_push x st pfx env config spec) Q E s"
proof -
  let ?r = "ps_remote_ref spec" and ?pre = "flat_pre pfx (ps_remote_ref spec) (pk_old pc)"
  from ready have u: "utf8_prefix pfx" "utf8_valid ?r" and ne: "ps_local_spec spec \<noteq> []"
    and vis: "visible x pfx ?r (view s) = set_option ?pre"
    and lw: "local_git_work env (ps_local_spec spec) (pk_old pc) (ps_force spec) (pc_zip config)
        = Inr (Inr (pk_local pc))"
    and env: "le_push_tempdir env = None"
      "le_bundle_at env (lg_local_sha (pk_local pc)) (ps_local_spec spec) = Inr (Inr (pk_body pc))"
    and old: "\<And>sha. pk_old pc = Some sha \<Longrightarrow> is_valid_bundle_stem sha"
    by (auto simp: push_ready_def Let_def)
  have sha: "(case ?pre of None \<Rightarrow> Some None
      | Some key \<Rightarrow> map_option Some (parse_remote_sha_from_key x key)) = Some (pk_old pc)"
    using old by (cases "pk_old pc")
      (auto simp: flat_pre_def parse_sha_iff_stem [OF hx] parse_stem_bundle_key)
  show ?thesis
    unfolding prepare_push_def Let_def if_not_P [OF ne] first_key_def [symmetric]
  proof (rule wp_and_then, rule wp_map_err, rule calm_tombstoned_bundle_keys [OF c u(1)],
      rule wp_and_then, rule wp_map_err, rule calm_bundles_for_ref [OF _ u], assumption, goal_cases)
    case (1 hid t ms w)
    then have ks: "set (map om_key ms) = set_option ?pre" using vis by (simp add: visible_def)
    then have "\<not> length ms > 1" using many_keys [OF 1(6)] by blast
    moreover from first_key_of_set [OF 1(6) this] ks have "first_key ms = ?pre"
      by (cases "first_key ms"; cases ?pre) auto
    moreover have "Q (Ready (ready_state config spec hid ?pre (pk_local pc) (Inr (pk_body pc)))) w"
      by (rule post) (use 1 in auto)
    ultimately show ?case by (simp add: sha lw env ready_state_def wp_ok)
  qed
qed

lemma calm_release_around:
  assumes "wp work (\<lambda>out t. calm t \<and> P out t) (\<lambda>_ _. False) s"
    and "\<And>out t u. P out t \<Longrightarrow> calm u \<Longrightarrow> view u = (view t)(g := None) \<Longrightarrow> Q out u"
  shows "wp (release_around st g r l work) Q E s"
  unfolding release_around_def
  by (rule wp_match, rule wp_mono [OF assms(1)])
    (auto intro!: wp_match calm_release_lock wp_ok intro: assms(2))

text \<open>
  The push commits: it reports success, the lock is gone, the bundle is stored, and the ref
  shows exactly the new bundle, unless a tombstone already hid that bundle's key.
\<close>

lemma push_one_commits:
  assumes c: "calm s" and hx: "hex_law x" and ready: "push_ready x pfx env config spec (view s) pc"
    and free: "\<not> lock_live (view s) (lock_key pfx (ps_remote_ref spec)) (pc_ttl config) now"
    and fresh: "view s (baseline_tombstone_key (prefix_str pfx) uuid) = None"
    and js: "\<And>sha at. pk_old pc = Some sha \<Longrightarrow> rfc3339_format x tomb_now = Some at \<Longrightarrow>
      json_ok x (json_of_baseline (baseline_tombstone_of at (ps_remote_ref spec) sha))"
  shows "wp (push_one x st pfx env config now tomb_now uuid spec)
    (\<lambda>out t. out = PushOk (ps_remote_ref spec) \<and> calm t \<and>
       view t (lock_key pfx (ps_remote_ref spec)) = None \<and>
       pushed x pfx (ps_remote_ref spec) (lg_local_sha (pk_local pc)) (pk_body pc) (view s) (view t))
    (\<lambda>_ _. False) s"
  unfolding push_one_def
proof (rule wp_and_then, rule calm_prepare_push [OF c hx ready], goal_cases)
  case (1 hid t)
  let ?r = "ps_remote_ref spec" and ?lg = "pk_local pc" and ?N = "Collect (neutral x pfx)"
  let ?l = "lock_key pfx ?r" and ?new = "lg_local_sha ?lg"
  let ?state = "ready_state config spec hid (flat_pre pfx ?r (pk_old pc)) ?lg (Inr (pk_body pc))"
  from ready have u: "utf8_prefix pfx" "utf8_valid ?r" and r: "ref_name_ok x ?r" "prefix ''refs/'' ?r"
    and new: "is_valid_bundle_stem ?new"
    and old: "\<And>sha. pk_old pc = Some sha \<Longrightarrow> is_valid_bundle_stem sha"
    and vis: "visible x pfx ?r (view s) = set_option (flat_pre pfx ?r (pk_old pc))"
    and zip_ok: "\<And>a. lg_zip_artifacts ?lg = Some a \<Longrightarrow> \<exists>b. za_archive a = Inr b"
    and prot: "lg_pre_existing_was_ancestor ?lg \<or> view s (protected_marker_key pfx ?r) = None"
    by (auto simp: push_ready_def Let_def)
  show ?case
    unfolding prepare_outcome.case lock_and_work_def Let_def work_ref.simps ready_state_sel
  proof (rule wp_and_then, rule wp_map_err, rule calm_acquire_lock [OF 1(1)], goal_cases)
    case (1 m q)
    have "frame view {?l} s q" using 1(3) \<open>view t = view s\<close> by (simp add: frame_def)
    then have fr: "frame view ?N s q" using r(2) by (auto elim!: frame_mono)
    note nq = neutral_frame [OF fr]
    have vq: "visible x pfx ?r (view q) = set_option (flat_pre pfx ?r (pk_old pc))"
      using vis by (simp add: visible_def nq(1,2))
    have fq: "view q (baseline_tombstone_key (prefix_str pfx) uuid) = None"
      using nq(4) [OF baseline_key_is_tombstone] fresh by simp
    have mq: "view q (protected_marker_key pfx ?r) = view s (protected_marker_key pfx ?r)"
      using \<open>frame view {?l} s q\<close> by (simp add: frame_def)
    have work: "wp (perform_push_under_lock x st pfx (pc_kind config) ?state tomb_now uuid)
        (\<lambda>out w. calm w \<and> out = PushOk ?r \<and> pushed x pfx ?r ?new (pk_body pc) (view s) (view w))
        (\<lambda>_ _. False) q"
    proof -
      have commit: "wp (and_then (map_err PushStore (bundles_for_ref x st pfx ?r (Some hid)))
          (\<lambda>current. if length current > 1 then ok (PushError ?r (wire_quote
            (''multiple bundles exist for the same ref on server. '' @
             ''Run git-remote-object-store doctor to fix.'')))
           else if flat_pre pfx ?r (pk_old pc) \<noteq> first_key current then
             ok (PushError ?r (wire_quote ''stale remote. Please fetch and retry.''))
           else commit_push x st pfx (pc_kind config) ?state (first_key current) tomb_now uuid))
          (\<lambda>out w. calm w \<and> out = PushOk ?r \<and> pushed x pfx ?r ?new (pk_body pc) (view s) (view w))
          (\<lambda>_ _. False) p" if p: "calm p" "view p = view q" for p
      proof (rule wp_and_then, rule wp_map_err, rule calm_bundles_for_ref [OF p(1) u], goal_cases)
        case (1 ms w)
        have "set hid = hidden x pfx (view q)" using \<open>set hid = hidden x pfx (view s)\<close> nq(1) by simp
        with 1 p vq have ks: "set (map om_key ms) = set_option (flat_pre pfx ?r (pk_old pc))"
          by (simp add: visible_def)
        then have "\<not> length ms > 1" using many_keys [OF 1(3)] by blast
        moreover from first_key_of_set [OF 1(3) this] ks have fk: "first_key ms = flat_pre pfx ?r (pk_old pc)"
          by (cases "first_key ms"; cases "flat_pre pfx ?r (pk_old pc)") auto
        moreover have "wp (commit_push x st pfx (pc_kind config) ?state (flat_pre pfx ?r (pk_old pc)) tomb_now uuid)
            (\<lambda>out w. calm w \<and> out = PushOk ?r \<and> pushed x pfx ?r ?new (pk_body pc) (view s) (view w))
            (\<lambda>_ _. False) w"
          by (rule calm_commit_push [where state = ?state, unfolded ready_state_sel, OF 1(1) hx,
              where body = "pk_body pc"])
            (use 1 p r new old vq fq zip_ok js nq(1) in \<open>auto simp: pushed_def\<close>)
        ultimately show ?case by simp
      qed
      show ?thesis
        unfolding perform_push_under_lock_def Let_def ready_state_sel first_key_def [symmetric]
      proof (rule wp_and_then, rule wp_if, goal_cases)
        case 1
        then have "view q (protected_marker_key pfx ?r) = None" using prot mq by simp
        then show ?case
          by (intro wp_map_err calm_is_protected [OF \<open>calm q\<close>]) (use commit in simp)
      next
        case 2
        show ?case by (rule wp_ok) (use commit [OF \<open>calm q\<close> refl] in simp)
      qed
    qed
    show ?case
      unfolding option.case under_lock_work.case
    proof (rule calm_release_around [OF work], goal_cases)
      case (1 out w w')
      then have "frame view ?N w w'" using r(2) by (auto simp: frame_def neutral_keys)
      note nw = neutral_frame [OF this]
      have "?l \<noteq> head_key pfx" "?l \<noteq> join pfx ''FORMAT''"
        using r(2) by (auto simp: head_key_def builder_base ref_key_defs prefix_def)
      with 1 show ?case
        using nw(3) [OF candidate_bundle_key [OF hx new], of pfx ?r] nw(1,2)
        by (auto simp: pushed_def visible_def)
    qed
  next
    case (2 q)
    with free \<open>view t = view s\<close> show ?case by simp
  qed
qed

end

subsection \<open>Deleting a ref\<close>

context calm_store
begin

lemma calm_delete_all:
  assumes "calm s" "\<And>t. calm t \<Longrightarrow> view t = without (om_key ` set es) (view s) \<Longrightarrow> Q () t"
  shows "wp (fold_io (\<lambda>_ entry. map_err PushStore (delete_idempotent st (om_key entry))) () es) Q E s"
  using assms
proof (induction es arbitrary: s)
  case Nil
  then show ?case by (auto intro!: wp_ok simp: without_def)
next
  case (Cons e es)
  show ?case
    unfolding fold_io.simps
  proof (rule wp_and_then, rule wp_map_err, rule calm_delete_idempotent [OF Cons.prems(1)], goal_cases)
    case (1 t)
    show ?case
      by (rule Cons.IH [OF 1(1)], rule Cons.prems(2), assumption) (auto simp: 1(2) without_def)
  qed
qed

lemma calm_verify_no_orphan:
  assumes "calm s" "\<And>t. calm t \<Longrightarrow> view t = view s \<Longrightarrow> Q () t"
  shows "wp (verify_no_orphan_protected_after_delete st pfx r) Q E s"
  unfolding verify_no_orphan_protected_after_delete_def
  by (rule wp_match, rule calm_wp_head [OF assms(1)]) (auto intro!: wp_ok assms(2))

text \<open>The ref, with everything below its path, is gone when it shows exactly one bundle.\<close>

lemma delete_ref_effect:
  assumes c: "calm s" and u: "utf8_prefix pfx" "utf8_valid r"
    and one: "{k. prefix (ref_listing_prefix pfx r) k \<and> k \<noteq> l \<and> view s k \<noteq> None \<and> is_bundle_candidate x k} = {b}"
    and free: "\<And>d. prefix (ref_listing_prefix pfx r) (d @ CHR ''/'' # PROTECTED_MARKER_SEGMENT) \<Longrightarrow>
      view s (d @ CHR ''/'' # PROTECTED_MARKER_SEGMENT) = None"
    and post: "\<And>t. calm t \<Longrightarrow>
      view t = without {k. prefix (ref_listing_prefix pfx r) k \<and> k \<noteq> l} (view s) \<Longrightarrow> Q (PushOk r) t"
  shows "wp (delete_remote_ref_under_lock x st pfx r l) Q E s"
  unfolding delete_remote_ref_under_lock_def Let_def
proof (rule wp_and_then, rule wp_map_err, rule calm_wp_list [OF c], goal_cases)
  case (1 ms t)
  with u have l: "lists (ref_listing_prefix pfx r) ms (view s)" by simp
  then have ks: "om_key ` set ms = {k. prefix (ref_listing_prefix pfx r) k \<and> view s k \<noteq> None}"
    and d: "distinct (map om_key ms)" by (auto simp: lists_def)
  have np: "\<not> entries_have_protected_marker ms"
  proof
    assume "entries_have_protected_marker ms"
    then obtain e d where e: "e \<in> set ms" "om_key e = d @ CHR ''/'' # PROTECTED_MARKER_SEGMENT"
      unfolding entries_protected_iff by blast
    then have "om_key e \<in> om_key ` set ms" by blast
    with e(2) free [of d] show False unfolding ks by simp
  qed
  let ?del = "filter (\<lambda>e. om_key e \<noteq> l) ms"
  let ?cand = "filter (\<lambda>e. is_bundle_candidate x (om_key e)) ?del"
  have "set (map om_key ?cand) = {k \<in> om_key ` set ms. k \<noteq> l \<and> is_bundle_candidate x k}" by auto
  also have "\<dots> = {b}" unfolding ks using one by blast
  finally have "card (set (map om_key ?cand)) = 1" by simp
  then have len: "length ?cand = 1"
    using distinct_card [OF distinct_map_filter [OF distinct_map_filter [OF d]]] by simp
  have "om_key ` set ?del = {k \<in> om_key ` set ms. k \<noteq> l}" by auto
  then have del: "without (om_key ` set ?del) (view t) =
      without {k. prefix (ref_listing_prefix pfx r) k \<and> k \<noteq> l} (view s)"
    unfolding ks by (auto simp: without_def \<open>view t = view s\<close> fun_eq_iff)
  have "wp (and_then (fold_io (\<lambda>_ entry. map_err PushStore (delete_idempotent st (om_key entry))) () ?del)
      (\<lambda>_. and_then (verify_no_orphan_protected_after_delete st pfx r) (\<lambda>_. ok (PushOk r)))) Q E t"
    by (rule wp_and_then, rule calm_delete_all [OF 1(1)], rule wp_and_then, rule calm_verify_no_orphan)
      (use del in \<open>auto intro!: wp_ok post\<close>)
  with np len show ?case by simp
qed

lemma push_one_deletes:
  assumes c: "calm s" and u: "utf8_prefix pfx" "utf8_valid (ps_remote_ref spec)"
    and del: "ps_local_spec spec = []"
    and lock: "\<not> lock_live (view s) (lock_key pfx (ps_remote_ref spec)) (pc_ttl config) now"
    and one: "{k. prefix (ref_listing_prefix pfx (ps_remote_ref spec)) k \<and> view s k \<noteq> None \<and>
      is_bundle_candidate x k} = {b}"
    and free: "\<And>d. prefix (ref_listing_prefix pfx (ps_remote_ref spec)) (d @ CHR ''/'' # PROTECTED_MARKER_SEGMENT) \<Longrightarrow>
      view s (d @ CHR ''/'' # PROTECTED_MARKER_SEGMENT) = None"
  shows "wp (push_one x st pfx env config now tomb_now uuid spec)
    (\<lambda>out t. out = PushOk (ps_remote_ref spec) \<and> calm t \<and>
       view t = without {k. prefix (ref_listing_prefix pfx (ps_remote_ref spec)) k} (view s))
    (\<lambda>_ _. False) s"
proof -
  let ?r = "ps_remote_ref spec"
  let ?l = "lock_key pfx ?r" and ?p = "ref_listing_prefix pfx ?r"
  have prep: "prepare_push x st pfx env config spec = ok (DeleteRef ?r)"
    by (simp add: prepare_push_def del)
  have nc: "\<not> is_bundle_candidate x ?l" by simp
  have nl: "?l \<noteq> d @ CHR ''/'' # PROTECTED_MARKER_SEGMENT" for d
    by (auto simp: lock_key_def PROTECTED_MARKER_SEGMENT_def dest!: arg_cong [of _ _ last])
  show ?thesis
    unfolding push_one_def prep
  proof (rule wp_and_then, rule wp_ok, unfold prepare_outcome.case lock_and_work_def Let_def work_ref.simps,
      rule wp_and_then, rule wp_map_err, rule calm_acquire_lock [OF c], goal_cases)
    case (1 m q)
    have q: "view q k = view s k" if "k \<noteq> ?l" for k using 1(3) that by simp
    have "{k. prefix ?p k \<and> k \<noteq> ?l \<and> view q k \<noteq> None \<and> is_bundle_candidate x k} = {b}"
    proof -
      have iff: "(prefix ?p k \<and> k \<noteq> ?l \<and> view q k \<noteq> None \<and> is_bundle_candidate x k) \<longleftrightarrow>
          (prefix ?p k \<and> view s k \<noteq> None \<and> is_bundle_candidate x k)" for k
        using q [of k] nc by (cases "k = ?l") auto
      show ?thesis unfolding iff by (rule one)
    qed
    moreover have "view q (d @ CHR ''/'' # PROTECTED_MARKER_SEGMENT) = None"
      if "prefix ?p (d @ CHR ''/'' # PROTECTED_MARKER_SEGMENT)" for d
      using free [OF that] q nl by metis
    ultimately have work: "wp (delete_remote_ref_under_lock x st pfx ?r ?l)
        (\<lambda>out t. calm t \<and> out = PushOk ?r \<and> view t = without {k. prefix ?p k \<and> k \<noteq> ?l} (view q))
        (\<lambda>_ _. False) q"
      by (rule delete_ref_effect [OF 1(1) u]) simp_all
    show ?case
      unfolding option.case under_lock_work.case
    proof (rule calm_release_around [OF work], goal_cases)
      case (1 out t w)
      have "view w k = without {k. prefix ?p k} (view s) k" for k
        using 1 q [of k] by (cases "k = ?l") (auto simp: without_def)
      with 1 show ?case by auto
    qed
  next
    case (2 q)
    with lock show ?case by simp
  qed
qed

end

context store_contract
begin

text \<open>A live lock stops the push before it writes anything.\<close>

lemma push_one_contended:
  assumes u: "utf8_prefix pfx" "utf8_valid (ps_remote_ref spec)"
    and live: "lock_live (view s) (lock_key pfx (ps_remote_ref spec)) (pc_ttl config) now"
  shows "wp (push_one x st pfx env config now tomb_now uuid spec)
    (\<lambda>out t. view t = view s \<and> (\<exists>msg. out = PushError (ps_remote_ref spec) msg))
    (\<lambda>_ t. view t = view s) s"
proof -
  have under: "wp (lock_and_work x st pfx config now tomb_now uuid work)
      (\<lambda>out t. view t = view s \<and> (\<exists>msg. out = PushError (ps_remote_ref spec) msg))
      (\<lambda>_ t. view t = view s) t"
    if "view t = view s" "work_ref work = ps_remote_ref spec" for t work
    unfolding lock_and_work_def Let_def that(2)
    by (rule wp_and_then, rule wp_map_err, rule wp_mono [OF acquire_respects_live_lock])
      (use live that(1) in \<open>auto intro!: wp_ok\<close>)
  show ?thesis
    unfolding push_one_def
    by (rule wp_and_then, rule prepare_push_cases [OF u]) (auto intro!: under wp_ok)
qed

end

subsection \<open>A batch\<close>

text \<open>The errors \<open>push_one\<close> can return are the ones a batch turns into a per-ref outcome.\<close>

fun per_ref_error :: "push_error \<Rightarrow> bool" where
  "per_ref_error (PushStore _) = True"
| "per_ref_error (PushGit _) = True"
| "per_ref_error (PushIo _) = True"
| "per_ref_error _ = False"

lemma yields_store: "yields (\<lambda>_. True) per_ref_error (map_err PushStore m)"
  by (rule yields_map_err, rule yields_any) simp_all

lemma yields_prepare:
  "yields (\<lambda>p. case p of Ready state \<Rightarrow> pr_remote_ref state = ps_remote_ref spec
                 | DeleteRef r \<Rightarrow> r = ps_remote_ref spec
                 | Done out \<Rightarrow> outcome_ref out = ps_remote_ref spec)
     per_ref_error (prepare_push x st pfx env config spec)"
  unfolding prepare_push_def Let_def
  by (rule yields_if, rule yields_ok, simp, rule yields_and_then [OF yields_store],
      rule yields_and_then [OF yields_store])
    (auto intro!: yields_ok yields_fail split: sum.split option.split git_probe_error.split)

lemma yields_best_effort:
  "yields P per_ref_error (f ()) \<Longrightarrow>
     yields P per_ref_error (and_then (match_io m (\<lambda>_. ok ()) (\<lambda>_. ok ())) f)"
  by (rule yields_and_then [where A = "\<lambda>_. True"], rule yields_match [where A = "\<lambda>_. True" and B = "\<lambda>_. True"])
    (auto intro: yields_ok yields_any)

lemma yields_delete_prior: "yields (\<lambda>_. True) F (delete_prior_bundle_best_effort st k)"
  unfolding delete_prior_bundle_best_effort_def
  by (rule yields_match [where A = "\<lambda>_. True" and B = "\<lambda>_. True"]) (auto intro: yields_ok yields_any)

lemma yields_defer_prior: "yields (\<lambda>_. True) F (defer_prior_bundle_via_tombstone x st pfx r k sha now uuid)"
proof -
  have w: "yields (\<lambda>_. True) F (write_baseline_tombstone_best_effort x st pfx r a b now uuid)" for a b
    unfolding write_baseline_tombstone_best_effort_def
    by (rule yields_match [where A = "\<lambda>_. True" and B = "\<lambda>_. True"]) (auto intro: yields_ok yields_any)
  show ?thesis
    unfolding defer_prior_bundle_via_tombstone_def
    by (auto intro!: yields_delete_prior yields_and_then [OF w] yields_if yields_ok
        split: option.split sum.split)
qed

lemma yields_commit: "yields (\<lambda>out. out = PushOk (pr_remote_ref state)) per_ref_error
    (commit_push x st pfx kind state current now uuid)"
proof -
  have z: "yields (\<lambda>_. True) F (upload_zip_artifact_best_effort st k f opts)" for F k f opts
    unfolding upload_zip_artifact_best_effort_def
    by (rule yields_match [where A = "\<lambda>_. True" and B = "\<lambda>_. True"]) (auto intro: yields_ok yields_any)
  show ?thesis
    unfolding commit_push_def Let_def
    by (intro yields_and_then [OF yields_store] yields_and_then [where A = "\<lambda>_. True"] yields_option
        yields_if yields_ok yields_defer_prior z) auto
qed

lemma yields_perform: "yields (\<lambda>out. outcome_ref out = pr_remote_ref state) per_ref_error
    (perform_push_under_lock x st pfx kind state now uuid)"
  unfolding perform_push_under_lock_def Let_def
  by (rule yields_and_then [where A = "\<lambda>_. True"], intro yields_if yields_store yields_ok TrueI,
      intro yields_if yields_ok yields_and_then [OF yields_store] yields_mono [OF yields_commit]) auto

lemma yields_delete_ref: "yields (\<lambda>out. outcome_ref out = r) per_ref_error
    (delete_remote_ref_under_lock x st pfx r l)"
proof -
  have v: "yields (\<lambda>_. True) per_ref_error (verify_no_orphan_protected_after_delete st pfx r)"
    unfolding verify_no_orphan_protected_after_delete_def
    by (rule yields_match [where A = "\<lambda>_. True" and B = "\<lambda>_. True"]) (auto intro: yields_ok yields_any)
  show ?thesis
    unfolding delete_remote_ref_under_lock_def Let_def
    by (rule yields_and_then [OF yields_store])
      (intro yields_if yields_ok yields_and_then [OF yields_fold_io [OF yields_store]]
        yields_and_then [OF v], auto)
qed

lemma yields_release_around:
  assumes "yields (\<lambda>out. outcome_ref out = r) F work"
  shows "yields (\<lambda>out. outcome_ref out = r) F (release_around st g r l work)"
  unfolding release_around_def
  by (rule yields_match [OF assms];
      rule yields_match [where A = "\<lambda>_. True" and B = "\<lambda>_. True", OF yields_any])
    (auto intro!: yields_ok yields_fail split: push_outcome.split)

lemma yields_push_one: "yields (\<lambda>out. outcome_ref out = ps_remote_ref spec) per_ref_error
    (push_one x st pfx env config now tomb_now uuid spec)"
proof -
  have under: "yields (\<lambda>out. outcome_ref out = work_ref work) per_ref_error
      (lock_and_work x st pfx config now tomb_now uuid work)" for work
    unfolding lock_and_work_def Let_def
    by (rule yields_and_then [OF yields_store], rule yields_option, rule yields_ok, simp,
        rule yields_release_around, cases work)
      (simp_all add: yields_perform yields_delete_ref)
  show ?thesis
    unfolding push_one_def
    by (rule yields_and_then [OF yields_prepare])
      (auto intro!: yields_ok yields_mono [OF under] split: prepare_outcome.splits)
qed

text \<open>
  A batch of well-formed commands answers every command, in order, whatever the store and
  the local repository do.
\<close>

lemma push_batch_answers:
  assumes "\<And>c. c \<in> set cmds \<Longrightarrow> parse_push_args x (pi_cmd c) = Inr (spec_of c)"
  shows "\<exists>outs t. push_batch x st pfx env_ttl kind with_zip engine cmds s = (Inr outs, t) \<and>
    map outcome_ref outs = map (\<lambda>c. ps_remote_ref (spec_of c)) cmds"
proof -
  have "wp (push_batch x st pfx env_ttl kind with_zip engine cmds)
      (\<lambda>outs _. map outcome_ref outs = map (\<lambda>c. ps_remote_ref (spec_of c)) cmds) (\<lambda>_ _. False) s"
    unfolding push_batch_def Let_def
  proof (intro wp_if wp_ok, simp, rule wp_fold_io [where
        I = "\<lambda>outs rest _. \<exists>seen. cmds = seen @ rest \<and>
          map outcome_ref outs = map (\<lambda>c. ps_remote_ref (spec_of c)) seen"], goal_cases)
    case (1 outs c rest t)
    then obtain seen where s: "cmds = seen @ c # rest"
      "map outcome_ref outs = map (\<lambda>c. ps_remote_ref (spec_of c)) seen" by blast
    then have p: "parse_push_args x (pi_cmd c) = Inr (spec_of c)" by (intro assms) simp
    have done1: "\<exists>seen. cmds = seen @ rest \<and>
        map outcome_ref outs @ [ps_remote_ref (spec_of c)] = map (\<lambda>c. ps_remote_ref (spec_of c)) seen"
      using s by (intro exI [of _ "seen @ [c]"]) simp
    show ?case
      by (rule wp_and_then, rule wp_of_result)
        (auto simp: p intro!: wp_and_then wp_match wp_mono [OF yields_wp [OF yields_push_one]]
          wp_ok wp_fail done1 elim!: per_ref_error.elims)
  qed auto
  then show ?thesis by (auto simp: wp_def split: prod.splits sum.splits)
qed

end
