(* ===== verification/Bundle_Push_Properties.thy ===== *)
theory Bundle_Push_Properties
  imports Bundle_Push_Proofs
begin

text \<open>
  The properties of the bundle engine's push, on the mock store, with the example worlds
  their witnesses run in: a repository of two commits \<open>b\<close> and \<open>a\<close>, where \<open>a\<close> is a child of
  \<open>b\<close> and \<open>d\<close> is unrelated, and buckets that hold a bundle of \<open>main\<close>.
\<close>

subsection \<open>A repository and some pushes\<close>

definition demo_main :: string where
  "demo_main = ''refs/heads/main''"

lemma demo_main_simps [simp]:
  "prefix ''refs/'' demo_main" "utf8_valid demo_main" "demo_main \<noteq> []"
  by (simp_all add: demo_main_def)

definition demo_repo :: git_repo where
  "demo_repo =
     \<lparr>rp_rev_parse = (\<lambda>spec. if spec = ''main'' then Inr (demo_sha CHR ''a'')
        else if spec = ''old'' then Inr (demo_sha CHR ''b'') else Inl EmptySpec),
      rp_find_object = (\<lambda>_. Inr (CommitObject [])),
      rp_merge_base = (\<lambda>p q. if p = demo_sha CHR ''b'' \<and> q = demo_sha CHR ''a'' then Inr (Some p)
        else if p = demo_sha CHR ''a'' \<and> q = demo_sha CHR ''b'' then Inr (Some q) else Inr None),
      rp_contains = (\<lambda>_. True), rp_peel_to_commit = (\<lambda>_. Inr [])\<rparr>"

definition demo_env :: local_env where
  "demo_env =
     \<lparr>le_repo = Inr demo_repo, le_archive_tempdir = None, le_archive = (\<lambda>_. Inr (Inr ''ZIP'')),
      le_commit_message = Inr ''message'', le_push_tempdir = None,
      le_bundle_at = (\<lambda>sha _. Inr (Inr (''BUNDLE '' @ sha)))\<rparr>"

definition demo_config :: push_config where
  "demo_config = \<lparr>pc_zip = False, pc_engine = BundleEngine, pc_ttl = 60, pc_kind = S3\<rparr>"

definition demo_push :: "bool \<Rightarrow> string \<Rightarrow> push_spec" where
  "demo_push force spec = \<lparr>ps_force = force, ps_local_spec = spec, ps_remote_ref = demo_main\<rparr>"

lemma demo_push_sel [simp]:
  "ps_force (demo_push f l) = f" "ps_local_spec (demo_push f l) = l" "ps_remote_ref (demo_push f l) = demo_main"
  by (simp_all add: demo_push_def)

abbreviation demo_bundle :: "char \<Rightarrow> string" where
  "demo_bundle c \<equiv> bundle_key (Some ''repo'') demo_main (demo_sha c)"

abbreviation demo_listing :: string where
  "demo_listing \<equiv> ref_listing_prefix (Some ''repo'') demo_main"

lemma bundle_not_special [simp]:
  "bundle_key pfx r sha \<noteq> lock_key pfx r'" "lock_key pfx r' \<noteq> bundle_key pfx r sha"
  by (auto simp: bundle_key_base lock_key_def ref_key_defs dest!: arg_cong [of _ _ last])

lemma hidden_refs_only:
  assumes "\<And>k. v k \<noteq> None \<Longrightarrow> \<exists>r. prefix ''refs/'' r \<and> prefix (ref_listing_prefix pfx r) k"
  shows "hidden x pfx v = {}"
  using assms refs_not_tombstone unfolding hidden_def tomb_hides_def by blast

lemma visible_demo:
  assumes "\<forall>k \<in> fst ` set kvs. prefix (ref_listing_prefix pfx demo_main) k"
  shows "visible x pfx demo_main (mock_view (demo_bucket kvs)) =
    {k \<in> fst ` set kvs. is_bundle_candidate x k}"
proof -
  have "hidden x pfx (mock_view (demo_bucket kvs)) = {}"
    by (rule hidden_refs_only) (use assms demo_main_simps(1) demo_bucket_dom in blast)
  with assms show ?thesis unfolding visible_def bundles_in_def demo_bucket_dom by auto
qed

text \<open>A bucket with the bundle \<open>c\<close> of \<open>main\<close>, and one where \<open>main\<close> is protected as well.\<close>

definition demo_pushed :: "char \<Rightarrow> mock_state" where
  "demo_pushed c = demo_bucket [(demo_bundle c, ''BUNDLE'', 1)]"

definition demo_protected :: "char \<Rightarrow> mock_state" where
  "demo_protected c = demo_bucket
     [(demo_bundle c, ''BUNDLE'', 1), (protected_marker_key (Some ''repo'') demo_main, [], 1)]"

lemma demo_pushed_visible:
  "is_lower_hex c \<Longrightarrow> visible demo_ext (Some ''repo'') demo_main (mock_view (demo_pushed c)) = {demo_bundle c}"
  "is_lower_hex c \<Longrightarrow> visible demo_ext (Some ''repo'') demo_main (mock_view (demo_protected c)) = {demo_bundle c}"
  by (auto simp: demo_pushed_def demo_protected_def visible_demo simp del: demo_bucket_simps)

lemma demo_worlds [simp]:
  "mock_calm (demo_pushed c)" "mock_calm (demo_protected c)" "mock_honest (demo_pushed c)"
  "mock_honest (demo_protected c)"
  by (simp_all add: demo_pushed_def demo_protected_def del: demo_bucket_simps)

subsection \<open>Properties\<close>

text \<open>C3. A ref that carries a protection marker is neither deleted nor moved to a commit that
  does not contain its tip, forced or not: such a push reports an error or fails, and leaves
  every object but the ref's own lock as it was.\<close>

theorem protected_ref_only_moves_forward:
  assumes "utf8_prefix pfx" "utf8_valid (ps_remote_ref spec)" "mock_honest s"
    and "mock_view s (protected_marker_key pfx (ps_remote_ref spec)) \<noteq> None"
    and "rewinds x pfx env spec (mock_view s)"
  shows "(case fst (push_one x mock_store pfx env config now tomb_now uuid spec s) of
       Inl _ \<Rightarrow> True | Inr out \<Rightarrow> \<exists>msg. out = PushError (ps_remote_ref spec) msg) \<and>
    (\<forall>k. k \<noteq> lock_key pfx (ps_remote_ref spec) \<longrightarrow>
       mock_view (snd (push_one x mock_store pfx env config now tomb_now uuid spec s)) k = mock_view s k)"
  using mock.push_one_protected [OF assms, of config now tomb_now uuid]
  by (auto simp: wp_def frame_def split: prod.splits sum.splits)

lemma demo_rewinds:
  "rewinds demo_ext (Some ''repo'') demo_env (demo_push True ''main'') (mock_view (demo_protected CHR ''d''))"
proof -
  have "resolve demo_repo ''main'' = Inr (demo_sha CHR ''a'')"
    "is_ancestor demo_repo (demo_sha CHR ''d'') (demo_sha CHR ''a'') = Inr False"
    by (simp_all add: resolve_def is_ancestor_def demo_repo_def)
  moreover have "parse_remote_sha_from_key demo_ext (demo_bundle CHR ''d'') = Some (demo_sha CHR ''d'')"
    by (simp add: parse_sha_iff_stem parse_stem_bundle_key)
  ultimately show ?thesis
    by (auto simp: rewinds_def demo_env_def demo_pushed_visible intro!: exI)
qed

theorem protected_ref_only_moves_forward_witness:
  "mock_view (snd (push_one demo_ext mock_store (Some ''repo'') demo_env demo_config 9 9 ''u''
     (demo_push True ''main'') (demo_protected CHR ''d''))) (demo_bundle CHR ''d'') = Some (''BUNDLE'', 1)"
proof -
  have "mock_view (demo_protected CHR ''d'') (protected_marker_key (Some ''repo'') demo_main) \<noteq> None"
    unfolding demo_protected_def demo_bucket_dom by simp
  moreover have "mock_view (demo_protected CHR ''d'') (demo_bundle CHR ''d'') = Some (''BUNDLE'', 1)"
    by (simp add: demo_protected_def)
  ultimately show ?thesis
    using protected_ref_only_moves_forward [OF _ _ _ _ demo_rewinds, of demo_config 9 9 "''u''"] by simp
qed

text \<open>C4. On a quiet store a push whose local side succeeds, of a ref that shows the bundle the
  push was prepared against and whose lock is free, reports \<open>ok\<close>: the new bundle is stored with
  the packed bytes, it is the only bundle readers see unless a tombstone hid it before, \<open>HEAD\<close>
  and \<open>FORMAT\<close> exist and the lock is gone.\<close>

theorem push_commits:
  assumes "mock_calm s" "hex_law x" "push_ready x pfx env config spec (mock_view s) pc"
    and "\<not> lock_live (mock_view s) (lock_key pfx (ps_remote_ref spec)) (pc_ttl config) now"
    and "mock_view s (baseline_tombstone_key (prefix_str pfx) uuid) = None"
    and "\<And>sha at. pk_old pc = Some sha \<Longrightarrow> rfc3339_format x tomb_now = Some at \<Longrightarrow>
      json_ok x (json_of_baseline (baseline_tombstone_of at (ps_remote_ref spec) sha))"
  shows "\<exists>t. push_one x mock_store pfx env config now tomb_now uuid spec s = (Inr (PushOk (ps_remote_ref spec)), t) \<and>
    mock_view t (lock_key pfx (ps_remote_ref spec)) = None \<and>
    pushed x pfx (ps_remote_ref spec) (lg_local_sha (pk_local pc)) (pk_body pc) (mock_view s) (mock_view t)"
  using calm_mock.push_one_commits [OF assms, THEN wp_totalD] by blast

definition demo_case :: push_case where
  "demo_case = \<lparr>pk_old = Some (demo_sha CHR ''b''),
     pk_local = \<lparr>lg_local_sha = demo_sha CHR ''a'', lg_zip_artifacts = None, lg_pre_existing_was_ancestor = True\<rparr>,
     pk_body = ''BUNDLE '' @ demo_sha CHR ''a''\<rparr>"

lemma demo_push_ready:
  "push_ready demo_ext (Some ''repo'') demo_env demo_config (demo_push False ''main'')
     (mock_view (demo_pushed CHR ''b'')) demo_case"
proof -
  have "local_git_work demo_env ''main'' (Some (demo_sha CHR ''b'')) False False =
      Inr (Inr (pk_local demo_case))"
    by (simp add: local_git_work_def demo_env_def demo_repo_def resolve_def is_ancestor_def demo_case_def)
  then show ?thesis
    by (simp add: push_ready_def demo_case_def demo_config_def demo_pushed_visible flat_pre_def)
      (simp add: demo_env_def)
qed

lemma demo_push_facts:
  "hidden demo_ext (Some ''repo'') (mock_view (demo_pushed CHR ''b'')) = {}"
  "\<not> lock_live (mock_view (demo_pushed CHR ''b''))
     (lock_key (Some ''repo'') (ps_remote_ref (demo_push False ''main''))) (pc_ttl demo_config) 9"
  "mock_view (demo_pushed CHR ''b'') (baseline_tombstone_key (prefix_str (Some ''repo'')) ''u'') = None"
  "json_ok demo_ext j"
proof -
  show "hidden demo_ext (Some ''repo'') (mock_view (demo_pushed CHR ''b'')) = {}"
    by (rule hidden_refs_only)
      (auto simp: demo_pushed_def split: if_splits intro!: exI [of _ demo_main])
  have "baseline_tombstone_key ''repo'' ''u'' \<noteq> demo_bundle CHR ''b''"
    using refs_key_not_tombstone(1) [of demo_main "Some ''repo''" "demo_sha CHR ''b''"]
      baseline_key_is_tombstone [of "''repo''" "''u''"] by (metis demo_main_simps(1) option.simps(5))
  then show "mock_view (demo_pushed CHR ''b'') (baseline_tombstone_key (prefix_str (Some ''repo'')) ''u'') = None"
    by (simp add: demo_pushed_def)
qed (simp_all add: lock_live_def demo_pushed_def json_ok_def)

theorem push_commits_witness:
  "\<exists>t. push_one demo_ext mock_store (Some ''repo'') demo_env demo_config 9 9 ''u'' (demo_push False ''main'')
       (demo_pushed CHR ''b'') = (Inr (PushOk demo_main), t) \<and>
     visible demo_ext (Some ''repo'') demo_main (mock_view t) = {demo_bundle CHR ''a''}"
  using push_commits [OF _ _ demo_push_ready demo_push_facts(2,3), of 9] demo_push_facts(1,4)
  by (auto simp: pushed_def demo_case_def)

text \<open>If what readers see of the ref has changed since the push was prepared, the critical
  section reports an error and writes nothing.\<close>

lemma stale_push_is_refused:
  assumes "utf8_prefix pfx" "utf8_valid (pr_remote_ref state)"
    and "bundles_in x pfx (pr_remote_ref state) (set (pr_hidden_bundles state)) (mock_view s) \<noteq>
      set_option (pr_pre_existing state)"
  shows "mock_view (snd (perform_push_under_lock x mock_store pfx kind state now uuid s)) = mock_view s \<and>
    (case fst (perform_push_under_lock x mock_store pfx kind state now uuid s) of
       Inl _ \<Rightarrow> True | Inr out \<Rightarrow> \<exists>msg. out = PushError (pr_remote_ref state) msg)"
  using mock.perform_push_stale [OF assms, of kind now uuid]
  by (auto simp: wp_def split: prod.splits sum.splits)

text \<open>A state prepared while \<open>main\<close> showed \<open>b\<close>; by now it shows \<open>d\<close>.\<close>

lemma stale_push_is_refused_example:
  "mock_view (snd (perform_push_under_lock demo_ext mock_store (Some ''repo'') S3
     (ready_state demo_config (demo_push False ''main'') [] (Some (demo_bundle CHR ''b'')) (pk_local demo_case) (Inr ''B''))
     9 ''u'' (demo_pushed CHR ''d''))) = mock_view (demo_pushed CHR ''d'')"
proof -
  have "demo_bundle CHR ''d'' \<in> bundles_in demo_ext (Some ''repo'') demo_main {} (mock_view (demo_pushed CHR ''d''))"
    by (simp add: bundles_in_def demo_pushed_def)
  moreover have "demo_bundle CHR ''d'' \<noteq> demo_bundle CHR ''b''" by (simp add: bundle_key_inject)
  ultimately show ?thesis
    by (intro stale_push_is_refused [THEN conjunct1]) auto
qed

text \<open>C11. A push, whatever its outcome and whatever the store does, touches only the keys of its
  own ref, the two markers at the root of the repository and its own tombstone.\<close>

theorem push_touches_only_its_keys:
  assumes "utf8_prefix pfx" "utf8_valid (ps_remote_ref spec)" "k \<notin> push_keys pfx (ps_remote_ref spec) uuid"
  shows "mock_view (snd (push_one x mock_store pfx env config now tomb_now uuid spec s)) k = mock_view s k"
  using mock.frame_push_one [OF assms(1,2), of uuid x env config now tomb_now] assms(3)
  unfolding keeps_def frame_def by blast

theorem push_touches_only_its_keys_witness:
  "mock_view (snd (push_one demo_ext mock_store (Some ''repo'') demo_env demo_config 9 9 ''u''
     (demo_push True ''main'') gc_world)) (pack_key (Some ''repo'') (demo_sha CHR ''d'')) = Some (''PACK d'', 1)"
proof -
  have "pack_key (Some ''repo'') (demo_sha CHR ''d'') \<notin> push_keys (Some ''repo'') demo_main ''u''"
    by (auto simp: push_keys_def builder_base ref_key_defs head_key_def join_base
        baseline_tombstone_key_def demo_main_def)
  then show ?thesis
    using push_touches_only_its_keys [of "Some ''repo''" "demo_push True ''main''" _ "''u''"] by simp
qed

text \<open>While another client holds a live lock on the ref, a push changes nothing at all and
  reports an error.\<close>

lemma contended_push_changes_nothing:
  assumes "utf8_prefix pfx" "utf8_valid (ps_remote_ref spec)"
    and "lock_live (mock_view s) (lock_key pfx (ps_remote_ref spec)) (pc_ttl config) now"
  shows "mock_view (snd (push_one x mock_store pfx env config now tomb_now uuid spec s)) = mock_view s \<and>
    (case fst (push_one x mock_store pfx env config now tomb_now uuid spec s) of
       Inl _ \<Rightarrow> True | Inr out \<Rightarrow> \<exists>msg. out = PushError (ps_remote_ref spec) msg)"
  using mock.push_one_contended [OF assms, of x env tomb_now uuid]
  by (auto simp: wp_def split: prod.splits sum.splits)

definition demo_locked :: mock_state where
  "demo_locked = demo_bucket [(lock_key (Some ''repo'') demo_main, [], 8)]"

lemma contended_push_changes_nothing_example:
  "mock_view (snd (push_one demo_ext mock_store (Some ''repo'') demo_env demo_config 9 9 ''u''
     (demo_push True ''main'') demo_locked)) = mock_view demo_locked"
  by (rule contended_push_changes_nothing [THEN conjunct1])
    (simp_all add: lock_live_def demo_locked_def demo_config_def)

text \<open>C12. On a quiet store, deleting an unprotected ref whose lock is free and whose path holds
  exactly one bundle reports \<open>ok\<close> and removes every object under the ref's path, the lock
  included, and nothing else.\<close>

theorem delete_removes_the_ref:
  assumes "mock_calm s" "utf8_prefix pfx" "utf8_valid (ps_remote_ref spec)" "ps_local_spec spec = []"
    and "\<not> lock_live (mock_view s) (lock_key pfx (ps_remote_ref spec)) (pc_ttl config) now"
    and "{k. prefix (ref_listing_prefix pfx (ps_remote_ref spec)) k \<and> mock_view s k \<noteq> None \<and>
      is_bundle_candidate x k} = {b}"
    and "\<And>d. prefix (ref_listing_prefix pfx (ps_remote_ref spec)) (d @ CHR ''/'' # PROTECTED_MARKER_SEGMENT) \<Longrightarrow>
      mock_view s (d @ CHR ''/'' # PROTECTED_MARKER_SEGMENT) = None"
  shows "\<exists>t. push_one x mock_store pfx env config now tomb_now uuid spec s = (Inr (PushOk (ps_remote_ref spec)), t) \<and>
    mock_view t = without {k. prefix (ref_listing_prefix pfx (ps_remote_ref spec)) k} (mock_view s)"
  using calm_mock.push_one_deletes [OF assms, THEN wp_totalD] by blast

lemma bundle_not_marker [simp]:
  "bundle_key pfx r sha \<noteq> d @ CHR ''/'' # PROTECTED_MARKER_SEGMENT"
  by (auto simp: bundle_key_base PROTECTED_MARKER_SEGMENT_def dest!: arg_cong [of _ _ last])

lemma demo_one_candidate:
  assumes "is_lower_hex c" "prefix demo_listing (bundle_key (Some ''repo'') r (demo_sha c))"
  shows "{k. prefix demo_listing k \<and> mock_view (demo_bucket [(bundle_key (Some ''repo'') r (demo_sha c), b, m)]) k \<noteq> None \<and>
    is_bundle_candidate demo_ext k} = {bundle_key (Some ''repo'') r (demo_sha c)}"
  using assms by (auto split: if_splits)

theorem delete_removes_the_ref_witness:
  "\<exists>t. push_one demo_ext mock_store (Some ''repo'') demo_env demo_config 9 9 ''u'' (demo_push False [])
       (demo_pushed CHR ''b'') = (Inr (PushOk demo_main), t) \<and> mock_view t (demo_bundle CHR ''b'') = None"
proof -
  have "\<exists>t. push_one demo_ext mock_store (Some ''repo'') demo_env demo_config 9 9 ''u'' (demo_push False [])
       (demo_pushed CHR ''b'') = (Inr (PushOk (ps_remote_ref (demo_push False []))), t) \<and>
     mock_view t = without {k. prefix (ref_listing_prefix (Some ''repo'') (ps_remote_ref (demo_push False []))) k}
       (mock_view (demo_pushed CHR ''b''))"
    by (rule delete_removes_the_ref)
      (simp_all add: demo_pushed_def lock_live_def demo_one_candidate bundle_not_marker [symmetric]
        del: demo_bucket_simps, simp_all add: bundle_not_marker [symmetric])
  then show ?thesis by (auto simp: without_def)
qed

text \<open>A batch of well-formed commands answers every command, in order and for its own ref,
  whatever the store and the local repository do.\<close>

lemma batch_answers_every_command:
  assumes "\<And>c. c \<in> set cmds \<Longrightarrow> parse_push_args x (pi_cmd c) = Inr (spec_of c)"
  shows "\<exists>outs t. push_batch x mock_store pfx env_ttl kind with_zip engine cmds s = (Inr outs, t) \<and>
    map outcome_ref outs = map (\<lambda>c. ps_remote_ref (spec_of c)) cmds"
  using assms by (rule push_batch_answers)

definition demo_input :: "push_spec \<Rightarrow> push_input" where
  "demo_input spec = \<lparr>pi_cmd = show_push_spec spec, pi_env = demo_env, pi_now = 9, pi_tomb_now = 9, pi_uuid = ''u''\<rparr>"

lemma batch_answers_every_command_example:
  "\<exists>outs t. push_batch demo_ext mock_store (Some ''repo'') None S3 False BundleEngine
       [demo_input (demo_push True ''main''), demo_input (demo_push False ''old'')] gc_world = (Inr outs, t) \<and>
     map outcome_ref outs = [demo_main, demo_main]"
proof -
  let ?spec = "\<lambda>c. if c = demo_input (demo_push True ''main'') then demo_push True ''main''
    else demo_push False ''old''"
  let ?cmds = "[demo_input (demo_push True ''main''), demo_input (demo_push False ''old'')]"
  have "parse_push_args demo_ext (pi_cmd c) = Inr (?spec c)" if "c \<in> set ?cmds" for c
    using that parse_show_push_spec [of demo_ext "demo_push True ''main''"]
      parse_show_push_spec [of demo_ext "demo_push False ''old''"]
    by (auto simp: demo_input_def refspec_ok_def demo_push_def demo_main_def show_push_spec_def)
  from batch_answers_every_command [of ?cmds demo_ext ?spec, OF this, where s = gc_world
      and pfx = "Some ''repo''" and env_ttl = None and kind = S3 and with_zip = False
      and engine = BundleEngine]
  show ?thesis by auto
qed

subsection \<open>Where the model departs from the intent\<close>

text \<open>C36. Pushing back a sha whose bundle a baseline tombstone still names (\<open>a\<close>, then \<open>b\<close>, then
  \<open>a\<close> again within the grace window) reports \<open>ok\<close>, but readers find no bundle of the ref
  afterwards: the old tombstone hides the new upload and nothing withdraws it.\<close>

theorem repushed_sha_stays_hidden:
  assumes "mock_calm s" "hex_law x" "push_ready x pfx env config spec (mock_view s) pc"
    and "\<not> lock_live (mock_view s) (lock_key pfx (ps_remote_ref spec)) (pc_ttl config) now"
    and "mock_view s (baseline_tombstone_key (prefix_str pfx) uuid) = None"
    and "\<And>sha at. pk_old pc = Some sha \<Longrightarrow> rfc3339_format x tomb_now = Some at \<Longrightarrow>
      json_ok x (json_of_baseline (baseline_tombstone_of at (ps_remote_ref spec) sha))"
    and "bundle_key pfx (ps_remote_ref spec) (lg_local_sha (pk_local pc)) \<in> hidden x pfx (mock_view s)"
  shows "\<exists>t. push_one x mock_store pfx env config now tomb_now uuid spec s = (Inr (PushOk (ps_remote_ref spec)), t) \<and>
    visible x pfx (ps_remote_ref spec) (mock_view t) = {}"
proof -
  obtain t where "push_one x mock_store pfx env config now tomb_now uuid spec s = (Inr (PushOk (ps_remote_ref spec)), t)"
    "pushed x pfx (ps_remote_ref spec) (lg_local_sha (pk_local pc)) (pk_body pc) (mock_view s) (mock_view t)"
    using calm_mock.push_one_commits [OF assms(1-6), THEN wp_totalD] by blast
  with assms(7) show ?thesis by (auto simp: pushed_def)
qed

text \<open>The bucket after \<open>a\<close> and then \<open>b\<close> were pushed: \<open>a\<close> is tombstoned.\<close>

definition demo_baseline :: baseline_tombstone where
  "demo_baseline = baseline_tombstone_of (show_nat 0) demo_main (demo_sha CHR ''a'')"

definition demo_baseline_key :: string where
  "demo_baseline_key = baseline_tombstone_key ''repo'' ''old''"

definition demo_repush :: mock_state where
  "demo_repush = demo_bucket
     [(demo_bundle CHR ''a'', ''BUNDLE'', 1), (demo_bundle CHR ''b'', ''BUNDLE'', 1),
      (demo_baseline_key, json_print demo_ext (json_of_baseline demo_baseline), 1)]"

lemma demo_baseline_parses:
  "baseline_from_json_bytes demo_ext (json_print demo_ext (json_of_baseline demo_baseline)) = Inr demo_baseline"
  by (rule baseline_bytes_roundtrip) (simp_all add: demo_baseline_def baseline_tombstone_of_def)

lemma demo_baseline_sel [simp]:
  "bt_ref_name demo_baseline = demo_main" "bt_sha demo_baseline = demo_sha CHR ''a''"
  by (simp_all add: demo_baseline_def baseline_tombstone_of_def)

lemma baseline_not_bundle [simp]:
  "baseline_tombstone_key p u \<noteq> bundle_key q r sha" "bundle_key q r sha \<noteq> baseline_tombstone_key p u"
  by (auto simp: bundle_key_base baseline_tombstone_key_def join_base dest!: arg_cong [of _ _ last])

lemma lock_not_baseline [simp]: "lock_key q r \<noteq> baseline_tombstone_key p u"
  by (auto simp: ref_key_defs baseline_tombstone_key_def join_base dest!: arg_cong [of _ _ last])

lemma baseline_key_inject [simp]: "baseline_tombstone_key p u = baseline_tombstone_key p u' \<longleftrightarrow> u = u'"
  by (auto simp: baseline_tombstone_key_def join_base)

lemma demo_repush_view:
  "mock_view demo_repush demo_baseline_key = Some (json_print demo_ext (json_of_baseline demo_baseline), 1)"
  "mock_view demo_repush k \<noteq> None \<longleftrightarrow> k \<in> {demo_bundle CHR ''a'', demo_bundle CHR ''b'', demo_baseline_key}"
  by (auto simp: demo_repush_def demo_baseline_key_def)

lemma demo_repush_hidden:
  "hidden demo_ext (Some ''repo'') (mock_view demo_repush) = {demo_bundle CHR ''a''}"
proof -
  have "tomb_hides demo_ext (Some ''repo'') (mock_view demo_repush) demo_baseline_key = {demo_bundle CHR ''a''}"
    unfolding tomb_hides_def demo_repush_view(1) by (auto simp: demo_baseline_parses demo_baseline_key_def)
  moreover have "tomb_hides demo_ext (Some ''repo'') (mock_view demo_repush) k = {}" if "k \<noteq> demo_baseline_key" for k
  proof (rule ccontr)
    assume "tomb_hides demo_ext (Some ''repo'') (mock_view demo_repush) k \<noteq> {}"
    then have b: "is_baseline_tombstone_key k ''repo''" and "mock_view demo_repush k \<noteq> None"
      unfolding tomb_hides_def by auto
    with that demo_repush_view(2) have "k \<in> {demo_bundle CHR ''a'', demo_bundle CHR ''b''}" by blast
    with b refs_key_not_tombstone(1) [of demo_main "Some ''repo''"] show False by auto
  qed
  ultimately show ?thesis unfolding hidden_def by (auto split: if_splits) (metis empty_iff singletonD)
qed

lemma demo_repush_visible:
  "visible demo_ext (Some ''repo'') demo_main (mock_view demo_repush) = {demo_bundle CHR ''b''}"
proof -
  have "\<not> prefix demo_listing demo_baseline_key"
    using refs_not_tombstone [of demo_main "Some ''repo''" demo_baseline_key]
    by (auto simp: demo_baseline_key_def)
  then show ?thesis
    unfolding visible_def bundles_in_def demo_repush_hidden demo_repush_view(2)
    by (auto simp: bundle_key_inject)
qed

theorem repushed_sha_stays_hidden_witness:
  "\<exists>t. push_one demo_ext mock_store (Some ''repo'') demo_env demo_config 9 9 ''u'' (demo_push False ''main'')
       demo_repush = (Inr (PushOk demo_main), t) \<and>
     visible demo_ext (Some ''repo'') demo_main (mock_view t) = {}"
proof -
  have ready: "push_ready demo_ext (Some ''repo'') demo_env demo_config (demo_push False ''main'')
      (mock_view demo_repush) demo_case"
    using demo_push_ready by (simp add: push_ready_def Let_def demo_repush_visible demo_pushed_visible) (simp add: demo_case_def)
  have free: "\<not> lock_live (mock_view demo_repush)
      (lock_key (Some ''repo'') (ps_remote_ref (demo_push False ''main''))) (pc_ttl demo_config) 9"
    by (simp add: lock_live_def demo_repush_def demo_baseline_key_def)
  have fresh: "mock_view demo_repush (baseline_tombstone_key (prefix_str (Some ''repo'')) ''u'') = None"
    by (simp add: demo_repush_def demo_baseline_key_def)
  have calm: "mock_calm demo_repush" by (simp add: demo_repush_def del: demo_bucket_simps)
  have js: "json_ok demo_ext j" for j by (simp add: json_ok_def)
  have hid: "bundle_key (Some ''repo'') (ps_remote_ref (demo_push False ''main'')) (lg_local_sha (pk_local demo_case))
      \<in> hidden demo_ext (Some ''repo'') (mock_view demo_repush)"
    by (simp add: demo_repush_hidden demo_case_def)
  show ?thesis
    using repushed_sha_stays_hidden [OF calm _ ready free fresh _ hid, of 9] js by simp
qed

text \<open>On a quiet store a baseline tombstone past its window, of a ref whose chain does not
  start at the tombstoned sha or that has no chain at all, is applied: the bundle it names is
  deleted and then the tombstone. For a ref of the bundle engine, which has no chain, that is
  unconditional, also when the bundle is the only one of the ref.\<close>

lemma baseline_tombstone_is_applied:
  assumes "mock_calm s" "mock_view s tk = Some (b, m)" "baseline_from_json_bytes x b = Inr tomb"
    and "ref_name_ok x (bt_ref_name tomb)"
    and "within_grace x opts (bt_marked_at tomb) ''baseline tombstone'' now = Inr False"
    and "mock_view s (chain_key (Some pfx) (bt_ref_name tomb)) = None \<or>
      (\<exists>ch. chain_at x (mock_view s) (chain_key (Some pfx) (bt_ref_name tomb)) = Some ch \<and>
         cm_full_at ch \<noteq> bt_sha tomb)"
  shows "\<exists>d t. sweep_one_baseline_tombstone x mock_store pfx tk opts now s = (Inr (Swept d 0), t) \<and>
    mock_view t = (mock_view s)(bundle_key (Some pfx) (bt_ref_name tomb) (bt_sha tomb) := None, tk := None)"
  using calm_mock.sweep_one_baseline_tombstone_effect [OF assms, THEN wp_totalD] by blast

text \<open>Readers see \<open>b\<close>; the older bundle \<open>a\<close> is reclaimed.\<close>

lemma baseline_tombstone_is_applied_example:
  "\<exists>d t. sweep_one_baseline_tombstone demo_ext mock_store ''repo'' demo_baseline_key
       \<lparr>sw_grace_hours = 0, sw_force = True\<rparr> 5 demo_repush = (Inr (Swept d 0), t) \<and>
     mock_view t (demo_bundle CHR ''a'') = None"
proof -
  have "mock_view demo_repush (chain_key (Some ''repo'') demo_main) = None"
    by (auto simp: demo_repush_def demo_baseline_key_def baseline_tombstone_key_def builder_base join_base
        demo_main_def dest!: arg_cong [of _ _ last])
  moreover have "mock_calm demo_repush" by (simp add: demo_repush_def del: demo_bucket_simps)
  moreover have "within_grace demo_ext \<lparr>sw_grace_hours = 0, sw_force = True\<rparr> (bt_marked_at demo_baseline)
      ''baseline tombstone'' 5 = Inr False" by (simp add: within_grace_def)
  ultimately have "\<exists>d t. sweep_one_baseline_tombstone demo_ext mock_store ''repo'' demo_baseline_key
       \<lparr>sw_grace_hours = 0, sw_force = True\<rparr> 5 demo_repush = (Inr (Swept d 0), t) \<and>
     mock_view t = (mock_view demo_repush)(bundle_key (Some ''repo'') (bt_ref_name demo_baseline)
       (bt_sha demo_baseline) := None, demo_baseline_key := None)"
    by (intro baseline_tombstone_is_applied [OF _ demo_repush_view(1) demo_baseline_parses]) simp_all
  then show ?thesis by (auto simp: demo_baseline_key_def)
qed

definition demo_nested :: string where
  "demo_nested = bundle_key (Some ''repo'') ''refs/heads/main/sub'' (demo_sha CHR ''b'')"

text \<open>Deleting \<open>refs/heads/main\<close> when only \<open>refs/heads/main/sub\<close> exists on the bucket reports
  \<open>ok\<close> and deletes the bundle of the other ref: the listing the deletion works on is a prefix
  of the nested ref's keys.\<close>

lemma delete_takes_nested_refs:
  "\<exists>t. push_one demo_ext mock_store (Some ''repo'') demo_env demo_config 9 9 ''u'' (demo_push False [])
       (demo_bucket [(demo_nested, ''BUNDLE'', 1)]) = (Inr (PushOk ''refs/heads/main''), t) \<and>
     mock_view t demo_nested = None"
proof -
  have under: "prefix demo_listing demo_nested"
    by (simp add: demo_nested_def demo_main_def builder_base)
  have "\<exists>t. push_one demo_ext mock_store (Some ''repo'') demo_env demo_config 9 9 ''u'' (demo_push False [])
       (demo_bucket [(demo_nested, ''BUNDLE'', 1)]) = (Inr (PushOk (ps_remote_ref (demo_push False []))), t) \<and>
     mock_calm t \<and>
     mock_view t = without {k. prefix (ref_listing_prefix (Some ''repo'') (ps_remote_ref (demo_push False []))) k}
       (mock_view (demo_bucket [(demo_nested, ''BUNDLE'', 1)]))"
    using calm_mock.push_one_deletes [where s = "demo_bucket [(demo_nested, ''BUNDLE'', 1)]"
        and pfx = "Some ''repo''" and spec = "demo_push False []" and config = demo_config and now = 9
        and x = demo_ext and b = demo_nested and env = demo_env and tomb_now = 9 and uuid = "''u''",
        THEN wp_totalD] under
      demo_one_candidate [of "CHR ''b''" "''refs/heads/main/sub''" "''BUNDLE''" 1]
    by (auto simp: lock_live_def demo_nested_def bundle_not_marker [symmetric])
  with under show ?thesis by (auto simp: without_def demo_main_def)
qed

end
