(* ===== verification/Lock_Protocol.thy ===== *)
theory Lock_Protocol
  imports Ref_Lock
begin

text \<open>
  The lock protocol as interleaved steps. \<open>acquire_lock\<close> awaits up to four bucket
  operations, and between two of them any other client, or a holder's heartbeat task
  (\<open>spawn_lock_guard\<close>), may run; each await of the code is one step here. The state is the
  modification time of the lock object (\<open>None\<close> when there is none), the wall clock and the
  program counter of every client; a holder's counter keeps the time of its last write of the
  lock, from which its heartbeat counts. A refresh that fails is a heartbeat that does not
  happen, and the next one is an interval later. A client may crash at any point; a
  crashed holder leaves its lock behind.

  Mutual exclusion follows from the age check and the heartbeat in the runs in which a live
  holder's refresh is late by no more than the time to live allows and no two clients are at
  once between the HEAD that found the lock stale and the delete of it. The second condition
  cannot be dropped: \<open>delete_stale\<close> is unconditional, and two such clients can both end up
  holding the lock.
\<close>

datatype client_pc =
    Out
  | Probed int
  | Stale
  | Deleted
  | Holding int

record lock_state =
  lk_modified :: "int option"
  lk_wall :: int
  lk_pc :: "nat \<Rightarrow> client_pc"

definition lock_init :: "int \<Rightarrow> lock_state" where
  "lock_init t = \<lparr>lk_modified = None, lk_wall = t, lk_pc = (\<lambda>_. Out)\<rparr>"

definition beat :: "int \<Rightarrow> int" where
  "beat ttl = seconds (int (heartbeat_interval ttl))"

lemma beat_pos: "0 < beat ttl"
  by (auto simp: beat_def heartbeat_interval_def seconds_def)

abbreviation move :: "lock_state \<Rightarrow> nat \<Rightarrow> client_pc \<Rightarrow> lock_state" where
  "move s i p \<equiv> s\<lparr>lk_pc := (lk_pc s)(i := p)\<rparr>"

inductive lock_step :: "int \<Rightarrow> lock_state \<Rightarrow> lock_state \<Rightarrow> bool" for ttl where
  tick: "0 \<le> d \<Longrightarrow> lock_step ttl s (s\<lparr>lk_wall := lk_wall s + d\<rparr>)"
| create: "lk_pc s i = Out \<Longrightarrow> lk_modified s = None \<Longrightarrow>
    lock_step ttl s (move (s\<lparr>lk_modified := Some (lk_wall s)\<rparr>) i (Holding (lk_wall s)))"
| contend: "lk_pc s i = Out \<Longrightarrow> lk_modified s = Some m \<Longrightarrow> now \<le> lk_wall s \<Longrightarrow>
    lock_step ttl s (move s i (Probed now))"
| head_gone: "lk_pc s i = Probed now \<Longrightarrow> lk_modified s = None \<Longrightarrow>
    lock_step ttl s (move s i Out)"
| head_live: "lk_pc s i = Probed now \<Longrightarrow> lk_modified s = Some m \<Longrightarrow> now - m \<le> ttl \<Longrightarrow>
    lock_step ttl s (move s i Out)"
| head_stale: "lk_pc s i = Probed now \<Longrightarrow> lk_modified s = Some m \<Longrightarrow> \<not> now - m \<le> ttl \<Longrightarrow>
    lock_step ttl s (move s i Stale)"
| delete_stale: "lk_pc s i = Stale \<Longrightarrow>
    lock_step ttl s (move (s\<lparr>lk_modified := None\<rparr>) i Deleted)"
| recreate: "lk_pc s i = Deleted \<Longrightarrow> lk_modified s = None \<Longrightarrow>
    lock_step ttl s (move (s\<lparr>lk_modified := Some (lk_wall s)\<rparr>) i (Holding (lk_wall s)))"
| recreate_lost: "lk_pc s i = Deleted \<Longrightarrow> lk_modified s = Some m \<Longrightarrow>
    lock_step ttl s (move s i Out)"
| heartbeat: "lk_pc s i = Holding b \<Longrightarrow> b + beat ttl \<le> lk_wall s \<Longrightarrow>
    lock_step ttl s (move (s\<lparr>lk_modified := Some (lk_wall s)\<rparr>) i (Holding (lk_wall s)))"
| release: "lk_pc s i = Holding b \<Longrightarrow>
    lock_step ttl s (move (s\<lparr>lk_modified := None\<rparr>) i Out)"
| crash: "lock_step ttl s (move s i Out)"

inductive_cases lock_stepE: "lock_step ttl s t"

definition holders :: "lock_state \<Rightarrow> nat set" where
  "holders s = {i. \<exists>b. lk_pc s i = Holding b}"

subsection \<open>Timely and orderly runs\<close>

text \<open>
  In a timely run no live holder leaves its lock unrefreshed for longer than a heartbeat
  interval and the allowed lateness; in an orderly run, besides, no client finds the lock
  stale while another one that did has yet to delete it.
\<close>

definition timely :: "int \<Rightarrow> int \<Rightarrow> lock_state \<Rightarrow> bool" where
  "timely late ttl s \<longleftrightarrow>
     (\<forall>i b. lk_pc s i = Holding b \<longrightarrow> lk_wall s \<le> b + beat ttl + late)"

definition apart :: "lock_state \<Rightarrow> bool" where
  "apart s \<longleftrightarrow> (\<forall>i j. lk_pc s i = Stale \<and> lk_pc s j = Stale \<longrightarrow> i = j)"

definition timely_step :: "int \<Rightarrow> int \<Rightarrow> lock_state \<Rightarrow> lock_state \<Rightarrow> bool" where
  "timely_step late ttl s t \<longleftrightarrow> lock_step ttl s t \<and> timely late ttl t"

definition orderly_step :: "int \<Rightarrow> int \<Rightarrow> lock_state \<Rightarrow> lock_state \<Rightarrow> bool" where
  "orderly_step late ttl s t \<longleftrightarrow> lock_step ttl s t \<and> timely late ttl t \<and> apart t"

abbreviation timely_reachable :: "int \<Rightarrow> int \<Rightarrow> lock_state \<Rightarrow> bool" where
  "timely_reachable late ttl s \<equiv> \<exists>w. (timely_step late ttl)\<^sup>*\<^sup>* (lock_init w) s"

abbreviation orderly_reachable :: "int \<Rightarrow> int \<Rightarrow> lock_state \<Rightarrow> bool" where
  "orderly_reachable late ttl s \<equiv> \<exists>w. (orderly_step late ttl)\<^sup>*\<^sup>* (lock_init w) s"

text \<open>
  The invariant: there is one holder at most, and the lock on the bucket is the one it wrote
  last; while a recovery has yet to delete the stale lock nobody holds it and it is still
  there, so nobody can create it.
\<close>

definition lock_inv :: "lock_state \<Rightarrow> bool" where
  "lock_inv s \<longleftrightarrow>
     (\<forall>i j b c. lk_pc s i = Holding b \<and> lk_pc s j = Holding c \<longrightarrow> i = j) \<and>
     (\<forall>i b. lk_pc s i = Holding b \<longrightarrow> lk_modified s = Some b \<and> b \<le> lk_wall s) \<and>
     (\<forall>i now. lk_pc s i = Probed now \<longrightarrow> now \<le> lk_wall s) \<and>
     (\<forall>i j b. lk_pc s i = Stale \<longrightarrow> lk_pc s j \<noteq> Holding b \<and> lk_modified s \<noteq> None)"

lemma lock_init_inv: "lock_inv (lock_init t)" "timely late ttl (lock_init t)" "apart (lock_init t)"
  by (simp_all add: lock_inv_def lock_init_def holders_def timely_def apart_def)

text \<open>The age check and the heartbeat: a held lock is never found stale.\<close>

lemma held_lock_is_not_stale:
  assumes "lock_inv s" "timely late ttl s" "beat ttl + late \<le> ttl"
    and "lk_pc s i = Probed now" "lk_modified s = Some m" "\<not> now - m \<le> ttl"
  shows "holders s = {}"
proof (rule ccontr)
  assume "holders s \<noteq> {}"
  then obtain j b where j: "lk_pc s j = Holding b" by (auto simp: holders_def)
  with assms(1,5) have "b = m" by (auto simp: lock_inv_def)
  moreover from j assms(2) have "lk_wall s \<le> b + beat ttl + late" by (auto simp: timely_def)
  moreover from assms(1,4) have "now \<le> lk_wall s" by (auto simp: lock_inv_def)
  ultimately show False using assms(3,6) by simp
qed

lemma lock_inv_step:
  assumes "lock_step ttl s t" "lock_inv s" "timely late ttl s" "apart s" "beat ttl + late \<le> ttl"
  shows "lock_inv t"
  using assms(1)
proof (cases rule: lock_step.cases)
  case (tick d)
  with assms(2) show ?thesis by (fastforce simp: lock_inv_def)
next
  case (delete_stale i)
  with assms(2,4) show ?thesis by (auto simp: lock_inv_def apart_def)
next
  case (head_stale i now m)
  with held_lock_is_not_stale [OF assms(2,3,5)] have "holders s = {}" by blast
  with head_stale assms(2) show ?thesis by (auto simp: lock_inv_def holders_def)
qed (use assms(2) in \<open>auto simp: lock_inv_def\<close>)

lemma orderly_run_inv:
  assumes "(orderly_step late ttl)\<^sup>*\<^sup>* s t" "beat ttl + late \<le> ttl"
    and "lock_inv s" "timely late ttl s" "apart s"
  shows "lock_inv t \<and> timely late ttl t \<and> apart t"
  using assms(1)
proof induction
  case base
  from assms(3-) show ?case by simp
next
  case (step t u)
  with lock_inv_step [OF _ _ _ _ assms(2)] show ?case by (auto simp: orderly_step_def)
qed

lemma orderly_reachable_inv:
  assumes "orderly_reachable late ttl s" "beat ttl + late \<le> ttl"
  shows "lock_inv s" "timely late ttl s" "apart s"
  using orderly_run_inv [OF _ assms(2) lock_init_inv] assms(1) by blast+

subsection \<open>The heartbeat keeps the lock\<close>

text \<open>Steps that leave the holders as they are.\<close>

abbreviation keeping_step :: "int \<Rightarrow> int \<Rightarrow> lock_state \<Rightarrow> lock_state \<Rightarrow> bool" where
  "keeping_step late ttl s t \<equiv> orderly_step late ttl s t \<and> holders t = holders s"

text \<open>One interval: the holder waits for its heartbeat and refreshes the lock.\<close>

lemma next_heartbeat:
  assumes inv: "lock_inv s" "timely late ttl s" "apart s" and late: "0 \<le> late"
    and i: "lk_pc s i = Holding b"
  defines "w \<equiv> max (lk_wall s) (b + beat ttl)"
  shows "\<exists>t. (keeping_step late ttl)\<^sup>*\<^sup>* s t \<and> lock_inv t \<and> timely late ttl t \<and> apart t \<and>
    lk_pc t i = Holding w \<and> lk_wall t = w"
proof -
  from inv(1) i have b: "b \<le> lk_wall s" "lk_modified s = Some b" by (auto simp: lock_inv_def)
  from inv(1) i have one: "j = i" if "lk_pc s j = Holding c" for j c
    using that by (auto simp: lock_inv_def holders_def)
  let ?u = "s\<lparr>lk_wall := w\<rparr>"
  let ?t = "move (?u\<lparr>lk_modified := Some w\<rparr>) i (Holding w)"
  have u: "lock_step ttl s ?u"
    using lock_step.tick [of "w - lk_wall s" ttl s] by (simp add: w_def)
  have "timely late ttl ?u"
    using inv(2) one late i by (fastforce simp: timely_def w_def)
  with u inv have 1: "keeping_step late ttl s ?u"
    by (simp add: orderly_step_def apart_def holders_def)
  have "lock_step ttl ?u ?t"
    using lock_step.heartbeat [of ?u i b ttl] i by (simp add: w_def)
  moreover have t: "timely late ttl ?t" "apart ?t"
    using one late beat_pos [of ttl] inv(3) by (auto simp: timely_def apart_def dest!: one)
  moreover have "holders ?t = holders ?u" using i by (auto simp: holders_def)
  ultimately have 2: "keeping_step late ttl ?u ?t" by (simp add: orderly_step_def)
  have "lock_inv ?t"
    using inv(1) i by (fastforce simp: lock_inv_def holders_def w_def)
  moreover have "(keeping_step late ttl)\<^sup>*\<^sup>* s ?t"
    by (rule converse_rtranclp_into_rtranclp [of "keeping_step late ttl", OF 1 r_into_rtranclp])
      (rule 2)
  ultimately show ?thesis using t by (intro exI [of _ ?t]) simp
qed

lemma heartbeats_hold:
  assumes late: "0 \<le> late"
  shows "\<lbrakk>lock_inv s; timely late ttl s; apart s; lk_pc s i = Holding b\<rbrakk> \<Longrightarrow>
    \<exists>t. (keeping_step late ttl)\<^sup>*\<^sup>* s t \<and> b + int n \<le> lk_wall t"
proof (induction n arbitrary: s b)
  case 0
  then show ?case by (intro exI [of _ s]) (auto simp: lock_inv_def)
next
  case (Suc n)
  from next_heartbeat [OF Suc.prems(1-3) late Suc.prems(4)] obtain t where
    t: "(keeping_step late ttl)\<^sup>*\<^sup>* s t" "lock_inv t" "timely late ttl t" "apart t"
      "lk_pc t i = Holding (max (lk_wall s) (b + beat ttl))" by blast
  from Suc.IH [OF t(2-5)] obtain u where
    u: "(keeping_step late ttl)\<^sup>*\<^sup>* t u" "max (lk_wall s) (b + beat ttl) + int n \<le> lk_wall u"
    by blast
  from t(1) u(1) have "(keeping_step late ttl)\<^sup>*\<^sup>* s u" by (rule rtranclp_trans)
  with u(2) beat_pos [of ttl] show ?case by (intro exI [of _ u]) simp
qed

text \<open>From every state an orderly run reaches, its holder can keep the lock for any time.\<close>

lemma lock_can_be_kept:
  assumes "lock_inv s" "timely late ttl s" "apart s" "0 \<le> late"
  shows "\<exists>t. (keeping_step late ttl)\<^sup>*\<^sup>* s t \<and> w \<le> lk_wall t"
proof (cases "holders s = {}")
  case True
  let ?t = "s\<lparr>lk_wall := lk_wall s + \<bar>w - lk_wall s\<bar>\<rparr>"
  have "lock_step ttl s ?t" by (rule lock_step.tick) simp
  with True assms(3) have "keeping_step late ttl s ?t"
    by (auto simp: orderly_step_def timely_def apart_def holders_def)
  then have "(keeping_step late ttl)\<^sup>*\<^sup>* s ?t" by (rule r_into_rtranclp)
  then show ?thesis by (rule exI [of _ ?t, OF conjI]) simp
next
  case False
  then obtain i b where i: "lk_pc s i = Holding b" by (auto simp: holders_def)
  from heartbeats_hold [OF assms(4,1-3) this, of "nat (w - b)"] obtain t where
    t: "(keeping_step late ttl)\<^sup>*\<^sup>* s t" "b + int (nat (w - b)) \<le> lk_wall t" by blast
  from t(2) have "w \<le> lk_wall t" by (simp split: if_splits)
  with t(1) show ?thesis by blast
qed

subsection \<open>The sequential program takes these steps\<close>

text \<open>
  One client's part of the state next to the bucket: \<open>acquire_lock\<close>, run without
  interference on any store that meets the contract and does not fail, ends where a path of
  steps of that client ends.
\<close>

definition lock_time :: "bucket \<Rightarrow> string \<Rightarrow> int option" where
  "lock_time v k = map_option snd (v k)"

definition alone :: "int option \<Rightarrow> int \<Rightarrow> client_pc \<Rightarrow> lock_state" where
  "alone m w p = \<lparr>lk_modified = m, lk_wall = w, lk_pc = (\<lambda>_. Out)(0 := p)\<rparr>"

lemma move_alone [simp]: "move (alone m w p) 0 q = alone m w q"
  and alone_modified [simp]: "(alone m w p)\<lparr>lk_modified := m'\<rparr> = alone m' w p"
  and alone_wall [simp]: "(alone m w p)\<lparr>lk_wall := w'\<rparr> = alone m w' p"
  and alone_sel [simp]: "lk_modified (alone m w p) = m" "lk_wall (alone m w p) = w"
    "lk_pc (alone m w p) 0 = p"
  by (simp_all add: alone_def)

lemma alone_step:
  "m = None \<Longrightarrow> lock_step ttl (alone m w Out) (alone (Some w) w (Holding w))"
  "m = Some l \<Longrightarrow> now \<le> w \<Longrightarrow> lock_step ttl (alone m w Out) (alone m w (Probed now))"
  "m = Some l \<Longrightarrow> now - l \<le> ttl \<Longrightarrow> lock_step ttl (alone m w (Probed now)) (alone m w Out)"
  "m = Some l \<Longrightarrow> \<not> now - l \<le> ttl \<Longrightarrow> lock_step ttl (alone m w (Probed now)) (alone m w Stale)"
  "lock_step ttl (alone m w Stale) (alone None w Deleted)"
  "lock_step ttl (alone None w Deleted) (alone (Some w) w (Holding w))"
  using lock_step.create [of "alone m w Out" 0 ttl] lock_step.contend [of "alone m w Out" 0 l now ttl]
    lock_step.head_live [of "alone m w (Probed now)" 0 now l ttl]
    lock_step.head_stale [of "alone m w (Probed now)" 0 now l ttl]
    lock_step.delete_stale [of "alone m w Stale" 0 ttl]
    lock_step.recreate [of "alone None w Deleted" 0 ttl]
  by simp_all

text \<open>What a guard or its absence means for the client's steps.\<close>

lemma alone_acquires:
  assumes "m = None \<or> (\<exists>l. m = Some l \<and> \<not> now - l \<le> ttl)" "now \<le> w"
  shows "(lock_step ttl)\<^sup>*\<^sup>* (alone m w Out) (alone (Some w) w (Holding w))"
proof (cases m)
  case None
  then show ?thesis by (blast intro: alone_step(1))
next
  case (Some l)
  with assms have l: "\<not> now - l \<le> ttl" by simp
  show ?thesis
    using alone_step(2) [OF Some assms(2)] alone_step(4) [OF Some l] alone_step(5) [of ttl m w]
      alone_step(6) [of ttl w]
    by (meson converse_rtranclp_into_rtranclp rtranclp.rtrancl_refl)
qed

context calm_store
begin

lemma acquire_lock_is_a_run:
  assumes c: "calm s" and now: "now \<le> w"
  shows "wp (acquire_lock st k ttl now)
     (\<lambda>g t. (lock_step ttl)\<^sup>*\<^sup>* (alone (lock_time (view s) k) w Out)
              (case g of Some _ \<Rightarrow> alone (Some w) w (Holding w)
               | None \<Rightarrow> alone (lock_time (view t) k) w Out))
     (\<lambda>_ _. False) s"
proof (rule calm_acquire_lock [OF c], goal_cases)
  case (1 m t)
  then have "lock_time (view s) k = None \<or>
      (\<exists>l. lock_time (view s) k = Some l \<and> \<not> now - l \<le> ttl)"
    by (cases "view s k") (auto simp: lock_time_def lock_live_def)
  from alone_acquires [OF this now] show ?case by simp
next
  case (2 t)
  then show ?case by simp
qed

end

end
