(* ===== verification/Lock_Properties.thy ===== *)
theory Lock_Properties
  imports Lock_Protocol Demo_World
begin

text \<open>
  The properties of the per-ref lock: of the sequential programs on the mock store, and of
  the interleaved protocol.
\<close>

text \<open>The states in which two clients take part, and the runs built step by step.\<close>

definition duo :: "nat \<Rightarrow> nat \<Rightarrow> int option \<Rightarrow> int \<Rightarrow> client_pc \<Rightarrow> client_pc \<Rightarrow> lock_state" where
  "duo i j m w p q = \<lparr>lk_modified = m, lk_wall = w, lk_pc = (\<lambda>_. Out)(i := p, j := q)\<rparr>"

lemma duo_sel:
  "lk_modified (duo i j m w p q) = m" "lk_wall (duo i j m w p q) = w"
  "lk_pc (duo i j m w p q) j = q" "i \<noteq> j \<Longrightarrow> lk_pc (duo i j m w p q) i = p"
  by (simp_all add: duo_def)

lemma duo_upd:
  "(duo i j m w p q)\<lparr>lk_modified := m'\<rparr> = duo i j m' w p q"
  "(duo i j m w p q)\<lparr>lk_wall := w'\<rparr> = duo i j m w' p q"
  "move (duo i j m w p q) j q' = duo i j m w p q'"
  "i \<noteq> j \<Longrightarrow> move (duo i j m w p q) i p' = duo i j m w p' q"
  "lock_init w = duo i j None w Out Out"
  by (simp_all add: duo_def lock_init_def fun_upd_twist fun_upd_idem)

lemmas duo_simps = duo_sel duo_upd

lemma duo_orderly:
  assumes "i \<noteq> j"
  shows "timely late ttl (duo i j m w p q) \<longleftrightarrow>
      (\<forall>b. p = Holding b \<or> q = Holding b \<longrightarrow> w \<le> b + beat ttl + late)"
    "apart (duo i j m w p q) \<longleftrightarrow> \<not> (p = Stale \<and> q = Stale)"
    "holders (duo i j m w p q) = {} \<longleftrightarrow> \<not> (\<exists>b. p = Holding b \<or> q = Holding b)"
  using assms by (auto simp: timely_def apart_def holders_def duo_def)

lemma timely_go:
  "\<lbrakk>timely_reachable late ttl s; lock_step ttl s t'; t' = t; timely late ttl t\<rbrakk> \<Longrightarrow>
     timely_reachable late ttl t"
  by (metis rtranclp.rtrancl_into_rtrancl timely_step_def)

lemma orderly_go:
  "\<lbrakk>orderly_reachable late ttl s; lock_step ttl s t'; t' = t; timely late ttl t; apart t\<rbrakk> \<Longrightarrow>
     orderly_reachable late ttl t"
  by (metis rtranclp.rtrancl_into_rtrancl orderly_step_def)

text \<open>C10. At most one client holds the lock, however many contend for it, crash or recover it,
  in the runs in which a live holder's refresh comes at most \<open>late\<close> after its heartbeat
  interval, \<open>late\<close> being what the time to live leaves, and no two clients are at once between
  the HEAD that found the lock stale and their delete. No run forces a holder to give the lock
  up: its heartbeats can keep it for any length of time, well past the time to live.\<close>

theorem lock_is_exclusive:
  assumes "orderly_reachable late ttl s" "0 \<le> late" "beat ttl + late \<le> ttl"
  shows "(\<forall>i j. i \<in> holders s \<and> j \<in> holders s \<longrightarrow> i = j) \<and>
    (\<forall>w. \<exists>t. (\<lambda>u v. orderly_step late ttl u v \<and> holders v = holders u)\<^sup>*\<^sup>* s t \<and> w \<le> lk_wall t)"
  using orderly_reachable_inv [OF assms(1,3)] lock_can_be_kept [OF _ _ _ assms(2)]
  by (simp add: lock_inv_def holders_def)

text \<open>With a time to live of 60 seconds and a heartbeat every 20, client 3 takes the lock,
  refreshes it after 20 seconds and turns client 2 away at 70; it crashes, and client 2
  recovers the lock at 81 seconds, its only holder.\<close>

theorem lock_is_exclusive_witness:
  "\<exists>s t. orderly_reachable (seconds 40) (seconds 60) s \<and> holders s = {3} \<and> lk_wall s = seconds 70 \<and>
     orderly_reachable (seconds 40) (seconds 60) t \<and> lk_pc t 2 = Holding (seconds 81) \<and>
     (\<forall>j\<in>holders s. j = 3) \<and> (\<forall>j\<in>holders t. j = 2)"
proof -
  let ?R = "orderly_reachable (seconds 40) (seconds 60)" and ?d = "duo 3 2"
  let ?s = "?d (Some (seconds 20)) (seconds 70) (Holding (seconds 20)) Out"
    and ?t = "?d (Some (seconds 81)) (seconds 81) Out (Holding (seconds 81))"
  have beat: "beat (seconds 60) = seconds 20"
    by (simp add: beat_def heartbeat_interval_def whole_seconds_def seconds_def)
  note go = orderly_go
    and ev = duo_simps duo_orderly beat beat [unfolded seconds_def, simplified] seconds_def
  have "?R (?d None 0 Out Out)"
    by (rule exI [of _ 0]) (simp add: duo_upd(5) [of 0 3 2])
  then have "?R (?d (Some 0) 0 (Holding 0) Out)"
    by (rule go [OF _ lock_step.create [of _ 3]]) (simp_all add: ev)
  then have "?R (?d (Some 0) (seconds 20) (Holding 0) Out)"
    by (rule go [OF _ lock_step.tick [of "seconds 20"]]) (simp_all add: ev)
  then have "?R (?d (Some (seconds 20)) (seconds 20) (Holding (seconds 20)) Out)"
    by (rule go [OF _ lock_step.heartbeat [of _ 3 0]]) (simp_all add: ev)
  then have "?R (?d (Some (seconds 20)) (seconds 70) (Holding (seconds 20)) Out)"
    by (rule go [OF _ lock_step.tick [of "seconds 50"]]) (simp_all add: ev)
  then have "?R (?d (Some (seconds 20)) (seconds 70) (Holding (seconds 20)) (Probed (seconds 70)))"
    by (rule go [OF _ lock_step.contend [of _ 2 "seconds 20" "seconds 70"]]) (simp_all add: ev)
  then have s: "?R ?s"
    by (rule go [OF _ lock_step.head_live [of _ 2 "seconds 70" "seconds 20"]]) (simp_all add: ev)
  then have "?R (?d (Some (seconds 20)) (seconds 70) Out Out)"
    by (rule go [OF _ lock_step.crash [of _ _ 3]]) (simp_all add: ev)
  then have "?R (?d (Some (seconds 20)) (seconds 81) Out Out)"
    by (rule go [OF _ lock_step.tick [of "seconds 11"]]) (simp_all add: ev)
  then have "?R (?d (Some (seconds 20)) (seconds 81) Out (Probed (seconds 81)))"
    by (rule go [OF _ lock_step.contend [of _ 2 "seconds 20" "seconds 81"]]) (simp_all add: ev)
  then have "?R (?d (Some (seconds 20)) (seconds 81) Out Stale)"
    by (rule go [OF _ lock_step.head_stale [of _ 2 "seconds 81" "seconds 20"]]) (simp_all add: ev)
  then have "?R (?d None (seconds 81) Out Deleted)"
    by (rule go [OF _ lock_step.delete_stale [of _ 2]]) (simp_all add: ev)
  then have t: "?R ?t"
    by (rule go [OF _ lock_step.recreate [of _ 2]]) (simp_all add: ev)
  have fits: "0 \<le> seconds 40" "beat (seconds 60) + seconds 40 \<le> seconds 60"
    by (simp_all add: beat) (simp_all add: seconds_def)
  have held: "3 \<in> holders ?s" "2 \<in> holders ?t" by (auto simp: holders_def duo_def)
  from lock_is_exclusive [OF s fits] lock_is_exclusive [OF t fits] held
  have one: "\<forall>j\<in>holders ?s. j = 3" "\<forall>j\<in>holders ?t. j = 2" by blast+
  with held have "holders ?s = {3}" by blast
  with s t one show ?thesis by (intro exI [of _ ?s] exI [of _ ?t]) (simp add: duo_sel)
qed

text \<open>C22. Run without interference on a quiet store, \<open>acquire_lock\<close> is a path of protocol steps
  of its client: with a guard it ends holding a lock of the current time, without one it ends
  outside with the lock as it was.\<close>

theorem acquire_lock_refines_the_protocol:
  assumes "mock_calm s" "now \<le> w"
  shows "\<exists>g t. acquire_lock mock_store k ttl now s = (Inr g, t) \<and>
    (lock_step ttl)\<^sup>*\<^sup>* (alone (lock_time (mock_view s) k) w Out)
      (case g of Some _ \<Rightarrow> alone (Some w) w (Holding w)
       | None \<Rightarrow> alone (lock_time (mock_view t) k) w Out)"
  using calm_mock.acquire_lock_is_a_run [OF assms, of k ttl, THEN wp_totalD] by blast

theorem acquire_lock_refines_the_protocol_witness:
  "\<exists>g t. acquire_lock mock_store ''L'' 60 7 (empty_mock 7) = (Inr g, t)"
  using acquire_lock_refines_the_protocol [of "empty_mock 7" 7 7 "''L''" 60] by auto

text \<open>Whatever the store does, a guard is only handed out by a call that wrote the lock
  itself, on a key that was free or held a lock older than the time to live, and then nothing
  but the lock key has changed; a live lock is left as it is.\<close>

lemma acquire_lock_respects_live_locks:
  "case acquire_lock mock_store k ttl now s of
     (Inr (Some h), t) \<Rightarrow> h = k \<and> \<not> lock_live (mock_view s) k ttl now \<and>
       (\<exists>m. mock_view t = (mock_view s)(k \<mapsto> ([], m)))
   | (Inr None, t) \<Rightarrow> mock_view t = mock_view s \<or>
       (mock_view t = (mock_view s)(k := None) \<and> \<not> lock_live (mock_view s) k ttl now)
   | (Inl _, t) \<Rightarrow> True"
  using mock.acquire_lock_sound [of k ttl now s]
  by (auto simp: wp_def split: prod.splits sum.splits option.splits)

text \<open>Two recoveries that overlap, and how they come about.\<close>

lemma both_recoveries_hold:
  assumes ij: "i \<noteq> j" and s: "lk_pc s i = Stale" "lk_pc s j = Stale"
  shows "\<exists>t. (\<lambda>u v. lock_step ttl u v \<and> lk_wall v = lk_wall u)\<^sup>*\<^sup>* s t \<and> {i, j} \<subseteq> holders t"
proof -
  let ?R = "(\<lambda>u v. lock_step ttl u v \<and> lk_wall v = lk_wall u)\<^sup>*\<^sup>* s"
  have go: "?R v" if "?R u" "lock_step ttl u v'" "v' = v" "lk_wall v = lk_wall u" for u v v'
    using that by (auto intro: rtranclp.rtrancl_into_rtrancl)
  let ?h = "Holding (lk_wall s)"
  let ?s1 = "move (s\<lparr>lk_modified := None\<rparr>) i Deleted"
  let ?s2 = "move (s\<lparr>lk_modified := Some (lk_wall s)\<rparr>) i ?h"
  let ?s3 = "move (move (s\<lparr>lk_modified := None\<rparr>) i ?h) j Deleted"
  let ?s4 = "move (move (s\<lparr>lk_modified := Some (lk_wall s)\<rparr>) i ?h) j ?h"
  have "?R s" by simp
  then have "?R ?s1" by (rule go [OF _ lock_step.delete_stale [OF s(1)]]) simp_all
  then have "?R ?s2" by (rule go [OF _ lock_step.recreate [of _ i]]) simp_all
  then have "?R ?s3" by (rule go [OF _ lock_step.delete_stale [of _ j]]) (use s ij in simp_all)
  then have "?R ?s4" by (rule go [OF _ lock_step.recreate [of _ j]]) (use s ij in simp_all)
  moreover have "{i, j} \<subseteq> holders ?s4" by (simp add: holders_def)
  ultimately show ?thesis by blast
qed

lemma recoveries_overlap:
  assumes ij: "i \<noteq> j" and ttl: "0 \<le> ttl"
  shows "\<exists>s. timely_reachable 0 ttl s \<and> holders s = {} \<and> lk_pc s i = Stale \<and> lk_pc s j = Stale"
proof -
  let ?R = "timely_reachable 0 ttl" and ?d = "duo i j" and ?w = "ttl + 1"
  note go = timely_go and ev = ij duo_simps duo_orderly beat_pos [THEN less_imp_le]
  have "?R (?d None 0 Out Out)"
    by (rule exI [of _ 0]) (simp add: duo_upd(5) [of 0 i j])
  then have "?R (?d (Some 0) 0 (Holding 0) Out)"
    by (rule go [OF _ lock_step.create [of _ i]]) (simp_all add: ev)
  then have "?R (?d (Some 0) 0 Out Out)"
    by (rule go [OF _ lock_step.crash [of _ _ i]]) (simp_all add: ev)
  then have "?R (?d (Some 0) ?w Out Out)"
    by (rule go [OF _ lock_step.tick [of ?w]]) (use ttl in \<open>simp_all add: ev\<close>)
  then have "?R (?d (Some 0) ?w (Probed ?w) Out)"
    by (rule go [OF _ lock_step.contend [of _ i 0 ?w]]) (simp_all add: ev)
  then have "?R (?d (Some 0) ?w (Probed ?w) (Probed ?w))"
    by (rule go [OF _ lock_step.contend [of _ j 0 ?w]]) (simp_all add: ev)
  then have "?R (?d (Some 0) ?w Stale (Probed ?w))"
    by (rule go [OF _ lock_step.head_stale [of _ i ?w 0]]) (simp_all add: ev)
  then have "?R (?d (Some 0) ?w Stale Stale)"
    by (rule go [OF _ lock_step.head_stale [of _ j ?w 0]]) (simp_all add: ev)
  then show ?thesis by (intro exI [of _ "?d (Some 0) ?w Stale Stale"] conjI) (simp_all add: ev)
qed

text \<open>The time to live read from the environment is at least a second and the heartbeat that
  refreshes a held lock fires at least three times within any time to live of three seconds or
  more, and never with period zero.\<close>

lemma heartbeat_fits_the_ttl:
  "seconds 1 \<le> lock_ttl_from_env env_value \<and> 1 \<le> heartbeat_interval ttl \<and>
   (ttl < seconds 3 \<or> 3 * seconds (int (heartbeat_interval ttl)) \<le> ttl)"
proof (intro conjI)
  have "0 < (case Option.bind env_value parse_u64 of
      Some s \<Rightarrow> if 0 < s then s else DEFAULT_LOCK_TTL_SECONDS | None \<Rightarrow> DEFAULT_LOCK_TTL_SECONDS)"
    by (auto simp: DEFAULT_LOCK_TTL_SECONDS_def split: option.split)
  then show "seconds 1 \<le> lock_ttl_from_env env_value"
    unfolding lock_ttl_from_env_def saturating_duration_seconds_def seconds_def by auto
  show "1 \<le> heartbeat_interval ttl" by (auto simp: heartbeat_interval_def)
  show "ttl < seconds 3 \<or> 3 * seconds (int (heartbeat_interval ttl)) \<le> ttl"
  proof (cases "ttl < seconds 3")
    case False
    then have w: "whole_seconds ttl = ttl div 10 ^ 9" "3 \<le> ttl div 10 ^ 9"
      by (auto simp: whole_seconds_def seconds_def)
    then have "int (heartbeat_interval ttl) = (ttl div 10 ^ 9) div 3"
      by (simp add: heartbeat_interval_def)
    then have "3 * seconds (int (heartbeat_interval ttl)) \<le> (ttl div 10 ^ 9) * 10 ^ 9"
      by (simp add: seconds_def)
    also have "\<dots> \<le> ttl" by simp
    finally show ?thesis by simp
  qed simp
qed

text \<open>C40. Two clients that have both found the lock stale can both end up holding it, with no
  time passing: the second one's unconditional delete removes the lock the first has just
  created, and both conditional creations succeed. Such overlapping recoveries do happen, in
  runs in which every heartbeat is on time and nobody holds the lock.\<close>

theorem overlapping_recoveries_share_the_lock:
  assumes "i \<noteq> j" "0 \<le> ttl"
  shows "(\<forall>s. lk_pc s i = Stale \<and> lk_pc s j = Stale \<longrightarrow>
      (\<exists>t. (\<lambda>u v. lock_step ttl u v \<and> lk_wall v = lk_wall u)\<^sup>*\<^sup>* s t \<and> {i, j} \<subseteq> holders t)) \<and>
    (\<exists>s. timely_reachable 0 ttl s \<and> holders s = {} \<and> lk_pc s i = Stale \<and> lk_pc s j = Stale)"
  using both_recoveries_hold [OF assms(1)] recoveries_overlap [OF assms] by blast

text \<open>Clients 3 and 2 hold the lock at once at the end of a run from an empty bucket.\<close>

theorem overlapping_recoveries_share_the_lock_witness:
  "\<exists>w t. (lock_step (seconds 60))\<^sup>*\<^sup>* (lock_init w) t \<and> {3, 2} \<subseteq> holders t"
proof -
  have "(3 :: nat) \<noteq> 2" "0 \<le> seconds 60" by (simp_all add: seconds_def)
  from overlapping_recoveries_share_the_lock [OF this] obtain w s t where
    s: "(timely_step 0 (seconds 60))\<^sup>*\<^sup>* (lock_init w) s" and
    t: "(\<lambda>u v. lock_step (seconds 60) u v \<and> lk_wall v = lk_wall u)\<^sup>*\<^sup>* s t" "{3, 2} \<subseteq> holders t"
    by blast
  from s have "(lock_step (seconds 60))\<^sup>*\<^sup>* (lock_init w) s"
    by (rule rtranclp_mono [THEN predicate2D, rotated]) (auto simp: timely_step_def)
  moreover from t(1) have "(lock_step (seconds 60))\<^sup>*\<^sup>* s t"
    by (rule rtranclp_mono [THEN predicate2D, rotated]) auto
  ultimately show ?thesis using t(2) by (meson rtranclp_trans)
qed

end
