(* ===== verification/Data_Properties.thy ===== *)
theory Data_Properties
  imports Push_Wire Demo_World
begin

text \<open>
  The properties of the data: object keys, the JSON documents of the bucket, the chain they
  describe, the refspecs of a push and the metadata values it sends.
\<close>

text \<open>Distinct refs and shas have distinct bundle keys, and the sha can be read back from
  the key: this is how both engines recognise the bundles of a listing.\<close>

lemma bundle_keys_identify_ref_and_sha:
  assumes "is_valid_bundle_stem sha" "is_valid_bundle_stem sha'"
  shows "(bundle_key pfx r sha = bundle_key pfx r' sha' \<longleftrightarrow> r = r' \<and> sha = sha') \<and>
    parse_remote_sha_stem_from_key (bundle_key pfx r sha) = Some sha"
  using bundle_key_inject [OF assms] parse_stem_bundle_key [OF assms(1)] by blast

lemma bundle_keys_identify_ref_and_sha_example:
  "bundle_key None ''refs/heads/a'' (demo_sha CHR ''a'') \<noteq> bundle_key None ''refs/heads/b'' (demo_sha CHR ''a'')"
  using bundle_keys_identify_ref_and_sha [of "demo_sha CHR ''a''" "demo_sha CHR ''a''" None
      "''refs/heads/a''" "''refs/heads/b''"] by simp

text \<open>\<open>pack_sha_from_full_key\<close> recognises exactly the keys of packs and pack indexes under the
  given prefix, and gives the sha they were built from.\<close>

lemma pack_keys_are_recognised_exactly:
  "pack_sha_from_full_key pfx key = Some sha \<longleftrightarrow>
     is_valid_bundle_stem sha \<and> (key = pack_key pfx sha \<or> key = pack_idx_key pfx sha)"
  by (rule pack_sha_from_full_key_Some)

text \<open>A chain manifest that is typed and of the current version reads back as it was written,
  and whatever bytes are read, a manifest that comes out is typed: its shas are 40 lower-case
  hex digits and its numbers fit their integer types.\<close>

lemma chain_manifest_roundtrip:
  assumes "json_parse x (json_print x (json_of_chain c)) = Some (json_of_chain c)"
    and "chain_typed c" "cm_v c = CHAIN_SCHEMA_VERSION"
  shows "chain_from_json_bytes x (chain_to_json_pretty x c) = Inr c \<and>
    (\<forall>b c'. chain_from_json_bytes x b \<noteq> Inr c' \<or> (chain_typed c' \<and> cm_v c' = CHAIN_SCHEMA_VERSION))"
  using chain_bytes_roundtrip [OF assms] chain_from_json_bytes_typed [of x] by blast

definition demo_manifest :: chain_manifest where
  "demo_manifest = \<lparr>cm_v = 1, cm_tip = demo_sha CHR ''b'', cm_full_at = demo_sha CHR ''a'',
     cm_segments =
       [\<lparr>seg_sha = demo_sha CHR ''b'', seg_parent_sha = Some (demo_sha CHR ''a''),
         seg_pack = pack_key None (demo_sha CHR ''c''), seg_bytes = 7\<rparr>,
        \<lparr>seg_sha = demo_sha CHR ''a'', seg_parent_sha = None,
         seg_pack = pack_key None (demo_sha CHR ''d''), seg_bytes = 10\<rparr>]\<rparr>"

lemma demo_manifest_wf: "chain_wf demo_manifest"
  by (simp add: chain_wf_def demo_manifest_def chain_typed_def segment_wf_def chain_ok_def
      CHAIN_SCHEMA_VERSION_def)

lemma chain_manifest_roundtrip_example:
  "chain_from_json_bytes demo_ext (chain_to_json_pretty demo_ext demo_manifest) = Inr demo_manifest"
  using chain_manifest_roundtrip [of demo_ext demo_manifest] demo_manifest_wf by (simp add: chain_wf_def)

text \<open>The manifest of the next push is well formed when the previous one is: it starts at the
  new tip, every segment's parent is the next segment's sha, and the chain ends, with no
  parent, at \<open>full_at\<close>. A push that is not forced keeps the previous chain below its own
  segment; a forced one starts over.\<close>

lemma next_manifest_keeps_the_chain_linked:
  assumes "\<And>p. prior = Some p \<Longrightarrow> chain_wf p" "seg_sha g = local_tip"
    and "is_valid_bundle_stem local_tip" "seg_bytes g < 2 ^ 64"
  shows "chain_wf (next_manifest prior local_tip g force) \<and>
    tl (cm_segments (next_manifest prior local_tip g force)) =
      (case prior of Some p \<Rightarrow> if force then [] else cm_segments p | None \<Rightarrow> [])"
proof
  show "chain_wf (next_manifest prior local_tip g force)" by (rule next_manifest_wf [OF assms])
qed (cases force; cases prior; simp add: next_manifest_def)

lemma next_manifest_keeps_the_chain_linked_example:
  "chain_wf (next_manifest (Some demo_manifest) (demo_sha CHR ''d'')
     \<lparr>seg_sha = demo_sha CHR ''d'', seg_parent_sha = None, seg_pack = pack_key None (demo_sha CHR ''b''),
      seg_bytes = 3\<rparr> False)"
  by (rule next_manifest_keeps_the_chain_linked [THEN conjunct1]) (simp_all add: demo_manifest_wf)

text \<open>The parser of \<open>push\<close> arguments inverts git's way of writing a refspec, and accepts
  nothing else: what it accepts is its own result written out, with a valid ref name.\<close>

lemma refspec_parser_is_exact:
  assumes "refspec_ok x p"
  shows "parse_push_args x (show_push_spec p) = Inr p \<and>
    (\<forall>args q. parse_push_args x args \<noteq> Inr q \<or>
       (args = show_push_spec q \<and> ref_name_ok x (ps_remote_ref q)))"
  using parse_show_push_spec [OF assms] parse_push_args_Inr [of x] by blast

lemma refspec_parser_is_exact_example:
  "parse_push_args demo_ext ''+main:refs/heads/main'' =
     Inr \<lparr>ps_force = True, ps_local_spec = ''main'', ps_remote_ref = ''refs/heads/main''\<rparr>"
  using refspec_parser_is_exact [of demo_ext
      "\<lparr>ps_force = True, ps_local_spec = ''main'', ps_remote_ref = ''refs/heads/main''\<rparr>"]
  by (simp add: refspec_ok_def show_push_spec_def)

text \<open>A commit message that goes into an HTTP header contains no ASCII control character
  afterwards and is never longer; when it is ASCII, every other character is kept in place.\<close>

lemma sanitized_metadata_is_safe:
  "list_all (\<lambda>c. \<not> control_byte c) (sanitize_metadata_value s) \<and>
   length (sanitize_metadata_value s) \<le> length s \<and>
   (\<not> list_all (\<lambda>c. (of_char c :: nat) < 128) s \<or>
    sanitize_metadata_value s = map (\<lambda>c. if control_byte c then CHR '' '' else c) s)"
  using sanitize_no_control [of _ s] sanitize_length [of s] sanitize_ascii [of s]
  by (auto simp: list_all_iff)

lemma sanitized_metadata_example:
  "sanitize_metadata_value ''fix: typo'' = ''fix: typo''"
  using sanitized_metadata_is_safe [of "''fix: typo''"] by (simp add: control_byte_def)

end
