(* ===== verification/Git_History.thy ===== *)
theory Git_History
  imports Git_Repo
begin

text \<open>
  The walks over the object graph in \<open>src/git.rs\<close>: \<open>peel_tag_chain\<close>, the breadth-first search
  of \<open>shallow_boundaries\<close>, the rewriting of \<open>.git/shallow\<close> (\<open>write_shallow_file\<close>,
  \<open>entry_remains_a_boundary\<close>) and \<open>parse_dotted_key\<close>. The two loops run until the graph stops
  them, so they are partial functions whose result is \<open>None\<close> when they do not return; that
  they return on a finite object database is proved in \<open>Git_History_Proofs\<close>.
\<close>

subsection \<open>Tags\<close>

datatype peeled_tip =
    PeeledCommit string "string list"
  | PeeledTree string "string list"
  | PeeledBlob string "string list"

partial_function (option) peel_loop ::
    "git_repo \<Rightarrow> string list \<Rightarrow> string list \<Rightarrow> string \<Rightarrow> (git_error + peeled_tip) option" where
  "peel_loop repo visited tag_chain current =
     (if current \<in> set visited then Some (Inl (TagChainCycle current))
      else case rp_find_object repo current of
        Inl e \<Rightarrow> Some (Inl e)
      | Inr object \<Rightarrow>
          (case object of
             CommitObject _ \<Rightarrow> Some (Inr (PeeledCommit current tag_chain))
           | TagObject target \<Rightarrow>
               (case target of
                  Inl e \<Rightarrow> Some (Inl e)
                | Inr target_id \<Rightarrow>
                    peel_loop repo (current # visited) (tag_chain @ [current]) target_id)
           | TreeObject \<Rightarrow> Some (Inr (PeeledTree current tag_chain))
           | BlobObject \<Rightarrow> Some (Inr (PeeledBlob current tag_chain))))"

definition peel_tag_chain :: "git_repo \<Rightarrow> string \<Rightarrow> (git_error + peeled_tip) option" where
  "peel_tag_chain repo tip = peel_loop repo [] [] tip"

subsection \<open>Shallow boundaries\<close>

text \<open>
  The queue holds commits with their depth. Depths stay below the depth asked for, a
  \<open>u32\<close>, so \<open>depth + 1\<close> does not overflow.
\<close>

partial_function (option) boundary_search ::
    "git_repo \<Rightarrow> nat \<Rightarrow> string list \<Rightarrow> string list \<Rightarrow> (string \<times> nat) list \<Rightarrow>
     (git_error + string list) option" where
  "boundary_search repo max_depth seen frontier queue =
     (case queue of
        [] \<Rightarrow> Some (Inr frontier)
      | (oid, depth) # rest \<Rightarrow>
          if oid \<in> set seen then boundary_search repo max_depth seen frontier rest
          else if depth = max_depth then
            boundary_search repo max_depth (oid # seen) (frontier @ [oid]) rest
          else case rp_peel_to_commit repo oid of
            Inl e \<Rightarrow> Some (Inl e)
          | Inr parents \<Rightarrow>
              boundary_search repo max_depth (oid # seen) frontier
                (rest @ map (\<lambda>p. (p, depth + 1)) (filter (\<lambda>p. p \<notin> set (oid # seen)) parents)))"

definition shallow_boundaries ::
    "git_repo \<Rightarrow> string \<Rightarrow> nat \<Rightarrow> (git_error + string list) option" where
  "shallow_boundaries repo tip max_depth =
     (case peel_tag_chain repo tip of
        None \<Rightarrow> None
      | Some (Inl e) \<Rightarrow> Some (Inl e)
      | Some (Inr (PeeledCommit commit _)) \<Rightarrow> boundary_search repo max_depth [] [] [(commit, 1)]
      | Some (Inr (PeeledTree _ _)) \<Rightarrow> Some (Inr [])
      | Some (Inr (PeeledBlob _ _)) \<Rightarrow> Some (Inr []))"

subsection \<open>The shallow file\<close>

definition entry_remains_a_boundary :: "git_repo \<Rightarrow> string \<Rightarrow> bool" where
  "entry_remains_a_boundary repo oid =
     (case rp_find_object repo oid of
        Inl _ \<Rightarrow> False
      | Inr _ \<Rightarrow>
          (case rp_peel_to_commit repo oid of
             Inl _ \<Rightarrow> False
           | Inr parents \<Rightarrow> parents \<noteq> [] \<and> list_ex (\<lambda>p. \<not> rp_contains repo p) parents))"

definition ascii_space :: "char \<Rightarrow> bool" where
  "ascii_space c \<longleftrightarrow> c \<in> {CHR '' '', CHR 0x09, CHR 0x0A, CHR 0x0C, CHR 0x0D}"

definition trim_ascii :: "string \<Rightarrow> string" where
  "trim_ascii s = rev (dropWhile ascii_space (rev (dropWhile ascii_space s)))"

fun split_lines :: "string \<Rightarrow> string list" where
  "split_lines [] = [[]]"
| "split_lines (c # s) =
     (if c = CHR 0x0A then [] # split_lines s
      else case split_lines s of l # ls \<Rightarrow> (c # l) # ls | [] \<Rightarrow> [[c]])"

definition shallow_entries :: "ext \<Rightarrow> string \<Rightarrow> string list" where
  "shallow_entries x content =
     List.map_filter (\<lambda>line. if line = [] then None else oid_from_hex x line)
       (map trim_ascii (split_lines content))"

text \<open>
  The outcomes of the file operations: reading (empty when the file is absent), opening the
  repository, unlinking (an absent file is no error) and writing.
\<close>

record shallow_io =
  si_read :: "git_error option"
  si_open :: "git_error + git_repo"
  si_remove :: "git_error option"
  si_write :: "git_error option"

definition read_or_empty :: "git_error option \<Rightarrow> string option \<Rightarrow> git_error + string" where
  "read_or_empty failure file =
     (case failure of Some e \<Rightarrow> Inl e
      | None \<Rightarrow> Inr (case file of None \<Rightarrow> [] | Some bytes \<Rightarrow> bytes))"

definition shallow_stale :: "ext \<Rightarrow> string \<Rightarrow> string list \<Rightarrow> string list" where
  "shallow_stale x content boundaries =
     filter (\<lambda>oid. oid \<notin> set boundaries) (remdups (shallow_entries x content))"

text \<open>The file is \<open>None\<close> when absent; the result is paired with the file afterwards.\<close>

definition write_shallow_file ::
    "ext \<Rightarrow> shallow_io \<Rightarrow> string list \<Rightarrow> string option \<Rightarrow> (git_error + unit) \<times> string option" where
  "write_shallow_file x env boundaries file =
     (case read_or_empty (si_read env) file of
        Inl e \<Rightarrow> (Inl e, file)
      | Inr content \<Rightarrow>
          (let stale = shallow_stale x content boundaries;
               kept = (if stale = [] then Inr []
                 else case si_open env of
                   Inl e \<Rightarrow> Inl e
                 | Inr repo \<Rightarrow> Inr (filter (entry_remains_a_boundary repo) stale))
           in case kept of
                Inl e \<Rightarrow> (Inl e, file)
              | Inr kept_entries \<Rightarrow>
                  (let final = remdups (boundaries @ kept_entries) in
                   if final = [] then
                     (case si_remove env of
                        Some e \<Rightarrow> (Inl e, file)
                      | None \<Rightarrow> (Inr (), None))
                   else
                     (let buf = concat (map (\<lambda>oid. oid @ [CHR 0x0A]) (sort final)) in
                      case si_write env of
                        Some e \<Rightarrow> (Inl e, file)
                      | None \<Rightarrow> (Inr (), Some buf)))))"

subsection \<open>Configuration keys\<close>

record dotted_key =
  dk_section :: string
  dk_subsection :: "string option"
  dk_name :: string

definition parse_dotted_key :: "string \<Rightarrow> git_error + dotted_key" where
  "parse_dotted_key key =
     (case (split_once CHR ''.'' key, rsplit_once CHR ''.'' key) of
        (Some (before_first, after_first), Some (before_last, after_last)) \<Rightarrow>
          if before_first = [] \<or> after_last = [] then Inl (ConfigKeyParse key)
          else Inr \<lparr>dk_section = before_first,
                 dk_subsection = (if before_first = before_last then None
                   else Some (take (length before_last - length before_first - 1) after_first)),
                 dk_name = after_last\<rparr>
      | _ \<Rightarrow> Inl (ConfigKeyParse key))"

end
