(* ===== verification/Path_Index.thy ===== *)
theory Path_Index
  imports Git_History
begin

text \<open>
  Trees and the path index: \<open>src/packchain/git.rs\<close> (\<open>enumerate_tree_closure\<close>,
  \<open>walk_tree\<close>, \<open>extract_path_index\<close>), the \<open>PathIndex\<close> document of
  \<open>src/packchain/schema.rs\<close> and its reader and writer in \<open>src/packchain/manifest.rs\<close>.
  A \<open>BTreeMap\<close> is an association list sorted by key. Both walks run until the object
  database stops them, so they are partial functions whose result is \<open>None\<close> when they do
  not return.
\<close>

subsection \<open>Ordered maps\<close>

fun bt_insert :: "string \<Rightarrow> 'a \<Rightarrow> (string \<times> 'a) list \<Rightarrow> (string \<times> 'a) list" where
  "bt_insert k v [] = [(k, v)]"
| "bt_insert k v ((k', v') # m) =
     (if k < k' then (k, v) # (k', v') # m
      else if k = k' then (k, v) # m
      else (k', v') # bt_insert k v m)"

definition bt_of_list :: "(string \<times> 'a) list \<Rightarrow> (string \<times> 'a) list" where
  "bt_of_list kvs = fold (\<lambda>(k, v). bt_insert k v) kvs []"

definition bt_sorted :: "(string \<times> 'a) list \<Rightarrow> bool" where
  "bt_sorted m \<longleftrightarrow> sorted_wrt (<) (map fst m)"

lemma map_of_bt_insert [simp]: "map_of (bt_insert k v m) = (map_of m)(k \<mapsto> v)"
  by (induction m) auto

lemma set_bt_insert: "fst ` set (bt_insert k v m) = insert k (fst ` set m)"
  by (simp flip: dom_map_of_conv_image_fst)

lemma bt_sorted_Cons [simp]:
  "bt_sorted ((k, v) # m) \<longleftrightarrow> (\<forall>k' \<in> fst ` set m. k < k') \<and> bt_sorted m"
  by (simp add: bt_sorted_def)

lemma bt_sorted_Nil [simp]: "bt_sorted []"
  by (simp add: bt_sorted_def)

lemma bt_sorted_insert: "bt_sorted m \<Longrightarrow> bt_sorted (bt_insert k v m)"
proof (induction m)
  case (Cons p m)
  obtain k' v' where p: "p = (k', v')" by force
  from Cons show ?case
    by (cases "k < k'"; cases "k = k'") (auto simp: p set_bt_insert simp del: image_iff dest: less_trans)
qed simp

lemma bt_insert_below: "(\<forall>k' \<in> fst ` set m. k' < k) \<Longrightarrow> bt_insert k v m = m @ [(k, v)]"
  by (induction m) (auto simp: not_less_iff_gr_or_eq)

lemma bt_of_sorted: "bt_sorted m \<Longrightarrow> bt_of_list m = m"
proof (induction m rule: rev_induct)
  case (snoc p m)
  obtain k v where p: "p = (k, v)" by force
  from snoc.prems have "bt_sorted m" "\<forall>k' \<in> fst ` set m. k' < k"
    by (auto simp: bt_sorted_def sorted_wrt_append p)
  with snoc.IH show ?case by (simp add: bt_of_list_def p bt_insert_below)
qed (simp add: bt_of_list_def)

lemma bt_sorted_of_list: "bt_sorted (bt_of_list kvs)"
  unfolding bt_of_list_def
  by (rule fold_invariant [where Q = "\<lambda>_. True"])
    (auto simp: bt_sorted_insert)

subsection \<open>The path index document (src/packchain/schema.rs)\<close>

datatype path_node =
    BlobNode string
  | TreeNode "(string \<times> path_node) list"

record path_index =
  px_v :: nat
  px_tip :: string
  px_tree :: "(string \<times> path_node) list"

definition PATH_INDEX_SCHEMA_VERSION :: nat where
  "PATH_INDEX_SCHEMA_VERSION = 2"

text \<open>An untagged enum: a string is a blob's sha, an object is a tree.\<close>

fun node_of_json :: "json \<Rightarrow> path_node option" where
  "node_of_json (JStr s) = map_option BlobNode (de_sha40 (JStr s))"
| "node_of_json (JObj kvs) =
     map_option (\<lambda>kids. TreeNode (bt_of_list kids))
       (those (map (\<lambda>(k, j). map_option (Pair k) (node_of_json j)) kvs))"
| "node_of_json _ = None"

fun json_of_node :: "path_node \<Rightarrow> json" where
  "json_of_node (BlobNode s) = JStr s"
| "json_of_node (TreeNode kids) = JObj (map (\<lambda>(k, n). (k, json_of_node n)) kids)"

definition de_tree :: "json \<Rightarrow> (string \<times> path_node) list option" where
  "de_tree j = (case node_of_json j of Some (TreeNode kids) \<Rightarrow> Some kids | _ \<Rightarrow> None)"

definition version_peek :: "json \<Rightarrow> nat option" where
  "version_peek j =
     Option.bind (json_fields [''v''] j) (\<lambda>fs. de_field (de_uint 32) fs ''v'')"

definition path_index_of_json :: "json \<Rightarrow> path_index option" where
  "path_index_of_json j =
     Option.bind (json_fields [''v'', ''tip'', ''tree''] j) (\<lambda>fs.
     Option.bind (de_field (de_uint 32) fs ''v'') (\<lambda>v.
     Option.bind (de_field de_sha40 fs ''tip'') (\<lambda>tip.
     Option.bind (de_field de_tree fs ''tree'') (\<lambda>tree.
     Some \<lparr>px_v = v, px_tip = tip, px_tree = tree\<rparr>))))"

definition json_of_path_index :: "path_index \<Rightarrow> json" where
  "json_of_path_index p = JObj [
     (''v'', JInt (int (px_v p))),
     (''tip'', JStr (px_tip p)),
     (''tree'', json_of_node (TreeNode (px_tree p)))]"

definition path_index_from_json_bytes :: "ext \<Rightarrow> string \<Rightarrow> packchain_error + path_index" where
  "path_index_from_json_bytes x bytes =
     (case Option.bind (json_parse x bytes) version_peek of
        None \<Rightarrow> Inl ParseJson
      | Some v \<Rightarrow>
          if v \<noteq> PATH_INDEX_SCHEMA_VERSION
          then Inl (UnsupportedSchemaVersion v PATH_INDEX_SCHEMA_VERSION)
          else (case Option.bind (json_parse x bytes) path_index_of_json of
                  None \<Rightarrow> Inl ParseJson | Some parsed \<Rightarrow> Inr parsed))"

definition path_index_to_json_pretty :: "ext \<Rightarrow> path_index \<Rightarrow> string" where
  "path_index_to_json_pretty x p = json_print x (json_of_path_index p)"

subsection \<open>Loading and storing it (src/packchain/manifest.rs)\<close>

definition load_path_index ::
    "ext \<Rightarrow> 's store_api \<Rightarrow> string option \<Rightarrow> string \<Rightarrow>
     ('s, packchain_error, path_index option) io" where
  "load_path_index x st pfx remote_ref =
     match_io (st_get_bytes st (path_index_key pfx remote_ref))
       (\<lambda>e. case e of NotFound _ \<Rightarrow> ok None | _ \<Rightarrow> fail_with (PackStore e))
       (\<lambda>bytes. case path_index_from_json_bytes x bytes of
          Inr parsed \<Rightarrow> ok (Some parsed)
        | Inl e \<Rightarrow> (case e of UnsupportedSchemaVersion _ _ \<Rightarrow> ok None | _ \<Rightarrow> fail_with e))"

definition write_path_index ::
    "ext \<Rightarrow> 's store_api \<Rightarrow> string option \<Rightarrow> string \<Rightarrow> path_index \<Rightarrow>
     ('s, packchain_error, unit) io" where
  "write_path_index x st pfx remote_ref index =
     map_err PackStore
       (st_put_bytes st (path_index_key pfx remote_ref) (path_index_to_json_pretty x index)
          default_put_opts)"

subsection \<open>Trees\<close>

text \<open>
  A tree as gix reads it: looking it up may fail, and so may the decoding of each entry. The
  kinds are those of \<open>EntryKind\<close>; a \<open>GitLink\<close> is the commit of a submodule.
\<close>

datatype entry_kind = TreeEntry | BlobEntry | BlobExecutable | LinkEntry | GitLink

record tree_entry =
  te_kind :: entry_kind
  te_filename :: string
  te_oid :: string

record tree_db =
  td_tree :: "string \<Rightarrow> git_error + (git_error + tree_entry) list"
  td_commit_tree :: "string \<Rightarrow> git_error + string"

definition sha40_from_oid :: "string \<Rightarrow> packchain_error + string" where
  "sha40_from_oid oid = (if length oid = 40 then Inr oid else Inl (InvalidSha oid))"

lemma sha40_from_oid_Inr [simp]: "sha40_from_oid oid = Inr s \<longleftrightarrow> length oid = 40 \<and> s = oid"
  by (auto simp: sha40_from_oid_def)

subsection \<open>The closure of a tree\<close>

text \<open>
  The \<open>for\<close> loop over a tree's entries: subtrees are pushed on the stack (its top is the
  head of the list), blobs are listed when new, submodules are skipped.
\<close>

fun closure_entries ::
    "string list \<Rightarrow> string list \<Rightarrow> string list \<Rightarrow> (git_error + tree_entry) list \<Rightarrow>
     git_error + (string list \<times> string list \<times> string list)" where
  "closure_entries oids visited stack [] = Inr (oids, visited, stack)"
| "closure_entries oids visited stack (Inl e # rest) = Inl e"
| "closure_entries oids visited stack (Inr entry # rest) =
     (case te_kind entry of
        TreeEntry \<Rightarrow> closure_entries oids visited (te_oid entry # stack) rest
      | GitLink \<Rightarrow> closure_entries oids visited stack rest
      | _ \<Rightarrow>
          if te_oid entry \<in> set visited then closure_entries oids visited stack rest
          else closure_entries (oids @ [te_oid entry]) (te_oid entry # visited) stack rest)"

definition closure_visit ::
    "tree_db \<Rightarrow> string list \<Rightarrow> string list \<Rightarrow> string \<Rightarrow> string list \<Rightarrow>
     git_error + (string list \<times> string list \<times> string list)" where
  "closure_visit db oids visited current stack =
     (case td_tree db current of
        Inl e \<Rightarrow> Inl e
      | Inr entries \<Rightarrow> closure_entries (oids @ [current]) (current # visited) stack entries)"

partial_function (option) closure_loop ::
    "tree_db \<Rightarrow> string list \<Rightarrow> string list \<Rightarrow> string list \<Rightarrow> (git_error + string list) option" where
  "closure_loop db stack oids visited =
     (case stack of
        [] \<Rightarrow> Some (Inr oids)
      | current # rest \<Rightarrow>
          if current \<in> set visited then closure_loop db rest oids visited
          else (case closure_visit db oids visited current rest of
                  Inl e \<Rightarrow> Some (Inl e)
                | Inr after \<Rightarrow>
                    closure_loop db (snd (snd after)) (fst after) (fst (snd after))))"

definition enumerate_tree_closure :: "tree_db \<Rightarrow> string \<Rightarrow> (git_error + string list) option" where
  "enumerate_tree_closure db tree = closure_loop db [tree] [] []"

subsection \<open>The index of a tree\<close>

text \<open>
  \<open>walk_tree\<close> checks its ancestors and reads the tree (\<open>open_tree\<close>), then inserts each
  entry of it into the map, a subtree after walking it with an empty map of its own. The
  removal of the tree from \<open>ancestors\<close> at the end is the scope of the list here.
\<close>

definition open_tree ::
    "tree_db \<Rightarrow> string list \<Rightarrow> string \<Rightarrow> packchain_error + (git_error + tree_entry) list" where
  "open_tree db ancestors tree_id =
     (if tree_id \<in> set ancestors then Inl (TreeCycle tree_id)
      else case td_tree db tree_id of Inl e \<Rightarrow> Inl (PackGit e) | Inr entries \<Rightarrow> Inr entries)"

partial_function (option) walk_entries ::
    "tree_db \<Rightarrow> (git_error + tree_entry) list \<Rightarrow> string list \<Rightarrow> (string \<times> path_node) list \<Rightarrow>
     (packchain_error + (string \<times> path_node) list) option" where
  "walk_entries db entries ancestors out =
     (case entries of
        [] \<Rightarrow> Some (Inr out)
      | item # rest \<Rightarrow>
          (case item of
             Inl e \<Rightarrow> Some (Inl (PackGit e))
           | Inr entry \<Rightarrow>
               if \<not> utf8_valid (te_filename entry)
               then Some (Inl (InvalidPath (te_filename entry)))
               else
                 (case te_kind entry of
                    TreeEntry \<Rightarrow>
                      (case open_tree db ancestors (te_oid entry) of
                         Inl e \<Rightarrow> Some (Inl e)
                       | Inr sub_entries \<Rightarrow>
                           Option.bind (walk_entries db sub_entries (te_oid entry # ancestors) [])
                             (\<lambda>r. case r of
                                Inl e \<Rightarrow> Some (Inl e)
                              | Inr subtree \<Rightarrow>
                                  walk_entries db rest ancestors
                                    (bt_insert (te_filename entry) (TreeNode subtree) out)))
                  | GitLink \<Rightarrow> walk_entries db rest ancestors out
                  | _ \<Rightarrow>
                      (case sha40_from_oid (te_oid entry) of
                         Inl e \<Rightarrow> Some (Inl e)
                       | Inr sha \<Rightarrow>
                           walk_entries db rest ancestors
                             (bt_insert (te_filename entry) (BlobNode sha) out)))))"

definition walk_tree ::
    "tree_db \<Rightarrow> string \<Rightarrow> (packchain_error + (string \<times> path_node) list) option" where
  "walk_tree db tree_id =
     (case open_tree db [] tree_id of
        Inl e \<Rightarrow> Some (Inl e)
      | Inr entries \<Rightarrow> walk_entries db entries [tree_id] [])"

definition extract_path_index ::
    "tree_db \<Rightarrow> peeled_tip \<Rightarrow> string \<Rightarrow> (packchain_error + path_index option) option" where
  "extract_path_index db peeled unpeeled_tip =
     (case (case peeled of
              PeeledCommit commit _ \<Rightarrow>
                (case td_commit_tree db commit of
                   Inl e \<Rightarrow> Inl (PackGit e) | Inr tree_id \<Rightarrow> Inr (Some tree_id))
            | PeeledTree tree _ \<Rightarrow> Inr (Some tree)
            | PeeledBlob _ _ \<Rightarrow> Inr None) of
        Inl e \<Rightarrow> Some (Inl e)
      | Inr None \<Rightarrow> Some (Inr None)
      | Inr (Some tree_id) \<Rightarrow>
          (case walk_tree db tree_id of
             None \<Rightarrow> None
           | Some (Inl e) \<Rightarrow> Some (Inl e)
           | Some (Inr root) \<Rightarrow>
               (case sha40_from_oid unpeeled_tip of
                  Inl e \<Rightarrow> Some (Inl e)
                | Inr tip \<Rightarrow> Some (Inr (Some
                    \<lparr>px_v = PATH_INDEX_SCHEMA_VERSION, px_tip = tip, px_tree = root\<rparr>)))))"

end
