(* ===== verification/Path_Index_Proofs.thy ===== *)
theory Path_Index_Proofs
  imports Path_Index Demo_World
begin

text \<open>
  What the tree walks compute. \<open>subtrees\<close> and \<open>tree_blobs\<close> say which objects a tree
  contains; \<open>enumerate_tree_closure\<close> lists exactly these. \<open>tree_find\<close> resolves a path by
  descending from tree to tree; looking a path up in the index \<open>walk_tree\<close> builds gives the
  same answer. Both walks return when the tree has finitely many subtrees. The index
  document reads back as written.
\<close>

subsection \<open>The objects of a tree\<close>

inductive_set subtrees :: "tree_db \<Rightarrow> string \<Rightarrow> string set"
  for db :: tree_db and root :: string where
  root: "root \<in> subtrees db root"
| child: "t \<in> subtrees db root \<Longrightarrow> td_tree db t = Inr es \<Longrightarrow> Inr e \<in> set es \<Longrightarrow>
    te_kind e = TreeEntry \<Longrightarrow> te_oid e \<in> subtrees db root"

definition is_blob_entry :: "tree_entry \<Rightarrow> bool" where
  "is_blob_entry e \<longleftrightarrow> te_kind e \<noteq> TreeEntry \<and> te_kind e \<noteq> GitLink"

definition entry_trees :: "(git_error + tree_entry) list \<Rightarrow> string set" where
  "entry_trees es = {te_oid e | e. Inr e \<in> set es \<and> te_kind e = TreeEntry}"

definition entry_blobs :: "(git_error + tree_entry) list \<Rightarrow> string set" where
  "entry_blobs es = {te_oid e | e. Inr e \<in> set es \<and> is_blob_entry e}"

definition tree_blobs :: "tree_db \<Rightarrow> string \<Rightarrow> string set" where
  "tree_blobs db root = {b. \<exists>t \<in> subtrees db root. \<exists>es. td_tree db t = Inr es \<and> b \<in> entry_blobs es}"

text \<open>Something of the tree cannot be read.\<close>

definition unreadable :: "tree_db \<Rightarrow> string \<Rightarrow> git_error \<Rightarrow> bool" where
  "unreadable db root e \<longleftrightarrow>
     (\<exists>t \<in> subtrees db root. td_tree db t = Inl e \<or> (\<exists>es. td_tree db t = Inr es \<and> Inl e \<in> set es))"

lemma entry_sets [simp]:
  "entry_trees [] = {}" "entry_blobs [] = {}"
  "entry_trees (Inl x # es) = entry_trees es" "entry_blobs (Inl x # es) = entry_blobs es"
  "entry_trees (Inr e # es) = (if te_kind e = TreeEntry then insert (te_oid e) (entry_trees es) else entry_trees es)"
  "entry_blobs (Inr e # es) = (if is_blob_entry e then insert (te_oid e) (entry_blobs es) else entry_blobs es)"
  by (auto simp: entry_trees_def entry_blobs_def)

lemma subtrees_entry_trees:
  "t \<in> subtrees db root \<Longrightarrow> td_tree db t = Inr es \<Longrightarrow> entry_trees es \<subseteq> subtrees db root"
  by (auto simp: entry_trees_def intro: subtrees.child)

subsection \<open>The closure\<close>

lemma closure_entries_Inl: "closure_entries oids visited stack es = Inl e \<Longrightarrow> Inl e \<in> set es"
  by (induction oids visited stack es rule: closure_entries.induct)
    (auto split: entry_kind.splits if_splits)

lemma closure_entries_Inr:
  "closure_entries oids visited stack es = Inr (oids', visited', stack') \<Longrightarrow>
   set visited = set oids \<Longrightarrow> distinct oids \<Longrightarrow>
   set visited' = set oids' \<and> distinct oids' \<and> set oids' = set oids \<union> entry_blobs es \<and>
     set stack' = set stack \<union> entry_trees es"
proof (induction es arbitrary: oids visited stack)
  case (Cons i es)
  show ?case
  proof (cases i)
    case (Inr e)
    show ?thesis
    proof (cases "te_kind e = TreeEntry \<or> te_kind e = GitLink")
      case True
      with Inr Cons.prems Cons.IH show ?thesis by (auto simp: is_blob_entry_def)
    next
      case False
      then have blob: "is_blob_entry e" by (simp add: is_blob_entry_def)
      have step: "closure_entries oids visited stack (i # es) =
          (if te_oid e \<in> set oids then closure_entries oids visited stack es
           else closure_entries (oids @ [te_oid e]) (te_oid e # visited) stack es)"
        using False Inr Cons.prems(2) by (cases "te_kind e") auto
      show ?thesis
      proof (cases "te_oid e \<in> set oids")
        case True
        with step Cons.prems Cons.IH [of oids visited stack] Inr blob show ?thesis
          by (auto simp: is_blob_entry_def)
      next
        case False
        with step Cons.prems Cons.IH [of "oids @ [te_oid e]" "te_oid e # visited" stack] Inr blob
        show ?thesis by (auto simp: is_blob_entry_def)
      qed
    qed
  qed (use Cons.prems in simp)
qed simp

text \<open>
  The state of the loop: everything listed belongs to the tree, everything on the stack is
  one of its subtrees, and the children of a listed subtree are listed or on the stack.
\<close>

definition closure_inv :: "tree_db \<Rightarrow> string \<Rightarrow> string list \<Rightarrow> string list \<Rightarrow> string list \<Rightarrow> bool" where
  "closure_inv db root stack oids visited \<longleftrightarrow>
     set visited = set oids \<and> distinct oids \<and> set stack \<subseteq> subtrees db root \<and>
     set oids \<subseteq> subtrees db root \<union> tree_blobs db root \<and> root \<in> set oids \<union> set stack \<and>
     (\<forall>t \<in> set oids \<inter> subtrees db root. \<exists>es. td_tree db t = Inr es \<and>
        entry_trees es \<subseteq> set oids \<union> set stack \<and> entry_blobs es \<subseteq> set oids)"

definition closure_result :: "tree_db \<Rightarrow> string \<Rightarrow> git_error + string list \<Rightarrow> bool" where
  "closure_result db root r \<longleftrightarrow>
     (case r of
        Inl e \<Rightarrow> unreadable db root e
      | Inr oids \<Rightarrow> distinct oids \<and> set oids = subtrees db root \<union> tree_blobs db root)"

lemma closure_inv_children:
  "closure_inv db root stack oids visited \<Longrightarrow> t \<in> set oids \<Longrightarrow> t \<in> subtrees db root \<Longrightarrow>
   td_tree db t = Inr es \<Longrightarrow>
   entry_trees es \<subseteq> set oids \<union> set stack \<and> entry_blobs es \<subseteq> set oids"
  unfolding closure_inv_def by (elim conjE) (drule (1) bspec [OF _ IntI], assumption, simp)

lemma closure_inv_done:
  assumes "closure_inv db root [] oids visited"
  shows "closure_result db root (Inr oids)"
proof -
  have trees: "t \<in> set oids" if "t \<in> subtrees db root" for t
    using that
  proof induction
    case root
    with assms show ?case by (simp add: closure_inv_def)
  next
    case (child t es e)
    then have "entry_trees es \<subseteq> set oids" using closure_inv_children [OF assms] by simp
    with child show ?case by (auto simp: entry_trees_def)
  qed
  moreover have "tree_blobs db root \<subseteq> set oids"
  proof
    fix b
    assume "b \<in> tree_blobs db root"
    then obtain t es where t: "t \<in> subtrees db root" "td_tree db t = Inr es" "b \<in> entry_blobs es"
      by (auto simp: tree_blobs_def)
    then have "entry_blobs es \<subseteq> set oids" using closure_inv_children [OF assms] trees by simp
    with t show "b \<in> set oids" by blast
  qed
  ultimately show ?thesis using assms by (auto simp: closure_result_def closure_inv_def)
qed

lemma closure_inv_skip:
  "closure_inv db root (current # rest) oids visited \<Longrightarrow> current \<in> set oids \<Longrightarrow>
   closure_inv db root rest oids visited"
  by (simp add: closure_inv_def insert_absorb)

lemma closure_inv_visit:
  assumes inv: "closure_inv db root (current # rest) oids visited" and new: "current \<notin> set oids"
    and apart: "subtrees db root \<inter> tree_blobs db root = {}"
    and visit: "closure_visit db oids visited current rest = Inr (oids', visited', stack')"
  shows "closure_inv db root stack' oids' visited' \<and> current \<in> set oids' \<and> set oids \<subseteq> set oids'"
proof -
  obtain es where es: "td_tree db current = Inr es"
    "closure_entries (oids @ [current]) (current # visited) rest es = Inr (oids', visited', stack')"
    using visit by (auto simp: closure_visit_def split: sum.splits)
  have old: "set visited = set oids" "distinct oids" "set rest \<subseteq> subtrees db root"
    "current \<in> subtrees db root" "set oids \<subseteq> subtrees db root \<union> tree_blobs db root"
    "root \<in> set oids \<union> insert current (set rest)"
    and old_children: "\<And>t. t \<in> set oids \<inter> subtrees db root \<Longrightarrow> \<exists>es. td_tree db t = Inr es \<and>
        entry_trees es \<subseteq> set oids \<union> insert current (set rest) \<and> entry_blobs es \<subseteq> set oids"
    using inv by (simp_all add: closure_inv_def)
  have new_sets: "set visited' = set oids'" "distinct oids'"
    "set oids' = insert current (set oids) \<union> entry_blobs es" "set stack' = set rest \<union> entry_trees es"
    using closure_entries_Inr [OF es(2)] old(1,2) new by simp_all
  have sub: "entry_trees es \<subseteq> subtrees db root" using subtrees_entry_trees [OF old(4) es(1)] .
  have blobs: "entry_blobs es \<subseteq> tree_blobs db root" using old(4) es(1) by (auto simp: tree_blobs_def)
  have children: "\<exists>es. td_tree db t = Inr es \<and> entry_trees es \<subseteq> set oids' \<union> set stack' \<and> entry_blobs es \<subseteq> set oids'"
    if t: "t \<in> set oids' \<inter> subtrees db root" for t
  proof (cases "t = current")
    case True
    with es(1) new_sets(3,4) show ?thesis by auto
  next
    case False
    with t new_sets(3) blobs apart have "t \<in> set oids \<inter> subtrees db root" by blast
    from old_children [OF this] show ?thesis unfolding new_sets(3,4) by blast
  qed
  have "set stack' \<subseteq> subtrees db root" unfolding new_sets(4) using sub old(3) by blast
  moreover have "set oids' \<subseteq> subtrees db root \<union> tree_blobs db root"
    unfolding new_sets(3) using old(4,5) blobs by blast
  moreover have "root \<in> set oids' \<union> set stack'" unfolding new_sets(3,4) using old(6) by blast
  ultimately have "closure_inv db root stack' oids' visited'"
    using new_sets(1,2) children by (simp add: closure_inv_def)
  with new_sets(3) show ?thesis by blast
qed

text \<open>Every round lists a new subtree or shortens the stack.\<close>

lemma closure_loop_result:
  assumes fin: "finite (subtrees db root)"
    and apart: "subtrees db root \<inter> tree_blobs db root = {}"
    and inv: "closure_inv db root stack oids visited"
  shows "\<exists>r. closure_loop db stack oids visited = Some r \<and> closure_result db root r"
  using inv
proof (induction "(card (subtrees db root - set oids), length stack)"
    arbitrary: stack oids visited rule: wf_induct_rule [OF wf_lex_prod [OF wf_less_than wf_less_than]])
  case (1 stack oids visited)
  have vis: "set visited = set oids" using "1.prems" by (simp add: closure_inv_def)
  show ?case
  proof (cases stack)
    case Nil
    with "1.prems" show ?thesis by (simp add: closure_loop.simps closure_inv_done)
  next
    case (Cons current rest)
    show ?thesis
    proof (cases "current \<in> set oids")
      case True
      then have "closure_inv db root rest oids visited"
        using closure_inv_skip "1.prems" Cons by blast
      then have "\<exists>r. closure_loop db rest oids visited = Some r \<and> closure_result db root r"
        by (intro "1.hyps") (simp_all add: Cons)
      with True Cons vis show ?thesis by (simp add: closure_loop.simps [of _ "current # rest"])
    next
      case False
      have cur: "current \<in> subtrees db root" using "1.prems" Cons by (simp add: closure_inv_def)
      show ?thesis
      proof (cases "closure_visit db oids visited current rest")
        case (Inl e)
        then have "unreadable db root e"
          using cur by (auto simp: closure_visit_def unreadable_def dest: closure_entries_Inl split: sum.splits)
        with Inl False Cons vis show ?thesis
          by (simp add: closure_loop.simps [of _ "current # rest"] closure_result_def)
      next
        case (Inr after)
        obtain oids' visited' stack' where after: "after = (oids', visited', stack')" by (cases after)
        note next_inv = closure_inv_visit [OF "1.prems" [unfolded Cons] False apart Inr [unfolded after]]
        have "subtrees db root - set oids' \<subset> subtrees db root - set oids"
          using next_inv cur False by auto
        then have "card (subtrees db root - set oids') < card (subtrees db root - set oids)"
          using fin by (intro psubset_card_mono) auto
        then have "\<exists>r. closure_loop db stack' oids' visited' = Some r \<and> closure_result db root r"
          using next_inv by (intro "1.hyps") simp_all
        with Inr after False Cons vis show ?thesis by (simp add: closure_loop.simps [of _ "current # rest"])
      qed
    qed
  qed
qed

lemma closure_inv_start: "closure_inv db root [root] [] []"
  by (simp add: closure_inv_def subtrees.root)

subsection \<open>The index\<close>

text \<open>A path in the index, and the same path followed through the trees of the repository.\<close>

fun index_blob :: "(string \<times> path_node) list \<Rightarrow> string list \<Rightarrow> string option" where
  "index_blob m [] = None"
| "index_blob m (n # ns) =
     (case map_of m n of
        None \<Rightarrow> None
      | Some (BlobNode sha) \<Rightarrow> if ns = [] then Some sha else None
      | Some (TreeNode kids) \<Rightarrow> if ns = [] then None else index_blob kids ns)"

text \<open>A well-formed tree names an entry once; of several the last one counts.\<close>

fun last_entry :: "string \<Rightarrow> (git_error + tree_entry) list \<Rightarrow> tree_entry option" where
  "last_entry n [] = None"
| "last_entry n (Inl x # es) = last_entry n es"
| "last_entry n (Inr e # es) =
     (case last_entry n es of
        Some e' \<Rightarrow> Some e'
      | None \<Rightarrow> if te_filename e = n \<and> te_kind e \<noteq> GitLink then Some e else None)"

fun tree_find :: "tree_db \<Rightarrow> (git_error + tree_entry) list \<Rightarrow> string list \<Rightarrow> string option" where
  "tree_find db es [] = None"
| "tree_find db es (n # ns) =
     (case last_entry n es of
        None \<Rightarrow> None
      | Some e \<Rightarrow>
          if te_kind e = TreeEntry then
            (if ns = [] then None
             else case td_tree db (te_oid e) of Inl x \<Rightarrow> None | Inr sub \<Rightarrow> tree_find db sub ns)
          else if ns = [] then Some (te_oid e) else None)"

definition indexes :: "tree_db \<Rightarrow> tree_entry \<Rightarrow> path_node option \<Rightarrow> bool" where
  "indexes db e node \<longleftrightarrow>
     (if te_kind e = TreeEntry
      then \<exists>kids sub. node = Some (TreeNode kids) \<and> td_tree db (te_oid e) = Inr sub \<and>
             (\<forall>ns. index_blob kids ns = tree_find db sub ns)
      else node = Some (BlobNode (te_oid e)))"

text \<open>What walking \<open>entries\<close> makes of the map \<open>out\<close>.\<close>

definition walked ::
    "tree_db \<Rightarrow> (git_error + tree_entry) list \<Rightarrow> (string \<times> path_node) list \<Rightarrow> (string \<times> path_node) list \<Rightarrow> bool" where
  "walked db entries out m \<longleftrightarrow> (bt_sorted out \<longrightarrow> bt_sorted m) \<and>
     (\<forall>n. case last_entry n entries of
            None \<Rightarrow> map_of m n = map_of out n
          | Some e \<Rightarrow> indexes db e (map_of m n))"

lemma walked_at:
  "walked db entries out m \<Longrightarrow>
   (case last_entry n entries of
      None \<Rightarrow> map_of m n = map_of out n | Some e \<Rightarrow> indexes db e (map_of m n))"
  by (simp add: walked_def)

lemma walked_sorted: "walked db entries out m \<Longrightarrow> bt_sorted out \<Longrightarrow> bt_sorted m"
  by (simp add: walked_def)

lemma walked_Nil: "walked db [] out out"
  by (simp add: walked_def)

lemma walked_found:
  assumes "walked db entries [] m"
  shows "index_blob m ns = tree_find db entries ns"
proof (cases ns)
  case (Cons n rest)
  show ?thesis
    using walked_at [OF assms, of n]
    by (cases "last_entry n entries") (auto simp: Cons indexes_def split: if_splits)
qed simp

text \<open>An entry that is inserted, or passed over, before the rest is walked.\<close>

lemma walked_insert:
  assumes rest: "walked db es (bt_insert (te_filename e) node out) m"
    and "indexes db e (Some node)" "te_kind e \<noteq> GitLink"
  shows "walked db (Inr e # es) out m"
  unfolding walked_def
proof (intro conjI allI impI)
  show "bt_sorted out \<Longrightarrow> bt_sorted m" using walked_sorted [OF rest] by (simp add: bt_sorted_insert)
  show "case last_entry n (Inr e # es) of None \<Rightarrow> map_of m n = map_of out n
      | Some e \<Rightarrow> indexes db e (map_of m n)" for n
    using walked_at [OF rest, of n] assms(2,3) by (cases "last_entry n es") (auto split: if_splits)
qed

lemma walked_skip:
  assumes rest: "walked db es out m" and "te_kind e = GitLink"
  shows "walked db (Inr e # es) out m"
  unfolding walked_def
proof (intro conjI allI impI)
  show "bt_sorted out \<Longrightarrow> bt_sorted m" using walked_sorted [OF rest] .
  show "case last_entry n (Inr e # es) of None \<Rightarrow> map_of m n = map_of out n
      | Some e \<Rightarrow> indexes db e (map_of m n)" for n
    using walked_at [OF rest, of n] assms(2) by (cases "last_entry n es") auto
qed

text \<open>A tree contains itself.\<close>

definition cyclic :: "tree_db \<Rightarrow> string \<Rightarrow> bool" where
  "cyclic db t \<longleftrightarrow> (\<exists>es t'. td_tree db t = Inr es \<and> t' \<in> entry_trees es \<and> t \<in> subtrees db t')"

lemma subtrees_trans: "t \<in> subtrees db r' \<Longrightarrow> r' \<in> subtrees db r \<Longrightarrow> t \<in> subtrees db r"
  by (induction rule: subtrees.induct) (auto intro: subtrees.child)

lemma subtrees_step: "td_tree db t = Inr es \<Longrightarrow> t' \<in> entry_trees es \<Longrightarrow> t' \<in> subtrees db t"
  using subtrees_entry_trees [OF subtrees.root] by blast

text \<open>The ancestors of a walk: each contains, below an entry of its own, all of \<open>trees\<close>.\<close>

definition lineage :: "tree_db \<Rightarrow> string set \<Rightarrow> string list \<Rightarrow> bool" where
  "lineage db trees ancestors \<longleftrightarrow>
     (\<forall>a \<in> set ancestors. \<forall>t \<in> trees. \<exists>es t'. td_tree db a = Inr es \<and> t' \<in> entry_trees es \<and> t \<in> subtrees db t')"

definition walk_result ::
    "tree_db \<Rightarrow> (git_error + tree_entry) list \<Rightarrow> (string \<times> path_node) list \<Rightarrow>
     packchain_error + (string \<times> path_node) list \<Rightarrow> bool" where
  "walk_result db entries out r \<longleftrightarrow>
     (case r of Inl e \<Rightarrow> (\<forall>t. e = TreeCycle t \<longrightarrow> cyclic db t) | Inr m \<Rightarrow> walked db entries out m)"

lemma lineage_down:
  assumes "lineage db trees ancestors" "t \<in> trees" "td_tree db t = Inr es"
  shows "lineage db (entry_trees es) (t # ancestors)"
  unfolding lineage_def
proof (intro ballI)
  fix a t'
  assume a: "a \<in> set (t # ancestors)" and t': "t' \<in> entry_trees es"
  show "\<exists>fs u. td_tree db a = Inr fs \<and> u \<in> entry_trees fs \<and> t' \<in> subtrees db u"
  proof (cases "a = t")
    case True
    with assms(3) t' show ?thesis by (auto intro: subtrees.root)
  next
    case False
    with a assms(1,2) obtain fs u where u: "td_tree db a = Inr fs" "u \<in> entry_trees fs" "t \<in> subtrees db u"
      unfolding lineage_def by auto metis
    moreover have "t' \<in> subtrees db u"
      using subtrees_trans [OF subtrees_step [OF assms(3) t'] u(3)] .
    ultimately show ?thesis by blast
  qed
qed

lemma lineage_mono: "lineage db trees ancestors \<Longrightarrow> trees' \<subseteq> trees \<Longrightarrow> lineage db trees' ancestors"
  by (fastforce simp: lineage_def)

lemma lineage_cycle: "lineage db trees ancestors \<Longrightarrow> t \<in> trees \<Longrightarrow> t \<in> set ancestors \<Longrightarrow> cyclic db t"
  by (auto simp: lineage_def cyclic_def)

lemma sha40_from_oid_Inl: "sha40_from_oid oid = Inl e \<Longrightarrow> e = InvalidSha oid"
  by (auto simp: sha40_from_oid_def split: if_splits)

lemma walk_result_Inl: "(\<And>t. e = TreeCycle t \<Longrightarrow> cyclic db t) \<Longrightarrow> walk_result db entries out (Inl e)"
  by (simp add: walk_result_def)

lemma open_tree_Inl:
  "open_tree db ancestors t = Inl (TreeCycle t') \<Longrightarrow> t' = t \<and> t \<in> set ancestors"
  by (auto simp: open_tree_def split: if_splits sum.splits)

lemma open_tree_Inr:
  "open_tree db ancestors t = Inr es \<longleftrightarrow> t \<notin> set ancestors \<and> td_tree db t = Inr es"
  by (auto simp: open_tree_def split: if_splits sum.splits)

text \<open>Every call descends to a tree that is not an ancestor or moves on to the next entry.\<close>

lemma walk_entries_result:
  assumes fin: "finite (subtrees db root)"
    and inside: "entry_trees entries \<subseteq> subtrees db root" and line: "lineage db (entry_trees entries) ancestors"
  shows "\<exists>r. walk_entries db entries ancestors out = Some r \<and> walk_result db entries out r"
  using inside line
proof (induction "(card (subtrees db root - set ancestors), length entries)"
    arbitrary: entries ancestors out rule: wf_induct_rule [OF wf_lex_prod [OF wf_less_than wf_less_than]])
  case (1 entries ancestors out)
  show ?case
  proof (cases entries)
    case Nil
    then show ?thesis by (simp add: walk_entries.simps walk_result_def walked_Nil)
  next
    case (Cons item rest)
    have rest_in: "entry_trees rest \<subseteq> entry_trees entries"
      by (cases item) (auto simp: Cons)
    have rest_ok: "\<exists>r. walk_entries db rest ancestors out' = Some r \<and> walk_result db rest out' r" for out'
      by (rule "1.hyps") (use "1.prems" rest_in Cons in \<open>auto elim: lineage_mono\<close>)
    show ?thesis
    proof (cases item)
      case (Inl e)
      then show ?thesis by (simp add: walk_entries.simps Cons walk_result_def)
    next
      case (Inr entry)
      consider "\<not> utf8_valid (te_filename entry)"
        | "utf8_valid (te_filename entry)" "te_kind entry = TreeEntry"
        | "utf8_valid (te_filename entry)" "te_kind entry = GitLink"
        | "utf8_valid (te_filename entry)" "is_blob_entry entry"
        by (auto simp: is_blob_entry_def)
      then show ?thesis
      proof cases
        case 1
        then show ?thesis by (simp add: walk_entries.simps Cons Inr walk_result_def)
      next
        case 3
        from rest_ok [of out] obtain r where r: "walk_entries db rest ancestors out = Some r"
          "walk_result db rest out r" by blast
        have "walk_result db entries out r"
          using r(2) 3 by (auto simp: walk_result_def Cons Inr walked_skip split: sum.splits)
        with 3 r(1) show ?thesis by (simp add: walk_entries.simps [of db "Inr entry # rest"] Cons Inr)
      next
        case 4
        show ?thesis
        proof (cases "sha40_from_oid (te_oid entry)")
          case (Inl e)
          with 4 show ?thesis
            by (cases "te_kind entry")
              (auto simp: walk_entries.simps [of db "Inr entry # rest"] Cons \<open>item = Inr entry\<close> is_blob_entry_def
                walk_result_def dest: sha40_from_oid_Inl)
        next
          case (Inr sha)
          let ?out = "bt_insert (te_filename entry) (BlobNode sha) out"
          from rest_ok obtain r where r: "walk_entries db rest ancestors ?out = Some r"
            "walk_result db rest ?out r" by blast
          have "indexes db entry (Some (BlobNode sha))" "te_kind entry \<noteq> GitLink"
            using 4 Inr by (auto simp: indexes_def is_blob_entry_def)
          with r(2) have "walk_result db entries out r"
            by (auto simp: walk_result_def Cons \<open>item = Inr entry\<close> intro: walked_insert split: sum.splits)
          moreover have "walk_entries db entries ancestors out = Some r"
            using 4 Inr r(1)
            by (cases "te_kind entry")
              (auto simp: walk_entries.simps [of db "Inr entry # rest"] Cons \<open>item = Inr entry\<close> is_blob_entry_def sha40_from_oid_def)
          ultimately show ?thesis by blast
        qed
      next
        case 2
        let ?t = "te_oid entry"
        have t: "?t \<in> entry_trees entries" using 2 by (simp add: Cons Inr)
        show ?thesis
        proof (cases "open_tree db ancestors ?t")
          case (Inl e)
          have "cyclic db t'" if "e = TreeCycle t'" for t'
            using open_tree_Inl [of db ancestors ?t t'] Inl that lineage_cycle [OF "1.prems"(2) t] by simp
          with 2 Inl show ?thesis
            by (simp add: walk_entries.simps [of db "Inr entry # rest"] Cons \<open>item = Inr entry\<close> walk_result_def)
        next
          case (Inr sub)
          then have sub: "?t \<notin> set ancestors" "td_tree db ?t = Inr sub" by (simp_all add: open_tree_Inr)
          have t_in: "?t \<in> subtrees db root" using t "1.prems"(1) by blast
          then have "subtrees db root - set (?t # ancestors) \<subset> subtrees db root - set ancestors"
            using sub(1) by auto
          then have less: "card (subtrees db root - set (?t # ancestors)) < card (subtrees db root - set ancestors)"
            using fin by (intro psubset_card_mono) auto
          have "\<exists>r. walk_entries db sub (?t # ancestors) [] = Some r \<and> walk_result db sub [] r"
            by (rule "1.hyps")
              (use less subtrees_entry_trees [OF t_in sub(2)] lineage_down [OF "1.prems"(2) t sub(2)] in auto)
          then obtain q where q: "walk_entries db sub (?t # ancestors) [] = Some q" "walk_result db sub [] q"
            by blast
          show ?thesis
          proof (cases q)
            case (Inl e)
            with q 2 Inr show ?thesis
              by (simp add: walk_entries.simps [of db "Inr entry # rest"] Cons \<open>item = Inr entry\<close> walk_result_def)
          next
            case (Inr kids)
            let ?out = "bt_insert (te_filename entry) (TreeNode kids) out"
            from rest_ok obtain r where r: "walk_entries db rest ancestors ?out = Some r"
              "walk_result db rest ?out r" by blast
            have "index_blob kids ns = tree_find db sub ns" for ns
              using q(2) Inr by (intro walked_found) (simp add: walk_result_def)
            then have "indexes db entry (Some (TreeNode kids))" "te_kind entry \<noteq> GitLink"
              using 2 sub(2) by (auto simp: indexes_def)
            with r(2) have "walk_result db entries out r"
              by (auto simp: walk_result_def Cons \<open>item = Inr entry\<close> intro: walked_insert split: sum.splits)
            moreover have "walk_entries db entries ancestors out = Some r"
              using 2 q(1) Inr r(1) \<open>open_tree db ancestors ?t = Inr sub\<close>
              by (simp add: walk_entries.simps [of db "Inr entry # rest"] Cons \<open>item = Inr entry\<close>)
            ultimately show ?thesis by blast
          qed
        qed
      qed
    qed
  qed
qed

lemma walk_tree_result:
  assumes "finite (subtrees db root)"
  shows "\<exists>r. walk_tree db root = Some r \<and>
    (\<forall>t. r = Inl (TreeCycle t) \<longrightarrow> cyclic db t) \<and>
    (\<forall>m. r = Inr m \<longrightarrow> bt_sorted m \<and> (\<exists>es. td_tree db root = Inr es \<and>
       (\<forall>path. index_blob m path = tree_find db es path)))"
proof (cases "open_tree db [] root")
  case (Inl e)
  then show ?thesis using open_tree_Inl [of db "[]" root] by (auto simp: walk_tree_def)
next
  case (Inr es)
  then have es: "td_tree db root = Inr es" by (simp add: open_tree_Inr)
  have "lineage db (entry_trees es) [root]"
    using es by (auto simp: lineage_def intro: subtrees.root)
  then obtain r where r: "walk_entries db es [root] [] = Some r" "walk_result db es [] r"
    using walk_entries_result [OF assms subtrees_entry_trees [OF subtrees.root es]] by blast
  have "bt_sorted m \<and> (\<forall>path. index_blob m path = tree_find db es path)" if "r = Inr m" for m
    using r(2) that walked_found [of db es m] walked_sorted [of db es "[]" m] by (simp add: walk_result_def)
  with r Inr es show ?thesis by (auto simp: walk_tree_def walk_result_def)
qed

subsection \<open>The document\<close>

text \<open>What a path index holds when it comes from a tree: sorted maps of valid shas.\<close>

fun node_typed :: "path_node \<Rightarrow> bool" where
  "node_typed (BlobNode s) \<longleftrightarrow> is_valid_bundle_stem s"
| "node_typed (TreeNode kids) \<longleftrightarrow> bt_sorted kids \<and> (\<forall>p \<in> set kids. node_typed (snd p))"

lemma node_roundtrip: "node_typed n \<Longrightarrow> node_of_json (json_of_node n) = Some n"
proof (induction n)
  case (TreeNode kids)
  have "map_option (Pair k) (node_of_json (json_of_node n)) = Some (k, n)" if "(k, n) \<in> set kids" for k n
    using that TreeNode by fastforce
  then have "those (map (\<lambda>(k, j). map_option (Pair k) (node_of_json j))
      (map (\<lambda>(k, n). (k, json_of_node n)) kids)) = Some kids"
    by (intro those_map_Some) auto
  with TreeNode show ?case by (simp add: bt_of_sorted)
qed simp

lemma de_tree_roundtrip:
  "node_typed (TreeNode kids) \<Longrightarrow> de_tree (json_of_node (TreeNode kids)) = Some kids"
  unfolding de_tree_def node_roundtrip [of "TreeNode kids"] by simp

definition path_index_typed :: "path_index \<Rightarrow> bool" where
  "path_index_typed p \<longleftrightarrow> px_v p = PATH_INDEX_SCHEMA_VERSION \<and>
     is_valid_bundle_stem (px_tip p) \<and> node_typed (TreeNode (px_tree p))"

lemma path_index_bytes_roundtrip:
  assumes "json_parse x (json_print x (json_of_path_index p)) = Some (json_of_path_index p)"
    and "path_index_typed p"
  shows "path_index_from_json_bytes x (path_index_to_json_pretty x p) = Inr p"
proof -
  have parse: "json_parse x (path_index_to_json_pretty x p) = Some (json_of_path_index p)"
    using assms(1) by (simp add: path_index_to_json_pretty_def)
  have tree: "de_tree (json_of_node (TreeNode (px_tree p))) = Some (px_tree p)"
    using assms(2) by (intro de_tree_roundtrip) (simp add: path_index_typed_def)
  have "version_peek (json_of_path_index p) = Some PATH_INDEX_SCHEMA_VERSION"
    using assms(2) by (simp add: version_peek_def json_of_path_index_def json_fields_obj de_field_def de_uint_def
        path_index_typed_def PATH_INDEX_SCHEMA_VERSION_def)
  moreover have "path_index_of_json (json_of_path_index p) = Some p"
    using assms(2) tree
    by (simp add: path_index_of_json_def json_of_path_index_def json_fields_obj de_field_def de_uint_def
        path_index_typed_def PATH_INDEX_SCHEMA_VERSION_def del: json_of_node.simps)
  ultimately show ?thesis by (simp add: path_index_from_json_bytes_def parse)
qed

text \<open>Reading yields typed documents only.\<close>

lemma bt_of_list_mem: "p \<in> set (bt_of_list kvs) \<Longrightarrow> p \<in> set kvs"
proof -
  have ins: "q \<in> set (bt_insert k v m) \<Longrightarrow> q = (k, v) \<or> q \<in> set m" for q k and v :: 'a and m
    by (induction m) (auto split: if_splits)
  show "p \<in> set (bt_of_list kvs) \<Longrightarrow> p \<in> set kvs"
    unfolding bt_of_list_def
    by (induction kvs rule: rev_induct) (auto dest: ins)
qed

lemma those_Some_mem: "those xs = Some ys \<Longrightarrow> y \<in> set ys \<Longrightarrow> Some y \<in> set xs"
  by (induction xs arbitrary: ys) (auto split: option.splits)

lemma node_of_json_typed: "node_of_json j = Some n \<Longrightarrow> node_typed n"
proof (induction j arbitrary: n rule: node_of_json.induct)
  case (1 s)
  then show ?case by (auto split: if_splits)
next
  case (2 kvs)
  then obtain kids where kids: "n = TreeNode (bt_of_list kids)"
    "those (map (\<lambda>(k, j). map_option (Pair k) (node_of_json j)) kvs) = Some kids" by auto
  have "node_typed (snd p)" if "p \<in> set (bt_of_list kids)" for p
  proof -
    have "Some p \<in> set (map (\<lambda>(k, j). map_option (Pair k) (node_of_json j)) kvs)"
      using those_Some_mem [OF kids(2) bt_of_list_mem [OF that]] .
    then obtain k j where kj: "(k, j) \<in> set kvs" "map_option (Pair k) (node_of_json j) = Some p"
      by (auto simp del: map_option_eq_Some simp: eq_commute [of "Some p"])
    then obtain m where "node_of_json j = Some m" "p = (k, m)" by auto
    with kj(1) "2.IH" show ?thesis by auto
  qed
  then show ?case by (simp add: kids(1) bt_sorted_of_list)
qed simp_all

lemma peek_agrees: "json_fields [n] j = Some fs \<Longrightarrow> json_fields [n, m, k] j = Some gs \<Longrightarrow> gs = fs"
  by (cases j) (auto simp: json_fields_def split: if_splits)

lemma de_tree_typed: "de_tree j = Some kids \<Longrightarrow> node_typed (TreeNode kids)"
proof -
  assume "de_tree j = Some kids"
  then have "node_of_json j = Some (TreeNode kids)"
    by (cases "node_of_json j") (auto simp: de_tree_def split: path_node.splits)
  then show ?thesis by (rule node_of_json_typed)
qed

lemma path_index_from_json_bytes_typed:
  assumes "path_index_from_json_bytes x b = Inr p"
  shows "path_index_typed p"
proof -
  from assms obtain j fs gs i t kids where j: "json_fields [''v''] j = Some fs"
    "json_fields [''v'', ''tip'', ''tree''] j = Some gs"
    "de_field (de_uint 32) fs ''v'' = Some PATH_INDEX_SCHEMA_VERSION"
    "de_field (de_uint 32) gs ''v'' = Some i" "de_field de_sha40 gs ''tip'' = Some t"
    "de_field de_tree gs ''tree'' = Some kids" "p = \<lparr>px_v = i, px_tip = t, px_tree = kids\<rparr>"
    by (auto simp: path_index_from_json_bytes_def version_peek_def path_index_of_json_def
        bind_eq_Some_conv split: option.splits if_splits)
  have "gs = fs" using j(1,2) by (rule peek_agrees)
  moreover have "is_valid_bundle_stem t"
    using j(5) by (auto simp: de_field_def bind_eq_Some_conv dest: de_sha40_valid)
  moreover have "node_typed (TreeNode kids)"
    using j(6) by (auto simp: de_field_def bind_eq_Some_conv simp del: node_typed.simps
        dest: de_tree_typed)
  ultimately show ?thesis using j(3,4,7) by (simp add: path_index_typed_def)
qed

subsection \<open>A tree to walk\<close>

text \<open>A directory with one file and a subdirectory, which holds one file and a submodule.\<close>

definition demo_trees :: tree_db where
  "demo_trees = \<lparr>
     td_tree = (\<lambda>t.
       if t = demo_sha CHR ''1'' then Inr
         [Inr \<lparr>te_kind = BlobEntry, te_filename = ''README'', te_oid = demo_sha CHR ''8''\<rparr>,
          Inr \<lparr>te_kind = TreeEntry, te_filename = ''src'', te_oid = demo_sha CHR ''2''\<rparr>]
       else if t = demo_sha CHR ''2'' then Inr
         [Inr \<lparr>te_kind = BlobExecutable, te_filename = ''run'', te_oid = demo_sha CHR ''9''\<rparr>,
          Inr \<lparr>te_kind = GitLink, te_filename = ''vendor'', te_oid = demo_sha CHR ''7''\<rparr>]
       else Inl (FindObject t)),
     td_commit_tree = (\<lambda>c. Inl (FindObject c))\<rparr>"

lemma demo_tree_at [simp]:
  "td_tree demo_trees (demo_sha CHR ''1'') = Inr
     [Inr \<lparr>te_kind = BlobEntry, te_filename = ''README'', te_oid = demo_sha CHR ''8''\<rparr>,
      Inr \<lparr>te_kind = TreeEntry, te_filename = ''src'', te_oid = demo_sha CHR ''2''\<rparr>]"
  "td_tree demo_trees (demo_sha CHR ''2'') = Inr
     [Inr \<lparr>te_kind = BlobExecutable, te_filename = ''run'', te_oid = demo_sha CHR ''9''\<rparr>,
      Inr \<lparr>te_kind = GitLink, te_filename = ''vendor'', te_oid = demo_sha CHR ''7''\<rparr>]"
  by (simp_all add: demo_trees_def)

lemma demo_subtrees: "subtrees demo_trees (demo_sha CHR ''1'') = {demo_sha CHR ''1'', demo_sha CHR ''2''}"
proof
  show "subtrees demo_trees (demo_sha CHR ''1'') \<subseteq> {demo_sha CHR ''1'', demo_sha CHR ''2''}"
  proof
    fix t
    assume "t \<in> subtrees demo_trees (demo_sha CHR ''1'')"
    then show "t \<in> {demo_sha CHR ''1'', demo_sha CHR ''2''}"
      by induction auto
  qed
  have "demo_sha CHR ''2'' \<in> entry_trees [Inr \<lparr>te_kind = BlobEntry, te_filename = ''README'', te_oid = demo_sha CHR ''8''\<rparr>,
      Inr \<lparr>te_kind = TreeEntry, te_filename = ''src'', te_oid = demo_sha CHR ''2''\<rparr>]" by simp
  then show "{demo_sha CHR ''1'', demo_sha CHR ''2''} \<subseteq> subtrees demo_trees (demo_sha CHR ''1'')"
    using subtrees_step [OF demo_tree_at(1)] subtrees.root by blast
qed

lemma demo_tree_blobs: "tree_blobs demo_trees (demo_sha CHR ''1'') = {demo_sha CHR ''8'', demo_sha CHR ''9''}"
  by (auto simp: tree_blobs_def demo_subtrees is_blob_entry_def)

subsection \<open>The properties\<close>

text \<open>C29. Listing the closure of a tree returns on every finite tree. When everything can be read it
  lists, each once, exactly the subtrees and the blobs reachable from it, submodules left out;
  otherwise it reports the error of an unreadable subtree or entry of that tree.\<close>

theorem tree_closure_lists_every_object:
  assumes "finite (subtrees db root)" "subtrees db root \<inter> tree_blobs db root = {}"
  shows "\<exists>r. enumerate_tree_closure db root = Some r \<and>
    (case r of
       Inl e \<Rightarrow> unreadable db root e
     | Inr oids \<Rightarrow> distinct oids \<and> set oids = subtrees db root \<union> tree_blobs db root)"
  using closure_loop_result [OF assms closure_inv_start]
  unfolding enumerate_tree_closure_def closure_result_def .

theorem tree_closure_lists_every_object_witness:
  "\<exists>oids. enumerate_tree_closure demo_trees (demo_sha CHR ''1'') = Some (Inr oids) \<and>
     set oids = {demo_sha CHR ''1'', demo_sha CHR ''2''} \<union> {demo_sha CHR ''8'', demo_sha CHR ''9''}"
proof -
  have "\<not> unreadable demo_trees (demo_sha CHR ''1'') e" for e
    by (auto simp: unreadable_def demo_subtrees)
  moreover obtain r where "enumerate_tree_closure demo_trees (demo_sha CHR ''1'') = Some r"
    "case r of Inl e \<Rightarrow> unreadable demo_trees (demo_sha CHR ''1'') e
     | Inr oids \<Rightarrow> distinct oids \<and> set oids = {demo_sha CHR ''1'', demo_sha CHR ''2''} \<union>
         {demo_sha CHR ''8'', demo_sha CHR ''9''}"
    using tree_closure_lists_every_object [of demo_trees "demo_sha CHR ''1''"]
    unfolding demo_subtrees demo_tree_blobs by auto
  ultimately show ?thesis by (cases r) auto
qed

text \<open>C30. Building the path index of a tree returns on every finite tree, and the index answers every
  path as the repository does: looking it up gives the blob that descending through the trees
  gives, and nothing where that finds none. A cycle is only reported for a tree that contains
  itself.\<close>

theorem path_index_answers_every_path:
  assumes "finite (subtrees db root)"
  shows "\<exists>r. walk_tree db root = Some r \<and>
    (\<forall>t. r = Inl (TreeCycle t) \<longrightarrow> cyclic db t) \<and>
    (\<forall>m. r = Inr m \<longrightarrow> bt_sorted m \<and>
       (\<exists>es. td_tree db root = Inr es \<and> (\<forall>path. index_blob m path = tree_find db es path)))"
  by (rule walk_tree_result [OF assms])

theorem path_index_answers_every_path_witness:
  "\<exists>m. walk_tree demo_trees (demo_sha CHR ''1'') = Some (Inr m) \<and>
     index_blob m [''src'', ''run''] = Some (demo_sha CHR ''9'') \<and> index_blob m [''src'', ''vendor''] = None"
proof -
  have "utf8_valid n" if "n \<in> {''README'', ''src'', ''run'', ''vendor''}" for n
    using that by (auto intro!: utf8_valid_ascii)
  then obtain m where m: "walk_tree demo_trees (demo_sha CHR ''1'') = Some (Inr m)"
    by (simp add: walk_tree_def open_tree_def walk_entries.simps sha40_from_oid_def demo_sha_def [of "CHR ''8''"]
        demo_sha_def [of "CHR ''9''"])
  then have "index_blob m path = tree_find demo_trees
      [Inr \<lparr>te_kind = BlobEntry, te_filename = ''README'', te_oid = demo_sha CHR ''8''\<rparr>,
       Inr \<lparr>te_kind = TreeEntry, te_filename = ''src'', te_oid = demo_sha CHR ''2''\<rparr>] path" for path
    using path_index_answers_every_path [of demo_trees "demo_sha CHR ''1''"] by (auto simp: demo_subtrees)
  then show ?thesis by (auto simp: m simp del: index_blob.simps)
qed

end
