(* ===== verification/Git_History_Proofs.thy ===== *)
theory Git_History_Proofs
  imports Git_History Demo_World
begin

text \<open>
  What the walks of \<open>Git_History\<close> compute: peeling follows the tags and returns on a finite
  object database; the breadth-first search returns exactly the commits whose shortest
  distance from the tip is the depth asked for; the shallow file ends up with the new
  boundaries and the old ones whose parents are still missing.
\<close>

subsection \<open>Peeling\<close>

text \<open>The tags passed on the way from \<open>tip\<close> to \<open>leaf\<close>.\<close>

fun tag_path :: "git_repo \<Rightarrow> string \<Rightarrow> string list \<Rightarrow> string \<Rightarrow> bool" where
  "tag_path repo tip [] leaf \<longleftrightarrow> tip = leaf"
| "tag_path repo tip (t # ts) leaf \<longleftrightarrow>
     t = tip \<and> (\<exists>nxt. rp_find_object repo t = Inr (TagObject (Inr nxt)) \<and> tag_path repo nxt ts leaf)"

lemma tag_path_snoc:
  "tag_path repo tip ts leaf \<Longrightarrow> rp_find_object repo leaf = Inr (TagObject (Inr nxt)) \<Longrightarrow>
     tag_path repo tip (ts @ [leaf]) nxt"
  by (induction ts arbitrary: tip) auto

fun peeled_leaf :: "peeled_tip \<Rightarrow> string" where
  "peeled_leaf (PeeledCommit c _) = c"
| "peeled_leaf (PeeledTree t _) = t"
| "peeled_leaf (PeeledBlob b _) = b"

fun peeled_chain :: "peeled_tip \<Rightarrow> string list" where
  "peeled_chain (PeeledCommit _ ts) = ts"
| "peeled_chain (PeeledTree _ ts) = ts"
| "peeled_chain (PeeledBlob _ ts) = ts"

fun peeled_kind :: "peeled_tip \<Rightarrow> git_object \<Rightarrow> bool" where
  "peeled_kind (PeeledCommit _ _) (CommitObject _) \<longleftrightarrow> True"
| "peeled_kind (PeeledTree _ _) TreeObject \<longleftrightarrow> True"
| "peeled_kind (PeeledBlob _ _) BlobObject \<longleftrightarrow> True"
| "peeled_kind _ _ \<longleftrightarrow> False"

text \<open>A result names the object at the end of the tags, of the right kind, and every tag once.\<close>

definition peel_ok :: "git_repo \<Rightarrow> string \<Rightarrow> git_error + peeled_tip \<Rightarrow> bool" where
  "peel_ok repo tip r \<longleftrightarrow>
     (case r of
        Inl _ \<Rightarrow> True
      | Inr p \<Rightarrow> tag_path repo tip (peeled_chain p) (peeled_leaf p) \<and> distinct (peeled_chain p) \<and>
          (\<exists>ob. rp_find_object repo (peeled_leaf p) = Inr ob \<and> peeled_kind p ob))"

lemma peel_loop_ok:
  assumes "peel_loop repo visited chain current = Some r"
    and "set visited = set chain" "distinct chain" "tag_path repo tip chain current"
  shows "peel_ok repo tip r"
proof -
  let ?P = "\<lambda>repo visited chain current r. set visited = set chain \<longrightarrow> distinct chain \<longrightarrow>
    tag_path repo tip chain current \<longrightarrow> peel_ok repo tip r"
  have "?P repo visited chain current r"
  proof (rule peel_loop.raw_induct [where P = ?P, OF _ assms(1)], intro impI)
    fix loop repo visited chain current r
    assume IH: "\<And>repo visited chain current r. loop repo visited chain current = Some r \<Longrightarrow>
        ?P repo visited chain current r"
      and body: "(if current \<in> set visited then Some (Inl (TagChainCycle current))
        else case rp_find_object repo current of Inl e \<Rightarrow> Some (Inl e)
          | Inr (CommitObject x) \<Rightarrow> Some (Inr (PeeledCommit current chain))
          | Inr (TagObject target) \<Rightarrow> (case target of Inl e \<Rightarrow> Some (Inl e)
              | Inr target_id \<Rightarrow> loop repo (current # visited) (chain @ [current]) target_id)
          | Inr TreeObject \<Rightarrow> Some (Inr (PeeledTree current chain))
          | Inr BlobObject \<Rightarrow> Some (Inr (PeeledBlob current chain))) = Some r"
      and inv: "set visited = set chain" "distinct chain" "tag_path repo tip chain current"
    show "peel_ok repo tip r"
    proof (cases "\<exists>nxt. current \<notin> set visited \<and> rp_find_object repo current = Inr (TagObject (Inr nxt))")
      case True
      then obtain nxt where nxt: "current \<notin> set visited" "rp_find_object repo current = Inr (TagObject (Inr nxt))"
        by blast
      with body have "loop repo (current # visited) (chain @ [current]) nxt = Some r" by simp
      from IH [OF this] inv nxt show ?thesis by (auto dest: tag_path_snoc)
    next
      case False
      show ?thesis
      proof (cases r)
        case (Inr p)
        with body False have "(\<exists>ps. rp_find_object repo current = Inr (CommitObject ps)) \<and> p = PeeledCommit current chain \<or>
            rp_find_object repo current = Inr TreeObject \<and> p = PeeledTree current chain \<or>
            rp_find_object repo current = Inr BlobObject \<and> p = PeeledBlob current chain"
          by (simp split: if_split_asm sum.split_asm git_object.split_asm)
        with Inr inv show ?thesis by (auto simp: peel_ok_def)
      qed (simp add: peel_ok_def)
    qed
  qed
  with assms(2-4) show ?thesis by blast
qed

text \<open>On a finite object database every peel returns: no tag is visited twice.\<close>

lemma peel_loop_returns:
  assumes fin: "finite T" and T: "\<And>o' t. rp_find_object repo o' = Inr (TagObject (Inr t)) \<Longrightarrow> o' \<in> T"
  shows "\<exists>r. peel_loop repo visited chain current = Some r"
proof (induction "card (T - set visited)" arbitrary: visited chain current rule: less_induct)
  case less
  show ?case
  proof (cases "current \<notin> set visited \<and> (\<exists>nxt. rp_find_object repo current = Inr (TagObject (Inr nxt)))")
    case True
    then obtain nxt where nxt: "current \<notin> set visited" "rp_find_object repo current = Inr (TagObject (Inr nxt))"
      by blast
    with T have "T - set (current # visited) \<subset> T - set visited" by auto
    then have "card (T - set (current # visited)) < card (T - set visited)"
      using fin by (intro psubset_card_mono) auto
    from less [OF this, of "chain @ [current]" nxt] nxt show ?thesis
      by (simp add: peel_loop.simps [of repo visited chain current])
  next
    case False
    then show ?thesis
      by (auto simp: peel_loop.simps [of repo visited chain current] split: sum.splits git_object.splits)
  qed
qed

subsection \<open>The breadth-first search\<close>

text \<open>\<open>walk n u v\<close>: \<open>v\<close> is reached from \<open>u\<close> over \<open>n\<close> parent links; \<open>at_distance\<close>: no shorter way.\<close>

fun walk :: "git_repo \<Rightarrow> nat \<Rightarrow> string \<Rightarrow> string \<Rightarrow> bool" where
  "walk repo 0 u v \<longleftrightarrow> u = v"
| "walk repo (Suc n) u v \<longleftrightarrow>
     (\<exists>w ps. walk repo n u w \<and> rp_peel_to_commit repo w = Inr ps \<and> v \<in> set ps)"

definition at_distance :: "git_repo \<Rightarrow> string \<Rightarrow> nat \<Rightarrow> string \<Rightarrow> bool" where
  "at_distance repo tip n v \<longleftrightarrow> walk repo n tip v \<and> (\<forall>m<n. \<not> walk repo m tip v)"

lemma at_distance_least: "at_distance repo tip n v \<Longrightarrow> walk repo m tip v \<Longrightarrow> n \<le> m"
  unfolding at_distance_def by (meson not_le)

lemma at_distance_unique: "at_distance repo tip n v \<Longrightarrow> at_distance repo tip m v \<Longrightarrow> n = m"
  by (meson at_distance_def at_distance_least order_antisym)

text \<open>
  The invariant of the search: the queue is in the order of depth and spans at most two
  depths; every depth is the length of some walk; a commit already seen has its true
  distance, and its parents have been seen or wait in the queue close behind.
\<close>

definition queue_ok :: "git_repo \<Rightarrow> string \<Rightarrow> nat \<Rightarrow> (string \<times> nat) list \<Rightarrow> bool" where
  "queue_ok repo tip max_depth queue \<longleftrightarrow>
     sorted (map snd queue) \<and> (\<forall>(v, d) \<in> set queue. d \<le> snd (hd queue) + 1) \<and>
     (\<forall>(v, d) \<in> set queue. 1 \<le> d \<and> d \<le> max_depth \<and> walk repo (d - 1) tip v)"

definition expanded :: "git_repo \<Rightarrow> string set \<Rightarrow> (string \<times> nat) set \<Rightarrow> string \<Rightarrow> nat \<Rightarrow> bool" where
  "expanded repo seen queue u n \<longleftrightarrow>
     (\<exists>ps. rp_peel_to_commit repo u = Inr ps \<and>
        (\<forall>w \<in> set ps. w \<in> seen \<or> (\<exists>e \<le> n + 2. (w, e) \<in> queue)))"

definition placed :: "git_repo \<Rightarrow> string \<Rightarrow> nat \<Rightarrow> string set \<Rightarrow> (string \<times> nat) set \<Rightarrow> string \<Rightarrow> bool" where
  "placed repo tip max_depth seen queue u \<longleftrightarrow>
     (\<exists>n < max_depth. at_distance repo tip n u \<and> (n + 1 < max_depth \<longrightarrow> expanded repo seen queue u n))"

definition search_inv ::
    "git_repo \<Rightarrow> string \<Rightarrow> nat \<Rightarrow> string list \<Rightarrow> string list \<Rightarrow> (string \<times> nat) list \<Rightarrow> bool" where
  "search_inv repo tip max_depth seen frontier queue \<longleftrightarrow>
     queue_ok repo tip max_depth queue \<and>
     (\<forall>u \<in> set seen. placed repo tip max_depth (set seen) (set queue) u) \<and>
     (tip \<in> set seen \<or> (tip, 1) \<in> set queue) \<and>
     distinct frontier \<and> set frontier = {u \<in> set seen. at_distance repo tip (max_depth - 1) u}"

lemma search_inv_init: "0 < max_depth \<Longrightarrow> search_inv repo tip max_depth [] [] [(tip, 1)]"
  by (simp add: search_inv_def queue_ok_def)

lemma search_near_seen:
  assumes "\<forall>u \<in> set seen. placed repo tip max_depth (set seen) (set queue) u"
    and "tip \<in> set seen \<or> (tip, 1) \<in> set queue"
    and far: "\<And>v e. (v, e) \<in> set queue \<Longrightarrow> k \<le> e" and "k \<le> max_depth"
  shows "walk repo m tip u \<Longrightarrow> m + 1 < k \<or> (queue = [] \<and> m < k) \<Longrightarrow> u \<in> set seen"
proof (induction m arbitrary: u)
  case 0
  with assms(2) far show ?case by fastforce
next
  case (Suc m)
  then obtain w ps where w: "walk repo m tip w" "rp_peel_to_commit repo w = Inr ps" "u \<in> set ps"
    by auto
  with Suc have "w \<in> set seen" by auto
  with assms(1) obtain n where n: "at_distance repo tip n w"
    "n + 1 < max_depth \<longrightarrow> expanded repo (set seen) (set queue) w n" unfolding placed_def by blast
  have "n \<le> m" by (rule at_distance_least [OF n(1) w(1)])
  with Suc.prems(2) assms(4) n(2) have "expanded repo (set seen) (set queue) w n" by auto
  with w consider "u \<in> set seen" | e where "e \<le> n + 2" "(u, e) \<in> set queue"
    unfolding expanded_def by auto
  then show ?case
  proof cases
    case 2
    with far [OF 2(2)] Suc.prems(2) \<open>n \<le> m\<close> show ?thesis by auto
  qed
qed

lemma search_head_distance:
  assumes "search_inv repo tip max_depth seen frontier ((v, d) # rest)" "v \<notin> set seen"
  shows "at_distance repo tip (d - 1) v"
proof -
  have q: "1 \<le> d" "d \<le> max_depth" "walk repo (d - 1) tip v"
    and far: "\<And>w e. (w, e) \<in> set ((v, d) # rest) \<Longrightarrow> d \<le> e"
    using assms(1) by (auto simp: search_inv_def queue_ok_def)
  have "\<not> walk repo m tip v" if m: "m < d - 1" for m
  proof
    assume "walk repo m tip v"
    moreover from m have "m + 1 < d \<or> ((v, d) # rest = [] \<and> m < d)" by simp
    ultimately have "v \<in> set seen"
      using assms(1) unfolding search_inv_def
      by (intro search_near_seen [where k = d and queue = "(v, d) # rest", OF _ _ far q(2)]) blast+
    with assms(2) show False ..
  qed
  with q show ?thesis by (simp add: at_distance_def)
qed

lemma queue_ok_tail: "queue_ok repo tip max_depth ((v, d) # rest) \<Longrightarrow> queue_ok repo tip max_depth rest"
  by (cases rest) (fastforce simp: queue_ok_def)+

lemma sorted_const [simp]: "sorted (map (\<lambda>_. k) ws)" for k :: nat
  by (induction ws) auto

lemma queue_ok_expand:
  assumes "queue_ok repo tip max_depth ((v, d) # rest)" "d < max_depth"
    and "rp_peel_to_commit repo v = Inr ps" "set ws \<subseteq> set ps"
  shows "queue_ok repo tip max_depth (rest @ map (\<lambda>p. (p, d + 1)) ws)"
proof -
  have w: "walk repo d tip p" if "p \<in> set ws" for p
  proof -
    from assms(1) have "1 \<le> d" "walk repo (d - 1) tip v" by (auto simp: queue_ok_def)
    with assms(3,4) that show ?thesis by (cases d) auto
  qed
  have near: "d \<le> e \<and> e \<le> d + 1 \<and> 1 \<le> e \<and> e \<le> max_depth \<and> walk repo (e - 1) tip u" if "(u, e) \<in> set rest" for u e
    using assms(1) that by (auto simp: queue_ok_def)
  have sorted: "sorted (map snd (rest @ map (\<lambda>p. (p, d + 1)) ws))"
    using assms(1) near by (auto simp: queue_ok_def sorted_append o_def)
  have low: "d \<le> snd (hd (rest @ map (\<lambda>p. (p, d + 1)) ws))" if "rest @ map (\<lambda>p. (p, d + 1)) ws \<noteq> []"
  proof (cases rest)
    case Nil
    with that show ?thesis by (cases ws) auto
  next
    case (Cons q qs)
    with near [of "fst q" "snd q"] show ?thesis by simp
  qed
  show ?thesis
    unfolding queue_ok_def using sorted low near w assms(2) by fastforce
qed

text \<open>The three branches of the loop body keep the invariant.\<close>

lemma placed_mono:
  assumes "placed repo tip max_depth seen queue u" "seen \<subseteq> seen'"
    and "\<And>w e. (w, e) \<in> queue \<Longrightarrow> w \<in> seen' \<or> (w, e) \<in> queue'"
  shows "placed repo tip max_depth seen' queue' u"
proof -
  have "expanded repo seen queue u n \<Longrightarrow> expanded repo seen' queue' u n" for n
    using assms(2,3) unfolding expanded_def by blast
  with assms(1) show ?thesis unfolding placed_def by blast
qed

lemma search_inv_skip:
  assumes "search_inv repo tip max_depth seen frontier ((v, d) # rest)" "v \<in> set seen"
  shows "search_inv repo tip max_depth seen frontier rest"
proof -
  have "placed repo tip max_depth (set seen) (set rest) u"
    if "placed repo tip max_depth (set seen) (set ((v, d) # rest)) u" for u
    using that by (rule placed_mono) (use assms(2) in auto)
  with assms(1) have "\<forall>u \<in> set seen. placed repo tip max_depth (set seen) (set rest) u"
    unfolding search_inv_def by blast
  moreover have "tip \<in> set seen \<or> (tip, 1) \<in> set rest"
    using assms unfolding search_inv_def by auto
  moreover have "queue_ok repo tip max_depth rest"
    using assms(1) queue_ok_tail unfolding search_inv_def by blast
  ultimately show ?thesis using assms(1) unfolding search_inv_def by blast
qed

lemma search_inv_visit:
  assumes inv: "search_inv repo tip max_depth seen frontier ((v, d) # rest)"
    and queue: "queue_ok repo tip max_depth queue'" "set rest \<subseteq> set queue'"
    and v: "placed repo tip max_depth (set (v # seen)) (set queue') v"
    and frontier': "distinct frontier'"
      "set frontier' = {u \<in> set (v # seen). at_distance repo tip (max_depth - 1) u}"
  shows "search_inv repo tip max_depth (v # seen) frontier' queue'"
proof -
  have "placed repo tip max_depth (set (v # seen)) (set queue') u"
    if "placed repo tip max_depth (set seen) (set ((v, d) # rest)) u" for u
    using that by (rule placed_mono) (use queue(2) in auto)
  with v inv have "\<forall>u \<in> set (v # seen). placed repo tip max_depth (set (v # seen)) (set queue') u"
    unfolding search_inv_def by auto
  moreover have "tip \<in> set (v # seen) \<or> (tip, 1) \<in> set queue'"
    using inv queue(2) unfolding search_inv_def by auto
  ultimately show ?thesis using queue(1) frontier' unfolding search_inv_def by blast
qed

lemma search_inv_frontier:
  assumes inv: "search_inv repo tip max_depth seen frontier ((v, max_depth) # rest)" and new: "v \<notin> set seen"
  shows "search_inv repo tip max_depth (v # seen) (frontier @ [v]) rest"
proof (rule search_inv_visit [OF inv])
  have dist: "at_distance repo tip (max_depth - 1) v" by (rule search_head_distance [OF inv new])
  have q: "queue_ok repo tip max_depth ((v, max_depth) # rest)" using inv by (simp add: search_inv_def)
  then have pos: "0 < max_depth" by (auto simp: queue_ok_def)
  with dist show "placed repo tip max_depth (set (v # seen)) (set rest) v"
    unfolding placed_def by (intro exI [of _ "max_depth - 1"]) auto
  show "queue_ok repo tip max_depth rest" using q by (rule queue_ok_tail)
  show "distinct (frontier @ [v])"
    "set (frontier @ [v]) = {u \<in> set (v # seen). at_distance repo tip (max_depth - 1) u}"
    using inv new dist unfolding search_inv_def by auto
qed simp

lemma search_inv_expand:
  assumes inv: "search_inv repo tip max_depth seen frontier ((v, d) # rest)" and new: "v \<notin> set seen"
    and d: "d \<noteq> max_depth" and ps: "rp_peel_to_commit repo v = Inr ps"
  shows "search_inv repo tip max_depth (v # seen) frontier
    (rest @ map (\<lambda>p. (p, d + 1)) (filter (\<lambda>p. p \<notin> set (v # seen)) ps))"
proof (rule search_inv_visit [OF inv])
  let ?queue = "rest @ map (\<lambda>p. (p, d + 1)) (filter (\<lambda>p. p \<notin> set (v # seen)) ps)"
  have dist: "at_distance repo tip (d - 1) v" by (rule search_head_distance [OF inv new])
  have q: "queue_ok repo tip max_depth ((v, d) # rest)" using inv by (simp add: search_inv_def)
  then have le: "1 \<le> d" "d < max_depth" using d by (auto simp: queue_ok_def)
  show "queue_ok repo tip max_depth ?queue" by (rule queue_ok_expand [OF q le(2) ps]) auto
  have "expanded repo (set (v # seen)) (set ?queue) v (d - 1)"
    unfolding expanded_def using ps le(1) by (intro exI [of _ ps]) auto
  with dist le show "placed repo tip max_depth (set (v # seen)) (set ?queue) v"
    unfolding placed_def by (intro exI [of _ "d - 1"]) auto
  have "\<not> at_distance repo tip (max_depth - 1) v"
    using at_distance_unique [OF dist] le by fastforce
  with inv show "set frontier = {u \<in> set (v # seen). at_distance repo tip (max_depth - 1) u}"
    "distinct frontier" unfolding search_inv_def by auto
qed auto

lemma search_inv_done:
  assumes "search_inv repo tip max_depth seen frontier []"
  shows "set frontier = {u. at_distance repo tip (max_depth - 1) u} \<and> distinct frontier"
proof -
  have "u \<in> set seen" if u: "at_distance repo tip (max_depth - 1) u" and "0 < max_depth" for u
  proof -
    from u have "walk repo (max_depth - 1) tip u" by (simp add: at_distance_def)
    then show ?thesis
      by (rule search_near_seen [where k = max_depth and queue = "[]", rotated -2])
        (use assms that(2) in \<open>auto simp: search_inv_def\<close>)
  qed
  moreover have "0 < max_depth" using assms by (auto simp: search_inv_def placed_def)
  ultimately show ?thesis using assms unfolding search_inv_def by auto
qed

lemma boundary_search_sound:
  assumes "boundary_search repo max_depth seen frontier queue = Some (Inr out)"
    and "search_inv repo tip max_depth seen frontier queue"
  shows "set out = {u. at_distance repo tip (max_depth - 1) u} \<and> distinct out"
proof -
  let ?P = "\<lambda>repo max_depth seen frontier queue (r :: git_error + string list). search_inv repo tip max_depth seen frontier queue \<longrightarrow>
    (\<forall>out. r = Inr out \<longrightarrow> set out = {u. at_distance repo tip (max_depth - 1) u} \<and> distinct out)"
  have "?P repo max_depth seen frontier queue (Inr out)"
  proof (rule boundary_search.raw_induct [where P = ?P, OF _ assms(1)], intro allI impI)
    fix loop repo max_depth seen frontier queue r out
    assume IH: "\<And>repo max_depth seen frontier queue r. loop repo max_depth seen frontier queue = Some r \<Longrightarrow>
        ?P repo max_depth seen frontier queue r"
      and body: "(case queue of [] \<Rightarrow> Some (Inr frontier)
        | (oid, depth) # rest \<Rightarrow>
            if oid \<in> set seen then loop repo max_depth seen frontier rest
            else if depth = max_depth then loop repo max_depth (oid # seen) (frontier @ [oid]) rest
            else case rp_peel_to_commit repo oid of Inl e \<Rightarrow> Some (Inl e)
              | Inr parents \<Rightarrow> loop repo max_depth (oid # seen) frontier
                  (rest @ map (\<lambda>p. (p, depth + 1)) (filter (\<lambda>p. p \<notin> set (oid # seen)) parents))) = Some r"
      and r: "r = Inr out" and inv: "search_inv repo tip max_depth seen frontier queue"
    show "set out = {u. at_distance repo tip (max_depth - 1) u} \<and> distinct out"
    proof (cases queue)
      case Nil
      with body r have "frontier = out" by simp
      with search_inv_done [OF inv [unfolded Nil]] show ?thesis by blast
    next
      case (Cons q rest)
      obtain v d where q: "q = (v, d)" by force
      note inv' = inv [unfolded Cons q]
      show ?thesis
      proof (cases "v \<in> set seen")
        case True
        with body Cons q have "loop repo max_depth seen frontier rest = Some r" by simp
        with IH r search_inv_skip [OF inv' True] show ?thesis by blast
      next
        case new: False
        show ?thesis
        proof (cases "d = max_depth")
          case True
          with new body Cons q have "loop repo max_depth (v # seen) (frontier @ [v]) rest = Some r" by simp
          with IH r search_inv_frontier [OF inv' [unfolded True] new] show ?thesis by blast
        next
          case False
          with new body Cons q r obtain ps where ps: "rp_peel_to_commit repo v = Inr ps"
            and "loop repo max_depth (v # seen) frontier
              (rest @ map (\<lambda>p. (p, d + 1)) (filter (\<lambda>p. p \<notin> set (v # seen)) ps)) = Some r"
            by (auto split: sum.splits)
          with IH r search_inv_expand [OF inv' new False ps] show ?thesis by blast
        qed
      qed
    qed
  qed
  with assms(2) show ?thesis by blast
qed

text \<open>The search returns when the commits it can reach are finitely many.\<close>

lemma boundary_search_returns:
  assumes fin: "finite V" and closed: "\<And>v ps p. v \<in> V \<Longrightarrow> rp_peel_to_commit repo v = Inr ps \<Longrightarrow> p \<in> set ps \<Longrightarrow> p \<in> V"
  shows "fst ` set queue \<subseteq> V \<Longrightarrow> \<exists>r. boundary_search repo max_depth seen frontier queue = Some r"
proof (induction "(card (V - set seen), length queue)" arbitrary: seen frontier queue
    rule: wf_induct_rule [OF wf_lex_prod [OF wf_less_than wf_less_than]])
  case 1
  show ?case
  proof (cases queue)
    case Nil
    then show ?thesis by (simp add: boundary_search.simps [of repo max_depth seen frontier])
  next
    case (Cons q rest)
    obtain v d where q: "q = (v, d)" by force
    have step: "\<exists>r. boundary_search repo max_depth seen' frontier' queue' = Some r"
      if "card (V - set seen') < card (V - set seen) \<or>
        (card (V - set seen') = card (V - set seen) \<and> length queue' < length queue)"
        "fst ` set queue' \<subseteq> V" for seen' frontier' queue'
      using 1(1) [of seen' queue' frontier'] that by auto
    have fewer: "card (V - set (v # seen)) < card (V - set seen)" if "v \<notin> set seen"
      using that 1(2) Cons q fin by (intro psubset_card_mono) auto
    show ?thesis
    proof (cases "v \<in> set seen")
      case True
      with step [of seen rest frontier] 1(2) Cons q show ?thesis
        by (subst boundary_search.simps) simp
    next
      case False
      have ps: "\<exists>r. boundary_search repo max_depth (v # seen) frontier
          (rest @ map (\<lambda>p. (p, d + 1)) (filter (\<lambda>p. p \<notin> set (v # seen)) ps)) = Some r"
        if "rp_peel_to_commit repo v = Inr ps" for ps
        by (rule step) (use fewer [OF False] 1(2) Cons q closed [OF _ that] in auto)
      have "\<exists>r. boundary_search repo max_depth (v # seen) (frontier @ [v]) rest = Some r"
        by (rule step) (use fewer [OF False] 1(2) Cons q in auto)
      with ps False Cons q show ?thesis
        by (subst boundary_search.simps) (auto split: sum.split)
    qed
  qed
qed

subsection \<open>The shallow file\<close>

text \<open>\<open>from_hex\<close> yields an object id, which prints as 40 lower-case hex digits.\<close>

definition hex_canonical :: "ext \<Rightarrow> bool" where
  "hex_canonical x \<longleftrightarrow> (\<forall>line h. oid_from_hex x line = Some h \<longrightarrow> is_valid_bundle_stem h)"

lemma split_lines_nonempty [simp]: "split_lines s \<noteq> []"
  by (induction s) (auto split: list.split)

lemma split_lines_line: "CHR 0x0A \<notin> set l \<Longrightarrow> split_lines (l @ CHR 0x0A # s) = l # split_lines s"
  by (induction l) auto

lemma trim_ascii_id: "(\<And>c. c \<in> set s \<Longrightarrow> \<not> ascii_space c) \<Longrightarrow> trim_ascii s = s"
  by (simp add: trim_ascii_def dropWhile_eq_self_iff) (metis in_set_conv_decomp rev.simps(2)
      dropWhile_eq_self_iff hd_in_set list.distinct(1) rev_is_Nil_conv rev_rev_ident set_rev)

lemma stem_no_space:
  assumes "is_valid_bundle_stem oid"
  shows "c \<in> set oid \<Longrightarrow> \<not> ascii_space c" "CHR 0x0A \<notin> set oid" "oid \<noteq> []"
proof -
  have lower: "is_lower_hex c" if "c \<in> set oid" for c
    using assms that by (auto simp: is_valid_bundle_stem_def list_all_iff)
  moreover have "\<not> is_lower_hex c" if "ascii_space c" for c
    using that by (auto simp: ascii_space_def is_lower_hex_def less_eq_char_def)
  ultimately show "c \<in> set oid \<Longrightarrow> \<not> ascii_space c" "CHR 0x0A \<notin> set oid"
    by (auto simp: ascii_space_def)
  show "oid \<noteq> []" using assms by (auto simp: is_valid_bundle_stem_def)
qed

lemma shallow_entries_lines:
  assumes "hex_law x" "\<And>oid. oid \<in> set os \<Longrightarrow> is_valid_bundle_stem oid"
  shows "shallow_entries x (concat (map (\<lambda>oid. oid @ [CHR 0x0A]) os)) = os"
  using assms(2)
proof (induction os)
  case (Cons oid os)
  then have v: "is_valid_bundle_stem oid" by simp
  note n = stem_no_space [OF v]
  from Cons.IH Cons.prems assms(1) v n show ?case
    by (simp add: shallow_entries_def split_lines_line trim_ascii_id map_filter_simps hex_law_def)
qed (simp add: shallow_entries_def trim_ascii_def map_filter_simps)

lemma shallow_entries_valid: "hex_canonical x \<Longrightarrow> oid \<in> set (shallow_entries x s) \<Longrightarrow> is_valid_bundle_stem oid"
  by (auto simp: shallow_entries_def map_filter_def hex_canonical_def split: if_splits)

definition shallow_content :: "string option \<Rightarrow> string" where
  "shallow_content file = (case file of None \<Rightarrow> [] | Some bytes \<Rightarrow> bytes)"

lemma write_shallow_file_entries:
  assumes x: "hex_law x" "hex_canonical x" and b: "\<And>oid. oid \<in> set boundaries \<Longrightarrow> is_valid_bundle_stem oid"
    and io: "si_read env = None" "si_open env = Inr repo" "si_remove env = None" "si_write env = None"
  shows "\<exists>file'. write_shallow_file x env boundaries file = (Inr (), file') \<and>
    set (shallow_entries x (shallow_content file')) = set boundaries \<union>
      {oid \<in> set (shallow_entries x (shallow_content file)). entry_remains_a_boundary repo oid} \<and>
    (file' = None \<longleftrightarrow> shallow_entries x (shallow_content file') = []) \<and>
    sorted (shallow_entries x (shallow_content file')) \<and> distinct (shallow_entries x (shallow_content file'))"
proof -
  let ?content = "shallow_content file"
  let ?stale = "shallow_stale x ?content boundaries"
  define final where "final = sort (remdups (boundaries @ filter (entry_remains_a_boundary repo) ?stale))"
  define out_bytes where "out_bytes = concat (map (\<lambda>oid. oid @ [CHR 0x0A]) final)"
  have nil: "final = [] \<longleftrightarrow> remdups (boundaries @ filter (entry_remains_a_boundary repo) ?stale) = []"
    unfolding final_def by (metis length_0_conv length_sort)
  have run: "write_shallow_file x env boundaries file =
      (if final = [] then (Inr (), None) else (Inr (), Some out_bytes))"
    unfolding nil using io
    by (auto simp: write_shallow_file_def read_or_empty_def shallow_content_def Let_def final_def out_bytes_def
        split: option.splits)
  have set: "set final = set boundaries \<union>
      {oid \<in> set (shallow_entries x ?content). entry_remains_a_boundary repo oid}"
    by (auto simp: final_def shallow_stale_def)
  have "is_valid_bundle_stem oid" if "oid \<in> set final" for oid
    using that b shallow_entries_valid [OF x(2)] by (auto simp: set)
  then have lines: "shallow_entries x out_bytes = final"
    unfolding out_bytes_def by (rule shallow_entries_lines [OF x(1)])
  have order: "sorted final" "distinct final" by (simp_all add: final_def)
  show ?thesis
  proof (cases "final = []")
    case True
    then have "out_bytes = []" by (simp add: out_bytes_def)
    with True lines set run show ?thesis by (simp add: shallow_content_def)
  next
    case False
    with lines set run order show ?thesis by (simp add: shallow_content_def)
  qed
qed

subsection \<open>Configuration keys\<close>

definition show_dotted_key :: "dotted_key \<Rightarrow> string" where
  "show_dotted_key k = dk_section k @ CHR ''.'' #
     (case dk_subsection k of None \<Rightarrow> [] | Some s \<Rightarrow> s @ [CHR ''.'']) @ dk_name k"

definition dotted_key_ok :: "dotted_key \<Rightarrow> bool" where
  "dotted_key_ok k \<longleftrightarrow> dk_section k \<noteq> [] \<and> CHR ''.'' \<notin> set (dk_section k) \<and>
     dk_name k \<noteq> [] \<and> CHR ''.'' \<notin> set (dk_name k)"

lemma parse_dotted_key_exact:
  "parse_dotted_key key = Inr k \<longleftrightarrow> dotted_key_ok k \<and> key = show_dotted_key k"
proof
  assume p: "parse_dotted_key key = Inr k"
  then obtain a b c d where ab: "split_once CHR ''.'' key = Some (a, b)" "rsplit_once CHR ''.'' key = Some (c, d)"
    by (auto simp: parse_dotted_key_def split: option.splits prod.splits)
  then have key: "key = a @ CHR ''.'' # b" "CHR ''.'' \<notin> set a" "key = c @ CHR ''.'' # d" "CHR ''.'' \<notin> set d"
    by (auto simp: split_once_Some rsplit_once_Some)
  from p ab have k: "a \<noteq> []" "d \<noteq> []" "dk_section k = a" "dk_name k = d"
    "dk_subsection k = (if a = c then None else Some (take (length c - length a - 1) b))"
    by (auto simp: parse_dotted_key_def split: if_splits)
  have "key = show_dotted_key k"
  proof (cases "a = c")
    case True
    with key k show ?thesis by (simp add: show_dotted_key_def)
  next
    case False
    from key(1,3) have eq: "a @ CHR ''.'' # b = c @ CHR ''.'' # d" by simp
    then consider us where "a = c @ us" "us @ CHR ''.'' # b = CHR ''.'' # d"
      | us where "c = a @ us" "us @ CHR ''.'' # d = CHR ''.'' # b"
      by (auto simp: append_eq_append_conv2)
    then show ?thesis
    proof cases
      case 1
      with False obtain us' where "us = CHR ''.'' # us'" by (cases us) auto
      with 1 key(2) show ?thesis by auto
    next
      case 2
      with False obtain us' where us: "us = CHR ''.'' # us'" "b = us' @ CHR ''.'' # d" by (cases us) auto
      with 2 have "length c - length a - 1 = length us'" by simp
      with us k False key(1) show ?thesis by (simp add: show_dotted_key_def)
    qed
  qed
  with key k show "dotted_key_ok k \<and> key = show_dotted_key k" by (simp add: dotted_key_ok_def)
next
  assume "dotted_key_ok k \<and> key = show_dotted_key k"
  then have ok: "dotted_key_ok k" and key: "key = show_dotted_key k" by simp_all
  show "parse_dotted_key key = Inr k"
  proof (cases "dk_subsection k")
    case None
    with key have "key = dk_section k @ CHR ''.'' # dk_name k" by (simp add: show_dotted_key_def)
    with ok have "split_once CHR ''.'' key = Some (dk_section k, dk_name k)"
      "rsplit_once CHR ''.'' key = Some (dk_section k, dk_name k)"
      by (auto simp: split_once_Some rsplit_once_Some dotted_key_ok_def)
    with ok None show ?thesis by (simp add: parse_dotted_key_def dotted_key_ok_def)
  next
    case (Some sub)
    with key have "key = dk_section k @ CHR ''.'' # sub @ CHR ''.'' # dk_name k"
      by (simp add: show_dotted_key_def)
    with ok have "split_once CHR ''.'' key = Some (dk_section k, sub @ CHR ''.'' # dk_name k)"
      "rsplit_once CHR ''.'' key = Some (dk_section k @ CHR ''.'' # sub, dk_name k)"
      by (auto simp: split_once_Some rsplit_once_Some dotted_key_ok_def)
    with ok Some show ?thesis by (simp add: parse_dotted_key_def dotted_key_ok_def)
  qed
qed

subsection \<open>Properties\<close>

text \<open>
  A history for the examples: \<open>a\<close> is a merge of \<open>b\<close> and \<open>c\<close>, \<open>b\<close> has the parent \<open>c\<close>, and \<open>c\<close>
  is a root; \<open>1\<close> is a tag of \<open>a\<close>.
\<close>

definition demo_history :: git_repo where
  "demo_history =
     \<lparr>rp_rev_parse = (\<lambda>_. Inl EmptySpec),
      rp_find_object = (\<lambda>oid.
        if oid = demo_sha CHR ''1'' then Inr (TagObject (Inr (demo_sha CHR ''a'')))
        else if oid \<in> {demo_sha CHR ''a'', demo_sha CHR ''b'', demo_sha CHR ''c''} then Inr (CommitObject [])
        else Inl (FindObject oid)),
      rp_merge_base = (\<lambda>_ _. Inr None), rp_contains = (\<lambda>oid. oid = demo_sha CHR ''c''),
      rp_peel_to_commit = (\<lambda>oid.
        if oid = demo_sha CHR ''a'' then Inr [demo_sha CHR ''b'', demo_sha CHR ''c'']
        else if oid = demo_sha CHR ''b'' then Inr [demo_sha CHR ''c'']
        else if oid = demo_sha CHR ''c'' then Inr [] else Inl (FindObject oid))\<rparr>"

lemma demo_history_sel [simp]:
  "rp_find_object demo_history (demo_sha CHR ''1'') = Inr (TagObject (Inr (demo_sha CHR ''a'')))"
  "rp_find_object demo_history (demo_sha CHR ''a'') = Inr (CommitObject [])"
  "rp_find_object demo_history (demo_sha CHR ''b'') = Inr (CommitObject [])"
  "rp_peel_to_commit demo_history (demo_sha CHR ''a'') = Inr [demo_sha CHR ''b'', demo_sha CHR ''c'']"
  "rp_peel_to_commit demo_history (demo_sha CHR ''b'') = Inr [demo_sha CHR ''c'']"
  "rp_contains demo_history (demo_sha CHR ''c'')"
  by (simp_all add: demo_history_def)

definition found :: "git_repo \<Rightarrow> string set" where
  "found repo = {oid. \<exists>ob. rp_find_object repo oid = Inr ob}"

lemma demo_history_found: "finite (found demo_history)"
  by (rule finite_subset [of _ "{demo_sha CHR ''1'', demo_sha CHR ''a'', demo_sha CHR ''b'', demo_sha CHR ''c''}"])
    (auto simp: found_def demo_history_def split: if_splits)

text \<open>On a finite object database peeling always returns, tag cycles included, and a result
  names the object at the end of the tags, of the kind it says, and lists every tag passed on
  the way once, outermost first.\<close>

lemma peeling_returns_the_end_of_the_tags:
  assumes "finite (found repo)"
  shows "\<exists>r. peel_tag_chain repo tip = Some r \<and> peel_ok repo tip r"
proof -
  obtain r where "peel_loop repo [] [] tip = Some r"
    using peel_loop_returns [of "found repo" repo "[]" "[]" tip] assms unfolding found_def by blast
  moreover from this have "peel_ok repo tip r" by (rule peel_loop_ok) auto
  ultimately show ?thesis by (auto simp: peel_tag_chain_def)
qed

lemma demo_history_peel:
  "peel_tag_chain demo_history (demo_sha CHR ''1'') =
     Some (Inr (PeeledCommit (demo_sha CHR ''a'') [demo_sha CHR ''1'']))"
  by (simp add: peel_tag_chain_def peel_loop.simps [of demo_history])

lemma peeling_returns_the_end_of_the_tags_example:
  "tag_path demo_history (demo_sha CHR ''1'') [demo_sha CHR ''1''] (demo_sha CHR ''a'')"
  using peeling_returns_the_end_of_the_tags [OF demo_history_found, of "demo_sha CHR ''1''"]
  by (simp add: demo_history_peel peel_ok_def)


lemma demo_history_boundaries:
  "shallow_boundaries demo_history (demo_sha CHR ''1'') 2 =
     Some (Inr [demo_sha CHR ''b'', demo_sha CHR ''c''])"
  unfolding shallow_boundaries_def demo_history_peel
  by (simp add: boundary_search.simps [of demo_history])


text \<open>When the file operations succeed, rewriting \<open>.git/shallow\<close> leaves exactly the new
  boundaries and those old entries that are commits with a parent still missing, sorted and
  once each, and the file is removed when nothing is left.\<close>

lemma shallow_file_keeps_the_live_boundaries:
  assumes "hex_law x" "hex_canonical x" "\<And>oid. oid \<in> set boundaries \<Longrightarrow> is_valid_bundle_stem oid"
    and "si_read env = None" "si_open env = Inr repo" "si_remove env = None" "si_write env = None"
  shows "\<exists>file'. write_shallow_file x env boundaries file = (Inr (), file') \<and>
    set (shallow_entries x (shallow_content file')) = set boundaries \<union>
      {oid \<in> set (shallow_entries x (shallow_content file)). entry_remains_a_boundary repo oid} \<and>
    (file' = None \<longleftrightarrow> shallow_entries x (shallow_content file') = []) \<and>
    sorted (shallow_entries x (shallow_content file')) \<and> distinct (shallow_entries x (shallow_content file'))"
  using assms by (rule write_shallow_file_entries)

text \<open>Deepening past \<open>b\<close>, whose parent \<open>c\<close> has arrived, removes the file.\<close>

lemma shallow_file_keeps_the_live_boundaries_example:
  "snd (write_shallow_file demo_ext \<lparr>si_read = None, si_open = Inr demo_history, si_remove = None, si_write = None\<rparr>
     [] (Some (demo_sha CHR ''b'' @ [CHR 0x0A]))) = None"
proof -
  have entries: "shallow_entries demo_ext (demo_sha CHR ''b'' @ [CHR 0x0A]) = [demo_sha CHR ''b'']"
    using shallow_entries_lines [of demo_ext "[demo_sha CHR ''b'']"] by simp
  have stale: "\<not> entry_remains_a_boundary demo_history (demo_sha CHR ''b'')"
    by (simp add: entry_remains_a_boundary_def)
  have canon: "hex_canonical demo_ext"
    by (auto simp: hex_canonical_def demo_ext_def split: if_splits)
  let ?env = "\<lparr>si_read = None, si_open = Inr demo_history, si_remove = None, si_write = None\<rparr>"
  let ?file = "Some (demo_sha CHR ''b'' @ [CHR 0x0A])"
  obtain file' where run: "write_shallow_file demo_ext ?env [] ?file = (Inr (), file')"
    and set: "set (shallow_entries demo_ext (shallow_content file')) = set [] \<union>
      {oid \<in> set (shallow_entries demo_ext (shallow_content ?file)). entry_remains_a_boundary demo_history oid}"
    and gone: "file' = None \<longleftrightarrow> shallow_entries demo_ext (shallow_content file') = []"
    using shallow_file_keeps_the_live_boundaries [OF demo_hex_law canon, of "[]" ?env demo_history ?file]
    by auto
  have content: "shallow_content ?file = demo_sha CHR ''b'' @ [CHR 0x0A]" by (simp add: shallow_content_def)
  have "set (shallow_entries demo_ext (shallow_content file')) = {}"
    unfolding set content entries using stale by simp
  with gone run show ?thesis by simp
qed

text \<open>A configuration key parses to its section, subsection and name exactly when it is
  those written with dots between them, with a section and a name that are not empty and hold
  no dot; everything else is an error.\<close>

lemma dotted_keys_parse_exactly:
  "parse_dotted_key key = Inr k \<longleftrightarrow> dotted_key_ok k \<and> key = show_dotted_key k"
  by (rule parse_dotted_key_exact)

end
