(* ===== verification/Bundle_File.thy ===== *)
theory Bundle_File
  imports Path_Index Push_Wire
begin

text \<open>
  The bundle file format: \<open>src/bundle.rs\<close>. Reading the text header (\<open>read_header_line\<close> with its
  two caps, \<open>parse_header_entry\<close>, \<open>verify_pack_magic\<close>, \<open>BundleHeader::read\<close>), writing it
  (\<open>write_bundle_header\<close>), and the two operations around it, \<open>create\<close> and \<open>unbundle\<close>. Counting
  and packing objects is gix's; \<open>create\<close> and \<open>unbundle\<close> take it as the record \<open>pack_library\<close>.

  A reader is the bytes that are still to come with the error that ends them, if one does,
  and the number of bytes consumed.
\<close>

subsection \<open>Errors\<close>

text \<open>The reasons of \<open>InvalidHeader\<close>, which the code renders as text.\<close>

datatype header_problem =
    BadMagic string
  | HeaderTooLong
  | HeaderLineTooLong
  | EndOfHeader
  | HeaderNotUtf8
  | EmptyRefLine string
  | MissingRefName string
  | BadHeaderSha string string
  | TruncatedBeforePack
  | NoPackMagic
  | RefNameNotUtf8

datatype bundle_error =
    InvalidHeader header_problem
  | UnsupportedVersion nat
  | MissingPrerequisite string
  | RepoOpen string
  | BundleRevParse string
  | BundleWalk string
  | PackCount string
  | PackEntry string
  | PackWrite string
  | BundleIo string
  | BundleGit git_error

subsection \<open>Lines of the header\<close>

definition BUNDLE_V2_MAGIC :: string where
  "BUNDLE_V2_MAGIC = ''# v2 git bundle''"

definition BUNDLE_V3_MAGIC :: string where
  "BUNDLE_V3_MAGIC = ''# v3 git bundle''"

definition MAX_HEADER_LINE_BYTES :: nat where
  "MAX_HEADER_LINE_BYTES = 16 * 1024"

definition MAX_HEADER_TOTAL_BYTES :: nat where
  "MAX_HEADER_TOTAL_BYTES = 64 * 1024 * 1024"

text \<open>The text of an error.\<close>

fun header_problem_display :: "header_problem \<Rightarrow> string" where
  "header_problem_display (BadMagic m) = ''expected '' @ debug_str BUNDLE_V2_MAGIC @ '', got '' @ debug_str m"
| "header_problem_display HeaderTooLong =
     ''bundle header exceeds '' @ show_nat MAX_HEADER_TOTAL_BYTES @ ''-byte cap''"
| "header_problem_display HeaderLineTooLong =
     ''bundle header line exceeds '' @ show_nat MAX_HEADER_LINE_BYTES @ ''-byte cap''"
| "header_problem_display EndOfHeader = ''unexpected end of bundle header''"
| "header_problem_display HeaderNotUtf8 = ''bundle header line is not valid UTF-8''"
| "header_problem_display (EmptyRefLine t) = ''empty ref line: '' @ debug_str t"
| "header_problem_display (MissingRefName t) = ''missing ref name: '' @ debug_str t"
| "header_problem_display (BadHeaderSha c h) = ''bad '' @ c @ '' SHA: '' @ debug_str h"
| "header_problem_display TruncatedBeforePack = ''bundle truncated before PACK data''"
| "header_problem_display NoPackMagic = ''expected PACK magic after bundle header''"
| "header_problem_display RefNameNotUtf8 = ''ref name is not valid UTF-8''"

fun bundle_error_display :: "bundle_error \<Rightarrow> string" where
  "bundle_error_display (InvalidHeader p) = ''invalid bundle header: '' @ header_problem_display p"
| "bundle_error_display (UnsupportedVersion v) =
     ''unsupported bundle version '' @ show_nat v @ ''; only v2 is supported''"
| "bundle_error_display (MissingPrerequisite oid) = ''missing prerequisite '' @ oid"
| "bundle_error_display (RepoOpen e) = ''open repository: '' @ e"
| "bundle_error_display (BundleRevParse e) = ''rev-parse: '' @ e"
| "bundle_error_display (BundleWalk e) = ''object walk: '' @ e"
| "bundle_error_display (PackCount e) = ''pack count: '' @ e"
| "bundle_error_display (PackEntry e) = ''pack entry: '' @ e"
| "bundle_error_display (PackWrite e) = ''pack write: '' @ e"
| "bundle_error_display (BundleIo e) = e"
| "bundle_error_display (BundleGit e) = git_error_display e"

record reader =
  rd_bytes :: string
  rd_error :: "string option"
  rd_position :: nat

text \<open>The reader at the start of a file.\<close>

definition file_reader :: "string \<Rightarrow> reader" where
  "file_reader bytes = \<lparr>rd_bytes = bytes, rd_error = None, rd_position = 0\<rparr>"

lemma file_reader_sel [simp]:
  "rd_bytes (file_reader b) = b" "rd_error (file_reader b) = None" "rd_position (file_reader b) = 0"
  by (simp_all add: file_reader_def)

abbreviation newline :: char where
  "newline \<equiv> CHR 0x0A"

text \<open>\<open>reader.take(budget).read_until(b'\\n')\<close>: up to and including the newline.\<close>

definition read_until :: "nat \<Rightarrow> reader \<Rightarrow> bundle_error + (string \<times> reader)" where
  "read_until budget rd =
     (let line = takeWhile (\<lambda>c. c \<noteq> newline) (rd_bytes rd);
          got = (if length line < budget \<and> length line < length (rd_bytes rd) then line @ [newline]
                 else take budget line)
      in case rd_error rd of
           Some e \<Rightarrow>
             if length got < budget \<and> length got = length (rd_bytes rd) \<and> newline \<notin> set got
             then Inl (BundleIo e)
             else Inr (got, rd\<lparr>rd_bytes := drop (length got) (rd_bytes rd),
                               rd_position := rd_position rd + length got\<rparr>)
         | None \<Rightarrow> Inr (got, rd\<lparr>rd_bytes := drop (length got) (rd_bytes rd),
                               rd_position := rd_position rd + length got\<rparr>))"

definition saturating_add :: "nat \<Rightarrow> nat \<Rightarrow> nat" where
  "saturating_add a b = min (a + b) (2 ^ 64 - 1)"

definition read_header_line ::
    "reader \<Rightarrow> nat \<Rightarrow> bundle_error + (string \<times> reader \<times> nat)" where
  "read_header_line rd total_bytes =
     (let remaining_total = MAX_HEADER_TOTAL_BYTES - total_bytes;
          budget = min MAX_HEADER_LINE_BYTES remaining_total
      in if budget = 0 then Inl (InvalidHeader HeaderTooLong)
         else case read_until budget rd of
           Inl e \<Rightarrow> Inl e
         | Inr (buf, rd') \<Rightarrow>
             if buf = [] then Inl (InvalidHeader EndOfHeader)
             else if length buf = budget \<and> last buf \<noteq> newline then
               Inl (InvalidHeader (if budget < MAX_HEADER_LINE_BYTES then HeaderTooLong
                                   else HeaderLineTooLong))
             else if \<not> utf8_valid buf then Inl (InvalidHeader HeaderNotUtf8)
             else Inr (buf, rd', saturating_add total_bytes (length buf)))"

datatype header_entry =
    HeaderEnd
  | HeaderPrerequisite string
  | HeaderRef string string

definition trim_line_end :: "string \<Rightarrow> string" where
  "trim_line_end s = rev (dropWhile (\<lambda>c. c = newline \<or> c = CHR 0x0D) (rev s))"

definition parse_header_oid :: "ext \<Rightarrow> string \<Rightarrow> string \<Rightarrow> bundle_error + string" where
  "parse_header_oid x sha_hex context_name =
     (case oid_from_hex x sha_hex of
        None \<Rightarrow> Inl (InvalidHeader (BadHeaderSha context_name sha_hex))
      | Some oid \<Rightarrow> Inr oid)"

definition parse_header_entry :: "ext \<Rightarrow> string \<Rightarrow> bundle_error + header_entry" where
  "parse_header_entry x line =
     (let trimmed = trim_line_end line in
      if trimmed = [] then Inr HeaderEnd
      else case strip_prefix ''-'' trimmed of
        Some rest \<Rightarrow>
          (let sha_hex = (case split_once CHR '' '' rest of None \<Rightarrow> rest | Some (s, _) \<Rightarrow> s) in
           case parse_header_oid x sha_hex ''prerequisite'' of
             Inl e \<Rightarrow> Inl e
           | Inr oid \<Rightarrow> Inr (HeaderPrerequisite oid))
      | None \<Rightarrow>
          (let (sha_hex, ref_part) =
             (case split_once CHR '' '' trimmed of
                None \<Rightarrow> (trimmed, None) | Some (s, r) \<Rightarrow> (s, Some r))
           in if sha_hex = [] then Inl (InvalidHeader (EmptyRefLine trimmed))
              else case ref_part of
                None \<Rightarrow> Inl (InvalidHeader (MissingRefName trimmed))
              | Some ref_name \<Rightarrow>
                  if ref_name = [] then Inl (InvalidHeader (MissingRefName trimmed))
                  else (case parse_header_oid x sha_hex ''ref'' of
                          Inl e \<Rightarrow> Inl e
                        | Inr oid \<Rightarrow> Inr (HeaderRef oid ref_name))))"

definition verify_pack_magic :: "reader \<Rightarrow> bundle_error + unit" where
  "verify_pack_magic rd =
     (if length (rd_bytes rd) < 4 then
        (case rd_error rd of
           None \<Rightarrow> Inl (InvalidHeader TruncatedBeforePack)
         | Some e \<Rightarrow> Inl (BundleIo e))
      else if take 4 (rd_bytes rd) \<noteq> ''PACK'' then Inl (InvalidHeader NoPackMagic)
      else Inr ())"

subsection \<open>The header\<close>

record bundle_header =
  bh_version :: nat
  bh_prerequisites :: "string list"
  bh_refs :: "(string \<times> string) list"
  bh_pack_offset :: nat

lemma read_until_consumes:
  "read_until budget rd = Inr (buf, rd') \<Longrightarrow>
     rd_bytes rd = buf @ rd_bytes rd' \<and> length buf \<le> budget \<and>
     rd_error rd' = rd_error rd \<and> rd_position rd' = rd_position rd + length buf"
proof -
  assume r: "read_until budget rd = Inr (buf, rd')"
  let ?s = "rd_bytes rd"
  let ?line = "takeWhile (\<lambda>c. c \<noteq> newline) ?s"
  let ?got = "if length ?line < budget \<and> length ?line < length ?s then ?line @ [newline] else take budget ?line"
  have got: "buf = ?got" and rd': "rd' = rd\<lparr>rd_bytes := drop (length buf) ?s, rd_position := rd_position rd + length buf\<rparr>"
    using r by (auto simp: read_until_def Let_def split: option.splits if_splits)
  have "prefix ?got ?s"
  proof (cases "length ?line < budget \<and> length ?line < length ?s")
    case True
    then have "dropWhile (\<lambda>c. c \<noteq> newline) ?s \<noteq> []"
      by (metis append_Nil2 less_irrefl takeWhile_dropWhile_id)
    then obtain c t where ct: "dropWhile (\<lambda>c. c \<noteq> newline) ?s = c # t" by (cases "dropWhile (\<lambda>c. c \<noteq> newline) ?s") auto
    then have "c = newline" using hd_dropWhile [of "\<lambda>c. c \<noteq> newline" ?s] by simp
    have "?s = ?line @ dropWhile (\<lambda>c. c \<noteq> newline) ?s" by simp
    also have "\<dots> = (?line @ [newline]) @ t" unfolding ct \<open>c = newline\<close> by simp
    finally have "prefix (?line @ [newline]) ?s" by (rule prefixI)
    with True show ?thesis by simp
  next
    case False
    have "prefix (take budget ?line) ?line" by (rule take_is_prefix)
    also have "prefix ?line ?s" by (rule takeWhile_is_prefix)
    finally show ?thesis using False by auto
  qed
  then obtain rest where "?s = buf @ rest" by (auto simp: got prefix_def)
  moreover have "length buf \<le> budget" by (auto simp: got)
  ultimately show ?thesis by (simp add: rd')
qed

lemma read_header_line_Inr:
  "read_header_line rd tot = Inr (buf, rd', tot') \<Longrightarrow>
     rd_bytes rd = buf @ rd_bytes rd' \<and> buf \<noteq> [] \<and> length buf \<le> MAX_HEADER_LINE_BYTES \<and>
     length buf \<le> MAX_HEADER_TOTAL_BYTES - tot \<and> utf8_valid buf \<and>
     rd_error rd' = rd_error rd \<and> rd_position rd' = rd_position rd + length buf \<and>
     tot' = saturating_add tot (length buf)"
  by (auto simp: read_header_line_def Let_def dest!: read_until_consumes split: if_splits sum.splits prod.splits)

text \<open>The loop of \<open>BundleHeader::read\<close>. Every line consumes at least a byte, so it ends.\<close>

function header_entries ::
    "ext \<Rightarrow> reader \<Rightarrow> nat \<Rightarrow> string list \<Rightarrow> (string \<times> string) list \<Rightarrow>
     bundle_error + (string list \<times> (string \<times> string) list \<times> reader)" where
  "header_entries x rd total_bytes prerequisites refs =
     (case read_header_line rd total_bytes of
        Inl e \<Rightarrow> Inl e
      | Inr (line, rd', total_bytes') \<Rightarrow>
          (case parse_header_entry x line of
             Inl e \<Rightarrow> Inl e
           | Inr HeaderEnd \<Rightarrow> Inr (prerequisites, refs, rd')
           | Inr (HeaderPrerequisite oid) \<Rightarrow>
               header_entries x rd' total_bytes' (prerequisites @ [oid]) refs
           | Inr (HeaderRef oid ref_name) \<Rightarrow>
               header_entries x rd' total_bytes' prerequisites (refs @ [(oid, ref_name)])))"
  by pat_completeness auto
termination
  by (relation "measure (\<lambda>(x, rd, t, p, r). length (rd_bytes rd))") (auto dest!: read_header_line_Inr)

declare header_entries.simps [simp del]

definition read_bundle_header :: "ext \<Rightarrow> bundle_error + reader \<Rightarrow> bundle_error + bundle_header" where
  "read_bundle_header x opened =
     (case opened of
        Inl e \<Rightarrow> Inl e
      | Inr file \<Rightarrow>
          (case read_header_line file 0 of
             Inl e \<Rightarrow> Inl e
           | Inr (line, rd, total_bytes) \<Rightarrow>
               (let magic = trim_line_end line in
                if magic = BUNDLE_V3_MAGIC then Inl (UnsupportedVersion 3)
                else if magic \<noteq> BUNDLE_V2_MAGIC then Inl (InvalidHeader (BadMagic magic))
                else
                  (case header_entries x rd total_bytes [] [] of
                     Inl e \<Rightarrow> Inl e
                   | Inr (prerequisites, refs, rd') \<Rightarrow>
                       (case verify_pack_magic rd' of
                          Inl e \<Rightarrow> Inl e
                        | Inr _ \<Rightarrow> Inr \<lparr>bh_version = 2, bh_prerequisites = prerequisites,
                            bh_refs = refs, bh_pack_offset = rd_position rd'\<rparr>)))))"

definition write_bundle_header :: "string \<Rightarrow> string \<Rightarrow> string" where
  "write_bundle_header sha ref_name =
     BUNDLE_V2_MAGIC @ [newline] @ sha @ '' '' @ ref_name @ [newline] @ [newline]"

subsection \<open>Creating and installing bundles\<close>

text \<open>
  The queries of gix the packing code makes: the ref a spec resolves to, the commits of a
  revision walk with an optional hidden tip (each step may fail), trees, the counting of the
  objects to pack, the pack made of them, its index, and the installation of a pack. An error
  is its rendered text. The fields ending in \<open>_io\<close> are the errors of the file system calls
  around them, if any: finding the folder of a new bundle, its temporary file and renaming it
  into place; making the pack directory, seeking to the pack in the opened bundle, and removing
  the \<open>.keep\<close> file (other than that it is not there).
\<close>

datatype expansion = TreeContents | TreeAdditionsComparedToAncestor | AsIs

record pack_library =
  pl_follow_ref :: "string \<Rightarrow> string option"
  pl_rev_walk :: "string \<Rightarrow> string option \<Rightarrow> string + (string + string) list"
  pl_trees :: tree_db
  pl_count :: "string list \<Rightarrow> expansion \<Rightarrow> string + string list"
  pl_pack :: "string list \<Rightarrow> string + string"
  pl_index :: "string \<Rightarrow> string + string option"
  pl_install :: "string \<Rightarrow> string + unit"
  pl_folder_io :: "string option"
  pl_temp_io :: "string option"
  pl_persist_io :: "string option"
  pl_pack_dir_io :: "string option"
  pl_seek_io :: "string option"
  pl_keep_io :: "string option"

fun walk_ids :: "(string + string) list \<Rightarrow> string + string list" where
  "walk_ids [] = Inr []"
| "walk_ids (Inl e # steps) = Inl e"
| "walk_ids (Inr oid # steps) =
     (case walk_ids steps of Inl e \<Rightarrow> Inl e | Inr oids \<Rightarrow> Inr (oid # oids))"

definition collect_commit_ids :: "pack_library \<Rightarrow> string \<Rightarrow> bundle_error + string list" where
  "collect_commit_ids lib tip_id =
     (case pl_rev_walk lib tip_id None of
        Inl e \<Rightarrow> Inl (BundleWalk e)
      | Inr steps \<Rightarrow> (case walk_ids steps of Inl e \<Rightarrow> Inl (BundleWalk e) | Inr oids \<Rightarrow> Inr oids))"

definition resolve_spec_to_ref ::
    "git_repo \<Rightarrow> pack_library \<Rightarrow> string \<Rightarrow> (bundle_error + (peeled_tip \<times> string)) option" where
  "resolve_spec_to_ref repo lib spec =
     (case rp_rev_parse repo spec of
        Inl e \<Rightarrow> Some (Inl (BundleRevParse (git_error_display e)))
      | Inr resolved \<Rightarrow>
          (case peel_tag_chain repo resolved of
             None \<Rightarrow> None
           | Some (Inl e) \<Rightarrow> Some (Inl (BundleGit e))
           | Some (Inr peeled) \<Rightarrow>
               (case pl_follow_ref lib spec of
                  Some bytes \<Rightarrow>
                    if utf8_valid bytes then Some (Inr (peeled, bytes))
                    else Some (Inl (InvalidHeader RefNameNotUtf8))
                | None \<Rightarrow> Some (Inr (peeled, spec)))))"

definition count_objects_as_is :: "pack_library \<Rightarrow> string list \<Rightarrow> string + string list" where
  "count_objects_as_is lib object_ids =
     (if object_ids = [] then Inr [] else pl_count lib object_ids AsIs)"

definition bundle_input ::
    "pack_library \<Rightarrow> peeled_tip \<Rightarrow> (bundle_error + (string list \<times> expansion \<times> string list)) option" where
  "bundle_input lib peeled =
     (case peeled of
        PeeledCommit commit tag_chain \<Rightarrow> Some
          (case collect_commit_ids lib commit of
             Inl e \<Rightarrow> Inl e | Inr ids \<Rightarrow> Inr (ids, TreeContents, tag_chain))
      | PeeledTree tree tag_chain \<Rightarrow>
          map_option (\<lambda>closure. case closure of
             Inl e \<Rightarrow> Inl (BundleGit e) | Inr ids \<Rightarrow> Inr (ids, AsIs, tag_chain))
            (enumerate_tree_closure (pl_trees lib) tree)
      | PeeledBlob blob tag_chain \<Rightarrow> Some (Inr ([blob], AsIs, tag_chain)))"

text \<open>The objects to pack: those of the input, then the annotated tags.\<close>

definition count_input ::
    "pack_library \<Rightarrow> string list \<Rightarrow> expansion \<Rightarrow> string list \<Rightarrow> bundle_error + string list" where
  "count_input lib input_oids expand tag_chain =
     (case pl_count lib input_oids expand of
        Inl e \<Rightarrow> Inl (PackCount e)
      | Inr counts \<Rightarrow>
          (case count_objects_as_is lib tag_chain of
             Inl e \<Rightarrow> Inl (PackCount e)
           | Inr tag_counts \<Rightarrow>
               (let all_counts = counts @ tag_counts in
                if 2 ^ 32 \<le> length all_counts
                then Inl (PackEntry ''too many objects for a single pack'')
                else Inr all_counts)))"

text \<open>The bytes of the bundle file, written to a temporary file and renamed into place.\<close>

definition write_bundle_file ::
    "pack_library \<Rightarrow> string \<Rightarrow> string list \<Rightarrow> bundle_error + string" where
  "write_bundle_file lib header all_counts =
     (case pl_folder_io lib of
        Some e \<Rightarrow> Inl (BundleIo e)
      | None \<Rightarrow>
     (case pl_temp_io lib of
        Some e \<Rightarrow> Inl (BundleIo e)
      | None \<Rightarrow>
     (case pl_pack lib all_counts of
        Inl e \<Rightarrow> Inl (PackEntry e)
      | Inr pack \<Rightarrow>
     (case pl_persist_io lib of
        Some e \<Rightarrow> Inl (BundleIo e)
      | None \<Rightarrow> Inr (header @ pack)))))"

definition create_bundle ::
    "bundle_error + git_repo \<Rightarrow> pack_library \<Rightarrow> string \<Rightarrow> string \<Rightarrow> (bundle_error + string) option" where
  "create_bundle opened lib sha spec =
     (case opened of
        Inl e \<Rightarrow> Some (Inl e)
      | Inr repo \<Rightarrow>
          (case resolve_spec_to_ref repo lib spec of
             None \<Rightarrow> None
           | Some (Inl e) \<Rightarrow> Some (Inl e)
           | Some (Inr (peeled, ref_name)) \<Rightarrow>
               (case bundle_input lib peeled of
                  None \<Rightarrow> None
                | Some (Inl e) \<Rightarrow> Some (Inl e)
                | Some (Inr (input_oids, expand, tag_chain)) \<Rightarrow> Some
                    (case count_input lib input_oids expand tag_chain of
                       Inl e \<Rightarrow> Inl e
                     | Inr all_counts \<Rightarrow>
                         write_bundle_file lib (write_bundle_header sha ref_name) all_counts))))"

text \<open>
  The prerequisites must be present before the pack, from its offset on, is installed;
  \<open>opened\<close> is the bundle file, or the error of finding or opening it.
\<close>

definition install_bundle ::
    "ext \<Rightarrow> bundle_error + reader \<Rightarrow> bundle_error + git_repo \<Rightarrow> pack_library \<Rightarrow> bundle_error + unit" where
  "install_bundle x opened repo_opened lib =
     (case read_bundle_header x opened of
        Inl e \<Rightarrow> Inl e
      | Inr header \<Rightarrow>
     (case repo_opened of
        Inl e \<Rightarrow> Inl e
      | Inr repo \<Rightarrow>
     (case List.find (\<lambda>prereq. \<not> rp_contains repo prereq) (bh_prerequisites header) of
        Some prereq \<Rightarrow> Inl (MissingPrerequisite prereq)
      | None \<Rightarrow>
     (case pl_pack_dir_io lib of
        Some e \<Rightarrow> Inl (BundleIo e)
      | None \<Rightarrow>
     (case opened of
        Inl e \<Rightarrow> Inl e
      | Inr file \<Rightarrow>
     (case pl_seek_io lib of
        Some e \<Rightarrow> Inl (BundleIo e)
      | None \<Rightarrow>
     (case pl_install lib (drop (bh_pack_offset header) (rd_bytes file)) of
        Inl e \<Rightarrow> Inl (PackWrite e) | Inr _ \<Rightarrow> Inr ())))))))"

text \<open>When only the removal of the \<open>.keep\<close> file fails, the pack stays installed.\<close>

definition unbundle_file ::
    "ext \<Rightarrow> bundle_error + reader \<Rightarrow> bundle_error + git_repo \<Rightarrow> pack_library \<Rightarrow> bundle_error + unit" where
  "unbundle_file x opened repo_opened lib =
     (case install_bundle x opened repo_opened lib of
        Inl e \<Rightarrow> Inl e
      | Inr _ \<Rightarrow> (case pl_keep_io lib of Some e \<Rightarrow> Inl (BundleIo e) | None \<Rightarrow> Inr ()))"

end
