(* ===== verification/Pack_Build.thy ===== *)
theory Pack_Build
  imports Bundle_File
begin

text \<open>
  Building the packs of the packchain engine: \<open>src/packchain/pack.rs\<close>. Walking, counting,
  packing and indexing are gix's (\<open>pack_library\<close>); which objects are asked for, the checks
  on the result and its name are defined here. The outcomes of the file operations are the
  record \<open>build_io\<close>. A built pack is the bytes of its two files.
\<close>

definition PACK_TRAILER_LEN :: nat where
  "PACK_TRAILER_LEN = 20"

definition PACK_HEADER_LEN :: nat where
  "PACK_HEADER_LEN = 12"

definition PACK_MIN_LEN :: nat where
  "PACK_MIN_LEN = PACK_HEADER_LEN + PACK_TRAILER_LEN"

record built_pack =
  bp_pack :: string
  bp_idx :: string
  bp_content_sha :: string
  bp_bytes :: nat

text \<open>
  \<open>gix::open\<close>; then, each \<open>None\<close> when it succeeds, creating the temporary pack file,
  syncing it and reading its length, reading its trailer, renaming it into place, opening it
  again beside a scratch directory, and renaming the index.
\<close>

record build_io =
  bi_open :: "git_error option"
  bi_tmp :: "string option"
  bi_sync :: "string option"
  bi_trailer :: "string option"
  bi_persist :: "string option"
  bi_scratch :: "string option"
  bi_rename :: "string option"

definition io_step :: "string option \<Rightarrow> packchain_error + unit" where
  "io_step failure = (case failure of None \<Rightarrow> Inr () | Some e \<Rightarrow> Inl (PackIo e))"

text \<open>\<open>Result::and_then\<close>, the \<open>?\<close> of a function without effects.\<close>

definition bind_result :: "'e + 'a \<Rightarrow> ('a \<Rightarrow> 'e + 'b) \<Rightarrow> 'e + 'b" where
  "bind_result r f = (case r of Inl e \<Rightarrow> Inl e | Inr a \<Rightarrow> f a)"

definition map_error :: "('e \<Rightarrow> 'f) \<Rightarrow> 'e + 'a \<Rightarrow> 'f + 'a" where
  "map_error g r = (case r of Inl e \<Rightarrow> Inl (g e) | Inr a \<Rightarrow> Inr a)"

lemma bind_result_Inr [simp]: "bind_result r f = Inr b \<longleftrightarrow> (\<exists>a. r = Inr a \<and> f a = Inr b)"
  by (cases r) (auto simp: bind_result_def)

lemma bind_result_simps [simp]: "bind_result (Inl e) f = Inl e" "bind_result (Inr a) f = f a"
  by (simp_all add: bind_result_def)

lemma map_error_Inr [simp]: "map_error g r = Inr b \<longleftrightarrow> r = Inr b"
  by (cases r) (auto simp: map_error_def)

lemma map_error_simps [simp]: "map_error g (Inl e) = Inl (g e)" "map_error g (Inr a) = Inr a"
  by (simp_all add: map_error_def)

text \<open>\<open>Display\<close> of an object id: two hex digits per byte.\<close>

definition hex_of_bytes :: "string \<Rightarrow> string" where
  "hex_of_bytes s = concat (map (\<lambda>c. let n = of_char c :: nat in
     [hex_digit (n div 16), hex_digit (n mod 16)]) s)"

definition collect_commits ::
    "pack_library \<Rightarrow> string \<Rightarrow> string option \<Rightarrow> packchain_error + string list" where
  "collect_commits lib tip hidden =
     bind_result (map_error PackBuild (pl_rev_walk lib tip hidden)) (\<lambda>steps.
     map_error PackBuild (walk_ids steps))"

definition collect_commits_baseline :: "pack_library \<Rightarrow> string \<Rightarrow> packchain_error + string list" where
  "collect_commits_baseline lib tip = collect_commits lib tip None"

definition collect_commits_incremental ::
    "pack_library \<Rightarrow> string \<Rightarrow> string \<Rightarrow> packchain_error + string list" where
  "collect_commits_incremental lib local_tip prior_tip = collect_commits lib local_tip (Some prior_tip)"

definition derive_idx :: "pack_library \<Rightarrow> build_io \<Rightarrow> string \<Rightarrow> packchain_error + string" where
  "derive_idx lib io pack =
     bind_result (io_step (bi_scratch io)) (\<lambda>_.
     bind_result (map_error PackIndexWrite (pl_index lib pack)) (\<lambda>index_path.
     bind_result (case index_path of
         None \<Rightarrow> Inl (PackBuild ''gix_pack did not emit an .idx path'') | Some idx \<Rightarrow> Inr idx) (\<lambda>idx.
     bind_result (io_step (bi_rename io)) (\<lambda>_. Inr idx))))"

definition em_dash :: string where
  "em_dash = [CHR 0xE2, CHR 0x80, CHR 0x94]"

definition build_pack ::
    "pack_library \<Rightarrow> build_io \<Rightarrow> string list \<Rightarrow> expansion \<Rightarrow> string list \<Rightarrow> packchain_error + built_pack" where
  "build_pack lib io input_oids expand tag_chain =
     bind_result (map_error PackBuild (pl_count lib input_oids expand)) (\<lambda>input_counts.
     bind_result (map_error PackBuild (count_objects_as_is lib tag_chain)) (\<lambda>tag_counts.
     let counts = input_counts @ tag_counts in
     if counts = [] then Inl (PackBuild
       (''no objects to pack '' @ em_dash @ '' caller should have short-circuited on prior.tip == local_tip''))
     else if 2 ^ 32 \<le> length counts then Inl (PackBuild ''too many objects for a single pack'')
     else
       bind_result (io_step (bi_tmp io)) (\<lambda>_.
       bind_result (map_error PackBuild (pl_pack lib counts)) (\<lambda>pack.
       bind_result (io_step (bi_sync io)) (\<lambda>_.
       let pack_bytes = length pack in
       if pack_bytes < PACK_MIN_LEN then Inl (PackTrailer
         (''pack file shorter than '' @ show_nat PACK_MIN_LEN @ '' bytes (got '' @ show_nat pack_bytes @ '')''))
       else
         bind_result (io_step (bi_trailer io)) (\<lambda>_.
         let trailer = drop (pack_bytes - PACK_TRAILER_LEN) pack in
         bind_result (sha40_from_oid (hex_of_bytes trailer)) (\<lambda>content_sha.
         bind_result (io_step (bi_persist io)) (\<lambda>_.
         bind_result (derive_idx lib io pack) (\<lambda>idx.
         Inr \<lparr>bp_pack = pack, bp_idx = idx, bp_content_sha = content_sha,
              bp_bytes = pack_bytes\<rparr>)))))))))"

definition open_repo :: "build_io \<Rightarrow> packchain_error + unit" where
  "open_repo io = (case bi_open io of None \<Rightarrow> Inr () | Some e \<Rightarrow> Inl (PackGit e))"

definition build_baseline_pack ::
    "pack_library \<Rightarrow> build_io \<Rightarrow> peeled_tip \<Rightarrow> (packchain_error + built_pack) option" where
  "build_baseline_pack lib io peeled =
     (case open_repo io of
        Inl e \<Rightarrow> Some (Inl e)
      | Inr _ \<Rightarrow>
          (case peeled of
             PeeledCommit commit tag_chain \<Rightarrow> Some
               (bind_result (collect_commits_baseline lib commit) (\<lambda>commit_ids.
                build_pack lib io commit_ids TreeContents tag_chain))
           | PeeledTree tree tag_chain \<Rightarrow>
               map_option (\<lambda>closure. bind_result (map_error PackGit closure) (\<lambda>oids.
                 build_pack lib io oids AsIs tag_chain)) (enumerate_tree_closure (pl_trees lib) tree)
           | PeeledBlob blob tag_chain \<Rightarrow> Some (build_pack lib io [blob] AsIs tag_chain)))"

definition build_incremental_pack ::
    "pack_library \<Rightarrow> build_io \<Rightarrow> string \<Rightarrow> string \<Rightarrow> string list \<Rightarrow> packchain_error + built_pack" where
  "build_incremental_pack lib io prior_commit local_commit tag_chain =
     bind_result (open_repo io) (\<lambda>_.
     bind_result (collect_commits_incremental lib local_commit prior_commit) (\<lambda>commit_ids.
     build_pack lib io commit_ids TreeAdditionsComparedToAncestor tag_chain))"

subsection \<open>What a built pack is\<close>

lemma hex_digit_lower [simp]: "d < 16 \<Longrightarrow> is_lower_hex (hex_digit d)"
proof -
  have "list_all (\<lambda>d. is_lower_hex (hex_digit d)) [0..<16]" by code_simp
  then show "d < 16 \<Longrightarrow> is_lower_hex (hex_digit d)" by (simp add: list_all_iff)
qed

lemma hex_of_bytes_Cons:
  "hex_of_bytes (c # s) =
     hex_digit (of_char c div 16) # hex_digit (of_char c mod 16) # hex_of_bytes s"
  by (simp add: hex_of_bytes_def Let_def)

lemma hex_of_bytes_Nil [simp]: "hex_of_bytes [] = []"
  by (simp add: hex_of_bytes_def)

lemma length_hex_of_bytes [simp]: "length (hex_of_bytes s) = 2 * length s"
  by (induction s) (simp_all add: hex_of_bytes_Cons)

lemma hex_of_bytes_lower: "list_all is_lower_hex (hex_of_bytes s)"
proof (induction s)
  case (Cons c s)
  have "(of_char c :: nat) < 16 * 16" by simp
  then have "(of_char c :: nat) div 16 < 16" by (rule less_mult_imp_div_less)
  with Cons show ?case by (simp add: hex_of_bytes_Cons)
qed simp

text \<open>The name of a built pack is valid and it is that of the pack's trailer.\<close>

lemma build_pack_sound:
  assumes "build_pack lib io ids ex tags = Inr p"
  shows "bp_content_sha p = hex_of_bytes (drop (length (bp_pack p) - 20) (bp_pack p)) \<and>
    is_valid_bundle_stem (bp_content_sha p) \<and> bp_bytes p = length (bp_pack p) \<and>
    32 \<le> length (bp_pack p) \<and> pl_index lib (bp_pack p) = Inr (Some (bp_idx p))"
proof -
  from assms obtain pack idx where p: "\<not> length pack < PACK_MIN_LEN"
    "p = \<lparr>bp_pack = pack, bp_idx = idx, bp_content_sha = hex_of_bytes (drop (length pack - PACK_TRAILER_LEN) pack),
       bp_bytes = length pack\<rparr>" "derive_idx lib io pack = Inr idx"
    by (auto simp: build_pack_def Let_def split: if_splits)
  then have "pl_index lib pack = Inr (Some idx)"
    by (auto simp: derive_idx_def split: option.splits)
  with p show ?thesis
    using hex_of_bytes_lower [of "drop (length pack - 20) pack"]
    by (simp add: is_valid_bundle_stem_def PACK_MIN_LEN_def PACK_HEADER_LEN_def PACK_TRAILER_LEN_def)
qed

end
