(* ===== verification/Packchain_Push.thy ===== *)
theory Packchain_Push
  imports Bundle_Push Pack_Build
begin

text \<open>
  The packchain engine's push: \<open>src/packchain/push.rs\<close>. A ref is a \<open>chain.json\<close> whose
  segments name the packs of its history. A push uploads its pack, the pack's index and, when
  it starts a chain, a baseline bundle, before the lock; under the lock it checks the chain
  again and writes the manifest and the path index. A deletion runs under the lock from the
  start.

  What a push reads outside the bucket is the record \<open>pack_env\<close>: the repository each time
  the code opens it, its shallow commits, the packing library, temporary directory and files.
  The walks over the object graph are partial functions; \<open>returned\<close> is the result of one
  that returns, which they all do on a finite repository (\<open>Git_History_Proofs\<close>,
  \<open>Path_Index_Proofs\<close>).
\<close>

subsection \<open>Errors\<close>

text \<open>\<open>String::from_utf8_lossy\<close>: every maximal ill-formed piece becomes U+FFFD.\<close>

definition replacement_char :: string where
  "replacement_char = [CHR 0xEF, CHR 0xBF, CHR 0xBD]"

fun utf8_lossy :: "utf8_state \<Rightarrow> string \<Rightarrow> string \<Rightarrow> string" where
  "utf8_lossy q pending [] = (if pending = [] then [] else replacement_char)"
| "utf8_lossy q pending (c # s) =
     (case utf8_step q (of_char c) of
        Some q' \<Rightarrow>
          if q' = U0 then pending @ [c] @ utf8_lossy U0 [] s else utf8_lossy q' (pending @ [c]) s
      | None \<Rightarrow>
          replacement_char @
          (if pending = [] then utf8_lossy U0 [] s
           else (case utf8_step U0 (of_char c) of
                   Some q' \<Rightarrow> if q' = U0 then c # utf8_lossy U0 [] s else utf8_lossy q' [c] s
                 | None \<Rightarrow> replacement_char @ utf8_lossy U0 [] s)))"

text \<open>The display of a packchain error; \<open>json_text\<close> is \<open>serde_json\<close>'s text of a parse error.\<close>

fun packchain_error_display :: "string \<Rightarrow> packchain_error \<Rightarrow> string" where
  "packchain_error_display json_text (UnsupportedSchemaVersion found expected) =
     ''packchain schema version '' @ show_nat found @ '' unsupported (this build reads v'' @
     show_nat expected @ '')''"
| "packchain_error_display json_text (InvalidSha found) =
     ''invalid 40-hex sha `'' @ found @ ''`: must be 40 lowercase hex characters''"
| "packchain_error_display json_text ParseJson = ''packchain schema parse error: '' @ json_text"
| "packchain_error_display json_text (InvalidPath bytes) =
     ''invalid path: '' @ utf8_lossy U0 [] bytes @ '' (not valid UTF-8)''"
| "packchain_error_display json_text (PackGit e) = ''packchain git error: '' @ git_error_display e"
| "packchain_error_display json_text ShallowPushRejected =
     ''cannot push from a shallow clone: rev-walk crosses a shallow boundary''"
| "packchain_error_display json_text (ChainAbsent r) =
     ''chain.json absent for '' @ r @ ''; the branch is unknown to the bucket''"
| "packchain_error_display json_text (PackMissing k) =
     ''packchain: chain.json references missing pack at '' @ k"
| "packchain_error_display json_text (BaselineMissing k) =
     ''packchain: baseline bundle missing at '' @ k"
| "packchain_error_display json_text (PackTrailer e) = ''pack content SHA unavailable: '' @ e"
| "packchain_error_display json_text (PackBuild e) = ''pack build error: '' @ e"
| "packchain_error_display json_text (PackIndexWrite e) = ''pack index write error: '' @ e"
| "packchain_error_display json_text (PackStore e) =
     ''packchain object-store error: '' @ store_error_display e"
| "packchain_error_display json_text (PackIo e) = ''packchain I/O error: '' @ e"
| "packchain_error_display json_text (WrongEngine engine) =
     ''read_blob requires the packchain engine; this remote uses `'' @ engine_as_str engine @
     ''` '' @ em_dash @ '' check the URL's `?engine=` parameter or the bucket's `FORMAT` key''"
| "packchain_error_display json_text (PathIndexAbsent r) =
     ''path-index.json absent for '' @ r @ ''; the branch's path map is unavailable''"
| "packchain_error_display json_text (PathNotFound r path) =
     ''path `'' @ path @ ''` not found in '' @ r"
| "packchain_error_display json_text (MalformedPath path reason) =
     ''malformed path `'' @ path @ ''`: '' @ reason"
| "packchain_error_display json_text (PathNotABlob path) =
     ''path `'' @ path @ ''` resolves to a directory, not a file''"
| "packchain_error_display json_text (BlobNotInChain sha path) =
     ''blob '' @ sha @ '' for path `'' @ path @ ''` not present in any chain pack''"
| "packchain_error_display json_text (MalformedPackEntry off reason) =
     ''malformed pack entry at offset '' @ show_nat off @ '': '' @ reason"
| "packchain_error_display json_text (Decompress off) =
     ''zlib decompression failure for entry at offset '' @ show_nat off"
| "packchain_error_display json_text (DeltaTooDeep m) =
     ''pack delta chain exceeds maximum depth ('' @ show_nat m @ '')''"
| "packchain_error_display json_text (MalformedDelta reason) = ''malformed delta payload: '' @ reason"
| "packchain_error_display json_text (InvalidRefName n) = ''invalid ref name `'' @ n @ ''`''"
| "packchain_error_display json_text (TreeCycle oid) =
     ''tree '' @ oid @ '' forms a cycle in the path-index walk''"
| "packchain_error_display json_text (TransientChainPathIndexMismatch r c p) =
     ''transient chain/path-index mismatch for '' @ r @ '': chain.tip = '' @ c @
     '', path_index.tip = '' @ p @ ''; retry''"
| "packchain_error_display json_text (ConcurrentGcRetriesExhausted k n) =
     ''read_blob exhausted '' @ show_nat n @ '' retries against concurrent GC: last missing pack `'' @
     k @ ''`; retry the call''"
| "packchain_error_display json_text (ContentHashMismatch e a) =
     ''packchain content-hash mismatch: entry mapped to '' @ e @
     '' decoded to an object hashing as '' @ a @ ''; bucket is corrupt or tampered''"

text \<open>
  \<open>full_error_chain\<close>: the display of every error below already ends with that of its source,
  so the source chain adds nothing.
\<close>

definition packchain_full_error_chain :: "string \<Rightarrow> push_error \<Rightarrow> string" where
  "packchain_full_error_chain json_text err =
     (case err of
        PushPackchain e \<Rightarrow>
          ''packchain engine error during push: '' @ packchain_error_display json_text e
      | _ \<Rightarrow> full_error_chain err)"

subsection \<open>Types\<close>

abbreviation returned :: "'a option \<Rightarrow> 'a" where
  "returned \<equiv> the"

record pack_env =
  pk_repo :: "git_error + git_repo"
  pk_repo_locked :: "git_error + git_repo"
  pk_repo_index :: "git_error + git_repo"
  pk_repo_bundle :: "bundle_error + git_repo"
  pk_shallow :: "string + string list option"
  pk_lib :: pack_library
  pk_build :: build_io
  pk_tempdir :: "string option"
  pk_read_pack :: "store_error option"
  pk_read_idx :: "store_error option"
  pk_read_bundle :: "store_error option"
  pk_decode_text :: string

record packchain_config =
  kc_engine :: storage_engine
  kc_ttl :: int

datatype pack_probe_error = PkLocalRefNotFound | PkNotAncestor | PkShallow

record pack_local =
  pl_local_sha :: string
  pl_peeled :: peeled_tip
  pl_prior_commit :: "string option"

record pack_ready =
  rr_remote_ref :: string
  rr_local_sha :: string
  rr_local_sha40 :: string
  rr_prior :: "chain_manifest option"
  rr_pack_sha :: string
  rr_pack_bytes :: nat
  rr_force :: bool
  rr_local_spec :: string

datatype pack_prepare_outcome =
    PackReady pack_ready
  | PackDone push_outcome

datatype pack_kind =
    BaselinePack
  | IncrementalPack string

definition sha_error_display :: "string \<Rightarrow> sha_error \<Rightarrow> string" where
  "sha_error_display decode_text e =
     (case e of ShaEmpty \<Rightarrow> ''expected hex digits, got empty string'' | ShaDecode \<Rightarrow> decode_text)"

definition peel :: "git_repo \<Rightarrow> string \<Rightarrow> git_error + peeled_tip" where
  "peel repo oid = returned (peel_tag_chain repo oid)"

subsection \<open>The local probe\<close>

fun first_boundary :: "string list \<Rightarrow> (string + string) list \<Rightarrow> string + bool" where
  "first_boundary boundary [] = Inr False"
| "first_boundary boundary (Inl e # steps) = Inl e"
| "first_boundary boundary (Inr oid # steps) =
     (if oid \<in> set boundary then Inr True else first_boundary boundary steps)"

definition rev_walk_crosses_shallow_boundary ::
    "pack_env \<Rightarrow> string \<Rightarrow> packchain_error + bool" where
  "rev_walk_crosses_shallow_boundary env tip =
     (case pk_shallow env of
        Inl e \<Rightarrow> Inl (PackBuild (''read .git/shallow: '' @ e))
      | Inr None \<Rightarrow> Inr False
      | Inr (Some boundary) \<Rightarrow>
          (case pl_rev_walk (pk_lib env) tip None of
             Inl e \<Rightarrow> Inl (PackBuild (''rev-walk for shallow check: '' @ e))
           | Inr steps \<Rightarrow>
               map_error (\<lambda>e. PackBuild (''rev-walk step: '' @ e)) (first_boundary boundary steps)))"

text \<open>The commit the new pack is built on: \<open>Inl\<close> when the push is not a fast-forward.\<close>

definition probe_prior ::
    "git_repo \<Rightarrow> string option \<Rightarrow> string option \<Rightarrow> bool \<Rightarrow> push_error + (unit + string option)" where
  "probe_prior repo local_commit prior_tip force_push =
     (case prior_tip of
        None \<Rightarrow> Inr (Inr None)
      | Some prior \<Rightarrow>
          (let not_comparable = Inr (if force_push then Inr None else Inl ()) in
           case (local_commit, peel repo prior) of
             (Some local_commit_oid, Inr (PeeledCommit commit _)) \<Rightarrow>
               (case is_ancestor repo commit local_commit_oid of
                  Inl e \<Rightarrow> Inl (PushGit e)
                | Inr ancestor \<Rightarrow>
                    if \<not> force_push \<and> \<not> ancestor then Inr (Inl ())
                    else Inr (Inr (if \<not> force_push \<and> ancestor then Some commit else None)))
           | (None, _) \<Rightarrow> not_comparable
           | (_, Inr (PeeledTree _ _)) \<Rightarrow> not_comparable
           | (_, Inr (PeeledBlob _ _)) \<Rightarrow> not_comparable
           | (_, Inl (FindObject _)) \<Rightarrow> not_comparable
           | (_, Inl e) \<Rightarrow> Inl (PushGit e)))"

definition local_git_work_packchain ::
    "pack_env \<Rightarrow> string \<Rightarrow> string option \<Rightarrow> bool \<Rightarrow> push_error + (pack_probe_error + pack_local)" where
  "local_git_work_packchain env local_spec prior_tip force_push =
     (case pk_repo env of
        Inl e \<Rightarrow> Inl (PushGit e)
      | Inr repo \<Rightarrow>
          (case resolve repo local_spec of
             Inl _ \<Rightarrow> Inr (Inl PkLocalRefNotFound)
           | Inr local_sha \<Rightarrow>
               (case peel repo local_sha of
                  Inl e \<Rightarrow> Inl (PushGit e)
                | Inr peeled \<Rightarrow>
                    (let local_commit = (case peeled of PeeledCommit commit _ \<Rightarrow> Some commit | _ \<Rightarrow> None) in
                     case probe_prior repo local_commit prior_tip force_push of
                       Inl e \<Rightarrow> Inl e
                     | Inr (Inl _) \<Rightarrow> Inr (Inl PkNotAncestor)
                     | Inr (Inr prior_commit) \<Rightarrow>
                         (case (case local_commit of
                                  None \<Rightarrow> Inr False
                                | Some oid \<Rightarrow> rev_walk_crosses_shallow_boundary env oid) of
                            Inl e \<Rightarrow> Inl (PushPackchain e)
                          | Inr crosses \<Rightarrow>
                              if crosses then Inr (Inl PkShallow)
                              else Inr (Inr \<lparr>pl_local_sha = local_sha, pl_peeled = peeled,
                                             pl_prior_commit = prior_commit\<rparr>))))))"

definition probe_error_to_outcome :: "pack_probe_error \<Rightarrow> string \<Rightarrow> string \<Rightarrow> push_outcome" where
  "probe_error_to_outcome err remote_ref local_spec =
     PushError remote_ref
       (case err of
          PkLocalRefNotFound \<Rightarrow> wire_quote (local_spec @ '' not found'')
        | PkNotAncestor \<Rightarrow> not_ancestor_wire_message local_spec
        | PkShallow \<Rightarrow> wire_quote ''cannot push from a shallow clone: rev-walk crosses a shallow boundary'')"

subsection \<open>Building and uploading\<close>

definition build_pack_and_baseline ::
    "pack_env \<Rightarrow> string \<Rightarrow> peeled_tip \<Rightarrow> pack_kind \<Rightarrow> string \<Rightarrow>
     packchain_error + (built_pack \<times> string option)" where
  "build_pack_and_baseline env local_sha peeled kind local_spec =
     (case kind of
        BaselinePack \<Rightarrow>
          bind_result (returned (build_baseline_pack (pk_lib env) (pk_build env) peeled)) (\<lambda>pack.
          bind_result
            (map_error (\<lambda>e. PackBuild (''baseline bundle: '' @ bundle_error_display e))
              (returned (create_bundle (pk_repo_bundle env) (pk_lib env) local_sha local_spec)))
            (\<lambda>bundle. Inr (pack, Some bundle)))
      | IncrementalPack prior_commit \<Rightarrow>
          (case peeled of
             PeeledCommit local_commit tag_chain \<Rightarrow>
               bind_result
                 (build_incremental_pack (pk_lib env) (pk_build env) prior_commit local_commit tag_chain)
                 (\<lambda>pack. Inr (pack, None))
           | _ \<Rightarrow> Inl (PackBuild
               (''incremental pack requires commit-tipped peel; non-commit peel reached '' @
                ''build_pack_and_baseline '' @ em_dash @ '' push dispatch is buggy''))))"

definition file_source :: "store_error option \<Rightarrow> string \<Rightarrow> local_file" where
  "file_source failure bytes = (case failure of None \<Rightarrow> Inr bytes | Some e \<Rightarrow> Inl e)"

definition upload_pack_idx_baseline ::
    "'s store_api \<Rightarrow> string option \<Rightarrow> pack_env \<Rightarrow> string \<Rightarrow> string \<Rightarrow> built_pack \<Rightarrow> string option \<Rightarrow>
     ('s, push_error, unit) io" where
  "upload_pack_idx_baseline st pfx env remote_ref local_sha pack baseline_bundle =
     and_then (map_err PushStore (st_put_path st (pack_key pfx (bp_content_sha pack))
       (file_source (pk_read_pack env) (bp_pack pack)) default_put_opts)) (\<lambda>_.
     and_then (map_err PushStore (st_put_path st (pack_idx_key pfx (bp_content_sha pack))
       (file_source (pk_read_idx env) (bp_idx pack)) default_put_opts)) (\<lambda>_.
     case baseline_bundle of
       None \<Rightarrow> ok ()
     | Some bundle \<Rightarrow> map_err PushStore (st_put_path st (bundle_key pfx remote_ref local_sha)
         (file_source (pk_read_bundle env) bundle) default_put_opts)))"

subsection \<open>Deletion\<close>

definition release_lock_or_warn :: "'s store_api \<Rightarrow> lock_guard \<Rightarrow> ('s, 'e, unit) io" where
  "release_lock_or_warn st guard = match_io (release_lock st guard) (\<lambda>_. ok ()) (\<lambda>_. ok ())"

definition packchain_delete_loop ::
    "'s store_api \<Rightarrow> string \<Rightarrow> string option \<Rightarrow> object_meta list \<Rightarrow> ('s, push_error, unit) io" where
  "packchain_delete_loop st lock deferred_bundle_key entries =
     fold_io
       (\<lambda>_ entry.
          if om_key entry = lock then ok ()
          else if deferred_bundle_key = Some (om_key entry) then ok ()
          else map_err PushStore (delete_idempotent st (om_key entry)))
       () entries"

definition delete_remote_ref_packchain ::
    "ext \<Rightarrow> 's store_api \<Rightarrow> string option \<Rightarrow> string \<Rightarrow> packchain_config \<Rightarrow> int \<Rightarrow> int \<Rightarrow> string \<Rightarrow>
     ('s, push_error, push_outcome) io" where
  "delete_remote_ref_packchain x st pfx remote_ref config now tomb_now uuid =
     (let chain = chain_key pfx remote_ref; lock = lock_key pfx remote_ref in
      and_then (map_err PushStore (acquire_lock st lock (kc_ttl config) now)) (\<lambda>acquired.
      case acquired of
        None \<Rightarrow> ok (PushError remote_ref (lock_contended_message lock (kc_ttl config)))
      | Some guard \<Rightarrow>
          match_io (st_head st chain)
            (\<lambda>e. and_then (release_lock_or_warn st guard) (\<lambda>_.
               case e of
                 NotFound _ \<Rightarrow> ok (PushError remote_ref (wire_quote ''not found''))
               | _ \<Rightarrow> fail_with (PushStore e)))
            (\<lambda>_.
               match_io (st_list st (ref_listing_prefix pfx remote_ref))
                 (\<lambda>e. and_then (release_lock_or_warn st guard) (\<lambda>_. fail_with (PushStore e)))
                 (\<lambda>entries.
                    if entries_have_protected_marker entries then
                      and_then (release_lock_or_warn st guard) (\<lambda>_.
                      ok (PushError remote_ref DELETE_PROTECTION_MESSAGE))
                    else
                      and_then (try_write_baseline_tombstone x st pfx remote_ref entries tomb_now uuid)
                        (\<lambda>deferred_bundle_key.
                      release_around st guard remote_ref lock
                        (and_then (packchain_delete_loop st lock deferred_bundle_key entries) (\<lambda>_.
                         and_then (verify_no_orphan_protected_after_delete st pfx remote_ref) (\<lambda>_.
                         ok (PushOk remote_ref)))))))))"

subsection \<open>Before the lock\<close>

definition packchain_prepare_push ::
    "ext \<Rightarrow> 's store_api \<Rightarrow> string option \<Rightarrow> pack_env \<Rightarrow> packchain_config \<Rightarrow> int \<Rightarrow> int \<Rightarrow> string \<Rightarrow>
     push_spec \<Rightarrow> ('s, push_error, pack_prepare_outcome) io" where
  "packchain_prepare_push x st pfx env config now tomb_now uuid spec =
     (let force_push = ps_force spec; local_spec = ps_local_spec spec; remote_ref = ps_remote_ref spec in
      if local_spec = [] then
        and_then (delete_remote_ref_packchain x st pfx remote_ref config now tomb_now uuid) (\<lambda>outcome.
        ok (PackDone outcome))
      else
        and_then (map_err PushPackchain (load_chain x st pfx remote_ref)) (\<lambda>prior.
        and_then
          (of_result (case prior of
             None \<Rightarrow> Inr None
           | Some c \<Rightarrow>
               bind_result (map_error (\<lambda>e. PushSha (sha_error_display (pk_decode_text env) e))
                 (sha_from_hex x (cm_tip c))) (\<lambda>sha. Inr (Some sha)))) (\<lambda>prior_tip_sha.
        and_then (of_result (local_git_work_packchain env local_spec prior_tip_sha force_push)) (\<lambda>probe.
        case probe of
          Inl probe_err \<Rightarrow> ok (PackDone (probe_error_to_outcome probe_err remote_ref local_spec))
        | Inr local \<Rightarrow>
            and_then (of_result (map_error PushPackchain (sha40_from_oid (pl_local_sha local)))) (\<lambda>local_sha40.
            if \<not> force_push \<and> map_option cm_tip prior = Some local_sha40 then
              ok (PackDone (PushOk remote_ref))
            else
              (case pk_tempdir env of
                 Some e \<Rightarrow> fail_with (PushIo e)
               | None \<Rightarrow>
                   (let kind = (case (force_push, pl_prior_commit local) of
                          (False, Some prior_commit) \<Rightarrow> IncrementalPack prior_commit
                        | _ \<Rightarrow> BaselinePack) in
                    and_then (of_result (map_error PushPackchain
                        (build_pack_and_baseline env (pl_local_sha local) (pl_peeled local) kind local_spec)))
                      (\<lambda>(pack, baseline_bundle).
                    and_then (upload_pack_idx_baseline st pfx env remote_ref (pl_local_sha local) pack
                        baseline_bundle) (\<lambda>_.
                    ok (PackReady
                      \<lparr>rr_remote_ref = remote_ref, rr_local_sha = pl_local_sha local,
                       rr_local_sha40 = local_sha40, rr_prior = prior,
                       rr_pack_sha = bp_content_sha pack, rr_pack_bytes = bp_bytes pack,
                       rr_force = force_push, rr_local_spec = local_spec\<rparr>)))))))))) "

subsection \<open>Under the lock\<close>

definition current_tip_is_ancestor_of_local ::
    "ext \<Rightarrow> pack_env \<Rightarrow> string \<Rightarrow> string \<Rightarrow> push_error + bool" where
  "current_tip_is_ancestor_of_local x env current_tip local_sha =
     bind_result (map_error (\<lambda>e. PushSha (sha_error_display (pk_decode_text env) e))
       (sha_from_hex x current_tip)) (\<lambda>current_tip_sha.
     bind_result (map_error PushGit (pk_repo_locked env)) (\<lambda>repo.
     bind_result (map_error PushGit (peel repo local_sha)) (\<lambda>peeled.
     case peeled of
       PeeledCommit local_commit _ \<Rightarrow>
         (case peel repo current_tip_sha of
            Inr (PeeledCommit current_commit _) \<Rightarrow>
              map_error PushGit (is_ancestor repo current_commit local_commit)
          | Inr _ \<Rightarrow> Inr False
          | Inl (FindObject _) \<Rightarrow> Inr False
          | Inl e \<Rightarrow> Inl (PushGit e))
     | _ \<Rightarrow> Inr False)))"

definition force_push_baseline_cleanup ::
    "ext \<Rightarrow> 's store_api \<Rightarrow> string option \<Rightarrow> string \<Rightarrow> chain_manifest option \<Rightarrow> string \<Rightarrow> int \<Rightarrow> string \<Rightarrow>
     ('s, 'e, unit) io" where
  "force_push_baseline_cleanup x st pfx remote_ref prior local_sha40 now uuid =
     (case prior of
        None \<Rightarrow> ok ()
      | Some p \<Rightarrow>
          and_then (write_baseline_tombstone_best_effort x st pfx remote_ref (cm_full_at p) local_sha40 now uuid)
            (\<lambda>_. ok ()))"

text \<open>The path index of the tip, \<open>None\<close> for a blob.\<close>

definition extract_under_lock :: "pack_env \<Rightarrow> string \<Rightarrow> packchain_error + path_index option" where
  "extract_under_lock env local_sha =
     bind_result (map_error PackGit (pk_repo_index env)) (\<lambda>repo.
     bind_result (map_error PackGit (peel repo local_sha)) (\<lambda>peeled.
     returned (extract_path_index (pl_trees (pk_lib env)) peeled local_sha)))"

text \<open>Whether a force push would rewind a protected ref.\<close>

definition protected_rewind ::
    "ext \<Rightarrow> 's store_api \<Rightarrow> string option \<Rightarrow> pack_env \<Rightarrow> pack_ready \<Rightarrow> chain_manifest option \<Rightarrow>
     ('s, push_error, bool) io" where
  "protected_rewind x st pfx env state current =
     (if \<not> rr_force state then ok False
      else
        and_then (map_err PushStore (is_protected st pfx (rr_remote_ref state))) (\<lambda>is_prot.
        if \<not> is_prot then ok False
        else case current of
          None \<Rightarrow> ok False
        | Some c \<Rightarrow>
            and_then (of_result (current_tip_is_ancestor_of_local x env (cm_tip c) (rr_local_sha state)))
              (\<lambda>current_is_ancestor. ok (\<not> current_is_ancestor))))"

definition stale_chain_message :: string where
  "stale_chain_message = wire_quote ''stale chain. Please fetch and retry.''"

definition packchain_commit ::
    "ext \<Rightarrow> 's store_api \<Rightarrow> string option \<Rightarrow> storage_engine \<Rightarrow> pack_ready \<Rightarrow> path_index option \<Rightarrow>
     int \<Rightarrow> string \<Rightarrow> ('s, push_error, push_outcome) io" where
  "packchain_commit x st pfx engine state index tomb_now uuid =
     (let remote_ref = rr_remote_ref state;
          new_segment = \<lparr>seg_sha = rr_local_sha40 state, seg_parent_sha = None,
                         seg_pack = pack_key None (rr_pack_sha state), seg_bytes = rr_pack_bytes state\<rparr>;
          manifest = next_manifest (rr_prior state) (rr_local_sha40 state) new_segment (rr_force state) in
      and_then (map_err PushStore (st_put_if_absent st (join pfx ''FORMAT'') (engine_as_str engine))) (\<lambda>_.
      and_then (map_err PushStore (st_put_if_absent st (head_key pfx) remote_ref)) (\<lambda>_.
      and_then (map_err PushPackchain (write_chain x st pfx remote_ref manifest)) (\<lambda>_.
      and_then
        (case index of
           Some idx \<Rightarrow> map_err PushPackchain (write_path_index x st pfx remote_ref idx)
         | None \<Rightarrow> map_err PushStore (delete_idempotent st (path_index_key pfx remote_ref))) (\<lambda>_.
      and_then
        (if rr_force state
         then force_push_baseline_cleanup x st pfx remote_ref (rr_prior state) (rr_local_sha40 state) tomb_now uuid
         else ok ()) (\<lambda>_.
      ok (PushOk remote_ref)))))))"

definition packchain_perform_push_under_lock ::
    "ext \<Rightarrow> 's store_api \<Rightarrow> string option \<Rightarrow> pack_env \<Rightarrow> storage_engine \<Rightarrow> pack_ready \<Rightarrow> int \<Rightarrow> string \<Rightarrow>
     ('s, push_error, push_outcome) io" where
  "packchain_perform_push_under_lock x st pfx env engine state tomb_now uuid =
     (let remote_ref = rr_remote_ref state in
      and_then (map_err PushPackchain (load_chain x st pfx remote_ref)) (\<lambda>current.
      and_then (protected_rewind x st pfx env state current) (\<lambda>blocked.
      if blocked then ok (PushError remote_ref (not_ancestor_wire_message (rr_local_spec state)))
      else if \<not> rr_force state \<and> map_option cm_tip (rr_prior state) \<noteq> map_option cm_tip current then
        ok (PushError remote_ref stale_chain_message)
      else
        and_then (of_result (map_error PushPackchain (extract_under_lock env (rr_local_sha state)))) (\<lambda>index.
        packchain_commit x st pfx engine state index tomb_now uuid))))"

subsection \<open>One push and a batch\<close>

definition packchain_lock_contended_message :: "string \<Rightarrow> int \<Rightarrow> string" where
  "packchain_lock_contended_message lock ttl = wire_quote
     (''failed to acquire ref lock at '' @ lock @
      ''. Another client may be pushing. If this persists beyond '' @ show_int (whole_seconds ttl) @
      ''s, run git-remote-object-store doctor to inspect and optionally clear stale locks.'')"

definition packchain_push_one ::
    "ext \<Rightarrow> 's store_api \<Rightarrow> string option \<Rightarrow> pack_env \<Rightarrow> packchain_config \<Rightarrow> int \<Rightarrow> int \<Rightarrow> string \<Rightarrow>
     push_spec \<Rightarrow> ('s, push_error, push_outcome) io" where
  "packchain_push_one x st pfx env config now tomb_now uuid spec =
     and_then (packchain_prepare_push x st pfx env config now tomb_now uuid spec) (\<lambda>prepared.
     case prepared of
       PackDone outcome \<Rightarrow> ok outcome
     | PackReady state \<Rightarrow>
         (let remote_ref = rr_remote_ref state; lock = lock_key pfx remote_ref in
          and_then (map_err PushStore (acquire_lock st lock (kc_ttl config) now)) (\<lambda>acquired.
          case acquired of
            None \<Rightarrow> ok (PushError remote_ref (packchain_lock_contended_message lock (kc_ttl config)))
          | Some guard \<Rightarrow>
              release_around st guard remote_ref lock
                (packchain_perform_push_under_lock x st pfx env (kc_engine config) state tomb_now uuid))))"

record pack_push_input =
  ki_cmd :: string
  ki_env :: pack_env
  ki_now :: int
  ki_tomb_now :: int
  ki_uuid :: string
  ki_json_text :: string

definition packchain_push_batch ::
    "ext \<Rightarrow> 's store_api \<Rightarrow> string option \<Rightarrow> string option \<Rightarrow> storage_engine \<Rightarrow> pack_push_input list \<Rightarrow>
     ('s, push_error, push_outcome list) io" where
  "packchain_push_batch x st pfx env_ttl engine cmds =
     (if cmds = [] then ok []
      else
        (let config = \<lparr>kc_engine = engine, kc_ttl = lock_ttl_from_env env_ttl\<rparr> in
         fold_io
           (\<lambda>outcomes cmd.
              and_then (of_result (parse_push_args x (ki_cmd cmd))) (\<lambda>spec.
              and_then
                (match_io
                  (packchain_push_one x st pfx (ki_env cmd) config (ki_now cmd) (ki_tomb_now cmd)
                     (ki_uuid cmd) spec)
                  (\<lambda>e. case e of
                     PushParse _ \<Rightarrow> fail_with e
                   | InvalidLocalSpec _ \<Rightarrow> fail_with e
                   | PushRemoteRef _ \<Rightarrow> fail_with e
                   | _ \<Rightarrow> ok (PushError (ps_remote_ref spec)
                       (wire_quote (packchain_full_error_chain (ki_json_text cmd) e))))
                  ok)
                (\<lambda>outcome. ok (outcomes @ [outcome]))))
           [] cmds))"

end
