(* ===== verification/Packchain_Push_Proofs.thy ===== *)
theory Packchain_Push_Proofs
  imports Packchain_Push Bundle_Push_Proofs
begin

text \<open>
  The invariant of the packchain engine: no readable chain references a pack that is not on
  the bucket (\<open>intact\<close>). Every step of a push or a deletion is \<open>harmless\<close> (no chain appears
  or changes other than by disappearing, no pack is lost), but for the write of the manifest,
  which comes after the packs it names. So every push and deletion keeps the invariant,
  whatever the store does to its writes.
\<close>

subsection \<open>The invariant\<close>

definition intact :: "ext \<Rightarrow> string option \<Rightarrow> bucket \<Rightarrow> bool" where
  "intact x pfx v \<longleftrightarrow>
     (\<forall>sha. referenced x (prefix_str pfx) v sha \<longrightarrow>
        v (pack_key pfx sha) \<noteq> None \<and> v (pack_idx_key pfx sha) \<noteq> None)"

definition harmless :: "bool \<Rightarrow> string option \<Rightarrow> bucket \<Rightarrow> bucket \<Rightarrow> bool" where
  "harmless d pfx v v' \<longleftrightarrow>
     (\<forall>k. chain_slot (prefix_str pfx) k \<longrightarrow> v' k = v k \<or> (d \<and> v' k = None)) \<and>
     (\<forall>sha. (v (pack_key pfx sha) \<noteq> None \<longrightarrow> v' (pack_key pfx sha) \<noteq> None) \<and>
            (v (pack_idx_key pfx sha) \<noteq> None \<longrightarrow> v' (pack_idx_key pfx sha) \<noteq> None)) \<and>
     (\<forall>r. v (protected_marker_key pfx r) \<noteq> None \<longrightarrow> d \<or> v' (protected_marker_key pfx r) \<noteq> None)"

definition packs_present :: "string option \<Rightarrow> bucket \<Rightarrow> chain_segment list \<Rightarrow> bool" where
  "packs_present pfx v gs \<longleftrightarrow>
     (\<forall>g \<in> set gs. \<forall>sha. sha_from_pack_key (seg_pack g) = Some sha \<longrightarrow>
        v (pack_key pfx sha) \<noteq> None \<and> v (pack_idx_key pfx sha) \<noteq> None)"

definition harmless_step :: "bool \<Rightarrow> string option \<Rightarrow> ('s \<Rightarrow> bucket) \<Rightarrow> 's \<Rightarrow> 's \<Rightarrow> bool" where
  "harmless_step d pfx view s t \<longleftrightarrow> harmless d pfx (view s) (view t)"

lemma harmless_refl [simp]: "harmless d pfx v v"
  by (simp add: harmless_def)

lemma harmless_trans: "harmless d pfx v v' \<Longrightarrow> harmless d pfx v' v'' \<Longrightarrow> harmless d pfx v v''"
  unfolding harmless_def by metis

lemma harmless_step_refl [simp]: "reflp (harmless_step d pfx view)"
  by (simp add: reflp_def harmless_step_def)

lemma harmless_step_trans [simp]: "transp (harmless_step d pfx view)"
  by (auto simp: transp_def harmless_step_def intro: harmless_trans)

lemma harmless_chain_at:
  "harmless d pfx v v' \<Longrightarrow> chain_slot (prefix_str pfx) k \<Longrightarrow> chain_at x v' k = Some c \<Longrightarrow>
   chain_at x v k = Some c"
  unfolding harmless_def chain_at_def by (metis option.simps(4) option.distinct(1))

lemma harmless_packs_present: "harmless d pfx v v' \<Longrightarrow> packs_present pfx v gs \<Longrightarrow> packs_present pfx v' gs"
  unfolding harmless_def packs_present_def by blast

lemma intact_chain:
  "intact x pfx v \<Longrightarrow> chain_slot (prefix_str pfx) k \<Longrightarrow> chain_at x v k = Some c \<Longrightarrow>
   packs_present pfx v (cm_segments c)"
  unfolding intact_def packs_present_def referenced_def by blast

lemma intactI:
  "(\<And>k c. chain_slot (prefix_str pfx) k \<Longrightarrow> chain_at x v k = Some c \<Longrightarrow> packs_present pfx v (cm_segments c)) \<Longrightarrow>
   intact x pfx v"
  unfolding intact_def packs_present_def referenced_def by blast

lemma harmless_intact: "harmless d pfx v v' \<Longrightarrow> intact x pfx v \<Longrightarrow> intact x pfx v'"
  by (rule intactI) (metis harmless_chain_at harmless_packs_present intact_chain)

lemma harmless_same: "view t = view s \<Longrightarrow> harmless_step d pfx view s t"
  by (simp add: harmless_step_def)

subsection \<open>Harmless writes and deletions\<close>

abbreviation pack_slot :: "string option \<Rightarrow> string \<Rightarrow> bool" where
  "pack_slot pfx k \<equiv> \<exists>sha. k = pack_key pfx sha \<or> k = pack_idx_key pfx sha"

abbreviation kept_slot :: "string option \<Rightarrow> string \<Rightarrow> bool" where
  "kept_slot pfx k \<equiv> chain_slot (prefix_str pfx) k \<or> (\<exists>r. k = protected_marker_key pfx r)"

lemma harmless_put: "\<not> chain_slot (prefix_str pfx) k \<Longrightarrow> wrote k b v v' \<Longrightarrow> harmless d pfx v v'"
  by (auto simp: harmless_def wrote_def split: if_splits)

lemma harmless_delete:
  "\<not> pack_slot pfx k \<Longrightarrow> d \<or> \<not> kept_slot pfx k \<Longrightarrow> harmless d pfx v (v(k := None))"
  by (auto simp: harmless_def)

lemma harmless_step_put:
  "\<not> chain_slot (prefix_str pfx) k \<Longrightarrow> wrote k b (view s) (view t) \<Longrightarrow> harmless_step d pfx view s t"
  by (simp add: harmless_step_def harmless_put)

lemma harmless_step_delete:
  "\<not> pack_slot pfx k \<Longrightarrow> d \<or> \<not> kept_slot pfx k \<Longrightarrow> view t = (view s)(k := None) \<Longrightarrow> harmless_step d pfx view s t"
  by (simp add: harmless_step_def harmless_delete)

lemma slot_base: "chain_slot (prefix_str pfx) k \<longleftrightarrow> prefix (key_base pfx @ ''refs/'') k \<and> is_chain_json_key k"
  by (simp add: chain_slot_def join_base)

lemma not_chain_json [simp]:
  "\<not> is_chain_json_key (lock_key pfx r)" "\<not> is_chain_json_key (pack_key pfx sha)"
  "\<not> is_chain_json_key (pack_idx_key pfx sha)" "\<not> is_chain_json_key (bundle_key pfx r sha)"
  "\<not> is_chain_json_key (path_index_key pfx r)" "\<not> is_chain_json_key (key_base pfx @ ''FORMAT'')"
  "\<not> is_chain_json_key (key_base pfx @ ''HEAD'')"
  by (auto simp: is_chain_json_key_def CHAIN_JSON_SUFFIX_def suffix_def builder_base ref_key_defs
      dest!: arg_cong [of _ _ "\<lambda>s. take 6 (rev s)"])

lemma not_slot_tombstone [simp]: "\<not> chain_slot (prefix_str pfx) (baseline_tombstone_key (prefix_str pfx) uuid)"
  by (simp add: slot_base baseline_tombstone_key_def join_base BASELINE_TOMBSTONE_KEY_FRAGMENT_def)

lemma ref_key_not_pack:
  assumes "prefix ''refs/'' r" "prefix (ref_listing_prefix pfx r) k"
  shows "\<not> pack_slot pfx k"
proof -
  from assms obtain u where "k = key_base pfx @ ''refs/'' @ u"
    by (auto simp: ref_listing_prefix_base prefix_def)
  then show ?thesis by (auto simp: builder_base)
qed

lemma ref_keys_not_pack:
  assumes "prefix ''refs/'' r"
  shows "\<not> pack_slot pfx (lock_key pfx r)" "\<not> pack_slot pfx (path_index_key pfx r)"
  using ref_key_not_pack [OF assms key_under_listing(2)] ref_key_not_pack [OF assms key_under_listing(6)]
  by blast+

lemma not_slot_json: "\<not> is_chain_json_key k \<Longrightarrow> \<not> chain_slot p k"
  by (simp add: chain_slot_def)

lemma not_slot_keys [simp]:
  "\<not> chain_slot p (lock_key pfx r)" "\<not> chain_slot p (path_index_key pfx r)"
  by (simp_all add: not_slot_json)

lemma not_marker [simp]:
  "lock_key pfx r \<noteq> protected_marker_key pfx r'" "path_index_key pfx r \<noteq> protected_marker_key pfx r'"
  by (auto simp: path_index_key_base ref_key_defs dest!: arg_cong [of _ _ last])

context store_contract
begin

lemma harmless_list [keeps_intros]: "keeps (harmless_step d pfx view) (st_list st p)"
  by (rule keepsI, drule list_law) (simp add: harmless_same)

lemma harmless_head [keeps_intros]: "keeps (harmless_step d pfx view) (st_head st k)"
  by (rule keepsI, drule head_law) (simp add: harmless_same)

lemma harmless_get [keeps_intros]: "keeps (harmless_step d pfx view) (st_get_bytes st k)"
  by (rule keepsI, drule get_bytes_law) (simp add: harmless_same)

lemma harmless_put_bytes [keeps_intros]:
  "\<not> chain_slot (prefix_str pfx) k \<Longrightarrow> keeps (harmless_step d pfx view) (st_put_bytes st k b opts)"
  by (rule keepsI, drule put_bytes_law) (auto intro: harmless_same harmless_step_put split: sum.splits)

lemma harmless_put_path [keeps_intros]:
  "\<not> chain_slot (prefix_str pfx) k \<Longrightarrow> keeps (harmless_step d pfx view) (st_put_path st k f opts)"
  by (rule keepsI, drule put_path_law) (auto intro: harmless_same harmless_step_put split: sum.splits)

lemma harmless_put_if_absent [keeps_intros]:
  "\<not> chain_slot (prefix_str pfx) k \<Longrightarrow> keeps (harmless_step d pfx view) (st_put_if_absent st k b)"
  by (rule keepsI, drule put_if_absent_law)
    (auto intro: harmless_same harmless_step_put split: sum.splits bool.splits)

lemma harmless_st_delete [keeps_intros]:
  "\<not> pack_slot pfx k \<Longrightarrow> d \<or> \<not> kept_slot pfx k \<Longrightarrow> keeps (harmless_step d pfx view) (st_delete st k)"
  by (rule keepsI, drule delete_law) (metis harmless_step_delete harmless_same old.sum.exhaust)

lemma harmless_delete_idempotent [keeps_intros]:
  "\<not> pack_slot pfx k \<Longrightarrow> d \<or> \<not> kept_slot pfx k \<Longrightarrow> keeps (harmless_step d pfx view) (delete_idempotent st k)"
  unfolding delete_idempotent_def
  by (intro keeps_intros harmless_step_refl harmless_step_trans)
    (auto intro!: keeps_intros split: store_error.split)

lemma harmless_load_chain [keeps_intros]: "keeps (harmless_step d pfx view) (load_chain x st p r)"
  unfolding load_chain_def
  by (intro keeps_intros harmless_step_refl harmless_step_trans)
    (auto intro!: keeps_intros split: store_error.split)

lemma harmless_acquire_lock [keeps_intros]:
  "prefix ''refs/'' r \<Longrightarrow> keeps (harmless_step d pfx view) (acquire_lock st (lock_key pfx r) ttl now)"
  unfolding acquire_lock_def
  by (intro keeps_intros harmless_step_refl harmless_step_trans ref_keys_not_pack not_slot_json disjI2)
    (auto intro!: keeps_intros split: store_error.split)

lemma harmless_release_lock [keeps_intros]:
  "prefix ''refs/'' r \<Longrightarrow> keeps (harmless_step d pfx view) (release_lock st (lock_key pfx r))"
  unfolding release_lock_def by (intro keeps_intros ref_keys_not_pack disjI2) simp_all

lemma harmless_release_or_warn [keeps_intros]:
  "prefix ''refs/'' r \<Longrightarrow> keeps (harmless_step d pfx view) (release_lock_or_warn st (lock_key pfx r))"
  unfolding release_lock_or_warn_def
  by (intro keeps_intros harmless_step_refl harmless_step_trans)

lemma harmless_is_protected [keeps_intros]: "keeps (harmless_step d pfx view) (is_protected st p r)"
  unfolding is_protected_def
  by (intro keeps_intros harmless_step_refl harmless_step_trans)
    (auto intro!: keeps_intros split: store_error.split)

lemma harmless_write_tombstone [keeps_intros]:
  "keeps (harmless_step d pfx view) (write_baseline_tombstone_unconditional x st pfx r sha now uuid)"
  unfolding write_baseline_tombstone_unconditional_def Let_def
  by (intro keeps_intros harmless_step_refl harmless_step_trans not_slot_tombstone)

lemma harmless_tombstone_best_effort [keeps_intros]:
  "keeps (harmless_step d pfx view) (write_baseline_tombstone_best_effort x st pfx r prior cur now uuid)"
  unfolding write_baseline_tombstone_best_effort_def write_baseline_tombstone_def
  by (intro keeps_intros harmless_step_refl harmless_step_trans)

lemma harmless_try_tombstone [keeps_intros]:
  "keeps (harmless_step d pfx view) (try_write_baseline_tombstone x st pfx r fresh now uuid)"
  unfolding try_write_baseline_tombstone_def write_baseline_tombstone_for_orphan_def Let_def
  by (intro keeps_intros harmless_step_refl harmless_step_trans)

lemma harmless_verify [keeps_intros]:
  "keeps (harmless_step d pfx view) (verify_no_orphan_protected_after_delete st p r)"
  unfolding verify_no_orphan_protected_after_delete_def
  by (intro keeps_intros harmless_step_refl harmless_step_trans)

end

subsection \<open>Deletion\<close>

context store_contract
begin

lemma harmless_delete_loop:
  assumes "prefix ''refs/'' r" "om_key ` set es \<subseteq> {k. prefix (ref_listing_prefix pfx r) k}"
  shows "keeps (harmless_step True pfx view) (packchain_delete_loop st l df es)"
  unfolding packchain_delete_loop_def
proof (rule keeps_fold_io_mem, simp_all only: harmless_step_refl harmless_step_trans)
  fix acc e
  assume "e \<in> set es"
  with assms have "\<not> pack_slot pfx (om_key e)" by (intro ref_key_not_pack) auto
  then show "keeps (harmless_step True pfx view) (if om_key e = l then ok ()
      else if df = Some (om_key e) then ok () else map_err PushStore (delete_idempotent st (om_key e)))"
    by (intro keeps_intros harmless_step_refl harmless_step_trans disjI1 TrueI)
qed

text \<open>A program that takes the lock and goes on with the guard for it.\<close>

lemma harmless_frame_lock:
  assumes "prefix ''refs/'' r" "frame view {lock_key pfx r} s t"
  shows "harmless d pfx (view s) (view t)"
proof -
  have "view t k = view s k" if "k \<noteq> lock_key pfx r" for k using assms(2) that by (simp add: frame_def)
  with ref_keys_not_pack(1) [OF assms(1), of pfx] not_slot_keys(1) not_marker(1) show ?thesis
    unfolding harmless_def by metis
qed

lemma harmless_locked:
  assumes "prefix ''refs/'' r" "keeps (harmless_step d pfx view) (f None)"
    and "keeps (harmless_step d pfx view) (f (Some (lock_key pfx r)))"
  shows "keeps (harmless_step d pfx view) (and_then (map_err e (acquire_lock st (lock_key pfx r) ttl now)) f)"
proof (rule keeps_from_wp)
  fix s
  let ?R = "harmless_step d pfx view"
  have lock: "?R s t" if "frame view {lock_key pfx r} s t" for t
    using harmless_frame_lock [OF assms(1) that] by (simp add: harmless_step_def)
  show "wp (and_then (map_err e (acquire_lock st (lock_key pfx r) ttl now)) f) (\<lambda>_. ?R s) (\<lambda>_. ?R s) s"
  proof (rule wp_and_then, rule wp_map_err, rule wp_acquire_lock, goal_cases)
    case (1 g t)
    then show ?case
      by (auto intro!: wp_keeps [OF assms(2) harmless_step_trans lock] wp_keeps [OF assms(3) harmless_step_trans lock])
  next
    case (2 e t)
    then show ?case by (rule lock)
  qed
qed

lemma harmless_delete_ref:
  assumes r: "prefix ''refs/'' r" and u: "utf8_prefix pfx" "utf8_valid r"
  shows "keeps (harmless_step True pfx view) (delete_remote_ref_packchain x st pfx r config now tomb_now uuid)"
proof -
  let ?R = "harmless_step True pfx view"
  have listed: "keeps ?R (match_io (st_list st (ref_listing_prefix pfx r)) h f)"
    if h: "\<And>e. keeps ?R (h e)"
      and f: "\<And>es. om_key ` set es \<subseteq> {k. prefix (ref_listing_prefix pfx r) k} \<Longrightarrow> keeps ?R (f es)" for h f
  proof (rule keeps_from_wp)
    fix s
    show "wp (match_io (st_list st (ref_listing_prefix pfx r)) h f) (\<lambda>_. ?R s) (\<lambda>_. ?R s) s"
    proof (rule wp_match, rule wp_st_list, goal_cases)
      case (1 ms t)
      with u have "lists (ref_listing_prefix pfx r) ms (view s)" by simp
      then have "keeps ?R (f ms)" by (intro f) (auto simp: lists_def)
      then show ?case by (intro wp_keeps [OF _ harmless_step_trans harmless_same [OF 1(1)]])
    next
      case (2 e t)
      then show ?case by (intro wp_keeps [OF h harmless_step_trans harmless_same])
    qed
  qed
  show ?thesis
    unfolding delete_remote_ref_packchain_def Let_def
    by (intro harmless_locked r)
      (auto intro!: keeps_and_then keeps_map_err keeps_match keeps_ok keeps_fail listed keeps_if harmless_try_tombstone
        harmless_head harmless_release_or_warn keeps_release_around harmless_release_lock harmless_delete_loop
        harmless_verify r split: store_error.split)
qed

text \<open>The marker of a protected ref is in the listing, so its deletion stops there.\<close>

lemma packchain_delete_protected:
  assumes r: "prefix ''refs/'' r" and u: "utf8_prefix pfx" "utf8_valid r"
    and marker: "view s (protected_marker_key pfx r) \<noteq> None"
  shows "wp (delete_remote_ref_packchain x st pfx r config now tomb_now uuid)
    (\<lambda>_ t. harmless False pfx (view s) (view t)) (\<lambda>_ t. harmless False pfx (view s) (view t)) s"
proof -
  let ?P = "\<lambda>t. harmless False pfx (view s) (view t)"
  have release: "wp (and_then (release_lock_or_warn st (lock_key pfx r)) (\<lambda>_. f)) (\<lambda>_. ?P) (\<lambda>_. ?P) t"
    if "?P t" "\<And>w. ?P w \<Longrightarrow> wp f (\<lambda>_. ?P) (\<lambda>_. ?P) w" for f :: "('s, push_error, push_outcome) io" and t
    by (rule wp_and_then, rule wp_keeps [OF harmless_release_or_warn [OF r, where d = False and pfx = pfx]
          harmless_step_trans, where ?s0.0 = s]) (use that in \<open>auto simp: harmless_step_def\<close>)
  have listed: "wp (match_io (st_list st (ref_listing_prefix pfx r)) h f) (\<lambda>_. ?P) (\<lambda>_. ?P) t"
    if t: "?P t" and h: "\<And>e u. view u = view t \<Longrightarrow> wp (h e) (\<lambda>_. ?P) (\<lambda>_. ?P) u"
      and f: "\<And>ms u. view u = view t \<Longrightarrow> entries_have_protected_marker ms \<Longrightarrow> wp (f ms) (\<lambda>_. ?P) (\<lambda>_. ?P) u"
    for h :: "store_error \<Rightarrow> ('s, push_error, push_outcome) io" and f t
  proof (rule wp_match, rule wp_st_list, goal_cases)
    case (1 ms w)
    from t marker have "view t (protected_marker_key pfx r) \<noteq> None" by (simp add: harmless_def)
    with 1 u have "protected_marker_key pfx r \<in> om_key ` set ms" by (simp add: lists_def key_under_listing)
    then obtain e where "e \<in> set ms" "om_key e = protected_marker_key pfx r" by (metis imageE)
    then show ?case using 1 by (intro f) (auto intro: protected_marker_found)
  qed (rule h)
  show ?thesis
    unfolding delete_remote_ref_packchain_def Let_def
  proof (rule wp_and_then, rule wp_map_err, rule wp_acquire_lock, goal_cases)
    case (1 g t)
    have t: "?P w" if "view w = view t" for w
      using that harmless_frame_lock [OF r 1(1)] by simp
    show ?case
    proof (cases g)
      case (Some l)
      with 1 have g: "g = Some (lock_key pfx r)" by auto
      show ?thesis
        unfolding g option.case
        by (rule wp_match, rule wp_st_head)
          (auto intro!: listed release wp_ok wp_fail t split: store_error.split)
    qed (simp add: wp_ok t)
  next
    case (2 e t)
    show ?case by (rule harmless_frame_lock [OF r 2])
  qed
qed

end

subsection \<open>Before the lock\<close>

lemma next_manifest_segments:
  "g' \<in> set (cm_segments (next_manifest prior t g force)) \<Longrightarrow>
     seg_pack g' = seg_pack g \<or> (\<exists>p. prior = Some p \<and> g' \<in> set (cm_segments p))"
  by (cases force; cases prior) (auto simp: next_manifest_def)

text \<open>Every pack the manifest of the push will name is on the bucket.\<close>

definition ready_packs :: "string option \<Rightarrow> bucket \<Rightarrow> pack_ready \<Rightarrow> bool" where
  "ready_packs pfx v st \<longleftrightarrow>
     is_valid_bundle_stem (rr_pack_sha st) \<and> v (pack_key pfx (rr_pack_sha st)) \<noteq> None \<and>
     v (pack_idx_key pfx (rr_pack_sha st)) \<noteq> None \<and>
     (\<forall>p. rr_prior st = Some p \<longrightarrow> packs_present pfx v (cm_segments p))"

lemma harmless_ready_packs: "harmless d pfx v v' \<Longrightarrow> ready_packs pfx v st \<Longrightarrow> ready_packs pfx v' st"
  unfolding ready_packs_def using harmless_packs_present by (auto simp: harmless_def)

lemma ready_packs_manifest:
  assumes "ready_packs pfx v st" "seg_pack g = pack_key None (rr_pack_sha st)"
  shows "packs_present pfx v (cm_segments (next_manifest (rr_prior st) t g force))"
  unfolding packs_present_def
proof (intro ballI allI impI)
  fix g' sha
  assume g': "g' \<in> set (cm_segments (next_manifest (rr_prior st) t g force))"
    and sha: "sha_from_pack_key (seg_pack g') = Some sha"
  from next_manifest_segments [OF g'] show "v (pack_key pfx sha) \<noteq> None \<and> v (pack_idx_key pfx sha) \<noteq> None"
  proof
    assume "seg_pack g' = seg_pack g"
    with assms sha have "sha = rr_pack_sha st"
      by (simp add: ready_packs_def sha_from_pack_key_pack_key)
    with assms(1) show ?thesis by (simp add: ready_packs_def)
  next
    assume "\<exists>p. rr_prior st = Some p \<and> g' \<in> set (cm_segments p)"
    with assms(1) sha show ?thesis unfolding ready_packs_def packs_present_def by blast
  qed
qed

text \<open>The walk over a tree returns, as it does on a finite one (\<open>tree_closure_lists_every_object\<close>).\<close>

definition walks_return :: "pack_env \<Rightarrow> bool" where
  "walks_return env \<longleftrightarrow> (\<forall>tree. enumerate_tree_closure (pl_trees (pk_lib env)) tree \<noteq> None)"

lemma build_pack_valid:
  assumes "build_pack lib io ids ex tags = Inr p"
  shows "is_valid_bundle_stem (bp_content_sha p) \<and> (\<exists>ids pack. pl_pack lib ids = Inr pack \<and> bp_bytes p = length pack)"
  using build_pack_sound [OF assms] assms by (auto simp: build_pack_def Let_def split: if_splits; blast)

lemma build_baseline_valid:
  assumes "walks_return env" "returned (build_baseline_pack (pk_lib env) io peeled) = Inr pack"
  shows "is_valid_bundle_stem (bp_content_sha pack) \<and>
    (\<exists>ids p. pl_pack (pk_lib env) ids = Inr p \<and> bp_bytes pack = length p)"
proof (cases "open_repo io")
  case (Inr _)
  show ?thesis
  proof (cases peeled)
    case (PeeledTree tree tags)
    then obtain closure where "enumerate_tree_closure (pl_trees (pk_lib env)) tree = Some closure"
      using assms(1) unfolding walks_return_def by fast
    with assms(2) Inr PeeledTree show ?thesis
      by (auto simp: build_baseline_pack_def dest: build_pack_valid)
  qed (use assms(2) Inr in \<open>auto simp: build_baseline_pack_def dest: build_pack_valid\<close>)
qed (use assms(2) in \<open>simp add: build_baseline_pack_def\<close>)

lemma build_pack_and_baseline_valid:
  "walks_return env \<Longrightarrow> build_pack_and_baseline env sha peeled kind spec = Inr (pack, b) \<Longrightarrow>
   is_valid_bundle_stem (bp_content_sha pack) \<and>
   (\<exists>ids p. pl_pack (pk_lib env) ids = Inr p \<and> bp_bytes pack = length p)"
  by (auto simp: build_pack_and_baseline_def build_incremental_pack_def
      dest!: build_pack_valid build_baseline_valid split: pack_kind.splits peeled_tip.splits)

text \<open>
  What the preparation guarantees of the state it hands over: the commit the local refspec
  names, the chain as it stood, and, unless the push is forced, that the chain's tip is an
  ancestor of the commit.
\<close>

definition resolved :: "pack_env \<Rightarrow> string \<Rightarrow> string \<Rightarrow> bool" where
  "resolved env local_spec sha \<longleftrightarrow> (\<exists>repo. pk_repo env = Inr repo \<and> resolve repo local_spec = Inr sha)"

definition fast_forward :: "ext \<Rightarrow> pack_env \<Rightarrow> chain_manifest \<Rightarrow> string \<Rightarrow> bool" where
  "fast_forward x env c sha \<longleftrightarrow>
     (\<exists>repo tip old tags new tags'. pk_repo env = Inr repo \<and> sha_from_hex x (cm_tip c) = Inr tip \<and>
        peel repo tip = Inr (PeeledCommit old tags) \<and> peel repo sha = Inr (PeeledCommit new tags') \<and>
        is_ancestor repo old new = Inr True)"

definition prepared :: "ext \<Rightarrow> string option \<Rightarrow> pack_env \<Rightarrow> push_spec \<Rightarrow> bucket \<Rightarrow> pack_ready \<Rightarrow> bool" where
  "prepared x pfx env spec v state \<longleftrightarrow>
     rr_remote_ref state = ps_remote_ref spec \<and> rr_force state = ps_force spec \<and>
     rr_local_spec state = ps_local_spec spec \<and> rr_local_sha40 state = rr_local_sha state \<and>
     rr_prior state = chain_at x v (chain_key pfx (ps_remote_ref spec)) \<and>
     resolved env (ps_local_spec spec) (rr_local_sha state) \<and>
     is_valid_bundle_stem (rr_pack_sha state) \<and>
     (\<exists>ids pack. pl_pack (pk_lib env) ids = Inr pack \<and> rr_pack_bytes state = length pack) \<and>
     (\<forall>c. rr_prior state = Some c \<longrightarrow> rr_force state \<or> fast_forward x env c (rr_local_sha state))"

text \<open>A push that answers \<open>ok\<close> without writing found the chain at the commit it pushes.\<close>

definition already_there :: "ext \<Rightarrow> string option \<Rightarrow> pack_env \<Rightarrow> push_spec \<Rightarrow> bucket \<Rightarrow> bool" where
  "already_there x pfx env spec v \<longleftrightarrow>
     (\<exists>c. chain_at x v (chain_key pfx (ps_remote_ref spec)) = Some c \<and> \<not> ps_force spec \<and>
        resolved env (ps_local_spec spec) (cm_tip c))"

lemma probe_prior_sound:
  assumes "probe_prior repo local_commit (Some prior) False = Inr (Inr base)"
  shows "\<exists>new old tags. local_commit = Some new \<and> peel repo prior = Inr (PeeledCommit old tags) \<and>
    is_ancestor repo old new = Inr True"
  using assms
  by (auto simp: probe_prior_def Let_def split: option.splits sum.splits peeled_tip.splits git_error.splits if_splits)

lemma local_git_work_sound:
  assumes "local_git_work_packchain env spec prior force = Inr (Inr l)"
  shows "resolved env spec (pl_local_sha l)"
    and "prior = Some p \<Longrightarrow> \<not> force \<Longrightarrow> \<exists>repo old tags new tags'. pk_repo env = Inr repo \<and>
      peel repo p = Inr (PeeledCommit old tags) \<and> peel repo (pl_local_sha l) = Inr (PeeledCommit new tags') \<and>
      is_ancestor repo old new = Inr True"
proof -
  from assms obtain repo peeled base where l: "pk_repo env = Inr repo" "resolve repo spec = Inr (pl_local_sha l)"
    "peel repo (pl_local_sha l) = Inr peeled"
    "probe_prior repo (case peeled of PeeledCommit commit _ \<Rightarrow> Some commit | _ \<Rightarrow> None) prior force = Inr (Inr base)"
    by (auto simp: local_git_work_packchain_def Let_def split: sum.splits if_splits)
  then show "resolved env spec (pl_local_sha l)" by (auto simp: resolved_def)
  assume "prior = Some p" "\<not> force"
  with l(4) have "\<exists>new old tags. (case peeled of PeeledCommit commit _ \<Rightarrow> Some commit | _ \<Rightarrow> None) = Some new \<and>
      peel repo p = Inr (PeeledCommit old tags) \<and> is_ancestor repo old new = Inr True"
    by (intro probe_prior_sound) simp
  with l(1,3) show "\<exists>repo old tags new tags'. pk_repo env = Inr repo \<and>
      peel repo p = Inr (PeeledCommit old tags) \<and> peel repo (pl_local_sha l) = Inr (PeeledCommit new tags') \<and>
      is_ancestor repo old new = Inr True"
    by (cases peeled) auto
qed

context store_contract
begin

lemma upload_packs:
  assumes s0: "harmless d pfx (view s0) (view s)"
  shows "wp (upload_pack_idx_baseline st pfx env r sha pack b)
    (\<lambda>_ t. harmless d pfx (view s0) (view t) \<and> view t (pack_key pfx (bp_content_sha pack)) \<noteq> None \<and>
       view t (pack_idx_key pfx (bp_content_sha pack)) \<noteq> None \<and> (honest s \<longrightarrow> honest t))
    (\<lambda>_ t. harmless d pfx (view s0) (view t)) s"
proof -
  have put: "harmless d pfx v v'" if "wrote k c v v'" "\<not> is_chain_json_key k" for k c v v'
    using that by (intro harmless_put not_slot_json)
  show ?thesis
    unfolding upload_pack_idx_baseline_def
  proof (intro wp_and_then wp_map_err wp_st_put_path, goal_cases)
    case (1 c t c' u)
    then have "harmless d pfx (view s) (view t)" by (intro put [OF _ not_chain_json(2)])
    moreover from 1 have "harmless d pfx (view t) (view u)" by (intro put [OF _ not_chain_json(3)])
    ultimately have u: "harmless d pfx (view s0) (view u)" using s0 harmless_trans by blast
    have packs: "view u (pack_key pfx (bp_content_sha pack)) \<noteq> None"
      "view u (pack_idx_key pfx (bp_content_sha pack)) \<noteq> None"
      using 1 by (auto simp: wrote_def)
    show ?case
    proof (cases b)
      case None
      with 1 u packs show ?thesis by (simp add: wp_ok)
    next
      case (Some bfile)
      have bundle_put: "harmless d pfx (view s0) (view w) \<and> view w (pack_key pfx (bp_content_sha pack)) \<noteq> None \<and>
          view w (pack_idx_key pfx (bp_content_sha pack)) \<noteq> None"
        if "wrote (bundle_key pfx r sha) body (view u) (view w)" for w body
      proof -
        have "harmless d pfx (view u) (view w)" using that by (rule put [OF _ not_chain_json(4)])
        with u packs show ?thesis by (meson harmless_def harmless_trans)
      qed
      show ?thesis unfolding Some option.case(2)
        by (intro wp_map_err wp_st_put_path) (use 1 u bundle_put in auto)
    qed
  next
    case (2 c t e u)
    then have "harmless d pfx (view s0) (view t)" by (intro harmless_trans [OF s0] put [OF _ not_chain_json(2)])
    moreover from 2 have "harmless d pfx (view t) (view u)" by (auto intro: put [OF _ not_chain_json(3)])
    ultimately show ?case by (rule harmless_trans)
  next
    case (3 e t)
    then show ?case by (auto intro: s0 harmless_trans [OF s0] put [OF _ not_chain_json(2)])
  qed
qed

lemma packchain_prepare_packs:
  assumes r: "prefix ''refs/'' (ps_remote_ref spec)" and u: "utf8_prefix pfx" "utf8_valid (ps_remote_ref spec)"
    and walks: "walks_return env"
    and guarded: "guarded \<Longrightarrow> view s (protected_marker_key pfx (ps_remote_ref spec)) \<noteq> None"
  defines "key \<equiv> chain_key pfx (ps_remote_ref spec)"
  shows "wp (packchain_prepare_push x st pfx env config now tomb_now uuid spec)
    (\<lambda>out t. harmless (ps_local_spec spec = [] \<and> \<not> guarded) pfx (view s) (view t) \<and>
       (\<forall>state. out = PackReady state \<longrightarrow> prepared x pfx env spec (view s) state \<and>
          view t (pack_key pfx (rr_pack_sha state)) \<noteq> None \<and>
          view t (pack_idx_key pfx (rr_pack_sha state)) \<noteq> None \<and> (honest s \<longrightarrow> honest t) \<and>
          ps_local_spec spec \<noteq> []) \<and>
       (\<forall>r. ps_local_spec spec \<noteq> [] \<and> out = PackDone (PushOk r) \<longrightarrow> already_there x pfx env spec (view s)))
    (\<lambda>_ t. harmless (ps_local_spec spec = [] \<and> \<not> guarded) pfx (view s) (view t)) s"
proof (cases "ps_local_spec spec = []")
  case True
  have "wp (delete_remote_ref_packchain x st pfx (ps_remote_ref spec) config now tomb_now uuid)
      (\<lambda>_ t. harmless (\<not> guarded) pfx (view s) (view t)) (\<lambda>_ t. harmless (\<not> guarded) pfx (view s) (view t)) s"
  proof (cases guarded)
    case True
    with packchain_delete_protected [OF r u guarded [OF True]] show ?thesis by simp
  next
    case False
    with keepsD [OF harmless_delete_ref [OF r u]] show ?thesis
      by (intro wpI) (auto simp: harmless_step_def)
  qed
  then show ?thesis using True
    unfolding packchain_prepare_push_def Let_def
    by (auto elim!: wp_mono intro!: wp_and_then wp_ok)
next
  case False
  have upload: "wp (and_then (upload_pack_idx_baseline st pfx env r' sha pack b) (\<lambda>_. ok (PackReady state))) Q E t"
    if "view t = view s" "honest s \<Longrightarrow> honest t" "rr_pack_sha state = bp_content_sha pack"
      and Q: "\<And>u. harmless False pfx (view s) (view u) \<Longrightarrow> view u (pack_key pfx (rr_pack_sha state)) \<noteq> None \<Longrightarrow>
        view u (pack_idx_key pfx (rr_pack_sha state)) \<noteq> None \<Longrightarrow> (honest s \<Longrightarrow> honest u) \<Longrightarrow> Q (PackReady state) u"
      and E: "\<And>e u. harmless False pfx (view s) (view u) \<Longrightarrow> E e u"
    for t r' sha pack b state Q E
    by (rule wp_and_then, rule wp_mono, rule upload_packs)
      (use that in \<open>auto intro!: wp_ok\<close>)
  have ready: "prepared x pfx env spec (view s)
      \<lparr>rr_remote_ref = ps_remote_ref spec, rr_local_sha = pl_local_sha l, rr_local_sha40 = sha40, rr_prior = c,
       rr_pack_sha = bp_content_sha pack, rr_pack_bytes = bp_bytes pack, rr_force = ps_force spec,
       rr_local_spec = ps_local_spec spec\<rparr>"
    if work: "local_git_work_packchain env (ps_local_spec spec) tip (ps_force spec) = Inr (Inr l)"
      and tip: "case c of None \<Rightarrow> tip = None | Some m \<Rightarrow> \<exists>h. sha_from_hex x (cm_tip m) = Inr h \<and> tip = Some h"
      and sha40: "sha40_from_oid (pl_local_sha l) = Inr sha40"
      and c: "c = chain_at x (view s) key"
      and pack: "build_pack_and_baseline env (pl_local_sha l) (pl_peeled l) kind (ps_local_spec spec) = Inr (pack, b)"
    for tip l sha40 c pack kind b
  proof -
    have "fast_forward x env m (pl_local_sha l)" if "c = Some m" "\<not> ps_force spec" for m
    proof -
      from tip that(1) have "\<exists>h. sha_from_hex x (cm_tip m) = Inr h \<and> tip = Some h" by simp
      then obtain h where h: "sha_from_hex x (cm_tip m) = Inr h" "tip = Some h" by blast
      with local_git_work_sound(2) [OF work h(2) that(2)] show ?thesis unfolding fast_forward_def by blast
    qed
    moreover have "is_valid_bundle_stem (bp_content_sha pack) \<and>
        (\<exists>ids p. pl_pack (pk_lib env) ids = Inr p \<and> bp_bytes pack = length p)"
      by (rule build_pack_and_baseline_valid [OF walks pack])
    ultimately show ?thesis
      using local_git_work_sound(1) [OF work] sha40 c by (auto simp: prepared_def key_def)
  qed
  have same: "already_there x pfx env spec (view s)"
    if "local_git_work_packchain env (ps_local_spec spec) tip (ps_force spec) = Inr (Inr l)"
      "sha40_from_oid (pl_local_sha l) = Inr sha40" "\<not> ps_force spec" "c = chain_at x (view s) key"
      "map_option cm_tip c = Some sha40" for tip l sha40 c
    using that local_git_work_sound(1) [OF that(1)] unfolding already_there_def key_def by auto
  show ?thesis
    unfolding packchain_prepare_push_def Let_def
    by (simp only: False if_False simp_thms, rule wp_and_then, rule wp_map_err, rule wp_load_chain)
      (auto simp: split_beta probe_error_to_outcome_def key_def [symmetric]
        intro!: wp_and_then [OF wp_of_result] wp_sum wp_if wp_option wp_ok wp_fail upload
          ready same split: option.splits)
qed

end

subsection \<open>Under the lock\<close>

lemma chain_slot_ref: "prefix ''refs/'' r \<Longrightarrow> chain_slot (prefix_str pfx) (chain_key pfx r)"
  by (auto simp: slot_base chain_key_base prefix_def is_chain_json_key_def CHAIN_JSON_SUFFIX_def suffix_def)

text \<open>A manifest that reads back at all reads back as it was written.\<close>

lemma those_map_inject:
  "(\<And>y z. y \<in> set ys \<Longrightarrow> f (g y) = Some z \<Longrightarrow> z = y) \<Longrightarrow> those (map f (map g ys)) = Some zs \<Longrightarrow> zs = ys"
  by (induction ys arbitrary: zs) (auto split: option.splits)

lemma de_sha40_JStr: "de_sha40 (JStr s) = Some t \<Longrightarrow> t = s"
  by (auto simp: de_sha40_def de_string_def split: sum.splits)

lemma segment_json_inject: "segment_of_json (json_of_segment g) = Some g' \<Longrightarrow> g' = g"
  by (cases "seg_parent_sha g")
    (auto simp: segment_of_json_def json_of_segment_def json_fields_obj de_field_def de_opt_field_def
      bind_eq_Some_conv split: if_splits)

lemma chain_json_inject: "chain_of_json (json_of_chain c) = Some c' \<Longrightarrow> c' = c"
proof -
  assume c: "chain_of_json (json_of_chain c) = Some c'"
  have "those (map segment_of_json (map json_of_segment (cm_segments c))) = Some gs \<Longrightarrow> gs = cm_segments c" for gs
    by (rule those_map_inject [OF segment_json_inject])
  with c show "c' = c"
    by (auto simp: chain_of_json_def json_of_chain_def json_fields_obj de_field_def bind_eq_Some_conv
        split: if_splits)
qed

lemma intact_write_chain:
  assumes ok: "intact x pfx v" and w: "wrote (chain_key pfx r) (chain_to_json_pretty x c) v v'"
    and packs: "packs_present pfx v (cm_segments c)" and json: "json_ok x (json_of_chain c)"
  shows "intact x pfx v'"
proof (rule intactI)
  obtain m where v': "v' = v(chain_key pfx r \<mapsto> (chain_to_json_pretty x c, m))"
    using w by (auto simp: wrote_def)
  have same: "v' (pack_key pfx sha) = v (pack_key pfx sha) \<and> v' (pack_idx_key pfx sha) = v (pack_idx_key pfx sha)" for sha
    unfolding v' using not_chain_json(2,3) chain_key_is_chain by (metis fun_upd_other)
  have keep: "packs_present pfx v' gs" if "packs_present pfx v gs" for gs
    using that by (simp add: packs_present_def same)
  fix k d
  assume k: "chain_slot (prefix_str pfx) k" "chain_at x v' k = Some d"
  show "packs_present pfx v' (cm_segments d)"
  proof (cases "k = chain_key pfx r")
    case True
    with k(2) have "chain_from_json_bytes x (chain_to_json_pretty x c) = Inr d"
      by (simp add: v' chain_at_Some)
    with json have "d = c"
      by (auto simp: chain_from_json_bytes_def chain_to_json_pretty_def json_ok_def
          dest: chain_json_inject split: option.splits if_splits)
    with packs keep show ?thesis by simp
  next
    case False
    with k(2) have "chain_at x v k = Some d" by (simp add: v' chain_at_def)
    with ok k(1) show ?thesis by (intro keep) (rule intact_chain)
  qed
qed

definition chains_print :: "ext \<Rightarrow> bool" where
  "chains_print x \<longleftrightarrow> (\<forall>c. json_ok x (json_of_chain c))"

context store_contract
begin

lemma harmless_write_path_index [keeps_intros]:
  "keeps (harmless_step d pfx view) (write_path_index x st pfx r index)"
  unfolding write_path_index_def
  by (intro keeps_intros harmless_step_refl harmless_step_trans not_slot_json not_chain_json)

lemma harmless_cleanup [keeps_intros]:
  "keeps (harmless_step d pfx view) (force_push_baseline_cleanup x st pfx r prior sha now uuid)"
  unfolding force_push_baseline_cleanup_def
  by (intro keeps_intros harmless_step_refl harmless_step_trans)

lemma wp_keeps_intact:
  assumes "keeps (harmless_step d pfx view) m" "intact x pfx (view s)"
    and "\<And>a t. harmless d pfx (view s) (view t) \<Longrightarrow> intact x pfx (view t) \<Longrightarrow> Q a t"
    and "\<And>e t. harmless d pfx (view s) (view t) \<Longrightarrow> intact x pfx (view t) \<Longrightarrow> E e t"
  shows "wp m Q E s"
  by (rule wpI) (use assms harmless_intact in \<open>auto dest!: keepsD simp: harmless_step_def\<close>)

end

text \<open>
  \<open>committed\<close>: the manifest of the push was written after harmless steps and before harmless
  steps. \<open>may_commit\<close> says when the critical section goes that far.
\<close>

definition push_manifest :: "pack_ready \<Rightarrow> chain_manifest" where
  "push_manifest state = next_manifest (rr_prior state) (rr_local_sha40 state)
     \<lparr>seg_sha = rr_local_sha40 state, seg_parent_sha = None, seg_pack = pack_key None (rr_pack_sha state),
      seg_bytes = rr_pack_bytes state\<rparr> (rr_force state)"

definition committed :: "ext \<Rightarrow> string option \<Rightarrow> pack_ready \<Rightarrow> bucket \<Rightarrow> bucket \<Rightarrow> bool" where
  "committed x pfx state v v' \<longleftrightarrow>
     (\<exists>u w. harmless False pfx v u \<and> harmless False pfx w v' \<and>
        wrote (chain_key pfx (rr_remote_ref state)) (chain_to_json_pretty x (push_manifest state)) u w)"

definition may_commit ::
    "ext \<Rightarrow> string option \<Rightarrow> pack_env \<Rightarrow> pack_ready \<Rightarrow> bool \<Rightarrow> chain_manifest option \<Rightarrow> bool" where
  "may_commit x pfx env state guarded current \<longleftrightarrow>
     (if rr_force state then guarded \<longrightarrow> (\<forall>c. current = Some c \<longrightarrow>
        current_tip_is_ancestor_of_local x env (cm_tip c) (rr_local_sha state) = Inr True)
      else map_option cm_tip (rr_prior state) = map_option cm_tip current)"

lemma committed_before: "harmless False pfx v u \<Longrightarrow> committed x pfx state u v' \<Longrightarrow> committed x pfx state v v'"
  unfolding committed_def by (blast intro: harmless_trans)

lemma committed_after: "committed x pfx state v u \<Longrightarrow> harmless False pfx u v' \<Longrightarrow> committed x pfx state v v'"
  unfolding committed_def by (blast intro: harmless_trans)

lemma committed_intact:
  assumes "committed x pfx state v v'" "ready_packs pfx v state" "intact x pfx v" "chains_print x"
  shows "intact x pfx v'"
proof -
  from assms(1) obtain u w where u: "harmless False pfx v u" "harmless False pfx w v'"
    "wrote (chain_key pfx (rr_remote_ref state)) (chain_to_json_pretty x (push_manifest state)) u w"
    unfolding committed_def by blast
  have "intact x pfx w"
    using assms(4) unfolding push_manifest_def chains_print_def
    by (intro intact_write_chain [OF harmless_intact [OF u(1) assms(3)] u(3) [unfolded push_manifest_def]]
        ready_packs_manifest [OF harmless_ready_packs [OF u(1) assms(2)]]) simp_all
  with u(2) show ?thesis by (rule harmless_intact)
qed

context store_contract
begin

lemma packchain_commit_chain:
  assumes r: "prefix ''refs/'' (rr_remote_ref state)"
  shows "wp (packchain_commit x st pfx engine state index tomb_now uuid)
    (\<lambda>out t. out = PushOk (rr_remote_ref state) \<and> committed x pfx state (view s) (view t))
    (\<lambda>_ t. harmless False pfx (view s) (view t) \<or> committed x pfx state (view s) (view t)) s"
proof -
  let ?H = "harmless False pfx"
  have after: "wp m (\<lambda>_ t. ?H w (view t)) (\<lambda>_ t. ?H w (view t)) u"
    if "keeps (harmless_step False pfx view) m" "?H w (view u)" for m :: "('s, 'e, 'b) io" and w u
    by (rule wpI) (use that in \<open>auto dest!: keepsD simp: harmless_step_def intro: harmless_trans\<close>)
  note step = harmless_step_refl harmless_step_trans
  have format: "\<not> chain_slot (prefix_str pfx) (join pfx ''FORMAT'')" "\<not> chain_slot (prefix_str pfx) (head_key pfx)"
    by (simp_all add: slot_base join_base head_key_def)
  have index: "keeps (harmless_step False pfx view)
      (case index of
         Some idx \<Rightarrow> map_err PushPackchain (write_path_index x st pfx (rr_remote_ref state) idx)
       | None \<Rightarrow> map_err PushStore (delete_idempotent st (path_index_key pfx (rr_remote_ref state))))"
    by (intro keeps_intros step ref_keys_not_pack r disjI2) simp_all
  have cleanup: "keeps (harmless_step False pfx view)
      (if rr_force state
       then force_push_baseline_cleanup x st pfx (rr_remote_ref state) (rr_prior state) (rr_local_sha40 state) tomb_now uuid
       else ok () :: ('s, push_error, unit) io)"
    by (intro keeps_intros step)
  show ?thesis
    unfolding packchain_commit_def Let_def
  proof (rule wp_and_then, rule wp_map_err, rule wp_mono, rule after [OF harmless_put_if_absent [OF format(1)] harmless_refl],
      rule wp_and_then, rule wp_map_err, rule wp_mono, rule after [OF harmless_put_if_absent [OF format(2)]], assumption,
      rule wp_and_then, rule wp_map_err, rule wp_write_chain, goal_cases)
    case (1 a t b u w)
    then have w: "committed x pfx state (view s) (view w)"
      unfolding committed_def push_manifest_def by (intro exI [of _ "view u"] exI [of _ "view w"]) simp
    show ?case
      by (rule wp_and_then, rule wp_mono [OF after [OF index harmless_refl]],
          rule wp_and_then, rule wp_mono [OF after [OF cleanup harmless_refl]])
        (auto intro!: wp_ok intro: committed_after [OF w] harmless_trans)
  next
    case (2 a t b u e w)
    then show ?case
      unfolding committed_def push_manifest_def by (metis harmless_refl)
  qed auto
qed

lemma packchain_perform_chain:
  fixes x :: ext
  assumes r: "prefix ''refs/'' (rr_remote_ref state)"
    and guarded: "guarded \<Longrightarrow> honest s \<and> view s (protected_marker_key pfx (rr_remote_ref state)) \<noteq> None"
  defines "current \<equiv> chain_at x (view s) (chain_key pfx (rr_remote_ref state))"
  shows "wp (packchain_perform_push_under_lock x st pfx env engine state tomb_now uuid)
    (\<lambda>out t. if \<exists>msg. out = PushError (rr_remote_ref state) msg then view t = view s
       else out = PushOk (rr_remote_ref state) \<and> committed x pfx state (view s) (view t) \<and>
         may_commit x pfx env state guarded current)
    (\<lambda>_ t. harmless False pfx (view s) (view t) \<or>
       committed x pfx state (view s) (view t) \<and> may_commit x pfx env state guarded current) s"
proof -
  have rewind: "wp (protected_rewind x st pfx env state current)
      (\<lambda>b t. view t = view s \<and> (rr_force state \<and> \<not> b \<longrightarrow> may_commit x pfx env state guarded current))
      (\<lambda>_ t. view t = view s) t" if t: "view t = view s" "honest s \<Longrightarrow> honest t" for t
    unfolding protected_rewind_def
    using guarded that by (auto intro!: wp_intros simp: may_commit_def)
  have commit: "wp (packchain_commit x st pfx engine state index tomb_now uuid)
    (\<lambda>out t. if \<exists>msg. out = PushError (rr_remote_ref state) msg then view t = view s
       else out = PushOk (rr_remote_ref state) \<and> committed x pfx state (view s) (view t) \<and>
         may_commit x pfx env state guarded current)
    (\<lambda>_ t. harmless False pfx (view s) (view t) \<or>
       committed x pfx state (view s) (view t) \<and> may_commit x pfx env state guarded current) t"
    if "view t = view s" "may_commit x pfx env state guarded current" for t index
    by (rule wp_mono [OF packchain_commit_chain [OF r]]) (use that in auto)
  show ?thesis
    unfolding packchain_perform_push_under_lock_def Let_def
  proof (rule wp_and_then, rule wp_map_err, rule wp_load_chain, goal_cases)
    case (1 c t)
    then have c: "c = current" by (simp add: current_def)
    show ?case
      unfolding c
    proof (rule wp_and_then, rule wp_mono, rule rewind, goal_cases)
      case (3 b u)
      then have u: "view u = view s" by simp
      have may: "may_commit x pfx env state guarded current"
        if "\<not> b" "rr_force state \<or> map_option cm_tip (rr_prior state) = map_option cm_tip current"
        using 3 that by (auto simp: may_commit_def)
      show ?case
        by (intro wp_if wp_ok wp_and_then [OF wp_of_result] commit u may) (use u in auto)
    qed (use 1 in auto)
  qed simp
qed

text \<open>
  What a push or deletion does to the chains: nothing (\<open>Untouched\<close>: a deletion may remove
  chains), or it writes its manifest over the chain it was prepared against.
\<close>

lemma packchain_push_chain:
  fixes x :: ext
  assumes r: "prefix ''refs/'' (ps_remote_ref spec)" and u: "utf8_prefix pfx" "utf8_valid (ps_remote_ref spec)"
    and walks: "walks_return env"
    and guarded: "guarded \<Longrightarrow> honest s \<and> view s (protected_marker_key pfx (ps_remote_ref spec)) \<noteq> None"
  defines "key \<equiv> chain_key pfx (ps_remote_ref spec)"
  defines "moved \<equiv> \<lambda>v. ps_local_spec spec \<noteq> [] \<and> (\<exists>state u. prepared x pfx env spec (view s) state \<and>
     harmless False pfx (view s) u \<and> u (pack_key pfx (rr_pack_sha state)) \<noteq> None \<and>
     u (pack_idx_key pfx (rr_pack_sha state)) \<noteq> None \<and> committed x pfx state u v \<and>
     may_commit x pfx env state guarded (chain_at x (view s) key))"
  defines "untouched \<equiv> \<lambda>v. harmless (ps_local_spec spec = [] \<and> \<not> guarded) pfx (view s) v"
  defines "answer \<equiv> \<lambda>out v.
     untouched v \<and> (\<forall>r. ps_local_spec spec \<noteq> [] \<and> out = PushOk r \<longrightarrow> already_there x pfx env spec (view s)) \<or> moved v"
  shows "wp (packchain_push_one x st pfx env config now tomb_now uuid spec)
    (\<lambda>out t. answer out (view t))
    (\<lambda>_ t. untouched (view t) \<or> moved (view t)) s"
  unfolding packchain_push_one_def
proof (rule wp_and_then, rule wp_mono [OF packchain_prepare_packs [OF r u walks, where guarded = guarded]], goal_cases)
  case 1
  then show ?case using guarded by simp
next
  case (2 out t)
  note 1 = 2
  show ?case
  proof (cases out)
    case (PackDone o')
    with 1 show ?thesis by (auto simp: untouched_def answer_def intro!: wp_ok)
  next
    case (PackReady state)
    let ?H = "harmless False pfx"
    from 1 PackReady have st: "prepared x pfx env spec (view s) state"
      "view t (pack_key pfx (rr_pack_sha state)) \<noteq> None" "view t (pack_idx_key pfx (rr_pack_sha state)) \<noteq> None"
      "ps_local_spec spec \<noteq> []" "?H (view s) (view t)" "honest s \<Longrightarrow> honest t"
      by auto
    then have ref: "rr_remote_ref state = ps_remote_ref spec" by (simp add: prepared_def)
    let ?l = "lock_key pfx (ps_remote_ref spec)"
    have rel: "keeps (harmless_step False pfx view) (release_lock st ?l)" by (rule harmless_release_lock [OF r])
    have still: "untouched (view w)" if "?H (view s) (view w)" for w
      using that st(4) by (simp add: untouched_def)
    have went: "moved (view q)"
      if "?H (view s) (view w)" "view w (pack_key pfx (rr_pack_sha state)) \<noteq> None"
        "view w (pack_idx_key pfx (rr_pack_sha state)) \<noteq> None" "committed x pfx state (view w) (view q)"
        "may_commit x pfx env state guarded (chain_at x (view w) key)" for w q
    proof -
      have "chain_slot (prefix_str pfx) key" unfolding key_def by (rule chain_slot_ref [OF r])
      with that(1) have "view w key = view s key" by (simp add: harmless_def)
      with that st(1,4) show ?thesis unfolding moved_def by (auto simp: chain_at_def intro!: exI [of _ state] exI [of _ "view w"])
    qed
    have quiet: "answer (PushError r' msg) v" if "untouched v" for r' msg v
      using that by (simp add: answer_def)
    have did: "answer out v" if "moved v" for out v using that by (simp add: answer_def)
    have body: "wp (release_around st ?l (ps_remote_ref spec) ?l
          (packchain_perform_push_under_lock x st pfx env (kc_engine config) state tomb_now uuid))
        (\<lambda>out t. answer out (view t))
        (\<lambda>_ t. untouched (view t) \<or> moved (view t)) w"
      if w: "?H (view s) (view w)" "view w (pack_key pfx (rr_pack_sha state)) \<noteq> None"
        "view w (pack_idx_key pfx (rr_pack_sha state)) \<noteq> None" "honest s \<Longrightarrow> honest w" for w
    proof -
      have g: "guarded \<Longrightarrow> honest w \<and> view w (protected_marker_key pfx (rr_remote_ref state)) \<noteq> None"
        using guarded w(1,4) by (auto simp: ref harmless_def)
      have after: "wp (release_lock st ?l) (\<lambda>_ p. ?H (view q) (view p)) (\<lambda>_ p. ?H (view q) (view p)) q" for q
        by (rule wpI) (use rel in \<open>auto dest!: keepsD simp: harmless_step_def\<close>)
      have fin: "moved (view p)" if "committed x pfx state (view w) (view q)" "?H (view q) (view p)"
        "may_commit x pfx env state guarded (chain_at x (view w) key)" for q p
        by (rule went [OF w(1-3) committed_after [OF that(1,2)] that(3)])
      have stay: "untouched (view p)" if "view q = view w \<or> ?H (view w) (view q)" "?H (view q) (view p)" for q p
        using that by (intro still harmless_trans [OF w(1)]) (auto intro: harmless_trans)
      have r': "prefix ''refs/'' (rr_remote_ref state)" by (simp only: ref r)
      show ?thesis
        unfolding release_around_def
        by (rule wp_match, rule wp_mono [OF packchain_perform_chain [OF r' g]])
          (auto simp: ref key_def [symmetric] intro!: wp_match wp_mono [OF after] wp_ok wp_fail
            intro: fin stay quiet did split: push_outcome.split if_splits)
    qed
    show ?thesis
      unfolding PackReady pack_prepare_outcome.case Let_def ref
    proof (rule wp_and_then, rule wp_map_err, rule wp_acquire_lock, goal_cases)
      case (1 g w)
      have f: "?H (view t) (view w)" using 1(1) by (rule harmless_frame_lock [OF r])
      have "view w (pack_key pfx (rr_pack_sha state)) \<noteq> None" "view w (pack_idx_key pfx (rr_pack_sha state)) \<noteq> None"
        using f st(2,3) by (simp_all add: harmless_def)
      with 1 st(6) show ?case
        by (auto intro!: wp_ok body quiet still harmless_trans [OF st(5) f])
    next
      case (2 e w)
      then show ?case using still [OF harmless_trans [OF st(5) harmless_frame_lock [OF r]]] by blast
    qed
  qed
next
  case (3 e t)
  then show ?case by (simp add: untouched_def)
qed

text \<open>A push, or the deletion a push can be, never leaves a chain without its packs.\<close>

theorem packchain_push_intact:
  assumes r: "prefix ''refs/'' (ps_remote_ref spec)" and u: "utf8_prefix pfx" "utf8_valid (ps_remote_ref spec)"
    and json: "chains_print x" and walks: "walks_return env" and ok: "intact x pfx (view s)"
  shows "wp (packchain_push_one x st pfx env config now tomb_now uuid spec)
    (\<lambda>_ t. intact x pfx (view t)) (\<lambda>_ t. intact x pfx (view t)) s"
proof -
  let ?key = "chain_key pfx (ps_remote_ref spec)"
  have slot: "chain_slot (prefix_str pfx) ?key" by (rule chain_slot_ref [OF r])
  have moved: "intact x pfx v" if "prepared x pfx env spec (view s) state" "harmless False pfx (view s) w"
    "w (pack_key pfx (rr_pack_sha state)) \<noteq> None" "w (pack_idx_key pfx (rr_pack_sha state)) \<noteq> None"
    "committed x pfx state w v" for state w v
  proof -
    have "ready_packs pfx w state"
      using that harmless_packs_present [OF that(2) intact_chain [OF ok slot]]
      by (auto simp: ready_packs_def prepared_def)
    from committed_intact [OF that(5) this harmless_intact [OF that(2) ok] json] show ?thesis .
  qed
  show ?thesis
    by (rule wp_mono [OF packchain_push_chain [OF r u walks, where guarded = False]])
      (use moved harmless_intact [OF _ ok] in \<open>auto\<close>)
qed

end

end
