(* ===== verification/Bundle_File_Proofs.thy ===== *)
theory Bundle_File_Proofs
  imports Bundle_File Git_History_Proofs Path_Index_Proofs
begin

text \<open>
  What reading and writing bundle files guarantees: a header that was written reads back, a
  created bundle installs the pack it was created with, and reading never goes past its caps.
\<close>

subsection \<open>Reading lines\<close>

lemma read_until_line:
  assumes "rd_bytes rd = l @ newline # rest" "newline \<notin> set l" "length l < budget"
  shows "read_until budget rd = Inr (l @ [newline],
    rd\<lparr>rd_bytes := rest, rd_position := rd_position rd + length l + 1\<rparr>)"
proof -
  have "takeWhile (\<lambda>c. c \<noteq> newline) (l @ newline # rest) = l"
    using assms(2) by (subst takeWhile_append2) auto
  with assms show ?thesis by (simp add: read_until_def Let_def split: option.split)
qed

lemma utf8_valid_line: "utf8_valid l \<Longrightarrow> utf8_valid (l @ [newline])"
  by (simp add: utf8_valid_append utf8_valid_ascii)

lemma read_header_line_line:
  assumes "rd_bytes rd = l @ newline # rest" "newline \<notin> set l" "utf8_valid l"
    and "length l < MAX_HEADER_LINE_BYTES" "tot + length l < MAX_HEADER_TOTAL_BYTES"
  shows "read_header_line rd tot = Inr (l @ [newline],
    rd\<lparr>rd_bytes := rest, rd_position := rd_position rd + length l + 1\<rparr>, tot + length l + 1)"
proof -
  have "read_until (min MAX_HEADER_LINE_BYTES (MAX_HEADER_TOTAL_BYTES - tot)) rd = Inr (l @ [newline],
      rd\<lparr>rd_bytes := rest, rd_position := rd_position rd + length l + 1\<rparr>)"
    using assms by (intro read_until_line) auto
  moreover have "min (tot + length (l @ [newline])) (2 ^ 64 - 1) = tot + length l + 1"
    using assms(5) by (simp add: MAX_HEADER_TOTAL_BYTES_def)
  moreover have "min MAX_HEADER_LINE_BYTES (MAX_HEADER_TOTAL_BYTES - tot) \<noteq> 0" using assms(4,5) by auto
  ultimately show ?thesis
    using utf8_valid_line [OF assms(3)] by (simp add: read_header_line_def saturating_add_def Let_def)
qed

lemma trim_line [simp]: "trim_line_end [newline] = []"
  by (simp add: trim_line_end_def)

lemma trim_line_end_line:
  "l \<noteq> [] \<Longrightarrow> last l \<noteq> newline \<Longrightarrow> last l \<noteq> CHR 0x0D \<Longrightarrow> trim_line_end (l @ [newline]) = l"
  by (cases l rule: rev_cases) (auto simp: trim_line_end_def)

subsection \<open>Round trip\<close>

text \<open>What a ref name needs to survive the header; git's own rules are stricter.\<close>

definition header_ref_ok :: "string \<Rightarrow> bool" where
  "header_ref_ok r \<longleftrightarrow> r \<noteq> [] \<and> newline \<notin> set r \<and> last r \<noteq> CHR 0x0D \<and> utf8_valid r \<and>
     length r < 16000"

lemma valid_stem_facts:
  assumes "is_valid_bundle_stem sha"
  shows "length sha = 40" "CHR '' '' \<notin> set sha" "newline \<notin> set sha" "utf8_valid sha"
    "\<not> prefix ''-'' sha" "sha \<noteq> []"
proof -
  have lower: "is_lower_hex c" if "c \<in> set sha" for c
    using assms that by (auto simp: is_valid_bundle_stem_def list_all_iff)
  moreover have "\<not> is_lower_hex (CHR '' '')" "\<not> is_lower_hex newline" "\<not> is_lower_hex (CHR ''-'')"
    by (simp_all add: is_lower_hex_def less_eq_char_def)
  ultimately show "CHR '' '' \<notin> set sha" "newline \<notin> set sha" by auto
  show len: "length sha = 40" using assms by (simp add: is_valid_bundle_stem_def)
  then show "sha \<noteq> []" by auto
  with lower \<open>\<not> is_lower_hex (CHR ''-'')\<close> show "\<not> prefix ''-'' sha" by (auto simp: prefix_def)
  have "(of_char c :: nat) < 128" if "is_lower_hex c" for c
    using that by (auto simp: is_lower_hex_def less_eq_char_def)
  with lower show "utf8_valid sha" by (intro utf8_valid_ascii) (auto simp: list_all_iff)
qed

lemma parse_ref_line:
  assumes "hex_law x" "is_valid_bundle_stem sha" "header_ref_ok r"
  shows "parse_header_entry x (sha @ '' '' @ r @ [newline]) = Inr (HeaderRef sha r)"
proof -
  note v = valid_stem_facts [OF assms(2)]
  have trim: "trim_line_end ((sha @ '' '' @ r) @ [newline]) = sha @ '' '' @ r"
    using assms(3) by (intro trim_line_end_line) (auto simp: header_ref_ok_def dest: last_in_set)
  have "split_once CHR '' '' (sha @ CHR '' '' # r) = Some (sha, r)"
    using v(2) by (simp add: split_once_Some)
  moreover have "strip_prefix ''-'' (sha @ CHR '' '' # r) = None"
    using v(5,6) by (cases sha) (auto simp: strip_prefix_None)
  moreover have "oid_from_hex x sha = Some sha" using assms(1,2) by (simp add: hex_law_def)
  ultimately show ?thesis
    using trim v(6) assms(3)
    by (simp add: parse_header_entry_def parse_header_oid_def header_ref_ok_def)
qed

lemma read_written_header:
  assumes x: "hex_law x" and sha: "is_valid_bundle_stem sha" and r: "header_ref_ok r"
  shows "read_bundle_header x (Inr (file_reader (write_bundle_header sha r @ ''PACK'' @ rest))) =
    Inr \<lparr>bh_version = 2, bh_prerequisites = [], bh_refs = [(sha, r)],
         bh_pack_offset = length (write_bundle_header sha r)\<rparr>"
proof -
  note v = valid_stem_facts [OF sha]
  let ?pack = "''PACK'' @ rest"
  let ?line = "sha @ '' '' @ r"
  let ?magic = "BUNDLE_V2_MAGIC"
  let ?f = "file_reader (write_bundle_header sha r @ ?pack)"
  let ?rd1 = "?f\<lparr>rd_bytes := ?line @ newline # newline # ?pack, rd_position := 16\<rparr>"
  let ?rd2 = "?f\<lparr>rd_bytes := newline # ?pack, rd_position := 58 + length r\<rparr>"
  let ?rd3 = "?f\<lparr>rd_bytes := ?pack, rd_position := 59 + length r\<rparr>"
  have m: "length ?magic = 15" "utf8_valid ?magic" "newline \<notin> set ?magic"
    by (simp_all add: BUNDLE_V2_MAGIC_def utf8_valid_ascii)
  have l: "length ?line = 41 + length r" "utf8_valid ?line" "newline \<notin> set ?line"
    using v r utf8_valid_append [of sha "'' '' @ r"] utf8_valid_append [of "'' ''" r] utf8_valid_ascii [of "'' ''"]
    by (auto simp: header_ref_ok_def)
  have len: "length r < 16000" using r by (simp add: header_ref_ok_def)
  have line1: "read_header_line ?f 0 = Inr (?magic @ [newline], ?rd1, 16)"
    using read_header_line_line [of ?f ?magic "?line @ newline # newline # ?pack" 0] m
    by (simp add: write_bundle_header_def MAX_HEADER_LINE_BYTES_def MAX_HEADER_TOTAL_BYTES_def)
  have line2: "read_header_line ?rd1 16 = Inr (?line @ [newline], ?rd2, 58 + length r)"
    using read_header_line_line [of ?rd1 ?line "newline # ?pack" 16] l len
    by (simp add: MAX_HEADER_LINE_BYTES_def MAX_HEADER_TOTAL_BYTES_def)
  have line3: "read_header_line ?rd2 (58 + length r) = Inr ([newline], ?rd3, 59 + length r)"
    using read_header_line_line [of ?rd2 "[]" ?pack "58 + length r"] len
    by (simp add: MAX_HEADER_LINE_BYTES_def MAX_HEADER_TOTAL_BYTES_def utf8_valid_ascii)
  have entry: "parse_header_entry x (?line @ [newline]) = Inr (HeaderRef sha r)"
    using parse_ref_line [OF x sha r] by simp
  have "header_entries x ?rd1 16 [] [] = Inr ([], [(sha, r)], ?rd3)"
    by (subst header_entries.simps, simp only: line2 entry sum.case prod.case header_entry.case,
        subst header_entries.simps, simp only: line3 sum.case prod.case) (simp add: parse_header_entry_def)
  moreover have "trim_line_end (?magic @ [newline]) = ?magic"
    by (intro trim_line_end_line) (simp_all add: BUNDLE_V2_MAGIC_def)
  moreover have "?magic \<noteq> BUNDLE_V3_MAGIC" by (simp add: BUNDLE_V2_MAGIC_def BUNDLE_V3_MAGIC_def)
  moreover have "length (write_bundle_header sha r) = 59 + length r"
    using m l by (simp add: write_bundle_header_def)
  ultimately show ?thesis
    unfolding read_bundle_header_def sum.case line1 by (simp add: verify_pack_magic_def)
qed

subsection \<open>Bounds\<close>

lemma header_entries_bound:
  assumes "header_entries x rd tot ps rs = Inr (ps', rs', rd')" "tot \<le> MAX_HEADER_TOTAL_BYTES"
    and "hex_canonical x" "\<And>p. p \<in> set ps \<union> fst ` set rs \<Longrightarrow> is_valid_bundle_stem p"
  shows "(\<exists>h. rd_bytes rd = h @ rd_bytes rd' \<and> tot + length h \<le> MAX_HEADER_TOTAL_BYTES \<and>
      rd_position rd' = rd_position rd + length h) \<and>
    (\<forall>p \<in> set ps' \<union> fst ` set rs'. is_valid_bundle_stem p)"
  using assms
proof (induction x rd tot ps rs arbitrary: ps' rs' rd' rule: header_entries.induct)
  case (1 x rd tot ps rs)
  from 1(3) obtain line rd1 tot1 where line: "read_header_line rd tot = Inr (line, rd1, tot1)"
    by (subst (asm) header_entries.simps) (auto split: sum.splits prod.splits)
  from 1(3) line obtain entry where entry: "parse_header_entry x line = Inr entry"
    by (subst (asm) header_entries.simps) (auto split: sum.splits)
  note got = read_header_line_Inr [OF line]
  have tot1: "tot1 = tot + length line" "tot + length line \<le> MAX_HEADER_TOTAL_BYTES"
    using got 1(4) by (auto simp: saturating_add_def MAX_HEADER_TOTAL_BYTES_def min_def)
  have step: ?case
    if rec: "(\<exists>h. rd_bytes rd1 = h @ rd_bytes rd' \<and> tot1 + length h \<le> MAX_HEADER_TOTAL_BYTES \<and>
        rd_position rd' = rd_position rd1 + length h) \<and>
      (\<forall>p \<in> set ps' \<union> fst ` set rs'. is_valid_bundle_stem p)"
  proof -
    from rec obtain h where "rd_bytes rd1 = h @ rd_bytes rd'" "tot1 + length h \<le> MAX_HEADER_TOTAL_BYTES"
      "rd_position rd' = rd_position rd1 + length h" by blast
    with got tot1 rec show ?thesis by (intro conjI exI [of _ "line @ h"]) auto
  qed
  show ?case
  proof (cases entry)
    case HeaderEnd
    with 1(3,6) line entry have "rd' = rd1" "\<forall>p \<in> set ps' \<union> fst ` set rs'. is_valid_bundle_stem p"
      by (subst (asm) header_entries.simps, force)+
    with tot1 show ?thesis by (intro step) auto
  next
    case (HeaderPrerequisite oid)
    with 1(3) line entry have "header_entries x rd1 tot1 (ps @ [oid]) rs = Inr (ps', rs', rd')"
      by (subst (asm) header_entries.simps) simp
    moreover have "is_valid_bundle_stem oid"
      using entry HeaderPrerequisite 1(5)
      by (auto simp: parse_header_entry_def parse_header_oid_def hex_canonical_def Let_def
          split: if_splits option.splits sum.splits prod.splits)
    ultimately show ?thesis
      using 1(1) [OF line refl refl entry HeaderPrerequisite] 1(5,6) tot1 by (intro step) auto
  next
    case (HeaderRef oid r)
    with 1(3) line entry have "header_entries x rd1 tot1 ps (rs @ [(oid, r)]) = Inr (ps', rs', rd')"
      by (subst (asm) header_entries.simps) simp
    moreover have "is_valid_bundle_stem oid"
      using entry HeaderRef 1(5)
      by (auto simp: parse_header_entry_def parse_header_oid_def hex_canonical_def Let_def
          split: if_splits option.splits sum.splits prod.splits)
    ultimately show ?thesis
      using 1(2) [OF line refl refl entry HeaderRef] 1(5,6) tot1 by (intro step) auto
  qed
qed

subsection \<open>Properties\<close>

definition installed :: "string + unit \<Rightarrow> bundle_error + unit" where
  "installed r = (case r of Inl e \<Rightarrow> Inl (PackWrite e) | Inr _ \<Rightarrow> Inr ())"

text \<open>C23. A bundle file that \<open>create\<close> produced reads back with the sha and the ref name it was made
  for, no prerequisites and the offset of the pack made for it, and \<open>unbundle\<close> in any repository
  installs exactly that pack: it succeeds or fails as the installation of the pack does.\<close>

theorem created_bundles_install_their_pack:
  assumes "hex_law x" "is_valid_bundle_stem sha"
    and "create_bundle (Inr repo) lib sha spec = Some (Inr bytes)"
    and "\<forall>p r. resolve_spec_to_ref repo lib spec = Some (Inr (p, r)) \<longrightarrow> header_ref_ok r"
    and "\<forall>cs pack. pl_pack lib cs = Inr pack \<longrightarrow> prefix ''PACK'' pack"
    and "pl_pack_dir_io lib' = None" "pl_seek_io lib' = None" "pl_keep_io lib' = None"
  shows "\<exists>p r ids expand tags counts pack.
    resolve_spec_to_ref repo lib spec = Some (Inr (p, r)) \<and>
    bundle_input lib p = Some (Inr (ids, expand, tags)) \<and>
    count_input lib ids expand tags = Inr counts \<and> pl_pack lib counts = Inr pack \<and>
    read_bundle_header x (Inr (file_reader bytes)) = Inr \<lparr>bh_version = 2, bh_prerequisites = [],
      bh_refs = [(sha, r)], bh_pack_offset = length bytes - length pack\<rparr> \<and>
    unbundle_file x (Inr (file_reader bytes)) (Inr repo') lib' = installed (pl_install lib' pack)"
proof -
  from assms(3) obtain p r ids expand tags counts pack where made:
    "resolve_spec_to_ref repo lib spec = Some (Inr (p, r))" "bundle_input lib p = Some (Inr (ids, expand, tags))"
    "count_input lib ids expand tags = Inr counts" "pl_pack lib counts = Inr pack"
    and bytes: "bytes = write_bundle_header sha r @ pack"
    by (auto simp: create_bundle_def write_bundle_file_def split: option.splits sum.splits prod.splits)
  with assms(4,5) obtain rest where r: "header_ref_ok r" and pack: "pack = ''PACK'' @ rest"
    unfolding prefix_def by blast
  note header = read_written_header [OF assms(1,2) r, of rest]
  have "unbundle_file x (Inr (file_reader bytes)) (Inr repo') lib' = installed (pl_install lib' pack)"
    using header assms(6-8)
    by (simp add: unbundle_file_def install_bundle_def installed_def bytes pack split: sum.split)
  moreover have "read_bundle_header x (Inr (file_reader bytes)) = Inr \<lparr>bh_version = 2, bh_prerequisites = [],
      bh_refs = [(sha, r)], bh_pack_offset = length bytes - length pack\<rparr>"
    using header by (simp add: bytes pack)
  ultimately show ?thesis using made by blast
qed

text \<open>A library whose packs are the ids of their objects, and which installs one pack only.\<close>

definition demo_library :: pack_library where
  "demo_library =
     \<lparr>pl_follow_ref = (\<lambda>_. Some ''refs/tags/v1''), pl_rev_walk = (\<lambda>c _. Inr [Inr c]), pl_trees = demo_trees,
      pl_count = (\<lambda>ids _. Inr ids), pl_pack = (\<lambda>ids. Inr (''PACK'' @ concat ids)),
      pl_index = (\<lambda>pack. Inr (Some pack)),
      pl_install = (\<lambda>pack. if pack = ''PACK'' @ demo_sha CHR ''a'' @ demo_sha CHR ''1'' then Inr () else Inl pack),
      pl_folder_io = None, pl_temp_io = None, pl_persist_io = None,
      pl_pack_dir_io = None, pl_seek_io = None, pl_keep_io = None\<rparr>"

lemma demo_library_sel [simp]:
  "pl_rev_walk demo_library c h = Inr [Inr c]" "pl_count demo_library ids e = Inr ids"
  "pl_pack demo_library ids = Inr (''PACK'' @ concat ids)" "pl_index demo_library p = Inr (Some p)"
  "pl_trees demo_library = demo_trees"
  "pl_folder_io demo_library = None" "pl_temp_io demo_library = None" "pl_persist_io demo_library = None"
  "pl_pack_dir_io demo_library = None" "pl_seek_io demo_library = None" "pl_keep_io demo_library = None"
  by (simp_all add: demo_library_def)

definition demo_tagged :: git_repo where
  "demo_tagged = demo_history\<lparr>rp_rev_parse := \<lambda>_. Inr (demo_sha CHR ''1'')\<rparr>"

lemma demo_tagged_sel [simp]:
  "rp_find_object demo_tagged = rp_find_object demo_history"
  "rp_rev_parse demo_tagged spec = Inr (demo_sha CHR ''1'')"
  by (simp_all add: demo_tagged_def)

lemma demo_tagged_resolves:
  "resolve_spec_to_ref demo_tagged demo_library ''v1'' =
     Some (Inr (PeeledCommit (demo_sha CHR ''a'') [demo_sha CHR ''1''], ''refs/tags/v1''))"
proof -
  have "peel_tag_chain demo_tagged (demo_sha CHR ''1'') =
      Some (Inr (PeeledCommit (demo_sha CHR ''a'') [demo_sha CHR ''1'']))"
    by (simp add: peel_tag_chain_def peel_loop.simps [of demo_tagged])
  then show ?thesis by (simp add: resolve_spec_to_ref_def) (simp add: demo_library_def utf8_valid_ascii)
qed

text \<open>The bundle of a tag: its pack holds the tag object after the commits, its header the tag's
  ref, and a library that accepts no other pack installs it.\<close>

theorem created_bundles_install_their_pack_witness:
  "\<exists>bytes h. create_bundle (Inr demo_tagged) demo_library (demo_sha CHR ''a'') ''v1'' = Some (Inr bytes) \<and>
     read_bundle_header demo_ext (Inr (file_reader bytes)) = Inr h \<and>
     bh_refs h = [(demo_sha CHR ''a'', ''refs/tags/v1'')] \<and>
     unbundle_file demo_ext (Inr (file_reader bytes)) (Inr demo_history) demo_library = Inr ()"
proof -
  have ref: "\<forall>p r. resolve_spec_to_ref demo_tagged demo_library ''v1'' = Some (Inr (p, r)) \<longrightarrow> header_ref_ok r"
    by (auto simp: demo_tagged_resolves header_ref_ok_def utf8_valid_ascii)
  have pack: "\<forall>cs pk. pl_pack demo_library cs = Inr pk \<longrightarrow> prefix ''PACK'' pk" by auto
  have stem: "is_valid_bundle_stem (demo_sha CHR ''a'')" by simp
  have input: "bundle_input demo_library (PeeledCommit (demo_sha CHR ''a'') [demo_sha CHR ''1'']) =
      Some (Inr ([demo_sha CHR ''a''], TreeContents, [demo_sha CHR ''1'']))"
    by (simp add: bundle_input_def collect_commit_ids_def)
  have counts: "count_input demo_library [demo_sha CHR ''a''] TreeContents [demo_sha CHR ''1''] =
      Inr [demo_sha CHR ''a'', demo_sha CHR ''1'']"
    by (simp add: count_input_def count_objects_as_is_def)
  obtain bytes where made: "create_bundle (Inr demo_tagged) demo_library (demo_sha CHR ''a'') ''v1'' = Some (Inr bytes)"
    by (simp add: create_bundle_def demo_tagged_resolves input counts write_bundle_file_def)
  obtain p r ids expand tags cs pk where b:
    "resolve_spec_to_ref demo_tagged demo_library ''v1'' = Some (Inr (p, r))"
    "bundle_input demo_library p = Some (Inr (ids, expand, tags))"
    "count_input demo_library ids expand tags = Inr cs" "pl_pack demo_library cs = Inr pk"
    "read_bundle_header demo_ext (Inr (file_reader bytes)) = Inr \<lparr>bh_version = 2, bh_prerequisites = [],
      bh_refs = [(demo_sha CHR ''a'', r)], bh_pack_offset = length bytes - length pk\<rparr>"
    "unbundle_file demo_ext (Inr (file_reader bytes)) (Inr demo_history) demo_library =
       installed (pl_install demo_library pk)"
    using created_bundles_install_their_pack [OF demo_hex_law stem made ref pack demo_library_sel(9-11)]
    by blast
  from b(1-4) have "r = ''refs/tags/v1''" "pk = ''PACK'' @ demo_sha CHR ''a'' @ demo_sha CHR ''1''"
    by (auto simp: demo_tagged_resolves input counts)
  moreover have "pl_install demo_library (''PACK'' @ demo_sha CHR ''a'' @ demo_sha CHR ''1'') = Inr ()"
    by (simp add: demo_library_def)
  ultimately show ?thesis
    using b(6) by - (intro exI conjI, rule made, rule b(5), simp_all add: installed_def)
qed

text \<open>Whatever the file holds, a header that is accepted took no more than the total cap of
  64 MiB and is followed by the \<open>PACK\<close> magic at its pack offset; every prerequisite and every
  ref it lists has a valid object id.\<close>

lemma bundle_headers_stay_within_their_caps:
  assumes "hex_canonical x" "read_bundle_header x (Inr (file_reader bytes)) = Inr h"
  shows "bh_pack_offset h \<le> MAX_HEADER_TOTAL_BYTES \<and>
    prefix ''PACK'' (drop (bh_pack_offset h) bytes) \<and>
    (\<forall>oid \<in> set (bh_prerequisites h) \<union> fst ` set (bh_refs h). is_valid_bundle_stem oid)"
proof -
  from assms(2) obtain line rd tot rd' where line: "read_header_line (file_reader bytes) 0 = Inr (line, rd, tot)"
    and entries: "header_entries x rd tot [] [] = Inr (bh_prerequisites h, bh_refs h, rd')"
    and magic: "verify_pack_magic rd' = Inr ()" and off: "bh_pack_offset h = rd_position rd'"
    by (auto simp: read_bundle_header_def Let_def split: sum.splits prod.splits if_splits)
  note got = read_header_line_Inr [OF line]
  then have tot: "tot = length line" "tot \<le> MAX_HEADER_TOTAL_BYTES"
    by (auto simp: saturating_add_def MAX_HEADER_TOTAL_BYTES_def)
  from header_entries_bound [OF entries tot(2) assms(1)] obtain hd where
    hd: "rd_bytes rd = hd @ rd_bytes rd'" "tot + length hd \<le> MAX_HEADER_TOTAL_BYTES"
      "rd_position rd' = rd_position rd + length hd"
    and valid: "\<forall>oid \<in> set (bh_prerequisites h) \<union> fst ` set (bh_refs h). is_valid_bundle_stem oid"
    by auto
  have "drop (bh_pack_offset h) bytes = rd_bytes rd'" using got hd off by simp
  moreover have "prefix ''PACK'' (rd_bytes rd')"
    using magic take_is_prefix [of 4 "rd_bytes rd'"]
    by (auto simp: verify_pack_magic_def split: if_splits option.splits)
  ultimately show ?thesis using hd got off tot valid by simp
qed

lemma bundle_headers_stay_within_their_caps_example:
  "prefix ''PACK'' (drop (length (write_bundle_header (demo_sha CHR ''a'') ''refs/tags/v1''))
     (write_bundle_header (demo_sha CHR ''a'') ''refs/tags/v1'' @ ''PACK'' @ ''data''))"
proof -
  have "hex_canonical demo_ext" by (auto simp: hex_canonical_def demo_ext_def split: if_splits)
  moreover have "header_ref_ok ''refs/tags/v1''" by (simp add: header_ref_ok_def utf8_valid_ascii)
  from read_written_header [OF demo_hex_law _ this, of "demo_sha CHR ''a''" "''data''"]
  have "read_bundle_header demo_ext (Inr (file_reader
      (write_bundle_header (demo_sha CHR ''a'') ''refs/tags/v1'' @ ''PACK'' @ ''data''))) =
    Inr \<lparr>bh_version = 2, bh_prerequisites = [], bh_refs = [(demo_sha CHR ''a'', ''refs/tags/v1'')],
         bh_pack_offset = length (write_bundle_header (demo_sha CHR ''a'') ''refs/tags/v1'')\<rparr>"
    by simp
  ultimately show ?thesis
    using bundle_headers_stay_within_their_caps by fastforce
qed

end
