(* ===== verification/Packchain_Properties.thy ===== *)
theory Packchain_Properties
  imports Packchain_Push_Proofs Bundle_Push_Properties Bundle_File_Proofs
begin

text \<open>
  The properties of the packchain engine's push, on the mock store, with the example pushes
  their witnesses run: the repository of \<open>Bundle_Push_Properties\<close> with the packing library of
  \<open>Bundle_File_Proofs\<close>.
\<close>

subsection \<open>What the manifest of a push reads back as\<close>

text \<open>
  What a push relies on of its surroundings: object ids are 40 hex digits, a pack's length
  fits its 64 bits, and the tree walks return.
\<close>

definition env_typed :: "pack_env \<Rightarrow> bool" where
  "env_typed env \<longleftrightarrow> walks_return env \<and>
     (\<forall>spec sha. resolved env spec sha \<longrightarrow> is_valid_bundle_stem sha) \<and>
     (\<forall>ids pack. pl_pack (pk_lib env) ids = Inr pack \<longrightarrow> length pack < 2 ^ 64)"

lemma prepared_manifest_typed:
  assumes "env_typed env" "prepared x pfx env spec v state"
  shows "chain_typed (push_manifest state) \<and> cm_v (push_manifest state) = CHAIN_SCHEMA_VERSION \<and>
    cm_tip (push_manifest state) = rr_local_sha state"
proof -
  from assms have sha: "is_valid_bundle_stem (rr_local_sha state)" "rr_local_sha40 state = rr_local_sha state"
    "rr_pack_bytes state < 2 ^ 64"
    by (auto simp: prepared_def env_typed_def)
  have "chain_typed c \<and> cm_v c = CHAIN_SCHEMA_VERSION" if "rr_prior state = Some c" for c
    using assms(2) that chain_at_typed by (metis prepared_def)
  with sha show ?thesis
    by (cases "rr_force state"; cases "rr_prior state")
      (auto simp: push_manifest_def next_manifest_def chain_typed_def segment_wf_def CHAIN_SCHEMA_VERSION_def)
qed

lemma committed_chain:
  assumes "prefix ''refs/'' (rr_remote_ref state)" "chains_print x" "committed x pfx state v v'"
    and "chain_typed (push_manifest state)" "cm_v (push_manifest state) = CHAIN_SCHEMA_VERSION"
  shows "chain_at x v' (chain_key pfx (rr_remote_ref state)) = Some (push_manifest state)"
proof -
  let ?k = "chain_key pfx (rr_remote_ref state)"
  from assms(3) obtain u w where w: "harmless False pfx w v'"
    "wrote ?k (chain_to_json_pretty x (push_manifest state)) u w"
    unfolding committed_def by blast
  have "v' ?k = w ?k" using w(1) chain_slot_ref [OF assms(1)] by (simp add: harmless_def)
  moreover obtain m where "w ?k = Some (chain_to_json_pretty x (push_manifest state), m)"
    using w(2) by (auto simp: wrote_def)
  ultimately show ?thesis
    using assms(2,4,5) chain_bytes_roundtrip [of x "push_manifest state"]
    by (simp add: chain_at_Some chains_print_def json_ok_def)
qed

text \<open>The chain after a push that answered \<open>ok\<close>.\<close>

definition chain_moved :: "ext \<Rightarrow> string option \<Rightarrow> pack_env \<Rightarrow> push_spec \<Rightarrow> bucket \<Rightarrow> bucket \<Rightarrow> bool" where
  "chain_moved x pfx env spec v v' \<longleftrightarrow>
     (let key = chain_key pfx (ps_remote_ref spec); prior = chain_at x v key in
      \<exists>c. chain_at x v' key = Some c \<and> resolved env (ps_local_spec spec) (cm_tip c) \<and>
        packs_present pfx v' (cm_segments c) \<and>
        (prior = Some c \<or> (\<exists>g. seg_sha g = cm_tip c \<and> c = next_manifest prior (cm_tip c) g (ps_force spec))))"

context store_contract
begin

lemma packchain_push_moves:
  assumes r: "prefix ''refs/'' (ps_remote_ref spec)" and u: "utf8_prefix pfx" "utf8_valid (ps_remote_ref spec)"
    and json: "chains_print x" and env: "env_typed env" and ok: "intact x pfx (view s)"
    and l: "ps_local_spec spec \<noteq> []"
  shows "wp (packchain_push_one x st pfx env config now tomb_now uuid spec)
    (\<lambda>out t. \<forall>r. out = PushOk r \<longrightarrow> chain_moved x pfx env spec (view s) (view t)) (\<lambda>_ _. True) s"
proof -
  let ?key = "chain_key pfx (ps_remote_ref spec)"
  from env have walks: "walks_return env" by (simp add: env_typed_def)
  have still: "chain_moved x pfx env spec (view s) v"
    if h: "harmless False pfx (view s) v" and a: "already_there x pfx env spec (view s)" for v
  proof -
    from a obtain c where c: "chain_at x (view s) ?key = Some c" "resolved env (ps_local_spec spec) (cm_tip c)"
      unfolding already_there_def by blast
    moreover have "chain_at x v ?key = Some c"
      using c(1) h chain_slot_ref [OF r] by (simp add: chain_at_def harmless_def)
    moreover have "packs_present pfx v (cm_segments c)"
      by (rule harmless_packs_present [OF h intact_chain [OF ok chain_slot_ref [OF r] c(1)]])
    ultimately show ?thesis by (auto simp: chain_moved_def Let_def)
  qed
  have went: "chain_moved x pfx env spec (view s) v"
    if p: "prepared x pfx env spec (view s) state" "harmless False pfx (view s) w"
      "w (pack_key pfx (rr_pack_sha state)) \<noteq> None" "w (pack_idx_key pfx (rr_pack_sha state)) \<noteq> None"
      "committed x pfx state w v" for state w v
  proof -
    have ref: "rr_remote_ref state = ps_remote_ref spec" using p(1) by (simp add: prepared_def)
    have packs: "ready_packs pfx w state"
      using p harmless_packs_present [OF p(2) intact_chain [OF ok chain_slot_ref [OF r]]]
      by (auto simp: ready_packs_def prepared_def)
    note typed = prepared_manifest_typed [OF env p(1)]
    have chain: "chain_at x v ?key = Some (push_manifest state)"
      using committed_chain [OF _ json p(5)] typed r by (simp add: ref)
    have "intact x pfx v" by (rule committed_intact [OF p(5) packs harmless_intact [OF p(2) ok] json])
    from intact_chain [OF this chain_slot_ref [OF r] chain]
    have "packs_present pfx v (cm_segments (push_manifest state))" .
    with chain typed p(1) show ?thesis
      unfolding chain_moved_def Let_def
      by (intro exI [of _ "push_manifest state"])
        (auto simp: prepared_def push_manifest_def intro!: disjI2 exI)
  qed
  show ?thesis
    by (rule wp_mono [OF packchain_push_chain [OF r u walks, where guarded = False]])
      (use l still went in auto)
qed

end

subsection \<open>Pushes on a quiet store\<close>

text \<open>The case in which nothing local stops a push: what was probed, built and indexed.\<close>

record pack_case =
  kk_local :: pack_local
  kk_pack :: built_pack
  kk_baseline :: "string option"
  kk_index :: "path_index option"

definition case_state :: "push_spec \<Rightarrow> chain_manifest option \<Rightarrow> pack_case \<Rightarrow> pack_ready" where
  "case_state spec prior k =
     \<lparr>rr_remote_ref = ps_remote_ref spec, rr_local_sha = pl_local_sha (kk_local k),
      rr_local_sha40 = pl_local_sha (kk_local k), rr_prior = prior,
      rr_pack_sha = bp_content_sha (kk_pack k), rr_pack_bytes = bp_bytes (kk_pack k),
      rr_force = ps_force spec, rr_local_spec = ps_local_spec spec\<rparr>"

definition pack_push_ready ::
    "ext \<Rightarrow> pack_env \<Rightarrow> push_spec \<Rightarrow> chain_manifest option \<Rightarrow> pack_case \<Rightarrow> bool" where
  "pack_push_ready x env spec prior k \<longleftrightarrow>
     ps_local_spec spec \<noteq> [] \<and> pk_tempdir env = None \<and> length (pl_local_sha (kk_local k)) = 40 \<and>
     pk_read_pack env = None \<and> pk_read_idx env = None \<and> pk_read_bundle env = None \<and>
     \<not> (\<not> ps_force spec \<and> map_option cm_tip prior = Some (pl_local_sha (kk_local k))) \<and>
     (\<exists>tip. (case prior of None \<Rightarrow> tip = None | Some c \<Rightarrow> \<exists>h. sha_from_hex x (cm_tip c) = Inr h \<and> tip = Some h) \<and>
        local_git_work_packchain env (ps_local_spec spec) tip (ps_force spec) = Inr (Inr (kk_local k))) \<and>
     build_pack_and_baseline env (pl_local_sha (kk_local k)) (pl_peeled (kk_local k))
       (case (ps_force spec, pl_prior_commit (kk_local k)) of
          (False, Some prior_commit) \<Rightarrow> IncrementalPack prior_commit | _ \<Rightarrow> BaselinePack)
       (ps_local_spec spec) = Inr (kk_pack k, kk_baseline k) \<and>
     extract_under_lock env (pl_local_sha (kk_local k)) = Inr (kk_index k)"

definition chain_readable :: "ext \<Rightarrow> bucket \<Rightarrow> string \<Rightarrow> bool" where
  "chain_readable x v key \<longleftrightarrow> (v key = None \<or> chain_at x v key \<noteq> None)"

lemma chain_readableD: "chain_readable x v key \<Longrightarrow> v key = Some (b, m) \<Longrightarrow> \<exists>c. chain_from_json_bytes x b = Inr c"
  by (auto simp: chain_readable_def chain_at_Some)

lemma ref_key_not_pack_key [simp]:
  "chain_key q r' \<noteq> lock_key pfx r" "lock_key pfx r \<noteq> pack_key q sha" "lock_key pfx r \<noteq> pack_idx_key q sha"
  "protected_marker_key pfx r \<noteq> pack_key q sha" "protected_marker_key pfx r \<noteq> pack_idx_key q sha"
  "protected_marker_key pfx r \<noteq> bundle_key q r' sha"
  by (auto simp: builder_base ref_key_defs dest!: arg_cong [of _ _ "\<lambda>s. take 4 (rev s)"])

lemma and_then_of_Inr [simp]: "and_then (of_result (Inr a)) f = f a"
  by (simp add: fun_eq_iff io_apply)

context calm_store
begin

lemma calm_load_readable:
  assumes "calm s" "chain_readable x (view s) (chain_key pfx r)"
    and "\<And>t. calm t \<Longrightarrow> view t = view s \<Longrightarrow> Q (chain_at x (view s) (chain_key pfx r)) t"
  shows "wp (load_chain x st pfx r) Q E s"
  by (rule calm_load_chain [OF assms(1)]) (use assms(2,3) chain_readableD in fastforce)+

lemma calm_upload_packs:
  assumes c: "calm s" and env: "pk_read_pack env = None" "pk_read_idx env = None" "pk_read_bundle env = None"
    and post: "\<And>t. calm t \<Longrightarrow> frame view {pack_key pfx (bp_content_sha pack), pack_idx_key pfx (bp_content_sha pack),
        bundle_key pfx r sha} s t \<Longrightarrow> view t (pack_key pfx (bp_content_sha pack)) \<noteq> None \<Longrightarrow>
        view t (pack_idx_key pfx (bp_content_sha pack)) \<noteq> None \<Longrightarrow> Q () t"
  shows "wp (upload_pack_idx_baseline st pfx env r sha pack b) Q E s"
  unfolding upload_pack_idx_baseline_def file_source_def env option.case
proof (rule wp_and_then, rule wp_map_err, rule calm_wp_put_path [OF c], rule wp_and_then, rule wp_map_err,
    rule calm_wp_put_path, assumption, goal_cases)
  case (1 t u)
  show ?case
  proof (cases b)
    case None
    with 1 show ?thesis by (auto intro!: wp_ok post simp: frame_def wrote_def)
  next
    case (Some body)
    with 1 show ?thesis by (auto intro!: wp_map_err calm_wp_put_path post simp: frame_def wrote_def)
  qed
qed

text \<open>Before the lock: the pack, its index and the baseline are stored, nothing else changes.\<close>

lemma calm_packchain_prepare:
  fixes x :: ext
  assumes c: "calm s" and read: "chain_readable x (view s) (chain_key pfx (ps_remote_ref spec))"
  defines "prior \<equiv> chain_at x (view s) (chain_key pfx (ps_remote_ref spec))"
  assumes k: "pack_push_ready x env spec prior k"
    and post: "\<And>t. calm t \<Longrightarrow> frame view {pack_key pfx (bp_content_sha (kk_pack k)),
        pack_idx_key pfx (bp_content_sha (kk_pack k)),
        bundle_key pfx (ps_remote_ref spec) (pl_local_sha (kk_local k))} s t \<Longrightarrow>
      view t (pack_key pfx (bp_content_sha (kk_pack k))) \<noteq> None \<Longrightarrow>
      view t (pack_idx_key pfx (bp_content_sha (kk_pack k))) \<noteq> None \<Longrightarrow>
      Q (PackReady (case_state spec prior k)) t"
  shows "wp (packchain_prepare_push x st pfx env config now tomb_now uuid spec) Q E s"
proof -
  from k obtain tip where tip: "case prior of None \<Rightarrow> tip = None | Some c \<Rightarrow> \<exists>h. sha_from_hex x (cm_tip c) = Inr h \<and> tip = Some h"
    and work: "local_git_work_packchain env (ps_local_spec spec) tip (ps_force spec) = Inr (Inr (kk_local k))"
    unfolding pack_push_ready_def by blast
  have prior_tip: "(case prior of None \<Rightarrow> Inr None
      | Some c \<Rightarrow> bind_result (map_error PushSha (map_error (sha_error_display (pk_decode_text env)) (sha_from_hex x (cm_tip c))))
          (\<lambda>sha. Inr (Some sha))) = Inr tip"
    using tip by (auto split: option.splits)
  note k' = k [unfolded pack_push_ready_def]
  have upload: "wp (and_then (upload_pack_idx_baseline st pfx env (ps_remote_ref spec) (pl_local_sha (kk_local k))
      (kk_pack k) (kk_baseline k)) (\<lambda>_. ok (PackReady state))) Q E t"
    if "calm t" "view t = view s" "state = case_state spec prior k" for t state
    by (rule wp_and_then, rule calm_upload_packs) (use k' that in \<open>auto intro!: wp_ok post simp: frame_def\<close>)
  show ?thesis
    unfolding packchain_prepare_push_def Let_def
  proof (simp only: k' if_False, rule wp_and_then, rule wp_map_err, rule calm_load_readable [OF c read], goal_cases)
    case (1 t)
    show ?case
    proof (cases prior)
      case None
      with k' tip work 1 show ?thesis
        by (auto simp: prior_def [symmetric] case_state_def sha40_from_oid_def intro!: upload)
    next
      case (Some c)
      with tip obtain h where "sha_from_hex x (cm_tip c) = Inr h" "tip = Some h" by auto
      with Some k' work 1 show ?thesis
        by (auto simp: prior_def [symmetric] case_state_def sha40_from_oid_def intro!: upload)
    qed
  qed
qed

text \<open>Under the lock, with the chain as it was.\<close>

lemma calm_packchain_perform:
  fixes x :: ext
  assumes c: "calm s" and read: "chain_readable x (view s) (chain_key pfx (ps_remote_ref spec))"
  defines "prior \<equiv> chain_at x (view s) (chain_key pfx (ps_remote_ref spec))"
  assumes k: "extract_under_lock env (pl_local_sha (kk_local k)) = Inr (kk_index k)"
    and free: "\<not> ps_force spec \<or> view s (protected_marker_key pfx (ps_remote_ref spec)) = None"
    and post: "\<And>t. calm t \<Longrightarrow> Q (PushOk (ps_remote_ref spec)) t"
  shows "wp (packchain_perform_push_under_lock x st pfx env engine (case_state spec prior k) tomb_now uuid) Q E s"
proof -
  have put: "wp (st_put_if_absent st key b) (\<lambda>_. calm) E' t" if "calm t" for key b t E'
    by (rule calm_wp_put_if_absent [OF that])
  have index: "wp (case kk_index k of
       Some idx \<Rightarrow> map_err PushPackchain (write_path_index x st pfx (ps_remote_ref spec) idx)
     | None \<Rightarrow> map_err PushStore (delete_idempotent st (path_index_key pfx (ps_remote_ref spec)))) (\<lambda>_. calm) E t"
    if "calm t" for t
    unfolding write_path_index_def
    by (intro wp_option wp_map_err calm_delete_idempotent calm_wp_put_bytes that)
  have cleanup: "wp (if ps_force spec
       then force_push_baseline_cleanup x st pfx (ps_remote_ref spec) prior (pl_local_sha (kk_local k)) tomb_now uuid
       else ok ()) (\<lambda>_. calm) E t" if "calm t" for t
    unfolding force_push_baseline_cleanup_def write_baseline_tombstone_best_effort_def
      write_baseline_tombstone_def write_baseline_tombstone_unconditional_def Let_def
    using that by (auto intro!: wp_if wp_option wp_ok wp_and_then wp_match wp_of_result wp_map_err calm_wp_put_bytes)
  have commit: "wp (packchain_commit x st pfx engine (case_state spec prior k) (kk_index k) tomb_now uuid) Q E t"
    if "calm t" for t
    unfolding packchain_commit_def Let_def case_state_def pack_ready.simps
    by (rule wp_and_then, rule wp_map_err, rule wp_mono [OF put [OF that]],
        rule wp_and_then, rule wp_map_err, rule wp_mono [OF put], assumption,
        rule wp_and_then, rule wp_map_err, rule calm_write_chain, assumption,
        rule wp_and_then, rule wp_mono [OF index], assumption,
        rule wp_and_then, rule wp_mono [OF cleanup], assumption)
      (auto intro!: wp_ok post)
  have rewind: "wp (protected_rewind x st pfx env (case_state spec prior k) prior)
      (\<lambda>b t. \<not> b \<and> calm t) E t" if "calm t" "view t = view s" for t
    unfolding protected_rewind_def case_state_def pack_ready.simps
    using free that by (auto intro!: wp_if wp_ok wp_and_then wp_map_err calm_is_protected)
  show ?thesis
    unfolding packchain_perform_push_under_lock_def Let_def
  proof (rule wp_and_then, rule wp_map_err, simp only: case_state_def pack_ready.simps,
      rule calm_load_readable [OF c read], goal_cases)
    case (1 t)
    show ?case
      unfolding case_state_def [symmetric] prior_def [symmetric]
      by (rule wp_and_then, rule wp_mono [OF rewind [OF 1]])
        (auto simp: k case_state_def intro!: commit [unfolded case_state_def])
  qed
qed

text \<open>A prepared push, on a quiet store, whose chain is readable and whose lock is free, succeeds.\<close>

lemma calm_packchain_push:
  fixes x :: ext
  assumes c: "calm s" and read: "chain_readable x (view s) (chain_key pfx (ps_remote_ref spec))"
    and k: "pack_push_ready x env spec (chain_at x (view s) (chain_key pfx (ps_remote_ref spec))) k"
    and free: "\<not> lock_live (view s) (lock_key pfx (ps_remote_ref spec)) (kc_ttl config) now"
    and open_ref: "\<not> ps_force spec \<or> view s (protected_marker_key pfx (ps_remote_ref spec)) = None"
  shows "wp (packchain_push_one x st pfx env config now tomb_now uuid spec)
    (\<lambda>out _. out = PushOk (ps_remote_ref spec)) (\<lambda>_ _. False) s"
  unfolding packchain_push_one_def
proof (rule wp_and_then, rule calm_packchain_prepare [OF c read k], goal_cases)
  case (1 t)
  let ?r = "ps_remote_ref spec" and ?K = "{pack_key pfx (bp_content_sha (kk_pack k)),
    pack_idx_key pfx (bp_content_sha (kk_pack k)), bundle_key pfx (ps_remote_ref spec) (pl_local_sha (kk_local k))}"
  have same: "view t (chain_key pfx ?r) = view s (chain_key pfx ?r)"
    "view t (lock_key pfx ?r) = view s (lock_key pfx ?r)"
    "view t (protected_marker_key pfx ?r) = view s (protected_marker_key pfx ?r)"
    using 1(2) by (auto simp: frame_def)
  have live: "\<not> lock_live (view t) (lock_key pfx ?r) (kc_ttl config) now"
    using free same(2) by (simp add: lock_live_def)
  show ?case
    unfolding pack_prepare_outcome.case Let_def
  proof (simp only: case_state_def pack_ready.simps, rule wp_and_then, rule wp_map_err,
      rule calm_acquire_lock [OF 1(1)], goal_cases)
    case (1 m w)
    have w: "view w (chain_key pfx ?r) = view s (chain_key pfx ?r)"
      "view w (protected_marker_key pfx ?r) = view s (protected_marker_key pfx ?r)"
      using 1(3) same by simp_all
    then have "chain_at x (view w) (chain_key pfx ?r) = chain_at x (view s) (chain_key pfx ?r)"
      "chain_readable x (view w) (chain_key pfx ?r)"
      using read by (simp_all add: chain_at_def chain_readable_def)
    note work = calm_packchain_perform [of w x pfx spec env k, OF 1(1) this(2), unfolded this(1)]
    show ?case
      unfolding option.case
      by (rule calm_release_around [where P = "\<lambda>out _. out = PushOk ?r"], rule wp_mono,
          rule work [unfolded case_state_def])
        (use k open_ref w in \<open>auto simp: pack_push_ready_def\<close>)
  qed (use live in simp)
qed

end

subsection \<open>Examples\<close>

definition demo_io :: build_io where
  "demo_io = \<lparr>bi_open = None, bi_tmp = None, bi_sync = None, bi_trailer = None, bi_persist = None,
     bi_scratch = None, bi_rename = None\<rparr>"

text \<open>Every commit has the empty tree, and packs are short.\<close>

definition demo_packer :: pack_library where
  "demo_packer = demo_library\<lparr>pl_trees := \<lparr>td_tree = \<lambda>_. Inr [], td_commit_tree = \<lambda>_. Inr (demo_sha CHR ''1'')\<rparr>,
     pl_pack := \<lambda>ids. if length (concat ids) < 1000 then Inr (''PACK'' @ concat ids) else Inl ''too long''\<rparr>"

lemma demo_packer_sel [simp]:
  "pl_rev_walk demo_packer c h = Inr [Inr c]" "pl_count demo_packer ids e = Inr ids"
  "pl_pack demo_packer ids = (if length (concat ids) < 1000 then Inr (''PACK'' @ concat ids) else Inl ''too long'')"
  "pl_index demo_packer p = Inr (Some p)"
  "td_tree (pl_trees demo_packer) t = Inr []" "td_commit_tree (pl_trees demo_packer) c = Inr (demo_sha CHR ''1'')"
  "pl_follow_ref demo_packer = pl_follow_ref demo_library"
  "pl_folder_io demo_packer = None" "pl_temp_io demo_packer = None" "pl_persist_io demo_packer = None"
  by (simp_all add: demo_packer_def)

definition demo_pack_env :: pack_env where
  "demo_pack_env = \<lparr>pk_repo = Inr demo_repo, pk_repo_locked = Inr demo_repo, pk_repo_index = Inr demo_repo,
     pk_repo_bundle = Inr demo_repo, pk_shallow = Inr None, pk_lib = demo_packer, pk_build = demo_io,
     pk_tempdir = None, pk_read_pack = None, pk_read_idx = None, pk_read_bundle = None, pk_decode_text = []\<rparr>"

definition demo_pack_config :: packchain_config where
  "demo_pack_config = \<lparr>kc_engine = PackchainEngine, kc_ttl = 60\<rparr>"

lemma demo_pack_env_sel [simp]:
  "pk_repo demo_pack_env = Inr demo_repo" "pk_repo_locked demo_pack_env = Inr demo_repo"
  "pk_repo_index demo_pack_env = Inr demo_repo" "pk_repo_bundle demo_pack_env = Inr demo_repo"
  "pk_shallow demo_pack_env = Inr None" "pk_lib demo_pack_env = demo_packer" "pk_build demo_pack_env = demo_io"
  "pk_tempdir demo_pack_env = None" "pk_read_pack demo_pack_env = None" "pk_read_idx demo_pack_env = None"
  "pk_read_bundle demo_pack_env = None"
  by (simp_all add: demo_pack_env_def)

lemma demo_peel_tags [simp]: "peel_tag_chain demo_repo sha = Some (Inr (PeeledCommit sha []))"
  by (simp add: peel_tag_chain_def peel_loop.simps [of demo_repo]) (simp add: demo_repo_def)

lemma demo_peel [simp]: "peel demo_repo sha = Inr (PeeledCommit sha [])"
  by (simp add: peel_def)

text \<open>The name of the pack of \<open>c\<close>: the hex digits of the last bytes of its one object id.\<close>

definition demo_pack_sha :: "char \<Rightarrow> string" where
  "demo_pack_sha c = hex_of_bytes (replicate 20 c)"

lemma demo_pack_sha_valid [simp]: "is_valid_bundle_stem (demo_pack_sha c)"
  by (simp add: is_valid_bundle_stem_def demo_pack_sha_def hex_of_bytes_lower)

definition demo_pack :: "char \<Rightarrow> built_pack" where
  "demo_pack c = \<lparr>bp_pack = ''PACK'' @ demo_sha c, bp_idx = ''PACK'' @ demo_sha c,
     bp_content_sha = demo_pack_sha c, bp_bytes = 44\<rparr>"

lemma demo_baseline_pack:
  "build_baseline_pack demo_packer demo_io (PeeledCommit (demo_sha c) []) = Some (Inr (demo_pack c))"
proof -
  have drop: "drop 24 (''PACK'' @ demo_sha c) = replicate 20 c" by (simp add: demo_sha_def)
  show ?thesis
    using drop
    by (simp add: build_baseline_pack_def open_repo_def demo_io_def collect_commits_baseline_def collect_commits_def
        build_pack_def count_objects_as_is_def io_step_def PACK_MIN_LEN_def PACK_HEADER_LEN_def PACK_TRAILER_LEN_def
        derive_idx_def demo_pack_def demo_pack_sha_def sha40_from_oid_def bind_result_def map_error_def demo_sha_def)
qed

lemma demo_walks_return: "walks_return demo_pack_env"
proof -
  have "enumerate_tree_closure (pl_trees demo_packer) tree = Some (Inr [tree])" for tree
    by (simp add: enumerate_tree_closure_def closure_loop.simps [of "pl_trees demo_packer"] closure_visit_def)
  then show ?thesis by (simp add: walks_return_def)
qed

lemma demo_resolved: "resolved demo_pack_env spec sha \<Longrightarrow> sha = demo_sha CHR ''a'' \<or> sha = demo_sha CHR ''b''"
  by (auto simp: resolved_def resolve_def demo_repo_def split: if_splits)

lemma demo_env_typed: "env_typed demo_pack_env"
  unfolding env_typed_def
  using demo_walks_return by (auto dest!: demo_resolved split: if_splits)

lemma demo_chains_print: "chains_print demo_ext"
  by (simp add: chains_print_def json_ok_def)

lemma demo_bundle_made:
  "\<exists>bytes. create_bundle (Inr demo_repo) demo_packer (demo_sha c) ''main'' = Some (Inr bytes)"
proof -
  have "rp_rev_parse demo_repo ''main'' = Inr (demo_sha CHR ''a'')" "pl_follow_ref demo_library ''main'' = Some ''refs/tags/v1''"
    by (simp_all add: demo_repo_def demo_library_def)
  then have "resolve_spec_to_ref demo_repo demo_packer ''main'' = Some (Inr (PeeledCommit (demo_sha CHR ''a'') [], ''refs/tags/v1''))"
    by (simp add: resolve_spec_to_ref_def utf8_valid_ascii)
  then show ?thesis
    by (simp add: create_bundle_def bundle_input_def count_objects_as_is_def collect_commit_ids_def
        count_input_def write_bundle_file_def demo_sha_def)
qed

text \<open>Pushing \<open>main\<close>, by force: the whole history is packed again.\<close>

definition demo_pack_case :: pack_case where
  "demo_pack_case = \<lparr>kk_local = \<lparr>pl_local_sha = demo_sha CHR ''a'', pl_peeled = PeeledCommit (demo_sha CHR ''a'') [],
       pl_prior_commit = None\<rparr>,
     kk_pack = demo_pack CHR ''a'',
     kk_baseline = Some (projr (the (create_bundle (Inr demo_repo) demo_packer (demo_sha CHR ''a'') ''main''))),
     kk_index = Some \<lparr>px_v = PATH_INDEX_SCHEMA_VERSION, px_tip = demo_sha CHR ''a'', px_tree = []\<rparr>\<rparr>"

lemma demo_pack_ready:
  assumes "case prior of None \<Rightarrow> True | Some c \<Rightarrow> cm_tip c = demo_sha CHR ''b''"
  shows "pack_push_ready demo_ext demo_pack_env (demo_push True ''main'') prior demo_pack_case"
proof -
  have hex: "sha_from_hex demo_ext (demo_sha CHR ''b'') = Inr (demo_sha CHR ''b'')"
    by (simp add: sha_from_hex_def demo_ext_def demo_sha_def [of "CHR ''b''"] is_valid_bundle_stem_def list_all_iff)
  have work: "local_git_work_packchain demo_pack_env ''main'' tip True = Inr (Inr (kk_local demo_pack_case))"
    if "tip = None \<or> tip = Some (demo_sha CHR ''b'')" for tip
  proof -
    have "resolve demo_repo ''main'' = Inr (demo_sha CHR ''a'')"
      "is_ancestor demo_repo (demo_sha CHR ''b'') (demo_sha CHR ''a'') = Inr True"
      by (simp_all add: resolve_def is_ancestor_def demo_repo_def)
    with that show ?thesis
      by (auto simp: local_git_work_packchain_def probe_prior_def demo_pack_case_def Let_def
          rev_walk_crosses_shallow_boundary_def)
  qed
  obtain bytes where "create_bundle (Inr demo_repo) demo_packer (demo_sha CHR ''a'') ''main'' = Some (Inr bytes)"
    using demo_bundle_made by blast
  then have build: "build_pack_and_baseline demo_pack_env (demo_sha CHR ''a'') (PeeledCommit (demo_sha CHR ''a'') [])
      BaselinePack ''main'' = Inr (kk_pack demo_pack_case, kk_baseline demo_pack_case)"
    by (simp add: build_pack_and_baseline_def demo_baseline_pack demo_pack_case_def)
  have index: "extract_under_lock demo_pack_env (demo_sha CHR ''a'') = Inr (kk_index demo_pack_case)"
    by (simp add: extract_under_lock_def extract_path_index_def walk_tree_def open_tree_def
        walk_entries.simps [of "pl_trees demo_packer"] demo_pack_case_def sha40_from_oid_def demo_sha_def)
  have "pl_local_sha (kk_local demo_pack_case) = demo_sha CHR ''a''" "pl_prior_commit (kk_local demo_pack_case) = None"
    "pl_peeled (kk_local demo_pack_case) = PeeledCommit (demo_sha CHR ''a'') []"
    by (simp_all add: demo_pack_case_def)
  note case_facts = this build index
  have len: "length (demo_sha CHR ''a'') = 40" by (simp add: demo_sha_def)
  show ?thesis
  proof (cases prior)
    case None
    with case_facts len work [of None] show ?thesis by (simp add: pack_push_ready_def)
  next
    case (Some c)
    with assms case_facts len hex work [of "Some (demo_sha CHR ''b'')"] show ?thesis
      by (simp add: pack_push_ready_def)
  qed
qed

subsection \<open>Properties\<close>

text \<open>C5. Whatever faults the store throws, the answer \<open>ok\<close> to a push is true: the ref's chain
  reads back with the pushed commit as its tip, every pack it references is on the bucket with
  its index, and it either already was there or is the old chain extended (replaced, when
  forced) by the segment of the push.\<close>

theorem ok_push_moves_the_chain:
  assumes "prefix ''refs/'' (ps_remote_ref spec)" "utf8_prefix pfx" "utf8_valid (ps_remote_ref spec)"
    and "chains_print x" "env_typed env" "intact x pfx (mock_view s)" "ps_local_spec spec \<noteq> []"
    and "packchain_push_one x mock_store pfx env config now tomb_now uuid spec s = (Inr (PushOk r), t)"
  shows "chain_moved x pfx env spec (mock_view s) (mock_view t)"
  using mock.packchain_push_moves [OF assms(1-7), THEN wp_ok_resultD, OF assms(8)] by blast

lemma intact_no_chains:
  assumes "\<And>k. chain_slot (prefix_str pfx) k \<Longrightarrow> v k = None"
  shows "intact x pfx v"
  using assms by (auto simp: intact_def referenced_def chain_at_def)

theorem ok_push_moves_the_chain_witness:
  "\<exists>t c. packchain_push_one demo_ext mock_store (Some ''repo'') demo_pack_env demo_pack_config 9 9 ''u''
       (demo_push True ''main'') (empty_mock 0) = (Inr (PushOk demo_main), t) \<and>
     chain_at demo_ext (mock_view t) (chain_key (Some ''repo'') demo_main) = Some c \<and> cm_tip c = demo_sha CHR ''a''"
proof -
  have "\<exists>out t. packchain_push_one demo_ext mock_store (Some ''repo'') demo_pack_env demo_pack_config 9 9 ''u''
       (demo_push True ''main'') (empty_mock 0) = (Inr out, t) \<and> out = PushOk (ps_remote_ref (demo_push True ''main''))"
    by (intro wp_totalD calm_mock.calm_packchain_push [where k = demo_pack_case])
      (auto simp: chain_readable_def lock_live_def chain_at_def intro: demo_pack_ready)
  then obtain t where run: "packchain_push_one demo_ext mock_store (Some ''repo'') demo_pack_env demo_pack_config 9 9 ''u''
       (demo_push True ''main'') (empty_mock 0) = (Inr (PushOk demo_main), t)" by auto
  have "intact demo_ext (Some ''repo'') (mock_view (empty_mock 0))" by (rule intact_no_chains) simp
  from ok_push_moves_the_chain [OF _ _ _ demo_chains_print demo_env_typed this _ run]
  have "chain_moved demo_ext (Some ''repo'') demo_pack_env (demo_push True ''main'') (mock_view (empty_mock 0)) (mock_view t)"
    by simp
  moreover have "sha = demo_sha CHR ''a''" if "resolved demo_pack_env ''main'' sha" for sha
    using that by (simp add: resolved_def resolve_def) (simp add: demo_repo_def)
  ultimately show ?thesis using run by (auto simp: chain_moved_def Let_def)
qed


text \<open>A chain of one segment whose pack is named after the commit.\<close>

definition one_segment_chain :: "char \<Rightarrow> chain_manifest" where
  "one_segment_chain c = \<lparr>cm_v = 1, cm_tip = demo_sha c, cm_full_at = demo_sha c,
     cm_segments = [\<lparr>seg_sha = demo_sha c, seg_parent_sha = None,
       seg_pack = pack_key None (demo_pack_sha c), seg_bytes = 44\<rparr>]\<rparr>"

lemma one_segment_chain_sel [simp]: "cm_tip (one_segment_chain c) = demo_sha c"
  by (simp add: one_segment_chain_def)

lemma one_segment_chain_parses:
  "is_lower_hex c \<Longrightarrow> chain_from_json_bytes demo_ext (json_print demo_ext (json_of_chain (one_segment_chain c))) =
     Inr (one_segment_chain c)"
  using chain_bytes_roundtrip [of demo_ext "one_segment_chain c"]
  by (simp add: chain_to_json_pretty_def one_segment_chain_def chain_typed_def segment_wf_def CHAIN_SCHEMA_VERSION_def)

abbreviation demo_chain_object :: "char \<Rightarrow> string \<times> string \<times> int" where
  "demo_chain_object c \<equiv>
     (chain_key (Some ''repo'') demo_main, json_print demo_ext (json_of_chain (one_segment_chain c)), 1)"

definition protected_chain_world :: mock_state where
  "protected_chain_world = demo_bucket
     [demo_chain_object CHR ''d'', (protected_marker_key (Some ''repo'') demo_main, [], 1)]"


end
