(* ===== verification/Sweep_Race.thy ===== *)
theory Sweep_Race
  imports Packchain_Properties
begin

text \<open>
  A push interleaved with the collector. A push uploads its pack before it takes the lock; the
  collector takes no lock. When the pack is one that an old tombstone names, a sweep that runs
  in between finds the pack unreferenced and past its window, deletes it, and the push then
  writes a chain that references it.
\<close>

subsection \<open>The bucket\<close>

text \<open>
  \<open>main\<close> has been moved by force from \<open>a\<close> to \<open>b\<close> a long time ago, and a collector has recorded
  the pack of \<open>a\<close> since.
\<close>

definition revert_tombstone :: tombstone where
  "revert_tombstone = \<lparr>tb_v = 1, tb_run_id = ''run'', tb_marked_at = show_nat 0,
     tb_orphan_packs = [demo_pack_sha CHR ''a'']\<rparr>"

definition revert_world :: mock_state where
  "revert_world = demo_bucket
     [demo_chain_object CHR ''b'',
      (pack_key (Some ''repo'') (demo_pack_sha CHR ''b''), ''PACK b'', 1),
      (pack_idx_key (Some ''repo'') (demo_pack_sha CHR ''b''), ''IDX b'', 1),
      (pack_key (Some ''repo'') (demo_pack_sha CHR ''a''), ''PACK a'', 1),
      (pack_idx_key (Some ''repo'') (demo_pack_sha CHR ''a''), ''IDX a'', 1),
      (demo_tombstone_key, json_print demo_ext (json_of_tombstone revert_tombstone), 1)]"

abbreviation revert_chain :: string where
  "revert_chain \<equiv> chain_key (Some ''repo'') demo_main"

lemma demo_pack_sha_differ [simp]: "demo_pack_sha CHR ''a'' \<noteq> demo_pack_sha CHR ''b''"
  "demo_pack_sha CHR ''b'' \<noteq> demo_pack_sha CHR ''a''"
proof -
  have "hd (tl (demo_pack_sha CHR ''a'')) \<noteq> hd (tl (demo_pack_sha CHR ''b''))"
    unfolding demo_pack_sha_def by code_simp
  then show "demo_pack_sha CHR ''a'' \<noteq> demo_pack_sha CHR ''b''"
    "demo_pack_sha CHR ''b'' \<noteq> demo_pack_sha CHR ''a''" by metis+
qed

lemma revert_tombstone_parses:
  "tombstone_from_json_bytes demo_ext (json_print demo_ext (json_of_tombstone revert_tombstone)) = Inr revert_tombstone"
  by (simp add: tombstone_from_json_bytes_def tombstone_json_roundtrip revert_tombstone_def
      check_tombstone_schema_version_def TOMBSTONE_SCHEMA_VERSION_def)

lemma revert_world_simps [simp]:
  "mock_view revert_world revert_chain = Some (json_print demo_ext (json_of_chain (one_segment_chain CHR ''b'')), 1)"
  "mock_view revert_world (pack_key (Some ''repo'') (demo_pack_sha CHR ''b'')) = Some (''PACK b'', 1)"
  "mock_view revert_world (pack_idx_key (Some ''repo'') (demo_pack_sha CHR ''b'')) = Some (''IDX b'', 1)"
  "mock_view revert_world demo_tombstone_key = Some (json_print demo_ext (json_of_tombstone revert_tombstone), 1)"
  "mock_calm revert_world"
  by (simp_all add: revert_world_def)

lemma not_slot_demo_tombstone [simp]: "\<not> chain_slot ''repo'' demo_tombstone_key"
  by (simp add: chain_slot_def demo_tombstone_key_def tombstone_key_def join_base prefix_def)

lemma not_slot_pack [simp]: "\<not> chain_slot p (pack_key q sha)" "\<not> chain_slot p (pack_idx_key q sha)"
  "\<not> chain_slot p (bundle_key q r sha)"
  by (simp_all add: not_slot_json)

lemma revert_world_lacks:
  "lock_key pfx r \<noteq> demo_tombstone_key" "protected_marker_key pfx r \<noteq> demo_tombstone_key"
  "mock_view revert_world (lock_key pfx r) = None" "mock_view revert_world (protected_marker_key pfx r) = None"
proof -
  have last: "last (lock_key pfx r) = CHR ''k''" "last (protected_marker_key pfx r) = CHR ''#''"
    "last demo_tombstone_key = CHR ''n''" "last revert_chain = CHR ''n''"
    by (simp_all add: builder_base ref_key_defs demo_tombstone_key_def tombstone_key_def join_base)
  then have keys: "lock_key pfx r \<noteq> demo_tombstone_key" "protected_marker_key pfx r \<noteq> demo_tombstone_key"
    "lock_key pfx r \<noteq> revert_chain" "protected_marker_key pfx r \<noteq> revert_chain" by force+
  then show "lock_key pfx r \<noteq> demo_tombstone_key" "protected_marker_key pfx r \<noteq> demo_tombstone_key" by simp_all
  have "k \<notin> fst ` set [demo_chain_object CHR ''b'',
      (pack_key (Some ''repo'') (demo_pack_sha CHR ''b''), ''PACK b'', 1),
      (pack_idx_key (Some ''repo'') (demo_pack_sha CHR ''b''), ''IDX b'', 1),
      (pack_key (Some ''repo'') (demo_pack_sha CHR ''a''), ''PACK a'', 1),
      (pack_idx_key (Some ''repo'') (demo_pack_sha CHR ''a''), ''IDX a'', 1),
      (demo_tombstone_key, json_print demo_ext (json_of_tombstone revert_tombstone), 1)]"
    if "k = lock_key pfx r \<or> k = protected_marker_key pfx r" for k
    using that keys by auto
  then show "mock_view revert_world (lock_key pfx r) = None" "mock_view revert_world (protected_marker_key pfx r) = None"
    unfolding revert_world_def using demo_bucket_dom by blast+
qed

text \<open>A bucket whose only chain is that of \<open>main\<close>.\<close>

lemma referenced_one_chain:
  assumes "chain_slot pfx key" "chain_at x v key = Some c" "\<And>k. chain_slot pfx k \<Longrightarrow> v k \<noteq> None \<Longrightarrow> k = key"
  shows "referenced x pfx v sha \<longleftrightarrow> (\<exists>g \<in> set (cm_segments c). sha_from_pack_key (seg_pack g) = Some sha)"
proof -
  have "k = key \<and> d = c" if "chain_slot pfx k" "chain_at x v k = Some d" for k d
    using assms(2) assms(3) [OF that(1)] that(2) by (force simp: chain_at_Some)
  with assms(1,2) show ?thesis unfolding referenced_def by blast
qed

lemma revert_slots: "chain_slot ''repo'' k \<Longrightarrow> mock_view revert_world k \<noteq> None \<Longrightarrow> k = revert_chain"
  unfolding revert_world_def demo_bucket_dom by auto

lemma revert_slot [simp]: "chain_slot ''repo'' revert_chain"
  using chain_slot_ref [of demo_main "Some ''repo''"] by simp

lemma revert_chain_at [simp]:
  "chain_at demo_ext (mock_view revert_world) revert_chain = Some (one_segment_chain CHR ''b'')"
  by (simp add: chain_at_Some one_segment_chain_parses)

lemma one_segment_packs [simp]:
  "(\<exists>g \<in> set (cm_segments (one_segment_chain c)). sha_from_pack_key (seg_pack g) = Some sha) \<longleftrightarrow> sha = demo_pack_sha c"
  by (auto simp: one_segment_chain_def sha_from_pack_key_pack_key)

lemma revert_intact: "intact demo_ext (Some ''repo'') (mock_view revert_world)"
  using referenced_one_chain [OF revert_slot revert_chain_at revert_slots] by (simp add: intact_def)

subsection \<open>The run\<close>

definition race_opts :: sweep_opts where
  "race_opts = \<lparr>sw_grace_hours = DEFAULT_GRACE_HOURS, sw_force = False\<rparr>"

text \<open>A hundred hours later.\<close>

definition race_time :: int where
  "race_time = 100 * 3600 * 10 ^ 9"

lemma race_due: "within_grace demo_ext race_opts (show_nat 0) ''tombstone'' race_time = Inr False"
  by (simp add: within_grace_def check_grace_window_def race_opts_def DEFAULT_GRACE_HOURS_def whole_hours_def race_time_def
      demo_time(2) [of 0, simplified])

text \<open>The bucket while the sweep runs: the pack of \<open>a\<close> has been uploaded again.\<close>

abbreviation race_keys :: "string set" where
  "race_keys \<equiv> {pack_key (Some ''repo'') (demo_pack_sha CHR ''a''), pack_idx_key (Some ''repo'') (demo_pack_sha CHR ''a''),
     bundle_key (Some ''repo'') demo_main (demo_sha CHR ''a'')}"

lemma race_slots:
  assumes "frame mock_view race_keys revert_world s" "chain_slot ''repo'' k"
  shows "mock_view s k = mock_view revert_world k"
proof -
  have "k \<notin> race_keys" using assms(2) by auto
  with assms(1) show ?thesis by (simp add: frame_def)
qed

lemma race_chain_at:
  "frame mock_view race_keys revert_world s \<Longrightarrow>
   chain_at demo_ext (mock_view s) revert_chain = Some (one_segment_chain CHR ''b'')"
  using race_slots [OF _ revert_slot] revert_chain_at by (simp add: chain_at_def)

lemma race_only_chain:
  "frame mock_view race_keys revert_world s \<Longrightarrow> chain_slot ''repo'' k \<Longrightarrow> mock_view s k \<noteq> None \<Longrightarrow> k = revert_chain"
  using race_slots revert_slots by simp

lemma race_referenced:
  "frame mock_view race_keys revert_world s \<Longrightarrow>
   referenced demo_ext ''repo'' (mock_view s) sha \<longleftrightarrow> sha = demo_pack_sha CHR ''b''"
  using referenced_one_chain [OF revert_slot race_chain_at race_only_chain] by simp

lemma race_readable:
  assumes "frame mock_view race_keys revert_world s"
  shows "readable demo_ext ''repo'' (mock_view s)"
proof -
  have "sha_from_pack_key (seg_pack g) \<noteq> None" if "g \<in> set (cm_segments (one_segment_chain CHR ''b''))" for g
    using that by (simp add: one_segment_chain_def sha_from_pack_key_pack_key)
  then show ?thesis
    unfolding readable_def using race_chain_at [OF assms] race_only_chain [OF assms] by blast
qed

text \<open>The sweep deletes the pack again, and the tombstone that named it.\<close>

lemma race_sweep:
  assumes calm: "mock_calm s" and f: "frame mock_view race_keys revert_world s"
  shows "wp (sweep demo_ext mock_store ''repo'' race_opts (\<lambda>_. race_time))
    (\<lambda>_ t. mock_calm t \<and> mock_view t =
       without (insert demo_tombstone_key (pack_objects ''repo'' {demo_pack_sha CHR ''a''})) (mock_view s))
    (\<lambda>_ _. False) s"
proof -
  have tomb: "mock_view s demo_tombstone_key = Some (json_print demo_ext (json_of_tombstone revert_tombstone), 1)"
  proof -
    have "demo_tombstone_key \<notin> race_keys"
      by (auto simp: builder_base demo_tombstone_key_def tombstone_key_def join_base show_nat.simps
          dest!: arg_cong [of _ _ last])
    with f show ?thesis by (simp add: frame_def)
  qed
  have only: "k = demo_tombstone_key" if "prefix (gc_listing_prefix ''repo'') k" "mock_view s k \<noteq> None" for k
  proof -
    have "k \<notin> race_keys"
      using that(1) by (auto simp: gc_listing_prefix_def builder_base prefix_def demo_main_def)
    with f that(2) have "mock_view revert_world k \<noteq> None" by (simp add: frame_def)
    with \<open>k \<notin> race_keys\<close> have "k \<in> {revert_chain, pack_key (Some ''repo'') (demo_pack_sha CHR ''b''),
        pack_idx_key (Some ''repo'') (demo_pack_sha CHR ''b''), demo_tombstone_key}"
      unfolding revert_world_def demo_bucket_dom by auto
    then show ?thesis
      using that(1) by (auto simp: gc_listing_prefix_def builder_base prefix_def demo_main_def)
  qed
  have gc: "prefix (gc_listing_prefix ''repo'') demo_tombstone_key" "is_tombstone_key demo_tombstone_key ''repo''"
    "ends_with demo_tombstone_key ''.json''"
    by (simp_all add: gc_listing_prefix_def demo_tombstone_key_def tombstone_key_def join_base is_tombstone_key_def suffix_def)
  have due: "within_grace demo_ext race_opts (tb_marked_at revert_tombstone) ''tombstone'' race_time = Inr False"
    using race_due by (simp add: revert_tombstone_def)
  have doomed: "{sha \<in> set (tb_orphan_packs revert_tombstone). \<not> referenced demo_ext ''repo'' (mock_view s) sha} =
      {demo_pack_sha CHR ''a''}"
    by (auto simp: race_referenced [OF f] revert_tombstone_def)
  show ?thesis
    unfolding sweep_def Let_def
  proof (rule wp_and_then, rule wp_map_err, rule calm_mock.calm_wp_list [OF calm], goal_cases)
    case (1 ms t)
    then have "lists (gc_listing_prefix ''repo'') ms (mock_view s)"
      by (simp add: utf8_valid_ascii)
    then have keys: "om_key ` set ms = {demo_tombstone_key}" "distinct (map om_key ms)"
      using only gc(1) tomb by (auto simp: lists_def)
    obtain m where ms: "ms = [m]" "om_key m = demo_tombstone_key"
    proof (cases ms)
      case (Cons m ms')
      with keys have "ms' = []" by (cases ms') auto
      with Cons keys that show ?thesis by simp
    qed (use keys in simp)
    have view: "mock_view t = mock_view s" "mock_calm t" using 1 by simp_all
    have effect: "wp (sweep_one_tombstone demo_ext mock_store ''repo'' demo_tombstone_key race_opts race_time)
       (\<lambda>done t. (\<exists>d k. done = Swept d k) \<and> mock_calm t \<and> mock_view t =
          without (insert demo_tombstone_key (pack_objects ''repo'' {demo_pack_sha CHR ''a''})) (mock_view s))
       (\<lambda>_ _. False) t"
      using calm_mock.sweep_one_tombstone_effect [OF view(2) _ _ _ revert_tombstone_parses due, of "''repo''"]
        race_readable [OF f] tomb doomed view(1) by simp
    show ?case
      unfolding ms(1) fold_io.simps sweep_step_of_def Let_def ms(2)
      by (simp only: gc simp_thms if_True if_False, rule wp_and_then, rule wp_match, rule wp_mono [OF effect])
        (auto intro!: wp_ok)
  qed
qed

text \<open>The critical section of a push writes no pack.\<close>

context store_contract
begin

lemma packchain_perform_no_packs:
  assumes r: "prefix ''refs/'' (rr_remote_ref state)"
  shows "keeps (frame view {k. \<not> pack_slot pfx k})
    (packchain_perform_push_under_lock x st pfx env engine state tomb_now uuid)"
proof -
  have keys: "\<not> pack_slot pfx (join pfx ''FORMAT'')" "\<not> pack_slot pfx (head_key pfx)"
    "\<not> pack_slot pfx (baseline_tombstone_key (prefix_str pfx) uuid)" "\<not> pack_slot pfx (chain_key pfx (rr_remote_ref state))"
    using ref_key_not_pack [OF r key_under_listing(5)]
    by (auto simp: builder_base head_key_def join_base baseline_tombstone_key_def BASELINE_TOMBSTONE_KEY_FRAGMENT_def
        key_base_def split: option.splits)
  note refl = frame_refl frame_trans
  show ?thesis
    unfolding packchain_perform_push_under_lock_def packchain_commit_def protected_rewind_def Let_def is_protected_def
      force_push_baseline_cleanup_def write_path_index_def
    by (intro keeps_intros refl CollectI keys ref_keys_not_pack r)
      (auto intro!: keeps_intros refl keys ref_keys_not_pack r split: store_error.split)
qed

end

text \<open>C35. A sweep that runs between the upload and the lock of a push leaves a chain without its
  pack: the push forces \<open>main\<close> back to a commit whose pack a tombstone past its window names,
  the sweep deletes that pack as unreferenced, and the push takes the lock, writes the chain
  that references it and answers \<open>ok\<close>.\<close>

theorem sweep_during_push_breaks_the_chain:
  "\<exists>ready s1 out s2 l s3 s4.
     packchain_prepare_push demo_ext mock_store (Some ''repo'') demo_pack_env demo_pack_config race_time race_time ''u''
       (demo_push True ''main'') revert_world = (Inr (PackReady ready), s1) \<and>
     sweep demo_ext mock_store ''repo'' race_opts (\<lambda>_. race_time) s1 = (Inr out, s2) \<and>
     acquire_lock mock_store (lock_key (Some ''repo'') demo_main) (kc_ttl demo_pack_config) race_time s2 = (Inr (Some l), s3) \<and>
     packchain_perform_push_under_lock demo_ext mock_store (Some ''repo'') demo_pack_env PackchainEngine ready race_time
       ''u'' s3 = (Inr (PushOk demo_main), s4) \<and>
     intact demo_ext (Some ''repo'') (mock_view revert_world) \<and> \<not> intact demo_ext (Some ''repo'') (mock_view s4)"
proof -
  let ?pfx = "Some ''repo''" and ?spec = "demo_push True ''main''" and ?sha = "demo_pack_sha CHR ''a''"
  let ?prior = "Some (one_segment_chain CHR ''b'')"
  let ?ready = "case_state ?spec ?prior demo_pack_case"
  have parts: "bp_content_sha (kk_pack demo_pack_case) = ?sha" "pl_local_sha (kk_local demo_pack_case) = demo_sha CHR ''a''"
    by (simp_all add: demo_pack_case_def demo_pack_def)
  have ready: "pack_push_ready demo_ext demo_pack_env ?spec ?prior demo_pack_case"
    by (intro demo_pack_ready) simp
  then have index: "extract_under_lock demo_pack_env (pl_local_sha (kk_local demo_pack_case)) = Inr (kk_index demo_pack_case)"
    by (simp add: pack_push_ready_def)
  have "wp (packchain_prepare_push demo_ext mock_store ?pfx demo_pack_env demo_pack_config race_time race_time ''u''
      ?spec) (\<lambda>res t. res = PackReady ?ready \<and> mock_calm t \<and> frame mock_view race_keys revert_world t) (\<lambda>_ _. False) revert_world"
    by (rule calm_mock.calm_packchain_prepare [where k = demo_pack_case])
      (use ready parts in \<open>simp_all add: chain_readable_def\<close>)
  from wp_totalD [OF this] obtain s1 where s1: "packchain_prepare_push demo_ext mock_store ?pfx demo_pack_env
      demo_pack_config race_time race_time ''u'' ?spec revert_world = (Inr (PackReady ?ready), s1)"
    "mock_calm s1" "frame mock_view race_keys revert_world s1" by blast
  from wp_totalD [OF race_sweep [OF s1(2,3)]] obtain out s2 where s2:
    "sweep demo_ext mock_store ''repo'' race_opts (\<lambda>_. race_time) s1 = (Inr out, s2)" "mock_calm s2"
    "mock_view s2 = without (insert demo_tombstone_key (pack_objects ''repo'' {?sha})) (mock_view s1)" by blast
  have gone: "mock_view s2 (pack_key ?pfx ?sha) = None"
    by (simp add: s2(3) without_def pack_objects_def)
  have kept: "mock_view s2 k = mock_view revert_world k"
    if "k \<notin> race_keys" "k \<noteq> demo_tombstone_key" for k
    using s1(3) that by (auto simp: s2(3) without_def pack_objects_def frame_def)
  have free: "mock_view s2 (lock_key ?pfx demo_main) = None" "mock_view s2 (protected_marker_key ?pfx demo_main) = None"
    "mock_view s2 revert_chain = mock_view revert_world revert_chain"
    using kept [of "lock_key ?pfx demo_main"] kept [of "protected_marker_key ?pfx demo_main"] kept [of revert_chain]
    by (simp_all add: revert_world_lacks)
  from wp_totalD [OF calm_mock.calm_acquire_lock [OF s2(2), of "lock_key ?pfx demo_main" "kc_ttl demo_pack_config" race_time
      "\<lambda>g t. g = Some (lock_key ?pfx demo_main) \<and> mock_calm t \<and> frame mock_view {lock_key ?pfx demo_main} s2 t"]]
  obtain s3 where s3: "acquire_lock mock_store (lock_key ?pfx demo_main) (kc_ttl demo_pack_config) race_time s2 =
      (Inr (Some (lock_key ?pfx demo_main)), s3)" "mock_calm s3" "frame mock_view {lock_key ?pfx demo_main} s2 s3"
    using free(1) by (auto simp: lock_live_def frame_def)
  have s3v: "mock_view s3 k = mock_view s2 k" if "k \<noteq> lock_key ?pfx demo_main" for k
    using s3(3) that by (simp add: frame_def)
  have chain: "chain_at demo_ext (mock_view s3) revert_chain = ?prior"
    using revert_chain_at free(3) s3v [of revert_chain] by (simp add: chain_at_def)
  have "wp (packchain_perform_push_under_lock demo_ext mock_store ?pfx demo_pack_env PackchainEngine ?ready race_time ''u'')
      (\<lambda>res _. res = PushOk demo_main) (\<lambda>_ _. False) s3"
    using calm_mock.calm_packchain_perform [OF s3(2) _ index, where x = demo_ext and pfx = ?pfx
        and spec = ?spec and Q = "\<lambda>res _. res = PushOk demo_main"]
      chain free(2) s3v by (simp add: chain_readable_def)
  from wp_totalD [OF this] obtain s4 where s4: "packchain_perform_push_under_lock demo_ext mock_store ?pfx demo_pack_env
      PackchainEngine ?ready race_time ''u'' s3 = (Inr (PushOk demo_main), s4)" by blast
  have ref: "rr_remote_ref ?ready = demo_main" by (simp add: case_state_def)
  have none: "mock_view s4 (pack_key ?pfx ?sha) = None"
    using keepsD [OF mock.packchain_perform_no_packs s4] gone s3v [of "pack_key ?pfx ?sha"]
    by (auto simp: frame_def ref not_sym [OF ref_key_not_pack_key(2)])
  have "committed demo_ext ?pfx ?ready (mock_view s3) (mock_view s4)"
    using wp_ok_resultD [OF mock.packchain_perform_chain [where guarded = False] s4] by (simp add: ref)
  moreover have "chain_typed (push_manifest ?ready)" "cm_v (push_manifest ?ready) = CHAIN_SCHEMA_VERSION"
    by (simp_all add: push_manifest_def case_state_def parts next_manifest_def chain_typed_def segment_wf_def
        CHAIN_SCHEMA_VERSION_def demo_pack_case_def demo_pack_def)
  ultimately have new: "chain_at demo_ext (mock_view s4) revert_chain = Some (push_manifest ?ready)"
    using committed_chain [of ?ready demo_ext ?pfx] demo_chains_print by (simp add: ref)
  have "referenced demo_ext ''repo'' (mock_view s4) ?sha"
    using new revert_slot
    by (auto simp: referenced_def push_manifest_def case_state_def parts next_manifest_def sha_from_pack_key_pack_key
        intro!: exI [of _ revert_chain])
  then have "\<not> intact demo_ext ?pfx (mock_view s4)" using none by (auto simp: intact_def)
  with s1(1) s2(1) s3(1) s4 revert_intact show ?thesis by blast
qed

end
