(* ===== verification/Pack_Cache.thy ===== *)
theory Pack_Cache
  imports Schema
begin

text \<open>
  The cache of parsed pack indexes in \<open>src/packchain/read.rs\<close> (\<open>PackIndexCache\<close>): least
  recently used first, bounded by bytes. A parsed index is a record of the queries the reader
  makes of gix's \<open>index::File\<close>.
\<close>

record pack_index_file =
  if_lookup :: "string \<Rightarrow> nat option"
  if_offset_at :: "nat \<Rightarrow> nat"
  if_sorted_offsets :: "nat list"

record cached_index =
  ci_file :: pack_index_file
  ci_sorted_offsets :: "nat list"
  ci_bytes :: nat

type_synonym cache_key = "string \<times> string"

record pack_cache =
  lru_map :: "cache_key \<rightharpoonup> cached_index"
  lru_order :: "cache_key list"
  lru_total_bytes :: nat
  lru_capacity_bytes :: nat

definition DEFAULT_CACHE_CAPACITY_BYTES :: nat where
  "DEFAULT_CACHE_CAPACITY_BYTES = 64 * 1024 * 1024"

definition cache_new :: "nat \<Rightarrow> pack_cache" where
  "cache_new capacity_bytes =
     \<lparr>lru_map = (\<lambda>_. None), lru_order = [], lru_total_bytes = 0, lru_capacity_bytes = capacity_bytes\<rparr>"

text \<open>\<open>iter().position\<close> finds the first occurrence, which is removed.\<close>

definition remove_from_order :: "cache_key list \<Rightarrow> cache_key \<Rightarrow> cache_key list" where
  "remove_from_order order key = remove1 key order"

definition cache_get :: "cache_key \<Rightarrow> pack_cache \<Rightarrow> cached_index option \<times> pack_cache" where
  "cache_get key c =
     (case lru_map c key of
        None \<Rightarrow> (None, c)
      | Some entry \<Rightarrow>
          (Some entry, c\<lparr>lru_order := remove_from_order (lru_order c) key @ [key]\<rparr>))"

text \<open>The eviction loop, on the map, the order from its front, and the resident bytes.\<close>

fun evict ::
    "nat \<Rightarrow> nat \<Rightarrow> (cache_key \<rightharpoonup> cached_index) \<Rightarrow> cache_key list \<Rightarrow> nat \<Rightarrow>
     (cache_key \<rightharpoonup> cached_index) \<times> cache_key list \<times> nat" where
  "evict bytes capacity m [] resident = (m, [], resident)"
| "evict bytes capacity m (oldest # order) resident =
     (if capacity < resident + bytes then
        (case m oldest of
           Some removed \<Rightarrow> evict bytes capacity (m(oldest := None)) order (resident - ci_bytes removed)
         | None \<Rightarrow> evict bytes capacity m order resident)
      else (m, oldest # order, resident))"

text \<open>The accounting of an entry that is replaced is dropped first.\<close>

definition cache_forget :: "cache_key \<Rightarrow> pack_cache \<Rightarrow> pack_cache" where
  "cache_forget key c =
     (case lru_map c key of
        None \<Rightarrow> c
      | Some prev \<Rightarrow> c\<lparr>lru_map := (lru_map c)(key := None),
          lru_total_bytes := lru_total_bytes c - ci_bytes prev,
          lru_order := remove_from_order (lru_order c) key\<rparr>)"

definition cache_insert :: "cache_key \<Rightarrow> cached_index \<Rightarrow> pack_cache \<Rightarrow> pack_cache" where
  "cache_insert key value c =
     (let bytes = ci_bytes value; inner = cache_forget key c in
      if lru_capacity_bytes c < bytes then inner
      else
        (let (m, order, resident) =
           evict bytes (lru_capacity_bytes c) (lru_map inner) (lru_order inner) (lru_total_bytes inner)
         in inner\<lparr>lru_map := m(key \<mapsto> value), lru_order := order @ [key],
              lru_total_bytes := resident + bytes\<rparr>))"

definition cache_len :: "pack_cache \<Rightarrow> nat" where
  "cache_len c = card (dom (lru_map c))"

definition cache_is_empty :: "pack_cache \<Rightarrow> bool" where
  "cache_is_empty c = (cache_len c = 0)"

subsection \<open>The bookkeeping invariant\<close>

definition resident_sum :: "(cache_key \<rightharpoonup> cached_index) \<Rightarrow> cache_key list \<Rightarrow> nat" where
  "resident_sum m order = (\<Sum>k \<leftarrow> order. case m k of None \<Rightarrow> 0 | Some v \<Rightarrow> ci_bytes v)"

definition books_ok :: "(cache_key \<rightharpoonup> cached_index) \<Rightarrow> cache_key list \<Rightarrow> nat \<Rightarrow> bool" where
  "books_ok m order resident \<longleftrightarrow> distinct order \<and> set order = dom m \<and> resident = resident_sum m order"

definition cache_ok :: "pack_cache \<Rightarrow> bool" where
  "cache_ok c \<longleftrightarrow> books_ok (lru_map c) (lru_order c) (lru_total_bytes c) \<and>
     lru_total_bytes c \<le> lru_capacity_bytes c"

lemma resident_sum_simps [simp]:
  "resident_sum m [] = 0"
  "resident_sum m (k # order) = (case m k of None \<Rightarrow> 0 | Some v \<Rightarrow> ci_bytes v) + resident_sum m order"
  "resident_sum m (order @ order') = resident_sum m order + resident_sum m order'"
  by (simp_all add: resident_sum_def)

lemma resident_sum_other: "k \<notin> set order \<Longrightarrow> resident_sum (m(k := v)) order = resident_sum m order"
  unfolding resident_sum_def by (induction order) auto

lemma resident_sum_remove1:
  "k \<in> set order \<Longrightarrow> resident_sum m order =
     (case m k of None \<Rightarrow> 0 | Some v \<Rightarrow> ci_bytes v) + resident_sum m (remove1 k order)"
  by (induction order) auto

lemma books_ok_forget:
  assumes "books_ok m order resident" "m k = Some v"
  shows "books_ok (m(k := None)) (remove1 k order) (resident - ci_bytes v)"
proof -
  from assms have "k \<in> set order" "distinct order" by (auto simp: books_ok_def)
  with assms resident_sum_remove1 [of k order m] show ?thesis
    by (auto simp: books_ok_def resident_sum_other)
qed

text \<open>Eviction removes the oldest entries, no more than needed, until the new one fits.\<close>

lemma evict_oldest:
  assumes "books_ok m order resident" "evict bytes capacity m order resident = (m', order', resident')"
    and "bytes \<le> capacity"
  shows "books_ok m' order' resident' \<and> resident' + bytes \<le> capacity \<and>
    (\<exists>gone. order = gone @ order' \<and> m' = m |` (- set gone) \<and>
       (gone = [] \<or> capacity < resident_sum m (last gone # order') + bytes))"
  using assms(1,2)
proof (induction order arbitrary: m resident)
  case Nil
  then have "resident = 0" by (simp add: books_ok_def)
  with Nil assms(3) show ?case by (auto simp: restrict_map_def)
next
  case (Cons k order)
  from Cons.prems(1) obtain v where v: "m k = Some v" "k \<notin> set order" by (auto simp: books_ok_def)
  show ?case
  proof (cases "capacity < resident + bytes")
    case True
    have "books_ok (m(k := None)) order (resident - ci_bytes v)"
      using books_ok_forget [OF Cons.prems(1) v(1)] by simp
    moreover have "evict bytes capacity (m(k := None)) order (resident - ci_bytes v) = (m', order', resident')"
      using Cons.prems(2) True v(1) by simp
    ultimately obtain gone where ok: "books_ok m' order' resident'" "resident' + bytes \<le> capacity"
      and gone: "order = gone @ order'" "m' = (m(k := None)) |` (- set gone)"
        "gone = [] \<or> capacity < resident_sum (m(k := None)) (last gone # order') + bytes"
      using Cons.IH by blast
    have "m' = m |` (- set (k # gone))" using gone(2) by (auto simp: restrict_map_def fun_eq_iff)
    moreover have "capacity < resident_sum m (last (k # gone) # order') + bytes"
    proof (cases "gone = []")
      case True
      with gone(1) \<open>capacity < resident + bytes\<close> Cons.prems(1) show ?thesis by (simp add: books_ok_def)
    next
      case False
      then have "k \<notin> set (last gone # order')" using v(2) gone(1) last_in_set [OF False] by auto
      with False gone(3) resident_sum_other [of k "last gone # order'" m None] show ?thesis by simp
    qed
    ultimately show ?thesis using ok gone(1) by (intro conjI exI [of _ "k # gone"]) auto
  next
    case False
    with Cons.prems show ?thesis by (intro conjI exI [of _ "[]"]) auto
  qed
qed

lemma cache_forget_ok: "cache_ok c \<Longrightarrow> cache_ok (cache_forget k c)"
  using books_ok_forget [of "lru_map c" "lru_order c" "lru_total_bytes c" k]
  by (auto simp: cache_ok_def cache_forget_def remove_from_order_def split: option.split)

lemma cache_forget_sel [simp]:
  "lru_map (cache_forget k c) = (lru_map c)(k := None)"
  "lru_capacity_bytes (cache_forget k c) = lru_capacity_bytes c"
  by (auto simp: cache_forget_def fun_upd_idem split: option.split)

lemma cache_get_ok: "cache_ok c \<Longrightarrow> cache_ok (snd (cache_get k c))"
proof -
  assume c: "cache_ok c"
  show ?thesis
  proof (cases "lru_map c k")
    case None
    with c show ?thesis by (simp add: cache_get_def)
  next
    case (Some v)
    with c have "k \<in> set (lru_order c)" by (auto simp: cache_ok_def books_ok_def)
    with c Some resident_sum_remove1 [of k "lru_order c" "lru_map c"] show ?thesis
      by (auto simp: cache_ok_def books_ok_def cache_get_def remove_from_order_def)
  qed
qed

lemma cache_insert_ok:
  assumes "cache_ok c"
  shows "cache_ok (cache_insert k v c)"
proof (cases "lru_capacity_bytes c < ci_bytes v")
  case True
  with cache_forget_ok [OF assms] show ?thesis by (simp add: cache_insert_def Let_def)
next
  case False
  obtain m order resident where e: "evict (ci_bytes v) (lru_capacity_bytes c) (lru_map (cache_forget k c))
      (lru_order (cache_forget k c)) (lru_total_bytes (cache_forget k c)) = (m, order, resident)"
    by (rule prod_cases3)
  have books: "books_ok (lru_map (cache_forget k c)) (lru_order (cache_forget k c)) (lru_total_bytes (cache_forget k c))"
    using cache_forget_ok [OF assms] by (simp add: cache_ok_def)
  from evict_oldest [OF books e] False have fit: "books_ok m order resident" "resident + ci_bytes v \<le> lru_capacity_bytes c"
    and sub: "\<exists>gone. m = (lru_map (cache_forget k c)) |` (- set gone)"
    unfolding not_less by blast+
  then have "m k = None" by (auto simp: restrict_map_def)
  then have "k \<notin> set order" using fit(1) by (auto simp: books_ok_def)
  with fit False e show ?thesis
    by (auto simp: cache_insert_def Let_def cache_ok_def books_ok_def resident_sum_other)
qed

text \<open>Every history of lookups and insertions keeps the books.\<close>

datatype cache_op = CacheGet cache_key | CacheInsert cache_key cached_index

fun cache_step :: "cache_op \<Rightarrow> pack_cache \<Rightarrow> pack_cache" where
  "cache_step (CacheGet k) c = snd (cache_get k c)"
| "cache_step (CacheInsert k v) c = cache_insert k v c"

lemma cache_step_ok: "cache_ok c \<Longrightarrow> cache_ok (cache_step op c)"
  by (cases op) (auto simp: cache_get_ok cache_insert_ok)

lemma cache_history_ok: "cache_ok c \<Longrightarrow> cache_ok (fold cache_step ops c)"
  by (induction ops arbitrary: c) (auto simp: cache_step_ok)

lemma cache_step_capacity [simp]: "lru_capacity_bytes (cache_step op c) = lru_capacity_bytes c"
  by (cases op) (auto simp: cache_get_def cache_insert_def Let_def split: option.split prod.split)

lemma cache_history_capacity: "lru_capacity_bytes (fold cache_step ops c) = lru_capacity_bytes c"
  by (induction ops arbitrary: c) auto

lemma cache_new_ok: "cache_ok (cache_new capacity)"
  by (simp add: cache_ok_def books_ok_def cache_new_def)

text \<open>What an insertion leaves: the longest run of the most recent entries that fits beside it.\<close>

lemma cache_insert_keeps_recent:
  assumes "cache_ok c" "ci_bytes v \<le> lru_capacity_bytes c"
  shows "\<exists>gone kept. remove1 k (lru_order c) = gone @ kept \<and>
    lru_order (cache_insert k v c) = kept @ [k] \<and>
    (\<forall>k'. lru_map (cache_insert k v c) k' =
       (if k' = k then Some v else if k' \<in> set kept then lru_map c k' else None)) \<and>
    (gone = [] \<or> lru_capacity_bytes c < resident_sum (lru_map c) (last gone # kept) + ci_bytes v)"
proof -
  let ?f = "cache_forget k c"
  obtain m order resident where e: "evict (ci_bytes v) (lru_capacity_bytes c) (lru_map ?f)
      (lru_order ?f) (lru_total_bytes ?f) = (m, order, resident)" by (rule prod_cases3)
  have books: "books_ok (lru_map ?f) (lru_order ?f) (lru_total_bytes ?f)"
    using cache_forget_ok [OF assms(1)] by (simp add: cache_ok_def)
  from evict_oldest [OF books e assms(2)] obtain gone where g: "books_ok m order resident" "lru_order ?f = gone @ order"
    "m = (lru_map ?f) |` (- set gone)"
    "gone = [] \<or> lru_capacity_bytes c < resident_sum (lru_map ?f) (last gone # order) + ci_bytes v" by blast
  have "lru_map c k = None \<Longrightarrow> k \<notin> set (lru_order c)" using assms(1) by (auto simp: cache_ok_def books_ok_def)
  then have ord: "lru_order ?f = remove1 k (lru_order c)"
    by (auto simp: cache_forget_def remove_from_order_def remove1_idem split: option.split)
  have k: "k \<notin> set (lru_order ?f)" using books by (simp add: books_ok_def)
  have new: "lru_order (cache_insert k v c) = order @ [k]" "lru_map (cache_insert k v c) = m(k \<mapsto> v)"
    using e assms(2) by (simp_all add: cache_insert_def Let_def)
  have m: "m k' = (if k' \<in> set order then lru_map c k' else None)" if "k' \<noteq> k" for k'
    using g(1,3) that by (auto simp: books_ok_def restrict_map_def split: if_splits)
  have "gone = [] \<or> lru_capacity_bytes c < resident_sum (lru_map c) (last gone # order) + ci_bytes v"
  proof (cases "gone = []")
    case False
    then have "k \<notin> set (last gone # order)" using k g(2) last_in_set [OF False] by auto
    with g(4) False resident_sum_other [of k "last gone # order" "lru_map c" None] show ?thesis by simp
  qed simp
  then show ?thesis using new m g(2) ord by (intro exI [of _ gone] exI [of _ order]) auto
qed

end
