(* ===== verification/Pack_Delta.thy ===== *)
theory Pack_Delta
  imports Schema
begin

unbundle bit_operations_syntax

text \<open>
  Pack deltas: the decoder of \<open>src/packchain/read.rs\<close> (\<open>apply_delta\<close> and its helpers), on
  byte strings. A cursor is what is left of the delta: \<open>&delta[cursor..]\<close>. Sizes are 64-bit
  words and the operands of a copy 32-bit words, as in the code; \<open>usize\<close> has 64 bits, so the
  conversions to it never fail and the sum of two 32-bit numbers does not overflow it.
\<close>

datatype object_kind = BlobKind | CommitKind | TreeKind | TagKind

record resolved_object =
  ro_payload :: string
  ro_kind :: object_kind

definition MAX_DECOMPRESSED_BYTES :: nat where
  "MAX_DECOMPRESSED_BYTES = 1024 * 1024 * 1024"

definition GIT_DELTA_DEFAULT_COPY_SIZE :: "32 word" where
  "GIT_DELTA_DEFAULT_COPY_SIZE = 0x10000"

subsection \<open>Sizes\<close>

text \<open>
  The loop of \<open>read_size_varint\<close>: \<open>checked_shl\<close> only fails for a shift of 64 or more, which
  the loop excludes; bits shifted past the top are lost.
\<close>

fun read_size_loop :: "string \<Rightarrow> 64 word \<Rightarrow> nat \<Rightarrow> (64 word \<times> string) option" where
  "read_size_loop [] value shift = None"
| "read_size_loop (byte # rest) value shift =
     (let b = of_char byte :: 8 word;
          value' = value OR push_bit shift (ucast (b AND 0x7f)) in
      if b AND 0x80 = 0 then Some (value', rest)
      else if 64 \<le> shift + 7 then None
      else read_size_loop rest value' (shift + 7))"

definition read_size_varint :: "string \<Rightarrow> (64 word \<times> string) option" where
  "read_size_varint data = read_size_loop data 0 0"

subsection \<open>Copy and insert\<close>

fun read_packed_loop ::
    "nat \<Rightarrow> nat \<Rightarrow> string \<Rightarrow> 8 word \<Rightarrow> 32 word \<Rightarrow> string \<Rightarrow> packchain_error + (32 word \<times> string)" where
  "read_packed_loop 0 shift reason bitmask value cursor = Inr (value, cursor)"
| "read_packed_loop (Suc bits) shift reason bitmask value cursor =
     (if bitmask AND push_bit shift 1 \<noteq> 0 then
        (case cursor of
           [] \<Rightarrow> Inl (MalformedDelta reason)
         | byte # rest \<Rightarrow>
             read_packed_loop bits (Suc shift) reason bitmask
               (value OR push_bit (shift * 8) (of_char byte)) rest)
      else read_packed_loop bits (Suc shift) reason bitmask value cursor)"

definition read_packed_operand ::
    "string \<Rightarrow> 8 word \<Rightarrow> nat \<Rightarrow> string \<Rightarrow> packchain_error + (32 word \<times> string)" where
  "read_packed_operand cursor bitmask bits truncated_reason =
     read_packed_loop bits 0 truncated_reason bitmask 0 cursor"

definition apply_delta_copy_op ::
    "8 word \<Rightarrow> string \<Rightarrow> string \<Rightarrow> string \<Rightarrow> packchain_error + (string \<times> string)" where
  "apply_delta_copy_op op cursor base out =
     (case read_packed_operand cursor op 4 ''truncated delta copy offset'' of
        Inl e \<Rightarrow> Inl e
      | Inr (copy_offset, cursor1) \<Rightarrow>
          (case read_packed_operand cursor1 (drop_bit 4 op) 3 ''truncated delta copy size'' of
             Inl e \<Rightarrow> Inl e
           | Inr (raw_size, cursor2) \<Rightarrow>
               (let copy_size = (if raw_size = 0 then GIT_DELTA_DEFAULT_COPY_SIZE else raw_size);
                    start = unat copy_offset;
                    stop = start + unat copy_size in
                if length base < stop then Inl (MalformedDelta ''copy span exceeds base object'')
                else Inr (out @ take (stop - start) (drop start base), cursor2))))"

definition apply_delta_insert_op ::
    "8 word \<Rightarrow> string \<Rightarrow> string \<Rightarrow> packchain_error + (string \<times> string)" where
  "apply_delta_insert_op op cursor out =
     (let len = unat op in
      if length cursor < len then Inl (MalformedDelta ''insert span exceeds delta payload'')
      else Inr (out @ take len cursor, drop len cursor))"

text \<open>One operation, given its first byte.\<close>

definition apply_delta_op ::
    "char \<Rightarrow> string \<Rightarrow> string \<Rightarrow> string \<Rightarrow> packchain_error + (string \<times> string)" where
  "apply_delta_op byte cursor base out =
     (let op = of_char byte :: 8 word in
      if op AND 0x80 \<noteq> 0 then apply_delta_copy_op op cursor base out
      else if op = 0 then Inl (MalformedDelta ''reserved zero opcode'')
      else apply_delta_insert_op op cursor out)"

lemma read_packed_loop_shorter:
  "read_packed_loop bits shift reason bitmask acc cursor = Inr (v, rest) \<Longrightarrow> length rest \<le> length cursor"
  by (induction bits arbitrary: shift acc cursor) (fastforce split: if_splits list.splits)+

lemma apply_delta_op_shorter:
  "apply_delta_op byte cursor base out = Inr (out', rest) \<Longrightarrow> length rest \<le> length cursor"
  by (auto simp: apply_delta_op_def apply_delta_copy_op_def apply_delta_insert_op_def read_packed_operand_def Let_def
      split: if_splits sum.splits dest!: read_packed_loop_shorter)

function apply_delta_ops :: "string \<Rightarrow> nat \<Rightarrow> string \<Rightarrow> string \<Rightarrow> packchain_error + string" where
  "apply_delta_ops base dst_size out [] = Inr out"
| "apply_delta_ops base dst_size out (byte # cursor) =
     (case apply_delta_op byte cursor base out of
        Inl e \<Rightarrow> Inl e
      | Inr (out', cursor') \<Rightarrow>
          if dst_size < length out'
          then Inl (MalformedDelta ''produced object exceeds announced destination size'')
          else apply_delta_ops base dst_size out' cursor')"
  by pat_completeness auto
termination
  by (relation "measure (\<lambda>(_, _, _, cursor). length cursor)") (auto dest: apply_delta_op_shorter)

definition apply_delta :: "resolved_object \<Rightarrow> string \<Rightarrow> packchain_error + resolved_object" where
  "apply_delta base delta =
     (case read_size_varint delta of
        None \<Rightarrow> Inl (MalformedDelta ''truncated source size header'')
      | Some (src_size, cursor1) \<Rightarrow>
          (case read_size_varint cursor1 of
             None \<Rightarrow> Inl (MalformedDelta ''truncated destination size header'')
           | Some (dst_size, cursor2) \<Rightarrow>
               if src_size \<noteq> of_nat (length (ro_payload base))
               then Inl (MalformedDelta ''delta source size does not match base object size'')
               else if MAX_DECOMPRESSED_BYTES < unat dst_size
               then Inl (MalformedDelta ''delta destination size exceeds 1 GiB cap'')
               else
                 (case apply_delta_ops (ro_payload base) (unat dst_size) [] cursor2 of
                    Inl e \<Rightarrow> Inl e
                  | Inr out \<Rightarrow>
                      if length out \<noteq> unat dst_size
                      then Inl (MalformedDelta ''produced object does not match announced destination size'')
                      else Inr \<lparr>ro_payload = out, ro_kind = ro_kind base\<rparr>)))"

subsection \<open>The format\<close>

text \<open>
  What git's pack format says of a delta: the size of the base and of the result, then
  instructions, each a copy of a part of the base or an insertion of up to 127 bytes.
\<close>

datatype delta_op =
    CopyOp nat nat
  | InsertOp string

definition run_op :: "string \<Rightarrow> delta_op \<Rightarrow> string" where
  "run_op base op = (case op of CopyOp off len \<Rightarrow> take len (drop off base) | InsertOp s \<Rightarrow> s)"

definition op_ok :: "string \<Rightarrow> delta_op \<Rightarrow> bool" where
  "op_ok base op =
     (case op of
        CopyOp off len \<Rightarrow> 0 < len \<and> len < 2 ^ 24 \<and> off < 2 ^ 32 \<and> off + len \<le> length base
      | InsertOp s \<Rightarrow> s \<noteq> [] \<and> length s < 128)"

fun encode_size :: "nat \<Rightarrow> string" where
  "encode_size n =
     (if n < 128 then [char_of n] else char_of (n mod 128 + 128) # encode_size (n div 128))"

declare encode_size.simps [simp del]

text \<open>Little-endian operands, of which the zero bytes may be left out: all are written here.\<close>

definition le_bytes :: "nat \<Rightarrow> nat \<Rightarrow> string" where
  "le_bytes k n = map (\<lambda>i. char_of (n div 256 ^ i mod 256)) [0..<k]"

definition encode_op :: "delta_op \<Rightarrow> string" where
  "encode_op op =
     (case op of
        CopyOp off len \<Rightarrow> char_of (255 :: nat) # le_bytes 4 off @ le_bytes 3 len
      | InsertOp s \<Rightarrow> char_of (length s) # s)"

definition encode_delta :: "string \<Rightarrow> delta_op list \<Rightarrow> string" where
  "encode_delta base ops =
     encode_size (length base) @ encode_size (length (concat (map (run_op base) ops))) @ concat (map encode_op ops)"

subsection \<open>Decoding what the format says\<close>

lemma or_push_bit_nat: "v < 2 ^ s \<Longrightarrow> v OR push_bit s m = v + m * 2 ^ s" for v m :: nat
proof -
  assume v: "v < 2 ^ s"
  have "v AND push_bit s m = 0"
    using v by (auto simp: bit_eq_iff bit_simps not_less dest: bit_imp_possible_bit)
      (metis bit_take_bit_iff not_less take_bit_nat_eq_self)
  then show ?thesis by (simp add: disjunctive_add_eq_or push_bit_eq_mult)
qed

lemma or_push_bit_word:
  "v < 2 ^ s \<Longrightarrow> word_of_nat v OR push_bit s (word_of_nat m) = (word_of_nat (v + m * 2 ^ s) :: 'a :: len word)"
  by (simp flip: or_push_bit_nat add: of_nat_or_eq of_nat_push_bit)

lemma of_char_word: "(of_char c :: 'a :: len word) = word_of_nat (of_char c)"
  by (simp add: of_nat_of_char)

text \<open>What the tests on a byte mean, checked for all 256 of them.\<close>

lemma all_bytes: "list_all P [0 ..< 256] \<Longrightarrow> P (of_char c)"
  by (simp add: list_all_iff)

lemma byte_continues: "(of_char c :: 8 word) AND 0x80 = 0 \<longleftrightarrow> (of_char c :: nat) < 128"
proof -
  have "list_all (\<lambda>n. ((word_of_nat n :: 8 word) AND 0x80 = 0) = (n < 128)) [0 ..< 256]" by code_simp
  then show ?thesis unfolding of_char_word by (rule all_bytes)
qed

lemma byte_low_bits: "ucast ((of_char c :: 8 word) AND 0x7f) = (word_of_nat (of_char c mod 128) :: 64 word)"
proof -
  have "list_all (\<lambda>n. ucast ((word_of_nat n :: 8 word) AND 0x7f) = (word_of_nat (n mod 128) :: 64 word)) [0 ..< 256]"
    by code_simp
  then show ?thesis unfolding of_char_word by (rule all_bytes)
qed

lemma unat_byte: "unat (of_char c :: 8 word) = of_char c"
  unfolding of_char_word by (simp add: unat_of_nat)

lemma read_size_encode:
  "v < 2 ^ shift \<Longrightarrow> v + n * 2 ^ shift < 2 ^ 64 \<Longrightarrow> shift < 64 \<Longrightarrow>
   read_size_loop (encode_size n @ rest) (word_of_nat v) shift = Some (word_of_nat (v + n * 2 ^ shift), rest)"
proof (induction n arbitrary: v shift rule: encode_size.induct)
  case (1 n)
  show ?case
  proof (cases "n < 128")
    case True
    with 1 show ?thesis
      by (simp add: encode_size.simps [of n] Let_def byte_continues byte_low_bits or_push_bit_word)
  next
    case False
    let ?v = "v + n mod 128 * 2 ^ shift"
    have shift: "shift + 7 < 64"
    proof (rule ccontr)
      assume "\<not> shift + 7 < 64"
      then have "2 ^ 57 \<le> (2 :: nat) ^ shift" by (intro power_increasing) auto
      then have "128 * 2 ^ 57 \<le> n * 2 ^ shift" using False by (intro mult_mono) auto
      with 1(3) show False by simp
    qed
    have "n mod 128 * 2 ^ shift \<le> 127 * 2 ^ shift" by (intro mult_right_mono) auto
    with 1(2) have "?v < 2 ^ shift + 127 * 2 ^ shift" by linarith
    then have small: "?v < 2 ^ (shift + 7)" by (simp add: power_add)
    have split: "?v + n div 128 * 2 ^ (shift + 7) = v + n * 2 ^ shift"
    proof -
      have "a * p + b * (p * 128) = (a + b * 128) * p" for a b p :: nat by (simp add: algebra_simps)
      from this [of "n mod 128" "2 ^ shift" "n div 128"]
      have "n mod 128 * 2 ^ shift + n div 128 * 2 ^ (shift + 7) = n * 2 ^ shift"
        by (simp only: mod_div_mult_eq power_add) simp
      then show ?thesis by (simp only: add.assoc)
    qed
    have "read_size_loop (encode_size (n div 128) @ rest) (word_of_nat ?v) (shift + 7) =
        Some (word_of_nat (v + n * 2 ^ shift), rest)"
      using 1(1) [OF False small] 1(3) shift unfolding split by simp
    with False shift 1(2) show ?thesis
      by (simp add: encode_size.simps [of n] Let_def byte_continues byte_low_bits or_push_bit_word)
  qed
qed

lemma read_size_varint_encode: "n < 2 ^ 64 \<Longrightarrow> read_size_varint (encode_size n @ rest) = Some (word_of_nat n, rest)"
  using read_size_encode [of 0 0 n rest] by (simp add: read_size_varint_def)

text \<open>An operand of which every byte is present.\<close>

lemma base_256_digit: "n mod 256 ^ k + n div 256 ^ k mod 256 * 256 ^ k = n mod 256 ^ Suc k" for n :: nat
  using mod_mult2_eq [of n "256 ^ k" 256] by (simp add: mult.commute)

lemma read_packed_all:
  assumes "\<And>i. i < bits \<Longrightarrow> bitmask AND push_bit (shift + i) 1 \<noteq> 0"
  shows "read_packed_loop bits shift reason bitmask (word_of_nat (n mod 256 ^ shift))
      (map (\<lambda>i. char_of (n div 256 ^ i mod 256)) [shift ..< shift + bits] @ rest) =
    Inr (word_of_nat (n mod 256 ^ (shift + bits)), rest)"
  using assms
proof (induction bits arbitrary: shift)
  case (Suc bits)
  let ?b = "n div 256 ^ shift mod 256"
  have bit0: "bitmask AND push_bit shift 1 \<noteq> 0" using Suc.prems [of 0] by simp
  have p: "(256 :: nat) ^ shift = 2 ^ (shift * 8)" by (simp add: mult.commute [of shift] power_mult)
  have "word_of_nat (n mod 256 ^ shift) OR push_bit (shift * 8) (of_char (char_of ?b :: char)) =
      (word_of_nat (n mod 256 ^ Suc shift) :: 32 word)"
    using or_push_bit_word [of "n mod 256 ^ shift" "shift * 8" ?b, where 'a = 32]
    by (simp add: of_char_word p [symmetric] base_256_digit del: power_Suc)
  moreover have "read_packed_loop bits (Suc shift) reason bitmask (word_of_nat (n mod 256 ^ Suc shift))
      (map (\<lambda>i. char_of (n div 256 ^ i mod 256)) [Suc shift ..< Suc shift + bits] @ rest) =
    Inr (word_of_nat (n mod 256 ^ (Suc shift + bits)), rest)"
    by (rule Suc.IH) (use Suc.prems [of "Suc _"] in simp)
  moreover have "[shift ..< shift + Suc bits] = shift # [Suc shift ..< Suc shift + bits]"
    by (simp add: upt_conv_Cons)
  ultimately show ?case using bit0 by simp
qed simp

lemma read_operand_encode:
  assumes "\<And>i. i < bits \<Longrightarrow> bitmask AND push_bit i 1 \<noteq> 0" "n < 256 ^ bits"
  shows "read_packed_operand (le_bytes bits n @ rest) bitmask bits reason = Inr (word_of_nat n, rest)"
  using read_packed_all [of bits bitmask 0 reason n rest] assms
  by (simp add: read_packed_operand_def le_bytes_def)

text \<open>Each instruction decodes to what it means.\<close>

lemma apply_encoded_op:
  assumes "op_ok base op"
  shows "\<exists>byte cs. encode_op op = byte # cs \<and>
    apply_delta_op byte (cs @ rest) base out = Inr (out @ run_op base op, rest)"
proof (cases op)
  case (CopyOp off len)
  with assms have c: "0 < len" "len < 2 ^ 24" "off < 2 ^ 32" "off + len \<le> length base" by (simp_all add: op_ok_def)
  have op: "(of_char (char_of (255 :: nat) :: char) :: 8 word) = 0xFF" by (simp add: of_char_word)
  have "list_all (\<lambda>i. (0xFF :: 8 word) AND push_bit i 1 \<noteq> 0) [0 ..< 4]"
    "list_all (\<lambda>i. drop_bit 4 (0xFF :: 8 word) AND push_bit i 1 \<noteq> 0) [0 ..< 3]" "(0xFF :: 8 word) AND 0x80 \<noteq> 0"
    by code_simp+
  then have bits: "\<And>i. i < 4 \<Longrightarrow> (0xFF :: 8 word) AND push_bit i 1 \<noteq> 0"
    "\<And>i. i < 3 \<Longrightarrow> drop_bit 4 (0xFF :: 8 word) AND push_bit i 1 \<noteq> 0" "(0xFF :: 8 word) AND 0x80 \<noteq> 0"
    by (simp_all add: list_all_iff)
  have off: "read_packed_operand (le_bytes 4 off @ le_bytes 3 len @ rest) 0xFF 4 ''truncated delta copy offset'' =
      Inr (word_of_nat off, le_bytes 3 len @ rest)"
    by (rule read_operand_encode [OF bits(1)]) (use c(3) in simp_all)
  have len: "read_packed_operand (le_bytes 3 len @ rest) (drop_bit 4 0xFF) 3 ''truncated delta copy size'' =
      Inr (word_of_nat len, rest)"
    by (rule read_operand_encode [OF bits(2)]) (use c(2) in simp_all)
  have words: "unat (word_of_nat off :: 32 word) = off" "unat (word_of_nat len :: 32 word) = len"
    using c(2,3) by (simp_all add: unat_of_nat)
  then have "(word_of_nat len :: 32 word) \<noteq> 0" using c(1) by auto
  with c off len words have "apply_delta_copy_op 0xFF (le_bytes 4 off @ le_bytes 3 len @ rest) base out =
      Inr (out @ take len (drop off base), rest)"
    by (simp add: apply_delta_copy_op_def Let_def)
  then show ?thesis using bits(3) by (simp add: CopyOp encode_op_def run_op_def apply_delta_op_def Let_def op)
next
  case (InsertOp s)
  with assms have s: "s \<noteq> []" "length s < 128" by (simp_all add: op_ok_def)
  let ?op = "of_char (char_of (length s) :: char) :: 8 word"
  have "?op AND 0x80 = 0" using s(2) by (simp add: byte_continues)
  moreover have "unat ?op = length s" using s(2) by (simp add: unat_byte)
  moreover have "?op \<noteq> 0" using s(1) calculation(2) by auto
  ultimately show ?thesis
    by (simp add: InsertOp encode_op_def run_op_def apply_delta_op_def apply_delta_insert_op_def Let_def)
qed

lemma apply_encoded_ops:
  assumes "list_all (op_ok base) ops" "length out + length (concat (map (run_op base) ops)) \<le> dst"
  shows "apply_delta_ops base dst out (concat (map encode_op ops)) = Inr (out @ concat (map (run_op base) ops))"
  using assms
proof (induction ops arbitrary: out)
  case (Cons op ops)
  from Cons.prems(1) have "op_ok base op" by simp
  from apply_encoded_op [OF this, of "concat (map encode_op ops)" out] Cons show ?case by auto
qed simp

text \<open>And whatever is decoded is made of slices of the base and of literal pieces.\<close>

definition piece_ok :: "string \<Rightarrow> delta_op \<Rightarrow> bool" where
  "piece_ok base op =
     (case op of
        CopyOp off len \<Rightarrow> 0 < len \<and> off + len \<le> length base
      | InsertOp s \<Rightarrow> s \<noteq> [] \<and> length s < 128)"

lemma apply_delta_op_piece:
  assumes "apply_delta_op byte cursor base out = Inr (out', rest)"
  shows "\<exists>op. piece_ok base op \<and> out' = out @ run_op base op"
proof (cases "(of_char byte :: 8 word) AND 0x80 = 0")
  case True
  then have "(of_char byte :: nat) < 128" by (simp add: byte_continues)
  moreover from True assms have "(of_char byte :: 8 word) \<noteq> 0" "unat (of_char byte :: 8 word) \<le> length cursor"
    "out' = out @ take (unat (of_char byte :: 8 word)) cursor"
    by (auto simp: apply_delta_op_def apply_delta_insert_op_def Let_def split: if_splits)
  ultimately show ?thesis
    by (intro exI [of _ "InsertOp (take (unat (of_char byte :: 8 word)) cursor)"])
      (auto simp: piece_ok_def run_op_def unat_byte [symmetric] unat_eq_zero)
next
  case False
  with assms have "apply_delta_copy_op (of_char byte) cursor base out = Inr (out', rest)"
    by (simp add: apply_delta_op_def Let_def)
  then obtain off cursor1 raw where reads:
    "read_packed_operand cursor (of_char byte) 4 ''truncated delta copy offset'' = Inr (off, cursor1)"
    "read_packed_operand cursor1 (drop_bit 4 (of_char byte)) 3 ''truncated delta copy size'' = Inr (raw, rest)"
    by (auto simp: apply_delta_copy_op_def Let_def split: sum.splits if_split_asm)
  with \<open>apply_delta_copy_op _ _ _ _ = _\<close> have raw:
    "out' = out @ take (unat (if raw = 0 then GIT_DELTA_DEFAULT_COPY_SIZE else raw)) (drop (unat off) base)"
    "unat off + unat (if raw = 0 then GIT_DELTA_DEFAULT_COPY_SIZE else raw) \<le> length base"
    by (simp_all add: apply_delta_copy_op_def Let_def split: if_split_asm)
  define len where "len = (if raw = 0 then GIT_DELTA_DEFAULT_COPY_SIZE else raw)"
  have copy: "len \<noteq> 0" "out' = out @ take (unat len) (drop (unat off) base)" "unat off + unat len \<le> length base"
    using raw unfolding len_def by (simp_all add: GIT_DELTA_DEFAULT_COPY_SIZE_def)
  then show ?thesis
    by (intro exI [of _ "CopyOp (unat off) (unat len)"]) (auto simp: piece_ok_def run_op_def unat_gt_0)
qed

lemma apply_delta_ops_pieces:
  "apply_delta_ops base dst out cursor = Inr out' \<Longrightarrow>
   \<exists>ops. list_all (piece_ok base) ops \<and> out' = out @ concat (map (run_op base) ops)"
proof (induction base dst out cursor rule: apply_delta_ops.induct)
  case (1 base dst out)
  then show ?case by (intro exI [of _ "[]"]) simp
next
  case (2 base dst out byte cursor)
  then obtain mid cursor' where step: "apply_delta_op byte cursor base out = Inr (mid, cursor')"
    "\<not> dst < length mid" "apply_delta_ops base dst mid cursor' = Inr out'"
    by (auto split: sum.splits if_splits)
  from 2(1) [OF step(1)] step obtain ops where "list_all (piece_ok base) ops" "out' = mid @ concat (map (run_op base) ops)"
    by auto
  moreover from apply_delta_op_piece [OF step(1)] obtain op where "piece_ok base op" "mid = out @ run_op base op" by blast
  ultimately show ?case by (intro exI [of _ "op # ops"]) simp
qed

lemma apply_delta_sound:
  assumes "apply_delta base delta = Inr r"
  shows "ro_kind r = ro_kind base \<and> length (ro_payload r) \<le> MAX_DECOMPRESSED_BYTES \<and>
    (\<exists>ops. list_all (piece_ok (ro_payload base)) ops \<and> ro_payload r = concat (map (run_op (ro_payload base)) ops))"
proof -
  from assms obtain dst cursor out where out: "apply_delta_ops (ro_payload base) dst [] cursor = Inr out"
    "length out \<le> MAX_DECOMPRESSED_BYTES" "r = \<lparr>ro_payload = out, ro_kind = ro_kind base\<rparr>"
    by (auto simp: apply_delta_def not_less split: option.splits if_splits sum.splits)
  from apply_delta_ops_pieces [OF out(1)] out(2,3) show ?thesis by auto
qed

lemma apply_delta_encoded:
  assumes "list_all (op_ok (ro_payload base)) ops" "length (ro_payload base) < 2 ^ 64"
    and "length (concat (map (run_op (ro_payload base)) ops)) \<le> MAX_DECOMPRESSED_BYTES"
  shows "apply_delta base (encode_delta (ro_payload base) ops) =
    Inr \<lparr>ro_payload = concat (map (run_op (ro_payload base)) ops), ro_kind = ro_kind base\<rparr>"
proof -
  let ?b = "ro_payload base" and ?r = "concat (map (run_op (ro_payload base)) ops)"
  have small: "length ?r < 2 ^ 64" using assms(3) by (simp add: MAX_DECOMPRESSED_BYTES_def)
  then have dst: "unat (word_of_nat (length ?r) :: 64 word) = length ?r" by (simp add: unat_of_nat)
  have "read_size_varint (encode_delta ?b ops) =
      Some (word_of_nat (length ?b), encode_size (length ?r) @ concat (map encode_op ops))"
    using read_size_varint_encode [OF assms(2)] by (simp add: encode_delta_def)
  moreover have "read_size_varint (encode_size (length ?r) @ concat (map encode_op ops)) =
      Some (word_of_nat (length ?r), concat (map encode_op ops))"
    by (rule read_size_varint_encode [OF small])
  moreover have "apply_delta_ops ?b (length ?r) [] (concat (map encode_op ops)) = Inr ?r"
    using apply_encoded_ops [OF assms(1), of "[]" "length ?r"] by simp
  ultimately show ?thesis using dst assms(3) by (simp add: apply_delta_def)
qed

end
