(* ===== verification/Pack_Read.thy ===== *)
theory Pack_Read
  imports Pack_Cache Pack_Delta Path_Index
begin

text \<open>
  Reading a file out of a packchain: \<open>src/packchain/read.rs\<close> from \<open>read_blob\<close> to
  \<open>inflate_to\<close>, and the retry bounds of \<open>src/packchain/retry.rs\<close>. The reader's state is the
  store's with the pack index cache beside it. What gix does of the work is the record
  \<open>pack_libs\<close>: parsing an index, parsing an entry header, zlib, and the object hash.
  Buffers that grow (\<open>Entry::from_bytes\<close> never reads past what it is given, so
  \<open>header_size\<close> is within the buffer) are plain strings; offsets are natural numbers, as an
  overflow would need a pack of nearly \<open>2^64\<close> bytes.
\<close>

datatype entry_header =
    BlobHeader | CommitHeader | TreeHeader | TagHeader | OfsDelta nat | RefDelta string

record pack_entry =
  pe_header :: entry_header
  pe_decompressed_size :: nat
  pe_data_offset :: nat

datatype zlib_status = StreamEnd string | StreamOk | BufError | StreamError

record pack_libs =
  lib_index :: "string \<Rightarrow> string + pack_index_file"
  lib_entry :: "string \<Rightarrow> nat \<Rightarrow> string + pack_entry"
  lib_zlib :: "string \<Rightarrow> nat \<Rightarrow> zlib_status"
  lib_hash :: "object_kind \<Rightarrow> string \<Rightarrow> string + string"

definition MAX_DELTA_DEPTH :: nat where
  "MAX_DELTA_DEPTH = 50"

definition MAX_RANGE_BYTES :: nat where
  "MAX_RANGE_BYTES = 1024 * 1024 * 1024"

definition MAX_RANGE_EXPANSIONS :: nat where
  "MAX_RANGE_EXPANSIONS = 6"

definition PACK_MISSING_MAX_RETRIES :: nat where
  "PACK_MISSING_MAX_RETRIES = 3"

definition PACK_MISSING_RETRY_BACKOFFS :: "nat list" where
  "PACK_MISSING_RETRY_BACKOFFS = [100, 500, 2000]"

subsection \<open>Paths\<close>

fun check_segments :: "string \<Rightarrow> string list \<Rightarrow> packchain_error option" where
  "check_segments path [] = None"
| "check_segments path (seg # segs) =
     (if seg = [] then Some (MalformedPath path ''empty segment (consecutive or trailing slash)'')
      else if seg = ''..'' then Some (MalformedPath path ''`..` segments are not allowed'')
      else if seg = ''.'' then Some (MalformedPath path ''`.` segments are not allowed'')
      else check_segments path segs)"

definition parse_path :: "string \<Rightarrow> packchain_error + string list" where
  "parse_path path =
     (if path = [] then Inl (MalformedPath path ''empty path'')
      else if starts_with path ''/'' then Inl (MalformedPath path ''absolute paths are not allowed'')
      else
        (let segments = split_on CHR ''/'' path in
         case check_segments path segments of Some e \<Rightarrow> Inl e | None \<Rightarrow> Inr segments))"

fun walk_prefix :: "(string \<times> path_node) list \<Rightarrow> string list \<Rightarrow> (string \<times> path_node) list option" where
  "walk_prefix current [] = Some current"
| "walk_prefix current (seg # segs) =
     (case map_of current seg of
        Some (TreeNode children) \<Rightarrow> walk_prefix children segs
      | _ \<Rightarrow> None)"

definition walk_path ::
    "(string \<times> path_node) list \<Rightarrow> string list \<Rightarrow> string \<Rightarrow> string \<Rightarrow> packchain_error + string" where
  "walk_path root segments ref_name path =
     (case walk_prefix root (butlast segments) of
        None \<Rightarrow> Inl (PathNotFound ref_name path)
      | Some current \<Rightarrow>
          (case map_of current (last segments) of
             Some (BlobNode sha) \<Rightarrow> Inr sha
           | Some (TreeNode _) \<Rightarrow> Inl (PathNotABlob path)
           | None \<Rightarrow> Inl (PathNotFound ref_name path)))"

subsection \<open>Programs over the cache\<close>

definition cached :: "cache_key \<Rightarrow> ('s \<times> pack_cache, 'e, cached_index option) io" where
  "cached key = (\<lambda>(s, c). let (r, c') = cache_get key c in (Inr r, (s, c')))"

definition remember :: "cache_key \<Rightarrow> cached_index \<Rightarrow> ('s \<times> pack_cache, 'e, unit) io" where
  "remember key v = (\<lambda>(s, c). (Inr (), (s, cache_insert key v c)))"

definition load_index ::
    "pack_libs \<Rightarrow> 's store_api \<Rightarrow> string option \<Rightarrow> string \<Rightarrow>
     ('s \<times> pack_cache, packchain_error, cached_index) io" where
  "load_index L st pfx content_sha =
     (let key = (case pfx of Some p \<Rightarrow> p | None \<Rightarrow> [], content_sha) in
      and_then (cached key) (\<lambda>hit.
      case hit of
        Some idx \<Rightarrow> ok idx
      | None \<Rightarrow>
          (let idx_key = pack_idx_key pfx content_sha in
           match_io (in_store (st_get_bytes st idx_key))
             (\<lambda>e. case e of NotFound _ \<Rightarrow> fail_with (PackMissing idx_key) | _ \<Rightarrow> fail_with (PackStore e))
             (\<lambda>owned.
                case lib_index L owned of
                  Inl e \<Rightarrow> fail_with (MalformedPackEntry 0 (''idx parse: '' @ e))
                | Inr file \<Rightarrow>
                    (let sorted_offsets = if_sorted_offsets file;
                         offsets_bytes = min (length sorted_offsets * 8) (2 ^ 64 - 1);
                         new = \<lparr>ci_file = file, ci_sorted_offsets = sorted_offsets,
                           ci_bytes = min (length owned + offsets_bytes) (2 ^ 64 - 1)\<rparr> in
                     and_then (remember key new) (\<lambda>_. ok new))))))"

definition entry_end ::
    "'s store_api \<Rightarrow> string \<Rightarrow> nat \<Rightarrow> cached_index \<Rightarrow>
     ('s \<times> pack_cache, packchain_error, nat) io" where
  "entry_end st pack pack_offset idx =
     (case find (\<lambda>o'. pack_offset < o') (ci_sorted_offsets idx) of
        Some end' \<Rightarrow> ok end'
      | None \<Rightarrow>
          match_io (in_store (st_head st pack))
            (\<lambda>e. case e of NotFound _ \<Rightarrow> fail_with (PackMissing pack) | _ \<Rightarrow> fail_with (PackStore e))
            (\<lambda>meta.
               if om_size meta \<le> pack_offset
               then fail_with (MalformedPackEntry pack_offset ''entry offset beyond pack EOF'')
               else ok (om_size meta)))"

definition fetch_entry_bytes ::
    "'s store_api \<Rightarrow> string option \<Rightarrow> string \<Rightarrow> nat \<Rightarrow> cached_index \<Rightarrow>
     ('s \<times> pack_cache, packchain_error, string) io" where
  "fetch_entry_bytes st pfx content_sha pack_offset idx =
     (let pack = pack_key pfx content_sha in
      and_then (entry_end st pack pack_offset idx) (\<lambda>end'.
      let span = end' - pack_offset in
      if MAX_RANGE_BYTES < span
      then fail_with (MalformedPackEntry pack_offset
             (''entry range '' @ show_nat span @ '' bytes exceeds '' @ show_nat MAX_RANGE_BYTES @ ''-byte cap''))
      else
        match_io (in_store (st_get_bytes_range st pack pack_offset end'))
          (\<lambda>e. case e of NotFound _ \<Rightarrow> fail_with (PackMissing pack) | _ \<Rightarrow> fail_with (PackStore e))
          ok))"

subsection \<open>Inflating\<close>

datatype inflate_outcome = Inflated string | NeedMoreInput | InflateFailed

definition inflate_to :: "pack_libs \<Rightarrow> string \<Rightarrow> nat \<Rightarrow> inflate_outcome" where
  "inflate_to L input announced_size =
     (case lib_zlib L input announced_size of
        StreamEnd out \<Rightarrow> if length out \<noteq> announced_size then InflateFailed else Inflated out
      | StreamOk \<Rightarrow> NeedMoreInput
      | BufError \<Rightarrow> NeedMoreInput
      | StreamError \<Rightarrow> InflateFailed)"

function inflate_loop ::
    "pack_libs \<Rightarrow> 's store_api \<Rightarrow> string \<Rightarrow> nat \<Rightarrow> nat \<Rightarrow> nat \<Rightarrow> string \<Rightarrow> nat \<Rightarrow> nat \<Rightarrow>
     ('s \<times> pack_cache, packchain_error, string) io" where
  "inflate_loop L st pack pack_offset header_size decompressed_size buffer current_end expansions =
     (case inflate_to L (drop header_size buffer) decompressed_size of
        Inflated v \<Rightarrow> ok v
      | NeedMoreInput \<Rightarrow>
          if MAX_RANGE_EXPANSIONS \<le> expansions
          then fail_with (MalformedPackEntry pack_offset
                 ''ran out of compressed bytes after maximum range expansion'')
          else
            (let next_size = min ((current_end - pack_offset) * 2) MAX_RANGE_BYTES in
             if next_size \<le> current_end - pack_offset
             then fail_with (MalformedPackEntry pack_offset ''range expansion hit safety cap'')
             else
               (let new_end = pack_offset + next_size in
                match_io (in_store (st_get_bytes_range st pack pack_offset new_end))
                  (\<lambda>e. case e of
                     NotFound _ \<Rightarrow> fail_with (PackMissing pack)
                   | RangeNotSatisfiable _ _ _ \<Rightarrow>
                       fail_with (MalformedPackEntry pack_offset ''zlib stream truncated at pack EOF'')
                   | _ \<Rightarrow> fail_with (PackStore e))
                  (\<lambda>bytes. inflate_loop L st pack pack_offset header_size decompressed_size bytes new_end
                     (expansions + 1))))
      | InflateFailed \<Rightarrow> fail_with (Decompress pack_offset))"
  by pat_completeness auto
termination
  by (relation "measure (\<lambda>(_, _, _, _, _, _, _, _, n). MAX_RANGE_EXPANSIONS - n)") auto

declare inflate_loop.simps [simp del]

definition inflate_with_retry ::
    "pack_libs \<Rightarrow> 's store_api \<Rightarrow> string option \<Rightarrow> string \<Rightarrow> nat \<Rightarrow> string \<Rightarrow> nat \<Rightarrow> nat \<Rightarrow>
     ('s \<times> pack_cache, packchain_error, string) io" where
  "inflate_with_retry L st pfx content_sha pack_offset raw header_size decompressed_size =
     inflate_loop L st (pack_key pfx content_sha) pack_offset header_size decompressed_size raw
       (min (pack_offset + length raw) (2 ^ 64 - 1)) 0"

subsection \<open>Objects\<close>

definition verify_content_hash :: "pack_libs \<Rightarrow> string \<Rightarrow> resolved_object \<Rightarrow> packchain_error + unit" where
  "verify_content_hash L target_oid resolved =
     (case lib_hash L (ro_kind resolved) (ro_payload resolved) of
        Inl e \<Rightarrow> Inl (MalformedPackEntry 0 (''content-hash computation failed: '' @ e))
      | Inr actual \<Rightarrow> if actual \<noteq> target_oid then Inl (ContentHashMismatch target_oid actual) else Inr ())"

text \<open>
  The first segment whose index knows the object decides. \<open>decode\<close> stands for
  \<open>decode_entry\<close>, which calls back for the base of a delta.
\<close>

fun read_object_from_chain ::
    "pack_libs \<Rightarrow> 's store_api \<Rightarrow> string option \<Rightarrow>
     (string \<Rightarrow> nat \<Rightarrow> string \<Rightarrow> ('s \<times> pack_cache, packchain_error, resolved_object) io) \<Rightarrow>
     chain_segment list \<Rightarrow> string \<Rightarrow> ('s \<times> pack_cache, packchain_error, resolved_object) io" where
  "read_object_from_chain L st pfx decode [] target_oid = fail_with (BlobNotInChain target_oid [])"
| "read_object_from_chain L st pfx decode (segment # segments) target_oid =
     and_then (of_result (segment_pack_sha segment)) (\<lambda>content_sha.
     and_then (load_index L st pfx content_sha) (\<lambda>idx.
     case if_lookup (ci_file idx) target_oid of
       None \<Rightarrow> read_object_from_chain L st pfx decode segments target_oid
     | Some entry_index \<Rightarrow>
         (let pack_offset = if_offset_at (ci_file idx) entry_index in
          and_then (fetch_entry_bytes st pfx content_sha pack_offset idx) (\<lambda>bytes.
          and_then (decode content_sha pack_offset bytes) (\<lambda>resolved.
          and_then (of_result (verify_content_hash L target_oid resolved)) (\<lambda>_.
          ok resolved))))))"

text \<open>
  The budget is \<open>MAX_DELTA_DEPTH + 1 - depth\<close>: an entry has at most one base, so the counter
  of the code counts the entries on the way to this one.
\<close>

fun decode_entry ::
    "nat \<Rightarrow> pack_libs \<Rightarrow> 's store_api \<Rightarrow> string option \<Rightarrow> chain_segment list \<Rightarrow> string \<Rightarrow> nat \<Rightarrow> string \<Rightarrow>
     ('s \<times> pack_cache, packchain_error, resolved_object) io" where
  "decode_entry 0 L st pfx chain content_sha pack_offset raw = fail_with (DeltaTooDeep MAX_DELTA_DEPTH)"
| "decode_entry (Suc budget) L st pfx chain content_sha pack_offset raw =
     (case lib_entry L raw pack_offset of
        Inl e \<Rightarrow> fail_with (MalformedPackEntry pack_offset e)
      | Inr entry \<Rightarrow>
          (let header_size = pe_data_offset entry - pack_offset in
           if MAX_DECOMPRESSED_BYTES < pe_decompressed_size entry
           then fail_with (MalformedPackEntry pack_offset
                  (''decompressed object size '' @ show_nat (pe_decompressed_size entry) @
                   '' exceeds '' @ show_nat MAX_DECOMPRESSED_BYTES @ ''-byte cap''))
           else
             and_then (inflate_with_retry L st pfx content_sha pack_offset raw header_size
                (pe_decompressed_size entry)) (\<lambda>inflated.
             case pe_header entry of
               BlobHeader \<Rightarrow> ok \<lparr>ro_payload = inflated, ro_kind = BlobKind\<rparr>
             | CommitHeader \<Rightarrow> ok \<lparr>ro_payload = inflated, ro_kind = CommitKind\<rparr>
             | TreeHeader \<Rightarrow> ok \<lparr>ro_payload = inflated, ro_kind = TreeKind\<rparr>
             | TagHeader \<Rightarrow> ok \<lparr>ro_payload = inflated, ro_kind = TagKind\<rparr>
             | OfsDelta base_distance \<Rightarrow>
                 if pack_offset < base_distance
                 then fail_with (MalformedPackEntry pack_offset
                        ''ofs-delta base distance underflows pack offset'')
                 else
                   (let base_offset = pack_offset - base_distance in
                    and_then (load_index L st pfx content_sha) (\<lambda>idx.
                    and_then (fetch_entry_bytes st pfx content_sha base_offset idx) (\<lambda>base_bytes.
                    and_then (decode_entry budget L st pfx chain content_sha base_offset base_bytes) (\<lambda>base.
                    of_result (apply_delta base inflated)))))
             | RefDelta base_id \<Rightarrow>
                 and_then (read_object_from_chain L st pfx (decode_entry budget L st pfx chain) chain base_id)
                   (\<lambda>base. of_result (apply_delta base inflated)))))"

subsection \<open>Reading a blob\<close>

text \<open>\<open>pause ms\<close> is the sleep before a retry: what other clients do to the store meanwhile.\<close>

definition sleep_io :: "(nat \<Rightarrow> 's \<Rightarrow> 's) \<Rightarrow> nat \<Rightarrow> ('s \<times> 'c, 'e, unit) io" where
  "sleep_io pause ms = (\<lambda>(s, c). (Inr (), (pause ms s, c)))"

function read_with_pack_missing_retries ::
    "pack_libs \<Rightarrow> ext \<Rightarrow> 's store_api \<Rightarrow> (nat \<Rightarrow> 's \<Rightarrow> 's) \<Rightarrow> string option \<Rightarrow> string \<Rightarrow> string \<Rightarrow>
     chain_manifest \<Rightarrow> string \<Rightarrow> nat \<Rightarrow> ('s \<times> pack_cache, packchain_error, resolved_object) io" where
  "read_with_pack_missing_retries L x st pause pfx remote_ref ref_name current_chain blob_oid attempt =
     match_io (read_object_from_chain L st pfx
          (decode_entry (MAX_DELTA_DEPTH + 1) L st pfx (cm_segments current_chain))
          (cm_segments current_chain) blob_oid)
       (\<lambda>e. case e of
          PackMissing missing_key \<Rightarrow>
            and_then (in_store (load_chain x st pfx remote_ref)) (\<lambda>r.
            case r of
              None \<Rightarrow> fail_with (ChainAbsent ref_name)
            | Some reloaded \<Rightarrow>
                and_then (of_result (chain_references_pack_key reloaded pfx missing_key)) (\<lambda>referenced.
                if referenced then fail_with (PackMissing missing_key)
                else if PACK_MISSING_MAX_RETRIES \<le> attempt
                then fail_with (ConcurrentGcRetriesExhausted missing_key attempt)
                else
                  and_then (sleep_io pause (PACK_MISSING_RETRY_BACKOFFS ! attempt)) (\<lambda>_.
                  read_with_pack_missing_retries L x st pause pfx remote_ref ref_name reloaded blob_oid
                    (attempt + 1))))
        | _ \<Rightarrow> fail_with e)
       ok"
  by pat_completeness auto
termination
  by (relation "measure (\<lambda>(_, _, _, _, _, _, _, _, _, n). PACK_MISSING_MAX_RETRIES - n)") auto

declare read_with_pack_missing_retries.simps [simp del]

definition read_located_blob ::
    "pack_libs \<Rightarrow> ext \<Rightarrow> 's store_api \<Rightarrow> (nat \<Rightarrow> 's \<Rightarrow> 's) \<Rightarrow> string option \<Rightarrow> string \<Rightarrow> string \<Rightarrow>
     chain_manifest \<Rightarrow> string \<Rightarrow> ('s \<times> pack_cache, packchain_error, string) io" where
  "read_located_blob L x st pause pfx ref_name path chain blob_sha =
     match_io (read_with_pack_missing_retries L x st pause pfx ref_name ref_name chain blob_sha 0)
       (\<lambda>e. case e of
          BlobNotInChain sha _ \<Rightarrow>
            if sha = blob_sha then fail_with (BlobNotInChain blob_sha path) else fail_with e
        | _ \<Rightarrow> fail_with e)
       (\<lambda>resolved.
          if ro_kind resolved = BlobKind then ok (ro_payload resolved)
          else fail_with (BlobNotInChain blob_sha path))"

definition read_blob ::
    "pack_libs \<Rightarrow> ext \<Rightarrow> 's store_api \<Rightarrow> (nat \<Rightarrow> 's \<Rightarrow> 's) \<Rightarrow> storage_engine \<Rightarrow> string \<Rightarrow> string \<Rightarrow> string \<Rightarrow>
     ('s \<times> pack_cache, packchain_error, string) io" where
  "read_blob L x st pause engine remote_prefix ref_name path =
     (if engine \<noteq> PackchainEngine then fail_with (WrongEngine engine)
      else
        and_then (of_result (parse_path path)) (\<lambda>segments.
        if \<not> ref_name_ok x ref_name then fail_with (InvalidRefName ref_name)
        else
          (let pfx = (if remote_prefix = [] then None else Some remote_prefix) in
           and_then (in_store (load_chain x st pfx ref_name)) (\<lambda>loaded.
           case loaded of
             None \<Rightarrow> fail_with (ChainAbsent ref_name)
           | Some chain \<Rightarrow>
               and_then (in_store (load_path_index x st pfx ref_name)) (\<lambda>loaded_index.
               case loaded_index of
                 None \<Rightarrow> fail_with (PathIndexAbsent ref_name)
               | Some path_index \<Rightarrow>
                   if px_tip path_index \<noteq> cm_tip chain
                   then fail_with (TransientChainPathIndexMismatch ref_name (cm_tip chain) (px_tip path_index))
                   else
                     and_then (of_result (walk_path (px_tree path_index) segments ref_name path)) (\<lambda>blob_sha.
                     read_located_blob L x st pause pfx ref_name path chain blob_sha))))))"

end
