(* ===== verification/Pack_Read_Proofs.thy ===== *)
theory Pack_Read_Proofs
  imports Pack_Read Path_Index_Proofs Demo_World
begin

text \<open>
  The reader is right: paths are parsed and resolved exactly, a blob is only returned when it
  hashes to the sha the path index gives for the path, and what the packs hold is found,
  whatever the cache of indexes contains. Packs are described by \<open>stored_object\<close>, a pure
  reading of the bucket.
\<close>

subsection \<open>Paths\<close>

definition segment_ok :: "string \<Rightarrow> bool" where
  "segment_ok seg \<longleftrightarrow> seg \<noteq> [] \<and> seg \<noteq> ''.'' \<and> seg \<noteq> ''..''"

lemma check_segments_None: "check_segments path segs = None \<longleftrightarrow> list_all segment_ok segs"
  by (induction segs) (auto simp: segment_ok_def)

lemma check_segments_Some: "check_segments path segs = Some e \<Longrightarrow> \<exists>reason. e = MalformedPath path reason"
  by (induction segs) (auto split: if_splits)

lemma walk_prefix_blob:
  "segs \<noteq> [] \<Longrightarrow> index_blob root segs =
     (case walk_prefix root (butlast segs) of
        None \<Rightarrow> None
      | Some current \<Rightarrow> (case map_of current (last segs) of Some (BlobNode sha) \<Rightarrow> Some sha | _ \<Rightarrow> None))"
  by (induction root segs rule: index_blob.induct) (auto split: option.splits path_node.splits)

lemma walk_path_Inr: "segs \<noteq> [] \<Longrightarrow> walk_path root segs r path = Inr sha \<longleftrightarrow> index_blob root segs = Some sha"
  by (auto simp: walk_path_def walk_prefix_blob split: option.splits path_node.splits)

lemma parse_path_Inr: "parse_path path = Inr segs \<longleftrightarrow>
    segs \<noteq> [] \<and> path = join_on ''/'' segs \<and> list_all (\<lambda>seg. segment_ok seg \<and> CHR ''/'' \<notin> set seg) segs"
    (is "?l \<longleftrightarrow> ?r")
proof
  assume ?l
  then show ?r
    by (auto simp: parse_path_def Let_def check_segments_None list_all_iff dest: split_on_parts
        split: if_splits option.splits)
next
  assume r: ?r
  then have split: "split_on CHR ''/'' path = segs"
    by (auto simp: list_all_iff intro!: split_on_join)
  from r obtain seg rest where segs: "segs = seg # rest" by (cases segs) auto
  with r obtain c seg' where c: "seg = c # seg'" "c \<noteq> CHR ''/''" by (cases seg) (auto simp: segment_ok_def)
  have "path \<noteq> [] \<and> \<not> starts_with path ''/''"
    using r c by (cases rest) (auto simp: segs)
  moreover have "check_segments path segs = None" using r by (simp add: check_segments_None list_all_iff)
  ultimately show ?l by (simp add: parse_path_def Let_def split)
qed

lemma parse_path_Inl: "parse_path path = Inl e \<Longrightarrow> \<exists>reason. e = MalformedPath path reason"
  by (auto simp: parse_path_def Let_def dest: check_segments_Some split: if_splits option.splits)

subsection \<open>Whatever is returned has the right hash\<close>

definition hashes :: "pack_libs \<Rightarrow> string \<Rightarrow> resolved_object \<Rightarrow> bool" where
  "hashes L oid r \<longleftrightarrow> lib_hash L (ro_kind r) (ro_payload r) = Inr oid"

lemma verify_content_hash_Inr [simp]: "verify_content_hash L oid r = Inr u \<longleftrightarrow> hashes L oid r"
  by (auto simp: verify_content_hash_def hashes_def split: sum.splits if_splits)

text \<open>Only the end of a program matters for what it returns.\<close>

lemma yields_after: "(\<And>x. yields P (\<lambda>_. True) (f x)) \<Longrightarrow> yields P (\<lambda>_. True) (and_then m f)"
  by (rule yields_and_then [OF yields_any [where P = "\<lambda>_. True"]]) auto

lemma yields_checked:
  "(\<And>u. r = Inr u \<Longrightarrow> yields P (\<lambda>_. True) (f u)) \<Longrightarrow> yields P (\<lambda>_. True) (and_then (of_result r) f)"
  by (rule yields_and_then [where A = "\<lambda>u. r = Inr u"]) (auto intro: yields_of_result)

lemma read_object_hashes:
  "yields (hashes L oid) (\<lambda>_. True) (read_object_from_chain L st pfx decode segs oid)"
proof (induction segs)
  case Nil
  show ?case by (auto intro: yields_intros)
next
  case (Cons g segs)
  show ?case unfolding read_object_from_chain.simps Let_def
    by (rule yields_checked, rule yields_after, rule yields_option, rule Cons, rule yields_after,
        rule yields_after, rule yields_checked, rule yields_ok) simp
qed

lemma retries_hash:
  "yields (hashes L oid) (\<lambda>_. True)
     (read_with_pack_missing_retries L x st pause pfx remote_ref ref_name chain oid attempt)"
proof (induction L x st pause pfx remote_ref ref_name chain oid attempt
    rule: read_with_pack_missing_retries.induct)
  case (1 L x st pause pfx remote_ref ref_name chain oid attempt)
  show ?case
    by (subst read_with_pack_missing_retries.simps, rule yields_match [OF read_object_hashes])
      (auto intro!: yields_ok yields_fail yields_after yields_checked yields_option yields_if 1
        split: packchain_error.split)
qed

subsection \<open>A returned blob is the recorded one\<close>

definition path_index_at :: "ext \<Rightarrow> bucket \<Rightarrow> string \<Rightarrow> path_index option" where
  "path_index_at x v key =
     (case v key of
        None \<Rightarrow> None
      | Some (b, _) \<Rightarrow> (case path_index_from_json_bytes x b of Inl _ \<Rightarrow> None | Inr p \<Rightarrow> Some p))"

definition recorded :: "pack_libs \<Rightarrow> ext \<Rightarrow> bucket \<Rightarrow> string option \<Rightarrow> string \<Rightarrow> string \<Rightarrow> string \<Rightarrow> bool" where
  "recorded L x v pfx r path payload \<longleftrightarrow>
     (\<exists>chain index segs sha. parse_path path = Inr segs \<and>
        chain_at x v (chain_key pfx r) = Some chain \<and> path_index_at x v (path_index_key pfx r) = Some index \<and>
        px_tip index = cm_tip chain \<and> index_blob (px_tree index) segs = Some sha \<and>
        lib_hash L BlobKind payload = Inr sha)"

lemma recordedI:
  assumes "parse_path path = Inr segs" "Some chain = chain_at x v (chain_key pfx r)"
    and "path_index_at x v (path_index_key pfx r) = Some index" "px_tip index = cm_tip chain"
    and "walk_path (px_tree index) segs r path = Inr sha" "lib_hash L BlobKind payload = Inr sha"
  shows "recorded L x v pfx r path payload"
proof -
  have "segs \<noteq> []" using assms(1) by (simp add: parse_path_Inr)
  then have "index_blob (px_tree index) segs = Some sha" using assms(5) by (simp add: walk_path_Inr)
  with assms show ?thesis unfolding recorded_def by (metis (no_types))
qed

lemma located_hashes:
  "yields (\<lambda>payload. lib_hash L BlobKind payload = Inr sha) (\<lambda>_. True)
     (read_located_blob L x st pause pfx r path chain sha)"
  unfolding read_located_blob_def
  by (rule yields_match [OF retries_hash])
    (auto intro!: yields_intros simp: hashes_def split: packchain_error.split)

context store_contract
begin

lemma wp_load_path_index:
  assumes "\<And>p t. view t = view s \<Longrightarrow> (honest s \<Longrightarrow> honest t) \<Longrightarrow>
      (\<And>q. p = Some q \<Longrightarrow> path_index_at x (view s) (path_index_key pfx r) = Some q) \<Longrightarrow> Q p t"
    and "\<And>e t. view t = view s \<Longrightarrow> (honest s \<Longrightarrow> honest t) \<Longrightarrow> E e t"
  shows "wp (load_path_index x st pfx r) Q E s"
  unfolding load_path_index_def
  by (intro wp_intros)
    (auto intro!: wp_intros assms simp: path_index_at_def split: store_error.split packchain_error.split)

lemma wp_read_blob:
  "wp (read_blob L x st pause engine rp r path)
     (\<lambda>payload _. engine = PackchainEngine \<and>
        recorded L x (view (fst p)) (if rp = [] then None else Some rp) r path payload)
     (\<lambda>_ _. True) p"
  unfolding read_blob_def Let_def
  by (intro wp_intros wp_load_path_index wp_mono [OF yields_wp [OF located_hashes]])
    (auto intro: recordedI)

end

subsection \<open>What the packs hold is found\<close>

definition index_of :: "pack_libs \<Rightarrow> string option \<Rightarrow> bucket \<Rightarrow> string \<Rightarrow> pack_index_file option" where
  "index_of L pfx v sha =
     Option.bind (v (pack_idx_key pfx sha)) (\<lambda>(b, _). case lib_index L b of Inl _ \<Rightarrow> None | Inr f \<Rightarrow> Some f)"

text \<open>An entry reaches to the next one, the last one to the end of the pack.\<close>

definition entry_bytes_of :: "string option \<Rightarrow> bucket \<Rightarrow> string \<Rightarrow> pack_index_file \<Rightarrow> nat \<Rightarrow> string option" where
  "entry_bytes_of pfx v sha f off =
     Option.bind (v (pack_key pfx sha)) (\<lambda>(body, _).
       let stop = (case find (\<lambda>o'. off < o') (if_sorted_offsets f) of Some e \<Rightarrow> e | None \<Rightarrow> length body) in
       if off < stop \<and> stop \<le> length body \<and> stop - off \<le> MAX_RANGE_BYTES
       then Some (take (stop - off) (drop off body)) else None)"

fun find_entry :: "pack_libs \<Rightarrow> string option \<Rightarrow> bucket \<Rightarrow> chain_segment list \<Rightarrow> string \<Rightarrow> (string \<times> nat) option" where
  "find_entry L pfx v [] oid = None"
| "find_entry L pfx v (g # segs) oid =
     Option.bind (sha_from_pack_key (seg_pack g)) (\<lambda>sha.
     Option.bind (index_of L pfx v sha) (\<lambda>f.
     case if_lookup f oid of
       None \<Rightarrow> find_entry L pfx v segs oid
     | Some i \<Rightarrow> Some (sha, if_offset_at f i)))"

definition right_option :: "'e + 'a \<Rightarrow> 'a option" where
  "right_option r = (case r of Inl _ \<Rightarrow> None | Inr x \<Rightarrow> Some x)"

lemma right_option_Some [simp]: "right_option r = Some x \<longleftrightarrow> r = Inr x"
  by (auto simp: right_option_def split: sum.splits)

lemma right_option_simps [simp]: "right_option (Inl e) = None" "right_option (Inr x) = Some x"
  by (simp_all add: right_option_def)

definition checked_object :: "pack_libs \<Rightarrow> string \<Rightarrow> resolved_object \<Rightarrow> resolved_object option" where
  "checked_object L oid r = (if hashes L oid r then Some r else None)"

fun stored_entry ::
    "nat \<Rightarrow> pack_libs \<Rightarrow> string option \<Rightarrow> bucket \<Rightarrow> chain_segment list \<Rightarrow> string \<Rightarrow> nat \<Rightarrow> resolved_object option" where
  "stored_entry 0 L pfx v chain sha off = None"
| "stored_entry (Suc n) L pfx v chain sha off =
     Option.bind (index_of L pfx v sha) (\<lambda>f.
     Option.bind (entry_bytes_of pfx v sha f off) (\<lambda>raw.
     Option.bind (right_option (lib_entry L raw off)) (\<lambda>entry.
     case inflate_to L (drop (pe_data_offset entry - off) raw) (pe_decompressed_size entry) of
       Inflated data \<Rightarrow>
         if MAX_DECOMPRESSED_BYTES < pe_decompressed_size entry then None
         else
           (case pe_header entry of
              BlobHeader \<Rightarrow> Some \<lparr>ro_payload = data, ro_kind = BlobKind\<rparr>
            | CommitHeader \<Rightarrow> Some \<lparr>ro_payload = data, ro_kind = CommitKind\<rparr>
            | TreeHeader \<Rightarrow> Some \<lparr>ro_payload = data, ro_kind = TreeKind\<rparr>
            | TagHeader \<Rightarrow> Some \<lparr>ro_payload = data, ro_kind = TagKind\<rparr>
            | OfsDelta d \<Rightarrow>
                if off < d then None
                else Option.bind (stored_entry n L pfx v chain sha (off - d)) (\<lambda>base. right_option (apply_delta base data))
            | RefDelta base_id \<Rightarrow>
                Option.bind (find_entry L pfx v chain base_id) (\<lambda>(bsha, boff).
                Option.bind (stored_entry n L pfx v chain bsha boff) (\<lambda>r.
                Option.bind (checked_object L base_id r) (\<lambda>base. right_option (apply_delta base data)))))
     | _ \<Rightarrow> None)))"

definition stored_object ::
    "pack_libs \<Rightarrow> string option \<Rightarrow> bucket \<Rightarrow> chain_segment list \<Rightarrow> string \<Rightarrow> resolved_object option" where
  "stored_object L pfx v chain oid =
     Option.bind (find_entry L pfx v chain oid) (\<lambda>(sha, off).
     Option.bind (stored_entry (MAX_DELTA_DEPTH + 1) L pfx v chain sha off) (checked_object L oid))"

text \<open>A cache tells the truth when each of its entries is what its index on the bucket parses to.\<close>

definition cache_true :: "pack_libs \<Rightarrow> bucket \<Rightarrow> pack_cache \<Rightarrow> bool" where
  "cache_true L v c \<longleftrightarrow>
     (\<forall>p sha e. lru_map c (p, sha) = Some e \<longrightarrow>
        index_of L (Some p) v sha = Some (ci_file e) \<and> ci_sorted_offsets e = if_sorted_offsets (ci_file e))"

lemma cache_get_true: "cache_true L v c \<Longrightarrow> cache_true L v (snd (cache_get k c))"
  by (auto simp: cache_get_def cache_true_def split: option.split)

lemma evict_sub:
  "evict bytes capacity m order resident = (m', order', resident') \<Longrightarrow> m' k = Some e \<Longrightarrow> m k = Some e"
proof (induction order arbitrary: m resident)
  case (Cons oldest order)
  show ?case
  proof (cases "capacity < resident + bytes")
    case True
    with Cons show ?thesis by (cases "m oldest") (fastforce split: if_splits)+
  next
    case False
    with Cons.prems show ?thesis by simp
  qed
qed simp

lemma cache_insert_sub:
  "lru_map (cache_insert k v c) k' = Some e \<Longrightarrow> (k' = k \<and> e = v) \<or> lru_map c k' = Some e"
  by (auto simp: cache_insert_def Let_def split: if_splits prod.splits dest: evict_sub)

lemma cache_insert_true:
  assumes "cache_true L v c" "index_of L (Some p) v sha = Some (ci_file e)"
    and "ci_sorted_offsets e = if_sorted_offsets (ci_file e)"
  shows "cache_true L v (cache_insert (p, sha) e c)"
  unfolding cache_true_def
proof (intro allI impI)
  fix q t e'
  assume "lru_map (cache_insert (p, sha) e c) (q, t) = Some e'"
  from cache_insert_sub [OF this] assms show "index_of L (Some q) v t = Some (ci_file e') \<and>
      ci_sorted_offsets e' = if_sorted_offsets (ci_file e')"
    by (auto simp: cache_true_def)
qed

lemma pack_idx_key_default: "pack_idx_key (Some (case pfx of Some p \<Rightarrow> p | None \<Rightarrow> [])) sha = pack_idx_key pfx sha"
  by (auto simp: pack_idx_key_def split: option.split)

lemma index_of_default: "index_of L (Some (case pfx of Some p \<Rightarrow> p | None \<Rightarrow> [])) v sha = index_of L pfx v sha"
  by (simp add: index_of_def pack_idx_key_default)

lemma index_of_Some:
  "index_of L pfx v sha = Some f \<longleftrightarrow> (\<exists>b m. v (pack_idx_key pfx sha) = Some (b, m) \<and> lib_index L b = Inr f)"
  by (cases "v (pack_idx_key pfx sha)") (auto simp: index_of_def split: sum.splits)

lemma wp_cached:
  assumes "\<And>hit c'. cache_get key (snd p) = (hit, c') \<Longrightarrow> Q hit (fst p, c')"
  shows "wp (cached key) Q E p"
  using assms by (cases p) (auto simp: wp_def cached_def split: prod.splits)

lemma wp_remember: "Q () (fst p, cache_insert key v (snd p)) \<Longrightarrow> wp (remember key v) Q E p"
  by (cases p) (auto simp: wp_def remember_def)

lemma wp_inflated:
  "inflate_to L (drop h raw) n = Inflated data \<Longrightarrow> Q data p \<Longrightarrow>
   wp (inflate_with_retry L st pfx sha off raw h n) Q E p"
  unfolding inflate_with_retry_def by (subst inflate_loop.simps) (simp add: wp_ok)

context calm_store
begin

text \<open>What a step of the reader keeps of the world: the store calm and unchanged, the cache true.\<close>

definition reading :: "pack_libs \<Rightarrow> bucket \<Rightarrow> 's \<times> pack_cache \<Rightarrow> bool" where
  "reading L v p \<longleftrightarrow> calm (fst p) \<and> view (fst p) = v \<and> cache_true L v (snd p)"

lemma calm_load_index:
  assumes "reading L v p" "index_of L pfx v sha = Some f"
    and "\<And>idx q. reading L v q \<Longrightarrow> ci_file idx = f \<Longrightarrow> ci_sorted_offsets idx = if_sorted_offsets f \<Longrightarrow> Q idx q"
  shows "wp (load_index L st pfx sha) Q E p"
proof -
  from assms(2) obtain b m where b: "v (pack_idx_key pfx sha) = Some (b, m)" "lib_index L b = Inr f"
    by (auto simp: index_of_Some)
  have true: "cache_true L v c'" if "cache_get key (snd p) = (hit, c')" for key hit c'
    using cache_get_true [of L v "snd p" key] assms(1) that by (simp add: reading_def)
  have hit: "ci_file e = f \<and> ci_sorted_offsets e = if_sorted_offsets f"
    if "cache_get (case pfx of Some p \<Rightarrow> p | None \<Rightarrow> [], sha) (snd p) = (Some e, c')" for e c'
  proof -
    from that have "lru_map (snd p) (case pfx of Some p \<Rightarrow> p | None \<Rightarrow> [], sha) = Some e"
      by (auto simp: cache_get_def split: option.splits)
    with assms(1) have "index_of L (Some (case pfx of Some p \<Rightarrow> p | None \<Rightarrow> [])) v sha = Some (ci_file e) \<and>
        ci_sorted_offsets e = if_sorted_offsets (ci_file e)"
      unfolding reading_def cache_true_def by blast
    with assms(2) show ?thesis by (simp add: index_of_default)
  qed
  have hit_case: "Q e (fst p, c')" if "cache_get (case pfx of Some p \<Rightarrow> p | None \<Rightarrow> [], sha) (snd p) = (Some e, c')" for e c'
    using assms(1,3) hit [OF that] true [OF that] by (simp add: reading_def)
  have miss_case: "Q new (t, cache_insert (case pfx of Some p \<Rightarrow> p | None \<Rightarrow> [], sha) new c')"
    if "cache_get (case pfx of Some p \<Rightarrow> p | None \<Rightarrow> [], sha) (snd p) = (None, c')" "calm t" "view t = view (fst p)"
      "ci_file new = f" "ci_sorted_offsets new = if_sorted_offsets f" for c' t new
    using that(2-) assms(1,2) true [OF that(1)]
    by (intro assms(3)) (auto simp: reading_def index_of_default intro: cache_insert_true)
  have calm: "calm (fst p)" "view (fst p) = v" using assms(1) by (simp_all add: reading_def)
  show ?thesis unfolding load_index_def Let_def
    by (intro wp_and_then wp_cached wp_option wp_match wp_in_store calm_wp_get_bytes)
      (use calm b in \<open>auto intro!: wp_intros wp_remember intro: hit_case miss_case\<close>)
qed

lemma calm_fetch_entry_bytes:
  assumes "reading L v p" "entry_bytes_of pfx v sha f off = Some raw"
    and "ci_sorted_offsets idx = if_sorted_offsets f"
    and "\<And>q. reading L v q \<Longrightarrow> Q raw q"
  shows "wp (fetch_entry_bytes st pfx sha off idx) Q E p"
proof -
  obtain body m where body: "v (pack_key pfx sha) = Some (body, m)"
    using assms(2) by (cases "v (pack_key pfx sha)") (auto simp: entry_bytes_of_def)
  define stop where "stop = (case find (\<lambda>o'. off < o') (if_sorted_offsets f) of Some e \<Rightarrow> e | None \<Rightarrow> length body)"
  have stop: "off < stop" "stop \<le> length body" "stop - off \<le> MAX_RANGE_BYTES" "raw = take (stop - off) (drop off body)"
    using assms(2) by (auto simp: entry_bytes_of_def body Let_def stop_def split: if_splits)
  have calm: "calm (fst p)" "view (fst p) = v" "cache_true L v (snd p)" using assms(1) by (simp_all add: reading_def)
  have range: "wp (st_get_bytes_range st (pack_key pfx sha) off stop) (\<lambda>x t. Q x (t, c)) E' s"
    if "calm s" "view s = v" "cache_true L v c" for s c E'
    using stop that assms(4) body
    by (intro calm_wp_get_bytes_range [where b = body and m = m]) (auto simp: reading_def)
  have "wp (entry_end st (pack_key pfx sha) off idx) (\<lambda>e q. e = stop \<and> reading L v q) (\<lambda>_ _. False) p"
  proof (cases "find (\<lambda>o'. off < o') (if_sorted_offsets f)")
    case None
    then have eq: "stop = length body" by (simp add: stop_def)
    then show ?thesis using calm body stop(1)
      unfolding entry_end_def assms(3) None option.case
      by (intro wp_match wp_in_store calm_wp_head_size [where b = body and m = m])
        (auto intro!: wp_ok simp: reading_def)
  next
    case (Some e)
    then have "e = stop" by (simp add: stop_def)
    then show ?thesis using assms(1) unfolding entry_end_def assms(3) Some option.case by (intro wp_ok) simp
  qed
  then show ?thesis unfolding fetch_entry_bytes_def Let_def
    by (intro wp_and_then, elim wp_mono)
      (use stop(3) in \<open>auto intro!: wp_match wp_in_store wp_mono [OF range] wp_ok simp: reading_def\<close>)
qed

definition reads :: "pack_libs \<Rightarrow> bucket \<Rightarrow> ('s \<times> pack_cache, packchain_error, 'b) io \<Rightarrow> 'b \<Rightarrow> bool" where
  "reads L v m r \<longleftrightarrow>
     (\<forall>p. reading L v p \<longrightarrow> wp m (\<lambda>x q. x = r \<and> reading L v q) (\<lambda>_ _. False) p)"

lemma readsI: "(\<And>p. reading L v p \<Longrightarrow> wp m (\<lambda>x q. x = r \<and> reading L v q) (\<lambda>_ _. False) p) \<Longrightarrow> reads L v m r"
  by (simp add: reads_def)

lemma reads_ok: "reads L v (ok r) r"
  by (auto intro!: readsI wp_ok)

lemma reads_and_then: "reads L v m x \<Longrightarrow> reads L v (f x) r \<Longrightarrow> reads L v (and_then m f) r"
proof (rule readsI, rule wp_and_then)
  fix p
  assume m: "reads L v m x" and f: "reads L v (f x) r" and p: "reading L v p"
  from m p have "wp m (\<lambda>y q. y = x \<and> reading L v q) (\<lambda>_ _. False) p" unfolding reads_def by blast
  then show "wp m (\<lambda>y. wp (f y) (\<lambda>z q. z = r \<and> reading L v q) (\<lambda>_ _. False)) (\<lambda>_ _. False) p"
    by (rule wp_mono) (use f in \<open>auto simp: reads_def\<close>)
qed

lemma reads_of_result: "res = Inr x \<Longrightarrow> reads L v (f x) r \<Longrightarrow> reads L v (and_then (of_result res) f) r"
  unfolding reads_def by (auto intro!: wp_and_then wp_of_result)

lemma reads_load_index:
  assumes "index_of L pfx v sha = Some f"
    and "\<And>idx. ci_file idx = f \<Longrightarrow> ci_sorted_offsets idx = if_sorted_offsets f \<Longrightarrow> reads L v (g idx) r"
  shows "reads L v (and_then (load_index L st pfx sha) g) r"
  using assms(2) by (auto simp: reads_def intro!: wp_and_then calm_load_index [OF _ assms(1)])

lemma reads_fetch:
  assumes "entry_bytes_of pfx v sha f off = Some raw" "ci_sorted_offsets idx = if_sorted_offsets f"
    and "reads L v (g raw) r"
  shows "reads L v (and_then (fetch_entry_bytes st pfx sha off idx) g) r"
  using assms(3) by (auto simp: reads_def intro!: wp_and_then calm_fetch_entry_bytes [OF _ assms(1,2)])

lemma reads_object:
  assumes "find_entry L pfx v segs oid = Some (sha, off)" "index_of L pfx v sha = Some f"
    and "entry_bytes_of pfx v sha f off = Some raw" "reads L v (decode sha off raw) r" "hashes L oid r"
  shows "reads L v (read_object_from_chain L st pfx decode segs oid) r"
  using assms(1)
proof (induction segs)
  case (Cons g segs)
  from Cons.prems obtain gsha gf where g: "sha_from_pack_key (seg_pack g) = Some gsha" "index_of L pfx v gsha = Some gf"
    by (auto simp: bind_eq_Some_conv)
  show ?case
  proof (cases "if_lookup gf oid")
    case None
    with Cons g show ?thesis
      by (auto simp: segment_pack_sha_def intro!: reads_of_result reads_load_index)
  next
    case (Some i)
    with Cons.prems g assms(2) have "gsha = sha" "if_offset_at gf i = off" "gf = f" by auto
    with Some g have idx: "if_lookup f oid = Some i" "if_offset_at f i = off" "segment_pack_sha g = Inr sha"
      by (simp_all add: segment_pack_sha_def)
    have rest: "reads L v (and_then (decode sha off raw) (\<lambda>resolved.
        and_then (of_result (verify_content_hash L oid resolved)) (\<lambda>_. ok resolved))) r"
      by (rule reads_and_then [OF assms(4)], rule reads_of_result [where x = "()"])
        (use assms(5) in \<open>auto intro: reads_ok\<close>)
    show ?thesis unfolding read_object_from_chain.simps
    proof (rule reads_of_result [OF idx(3)], rule reads_load_index [OF assms(2)])
      fix idx' :: cached_index
      assume i: "ci_file idx' = f" "ci_sorted_offsets idx' = if_sorted_offsets f"
      have "reads L v (and_then (fetch_entry_bytes st pfx sha off idx') (\<lambda>bytes.
          and_then (decode sha off bytes) (\<lambda>resolved.
          and_then (of_result (verify_content_hash L oid resolved)) (\<lambda>_. ok resolved)))) r"
        by (rule reads_fetch [OF assms(3) i(2)]) (rule rest)
      then show "reads L v
        (case if_lookup (ci_file idx') oid of
           None \<Rightarrow> read_object_from_chain L st pfx decode segs oid
         | Some entry_index \<Rightarrow>
             let pack_offset = if_offset_at (ci_file idx') entry_index in
             and_then (fetch_entry_bytes st pfx sha pack_offset idx') (\<lambda>bytes.
             and_then (decode sha pack_offset bytes) (\<lambda>resolved.
             and_then (of_result (verify_content_hash L oid resolved)) (\<lambda>_. ok resolved)))) r"
        using idx(1,2) i(1) by simp
    qed
  qed
qed simp

lemma reads_delta: "reads L v m base \<Longrightarrow> apply_delta base data = Inr r \<Longrightarrow>
    reads L v (and_then m (\<lambda>b. of_result (apply_delta b data))) r"
  by (rule reads_and_then) (auto simp: reads_def wp_def of_result_def)

lemma reads_entry:
  assumes "stored_entry n L pfx v chain sha off = Some r" "index_of L pfx v sha = Some f"
    and "entry_bytes_of pfx v sha f off = Some raw"
  shows "reads L v (decode_entry n L st pfx chain sha off raw) r"
  using assms
proof (induction n arbitrary: sha off raw r f)
  case (Suc n)
  from Suc.prems obtain e where e0: "lib_entry L raw off = Inr e" by (auto simp: bind_eq_Some_conv)
  with Suc.prems obtain data where
    e1: "inflate_to L (drop (pe_data_offset e - off) raw) (pe_decompressed_size e) = Inflated data"
    by (cases "inflate_to L (drop (pe_data_offset e - off) raw) (pe_decompressed_size e)") auto
  have e2: "\<not> MAX_DECOMPRESSED_BYTES < pe_decompressed_size e" using Suc.prems e0 e1 by (auto split: if_splits)
  note e = e0 e1 e2
  have inflated: "reads L v (g data) r' \<Longrightarrow> reads L v (and_then (inflate_with_retry L st pfx sha off raw
      (pe_data_offset e - off) (pe_decompressed_size e)) g) r'" for g r'
    by (auto simp: reads_def intro!: wp_and_then wp_inflated [OF e(2)])
  have entry_bytes: "\<exists>f raw. index_of L pfx v sha' = Some f \<and> entry_bytes_of pfx v sha' f off' = Some raw"
    if "stored_entry n L pfx v chain sha' off' = Some r'" for sha' off' r'
    using that by (cases n) (auto simp: bind_eq_Some_conv)
  show ?case
  proof (cases "pe_header e")
    case (OfsDelta d)
    with Suc.prems e obtain base where b: "\<not> off < d" "stored_entry n L pfx v chain sha (off - d) = Some base"
      "apply_delta base data = Inr r"
      by (auto simp: bind_eq_Some_conv split: if_splits)
    then obtain braw where braw: "entry_bytes_of pfx v sha f (off - d) = Some braw"
      using entry_bytes Suc.prems(2) by fastforce
    from Suc.IH [OF b(2) Suc.prems(2) braw] b e OfsDelta Suc.prems(2) braw show ?thesis
      by (auto simp: Let_def intro!: inflated reads_load_index reads_fetch reads_delta)
  next
    case (RefDelta base_id)
    with Suc.prems e obtain bsha boff base where b: "find_entry L pfx v chain base_id = Some (bsha, boff)"
      "stored_entry n L pfx v chain bsha boff = Some base" "hashes L base_id base" "apply_delta base data = Inr r"
      by (auto simp: bind_eq_Some_conv checked_object_def split: if_splits)
    then obtain bf braw where braw: "index_of L pfx v bsha = Some bf" "entry_bytes_of pfx v bsha bf boff = Some braw"
      using entry_bytes by blast
    have "reads L v (read_object_from_chain L st pfx (decode_entry n L st pfx chain) chain base_id) base"
      by (rule reads_object [OF b(1) braw _ b(3)]) (rule Suc.IH [OF b(2) braw])
    with e b(4) RefDelta show ?thesis by (auto simp: Let_def intro!: inflated reads_delta)
  qed (use Suc.prems e in \<open>auto simp: Let_def intro!: inflated reads_ok\<close>)
qed simp

lemma reads_stored_object:
  assumes "stored_object L pfx v chain oid = Some r"
  shows "reads L v (read_object_from_chain L st pfx (decode_entry (MAX_DELTA_DEPTH + 1) L st pfx chain) chain oid) r"
proof -
  from assms obtain sha off where o: "find_entry L pfx v chain oid = Some (sha, off)"
    "stored_entry (MAX_DELTA_DEPTH + 1) L pfx v chain sha off = Some r" "hashes L oid r"
    by (auto simp: stored_object_def bind_eq_Some_conv checked_object_def split: if_splits simp del: stored_entry.simps)
  then obtain f raw where f: "index_of L pfx v sha = Some f" "entry_bytes_of pfx v sha f off = Some raw"
    by (auto simp: bind_eq_Some_conv)
  show ?thesis by (rule reads_object [OF o(1) f _ o(3)]) (rule reads_entry [OF o(2) f])
qed

lemma calm_load_path_index:
  assumes "calm s" "path_index_at x (view s) (path_index_key pfx r) = Some idx"
    and "\<And>t. calm t \<Longrightarrow> view t = view s \<Longrightarrow> Q (Some idx) t"
  shows "wp (load_path_index x st pfx r) Q E s"
proof -
  from assms(2) obtain b m where b: "view s (path_index_key pfx r) = Some (b, m)" "path_index_from_json_bytes x b = Inr idx"
    by (auto simp: path_index_at_def split: option.splits sum.splits)
  show ?thesis unfolding load_path_index_def
    by (intro wp_match calm_wp_get_bytes assms(1)) (auto intro!: wp_intros assms(3) simp: b)
qed

lemma calm_load_known:
  assumes "calm s" "chain_at x (view s) (chain_key pfx r) = Some c"
    and "\<And>t. calm t \<Longrightarrow> view t = view s \<Longrightarrow> Q (Some c) t"
  shows "wp (load_chain x st pfx r) Q E s"
  by (rule calm_load_chain [OF assms(1)]) (use assms(2,3) in \<open>auto simp: chain_at_def\<close>)

lemma calm_read_blob:
  assumes "reading L v p" "parse_path path = Inr segs" "ref_name_ok x r"
    and "pfx = (if rp = [] then None else Some rp)"
    and "chain_at x v (chain_key pfx r) = Some chain" "path_index_at x v (path_index_key pfx r) = Some idx"
    and "px_tip idx = cm_tip chain" "index_blob (px_tree idx) segs = Some sha"
    and "stored_object L pfx v (cm_segments chain) sha = Some \<lparr>ro_payload = payload, ro_kind = BlobKind\<rparr>"
  shows "wp (read_blob L x st pause PackchainEngine rp r path)
    (\<lambda>y q. y = payload \<and> reading L v q) (\<lambda>_ _. False) p"
proof -
  have "segs \<noteq> []" using assms(2) by (simp add: parse_path_Inr)
  then have sha: "walk_path (px_tree idx) segs r path = Inr sha" using assms(8) by (simp add: walk_path_Inr)
  have blob: "wp (read_located_blob L x st pause pfx r path chain sha)
      (\<lambda>y q. y = payload \<and> reading L v q) (\<lambda>_ _. False) q" if "reading L v q" for q
    unfolding read_located_blob_def
    by (intro wp_match, subst read_with_pack_missing_retries.simps, intro wp_match,
        rule wp_mono [OF reads_stored_object [OF assms(9), unfolded reads_def, rule_format, OF that]])
      (auto intro!: wp_ok)
  have p: "calm (fst p)" "view (fst p) = v" "cache_true L v (snd p)" using assms(1) by (simp_all add: reading_def)
  have blob': "wp (read_located_blob L x st pause pfx r path chain sha)
      (\<lambda>y q. y = payload \<and> reading L v q) (\<lambda>_ _. False) (t, snd p)" if "calm t" "view t = view u" "view u = view (fst p)" for t u
    by (rule blob) (use that p in \<open>simp add: reading_def\<close>)
  have run: "wp (and_then (in_store (load_chain x st pfx r)) (\<lambda>loaded.
      case loaded of
        None \<Rightarrow> fail_with (ChainAbsent r)
      | Some chain \<Rightarrow> and_then (in_store (load_path_index x st pfx r)) (\<lambda>loaded_index.
          case loaded_index of
            None \<Rightarrow> fail_with (PathIndexAbsent r)
          | Some path_index \<Rightarrow>
              if px_tip path_index \<noteq> cm_tip chain
              then fail_with (TransientChainPathIndexMismatch r (cm_tip chain) (px_tip path_index))
              else and_then (of_result (walk_path (px_tree path_index) segs r path))
                (read_located_blob L x st pause pfx r path chain))))
      (\<lambda>y q. y = payload \<and> reading L v q) (\<lambda>_ _. False) p"
  proof (rule wp_and_then, rule wp_in_store, rule calm_load_known [OF p(1), where c = chain], goal_cases)
    case 1
    show ?case using assms(5) p(2) by simp
  next
    case (2 t)
    show ?case unfolding option.case
    proof (rule wp_and_then, rule wp_in_store, rule calm_load_path_index [where idx = idx], goal_cases)
      case (3 u)
      then show ?case using 2 assms(7) sha
        by (auto intro!: wp_and_then wp_of_result blob')
    qed (use 2 assms(6) p(2) in simp_all)
  qed
  then show ?thesis unfolding read_blob_def Let_def assms(4) [symmetric]
    by (simp add: assms(2,3)) (rule wp_and_then, rule wp_of_result, auto)
qed

end

end
