(* ===== verification/Pack_Read_Properties.thy ===== *)
theory Pack_Read_Properties
  imports Pack_Read_Proofs Packchain_Properties
begin

text \<open>
  The properties of the packchain reader, with the example repository their witnesses read: a
  chain of one segment whose pack holds one file.
\<close>

subsection \<open>Examples\<close>

definition demo_pack_libs :: pack_libs where
  "demo_pack_libs =
     \<lparr>lib_index = \<lambda>b. if b = ''IDX''
        then Inr \<lparr>if_lookup = \<lambda>oid. if oid = demo_sha CHR ''8'' then Some 0 else None, if_offset_at = \<lambda>_. 4,
               if_sorted_offsets = [4]\<rparr>
        else Inl ''not an index'',
      lib_entry = \<lambda>raw off. Inr \<lparr>pe_header = BlobHeader, pe_decompressed_size = 2, pe_data_offset = off + 1\<rparr>,
      lib_zlib = \<lambda>input n. StreamEnd (take n input),
      lib_hash = \<lambda>kind payload. if kind = BlobKind \<and> payload = ''hi'' then Inr (demo_sha CHR ''8'') else Inl ''other''\<rparr>"

definition demo_index_file :: cached_index where
  "demo_index_file = \<lparr>ci_file = \<lparr>if_lookup = \<lambda>_. None, if_offset_at = \<lambda>_. 0, if_sorted_offsets = []\<rparr>,
     ci_sorted_offsets = [], ci_bytes = 7\<rparr>"

definition demo_index :: path_index where
  "demo_index = \<lparr>px_v = PATH_INDEX_SCHEMA_VERSION, px_tip = demo_sha CHR ''a'',
     px_tree = [(''src'', TreeNode [(''a.txt'', BlobNode (demo_sha CHR ''8''))])]\<rparr>"

definition reader_world :: mock_state where
  "reader_world = demo_bucket
     [demo_chain_object CHR ''a'',
      (path_index_key (Some ''repo'') demo_main, json_print demo_ext (json_of_path_index demo_index), 1),
      (pack_key (Some ''repo'') (demo_pack_sha CHR ''a''), ''PACKxhi'', 1),
      (pack_idx_key (Some ''repo'') (demo_pack_sha CHR ''a''), ''IDX'', 1)]"

lemma demo_index_parses:
  "path_index_from_json_bytes demo_ext (json_print demo_ext (json_of_path_index demo_index)) = Inr demo_index"
proof -
  have "path_index_typed demo_index" by (simp add: path_index_typed_def demo_index_def is_lower_hex_def less_eq_char_def)
  then show ?thesis
    using path_index_bytes_roundtrip [of demo_ext demo_index] by (simp add: path_index_to_json_pretty_def)
qed

lemma reader_keys:
  "path_index_key pfx r \<noteq> pack_key q sha" "path_index_key pfx r \<noteq> pack_idx_key q sha"
  "path_index_key pfx r \<noteq> chain_key q r'" "pack_key pfx sha \<noteq> pack_idx_key q sha'"
  by (auto simp: builder_base path_index_key_base ref_key_defs dest!: arg_cong [of _ _ "\<lambda>s. take 9 (rev s)"])

lemma reader_world_view:
  "chain_at demo_ext (mock_view reader_world) (chain_key (Some ''repo'') demo_main) = Some (one_segment_chain CHR ''a'')"
  "path_index_at demo_ext (mock_view reader_world) (path_index_key (Some ''repo'') demo_main) = Some demo_index"
  "mock_view reader_world (pack_key (Some ''repo'') (demo_pack_sha CHR ''a'')) = Some (''PACKxhi'', 1)"
  "mock_view reader_world (pack_idx_key (Some ''repo'') (demo_pack_sha CHR ''a'')) = Some (''IDX'', 1)"
  by (simp_all add: reader_world_def chain_at_Some one_segment_chain_parses path_index_at_def demo_index_parses
      reader_keys reader_keys [symmetric])

lemma demo_stored:
  "stored_object demo_pack_libs (Some ''repo'') (mock_view reader_world) (cm_segments (one_segment_chain CHR ''a''))
     (demo_sha CHR ''8'') = Some \<lparr>ro_payload = ''hi'', ro_kind = BlobKind\<rparr>"
proof -
  have sha: "sha_from_pack_key (pack_key None (demo_pack_sha CHR ''a'')) = Some (demo_pack_sha CHR ''a'')"
    by (simp add: sha_from_pack_key_pack_key)
  have idx: "index_of demo_pack_libs (Some ''repo'') (mock_view reader_world) (demo_pack_sha CHR ''a'') =
      Some \<lparr>if_lookup = \<lambda>oid. if oid = demo_sha CHR ''8'' then Some 0 else None, if_offset_at = \<lambda>_. 4,
             if_sorted_offsets = [4]\<rparr>"
    by (simp add: index_of_def reader_world_view demo_pack_libs_def)
  have raw: "entry_bytes_of (Some ''repo'') (mock_view reader_world) (demo_pack_sha CHR ''a'') f 4 = Some ''xhi''"
    if "if_sorted_offsets f = [4]" for f
    by (simp add: entry_bytes_of_def reader_world_view that MAX_RANGE_BYTES_def)
  have entry: "stored_entry (Suc n) demo_pack_libs (Some ''repo'') (mock_view reader_world) chain (demo_pack_sha CHR ''a'') 4 =
      Some \<lparr>ro_payload = ''hi'', ro_kind = BlobKind\<rparr>" for n chain
    by (simp add: idx raw) (simp add: demo_pack_libs_def inflate_to_def MAX_DECOMPRESSED_BYTES_def)
  have "find_entry demo_pack_libs (Some ''repo'') (mock_view reader_world) (cm_segments (one_segment_chain CHR ''a''))
      (demo_sha CHR ''8'') = Some (demo_pack_sha CHR ''a'', 4)"
    by (simp add: one_segment_chain_def sha idx)
  then show ?thesis using entry [of MAX_DELTA_DEPTH]
    by (simp add: stored_object_def checked_object_def hashes_def del: stored_entry.simps)
      (simp add: demo_pack_libs_def)
qed

lemma demo_parse_path: "parse_path ''src/a.txt'' = Inr [''src'', ''a.txt'']"
  by (simp add: parse_path_def)

lemma demo_ref_ok [simp]: "ref_name_ok demo_ext demo_main"
  by (simp add: demo_ext_def)

lemma demo_reading: "calm_mock.reading demo_pack_libs (mock_view reader_world) (reader_world, cache_new n)"
  by (simp add: calm_mock.reading_def cache_true_def cache_new_def) (simp add: reader_world_def)

lemma demo_read:
  "\<exists>t. read_blob demo_pack_libs demo_ext mock_store pause PackchainEngine ''repo'' demo_main ''src/a.txt''
     (reader_world, cache_new n) = (Inr ''hi'', t)"
proof -
  have "wp (read_blob demo_pack_libs demo_ext mock_store pause PackchainEngine ''repo'' demo_main ''src/a.txt'')
      (\<lambda>y q. y = ''hi'' \<and> calm_mock.reading demo_pack_libs (mock_view reader_world) q) (\<lambda>_ _. False)
      (reader_world, cache_new n)"
    by (rule calm_mock.calm_read_blob [OF demo_reading demo_parse_path demo_ref_ok _ reader_world_view(1,2) _ _ demo_stored])
      (simp_all add: demo_index_def)
  then show ?thesis by (auto dest: wp_totalD)
qed

subsection \<open>Properties\<close>

text \<open>C25. A blob that the reader returns is the right one, whatever the bucket, its faults, the cache
  and the deltas on the way: it hashes to the sha that the ref's path index gives for the path,
  and that index was made for the tip of the ref's chain.\<close>

theorem returned_blobs_are_the_recorded_ones:
  assumes "read_blob L x mock_store pause engine rp r path (s, c) = (Inr payload, t)"
  shows "engine = PackchainEngine \<and>
    recorded L x (mock_view s) (if rp = [] then None else Some rp) r path payload"
  using mock.wp_read_blob [of L x pause engine rp r path "(s, c)", THEN wp_ok_resultD, OF assms] by simp

theorem returned_blobs_are_the_recorded_ones_witness:
  "\<exists>t. read_blob demo_pack_libs demo_ext mock_store (\<lambda>_ s. s) PackchainEngine ''repo'' demo_main ''src/a.txt''
     (reader_world, cache_new 0) = (Inr ''hi'', t) \<and>
   recorded demo_pack_libs demo_ext (mock_view reader_world) (Some ''repo'') demo_main ''src/a.txt'' ''hi''"
proof -
  obtain t where run: "read_blob demo_pack_libs demo_ext mock_store (\<lambda>_ s. s) PackchainEngine ''repo'' demo_main
     ''src/a.txt'' (reader_world, cache_new 0) = (Inr ''hi'', t)" using demo_read by blast
  from run returned_blobs_are_the_recorded_ones [OF run] show ?thesis by auto
qed

text \<open>C26. What the packs of the chain hold is found: on a quiet store the blob of a recorded path is
  returned, through at most 50 deltas, with any cache that agrees with the bucket, and the
  bucket stays as it is.\<close>

theorem stored_blobs_are_read:
  assumes "mock_calm s" "cache_true L (mock_view s) c" "parse_path path = Inr segs" "ref_name_ok x r"
    and "pfx = (if rp = [] then None else Some rp)"
    and "chain_at x (mock_view s) (chain_key pfx r) = Some chain"
    and "path_index_at x (mock_view s) (path_index_key pfx r) = Some idx"
    and "px_tip idx = cm_tip chain" "index_blob (px_tree idx) segs = Some sha"
    and "stored_object L pfx (mock_view s) (cm_segments chain) sha =
      Some \<lparr>ro_payload = payload, ro_kind = BlobKind\<rparr>"
  shows "\<exists>s' c'. read_blob L x mock_store pause PackchainEngine rp r path (s, c) = (Inr payload, (s', c')) \<and>
    mock_view s' = mock_view s \<and> cache_true L (mock_view s) c'"
proof -
  have "calm_mock.reading L (mock_view s) (s, c)" using assms(1,2) by (simp add: calm_mock.reading_def)
  from wp_totalD [OF calm_mock.calm_read_blob [OF this assms(3-10), where pause = pause]]
  show ?thesis by (auto simp: calm_mock.reading_def)
qed

theorem stored_blobs_are_read_witness:
  "\<exists>s' c'. read_blob demo_pack_libs demo_ext mock_store (\<lambda>_ s. s) PackchainEngine ''repo'' demo_main ''src/a.txt''
     (reader_world, cache_new 0) = (Inr ''hi'', (s', c')) \<and> mock_view s' = mock_view reader_world"
proof -
  have "mock_calm reader_world" "cache_true demo_pack_libs (mock_view reader_world) (cache_new 0)"
    using demo_reading [of 0] by (simp_all add: calm_mock.reading_def)
  from stored_blobs_are_read [OF this demo_parse_path demo_ref_ok _ reader_world_view(1,2) _ _ demo_stored,
      where rp = "''repo''" and pause = "\<lambda>_ s. s"]
  show ?thesis by (auto simp: demo_index_def)
qed

text \<open>A path is accepted exactly when it is made of one or more names joined by slashes, none of
  them empty, a dot, two dots or itself with a slash, and it is then split into these names;
  every other path is refused as malformed.\<close>

lemma repository_paths_parse_exactly:
  "parse_path path = Inr segs \<longleftrightarrow>
     segs \<noteq> [] \<and> path = join_on ''/'' segs \<and> list_all (\<lambda>seg. segment_ok seg \<and> CHR ''/'' \<notin> set seg) segs"
  by (rule parse_path_Inr)

text \<open>C27. The decoder inverts git's delta format: the encoding of any list of copies out of the base
  and insertions rebuilds what they describe, and whatever it accepts is made of slices of the
  base and of literal pieces and is at most a gibibyte.\<close>

theorem deltas_rebuild_what_they_encode:
  assumes "list_all (op_ok (ro_payload base)) ops" "length (ro_payload base) < 2 ^ 64"
    and "length (concat (map (run_op (ro_payload base)) ops)) \<le> MAX_DECOMPRESSED_BYTES"
  shows "apply_delta base (encode_delta (ro_payload base) ops) =
      Inr \<lparr>ro_payload = concat (map (run_op (ro_payload base)) ops), ro_kind = ro_kind base\<rparr> \<and>
    (\<forall>delta r. apply_delta base delta = Inr r \<longrightarrow>
      ro_kind r = ro_kind base \<and> length (ro_payload r) \<le> MAX_DECOMPRESSED_BYTES \<and>
      (\<exists>pieces. list_all (piece_ok (ro_payload base)) pieces \<and>
        ro_payload r = concat (map (run_op (ro_payload base)) pieces)))"
  using apply_delta_encoded [OF assms] apply_delta_sound [of base] by blast

theorem deltas_rebuild_what_they_encode_witness:
  "apply_delta \<lparr>ro_payload = ''hello world'', ro_kind = BlobKind\<rparr>
     (encode_delta ''hello world'' [CopyOp 6 5, InsertOp ''!'']) =
   Inr \<lparr>ro_payload = ''world!'', ro_kind = BlobKind\<rparr>"
  using deltas_rebuild_what_they_encode [of "\<lparr>ro_payload = ''hello world'', ro_kind = BlobKind\<rparr>"
      "[CopyOp 6 5, InsertOp ''!'']"]
  by (simp add: op_ok_def run_op_def MAX_DECOMPRESSED_BYTES_def)

text \<open>C28. The cache of indexes keeps its books over any history of lookups and insertions: the order
  lists each resident index once, the byte count is their sum and within the budget; and an
  insertion evicts the least recently used ones only, no more than it needs.\<close>

theorem index_cache_keeps_its_budget:
  fixes c :: pack_cache
  assumes "c = fold cache_step ops (cache_new capacity)" "ci_bytes v \<le> capacity"
  shows "cache_ok c \<and> lru_capacity_bytes c = capacity \<and>
    (\<exists>gone kept. remove1 k (lru_order c) = gone @ kept \<and> lru_order (cache_insert k v c) = kept @ [k] \<and>
       (\<forall>k'. lru_map (cache_insert k v c) k' =
          (if k' = k then Some v else if k' \<in> set kept then lru_map c k' else None)) \<and>
       (gone = [] \<or> capacity < resident_sum (lru_map c) (last gone # kept) + ci_bytes v))"
proof -
  have "cache_ok c" unfolding assms(1) by (rule cache_history_ok) (rule cache_new_ok)
  moreover have "lru_capacity_bytes c = capacity" using cache_history_capacity [of ops "cache_new capacity"]
    by (simp add: assms(1) cache_new_def)
  ultimately show ?thesis using cache_insert_keeps_recent [of c v k] assms(2) by simp
qed

theorem index_cache_keeps_its_budget_witness:
  "cache_ok (cache_insert (''r'', ''b'') demo_index_file (cache_new 10))"
  using index_cache_keeps_its_budget [of _ "[CacheInsert (''r'', ''b'') demo_index_file]" 10 demo_index_file, OF refl]
  by (simp add: demo_index_file_def)

end
