(* ===== verification/Rust_Text.thy ===== *)
theory Rust_Text
  imports Prelude
begin

text \<open>
  What the code uses of Rust's \<open>str\<close> beyond \<open>Prelude\<close>, on the UTF-8 bytes of a string:
  trimming and splitting at Unicode white space, searching, ASCII case and signed numbers. The
  encodings of white space begin with bytes that never occur inside another character, so
  matching bytes is matching characters.
\<close>

subsection \<open>White space\<close>

definition of_bytes :: "nat list \<Rightarrow> string" where
  "of_bytes ns = map char_of ns"

text \<open>The characters with the property \<open>White_Space\<close>, each as its UTF-8 encoding.\<close>

definition white_space :: "string list" where
  "white_space =
     map (\<lambda>n. of_bytes [n]) [9, 10, 11, 12, 13, 32] @
     [of_bytes [0xC2, 0x85], of_bytes [0xC2, 0xA0], of_bytes [0xE1, 0x9A, 0x80]] @
     map (\<lambda>n. of_bytes [0xE2, 0x80, n]) ([0x80 ..< 0x8B] @ [0xA8, 0xA9, 0xAF]) @
     [of_bytes [0xE2, 0x81, 0x9F], of_bytes [0xE3, 0x80, 0x80]]"

lemma white_space_ne: "w \<in> set white_space \<Longrightarrow> w \<noteq> []"
  by (auto simp: white_space_def of_bytes_def)

definition space_at_start :: "string \<Rightarrow> string option" where
  "space_at_start s = find (\<lambda>w. prefix w s) white_space"

definition space_at_end :: "string \<Rightarrow> string option" where
  "space_at_end s = find (\<lambda>w. suffix w s) white_space"

lemma space_at_start_Some: "space_at_start s = Some w \<Longrightarrow> w \<noteq> [] \<and> prefix w s"
  unfolding space_at_start_def find_Some_iff by (metis nth_mem white_space_ne)

lemma space_at_end_Some: "space_at_end s = Some w \<Longrightarrow> w \<noteq> [] \<and> suffix w s"
  unfolding space_at_end_def find_Some_iff by (metis nth_mem white_space_ne)

function trim_start :: "string \<Rightarrow> string" where
  "trim_start s = (case space_at_start s of None \<Rightarrow> s | Some w \<Rightarrow> trim_start (drop (length w) s))"
  by pat_completeness auto
termination
  by (relation "measure length") (auto dest!: space_at_start_Some simp: prefix_def)

declare trim_start.simps [simp del]

function trim_end :: "string \<Rightarrow> string" where
  "trim_end s = (case space_at_end s of None \<Rightarrow> s | Some w \<Rightarrow> trim_end (take (length s - length w) s))"
  by pat_completeness auto
termination
  by (relation "measure length") (auto dest!: space_at_end_Some simp: suffix_def)

declare trim_end.simps [simp del]

definition trim :: "string \<Rightarrow> string" where
  "trim s = trim_end (trim_start s)"

fun take_word :: "string \<Rightarrow> string \<times> string" where
  "take_word [] = ([], [])"
| "take_word (c # s) =
     (if space_at_start (c # s) \<noteq> None then ([], c # s)
      else (let (w, r) = take_word s in (c # w, r)))"

lemma take_word_length: "length (snd (take_word s)) \<le> length s"
  by (induction s) (auto split: prod.splits)

lemma trim_start_length: "length (trim_start s) \<le> length s"
proof (induction s rule: trim_start.induct)
  case (1 s)
  then show ?case
    by (cases "space_at_start s") (auto simp: trim_start.simps [of s])
qed

lemma trim_start_space: "space_at_start (trim_start s) = None"
proof (induction s rule: trim_start.induct)
  case (1 s)
  then show ?case by (cases "space_at_start s") (auto simp: trim_start.simps [of s])
qed

text \<open>\<open>str::split_whitespace\<close>: the maximal runs without white space.\<close>

function split_whitespace :: "string \<Rightarrow> string list" where
  "split_whitespace s =
     (case trim_start s of
        [] \<Rightarrow> []
      | c # r \<Rightarrow> (let (w, rest) = take_word (c # r) in w # split_whitespace rest))"
  by pat_completeness auto
termination
proof (relation "measure length", simp, goal_cases)
  case (1 s c r word w rest)
  have "space_at_start (c # r) = None" using trim_start_space [of s] 1(1) by simp
  then have "length (snd (take_word (c # r))) < length (c # r)"
    using take_word_length [of r] by (cases "take_word r") simp
  moreover have "rest = snd (take_word (c # r))" using 1(2,3) by (metis snd_conv)
  ultimately show ?case using trim_start_length [of s] 1(1) by simp
qed

declare split_whitespace.simps [simp del]

text \<open>Text of visible ASCII characters has no white space to trim.\<close>

definition visible_ascii :: "string \<Rightarrow> bool" where
  "visible_ascii s \<longleftrightarrow> list_all (\<lambda>c. 32 < (of_char c :: nat) \<and> (of_char c :: nat) < 127) s"

lemma white_space_not_visible: "w \<in> set white_space \<Longrightarrow> c \<in> set w \<Longrightarrow> \<not> (32 < (of_char c :: nat) \<and> (of_char c :: nat) < 127)"
proof -
  have "list_all (list_all (\<lambda>c. \<not> (32 < (of_char c :: nat) \<and> (of_char c :: nat) < 127))) white_space"
    by code_simp
  then show "w \<in> set white_space \<Longrightarrow> c \<in> set w \<Longrightarrow> \<not> (32 < (of_char c :: nat) \<and> (of_char c :: nat) < 127)"
    by (auto simp: list_all_iff)
qed

lemma space_at_start_visible:
  assumes "visible_ascii s"
  shows "space_at_start s = None"
proof (rule ccontr)
  assume "space_at_start s \<noteq> None"
  then obtain w where w: "w \<in> set white_space" "prefix w s"
    unfolding space_at_start_def by (auto simp: find_Some_iff dest: nth_mem)
  then have "hd w \<in> set w" "set w \<subseteq> set s" using white_space_ne by (auto simp: prefix_def)
  with assms white_space_not_visible [OF w(1), of "hd w"] show False by (auto simp: visible_ascii_def list_all_iff)
qed

lemma space_at_end_visible:
  assumes "visible_ascii s"
  shows "space_at_end s = None"
proof (rule ccontr)
  assume "space_at_end s \<noteq> None"
  then obtain w where w: "w \<in> set white_space" "suffix w s"
    unfolding space_at_end_def by (auto simp: find_Some_iff dest: nth_mem)
  then have "hd w \<in> set w" "set w \<subseteq> set s" using white_space_ne by (auto simp: suffix_def)
  with assms white_space_not_visible [OF w(1), of "hd w"] show False by (auto simp: visible_ascii_def list_all_iff)
qed

lemma trim_visible: "visible_ascii s \<Longrightarrow> trim s = s"
  by (simp add: trim_def trim_start.simps [of s] trim_end.simps [of s] space_at_start_visible space_at_end_visible)

subsection \<open>Searching\<close>

definition str_contains :: "string \<Rightarrow> string \<Rightarrow> bool" where
  "str_contains s p = list_ex (\<lambda>i. prefix p (drop i s)) [0 ..< Suc (length s)]"

definition rfind :: "string \<Rightarrow> string \<Rightarrow> nat option" where
  "rfind s p = find (\<lambda>i. prefix p (drop i s)) (rev [0 ..< Suc (length s)])"

subsection \<open>Case and numbers\<close>

definition ascii_lower :: "char \<Rightarrow> char" where
  "ascii_lower c = (let n = of_char c :: nat in if 65 \<le> n \<and> n \<le> 90 then char_of (n + 32) else c)"

definition to_ascii_lowercase :: "string \<Rightarrow> string" where
  "to_ascii_lowercase s = map ascii_lower s"

definition eq_ignore_ascii_case :: "string \<Rightarrow> string \<Rightarrow> bool" where
  "eq_ignore_ascii_case a b \<longleftrightarrow> to_ascii_lowercase a = to_ascii_lowercase b"

text \<open>\<open>str::parse::<i32>\<close>: a sign and at least one digit, within the range.\<close>

definition parse_i32 :: "string \<Rightarrow> int option" where
  "parse_i32 s =
     (let (neg, digits) = (case s of
          c # r \<Rightarrow> if c = CHR ''-'' then (True, r) else if c = CHR ''+'' then (False, r) else (False, s)
        | [] \<Rightarrow> (False, [])) in
      if digits = [] then None
      else case parse_digits 0 digits of
             None \<Rightarrow> None
           | Some n \<Rightarrow>
               (let i = (if neg then - int n else int n) in
                if - (2 ^ 31) \<le> i \<and> i < 2 ^ 31 then Some i else None))"

text \<open>\<open>NonZeroU32\<close>: an optional plus sign, and at least one.\<close>

definition parse_nonzero_u32 :: "string \<Rightarrow> nat option" where
  "parse_nonzero_u32 s =
     (case parse_u64 s of None \<Rightarrow> None | Some n \<Rightarrow> if 0 < n \<and> n < 2 ^ 32 then Some n else None)"

end
