(* ===== verification/Remote_Url.thy ===== *)
theory Remote_Url
  imports Rust_Text Bundle_Push
begin

text \<open>
  Remote URLs: \<open>src/url.rs\<close>. A URL such as \<open>s3+https://host/bucket/prefix?zip=true\<close> names the
  provider, the endpoint, the bucket or container, the prefix and the flags of a remote. The
  generic part is read by the \<open>url\<close> crate: \<open>url_lib\<close> holds its parser and its \<open>set_path\<close>, and
  \<open>url_rec\<close> what its accessors answer about a parsed URL.
\<close>

subsection \<open>Types\<close>

datatype url_host = Domain string | Ipv4 "32 word" | Ipv6 "128 word"

record url_rec =
  u_scheme :: string
  u_host :: "url_host option"
  u_host_str :: "string option"
  u_port :: "nat option"
  u_segments :: "string list option"
  u_query_pairs :: "(string \<times> string) list"
  u_text :: string

record url_lib =
  ul_parse :: "string \<Rightarrow> string + url_rec"
  ul_set_path :: "string \<Rightarrow> url_rec \<Rightarrow> url_rec"

datatype s3_addressing = S3VirtualHosted | S3PathStyle

datatype azure_addressing = AzureVirtualHosted | AzurePathStyle

record remote_flags =
  rf_zip :: bool
  rf_profile :: "string option"
  rf_credential :: "string option"
  rf_region :: "string option"
  rf_engine :: "storage_engine option"
  rf_bundle_uri :: bool
  rf_presign_ttl :: "nat option"

definition default_flags :: remote_flags where
  "default_flags = \<lparr>rf_zip = False, rf_profile = None, rf_credential = None, rf_region = None,
     rf_engine = None, rf_bundle_uri = False, rf_presign_ttl = None\<rparr>"

datatype remote_url =
    S3Remote (ru_endpoint: url_rec) (ru_bucket: string) (ru_prefix: "string option")
      (ru_s3_addressing: s3_addressing) (ru_flags: remote_flags)
  | AzureRemote (ru_endpoint: url_rec) (ru_account: string) (ru_container: string)
      (ru_prefix: "string option") (ru_azure_addressing: azure_addressing) (ru_flags: remote_flags)

datatype url_error =
    EmptyUrl
  | UnsupportedScheme string
  | InvalidUrl string
  | MissingHost
  | MissingBucket
  | MissingContainer
  | MissingAccount
  | InvalidBucket string
  | InvalidAccount string
  | InvalidContainer string
  | CleartextHttpForbidden string
  | UnknownAddressing string
  | InvalidFlagValue string string
  | UnknownFlag string
  | FlagNotApplicable string backend_kind
  | UnknownEngine string
  | InvalidAwsS3Endpoint string
  | BundleUriPresignTtlTooLarge nat nat
  | BundleUriPresignTtlWithoutBundleUri

datatype addressing_override = PathOverride | VirtualOverride

definition all_engines :: "storage_engine list" where
  "all_engines = [BundleEngine, PackchainEngine]"

definition engine_from_name :: "string \<Rightarrow> storage_engine option" where
  "engine_from_name name = find (\<lambda>engine. engine_as_str engine = name) all_engines"

definition supported_list_str :: string where
  "supported_list_str = join_on '', '' (map (\<lambda>engine. ''`'' @ engine_as_str engine @ ''`'') all_engines)"

definition scheme_prefix :: "backend_kind \<Rightarrow> string" where
  "scheme_prefix kind = (case kind of S3 \<Rightarrow> ''s3+'' | Azure \<Rightarrow> ''az+'')"

definition backend_name :: "backend_kind \<Rightarrow> string" where
  "backend_name kind = (case kind of S3 \<Rightarrow> ''S3'' | Azure \<Rightarrow> ''Azure'')"

definition MAX_BUNDLE_URI_PRESIGN_TTL_SECONDS :: nat where
  "MAX_BUNDLE_URI_PRESIGN_TTL_SECONDS = 7 * 24 * 60 * 60"

definition ENV_ALLOW_HTTP :: string where
  "ENV_ALLOW_HTTP = ''GIT_REMOTE_OBJECT_STORE_ALLOW_HTTP''"

fun url_error_display :: "url_error \<Rightarrow> string" where
  "url_error_display EmptyUrl = ''empty URL''"
| "url_error_display (UnsupportedScheme s) =
     ''unsupported scheme `'' @ s @ ''`; expected `s3+https`, `s3+http`, `az+https`, or `az+http`''"
| "url_error_display (InvalidUrl e) = ''malformed URL: '' @ e"
| "url_error_display MissingHost = ''URL is missing a host''"
| "url_error_display MissingBucket = ''URL is missing the bucket segment''"
| "url_error_display MissingContainer = ''URL is missing the container segment''"
| "url_error_display MissingAccount = ''URL is missing the account segment''"
| "url_error_display (InvalidBucket b) = ''invalid bucket name `'' @ b @ ''`''"
| "url_error_display (InvalidAccount a) = ''invalid storage-account name `'' @ a @ ''`''"
| "url_error_display (InvalidContainer c) = ''invalid container name `'' @ c @ ''`''"
| "url_error_display (CleartextHttpForbidden host) =
     ''cleartext http:// is forbidden against non-loopback host `'' @ host @ ''`; set '' @ ENV_ALLOW_HTTP @
     ''=1 to override''"
| "url_error_display (UnknownAddressing a) =
     ''unknown addressing override `'' @ a @ ''`; expected `path` or `virtual`''"
| "url_error_display (InvalidFlagValue name v) = ''invalid value for flag `'' @ name @ ''`: `'' @ v @ ''`''"
| "url_error_display (UnknownFlag name) = ''unknown query flag `'' @ name @ ''`''"
| "url_error_display (FlagNotApplicable flag backend) =
     ''query flag `'' @ flag @ ''` does not apply to the '' @ backend_name backend @ '' backend''"
| "url_error_display (UnknownEngine e) =
     ''unknown engine `'' @ e @ ''`; expected one of '' @ supported_list_str"
| "url_error_display (InvalidAwsS3Endpoint host) =
     ''hostname `'' @ host @ ''` is not a recognized AWS S3 endpoint; '' @
     ''for virtual-hosted use `<bucket>.s3[.<region>].amazonaws.com`, '' @
     ''for path-style use `s3[.<region>|-<region>].amazonaws.com`''"
| "url_error_display (BundleUriPresignTtlTooLarge v limit) =
     ''bundle_uri_presign_ttl=`'' @ show_nat v @ ''` exceeds the 7-day maximum ('' @ show_nat limit @
     '' seconds); presigned URLs cannot be valid for longer''"
| "url_error_display BundleUriPresignTtlWithoutBundleUri =
     ''bundle_uri_presign_ttl requires `?bundle_uri=1`; it has no effect otherwise''"

subsection \<open>Accessors\<close>

definition ru_kind :: "remote_url \<Rightarrow> backend_kind" where
  "ru_kind r = (case r of S3Remote _ _ _ _ _ \<Rightarrow> S3 | AzureRemote _ _ _ _ _ _ \<Rightarrow> Azure)"

definition remote_display :: "remote_url \<Rightarrow> string" where
  "remote_display r =
     (case r of
        S3Remote endpoint _ _ _ _ \<Rightarrow> ''s3+'' @ u_text endpoint
      | AzureRemote endpoint _ _ _ _ _ \<Rightarrow> ''az+'' @ u_text endpoint)"

subsection \<open>Schemes and hosts\<close>

definition scheme_of :: "string \<Rightarrow> string" where
  "scheme_of input = hd (split_on CHR '':'' input)"

definition detect_backend :: "string \<Rightarrow> url_error + (backend_kind \<times> string)" where
  "detect_backend input =
     (let try = (\<lambda>kind. case strip_prefix (scheme_prefix kind) input of
            Some body \<Rightarrow>
              if starts_with body ''https://'' \<or> starts_with body ''http://'' then Some (kind, body) else None
          | None \<Rightarrow> None) in
      case try S3 of
        Some r \<Rightarrow> Inr r
      | None \<Rightarrow> (case try Azure of Some r \<Rightarrow> Inr r | None \<Rightarrow> Inl (UnsupportedScheme (scheme_of input))))"

definition is_loopback :: "url_rec \<Rightarrow> bool" where
  "is_loopback u =
     (case u_host u of
        Some (Domain d) \<Rightarrow> eq_ignore_ascii_case d ''localhost''
      | Some (Ipv4 ip) \<Rightarrow> drop_bit 24 ip = 127
      | Some (Ipv6 ip) \<Rightarrow> ip = 1
      | None \<Rightarrow> False)"

subsection \<open>Flags\<close>

definition parse_bool_value :: "string \<Rightarrow> bool option" where
  "parse_bool_value value' =
     (let v = to_ascii_lowercase value' in
      if v \<in> {''1'', ''true'', ''yes'', ''on''} then Some True
      else if v \<in> {''0'', ''false'', ''no'', ''off''} then Some False
      else None)"

definition parse_bool_flag :: "string \<Rightarrow> string \<Rightarrow> url_error + bool" where
  "parse_bool_flag name value' =
     (case parse_bool_value value' of Some b \<Rightarrow> Inr b | None \<Rightarrow> Inl (InvalidFlagValue name value'))"

definition parse_nonzero_u64_flag :: "string \<Rightarrow> string \<Rightarrow> url_error + nat" where
  "parse_nonzero_u64_flag name value' =
     (case parse_u64 value' of
        None \<Rightarrow> Inl (InvalidFlagValue name value')
      | Some n \<Rightarrow> if n = 0 then Inl (InvalidFlagValue name value') else Inr n)"

definition parse_bundle_uri_presign_ttl :: "string \<Rightarrow> url_error + nat" where
  "parse_bundle_uri_presign_ttl value' =
     (case parse_nonzero_u64_flag ''bundle_uri_presign_ttl'' value' of
        Inl e \<Rightarrow> Inl e
      | Inr ttl \<Rightarrow>
          if MAX_BUNDLE_URI_PRESIGN_TTL_SECONDS < ttl
          then Inl (BundleUriPresignTtlTooLarge ttl MAX_BUNDLE_URI_PRESIGN_TTL_SECONDS)
          else Inr ttl)"

text \<open>\<open>http_allowed_by_env\<close>, on the variable's value (\<open>None\<close>: unset or not UTF-8).\<close>

definition http_allowed_by_env :: "string option \<Rightarrow> bool" where
  "http_allowed_by_env env =
     (case Option.bind env parse_bool_value of None \<Rightarrow> False | Some b \<Rightarrow> b)"

definition apply_flag ::
    "remote_flags \<times> addressing_override option \<Rightarrow> string \<Rightarrow> string \<Rightarrow>
     url_error + (remote_flags \<times> addressing_override option)" where
  "apply_flag acc key value' =
     (let (flags, addressing) = acc in
      if key = ''zip'' then
        (case parse_bool_flag ''zip'' value' of Inl e \<Rightarrow> Inl e | Inr b \<Rightarrow> Inr (flags\<lparr>rf_zip := b\<rparr>, addressing))
      else if key = ''profile'' then Inr (flags\<lparr>rf_profile := Some value'\<rparr>, addressing)
      else if key = ''credential'' then Inr (flags\<lparr>rf_credential := Some value'\<rparr>, addressing)
      else if key = ''region'' then Inr (flags\<lparr>rf_region := Some value'\<rparr>, addressing)
      else if key = ''addressing'' then
        (if value' = ''path'' then Inr (flags, Some PathOverride)
         else if value' = ''virtual'' then Inr (flags, Some VirtualOverride)
         else Inl (UnknownAddressing value'))
      else if key = ''engine'' then
        (case engine_from_name value' of
           Some engine \<Rightarrow> Inr (flags\<lparr>rf_engine := Some engine\<rparr>, addressing)
         | None \<Rightarrow> Inl (UnknownEngine value'))
      else if key = ''bundle_uri'' then
        (case parse_bool_flag ''bundle_uri'' value' of
           Inl e \<Rightarrow> Inl e | Inr b \<Rightarrow> Inr (flags\<lparr>rf_bundle_uri := b\<rparr>, addressing))
      else if key = ''bundle_uri_presign_ttl'' then
        (case parse_bundle_uri_presign_ttl value' of
           Inl e \<Rightarrow> Inl e | Inr n \<Rightarrow> Inr (flags\<lparr>rf_presign_ttl := Some n\<rparr>, addressing))
      else Inl (UnknownFlag key))"

fun apply_flags ::
    "remote_flags \<times> addressing_override option \<Rightarrow> (string \<times> string) list \<Rightarrow>
     url_error + (remote_flags \<times> addressing_override option)" where
  "apply_flags acc [] = Inr acc"
| "apply_flags acc ((key, value') # pairs) =
     (case apply_flag acc key value' of Inl e \<Rightarrow> Inl e | Inr acc' \<Rightarrow> apply_flags acc' pairs)"

definition extract_flags :: "url_rec \<Rightarrow> url_error + (remote_flags \<times> addressing_override option)" where
  "extract_flags u = apply_flags (default_flags, None) (u_query_pairs u)"

definition reject_inapplicable_flag :: "bool \<Rightarrow> string \<Rightarrow> backend_kind \<Rightarrow> url_error option" where
  "reject_inapplicable_flag present flag backend = (if present then Some (FlagNotApplicable flag backend) else None)"

definition reject_inapplicable_presign_ttl :: "remote_flags \<Rightarrow> url_error option" where
  "reject_inapplicable_presign_ttl flags =
     (if rf_presign_ttl flags \<noteq> None \<and> \<not> rf_bundle_uri flags
      then Some BundleUriPresignTtlWithoutBundleUri else None)"

subsection \<open>Paths\<close>

definition path_segments :: "url_rec \<Rightarrow> string list" where
  "path_segments u = (case u_segments u of None \<Rightarrow> [] | Some ss \<Rightarrow> filter (\<lambda>s. s \<noteq> []) ss)"

definition join_prefix :: "string list \<Rightarrow> string option" where
  "join_prefix segments = (if segments = [] then None else Some (join_on ''/'' segments))"

definition set_canonical_path :: "url_lib \<Rightarrow> string list \<Rightarrow> url_rec \<Rightarrow> url_rec" where
  "set_canonical_path U segments u = ul_set_path U (''/'' @ join_on ''/'' segments) u"

subsection \<open>Names\<close>

definition is_ascii_alphanum_lower :: "char \<Rightarrow> bool" where
  "is_ascii_alphanum_lower c =
     (let n = of_char c :: nat in (97 \<le> n \<and> n \<le> 122) \<or> (48 \<le> n \<and> n \<le> 57))"

definition FORBIDDEN_BUCKET_PREFIXES :: "string list" where
  "FORBIDDEN_BUCKET_PREFIXES = [''xn--'', ''sthree-'', ''amzn-s3-demo-'']"

definition FORBIDDEN_BUCKET_SUFFIXES :: "string list" where
  "FORBIDDEN_BUCKET_SUFFIXES = [''-s3alias'', ''--ol-s3'', ''.mrap'', ''--x-s3'', ''--table-s3'']"

text \<open>The loop of \<open>is_ipv4_formatted\<close>: it gives up at the fifth part.\<close>

fun ipv4_parts :: "nat \<Rightarrow> string list \<Rightarrow> bool" where
  "ipv4_parts parts [] = (parts = 4)"
| "ipv4_parts parts (part # rest) =
     (if 4 < parts + 1 then False
      else if part = [] \<or> \<not> list_all (\<lambda>b. digit_val b \<noteq> None) part then False
      else ipv4_parts (parts + 1) rest)"

definition is_ipv4_formatted :: "string \<Rightarrow> bool" where
  "is_ipv4_formatted s = ipv4_parts 0 (split_on CHR ''.'' s)"

definition is_valid_bucket :: "string \<Rightarrow> bool" where
  "is_valid_bucket s =
     (s \<noteq> [] \<and> 3 \<le> length s \<and> length s \<le> 63 \<and> is_ascii_alphanum_lower (hd s) \<and>
      is_ascii_alphanum_lower (last s) \<and>
      list_all (\<lambda>b. is_ascii_alphanum_lower b \<or> b = CHR ''.'' \<or> b = CHR ''-'') s \<and>
      \<not> str_contains s ''..'' \<and> \<not> is_ipv4_formatted s \<and>
      \<not> list_ex (\<lambda>p. starts_with s p) FORBIDDEN_BUCKET_PREFIXES \<and>
      \<not> list_ex (\<lambda>p. ends_with s p) FORBIDDEN_BUCKET_SUFFIXES)"

definition is_valid_account :: "string \<Rightarrow> bool" where
  "is_valid_account s = (3 \<le> length s \<and> length s \<le> 24 \<and> list_all is_ascii_alphanum_lower s)"

definition is_valid_container :: "string \<Rightarrow> bool" where
  "is_valid_container s =
     (s \<noteq> [] \<and> 3 \<le> length s \<and> length s \<le> 63 \<and> is_ascii_alphanum_lower (hd s) \<and>
      is_ascii_alphanum_lower (last s) \<and>
      list_all (\<lambda>b. is_ascii_alphanum_lower b \<or> b = CHR ''-'') s \<and> \<not> str_contains s ''--'')"

subsection \<open>S3\<close>

definition AWS_HOST_SUFFIXES :: "string list" where
  "AWS_HOST_SUFFIXES = [''.amazonaws.com.cn'', ''.amazonaws.com'']"

definition AWS_S3_INFIXES :: "string list" where
  "AWS_S3_INFIXES = [''.s3.'', ''.s3-'']"

fun find_map :: "('a \<Rightarrow> 'b option) \<Rightarrow> 'a list \<Rightarrow> 'b option" where
  "find_map f [] = None"
| "find_map f (x # xs) = (case f x of Some y \<Rightarrow> Some y | None \<Rightarrow> find_map f xs)"

definition strip_aws_host_suffix :: "string \<Rightarrow> string option" where
  "strip_aws_host_suffix host = find_map (\<lambda>suff. strip_suffix suff host) AWS_HOST_SUFFIXES"

definition check_aws_s3_host :: "string \<Rightarrow> url_error option" where
  "check_aws_s3_host host =
     (case strip_aws_host_suffix host of
        None \<Rightarrow> None
      | Some trimmed \<Rightarrow>
          (let last_label_is_s3 = (last (split_on CHR ''.'' trimmed) = ''s3'');
               valid = trimmed = ''s3'' \<or> starts_with trimmed ''s3.'' \<or> starts_with trimmed ''s3-'' \<or>
                 last_label_is_s3 \<or> str_contains trimmed ''.s3.'' \<or> str_contains trimmed ''.s3-'' in
           if \<not> valid then Some (InvalidAwsS3Endpoint host) else None))"

definition leftmost_label :: "string \<Rightarrow> string option" where
  "leftmost_label host = (let l = hd (split_on CHR ''.'' host) in if l = [] then None else Some l)"

definition s3_virtual_hosted_bucket :: "string \<Rightarrow> string option" where
  "s3_virtual_hosted_bucket host =
     (case List.map_filter (rfind host) AWS_S3_INFIXES of
        [] \<Rightarrow> None
      | i # is \<Rightarrow> (let bucket = take (fold max is i) host in if bucket = [] then None else Some bucket))"

definition resolve_s3_components ::
    "string \<Rightarrow> string list \<Rightarrow> addressing_override option \<Rightarrow>
     url_error + (s3_addressing \<times> string \<times> string list)" where
  "resolve_s3_components host segments addressing_override =
     (let (addressing, aws_bucket) =
        (case addressing_override of
           Some PathOverride \<Rightarrow> (S3PathStyle, None)
         | Some VirtualOverride \<Rightarrow> (S3VirtualHosted, s3_virtual_hosted_bucket host)
         | None \<Rightarrow>
             (let b = s3_virtual_hosted_bucket host in
              (if b \<noteq> None then S3VirtualHosted else S3PathStyle, b))) in
      case addressing of
        S3VirtualHosted \<Rightarrow>
          (case (case aws_bucket of Some b \<Rightarrow> Some b | None \<Rightarrow> leftmost_label host) of
             None \<Rightarrow> Inl MissingBucket
           | Some bucket \<Rightarrow> Inr (addressing, bucket, segments))
      | S3PathStyle \<Rightarrow>
          (case segments of
             [] \<Rightarrow> Inl MissingBucket
           | head # tail \<Rightarrow> Inr (addressing, head, tail)))"

definition finish_s3 ::
    "url_lib \<Rightarrow> url_rec \<Rightarrow> string \<Rightarrow> remote_flags \<Rightarrow> addressing_override option \<Rightarrow> url_error + remote_url" where
  "finish_s3 U endpoint host flags addressing_override =
     (case reject_inapplicable_flag (rf_credential flags \<noteq> None) ''credential'' S3 of
        Some e \<Rightarrow> Inl e
      | None \<Rightarrow>
     (let segments = path_segments endpoint in
      case check_aws_s3_host host of
        Some e \<Rightarrow> Inl e
      | None \<Rightarrow>
     (case resolve_s3_components host segments addressing_override of
        Inl e \<Rightarrow> Inl e
      | Inr (addressing, bucket, prefix_segments) \<Rightarrow>
          if \<not> is_valid_bucket bucket then Inl (InvalidBucket bucket)
          else
            (let canonical = (case addressing of
                 S3VirtualHosted \<Rightarrow> prefix_segments
               | S3PathStyle \<Rightarrow> bucket # prefix_segments) in
             Inr (S3Remote (set_canonical_path U canonical endpoint) bucket (join_prefix prefix_segments)
               addressing flags)))))"

subsection \<open>Azure\<close>

definition detect_azure_addressing :: "string \<Rightarrow> azure_addressing" where
  "detect_azure_addressing host =
     (case split_on CHR ''.'' host of
        _ # label # _ \<Rightarrow> if label = ''blob'' then AzureVirtualHosted else AzurePathStyle
      | _ \<Rightarrow> AzurePathStyle)"

definition resolve_azure_components ::
    "azure_addressing \<Rightarrow> string \<Rightarrow> string list \<Rightarrow> url_error + (string \<times> string \<times> string list)" where
  "resolve_azure_components addressing host segments =
     (case addressing of
        AzureVirtualHosted \<Rightarrow>
          (case leftmost_label host of
             None \<Rightarrow> Inl MissingAccount
           | Some account \<Rightarrow>
               (case segments of
                  [] \<Rightarrow> Inl MissingContainer
                | container # rest \<Rightarrow> Inr (account, container, rest)))
      | AzurePathStyle \<Rightarrow>
          (case segments of
             [] \<Rightarrow> Inl MissingAccount
           | [_] \<Rightarrow> Inl MissingContainer
           | account # container # rest \<Rightarrow> Inr (account, container, rest)))"

definition finish_azure ::
    "url_lib \<Rightarrow> url_rec \<Rightarrow> string \<Rightarrow> remote_flags \<Rightarrow> addressing_override option \<Rightarrow> url_error + remote_url" where
  "finish_azure U endpoint host flags addressing_override =
     (case reject_inapplicable_flag (rf_profile flags \<noteq> None) ''profile'' Azure of
        Some e \<Rightarrow> Inl e
      | None \<Rightarrow>
     (case reject_inapplicable_flag (rf_region flags \<noteq> None) ''region'' Azure of
        Some e \<Rightarrow> Inl e
      | None \<Rightarrow>
     (let segments = path_segments endpoint;
          addressing = (case addressing_override of
            Some PathOverride \<Rightarrow> AzurePathStyle
          | Some VirtualOverride \<Rightarrow> AzureVirtualHosted
          | None \<Rightarrow> detect_azure_addressing host) in
      case resolve_azure_components addressing host segments of
        Inl e \<Rightarrow> Inl e
      | Inr (account, container, prefix_segments) \<Rightarrow>
          if \<not> is_valid_account account then Inl (InvalidAccount account)
          else if \<not> is_valid_container container then Inl (InvalidContainer container)
          else
            (let canonical = (case addressing of
                 AzureVirtualHosted \<Rightarrow> container # prefix_segments
               | AzurePathStyle \<Rightarrow> account # container # prefix_segments) in
             Inr (AzureRemote (set_canonical_path U canonical endpoint) account container
               (join_prefix prefix_segments) addressing flags)))))"

subsection \<open>Parsing\<close>

definition parse_remote :: "url_lib \<Rightarrow> string option \<Rightarrow> string \<Rightarrow> url_error + remote_url" where
  "parse_remote U env input =
     (let trimmed = trim input in
      if trimmed = [] then Inl EmptyUrl
      else
        (case detect_backend trimmed of
           Inl e \<Rightarrow> Inl e
         | Inr (backend, body) \<Rightarrow>
        (case ul_parse U body of
           Inl e \<Rightarrow> Inl (InvalidUrl e)
         | Inr endpoint \<Rightarrow>
        (case u_host_str endpoint of
           None \<Rightarrow> Inl MissingHost
         | Some host \<Rightarrow>
             if u_scheme endpoint = ''http'' \<and> \<not> is_loopback endpoint \<and> \<not> http_allowed_by_env env
             then Inl (CleartextHttpForbidden host)
             else
               (case extract_flags endpoint of
                  Inl e \<Rightarrow> Inl e
                | Inr (flags, addressing_override) \<Rightarrow>
                    (case reject_inapplicable_presign_ttl flags of
                       Some e \<Rightarrow> Inl e
                     | None \<Rightarrow>
                         (case backend of
                            S3 \<Rightarrow> finish_s3 U endpoint host flags addressing_override
                          | Azure \<Rightarrow> finish_azure U endpoint host flags addressing_override)))))))"

end
