(* ===== verification/Remote_Url_Proofs.thy ===== *)
theory Remote_Url_Proofs
  imports Remote_Url
begin

text \<open>
  What a parsed remote is: a valid bucket or account and container, a prefix without empty
  segments, both read off the path, flags that apply to the provider, and no cleartext outside the loopback. And
  that displaying a remote gives a URL that parses back to it.
\<close>

subsection \<open>The type of a remote\<close>

definition flags_wf :: "remote_flags \<Rightarrow> bool" where
  "flags_wf flags \<longleftrightarrow>
     (case rf_presign_ttl flags of
        None \<Rightarrow> True
      | Some ttl \<Rightarrow> 0 < ttl \<and> ttl \<le> MAX_BUNDLE_URI_PRESIGN_TTL_SECONDS \<and> rf_bundle_uri flags)"

text \<open>The segments a prefix is split into at its slashes. None is empty, so a prefix has no slash
  at either end and none doubled.\<close>

definition prefix_parts :: "string option \<Rightarrow> string list" where
  "prefix_parts p = (case p of None \<Rightarrow> [] | Some s \<Rightarrow> split_on CHR ''/'' s)"

definition prefix_wf :: "string option \<Rightarrow> bool" where
  "prefix_wf p \<longleftrightarrow> [] \<notin> set (prefix_parts p)"

definition remote_wf :: "remote_url \<Rightarrow> bool" where
  "remote_wf r \<longleftrightarrow> flags_wf (ru_flags r) \<and> prefix_wf (ru_prefix r) \<and>
     (case r of
        S3Remote _ bucket _ _ flags \<Rightarrow> is_valid_bucket bucket \<and> rf_credential flags = None
      | AzureRemote _ account container _ _ flags \<Rightarrow>
          is_valid_account account \<and> is_valid_container container \<and>
          rf_profile flags = None \<and> rf_region flags = None)"

text \<open>The path of the endpoint as the remote's parts name it.\<close>

definition remote_path :: "remote_url \<Rightarrow> string list" where
  "remote_path r =
     (case r of
        S3Remote _ bucket p a _ \<Rightarrow>
          (case a of S3VirtualHosted \<Rightarrow> [] | S3PathStyle \<Rightarrow> [bucket]) @ prefix_parts p
      | AzureRemote _ account container p a _ \<Rightarrow>
          (case a of AzureVirtualHosted \<Rightarrow> [container] | AzurePathStyle \<Rightarrow> [account, container]) @
          prefix_parts p)"

text \<open>A connection is only ever in the clear to the local machine, or when the environment allows it.\<close>

definition transport_ok :: "string option \<Rightarrow> url_rec \<Rightarrow> bool" where
  "transport_ok env u \<longleftrightarrow> u_scheme u = ''http'' \<longrightarrow> is_loopback u \<or> http_allowed_by_env env"

lemma apply_flag_ttl:
  assumes "apply_flag acc key v = Inr acc'"
    and "\<And>ttl. rf_presign_ttl (fst acc) = Some ttl \<Longrightarrow> 0 < ttl \<and> ttl \<le> MAX_BUNDLE_URI_PRESIGN_TTL_SECONDS"
    and "rf_presign_ttl (fst acc') = Some ttl"
  shows "0 < ttl \<and> ttl \<le> MAX_BUNDLE_URI_PRESIGN_TTL_SECONDS"
  using assms
  by (auto simp: apply_flag_def Let_def parse_bundle_uri_presign_ttl_def parse_nonzero_u64_flag_def not_less
      split: prod.splits if_splits sum.splits option.splits)

lemma apply_flags_ttl:
  assumes "apply_flags acc pairs = Inr acc'"
    and "\<And>ttl. rf_presign_ttl (fst acc) = Some ttl \<Longrightarrow> 0 < ttl \<and> ttl \<le> MAX_BUNDLE_URI_PRESIGN_TTL_SECONDS"
    and "rf_presign_ttl (fst acc') = Some ttl"
  shows "0 < ttl \<and> ttl \<le> MAX_BUNDLE_URI_PRESIGN_TTL_SECONDS"
  using assms
proof (induction pairs arbitrary: acc)
  case (Cons p pairs)
  obtain key v where p: "p = (key, v)" by force
  with Cons.prems(1) obtain mid where mid: "apply_flag acc key v = Inr mid" "apply_flags mid pairs = Inr acc'"
    by (auto split: sum.splits)
  from apply_flag_ttl [OF mid(1) Cons.prems(2)]
  have "rf_presign_ttl (fst mid) = Some ttl \<Longrightarrow> 0 < ttl \<and> ttl \<le> MAX_BUNDLE_URI_PRESIGN_TTL_SECONDS" for ttl by blast
  from Cons.IH [OF mid(2) this Cons.prems(3)] show ?case .
qed auto

lemma extracted_flags_wf:
  assumes "extract_flags u = Inr (flags, a)" "reject_inapplicable_presign_ttl flags = None"
  shows "flags_wf flags"
  using apply_flags_ttl [of "(default_flags, None)" "u_query_pairs u" "(flags, a)"] assms
  by (auto simp: extract_flags_def flags_wf_def default_flags_def reject_inapplicable_presign_ttl_def
      split: option.split if_splits)

lemma path_segments_nonempty: "[] \<notin> set (path_segments u)"
  by (auto simp: path_segments_def split: option.split)

text \<open>A segment has no slash in it, and the prefix joined from segments splits into them.\<close>

definition slash_free :: "string list \<Rightarrow> bool" where
  "slash_free ss \<longleftrightarrow> list_all (\<lambda>s. CHR ''/'' \<notin> set s) ss"

lemma prefix_parts_join: "slash_free segments \<Longrightarrow> prefix_parts (join_prefix segments) = segments"
  by (auto simp: prefix_parts_def join_prefix_def slash_free_def list_all_iff intro!: split_on_join)

lemma prefix_join_wf:
  "\<lbrakk>slash_free segments; [] \<notin> set segments\<rbrakk> \<Longrightarrow>
     prefix_wf (join_prefix segments) \<and> prefix_parts (join_prefix segments) = segments"
  by (simp add: prefix_wf_def prefix_parts_join)

text \<open>What the \<open>url\<close> crate promises of an http or https URL: \<open>path_segments\<close> splits the path at
  every slash.\<close>

definition http_body :: "string \<Rightarrow> bool" where
  "http_body body \<longleftrightarrow> starts_with body ''https://'' \<or> starts_with body ''http://''"

definition segments_law :: "url_lib \<Rightarrow> bool" where
  "segments_law U \<longleftrightarrow>
     (\<forall>body e. http_body body \<longrightarrow> ul_parse U body = Inr e \<longrightarrow> slash_free (path_segments e))"

lemma detect_backend_body: "detect_backend input = Inr (kind, body) \<Longrightarrow> http_body body"
  by (auto simp: detect_backend_def Let_def http_body_def split: option.splits if_splits)

text \<open>The two ways a remote comes about, with every check that passed.\<close>

lemma finish_s3_Inr:
  assumes "finish_s3 U endpoint host flags override = Inr r"
  obtains addressing bucket segs where
    "rf_credential flags = None" "check_aws_s3_host host = None"
    "resolve_s3_components host (path_segments endpoint) override = Inr (addressing, bucket, segs)"
    "is_valid_bucket bucket"
    "r = S3Remote (set_canonical_path U (case addressing of S3VirtualHosted \<Rightarrow> segs | S3PathStyle \<Rightarrow> bucket # segs) endpoint)
       bucket (join_prefix segs) addressing flags"
  using assms
  by (auto simp: finish_s3_def reject_inapplicable_flag_def Let_def split: if_splits option.splits sum.splits prod.splits)

lemma finish_azure_Inr:
  assumes "finish_azure U endpoint host flags override = Inr r"
  obtains addressing account container segs where
    "rf_profile flags = None" "rf_region flags = None"
    "addressing = (case override of Some PathOverride \<Rightarrow> AzurePathStyle | Some VirtualOverride \<Rightarrow> AzureVirtualHosted
       | None \<Rightarrow> detect_azure_addressing host)"
    "resolve_azure_components addressing host (path_segments endpoint) = Inr (account, container, segs)"
    "is_valid_account account" "is_valid_container container"
    "r = AzureRemote (set_canonical_path U (case addressing of AzureVirtualHosted \<Rightarrow> container # segs
       | AzurePathStyle \<Rightarrow> account # container # segs) endpoint)
       account container (join_prefix segs) addressing flags"
  using assms
  by (auto simp: finish_azure_def reject_inapplicable_flag_def Let_def split: if_splits option.splits sum.splits prod.splits)

lemma resolve_s3_segments:
  "resolve_s3_components host segments override = Inr (a, bucket, segs) \<Longrightarrow>
   (case a of S3VirtualHosted \<Rightarrow> segments = segs | S3PathStyle \<Rightarrow> segments = bucket # segs)"
  by (auto simp: resolve_s3_components_def Let_def split: option.splits addressing_override.splits if_splits list.splits)

lemma resolve_azure_segments:
  "resolve_azure_components a host segments = Inr (account, container, segs) \<Longrightarrow>
   (case a of AzureVirtualHosted \<Rightarrow> segments = container # segs | AzurePathStyle \<Rightarrow> segments = account # container # segs)"
  by (auto simp: resolve_azure_components_def split: option.splits azure_addressing.splits list.splits)

lemma finish_s3_wf:
  assumes "finish_s3 U endpoint host flags override = Inr r" "flags_wf flags"
    and "slash_free (path_segments endpoint)"
  shows "remote_wf r \<and> remote_path r = path_segments endpoint"
  using assms(1)
proof (rule finish_s3_Inr)
  fix a bucket segs
  assume a: "rf_credential flags = None" "is_valid_bucket bucket"
    and res: "resolve_s3_components host (path_segments endpoint) override = Inr (a, bucket, segs)"
    and r: "r = S3Remote (set_canonical_path U (case a of S3VirtualHosted \<Rightarrow> segs | S3PathStyle \<Rightarrow> bucket # segs) endpoint)
       bucket (join_prefix segs) a flags"
  have segs: "case a of S3VirtualHosted \<Rightarrow> path_segments endpoint = segs
      | S3PathStyle \<Rightarrow> path_segments endpoint = bucket # segs"
    by (rule resolve_s3_segments [OF res])
  then have "prefix_wf (join_prefix segs) \<and> prefix_parts (join_prefix segs) = segs"
    using path_segments_nonempty [of endpoint] assms(3)
    by (intro prefix_join_wf) (cases a; auto simp: slash_free_def)+
  with a r assms(2) segs show ?thesis by (cases a) (simp_all add: remote_wf_def remote_path_def)
qed

lemma finish_azure_wf:
  assumes "finish_azure U endpoint host flags override = Inr r" "flags_wf flags"
    and "slash_free (path_segments endpoint)"
  shows "remote_wf r \<and> remote_path r = path_segments endpoint"
  using assms(1)
proof (rule finish_azure_Inr)
  fix a account container segs
  assume a: "rf_profile flags = None" "rf_region flags = None" "is_valid_account account" "is_valid_container container"
    and res: "resolve_azure_components a host (path_segments endpoint) = Inr (account, container, segs)"
    and r: "r = AzureRemote (set_canonical_path U (case a of AzureVirtualHosted \<Rightarrow> container # segs
       | AzurePathStyle \<Rightarrow> account # container # segs) endpoint) account container (join_prefix segs) a flags"
  have segs: "case a of AzureVirtualHosted \<Rightarrow> path_segments endpoint = container # segs
      | AzurePathStyle \<Rightarrow> path_segments endpoint = account # container # segs"
    by (rule resolve_azure_segments [OF res])
  then have "prefix_wf (join_prefix segs) \<and> prefix_parts (join_prefix segs) = segs"
    using path_segments_nonempty [of endpoint] assms(3)
    by (intro prefix_join_wf) (cases a; auto simp: slash_free_def)+
  with a r assms(2) segs show ?thesis by (cases a) (simp_all add: remote_wf_def remote_path_def)
qed

text \<open>Everything a successful parse passed through.\<close>

lemma parse_remote_Inr:
  assumes "parse_remote U env input = Inr r"
  obtains backend body endpoint host flags override where
    "detect_backend (trim input) = Inr (backend, body)" "ul_parse U body = Inr endpoint"
    "u_host_str endpoint = Some host" "transport_ok env endpoint"
    "extract_flags endpoint = Inr (flags, override)" "reject_inapplicable_presign_ttl flags = None"
    "(case backend of S3 \<Rightarrow> finish_s3 U endpoint host flags override
      | Azure \<Rightarrow> finish_azure U endpoint host flags override) = Inr r"
  using assms
  by (auto simp: parse_remote_def Let_def transport_ok_def
      split: if_splits option.splits sum.splits prod.splits)

subsection \<open>Displaying and parsing again\<close>

text \<open>The endpoint of a remote is the parsed URL with its non-empty path segments as its path.\<close>

lemma finish_endpoint:
  assumes "(case backend of S3 \<Rightarrow> finish_s3 U endpoint host flags override
      | Azure \<Rightarrow> finish_azure U endpoint host flags override) = Inr r"
  shows "ru_endpoint r = set_canonical_path U (path_segments endpoint) endpoint \<and> ru_kind r = backend"
proof (cases backend)
  case S3
  with assms have "finish_s3 U endpoint host flags override = Inr r" by simp
  then show ?thesis
    by (rule finish_s3_Inr) (auto simp: S3 ru_kind_def dest!: resolve_s3_segments split: s3_addressing.splits)
next
  case Azure
  with assms have "finish_azure U endpoint host flags override = Inr r" by simp
  then show ?thesis
    by (rule finish_azure_Inr) (auto simp: Azure ru_kind_def dest!: resolve_azure_segments split: azure_addressing.splits)
qed

text \<open>
  What the \<open>url\<close> crate promises of an http or https URL whose path is set to the segments it was read with:
  nothing else changes, the text is visible ASCII that begins with the scheme and parses back,
  and setting the path once more has no effect.
\<close>

definition canonical_law :: "url_lib \<Rightarrow> url_rec \<Rightarrow> bool" where
  "canonical_law U e \<longleftrightarrow>
     (let e' = set_canonical_path U (path_segments e) e in
      u_scheme e' = u_scheme e \<and> u_host e' = u_host e \<and> u_host_str e' = u_host_str e \<and>
      u_query_pairs e' = u_query_pairs e \<and> path_segments e' = path_segments e \<and>
      ul_parse U (u_text e') = Inr e' \<and> set_canonical_path U (path_segments e) e' = e' \<and>
      visible_ascii (u_text e') \<and>
      http_body (u_text e'))"

lemma finish_same_parts:
  assumes "path_segments e' = path_segments e" "set_canonical_path U (path_segments e) e' = set_canonical_path U (path_segments e) e"
  shows "finish_s3 U e' host flags override = finish_s3 U e host flags override"
    "finish_azure U e' host flags override = finish_azure U e host flags override"
proof -
  have s3: "set_canonical_path U (case a of S3VirtualHosted \<Rightarrow> segs | S3PathStyle \<Rightarrow> bucket # segs) e' =
      set_canonical_path U (case a of S3VirtualHosted \<Rightarrow> segs | S3PathStyle \<Rightarrow> bucket # segs) e"
    if "resolve_s3_components host (path_segments e) override = Inr (a, bucket, segs)" for a bucket segs
    using resolve_s3_segments [OF that] assms(2) by (cases a) auto
  have az: "set_canonical_path U (case a of AzureVirtualHosted \<Rightarrow> container # segs | AzurePathStyle \<Rightarrow> account # container # segs) e' =
      set_canonical_path U (case a of AzureVirtualHosted \<Rightarrow> container # segs | AzurePathStyle \<Rightarrow> account # container # segs) e"
    if "resolve_azure_components a host (path_segments e) = Inr (account, container, segs)" for a account container segs
    using resolve_azure_segments [OF that] assms(2) by (cases a) auto
  show "finish_s3 U e' host flags override = finish_s3 U e host flags override"
    by (auto simp: finish_s3_def Let_def assms(1) s3 split: option.split sum.split)
  show "finish_azure U e' host flags override = finish_azure U e host flags override"
    by (auto simp: finish_azure_def Let_def assms(1) az split: option.split sum.split)
qed

lemma detect_display:
  assumes "http_body t"
  shows "detect_backend (scheme_prefix kind @ t) = Inr (kind, t)"
  using assms by (cases kind) (auto simp: http_body_def detect_backend_def scheme_prefix_def Let_def split: option.split)

lemma remote_display_kind: "remote_display r = scheme_prefix (ru_kind r) @ u_text (ru_endpoint r)"
  by (cases r) (auto simp: remote_display_def ru_kind_def scheme_prefix_def)

lemma display_parses:
  assumes "parse_remote U env input = Inr r" "\<And>body e. \<lbrakk>http_body body; ul_parse U body = Inr e\<rbrakk> \<Longrightarrow> canonical_law U e"
  shows "parse_remote U env (remote_display r) = Inr r"
  using assms(1)
proof (rule parse_remote_Inr)
  fix backend body e host flags override
  assume body: "detect_backend (trim input) = Inr (backend, body)"
    and p: "ul_parse U body = Inr e" "u_host_str e = Some host" "transport_ok env e"
    "extract_flags e = Inr (flags, override)" "reject_inapplicable_presign_ttl flags = None"
    and fin: "(case backend of S3 \<Rightarrow> finish_s3 U e host flags override
      | Azure \<Rightarrow> finish_azure U e host flags override) = Inr r"
  define e' where "e' = set_canonical_path U (path_segments e) e"
  from assms(2) [OF detect_backend_body [OF body] p(1)] have law: "u_scheme e' = u_scheme e" "u_host e' = u_host e" "u_host_str e' = u_host_str e"
    "u_query_pairs e' = u_query_pairs e" "path_segments e' = path_segments e" "ul_parse U (u_text e') = Inr e'"
    "set_canonical_path U (path_segments e) e' = e'" "visible_ascii (u_text e')"
    "http_body (u_text e')"
    by (simp_all add: canonical_law_def Let_def e'_def)
  have r: "ru_endpoint r = e'" "ru_kind r = backend" using finish_endpoint [OF fin] by (simp_all add: e'_def)
  have shown: "visible_ascii (remote_display r)" "remote_display r \<noteq> []"
    using law(8) by (cases backend; simp add: remote_display_kind r scheme_prefix_def visible_ascii_def)+
  have detect: "detect_backend (remote_display r) = Inr (backend, u_text e')"
    unfolding remote_display_kind r by (rule detect_display [OF law(9)])
  have flags: "extract_flags e' = Inr (flags, override)" using p(4) law(4) by (simp add: extract_flags_def)
  have transport: "\<not> (u_scheme e' = ''http'' \<and> \<not> is_loopback e' \<and> \<not> http_allowed_by_env env)"
    using p(3) law(1,2) by (auto simp: transport_ok_def is_loopback_def)
  have fin': "(case backend of S3 \<Rightarrow> finish_s3 U e' host flags override
      | Azure \<Rightarrow> finish_azure U e' host flags override) = Inr r"
    using fin finish_same_parts [of e' e U host flags override] law(5,7) by (simp add: e'_def split: backend_kind.splits)
  show ?thesis
    unfolding parse_remote_def Let_def trim_visible [OF shown(1)]
    using shown(2) transport by (simp add: detect law(3,6) p(2,5) flags fin')
qed

subsection \<open>Examples\<close>

definition demo_url :: "string list \<Rightarrow> url_rec" where
  "demo_url segments = \<lparr>u_scheme = ''https'', u_host = Some (Domain ''minio.local''), u_host_str = Some ''minio.local'',
     u_port = None, u_segments = Some segments, u_query_pairs = [(''engine'', ''packchain'')],
     u_text = ''https://minio.local/'' @ join_on ''/'' segments @ ''?engine=packchain''\<rparr>"

definition demo_urls :: url_lib where
  "demo_urls = \<lparr>ul_parse = \<lambda>s.
       if s = u_text (demo_url [''repos'', '''', ''team'']) then Inr (demo_url [''repos'', '''', ''team''])
       else if s = u_text (demo_url [''repos'', ''team'']) then Inr (demo_url [''repos'', ''team''])
       else Inl ''relative URL without a base'',
     ul_set_path = \<lambda>p u. demo_url (tl (split_on CHR ''/'' p))\<rparr>"

definition demo_remote :: remote_url where
  "demo_remote = S3Remote (demo_url [''repos'', ''team'']) ''repos'' (Some ''team'') S3PathStyle
     (default_flags\<lparr>rf_engine := Some PackchainEngine\<rparr>)"

lemma demo_url_text_visible: "visible_ascii (u_text (demo_url [''repos'', '''', ''team'']))"
    "visible_ascii (u_text (demo_url [''repos'', ''team'']))"
  by (simp_all add: demo_url_def visible_ascii_def)

lemma demo_canonical:
  "path_segments (demo_url [''repos'', '''', ''team'']) = [''repos'', ''team'']"
  "path_segments (demo_url [''repos'', ''team'']) = [''repos'', ''team'']"
  "set_canonical_path demo_urls [''repos'', ''team''] u = demo_url [''repos'', ''team'']"
  by (simp_all add: path_segments_def demo_url_def set_canonical_path_def demo_urls_def)

lemma demo_urls_law: "ul_parse demo_urls body = Inr e \<Longrightarrow> canonical_law demo_urls e"
proof -
  assume "ul_parse demo_urls body = Inr e"
  then have "e = demo_url [''repos'', '''', ''team''] \<or> e = demo_url [''repos'', ''team'']"
    by (auto simp: demo_urls_def split: if_splits)
  moreover have "ul_parse demo_urls (u_text (demo_url [''repos'', ''team''])) = Inr (demo_url [''repos'', ''team''])"
    by (simp add: demo_urls_def demo_url_def)
  ultimately show ?thesis
    using demo_url_text_visible(2)
    by (auto simp: canonical_law_def demo_canonical) (simp_all add: demo_url_def http_body_def)
qed

lemma demo_segments_law: "segments_law demo_urls"
proof -
  have "slash_free (path_segments e)" if "ul_parse demo_urls body = Inr e" for body e
  proof -
    from that have "e = demo_url [''repos'', [], ''team''] \<or> e = demo_url [''repos'', ''team'']"
      by (auto simp: demo_urls_def split: if_splits)
    then show ?thesis by (auto simp: demo_canonical slash_free_def)
  qed
  then show ?thesis by (simp add: segments_law_def)
qed

definition demo_remote_text :: string where
  "demo_remote_text = ''s3+'' @ u_text (demo_url [''repos'', [], ''team''])"

lemma demo_remote_parses: "parse_remote demo_urls None demo_remote_text = Inr demo_remote"
proof -
  let ?e = "demo_url [''repos'', [], ''team'']"
  have visible: "visible_ascii demo_remote_text"
    using demo_url_text_visible(1) by (simp add: visible_ascii_def demo_remote_text_def)
  have detect: "detect_backend demo_remote_text = Inr (S3, u_text ?e)"
    using detect_display [of "u_text ?e" S3]
    by (simp add: demo_remote_text_def scheme_prefix_def demo_url_def http_body_def)
  have parsed: "ul_parse demo_urls (u_text ?e) = Inr ?e" by (simp add: demo_urls_def)
  have flags: "extract_flags ?e = Inr (default_flags\<lparr>rf_engine := Some PackchainEngine\<rparr>, None)"
    by (simp add: extract_flags_def demo_url_def apply_flag_def engine_from_name_def all_engines_def engine_as_str_def)
  have bucket: "is_valid_bucket ''repos''" by code_simp
  have host: "check_aws_s3_host ''minio.local'' = None" "s3_virtual_hosted_bucket ''minio.local'' = None"
    by code_simp+
  have fin: "finish_s3 demo_urls ?e ''minio.local'' (default_flags\<lparr>rf_engine := Some PackchainEngine\<rparr>) None =
      Inr demo_remote"
    using bucket host
    by (simp add: finish_s3_def reject_inapplicable_flag_def demo_canonical resolve_s3_components_def join_prefix_def
        demo_remote_def) (simp add: default_flags_def)
  have presign: "reject_inapplicable_presign_ttl (default_flags\<lparr>rf_engine := Some PackchainEngine\<rparr>) = None"
    by (simp add: reject_inapplicable_presign_ttl_def default_flags_def)
  have parts: "u_host_str ?e = Some ''minio.local''" "u_scheme ?e = ''https''" by (simp_all add: demo_url_def)
  have "demo_remote_text \<noteq> []" by (simp add: demo_remote_text_def)
  then show ?thesis
    by (simp add: parse_remote_def trim_visible [OF visible] detect parsed flags presign parts fin)
qed

subsection \<open>Properties\<close>

text \<open>C15. Every remote that parses is well typed: its bucket, or its account and container, has a valid
  name; its prefix, split at its slashes, has no empty segment (none doubled, none at either end);
  together they are the non-empty segments of the URL's path, in order; its flags apply to its
  provider, a presign lifetime is at most seven days and only given with bundle-uri, and it is not
  reached in the clear unless it is local or the environment allows it.\<close>

theorem parsed_remotes_are_well_formed:
  assumes "parse_remote U env input = Inr r" "segments_law U"
  shows "remote_wf r \<and>
    (\<exists>body e. ul_parse U body = Inr e \<and> transport_ok env e \<and> remote_path r = path_segments e \<and>
       ru_endpoint r = set_canonical_path U (path_segments e) e)"
  using assms(1)
proof (rule parse_remote_Inr)
  fix backend body e host flags override
  assume body: "detect_backend (trim input) = Inr (backend, body)"
    and p: "ul_parse U body = Inr e" "transport_ok env e" "extract_flags e = Inr (flags, override)"
    "reject_inapplicable_presign_ttl flags = None"
    and fin: "(case backend of S3 \<Rightarrow> finish_s3 U e host flags override
      | Azure \<Rightarrow> finish_azure U e host flags override) = Inr r"
  have "slash_free (path_segments e)"
    using assms(2) detect_backend_body [OF body] p(1) by (simp add: segments_law_def)
  then have "remote_wf r \<and> remote_path r = path_segments e"
    using fin finish_s3_wf finish_azure_wf extracted_flags_wf [OF p(3,4)] by (cases backend) auto
  with p finish_endpoint [OF fin] show ?thesis by blast
qed

theorem parsed_remotes_are_well_formed_witness:
  "parse_remote demo_urls None demo_remote_text = Inr demo_remote \<and> remote_wf demo_remote \<and>
   remote_path demo_remote = [''repos'', ''team'']"
  using parsed_remotes_are_well_formed [OF demo_remote_parses demo_segments_law] demo_remote_parses
  by (simp add: remote_path_def demo_remote_def prefix_parts_def)

text \<open>C16. A remote displays as a URL that parses back to the same remote, whatever text it was parsed
  from, given the \<open>url\<close> crate's handling of http and https URLs.\<close>

theorem displayed_remotes_parse_back:
  assumes "parse_remote U env input = Inr r" "\<And>body e. \<lbrakk>http_body body; ul_parse U body = Inr e\<rbrakk> \<Longrightarrow> canonical_law U e"
  shows "parse_remote U env (remote_display r) = Inr r"
  using assms by (rule display_parses)

theorem displayed_remotes_parse_back_witness:
  "parse_remote demo_urls None (remote_display demo_remote) = Inr demo_remote \<and>
   remote_display demo_remote = ''s3+https://minio.local/repos/team?engine=packchain''"
  using displayed_remotes_parse_back [OF demo_remote_parses demo_urls_law]
  by (simp add: remote_display_def demo_remote_def demo_url_def)

end
