(* ===== verification/Protocol_Stream.thy ===== *)
theory Protocol_Stream
  imports Prelude
begin

text \<open>
  The stream a remote helper answers git on. The code writes through tokio's \<open>AsyncWrite\<close>; a
  \<open>writer\<close> is the bytes delivered so far and, for a peer that goes away, how many more it takes.
  Programs that answer git run on the pair of the store's state and a writer.
\<close>

datatype io_error_kind = BrokenPipe | WriteZero | OtherIoKind

record io_error =
  io_kind :: io_error_kind
  io_text :: string

record writer =
  wr_text :: string
  wr_room :: "nat option"

definition broken_pipe :: io_error where
  "broken_pipe = \<lparr>io_kind = BrokenPipe, io_text = ''Broken pipe''\<rparr>"

definition write_all :: "string \<Rightarrow> ('s \<times> writer, io_error, unit) io" where
  "write_all s = (\<lambda>(t, w).
     case wr_room w of
       None \<Rightarrow> (Inr (), (t, w\<lparr>wr_text := wr_text w @ s\<rparr>))
     | Some n \<Rightarrow>
         if length s \<le> n then (Inr (), (t, w\<lparr>wr_text := wr_text w @ s, wr_room := Some (n - length s)\<rparr>))
         else (Inl broken_pipe, (t, w\<lparr>wr_text := wr_text w @ take n s, wr_room := Some 0\<rparr>)))"

text \<open>Writing the pieces of a text one after the other.\<close>

fun write_each :: "string list \<Rightarrow> ('s \<times> writer, io_error, unit) io" where
  "write_each [] = ok ()"
| "write_each (s # ss) = and_then (write_all s) (\<lambda>_. write_each ss)"

definition fresh_writer :: writer where
  "fresh_writer = \<lparr>wr_text = [], wr_room = None\<rparr>"

lemma fresh_writer_sel [simp]: "wr_text fresh_writer = []" "wr_room fresh_writer = None"
  by (simp_all add: fresh_writer_def)

text \<open>
  What a program may do to the stream: only append, and everything it means to write or, once
  the peer is gone, a part of it.
\<close>

definition wrote_text :: "string \<Rightarrow> writer \<Rightarrow> writer \<Rightarrow> bool" where
  "wrote_text s w w' \<longleftrightarrow> wr_text w' = wr_text w @ s \<and> (wr_room w = None \<longleftrightarrow> wr_room w' = None)"

definition wrote_part :: "string \<Rightarrow> writer \<Rightarrow> writer \<Rightarrow> bool" where
  "wrote_part s w w' \<longleftrightarrow> (\<exists>p. prefix p s \<and> wr_text w' = wr_text w @ p) \<and> wr_room w \<noteq> None \<and> wr_room w' \<noteq> None"

lemma wrote_text_refl [simp]: "wrote_text [] w w"
  by (simp add: wrote_text_def)

lemma wrote_text_trans: "wrote_text a u v \<Longrightarrow> wrote_text b v w \<Longrightarrow> wrote_text (a @ b) u w"
  by (auto simp: wrote_text_def)

lemma wrote_text_part: "wrote_text a u v \<Longrightarrow> wrote_part b v w \<Longrightarrow> wrote_part (a @ b) u w"
  by (fastforce simp: wrote_text_def wrote_part_def)

lemma wrote_part_more: "wrote_part a u v \<Longrightarrow> wrote_part (a @ b) u v"
  by (auto simp: wrote_part_def)

lemma wp_write_all [wp_intros]:
  assumes "\<And>w'. wrote_text s (snd p) w' \<Longrightarrow> Q () (fst p, w')"
    and "\<And>w'. wrote_part s (snd p) w' \<Longrightarrow> E broken_pipe (fst p, w')"
  shows "wp (write_all s) Q E p"
proof -
  obtain t w where p: "p = (t, w)" by force
  show ?thesis
  proof (cases "wr_room w")
    case None
    with assms(1) show ?thesis by (simp add: wp_def p write_all_def wrote_text_def)
  next
    case (Some n)
    then have "prefix (take n s) s" by (simp add: take_is_prefix)
    with Some assms show ?thesis by (auto simp: wp_def p write_all_def wrote_text_def wrote_part_def)
  qed
qed

lemma wp_write_each [wp_intros]:
  assumes "\<And>w'. wrote_text (concat ss) (snd p) w' \<Longrightarrow> Q () (fst p, w')"
    and "\<And>w'. wrote_part (concat ss) (snd p) w' \<Longrightarrow> E broken_pipe (fst p, w')"
  shows "wp (write_each ss) Q E p"
  using assms
proof (induction ss arbitrary: p)
  case Nil
  from Nil(1) [of "snd p"] show ?case by (auto intro!: wp_ok)
next
  case (Cons s ss)
  show ?case unfolding write_each.simps
    by (intro wp_and_then wp_write_all Cons.IH)
      (auto intro!: Cons.prems intro: wrote_text_trans wrote_text_part wrote_part_more)
qed

end
