(* ===== verification/Ref_Listing.thy ===== *)
theory Ref_Listing
  imports Protocol_Stream Remote_Url
begin

text \<open>
  The answers that list refs: \<open>src/protocol/list.rs\<close> (the \<open>list\<close> command),
  \<open>src/packchain/list.rs\<close> (the refs of the packchain engine) and \<open>src/protocol/bundle_uri.rs\<close>
  (the bundles a clone may start from). What is written to git is text; warnings are not.
\<close>

subsection \<open>src/packchain/list.rs\<close>

record chain_ref =
  cr_sha :: string
  cr_ref_path :: string
  cr_last_modified :: int

fun filter_map :: "('a \<Rightarrow> 'b option) \<Rightarrow> 'a list \<Rightarrow> 'b list" where
  "filter_map f [] = []"
| "filter_map f (x # xs) = (case f x of None \<Rightarrow> filter_map f xs | Some y \<Rightarrow> y # filter_map f xs)"

definition chain_candidate ::
    "ext \<Rightarrow> string option \<Rightarrow> object_meta \<Rightarrow> (string \<times> string \<times> int) option" where
  "chain_candidate x pfx m =
     (if \<not> is_chain_json_key (om_key m) then None
      else
        (case ref_path_from_chain_key pfx (om_key m) of
           None \<Rightarrow> None
         | Some ref_path \<Rightarrow>
             if \<not> ref_name_ok x ref_path then None else Some (om_key m, ref_path, om_last_modified m)))"

text \<open>
  The bodies arrive in any order (\<open>buffer_unordered\<close>); here they are fetched in the order of
  the listing. A chain that vanished since is skipped, any other failure ends the listing.
\<close>

fun fetch_bodies ::
    "'s store_api \<Rightarrow> (string \<times> string \<times> int) list \<Rightarrow>
     ('s, packchain_error, (string \<times> int \<times> string) list) io" where
  "fetch_bodies st [] = ok []"
| "fetch_bodies st ((key, ref_path, last_modified) # cs) =
     and_then
       (match_io (st_get_bytes st key)
          (\<lambda>e. case e of NotFound _ \<Rightarrow> ok None | _ \<Rightarrow> fail_with (PackStore e))
          (\<lambda>body. ok (Some (ref_path, last_modified, body)))) (\<lambda>got.
     and_then (fetch_bodies st cs) (\<lambda>rest.
     ok (case got of None \<Rightarrow> rest | Some b \<Rightarrow> b # rest)))"

definition list_refs ::
    "ext \<Rightarrow> 's store_api \<Rightarrow> string option \<Rightarrow> ('s, packchain_error, chain_ref list) io" where
  "list_refs x st pfx =
     (let refs_prefix = join pfx ''refs/'' in
      and_then (map_err PackStore (st_list st refs_prefix)) (\<lambda>metas.
      let candidates = filter_map (chain_candidate x pfx) metas in
      and_then (fetch_bodies st candidates) (\<lambda>bodies.
      let out = filter_map (\<lambda>(ref_path, last_modified, body).
            case chain_from_json_bytes x body of
              Inr chain \<Rightarrow> Some \<lparr>cr_sha = cm_tip chain, cr_ref_path = ref_path, cr_last_modified = last_modified\<rparr>
            | Inl _ \<Rightarrow> None) bodies in
      ok (sort_key (\<lambda>e. - cr_last_modified e) out))))"

subsection \<open>src/protocol/list.rs\<close>

datatype list_error =
    ListStore store_error
  | ListIo io_error
  | ListPackchain packchain_error

record listed_ref =
  lr_sha :: string
  lr_ref_path :: string

definition relative_key :: "string option \<Rightarrow> string \<Rightarrow> string option" where
  "relative_key pfx full_key =
     (case pfx of
        None \<Rightarrow> Some full_key
      | Some p \<Rightarrow>
          if p = [] then Some full_key
          else if length full_key \<le> length p then None
          else if \<not> starts_with full_key p then None
          else if full_key ! length p \<noteq> CHR ''/'' then None
          else Some (drop (length p + 1) full_key))"

definition parse_bundle_key :: "ext \<Rightarrow> string \<Rightarrow> (string \<times> string) option" where
  "parse_bundle_key x rel_key =
     (let segments = split_on CHR ''/'' rel_key in
      if length segments < 4 then None
      else if hd segments \<noteq> ''refs'' then None
      else
        (case strip_suffix ''.bundle'' (last segments) of
           None \<Rightarrow> None
         | Some sha \<Rightarrow>
             if \<not> is_valid_bundle_stem sha then None
             else
               (let split_at = length rel_key - length (last segments) - 1;
                    ref_path = take split_at rel_key in
                if \<not> ref_name_ok x ref_path then None else Some (ref_path, sha))))"

definition listed_bundle ::
    "ext \<Rightarrow> string option \<Rightarrow> string list \<Rightarrow> object_meta \<Rightarrow> (int \<times> listed_ref) option" where
  "listed_bundle x pfx hide m =
     (if om_key m \<in> set hide then None
      else
        Option.bind (relative_key pfx (om_key m)) (\<lambda>rel.
        Option.bind (parse_bundle_key x rel) (\<lambda>(ref_path, sha).
        Some (om_last_modified m, \<lparr>lr_sha = sha, lr_ref_path = ref_path\<rparr>))))"

definition collect_bundles ::
    "ext \<Rightarrow> 's store_api \<Rightarrow> string option \<Rightarrow> ('s, store_error, listed_ref list) io" where
  "collect_bundles x st pfx =
     and_then (st_list st (case pfx of None \<Rightarrow> [] | Some p \<Rightarrow> p)) (\<lambda>listed.
     if listed = [] then ok []
     else
       and_then (tombstoned_bundle_keys x st pfx) (\<lambda>hide.
       let parsed = filter_map (listed_bundle x pfx hide) listed in
       ok (map snd (sort_key (\<lambda>(t, _). - t) parsed))))"

definition read_remote_head ::
    "'s store_api \<Rightarrow> string option \<Rightarrow> ('s, store_error, string option) io" where
  "read_remote_head st pfx =
     match_io (st_get_bytes st (join pfx ''HEAD''))
       (\<lambda>e. case e of NotFound _ \<Rightarrow> ok None | _ \<Rightarrow> fail_with e)
       (\<lambda>body.
          if \<not> utf8_valid body then ok None
          else (let trimmed = trim body in ok (if trimmed = [] then None else Some trimmed)))"

definition listed_entries ::
    "ext \<Rightarrow> 's store_api \<Rightarrow> string option \<Rightarrow> storage_engine \<Rightarrow> ('s, list_error, listed_ref list) io" where
  "listed_entries x st pfx engine =
     (case engine of
        BundleEngine \<Rightarrow> map_err ListStore (collect_bundles x st pfx)
      | PackchainEngine \<Rightarrow>
          and_then (map_err ListPackchain (list_refs x st pfx)) (\<lambda>refs.
          ok (map (\<lambda>r. \<lparr>lr_sha = cr_sha r, lr_ref_path = cr_ref_path r\<rparr>) refs)))"

definition list_line :: "listed_ref \<Rightarrow> string" where
  "list_line e = lr_sha e @ '' '' @ lr_ref_path e @ [CHR 0x0A]"

definition handle_list ::
    "ext \<Rightarrow> 's store_api \<Rightarrow> string option \<Rightarrow> storage_engine \<Rightarrow> bool \<Rightarrow> ('s \<times> writer, list_error, unit) io" where
  "handle_list x st pfx engine for_push =
     and_then (in_store (listed_entries x st pfx engine)) (\<lambda>entries.
     and_then
       (if for_push then ok ()
        else
          and_then (in_store (map_err ListStore (read_remote_head st pfx))) (\<lambda>head.
          case head of
            Some head_ref \<Rightarrow>
              if list_ex (\<lambda>e. lr_ref_path e = head_ref) entries
              then map_err ListIo (write_all (''@'' @ head_ref @ '' HEAD'' @ [CHR 0x0A]))
              else ok ()
          | None \<Rightarrow> ok ())) (\<lambda>_.
     and_then (map_err ListIo (write_each (map list_line entries))) (\<lambda>_.
     map_err ListIo (write_all [CHR 0x0A]))))"

subsection \<open>src/protocol/bundle_uri.rs\<close>

datatype bundle_uri_error =
    BundleUriPackchain packchain_error
  | BundleUriStore store_error
  | BundleUriIo io_error

record bundle_entry =
  be_ref_path :: string
  be_full_at :: string

definition is_safe_for_bundle_uri_emission :: "string \<Rightarrow> bool" where
  "is_safe_for_bundle_uri_emission ref_path = (\<not> list_ex (\<lambda>b. b \<in> set ''=#%&;,?'') ref_path)"

definition host_authority :: "url_rec \<Rightarrow> string" where
  "host_authority endpoint =
     (let host = the (u_host_str endpoint) in
      case u_port endpoint of
        Some port \<Rightarrow> u_scheme endpoint @ ''://'' @ host @ '':'' @ show_nat port
      | None \<Rightarrow> u_scheme endpoint @ ''://'' @ host)"

definition canonical_bundle_url :: "remote_url \<Rightarrow> string \<Rightarrow> string \<Rightarrow> string" where
  "canonical_bundle_url remote ref_path full_at =
     (let key = bundle_key (ru_prefix remote) ref_path full_at;
          authority = host_authority (ru_endpoint remote) in
      case remote of
        S3Remote _ bucket _ addressing _ \<Rightarrow>
          (case addressing of
             S3VirtualHosted \<Rightarrow> authority @ ''/'' @ key
           | S3PathStyle \<Rightarrow> authority @ ''/'' @ bucket @ ''/'' @ key)
      | AzureRemote _ account container _ addressing _ \<Rightarrow>
          (case addressing of
             AzureVirtualHosted \<Rightarrow> authority @ ''/'' @ container @ ''/'' @ key
           | AzurePathStyle \<Rightarrow> authority @ ''/'' @ account @ ''/'' @ container @ ''/'' @ key))"

definition bundle_url_for_emission ::
    "'s store_api \<Rightarrow> remote_url \<Rightarrow> string \<Rightarrow> string \<Rightarrow> nat option \<Rightarrow> ('s, bundle_uri_error, string) io" where
  "bundle_url_for_emission st remote ref_path full_at presign_ttl_seconds =
     (case presign_ttl_seconds of
        None \<Rightarrow> ok (canonical_bundle_url remote ref_path full_at)
      | Some ttl_seconds \<Rightarrow>
          map_err BundleUriStore (st_presigned_get_url st (bundle_key (ru_prefix remote) ref_path full_at) ttl_seconds))"

definition bundle_entry_at ::
    "ext \<Rightarrow> 's store_api \<Rightarrow> string \<Rightarrow> object_meta \<Rightarrow> ('s, packchain_error, bundle_entry option) io" where
  "bundle_entry_at x st pfx meta =
     (if \<not> is_chain_json_key (om_key meta) then ok None
      else
        (case ref_path_from_chain_key (Some pfx) (om_key meta) of
           None \<Rightarrow> ok None
         | Some ref_path \<Rightarrow>
             if \<not> ref_name_ok x ref_path then ok None
             else if \<not> is_safe_for_bundle_uri_emission ref_path then ok None
             else
               match_io (st_get_bytes st (om_key meta)) (\<lambda>_. ok None) (\<lambda>body.
                 case chain_from_json_bytes x body of
                   Inr chain \<Rightarrow> ok (Some \<lparr>be_ref_path = ref_path, be_full_at = cm_full_at chain\<rparr>)
                 | Inl _ \<Rightarrow> ok None)))"

definition collect_entries ::
    "ext \<Rightarrow> 's store_api \<Rightarrow> string \<Rightarrow> ('s, packchain_error, bundle_entry list) io" where
  "collect_entries x st pfx =
     (let refs_prefix = join (Some pfx) ''refs/heads/'' in
      and_then (map_err PackStore (st_list st refs_prefix)) (\<lambda>metas.
      and_then
        (fold_io (\<lambda>acc meta. and_then (bundle_entry_at x st pfx meta) (\<lambda>e.
           ok (case e of None \<Rightarrow> acc | Some b \<Rightarrow> acc @ [b]))) [] metas) (\<lambda>out.
      ok (sort_key be_ref_path out))))"

definition bundle_lines :: "string \<Rightarrow> string \<Rightarrow> string \<Rightarrow> string" where
  "bundle_lines ref_path url token =
     ''bundle.'' @ ref_path @ ''.uri='' @ url @ [CHR 0x0A] @
     ''bundle.'' @ ref_path @ ''.creationToken='' @ token @ [CHR 0x0A]"

fun emit_entries ::
    "'s store_api \<Rightarrow> remote_url \<Rightarrow> nat option \<Rightarrow> bundle_entry list \<Rightarrow> ('s \<times> writer, bundle_uri_error, unit) io" where
  "emit_entries st remote ttl [] = ok ()"
| "emit_entries st remote ttl (entry # entries) =
     match_io (in_store (bundle_url_for_emission st remote (be_ref_path entry) (be_full_at entry) ttl))
       (\<lambda>_. emit_entries st remote ttl entries)
       (\<lambda>url.
          and_then (map_err BundleUriIo (write_all (bundle_lines (be_ref_path entry) url (be_full_at entry)))) (\<lambda>_.
          emit_entries st remote ttl entries))"

definition handle_bundle_uri ::
    "ext \<Rightarrow> 's store_api \<Rightarrow> remote_url \<Rightarrow> nat option \<Rightarrow> bool \<Rightarrow> ('s \<times> writer, bundle_uri_error, unit) io" where
  "handle_bundle_uri x st remote ttl advertised =
     (if \<not> advertised then map_err BundleUriIo (write_all [CHR 0x0A])
      else
        (let pfx = (case ru_prefix remote of Some p \<Rightarrow> p | None \<Rightarrow> []) in
         match_io (in_store (collect_entries x st pfx)) 
           (\<lambda>_. map_err BundleUriIo (write_all [CHR 0x0A]))
           (\<lambda>entries.
              and_then (emit_entries st remote ttl entries) (\<lambda>_.
              map_err BundleUriIo (write_all [CHR 0x0A])))))"

end
