(* ===== verification/Ref_Listing_Proofs.thy ===== *)
theory Ref_Listing_Proofs
  imports Ref_Listing Bundle_Push_Properties
begin

text \<open>
  What \<open>list\<close> answers: on a quiet store exactly the refs whose bundle is stored and not hidden,
  or whose chain reads, newest first, with a \<open>HEAD\<close> line only for a ref that is listed.
\<close>

subsection \<open>Keys of listed bundles\<close>

lemma split_on_app: "split_on c (p @ c # q) = split_on c p @ split_on c q"
proof (induction p)
  case (Cons d p)
  obtain a as where "split_on c p = a # as" by (cases "split_on c p") auto
  with Cons show ?case by auto
qed simp

text \<open>The refs the bundle engine lists: below \<open>refs/\<close>, with at least two more components.\<close>

definition deep_ref :: "string \<Rightarrow> bool" where
  "deep_ref r \<longleftrightarrow> (\<exists>a b. r = ''refs/'' @ a @ ''/'' @ b)"

lemma deep_ref_split: "deep_ref r \<longleftrightarrow> hd (split_on CHR ''/'' r) = ''refs'' \<and> 3 \<le> length (split_on CHR ''/'' r)"
proof
  assume "deep_ref r"
  then obtain a b where r: "r = ''refs'' @ CHR ''/'' # a @ CHR ''/'' # b" by (auto simp: deep_ref_def)
  have "split_on CHR ''/'' r = [''refs''] @ split_on CHR ''/'' a @ split_on CHR ''/'' b"
    unfolding r split_on_app by simp
  moreover have "1 \<le> length (split_on CHR ''/'' q)" for q by (simp add: Suc_le_eq)
  from this [of a] this [of b] calculation show "hd (split_on CHR ''/'' r) = ''refs'' \<and> 3 \<le> length (split_on CHR ''/'' r)" by simp
next
  assume s: "hd (split_on CHR ''/'' r) = ''refs'' \<and> 3 \<le> length (split_on CHR ''/'' r)"
  then obtain a b ps where "split_on CHR ''/'' r = ''refs'' # a # b # ps"
    by (cases "split_on CHR ''/'' r"; cases "tl (split_on CHR ''/'' r)"; cases "tl (tl (split_on CHR ''/'' r))") auto
  then have "r = ''refs/'' @ a @ ''/'' @ join_on ''/'' (b # ps)"
    using join_split_on [of "CHR ''/''" r] by simp
  then show "deep_ref r" unfolding deep_ref_def by blast
qed

lemma valid_stem_no_slash: "is_valid_bundle_stem sha \<Longrightarrow> CHR ''/'' \<notin> set sha"
  by (auto simp: is_valid_bundle_stem_def list_all_iff is_lower_hex_def less_eq_char_def)

lemma parse_bundle_key_Some:
  "parse_bundle_key x rel = Some (r, sha) \<longleftrightarrow>
     rel = r @ ''/'' @ sha @ ''.bundle'' \<and> is_valid_bundle_stem sha \<and> ref_name_ok x r \<and> deep_ref r"
    (is "?l \<longleftrightarrow> ?r")
proof
  assume ?l
  let ?segs = "split_on CHR ''/'' rel"
  from \<open>?l\<close> have l: "4 \<le> length ?segs" "hd ?segs = ''refs''" "last ?segs = sha @ ''.bundle''"
    "is_valid_bundle_stem sha" "ref_name_ok x r" "r = take (length rel - length (last ?segs) - 1) rel"
    by (auto simp: parse_bundle_key_def Let_def split: if_splits option.splits)
  then have segs: "?segs = butlast ?segs @ [sha @ ''.bundle'']" "butlast ?segs \<noteq> []"
    by (metis append_butlast_last_id split_on_ne, auto simp: butlast_conv_take)
  have join_snoc: "join_on sep (ps @ [q]) = join_on sep ps @ sep @ q" if "ps \<noteq> []" for sep q and ps :: "string list"
    using that
  proof (induction ps)
    case (Cons p ps)
    then show ?case by (cases ps) auto
  qed simp
  have rel: "rel = join_on ''/'' (butlast ?segs) @ ''/'' @ sha @ ''.bundle''"
    using join_split_on [of "CHR ''/''" rel] join_snoc [OF segs(2)] segs(1) by metis
  have "take (length (j @ ''/'' @ z) - length z - 1) (j @ ''/'' @ z) = j" for j z :: string by simp
  then have r: "r = join_on ''/'' (butlast ?segs)" using l(3,6) rel by metis
  have "split_on CHR ''/'' r = butlast ?segs"
    unfolding r by (rule split_on_join [OF segs(2)]) (metis in_set_butlastD split_on_parts)
  moreover have "hd (butlast ?segs) = ''refs''" using l(2) segs by (metis hd_append2)
  ultimately have "deep_ref r" using l(1) by (simp add: deep_ref_split)
  with l rel r show ?r by simp
next
  assume r: ?r
  then have "CHR ''/'' \<notin> set (sha @ ''.bundle'')" using valid_stem_no_slash by auto
  then have segs: "split_on CHR ''/'' rel = split_on CHR ''/'' r @ [sha @ ''.bundle'']"
    using r split_on_app [of "CHR ''/''" r "sha @ ''.bundle''"] by (simp add: split_on_free)
  moreover have "hd (split_on CHR ''/'' r) = ''refs''" "3 \<le> length (split_on CHR ''/'' r)"
    using r by (simp_all add: deep_ref_split)
  ultimately show ?l using r by (simp add: parse_bundle_key_def Let_def hd_append)
qed

lemma relative_key_Some: "relative_key pfx k = Some rel \<longleftrightarrow> k = key_base pfx @ rel"
proof (cases "pfx = None \<or> pfx = Some []")
  case False
  then obtain p where p: "pfx = Some p" "p \<noteq> []" by auto
  show ?thesis
  proof
    assume "relative_key pfx k = Some rel"
    with p obtain q where "k = p @ q" "q \<noteq> []" "q ! 0 = CHR ''/''" "rel = drop (length p + 1) k"
      by (auto simp: relative_key_def prefix_def nth_append split: if_splits)
    with p show "k = key_base pfx @ rel" by (cases q) (auto simp: key_base_def)
  qed (use p in \<open>auto simp: relative_key_def key_base_def\<close>)
qed (auto simp: relative_key_def)

lemma listed_bundle_Some:
  "listed_bundle x pfx hide m = Some (t, e) \<longleftrightarrow>
     om_key m = bundle_key pfx (lr_ref_path e) (lr_sha e) \<and> om_key m \<notin> set hide \<and> t = om_last_modified m \<and>
     is_valid_bundle_stem (lr_sha e) \<and> ref_name_ok x (lr_ref_path e) \<and> deep_ref (lr_ref_path e)"
  by (cases e) (auto simp: listed_bundle_def bind_eq_Some_conv relative_key_Some parse_bundle_key_Some bundle_key_base)

lemma filter_map_mem: "y \<in> set (filter_map f xs) \<longleftrightarrow> (\<exists>x \<in> set xs. f x = Some y)"
  by (induction xs) (auto split: option.splits)

subsection \<open>Listings of a bucket\<close>

definition mtime :: "bucket \<Rightarrow> string \<Rightarrow> int" where
  "mtime v k = (case v k of Some (_, t) \<Rightarrow> t | None \<Rightarrow> 0)"

lemma mtime_Some: "v k = Some (b, t) \<Longrightarrow> mtime v k = t"
  by (simp add: mtime_def)

text \<open>
  \<open>lists_refs key R v es\<close>: the entries are the pairs of \<open>R\<close>, each once, those whose object at
  \<open>key\<close> was modified last first.
\<close>

definition lists_refs ::
    "(listed_ref \<Rightarrow> string) \<Rightarrow> (string \<times> string) set \<Rightarrow> bucket \<Rightarrow> listed_ref list \<Rightarrow> bool" where
  "lists_refs key R v es \<longleftrightarrow>
     distinct es \<and> (\<lambda>e. (lr_ref_path e, lr_sha e)) ` set es = R \<and>
     sorted_wrt (\<lambda>e e'. mtime v (key e') \<le> mtime v (key e)) es"

definition entry_bundle :: "string option \<Rightarrow> listed_ref \<Rightarrow> string" where
  "entry_bundle pfx e = bundle_key pfx (lr_ref_path e) (lr_sha e)"

definition entry_chain :: "string option \<Rightarrow> listed_ref \<Rightarrow> string" where
  "entry_chain pfx e = chain_key pfx (lr_ref_path e)"

definition advertised :: "ext \<Rightarrow> string option \<Rightarrow> bucket \<Rightarrow> (string \<times> string) set" where
  "advertised x pfx v =
     {(r, sha). v (bundle_key pfx r sha) \<noteq> None \<and> bundle_key pfx r sha \<notin> hidden x pfx v \<and>
        is_valid_bundle_stem sha \<and> ref_name_ok x r \<and> deep_ref r}"

definition chain_tips :: "ext \<Rightarrow> string option \<Rightarrow> bucket \<Rightarrow> (string \<times> string) set" where
  "chain_tips x pfx v =
     {(r, sha). prefix ''refs/'' (r @ ''/'') \<and> ref_name_ok x r \<and>
        (\<exists>c. chain_at x v (chain_key pfx r) = Some c \<and> cm_tip c = sha)}"

definition engine_lists ::
    "ext \<Rightarrow> string option \<Rightarrow> storage_engine \<Rightarrow> bucket \<Rightarrow> listed_ref list \<Rightarrow> bool" where
  "engine_lists x pfx engine v es =
     (case engine of
        BundleEngine \<Rightarrow> lists_refs (entry_bundle pfx) (advertised x pfx v) v es
      | PackchainEngine \<Rightarrow> lists_refs (entry_chain pfx) (chain_tips x pfx v) v es)"

lemma filter_map_distinct:
  assumes "distinct (map key ms)" "\<And>m y. m \<in> set ms \<Longrightarrow> f m = Some y \<Longrightarrow> key m = key' (g y)"
  shows "distinct (map g (filter_map f ms))"
  using assms
proof (induction ms)
  case (Cons m ms)
  show ?case
  proof (cases "f m")
    case (Some y)
    have "g y \<notin> g ` set (filter_map f ms)"
    proof
      assume "g y \<in> g ` set (filter_map f ms)"
      then obtain m' y' where m': "m' \<in> set ms" "f m' = Some y'" "g y' = g y" by (auto simp: filter_map_mem)
      with Cons.prems(2) [of m' y'] Cons.prems(2) [of m y] Some have "key m' = key m" by simp
      with m'(1) have "key m \<in> key ` set ms" by (metis imageI)
      with Cons.prems(1) show False by simp
    qed
    with Cons Some show ?thesis by auto
  qed (use Cons in auto)
qed simp

text \<open>A list sorted by descending time stays so under a view of its entries.\<close>

lemma newest_first:
  assumes "\<And>t y. (t, y) \<in> set ys \<Longrightarrow> mtime v (key y) = t"
  shows "sorted_wrt (\<lambda>e e'. mtime v (key e') \<le> mtime v (key e)) (map snd (sort_key (\<lambda>(t, _). - t) ys))"
proof -
  have "sorted_wrt (\<lambda>p q. (case p of (t, _) \<Rightarrow> - t) \<le> (case q of (t, _) \<Rightarrow> - t)) (sort_key (\<lambda>(t, _). - t) ys)"
    using sorted_sort_key [of "\<lambda>(t, _). - t" ys] by (simp only: sorted_map)
  then show ?thesis unfolding sorted_wrt_map
    by (rule sorted_wrt_mono_rel [rotated]) (auto dest!: assms)
qed

lemma prefix_of_base: "prefix (prefix_str pfx) (key_base pfx @ k)"
  by (cases pfx) (auto simp: key_base_def)

lemma listed_bundles_listing:
  assumes l: "lists (prefix_str pfx) ms v" and hide: "set hide = hidden x pfx v"
  shows "lists_refs (entry_bundle pfx) (advertised x pfx v) v
    (map snd (sort_key (\<lambda>(t, _). - t) (filter_map (listed_bundle x pfx hide) ms)))"
proof -
  let ?ps = "filter_map (listed_bundle x pfx hide) ms"
  from l have keys: "set (map om_key ms) = {k. prefix (prefix_str pfx) k \<and> v k \<noteq> None}" "distinct (map om_key ms)"
    and times: "\<And>m. m \<in> set ms \<Longrightarrow> \<exists>b. v (om_key m) = Some (b, om_last_modified m)" by (auto simp: lists_def)
  have "distinct (map snd ?ps)"
    by (rule filter_map_distinct [OF keys(2), where key' = "entry_bundle pfx"])
      (auto simp: listed_bundle_Some entry_bundle_def)
  then have "distinct (map snd (sort_key (\<lambda>(t, _). - t) ?ps))"
    by (simp add: distinct_map)
  moreover have "(\<lambda>e. (lr_ref_path e, lr_sha e)) ` set (map snd (sort_key (\<lambda>(t, _). - t) ?ps)) = advertised x pfx v"
  proof (intro set_eqI iffI)
    fix q
    assume "q \<in> (\<lambda>e. (lr_ref_path e, lr_sha e)) ` set (map snd (sort_key (\<lambda>(t, _). - t) ?ps))"
    then obtain t e m where e: "q = (lr_ref_path e, lr_sha e)" "m \<in> set ms" "listed_bundle x pfx hide m = Some (t, e)"
      by (auto simp: filter_map_mem)
    with times [OF e(2)] hide show "q \<in> advertised x pfx v"
      by (auto simp: advertised_def listed_bundle_Some)
  next
    fix q
    assume q: "q \<in> advertised x pfx v"
    obtain r sha where rs: "q = (r, sha)" by force
    with q have "bundle_key pfx r sha \<in> set (map om_key ms)"
      unfolding keys using prefix_of_base by (auto simp: advertised_def bundle_key_base)
    then obtain m where m: "m \<in> set ms" "om_key m = bundle_key pfx r sha" by auto
    with q rs hide have "listed_bundle x pfx hide m = Some (om_last_modified m, \<lparr>lr_sha = sha, lr_ref_path = r\<rparr>)"
      by (auto simp: advertised_def listed_bundle_Some)
    with m(1) have "(om_last_modified m, \<lparr>lr_sha = sha, lr_ref_path = r\<rparr>) \<in> set ?ps" by (auto simp: filter_map_mem)
    then show "q \<in> (\<lambda>e. (lr_ref_path e, lr_sha e)) ` set (map snd (sort_key (\<lambda>(t, _). - t) ?ps))"
      by (force simp: rs image_iff)
  qed
  moreover have "mtime v (entry_bundle pfx e) = t" if "(t, e) \<in> set ?ps" for t e
    using that times by (fastforce simp: filter_map_mem listed_bundle_Some entry_bundle_def mtime_def)
  ultimately show ?thesis unfolding lists_refs_def by (blast intro: newest_first)
qed

lemma refs_of_chain: "prefix ''refs/'' (r @ ''/chain.json'') \<longleftrightarrow> prefix ''refs/'' (r @ ''/'')"
  by (cases r; cases "tl r"; cases "tl (tl r)"; cases "tl (tl (tl r))"; cases "tl (tl (tl (tl r)))") auto

lemma ref_path_of_chain_key:
  "ref_path_from_chain_key pfx k = Some r \<longleftrightarrow> k = chain_key pfx r"
proof
  assume "k = chain_key pfx r"
  moreover have "strip_suffix ''/chain.json'' (a @ CHR ''/'' # r @ ''/chain.json'') = Some (a @ CHR ''/'' # r)" for a
    using strip_suffix_append [of "''/chain.json''" "a @ CHR ''/'' # r"] by simp
  ultimately show "ref_path_from_chain_key pfx k = Some r"
    by (cases pfx) (auto simp: ref_path_from_chain_key_def chain_key_base key_base_def CHAIN_JSON_SUFFIX_def
        simp del: strip_suffix_Some)
qed (cases pfx, auto simp: ref_path_from_chain_key_def chain_key_def CHAIN_JSON_SUFFIX_def
    bind_eq_Some_conv split: option.splits if_splits)

lemma chain_key_ref: "chain_key pfx r = chain_key pfx r' \<longleftrightarrow> r = r'"
  by (simp add: chain_key_base)

lemma chain_candidate_Some:
  "chain_candidate x pfx m = Some (k, r, t) \<longleftrightarrow>
     k = om_key m \<and> k = chain_key pfx r \<and> ref_name_ok x r \<and> t = om_last_modified m"
proof (cases "ref_path_from_chain_key pfx (om_key m)")
  case None
  then have "om_key m \<noteq> chain_key pfx r" using ref_path_of_chain_key [of pfx "om_key m" r] by auto
  with None show ?thesis by (auto simp: chain_candidate_def)
next
  case (Some r')
  then have k: "om_key m = chain_key pfx r'" by (simp add: ref_path_of_chain_key)
  then have "is_chain_json_key (om_key m)"
    by (auto simp: is_chain_json_key_def chain_key_base CHAIN_JSON_SUFFIX_def suffix_def)
  with Some k show ?thesis by (auto simp: chain_candidate_def chain_key_ref)
qed

definition chain_entries :: "ext \<Rightarrow> string option \<Rightarrow> bucket \<Rightarrow> object_meta list \<Rightarrow> chain_ref list" where
  "chain_entries x pfx v ms =
     filter_map (\<lambda>(ref_path, last_modified, body).
         case chain_from_json_bytes x body of
           Inr chain \<Rightarrow> Some \<lparr>cr_sha = cm_tip chain, cr_ref_path = ref_path, cr_last_modified = last_modified\<rparr>
         | Inl _ \<Rightarrow> None)
       (map (\<lambda>(k, r, t). (r, t, body_at v k)) (filter_map (chain_candidate x pfx) ms))"

lemma filter_map_map: "filter_map f (map g xs) = filter_map (\<lambda>y. f (g y)) xs"
  by (induction xs) (auto split: option.splits)

lemma filter_map_filter_map:
  "filter_map f (filter_map g xs) = filter_map (\<lambda>y. Option.bind (g y) f) xs"
  by (induction xs) (auto split: option.splits)

lemma chain_entries_filter_map:
  "chain_entries x pfx v ms = filter_map (\<lambda>m.
     Option.bind (chain_candidate x pfx m) (\<lambda>(k, r, t).
       case chain_from_json_bytes x (body_at v k) of
         Inr chain \<Rightarrow> Some \<lparr>cr_sha = cm_tip chain, cr_ref_path = r, cr_last_modified = t\<rparr>
       | Inl _ \<Rightarrow> None)) ms"
  unfolding chain_entries_def filter_map_map filter_map_filter_map
  by (rule arg_cong [where f = "\<lambda>f. filter_map f ms"]) (auto simp: fun_eq_iff split: option.splits bind_split)

lemma listed_chains_listing:
  assumes l: "lists (key_base pfx @ ''refs/'') ms v"
  shows "lists_refs (entry_chain pfx) (chain_tips x pfx v) v
    (map (\<lambda>r. \<lparr>lr_sha = cr_sha r, lr_ref_path = cr_ref_path r\<rparr>)
      (sort_key (\<lambda>e. - cr_last_modified e) (chain_entries x pfx v ms)))"
    (is "lists_refs _ _ _ (map ?entry (sort_key _ ?cs))")
proof -
  from l have keys: "set (map om_key ms) = {k. prefix (key_base pfx @ ''refs/'') k \<and> v k \<noteq> None}" "distinct (map om_key ms)"
    and times: "\<And>m. m \<in> set ms \<Longrightarrow> \<exists>b. v (om_key m) = Some (b, om_last_modified m)" by (auto simp: lists_def)
  define f where "f = (\<lambda>m. Option.bind (chain_candidate x pfx m) (\<lambda>(k, r, t).
       case chain_from_json_bytes x (body_at v k) of
         Inr chain \<Rightarrow> Some \<lparr>cr_sha = cm_tip chain, cr_ref_path = r, cr_last_modified = t\<rparr>
       | Inl _ \<Rightarrow> None))"
  have cs: "?cs = filter_map f ms" unfolding f_def by (rule chain_entries_filter_map)
  have f: "f m = Some c \<longleftrightarrow> om_key m = chain_key pfx (cr_ref_path c) \<and> ref_name_ok x (cr_ref_path c) \<and>
      cr_last_modified c = om_last_modified m \<and>
      (\<exists>cm. chain_from_json_bytes x (body_at v (om_key m)) = Inr cm \<and> cm_tip cm = cr_sha c)" for m and c :: chain_ref
    by (cases c; cases "chain_from_json_bytes x (body_at v (om_key m))")
      (auto simp: f_def bind_eq_Some_conv chain_candidate_Some)
  have at: "chain_at x v (om_key m) = Some cm \<longleftrightarrow> chain_from_json_bytes x (body_at v (om_key m)) = Inr cm"
    if "m \<in> set ms" for m cm using times [OF that] by (auto simp: chain_at_Some body_at_def)
  have "distinct (map ?entry ?cs)" unfolding cs
    by (rule filter_map_distinct [OF keys(2), where key' = "entry_chain pfx"]) (auto simp: f entry_chain_def)
  then have "distinct (map ?entry (sort_key (\<lambda>e. - cr_last_modified e) ?cs))" by (simp add: distinct_map)
  moreover have "(\<lambda>e. (lr_ref_path e, lr_sha e)) ` set (map ?entry (sort_key (\<lambda>e. - cr_last_modified e) ?cs)) = chain_tips x pfx v"
  proof (intro set_eqI iffI)
    fix q
    assume "q \<in> (\<lambda>e. (lr_ref_path e, lr_sha e)) ` set (map ?entry (sort_key (\<lambda>e. - cr_last_modified e) ?cs))"
    then obtain m c where c: "m \<in> set ms" "f m = Some c" "q = (cr_ref_path c, cr_sha c)"
      by (auto simp: cs filter_map_mem)
    from c(1) keys(1) have "prefix (key_base pfx @ ''refs/'') (om_key m)" by auto
    with c f [of m c] have "prefix ''refs/'' (cr_ref_path c @ ''/chain.json'')" by (simp add: chain_key_base)
    then have "prefix ''refs/'' (cr_ref_path c @ ''/'')" by (simp only: refs_of_chain)
    with c f [of m c] at [OF c(1)] show "q \<in> chain_tips x pfx v" by (auto simp: chain_tips_def)
  next
    fix q
    assume q: "q \<in> chain_tips x pfx v"
    obtain r sha where rs: "q = (r, sha)" by force
    with q obtain cm where cm: "prefix ''refs/'' (r @ ''/'')" "ref_name_ok x r"
      "chain_at x v (chain_key pfx r) = Some cm" "cm_tip cm = sha" by (auto simp: chain_tips_def)
    from cm(1) have "prefix ''refs/'' (r @ ''/chain.json'')" by (simp only: refs_of_chain)
    with cm(3) have "chain_key pfx r \<in> set (map om_key ms)"
      unfolding keys by (auto simp: chain_key_base chain_at_Some)
    then obtain m where m: "m \<in> set ms" "om_key m = chain_key pfx r" by auto
    from cm(3) have "chain_at x v (om_key m) = Some cm" by (simp add: m(2))
    then have "chain_from_json_bytes x (body_at v (om_key m)) = Inr cm" unfolding at [OF m(1)] .
    with cm(2,4) m(2) have "f m = Some \<lparr>cr_sha = sha, cr_ref_path = r, cr_last_modified = om_last_modified m\<rparr>" by (simp add: f)
    with m(1) have "\<lparr>cr_sha = sha, cr_ref_path = r, cr_last_modified = om_last_modified m\<rparr> \<in> set ?cs"
      unfolding cs by (auto simp: filter_map_mem)
    then show "q \<in> (\<lambda>e. (lr_ref_path e, lr_sha e)) ` set (map ?entry (sort_key (\<lambda>e. - cr_last_modified e) ?cs))"
      by (force simp: rs image_iff)
  qed
  moreover have "sorted_wrt (\<lambda>e e'. mtime v (entry_chain pfx e') \<le> mtime v (entry_chain pfx e))
      (map ?entry (sort_key (\<lambda>e. - cr_last_modified e) ?cs))"
  proof -
    have m: "mtime v (entry_chain pfx (?entry c)) = cr_last_modified c" if "c \<in> set ?cs" for c
      using that times by (fastforce simp: cs filter_map_mem f entry_chain_def mtime_def)
    have "sorted_wrt (\<lambda>c c'. - cr_last_modified c \<le> - cr_last_modified c') (sort_key (\<lambda>e. - cr_last_modified e) ?cs)"
      using sorted_sort_key [of "\<lambda>e. - cr_last_modified e" ?cs] by (simp only: sorted_map)
    then show ?thesis unfolding sorted_wrt_map by (rule sorted_wrt_mono_rel [rotated]) (simp add: m)
  qed
  ultimately show ?thesis unfolding lists_refs_def by blast
qed

subsection \<open>The answer\<close>

definition remote_head :: "string option \<Rightarrow> bucket \<Rightarrow> string option" where
  "remote_head pfx v =
     (case v (join pfx ''HEAD'') of
        None \<Rightarrow> None
      | Some (b, _) \<Rightarrow> if utf8_valid b \<and> trim b \<noteq> [] then Some (trim b) else None)"

definition head_line :: "string option \<Rightarrow> listed_ref list \<Rightarrow> string" where
  "head_line head es =
     (case head of
        Some r \<Rightarrow> if list_ex (\<lambda>e. lr_ref_path e = r) es then ''@'' @ r @ '' HEAD'' @ [CHR 0x0A] else []
      | None \<Rightarrow> [])"

definition list_answer :: "string option \<Rightarrow> listed_ref list \<Rightarrow> string" where
  "list_answer head es = head_line head es @ concat (map list_line es) @ [CHR 0x0A]"

context calm_store
begin

lemma calm_collect_bundles:
  assumes "calm s" "utf8_prefix pfx" "listable (prefix_str pfx)"
    and post: "\<And>es t. calm t \<Longrightarrow> view t = view s \<Longrightarrow>
      lists_refs (entry_bundle pfx) (advertised x pfx (view s)) (view s) es \<Longrightarrow> Q es t"
  shows "wp (collect_bundles x st pfx) Q E s"
  unfolding collect_bundles_def
proof (rule wp_and_then, rule calm_wp_list [OF assms(1)], goal_cases)
  case (1 ms t)
  have l: "lists (prefix_str pfx) ms (view s)" using 1(3) assms(3) by (cases pfx) auto
  show ?case
  proof (cases "ms = []")
    case True
    with l have "view s k = None" if "prefix (prefix_str pfx) k" for k using that by (cases "view s k") (auto simp: lists_def)
    then have "advertised x pfx (view s) = {}"
      using prefix_of_base [of pfx] by (auto simp: advertised_def bundle_key_base)
    with True 1 show ?thesis by (auto intro!: wp_ok post simp: lists_refs_def)
  next
    case False
    show ?thesis
      unfolding if_not_P [OF False] Let_def
    proof (rule wp_and_then, rule calm_tombstoned_bundle_keys [OF 1(1) assms(2)], rule wp_ok, goal_cases)
      case (1 hide u)
      with \<open>view t = view s\<close> listed_bundles_listing [OF l] show ?case by (intro post) simp_all
    qed
  qed
qed

lemma calm_fetch_bodies:
  assumes "calm s" "\<And>k r t. (k, r, t) \<in> set cs \<Longrightarrow> \<exists>b. view s k = Some (b, t)"
    and post: "\<And>t. calm t \<Longrightarrow> view t = view s \<Longrightarrow> Q (map (\<lambda>(k, r, t). (r, t, body_at (view s) k)) cs) t"
  shows "wp (fetch_bodies st cs) Q E s"
  using assms
proof (induction cs arbitrary: s Q)
  case Nil
  from Nil(3) [OF Nil(1) refl] show ?case by (auto intro: wp_ok)
next
  case (Cons c cs)
  obtain k r m where c: "c = (k, r, m)" by (cases c)
  with Cons.prems(2) obtain b where b: "view s k = Some (b, m)" by fastforce
  show ?case unfolding c fetch_bodies.simps
  proof (intro wp_and_then wp_match calm_wp_get_bytes [OF Cons.prems(1)] wp_ok, goal_cases)
    case (1 b' m' t)
    show ?case
      by (rule Cons.IH [OF 1(1)]) (use 1 b c Cons.prems(2,3) in \<open>auto intro!: wp_ok simp: body_at_def\<close>)
  qed (use b in simp)
qed

lemma calm_list_refs:
  assumes "calm s" "utf8_prefix pfx"
    and post: "\<And>rs t. calm t \<Longrightarrow> view t = view s \<Longrightarrow>
      lists_refs (entry_chain pfx) (chain_tips x pfx (view s)) (view s)
        (map (\<lambda>r. \<lparr>lr_sha = cr_sha r, lr_ref_path = cr_ref_path r\<rparr>) rs) \<Longrightarrow> Q rs t"
  shows "wp (list_refs x st pfx) Q E s"
  unfolding list_refs_def Let_def
proof (rule wp_and_then, rule wp_map_err, rule calm_wp_list [OF assms(1)], goal_cases)
  case (1 ms t)
  have "listable (join pfx ''refs/'')"
    using utf8_key_base [OF assms(2)] by (simp add: join_base listable_def utf8_valid_append utf8_valid_ascii)
  with 1 have l: "lists (key_base pfx @ ''refs/'') ms (view s)" by (simp add: join_base)
  then have times: "\<exists>b. view s (om_key m) = Some (b, om_last_modified m)" if "m \<in> set ms" for m
    using that by (auto simp: lists_def)
  show ?case
  proof (rule wp_and_then, rule calm_fetch_bodies [OF 1(1)], goal_cases)
    case (1 k r m)
    with times \<open>view t = view s\<close> show ?case by (auto simp: filter_map_mem chain_candidate_Some)
  next
    case (2 u)
    with \<open>view t = view s\<close> listed_chains_listing [OF l, of x] show ?case
      by (intro wp_ok post) (simp_all add: chain_entries_def)
  qed
qed

lemma calm_listed_entries:
  assumes "calm s" "utf8_prefix pfx" "listable (prefix_str pfx)"
    and post: "\<And>es t. calm t \<Longrightarrow> view t = view s \<Longrightarrow> engine_lists x pfx engine (view s) es \<Longrightarrow> Q es t"
  shows "wp (listed_entries x st pfx engine) Q E s"
proof (cases engine)
  case BundleEngine
  then show ?thesis
    by (auto simp: listed_entries_def engine_lists_def
        intro!: wp_map_err calm_collect_bundles [where x = x] assms(1-3) post)
next
  case PackchainEngine
  then show ?thesis
    by (auto simp: listed_entries_def engine_lists_def
        intro!: wp_and_then wp_map_err calm_list_refs [where x = x] wp_ok assms(1,2) post)
qed

lemma calm_read_remote_head:
  assumes "calm s" "\<And>t. calm t \<Longrightarrow> view t = view s \<Longrightarrow> Q (remote_head pfx (view s)) t"
  shows "wp (read_remote_head st pfx) Q E s"
  unfolding read_remote_head_def
  by (auto simp: remote_head_def Let_def intro!: wp_match calm_wp_get_bytes assms wp_ok split: if_splits)
    (use assms in \<open>auto simp: remote_head_def Let_def\<close>)

lemma calm_handle_list:
  assumes "calm (fst p)" "utf8_prefix pfx" "listable (prefix_str pfx)"
    and post: "\<And>es t w'. calm t \<Longrightarrow> view t = view (fst p) \<Longrightarrow> engine_lists x pfx engine (view (fst p)) es \<Longrightarrow>
      wrote_text (list_answer (if for_push then None else remote_head pfx (view (fst p))) es) (snd p) w' \<Longrightarrow> Q () (t, w')"
    and part: "\<And>es t w'. calm t \<Longrightarrow> view t = view (fst p) \<Longrightarrow> engine_lists x pfx engine (view (fst p)) es \<Longrightarrow>
      wrote_part (list_answer (if for_push then None else remote_head pfx (view (fst p))) es) (snd p) w' \<Longrightarrow>
      E (ListIo broken_pipe) (t, w')"
  shows "wp (handle_list x st pfx engine for_push) Q E p"
  unfolding handle_list_def
proof (rule wp_and_then, rule wp_in_store, rule calm_listed_entries [OF assms(1-3)], rule wp_and_then, goal_cases)
  case (1 es t)
  note es = \<open>engine_lists x pfx engine (view (fst p)) es\<close>
  define hd where "hd = (if for_push then None else remote_head pfx (view (fst p)))"
  define sym where "sym = head_line hd es"
  have lines: "list_answer hd es = sym @ concat (map list_line es) @ [CHR 0x0A]"
    by (simp add: list_answer_def sym_def)
  have rest: "wp (and_then (map_err ListIo (write_each (map list_line es))) (\<lambda>_. map_err ListIo (write_all [CHR 0x0A]))) Q E (u, w)"
    if u: "calm u" "view u = view (fst p)" and w: "wrote_text sym (snd p) w" for u w
  proof (intro wp_and_then wp_map_err wp_write_each wp_write_all, goal_cases)
    case (1 w1 w2)
    then have "wrote_text (list_answer hd es) (snd p) w2"
      unfolding lines by (auto intro: w wrote_text_trans)
    with u es show ?case by (auto intro!: post [of _ es] simp: hd_def)
  next
    case (2 w1 w2)
    then have "wrote_part (list_answer hd es) (snd p) w2"
      unfolding lines by (auto intro: w wrote_text_part)
    with u es show ?case by (auto intro!: part [of _ es] simp: hd_def)
  next
    case (3 w1)
    then have "wrote_part (list_answer hd es) (snd p) w1"
      unfolding lines by (auto intro: w wrote_text_part wrote_part_more)
    with u es show ?case by (auto intro!: part [of _ es] simp: hd_def)
  qed
  show ?case
  proof (cases for_push)
    case True
    then have "sym = []" by (simp add: sym_def hd_def head_line_def)
    with True rest [of t "snd p"] 1 show ?thesis by (auto intro!: wp_ok)
  next
    case False
    show ?thesis unfolding if_not_P [OF False]
    proof (rule wp_and_then, rule wp_in_store, rule wp_map_err, rule calm_read_remote_head, goal_cases)
      case (2 u)
      with 1 have u: "calm u" "view u = view (fst p)" by simp_all
      have hd: "remote_head pfx (view t) = hd" using 1 False by (simp add: hd_def)
      show ?case
      proof (cases hd)
        case None
        then have "sym = []" by (simp add: sym_def head_line_def)
        with None rest [OF u, of "snd p"] show ?thesis by (auto intro!: wp_ok simp: hd)
      next
        case (Some r)
        show ?thesis
        proof (cases "list_ex (\<lambda>e. lr_ref_path e = r) es")
          case True
          with Some have "''@'' @ r @ '' HEAD'' @ [CHR 0x0A] = sym" by (simp add: sym_def head_line_def)
          moreover have "E (ListIo broken_pipe) (u, w)" if "wrote_part sym (snd p) w" for w
            by (rule part [OF u es]) (use that in \<open>auto simp: hd_def [symmetric] lines intro: wrote_part_more\<close>)
          ultimately show ?thesis using Some True rest [OF u]
            by (auto intro!: wp_map_err wp_write_all simp: hd)
        next
          case False
          with Some have "sym = []" by (simp add: sym_def head_line_def)
          with Some False rest [OF u, of "snd p"] show ?thesis by (auto intro!: wp_ok simp: hd)
        qed
      qed
    qed (use 1 in simp)
  qed
qed

end


subsection \<open>Properties\<close>

lemma listing_total:
  assumes "mock_calm s" "utf8_prefix pfx" "listable (prefix_str pfx)" "wr_room w = None"
  shows "\<exists>es t w'. handle_list x mock_store pfx engine for_push (s, w) = (Inr (), (t, w')) \<and>
    mock_view t = mock_view s \<and> engine_lists x pfx engine (mock_view s) es \<and>
    wr_text w' = wr_text w @ list_answer (if for_push then None else remote_head pfx (mock_view s)) es"
proof -
  have "wp (handle_list x mock_store pfx engine for_push) (\<lambda>_ (t, w').
      mock_view t = mock_view s \<and> (\<exists>es. engine_lists x pfx engine (mock_view s) es \<and>
        wr_text w' = wr_text w @ list_answer (if for_push then None else remote_head pfx (mock_view s)) es))
      (\<lambda>_ _. False) (s, w)"
    by (rule calm_mock.calm_handle_list) (use assms in \<open>auto simp: wrote_text_def wrote_part_def\<close>)
  from wp_totalD [OF this] show ?thesis by fastforce
qed


lemma lists_refs_mem:
  "lists_refs key R v es \<Longrightarrow> e \<in> set es \<longleftrightarrow> (lr_ref_path e, lr_sha e) \<in> R"
proof -
  have "inj (\<lambda>e :: listed_ref. (lr_ref_path e, lr_sha e))" by (auto intro!: injI listed_ref.equality)
  then show "lists_refs key R v es \<Longrightarrow> ?thesis"
    unfolding lists_refs_def using inj_image_mem_iff by fastforce
qed

lemma listed_ref_eq:
  "e = \<lparr>lr_sha = sha, lr_ref_path = r\<rparr> \<longleftrightarrow> lr_ref_path e = r \<and> lr_sha e = sha"
  by (cases e) auto

lemma only_entry:
  assumes "lists_refs key {(r, sha)} v es"
  shows "es = [\<lparr>lr_sha = sha, lr_ref_path = r\<rparr>]"
proof -
  let ?e = "\<lparr>lr_sha = sha, lr_ref_path = r\<rparr>"
  have "set es = {?e}" by (rule set_eqI) (simp add: lists_refs_mem [OF assms] listed_ref_eq)
  moreover have "distinct es" using assms by (simp add: lists_refs_def)
  ultimately have "length es = 1" using distinct_card [of es] by simp
  with \<open>set es = {?e}\<close> show ?thesis by (cases es) auto
qed

lemma demo_deep: "deep_ref demo_main"
  unfolding deep_ref_split by (simp add: demo_main_def)

lemma demo_advertised:
  "advertised demo_ext (Some ''repo'') (mock_view (demo_pushed CHR ''b'')) = {(demo_main, demo_sha CHR ''b'')}"
  using demo_push_facts(1) demo_deep
  by (auto simp: advertised_def demo_pushed_def bundle_key_inject split: if_splits)


text \<open>A push followed by a listing: the entry of the ref is there exactly when the ref is deep.\<close>

lemma push_then_list:
  assumes "mock_calm s" "hex_law x" "push_ready x pfx env config spec (mock_view s) pc"
    and "\<not> lock_live (mock_view s) (lock_key pfx (ps_remote_ref spec)) (pc_ttl config) now"
    and "mock_view s (baseline_tombstone_key (prefix_str pfx) uuid) = None"
    and "\<And>sha at. pk_old pc = Some sha \<Longrightarrow> rfc3339_format x tomb_now = Some at \<Longrightarrow>
      json_ok x (json_of_baseline (baseline_tombstone_of at (ps_remote_ref spec) sha))"
    and "bundle_key pfx (ps_remote_ref spec) (lg_local_sha (pk_local pc)) \<notin> hidden x pfx (mock_view s)"
    and "listable (prefix_str pfx)"
  shows "\<exists>t es u w. push_one x mock_store pfx env config now tomb_now uuid spec s = (Inr (PushOk (ps_remote_ref spec)), t) \<and>
    handle_list x mock_store pfx BundleEngine for_push (t, fresh_writer) = (Inr (), (u, w)) \<and>
    wr_text w = list_answer (if for_push then None else remote_head pfx (mock_view t)) es \<and>
    {e \<in> set es. lr_ref_path e = ps_remote_ref spec} =
      (if deep_ref (ps_remote_ref spec)
       then {\<lparr>lr_sha = lg_local_sha (pk_local pc), lr_ref_path = ps_remote_ref spec\<rparr>} else {})"
proof -
  let ?r = "ps_remote_ref spec" and ?new = "lg_local_sha (pk_local pc)"
  obtain t where t: "push_one x mock_store pfx env config now tomb_now uuid spec s = (Inr (PushOk ?r), t)"
    "mock_calm t" "pushed x pfx ?r ?new (pk_body pc) (mock_view s) (mock_view t)"
    using calm_mock.push_one_commits [OF assms(1-6), THEN wp_totalD] by blast
  from assms(3) have r: "utf8_prefix pfx" "ref_name_ok x ?r" "is_valid_bundle_stem ?new"
    by (auto simp: push_ready_def Let_def)
  obtain es u w where l: "handle_list x mock_store pfx BundleEngine for_push (t, fresh_writer) = (Inr (), (u, w))"
    "lists_refs (entry_bundle pfx) (advertised x pfx (mock_view t)) (mock_view t) es"
    "wr_text w = list_answer (if for_push then None else remote_head pfx (mock_view t)) es"
    using listing_total [OF t(2) r(1) assms(8), of fresh_writer x BundleEngine for_push]
    by (auto simp: engine_lists_def)
  have vis: "visible x pfx ?r (mock_view t) = {bundle_key pfx ?r ?new}"
    using t(3) assms(7) by (auto simp: pushed_def)
  have adv: "(?r, sha) \<in> advertised x pfx (mock_view t) \<longleftrightarrow> sha = ?new \<and> deep_ref ?r" for sha
  proof -
    have v: "bundle_key pfx ?r sha \<in> visible x pfx ?r (mock_view t) \<longleftrightarrow>
        mock_view t (bundle_key pfx ?r sha) \<noteq> None \<and> bundle_key pfx ?r sha \<notin> hidden x pfx (mock_view t)"
      if "is_valid_bundle_stem sha" for sha
      using candidate_bundle_key [OF assms(2) that, of pfx ?r]
      by (simp add: visible_def bundles_in_def bundle_key_base ref_listing_prefix_base)
    have "(?r, sha) \<in> advertised x pfx (mock_view t) \<longleftrightarrow>
        is_valid_bundle_stem sha \<and> deep_ref ?r \<and> bundle_key pfx ?r sha \<in> {bundle_key pfx ?r ?new}"
      using v r(2) vis by (auto simp: advertised_def)
    also have "\<dots> \<longleftrightarrow> sha = ?new \<and> deep_ref ?r"
      using r(3) bundle_key_inject [of sha ?new pfx ?r ?r] by auto
    finally show ?thesis .
  qed
  note ent = lists_refs_mem [OF l(2)]
  have "{e \<in> set es. lr_ref_path e = ?r} = (if deep_ref ?r then {\<lparr>lr_sha = ?new, lr_ref_path = ?r\<rparr>} else {})"
  proof (rule set_eqI)
    fix e
    have "e \<in> set es \<and> lr_ref_path e = ?r \<longleftrightarrow> lr_ref_path e = ?r \<and> lr_sha e = ?new \<and> deep_ref ?r"
      unfolding ent using adv by (cases "lr_ref_path e = ?r") simp_all
    then show "e \<in> {e \<in> set es. lr_ref_path e = ?r} \<longleftrightarrow>
        e \<in> (if deep_ref ?r then {\<lparr>lr_sha = ?new, lr_ref_path = ?r\<rparr>} else {})"
      by (simp add: listed_ref_eq)
  qed
  with t(1) l(1,3) show ?thesis by blast
qed

text \<open>A push the bundle engine reports as \<open>ok\<close> is what the next \<open>list\<close> answers: the ref, below a
  directory of \<open>refs/\<close>, is listed once, with the pushed commit.\<close>

lemma pushed_refs_are_listed:
  assumes "mock_calm s" "hex_law x" "push_ready x pfx env config spec (mock_view s) pc"
    and "\<not> lock_live (mock_view s) (lock_key pfx (ps_remote_ref spec)) (pc_ttl config) now"
    and "mock_view s (baseline_tombstone_key (prefix_str pfx) uuid) = None"
    and "\<And>sha at. pk_old pc = Some sha \<Longrightarrow> rfc3339_format x tomb_now = Some at \<Longrightarrow>
      json_ok x (json_of_baseline (baseline_tombstone_of at (ps_remote_ref spec) sha))"
    and "bundle_key pfx (ps_remote_ref spec) (lg_local_sha (pk_local pc)) \<notin> hidden x pfx (mock_view s)"
    and "listable (prefix_str pfx)" "deep_ref (ps_remote_ref spec)"
  shows "\<exists>t es u w. push_one x mock_store pfx env config now tomb_now uuid spec s = (Inr (PushOk (ps_remote_ref spec)), t) \<and>
    handle_list x mock_store pfx BundleEngine for_push (t, fresh_writer) = (Inr (), (u, w)) \<and>
    wr_text w = list_answer (if for_push then None else remote_head pfx (mock_view t)) es \<and>
    {e \<in> set es. lr_ref_path e = ps_remote_ref spec} =
      {\<lparr>lr_sha = lg_local_sha (pk_local pc), lr_ref_path = ps_remote_ref spec\<rparr>}"
  using push_then_list [OF assms(1-8), where for_push = for_push] assms(9) by simp

lemma pushed_refs_are_listed_example:
  "\<exists>t es u w. push_one demo_ext mock_store (Some ''repo'') demo_env demo_config 9 9 ''u'' (demo_push False ''main'')
       (demo_pushed CHR ''b'') = (Inr (PushOk demo_main), t) \<and>
     handle_list demo_ext mock_store (Some ''repo'') BundleEngine True (t, fresh_writer) = (Inr (), (u, w)) \<and>
     wr_text w = list_answer None es \<and>
     {e \<in> set es. lr_ref_path e = demo_main} = {\<lparr>lr_sha = demo_sha CHR ''a'', lr_ref_path = demo_main\<rparr>}"
  using pushed_refs_are_listed [OF _ _ demo_push_ready demo_push_facts(2,3), of 9 True] demo_push_facts(1,4)
  by (auto simp: demo_case_def demo_deep listable_def utf8_valid_ascii)

text \<open>C37. A ref directly below \<open>refs/\<close>, such as \<open>refs/stash\<close>, is pushed all the same: the bundle
  engine stores its bundle and reports \<open>ok\<close>, and the next \<open>list\<close> does not show the ref.\<close>

theorem shallow_refs_are_pushed_but_never_listed:
  assumes "mock_calm s" "hex_law x" "push_ready x pfx env config spec (mock_view s) pc"
    and "\<not> lock_live (mock_view s) (lock_key pfx (ps_remote_ref spec)) (pc_ttl config) now"
    and "mock_view s (baseline_tombstone_key (prefix_str pfx) uuid) = None"
    and "\<And>sha at. pk_old pc = Some sha \<Longrightarrow> rfc3339_format x tomb_now = Some at \<Longrightarrow>
      json_ok x (json_of_baseline (baseline_tombstone_of at (ps_remote_ref spec) sha))"
    and "bundle_key pfx (ps_remote_ref spec) (lg_local_sha (pk_local pc)) \<notin> hidden x pfx (mock_view s)"
    and "listable (prefix_str pfx)" "\<not> deep_ref (ps_remote_ref spec)"
  shows "\<exists>t es u w. push_one x mock_store pfx env config now tomb_now uuid spec s = (Inr (PushOk (ps_remote_ref spec)), t) \<and>
    handle_list x mock_store pfx BundleEngine for_push (t, fresh_writer) = (Inr (), (u, w)) \<and>
    wr_text w = list_answer (if for_push then None else remote_head pfx (mock_view t)) es \<and>
    {e \<in> set es. lr_ref_path e = ps_remote_ref spec} = {}"
  using push_then_list [OF assms(1-8), where for_push = for_push] assms(9) by simp

definition stash_push :: push_spec where
  "stash_push = \<lparr>ps_force = False, ps_local_spec = ''main'', ps_remote_ref = ''refs/stash''\<rparr>"

definition stash_case :: push_case where
  "stash_case = \<lparr>pk_old = None,
     pk_local = \<lparr>lg_local_sha = demo_sha CHR ''a'', lg_zip_artifacts = None, lg_pre_existing_was_ancestor = True\<rparr>,
     pk_body = ''BUNDLE '' @ demo_sha CHR ''a''\<rparr>"

lemma stash_ready:
  "push_ready demo_ext (Some ''repo'') demo_env demo_config stash_push (mock_view (empty_mock 0)) stash_case"
proof -
  have "local_git_work demo_env ''main'' None False False = Inr (Inr (pk_local stash_case))"
    by (simp add: local_git_work_def demo_env_def demo_repo_def resolve_def stash_case_def)
  then show ?thesis
    by (simp add: utf8_valid_ascii push_ready_def stash_push_def stash_case_def demo_config_def flat_pre_def visible_def bundles_in_def)
      (simp add: demo_env_def)
qed

theorem shallow_refs_are_pushed_but_never_listed_witness:
  "\<exists>t es u w. push_one demo_ext mock_store (Some ''repo'') demo_env demo_config 9 9 ''u'' stash_push (empty_mock 0) =
       (Inr (PushOk ''refs/stash''), t) \<and>
     handle_list demo_ext mock_store (Some ''repo'') BundleEngine True (t, fresh_writer) = (Inr (), (u, w)) \<and>
     wr_text w = list_answer None es \<and> {e \<in> set es. lr_ref_path e = ''refs/stash''} = {}"
proof -
  have "hidden demo_ext (Some ''repo'') (mock_view (empty_mock 0)) = {}" by (rule hidden_refs_only) simp
  moreover have "\<not> deep_ref ''refs/stash''" unfolding deep_ref_split by simp
  ultimately show ?thesis
    using shallow_refs_are_pushed_but_never_listed [OF _ _ stash_ready, of 9 "''u''" 9 True] demo_push_facts(4)
    by (auto simp: stash_push_def lock_live_def listable_def utf8_valid_ascii)
qed

end
