(* ===== verification/Ref_Fetch.thy ===== *)
theory Ref_Fetch
  imports Pack_Read Pack_Build Git_History Protocol_Stream "HOL-Library.AList"
begin

text \<open>
  The \<open>fetch\<close> command of both engines: \<open>src/protocol/fetch.rs\<close> (one bundle per ref) and
  \<open>src/packchain/fetch.rs\<close> (the segments of a chain the receiver is missing, and its baseline).

  A \<open>receiver\<close> is the local repository as far as a fetch changes it: the packs installed in it,
  oldest first, its shallow file, and what the session has fetched so far (\<open>FetchedRefs\<close>,
  \<open>ShallowBoundaries\<close>). gix is the record \<open>receiver_lib\<close>: what a repository with these packs
  answers, and whether a pack installs. The tasks of a batch and the downloads of a fetch run
  concurrently in the code; here one after the other.
\<close>

subsection \<open>The receiver\<close>

record receiver =
  rc_packs :: "string list"
  rc_shallow :: "string option"
  rc_fetched :: "string list"
  rc_boundaries :: "string list"

record receiver_lib =
  rl_open :: "string list \<Rightarrow> git_error + git_repo"
  rl_lib :: pack_library
  rl_install_thin :: "string list \<Rightarrow> string \<Rightarrow> string + unit"
  rl_tempdir :: "io_error option"
  rl_download :: "store_error option"
  rl_reopen :: "bundle_error option"
  rl_pack_io :: "io_error option"
  rl_keep_io :: "io_error option"
  rl_shallow_read :: "git_error option"
  rl_shallow_remove :: "git_error option"
  rl_shallow_write :: "git_error option"

datatype fetch_error =
    FetchParse string
  | FetchSha sha_error
  | FetchRef string
  | FetchStore store_error
  | FetchIo io_error
  | FetchGit git_error
  | FetchPackchain packchain_error

definition on_receiver :: "(receiver \<Rightarrow> ('e + 'a) \<times> receiver) \<Rightarrow> ('s \<times> receiver, 'e, 'a) io" where
  "on_receiver f = (\<lambda>(s, r). let (res, r') = f r in (res, (s, r')))"

definition temp_dir :: "receiver_lib \<Rightarrow> ('t, fetch_error, unit) io" where
  "temp_dir L = of_result (case rl_tempdir L of Some e \<Rightarrow> Inl (FetchIo e) | None \<Rightarrow> Inr ())"

text \<open>\<open>git::unbundle_at\<close>: the pack behind the header of the downloaded bundle is installed,
  and stays when only its \<open>.keep\<close> file cannot be removed.\<close>

definition bundle_pack :: "ext \<Rightarrow> string \<Rightarrow> string" where
  "bundle_pack x bytes =
     (case read_bundle_header x (Inr (file_reader bytes)) of
        Inl _ \<Rightarrow> []
      | Inr header \<Rightarrow> drop (bh_pack_offset header) bytes)"

definition unbundle_at :: "receiver_lib \<Rightarrow> ext \<Rightarrow> string \<Rightarrow> ('s \<times> receiver, fetch_error, unit) io" where
  "unbundle_at L x bytes = on_receiver (\<lambda>r.
     let opened = (case rl_reopen L of Some e \<Rightarrow> Inl e | None \<Rightarrow> Inr (file_reader bytes));
         repo = map_error (\<lambda>e. RepoOpen (git_error_display e)) (rl_open L (rc_packs r)) in
     (case unbundle_file x opened repo (rl_lib L) of
        Inl e \<Rightarrow> Inl (FetchGit (BundleError (bundle_error_display e)))
      | Inr _ \<Rightarrow> Inr (),
      case install_bundle x opened repo (rl_lib L) of
        Inl _ \<Rightarrow> r
      | Inr _ \<Rightarrow> r\<lparr>rc_packs := rc_packs r @ [bundle_pack x bytes]\<rparr>))"

definition already_fetched :: "string \<Rightarrow> ('s \<times> receiver, 'e, bool) io" where
  "already_fetched sha = on_receiver (\<lambda>r. (Inr (sha \<in> set (rc_fetched r)), r))"

definition remember_fetched :: "string \<Rightarrow> ('s \<times> receiver, 'e, unit) io" where
  "remember_fetched sha = on_receiver (\<lambda>r. (Inr (), r\<lparr>rc_fetched := sha # rc_fetched r\<rparr>))"

text \<open>The walk of \<open>shallow_boundaries\<close> returns on every finite repository; \<open>the\<close> takes its result.\<close>

definition find_boundaries ::
    "receiver_lib \<Rightarrow> string \<Rightarrow> nat \<Rightarrow> ('s \<times> receiver, fetch_error, string list) io" where
  "find_boundaries L sha depth = on_receiver (\<lambda>r.
     (map_error FetchGit
        (case rl_open L (rc_packs r) of
           Inl e \<Rightarrow> Inl e
         | Inr repo \<Rightarrow> the (shallow_boundaries repo sha depth)), r))"

definition record_boundaries ::
    "receiver_lib \<Rightarrow> string \<Rightarrow> nat option \<Rightarrow> ('s \<times> receiver, fetch_error, unit) io" where
  "record_boundaries L sha depth =
     (case depth of
        None \<Rightarrow> ok ()
      | Some d \<Rightarrow>
          and_then (find_boundaries L sha d) (\<lambda>ids.
          on_receiver (\<lambda>r. (Inr (), r\<lparr>rc_boundaries := rc_boundaries r @ ids\<rparr>))))"

subsection \<open>src/protocol/fetch.rs\<close>

definition parse_fetch_args :: "ext \<Rightarrow> string \<Rightarrow> fetch_error + (string \<times> string)" where
  "parse_fetch_args x args =
     (case split_once CHR '' '' args of
        None \<Rightarrow> Inl (FetchParse args)
      | Some (sha, ref_name) \<Rightarrow>
          if sha = [] \<or> ref_name = [] \<or> CHR '' '' \<in> set ref_name then Inl (FetchParse args)
          else
            (case sha_from_hex x sha of
               Inl e \<Rightarrow> Inl (FetchSha e)
             | Inr oid \<Rightarrow>
                 if \<not> ref_name_ok x ref_name then Inl (FetchRef ref_name) else Inr (oid, ref_name)))"

definition bundle_fetch_one ::
    "receiver_lib \<Rightarrow> ext \<Rightarrow> 's store_api \<Rightarrow> string option \<Rightarrow> nat option \<Rightarrow> string \<Rightarrow> string \<Rightarrow>
     ('s \<times> receiver, fetch_error, unit) io" where
  "bundle_fetch_one L x st pfx depth sha ref_name =
     and_then (already_fetched sha) (\<lambda>fetched.
     and_then
       (if fetched then ok ()
        else
          and_then (temp_dir L) (\<lambda>_.
          and_then (in_store (map_err FetchStore
              (st_get_to_file st (bundle_key pfx ref_name sha) (rl_download L)))) (\<lambda>bytes.
          and_then (unbundle_at L x bytes) (\<lambda>_.
          remember_fetched sha)))) (\<lambda>_.
     record_boundaries L sha depth))"

text \<open>Every command of a batch runs; the first error is kept.\<close>

fun run_all :: "('c \<Rightarrow> ('t, 'e, unit) io) \<Rightarrow> 'c list \<Rightarrow> ('t, 'e, 'e option) io" where
  "run_all f [] = ok None"
| "run_all f (c # cs) =
     match_io (f c)
       (\<lambda>e. and_then (run_all f cs) (\<lambda>_. ok (Some e)))
       (\<lambda>_. run_all f cs)"

definition write_boundaries :: "receiver_lib \<Rightarrow> ext \<Rightarrow> ('s \<times> receiver, fetch_error, unit) io" where
  "write_boundaries L x = on_receiver (\<lambda>r.
     let env = \<lparr>si_read = rl_shallow_read L, si_open = rl_open L (rc_packs r),
                si_remove = rl_shallow_remove L, si_write = rl_shallow_write L\<rparr>;
         (res, file) = write_shallow_file x env (rc_boundaries r) (rc_shallow r) in
     (map_error FetchGit res, r\<lparr>rc_shallow := file, rc_boundaries := []\<rparr>))"

definition fetch_batch_with ::
    "(string \<Rightarrow> string \<Rightarrow> ('s \<times> receiver, fetch_error, unit) io) \<Rightarrow> receiver_lib \<Rightarrow> ext \<Rightarrow>
     string list \<Rightarrow> nat option \<Rightarrow> ('s \<times> receiver, fetch_error, unit) io" where
  "fetch_batch_with fetch_one L x cmds depth =
     (if cmds = [] then ok ()
      else
        and_then (on_receiver (\<lambda>r. (Inr (), r\<lparr>rc_boundaries := []\<rparr>))) (\<lambda>_.
        and_then
          (run_all (\<lambda>cmd.
             and_then (of_result (parse_fetch_args x cmd)) (\<lambda>(sha, ref_name). fetch_one sha ref_name)) cmds)
          (\<lambda>first_err.
             case first_err of
               Some e \<Rightarrow> fail_with e
             | None \<Rightarrow> (case depth of None \<Rightarrow> ok () | Some _ \<Rightarrow> write_boundaries L x))))"

definition bundle_fetch_batch ::
    "receiver_lib \<Rightarrow> ext \<Rightarrow> 's store_api \<Rightarrow> string option \<Rightarrow> string list \<Rightarrow> nat option \<Rightarrow>
     ('s \<times> receiver, fetch_error, unit) io" where
  "bundle_fetch_batch L x st pfx cmds depth =
     fetch_batch_with (bundle_fetch_one L x st pfx depth) L x cmds depth"

subsection \<open>src/packchain/fetch.rs\<close>

fun needed_segments :: "git_repo \<Rightarrow> chain_segment list \<Rightarrow> chain_segment list \<times> bool" where
  "needed_segments repo [] = ([], True)"
| "needed_segments repo (segment # segments) =
     (if rp_contains repo (seg_sha segment) then ([], False)
      else let (needed, need_baseline) = needed_segments repo segments in (segment # needed, need_baseline))"

definition select_needed_segments ::
    "receiver_lib \<Rightarrow> chain_manifest \<Rightarrow> ('s \<times> receiver, fetch_error, chain_segment list \<times> bool) io" where
  "select_needed_segments L chain = on_receiver (\<lambda>r.
     (case rl_open L (rc_packs r) of
        Inl e \<Rightarrow> Inl (FetchGit e)
      | Inr repo \<Rightarrow> Inr (needed_segments repo (cm_segments chain)), r))"

definition download_pack ::
    "'s store_api \<Rightarrow> store_error option \<Rightarrow> string \<Rightarrow> ('s, fetch_error, string) io" where
  "download_pack st failure key =
     match_io (st_get_to_file st key failure)
       (\<lambda>e. case e of
          NotFound _ \<Rightarrow> fail_with (FetchPackchain (PackMissing key)) | _ \<Rightarrow> fail_with (FetchStore e))
       ok"

definition download_baseline ::
    "'s store_api \<Rightarrow> store_error option \<Rightarrow> string \<Rightarrow> ('s, fetch_error, string) io" where
  "download_baseline st failure key =
     match_io (st_get_to_file st key failure)
       (\<lambda>e. case e of
          NotFound _ \<Rightarrow> fail_with (FetchPackchain (BaselineMissing key)) | _ \<Rightarrow> fail_with (FetchStore e))
       ok"

definition install_pack :: "receiver_lib \<Rightarrow> string \<Rightarrow> ('s \<times> receiver, fetch_error, unit) io" where
  "install_pack L pack = on_receiver (\<lambda>r.
     case rl_open L (rc_packs r) of
       Inl e \<Rightarrow> (Inl (FetchGit e), r)
     | Inr _ \<Rightarrow>
         (case rl_pack_io L of
            Some e \<Rightarrow> (Inl (FetchIo e), r)
          | None \<Rightarrow>
              (case rl_install_thin L (rc_packs r) pack of
                 Inl e \<Rightarrow> (Inl (FetchPackchain (PackIndexWrite e)), r)
               | Inr _ \<Rightarrow>
                   (case rl_keep_io L of Some e \<Rightarrow> Inl (FetchIo e) | None \<Rightarrow> Inr (),
                    r\<lparr>rc_packs := rc_packs r @ [pack]\<rparr>))))"

text \<open>
  A download: the segment or baseline it is for, the file of the temporary directory and the
  key. What has been drained: the file of each segment, the files, the baseline.
\<close>

datatype download =
    SegmentDownload string string string
  | BaselineDownload string string string

record drained =
  dr_segments :: "(string \<times> string) list"
  dr_files :: "(string \<times> string) list"
  dr_baseline :: "(string \<times> string) option"

fun segment_downloads :: "string option \<Rightarrow> chain_segment list \<Rightarrow> packchain_error + download list" where
  "segment_downloads pfx [] = Inr []"
| "segment_downloads pfx (segment # segments) =
     (case segment_pack_sha segment of
        Inl e \<Rightarrow> Inl e
      | Inr content_sha \<Rightarrow>
          (case segment_downloads pfx segments of
             Inl e \<Rightarrow> Inl e
           | Inr ds \<Rightarrow>
               Inr (SegmentDownload (seg_sha segment) (content_sha @ ''.pack'')
                 (pack_key_from_relative pfx (seg_pack segment)) # ds)))"

definition spawn_full_downloads ::
    "string option \<Rightarrow> string \<Rightarrow> chain_segment list \<Rightarrow> string option \<Rightarrow> fetch_error + download list" where
  "spawn_full_downloads pfx ref_name needed baseline_sha =
     (case segment_downloads pfx needed of
        Inl e \<Rightarrow> Inl (FetchPackchain e)
      | Inr ds \<Rightarrow>
          Inr (ds @ (case baseline_sha of
             None \<Rightarrow> []
           | Some sha \<Rightarrow> [BaselineDownload sha (sha @ ''.bundle'') (bundle_key pfx ref_name sha)])))"

fun run_download :: "'s store_api \<Rightarrow> store_error option \<Rightarrow> download \<Rightarrow> ('s, fetch_error, string) io" where
  "run_download st failure (SegmentDownload _ _ key) = download_pack st failure key"
| "run_download st failure (BaselineDownload _ _ key) = download_baseline st failure key"

fun add_download :: "download \<Rightarrow> string \<Rightarrow> drained \<Rightarrow> drained" where
  "add_download (SegmentDownload sha file _) bytes d =
     d\<lparr>dr_segments := AList.update sha file (dr_segments d), dr_files := AList.update file bytes (dr_files d)\<rparr>"
| "add_download (BaselineDownload sha file _) bytes d =
     d\<lparr>dr_baseline := Some (sha, file), dr_files := AList.update file bytes (dr_files d)\<rparr>"

fun run_downloads ::
    "'s store_api \<Rightarrow> store_error option \<Rightarrow> download list \<Rightarrow> drained \<Rightarrow>
     ('s, fetch_error, drained \<times> fetch_error option) io" where
  "run_downloads st failure [] d = ok (d, None)"
| "run_downloads st failure (c # cs) d =
     match_io (run_download st failure c)
       (\<lambda>e. and_then (run_downloads st failure cs d) (\<lambda>(d', _). ok (d', Some e)))
       (\<lambda>bytes. run_downloads st failure cs (add_download c bytes d))"

definition drain_full_downloads ::
    "'s store_api \<Rightarrow> store_error option \<Rightarrow> download list \<Rightarrow> ('s, fetch_error, drained) io" where
  "drain_full_downloads st failure downloads =
     and_then (run_downloads st failure downloads \<lparr>dr_segments = [], dr_files = [], dr_baseline = None\<rparr>)
       (\<lambda>(d, first_err). case first_err of Some e \<Rightarrow> fail_with e | None \<Rightarrow> ok d)"

definition file_bytes :: "drained \<Rightarrow> string \<Rightarrow> string" where
  "file_bytes d file = (case map_of (dr_files d) file of Some bytes \<Rightarrow> bytes | None \<Rightarrow> [])"

fun install_segments ::
    "receiver_lib \<Rightarrow> drained \<Rightarrow> chain_segment list \<Rightarrow> ('s \<times> receiver, fetch_error, unit) io" where
  "install_segments L d [] = ok ()"
| "install_segments L d (segment # segments) =
     (case map_of (dr_segments d) (seg_sha segment) of
        None \<Rightarrow> fail_with (FetchPackchain (PackBuild ''segment download succeeded but path is missing''))
      | Some file \<Rightarrow>
          and_then (install_pack L (file_bytes d file)) (\<lambda>_.
          install_segments L (d\<lparr>dr_segments := AList.delete (seg_sha segment) (dr_segments d)\<rparr>) segments))"

definition fetch_full ::
    "receiver_lib \<Rightarrow> ext \<Rightarrow> 's store_api \<Rightarrow> string option \<Rightarrow> string \<Rightarrow> chain_segment list \<Rightarrow> string option \<Rightarrow>
     ('s \<times> receiver, fetch_error, unit) io" where
  "fetch_full L x st pfx ref_name needed baseline_sha =
     (if needed = [] \<and> baseline_sha = None then ok ()
      else
        and_then (of_result (spawn_full_downloads pfx ref_name needed baseline_sha)) (\<lambda>downloads.
        and_then (in_store (drain_full_downloads st (rl_download L) downloads)) (\<lambda>d.
        and_then
          (case dr_baseline d of
             None \<Rightarrow> ok ()
           | Some (sha, file) \<Rightarrow> unbundle_at L x (file_bytes d (sha @ ''.bundle''))) (\<lambda>_.
        install_segments L d (rev needed)))))"

text \<open>The result says whether a boundary was found, which ends the fetch.\<close>

fun shallow_segments ::
    "receiver_lib \<Rightarrow> 's store_api \<Rightarrow> string option \<Rightarrow> string \<Rightarrow> nat \<Rightarrow> chain_segment list \<Rightarrow>
     ('s \<times> receiver, fetch_error, bool) io" where
  "shallow_segments L st pfx tip_sha depth [] = ok False"
| "shallow_segments L st pfx tip_sha depth (segment # segments) =
     and_then (of_result (map_error FetchPackchain (segment_pack_sha segment))) (\<lambda>content_sha.
     and_then (in_store (download_pack st (rl_download L) (pack_key_from_relative pfx (seg_pack segment)))) (\<lambda>pack.
     and_then (install_pack L pack) (\<lambda>_.
     and_then (find_boundaries L tip_sha depth) (\<lambda>ids.
     if ids \<noteq> [] then ok True
     else shallow_segments L st pfx tip_sha depth segments))))"

definition fetch_shallow ::
    "receiver_lib \<Rightarrow> ext \<Rightarrow> 's store_api \<Rightarrow> string option \<Rightarrow> string \<Rightarrow> string \<Rightarrow> chain_segment list \<Rightarrow>
     string option \<Rightarrow> nat \<Rightarrow> ('s \<times> receiver, fetch_error, unit) io" where
  "fetch_shallow L x st pfx ref_name tip_sha needed baseline_sha depth =
     and_then (shallow_segments L st pfx tip_sha depth needed) (\<lambda>stopped.
     if stopped then ok ()
     else
       (case baseline_sha of
          None \<Rightarrow> ok ()
        | Some sha \<Rightarrow>
            and_then (in_store (download_baseline st (rl_download L) (bundle_key pfx ref_name sha))) (\<lambda>bytes.
            unbundle_at L x bytes)))"

definition fetch_once ::
    "receiver_lib \<Rightarrow> ext \<Rightarrow> 's store_api \<Rightarrow> string option \<Rightarrow> string \<Rightarrow> string \<Rightarrow> nat option \<Rightarrow>
     ('s \<times> receiver, fetch_error, unit) io" where
  "fetch_once L x st pfx ref_name sha depth =
     and_then (in_store (map_err FetchPackchain (load_chain x st pfx ref_name))) (\<lambda>loaded.
     case loaded of
       None \<Rightarrow> fail_with (FetchPackchain (ChainAbsent ref_name))
     | Some chain \<Rightarrow>
         and_then (select_needed_segments L chain) (\<lambda>(needed, need_baseline).
         and_then (temp_dir L) (\<lambda>_.
         let baseline_sha = (if need_baseline then Some (cm_full_at chain) else None) in
         case depth of
           Some d \<Rightarrow> fetch_shallow L x st pfx ref_name sha needed baseline_sha d
         | None \<Rightarrow> fetch_full L x st pfx ref_name needed baseline_sha)))"

function fetch_with_pack_missing_retries ::
    "receiver_lib \<Rightarrow> ext \<Rightarrow> 's store_api \<Rightarrow> (nat \<Rightarrow> 's \<Rightarrow> 's) \<Rightarrow> string option \<Rightarrow> string \<Rightarrow> string \<Rightarrow>
     nat option \<Rightarrow> nat \<Rightarrow> ('s \<times> receiver, fetch_error, unit) io" where
  "fetch_with_pack_missing_retries L x st pause pfx ref_name sha depth attempt =
     match_io (fetch_once L x st pfx ref_name sha depth)
       (\<lambda>e. case e of
          FetchPackchain (PackMissing missing_key) \<Rightarrow>
            and_then (in_store (map_err FetchPackchain (load_chain x st pfx ref_name))) (\<lambda>loaded.
            case loaded of
              None \<Rightarrow> fail_with (FetchPackchain (ChainAbsent ref_name))
            | Some reloaded \<Rightarrow>
                and_then (of_result (map_error FetchPackchain
                    (chain_references_pack_key reloaded pfx missing_key))) (\<lambda>referenced.
                if referenced then fail_with (FetchPackchain (PackMissing missing_key))
                else if PACK_MISSING_MAX_RETRIES \<le> attempt
                then fail_with (FetchPackchain (ConcurrentGcRetriesExhausted missing_key attempt))
                else
                  and_then (sleep_io pause (PACK_MISSING_RETRY_BACKOFFS ! attempt)) (\<lambda>_.
                  fetch_with_pack_missing_retries L x st pause pfx ref_name sha depth (attempt + 1))))
        | _ \<Rightarrow> fail_with e)
       ok"
  by pat_completeness auto
termination
  by (relation "measure (\<lambda>(_, _, _, _, _, _, _, _, n). PACK_MISSING_MAX_RETRIES - n)") auto

declare fetch_with_pack_missing_retries.simps [simp del]

definition packchain_fetch_one ::
    "receiver_lib \<Rightarrow> ext \<Rightarrow> 's store_api \<Rightarrow> (nat \<Rightarrow> 's \<Rightarrow> 's) \<Rightarrow> string option \<Rightarrow> nat option \<Rightarrow> string \<Rightarrow> string \<Rightarrow>
     ('s \<times> receiver, fetch_error, unit) io" where
  "packchain_fetch_one L x st pause pfx depth sha ref_name =
     and_then (already_fetched sha) (\<lambda>fetched.
     and_then
       (if fetched then ok ()
        else
          and_then (fetch_with_pack_missing_retries L x st pause pfx ref_name sha depth 0) (\<lambda>_.
          remember_fetched sha)) (\<lambda>_.
     record_boundaries L sha depth))"

definition packchain_fetch_batch ::
    "receiver_lib \<Rightarrow> ext \<Rightarrow> 's store_api \<Rightarrow> (nat \<Rightarrow> 's \<Rightarrow> 's) \<Rightarrow> string option \<Rightarrow> string list \<Rightarrow> nat option \<Rightarrow>
     ('s \<times> receiver, fetch_error, unit) io" where
  "packchain_fetch_batch L x st pause pfx cmds depth =
     fetch_batch_with (packchain_fetch_one L x st pause pfx depth) L x cmds depth"

end
