(* ===== verification/Ref_Fetch_Proofs.thy ===== *)
theory Ref_Fetch_Proofs
  imports Ref_Fetch Bundle_Push_Properties Bundle_File_Proofs
begin

text \<open>
  What a fetch brings into the local repository: exactly the packs it was missing, oldest
  first, so that a repository with complete histories stays one; and where the shallow fetch
  of the packchain engine fails.
\<close>

subsection \<open>Programs on the receiver\<close>

lemma wp_on_receiver [wp_intros]:
  "(case f (snd p) of (Inl e, r) \<Rightarrow> E e (fst p, r) | (Inr a, r) \<Rightarrow> Q a (fst p, r)) \<Longrightarrow> wp (on_receiver f) Q E p"
  by (cases p) (auto simp: wp_def on_receiver_def split: prod.splits sum.splits)

text \<open>Programs that only install packs, and fail in any way but a missing pack.\<close>

definition installs :: "'s \<times> receiver \<Rightarrow> string list \<Rightarrow> 's \<times> receiver \<Rightarrow> bool" where
  "installs p packs q \<longleftrightarrow> q = (fst p, (snd p)\<lparr>rc_packs := rc_packs (snd p) @ packs\<rparr>)"

definition not_missing :: "fetch_error \<Rightarrow> bool" where
  "not_missing e \<longleftrightarrow> (\<forall>k. e \<noteq> FetchPackchain (PackMissing k))"

lemma not_missing_simps [simp]:
  "not_missing (FetchGit e)" "not_missing (FetchIo i)" "not_missing (FetchStore s)" "not_missing (FetchParse l)"
  "not_missing (FetchPackchain (PackIndexWrite m))" "not_missing (FetchPackchain (PackBuild m))"
  "not_missing (FetchPackchain (BaselineMissing m))" "\<not> not_missing (FetchPackchain (PackMissing m))"
  by (simp_all add: not_missing_def)

lemma installs_refl [simp]: "installs p [] p"
  by (simp add: installs_def)

lemma installs_trans: "installs p a q \<Longrightarrow> installs q b r \<Longrightarrow> installs p (a @ b) r"
  by (simp add: installs_def)

lemma installs_fst: "installs p a q \<Longrightarrow> fst q = fst p"
  by (simp add: installs_def)

lemma wp_unbundle_at:
  assumes "\<And>q. installs p [bundle_pack x bytes] q \<Longrightarrow> Q () q"
    and "\<And>e q. not_missing e \<Longrightarrow> fst q = fst p \<Longrightarrow> E e q"
  shows "wp (unbundle_at L x bytes) Q E p"
  unfolding unbundle_at_def Let_def
  by (rule wp_on_receiver)
    (use assms in \<open>auto simp: installs_def unbundle_file_def split: sum.splits option.splits\<close>)

lemma wp_install_pack:
  assumes "\<And>q. installs p [pack] q \<Longrightarrow> Q () q"
    and "\<And>e q. not_missing e \<Longrightarrow> fst q = fst p \<Longrightarrow> E e q"
  shows "wp (install_pack L pack) Q E p"
  unfolding install_pack_def
  by (rule wp_on_receiver) (use assms in \<open>auto simp: installs_def split: sum.split option.split\<close>)

text \<open>Installing the drained segments: it only gets through when no two are of one commit.\<close>

definition segment_file :: "drained \<Rightarrow> chain_segment \<Rightarrow> string" where
  "segment_file d g = file_bytes d (the (map_of (dr_segments d) (seg_sha g)))"

lemma segment_file_deleted:
  "seg_sha h \<noteq> seg_sha g \<Longrightarrow> segment_file (d\<lparr>dr_segments := AList.delete (seg_sha g) (dr_segments d)\<rparr>) h = segment_file d h"
  by (simp add: segment_file_def file_bytes_def AList.delete_conv')

lemma wp_install_segments:
  assumes "\<And>q. installs p (map (segment_file d) gs) q \<Longrightarrow> distinct (map seg_sha gs) \<Longrightarrow>
      set (map seg_sha gs) \<subseteq> fst ` set (dr_segments d) \<Longrightarrow> Q () q"
    and "\<And>e q. not_missing e \<Longrightarrow> fst q = fst p \<Longrightarrow> E e q"
  shows "wp (install_segments L d gs) Q E p"
  using assms
proof (induction gs arbitrary: d p Q)
  case (Cons g gs)
  show ?case
  proof (cases "map_of (dr_segments d) (seg_sha g)")
    case None
    then show ?thesis by (auto intro!: wp_fail Cons.prems(2))
  next
    case (Some f)
    let ?d = "d\<lparr>dr_segments := AList.delete (seg_sha g) (dr_segments d)\<rparr>"
    show ?thesis unfolding install_segments.simps Some option.case
    proof (intro wp_and_then wp_install_pack Cons.IH, goal_cases)
      case (1 q q')
      have free: "seg_sha h \<noteq> seg_sha g" if "h \<in> set gs" for h
        using 1(4) that by (auto simp: AList.delete_eq)
      then have same: "map (segment_file ?d) gs = map (segment_file d) gs" by (auto simp: segment_file_deleted)
      have "file_bytes d f = segment_file d g" using Some by (simp add: segment_file_def)
      with installs_trans [OF 1(1,2)] have "installs p (map (segment_file d) (g # gs)) q'" by (simp add: same)
      moreover have "seg_sha g \<notin> seg_sha ` set gs" using free by (metis imageE)
      then have "distinct (map seg_sha (g # gs))" using 1(3) by simp
      moreover have "set (map seg_sha (g # gs)) \<subseteq> fst ` set (dr_segments d)"
        using 1(4) Some by (auto simp: AList.delete_eq dest: map_of_SomeD intro: rev_image_eqI)
      ultimately show ?case by (rule Cons.prems(1))
    qed (auto intro!: Cons.prems(2) dest: installs_fst)
  qed
qed (auto intro!: wp_ok)

subsection \<open>Downloads\<close>

fun dl_key :: "download \<Rightarrow> string" where
  "dl_key (SegmentDownload _ _ k) = k"
| "dl_key (BaselineDownload _ _ k) = k"

fun dl_file :: "download \<Rightarrow> string" where
  "dl_file (SegmentDownload _ f _) = f"
| "dl_file (BaselineDownload _ f _) = f"

definition drain :: "bucket \<Rightarrow> download list \<Rightarrow> drained \<Rightarrow> drained" where
  "drain v cs d = fold (\<lambda>c. add_download c (body_at v (dl_key c))) cs d"

lemma drain_simps [simp]:
  "drain v [] d = d" "drain v (c # cs) d = drain v cs (add_download c (body_at v (dl_key c)) d)"
  by (simp_all add: drain_def)

lemma drain_append [simp]: "drain v (cs @ cs') d = drain v cs' (drain v cs d)"
  by (simp add: drain_def)

text \<open>A file holds the body of its key when no other download writes another body to it.\<close>

lemma drained_files:
  "map_of (dr_files (drain v cs d)) f =
     (if \<exists>c \<in> set cs. dl_file c = f then Some (body_at v (dl_key (last (filter (\<lambda>c. dl_file c = f) cs))))
      else map_of (dr_files d) f)"
proof (induction cs arbitrary: d)
  case (Cons c cs)
  have "map_of (dr_files (add_download c b d)) f = (if dl_file c = f then Some b else map_of (dr_files d) f)" for b
    by (cases c) (auto simp: update_conv')
  with Cons show ?case by (auto simp: filter_empty_conv)
qed simp

lemma drained_file_bytes:
  assumes "c \<in> set cs" "\<And>c'. c' \<in> set cs \<Longrightarrow> dl_file c' = dl_file c \<Longrightarrow> dl_key c' = dl_key c"
  shows "file_bytes (drain v cs d) (dl_file c) = body_at v (dl_key c)"
proof -
  let ?fs = "filter (\<lambda>c'. dl_file c' = dl_file c) cs"
  have "?fs \<noteq> []" using assms(1) by (auto simp: filter_empty_conv)
  then have "last ?fs \<in> set ?fs" by (rule last_in_set)
  then have "dl_key (last ?fs) = dl_key c" by (auto intro: assms(2))
  then show ?thesis using assms(1) by (auto simp: file_bytes_def drained_files)
qed

lemma drained_segments:
  assumes "distinct (map seg_sha gs)" "segment_downloads pfx gs = Inr cs" "g \<in> set gs" "segment_pack_sha g = Inr content"
  shows "map_of (dr_segments (drain v cs d)) (seg_sha g) = Some (content @ ''.pack'')"
  using assms
proof (induction gs arbitrary: cs d)
  case (Cons h gs)
  then obtain content' cs' where c: "segment_pack_sha h = Inr content'" "segment_downloads pfx gs = Inr cs'"
    "cs = SegmentDownload (seg_sha h) (content' @ ''.pack'') (pack_key_from_relative pfx (seg_pack h)) # cs'"
    by (auto split: sum.splits)
  have other: "map_of (dr_segments (drain v cs' d)) k = map_of (dr_segments d) k" if "k \<notin> seg_sha ` set gs" for k d
    using c(2) that
  proof (induction gs arbitrary: cs' d)
    case (Cons h gs)
    then show ?case by (auto simp: update_conv' split: sum.splits)
  qed simp
  show ?case
  proof (cases "g = h")
    case True
    with Cons.prems(1,4) c show ?thesis by (simp add: other update_conv')
  next
    case False
    with Cons c show ?thesis by simp
  qed
qed simp

lemma drained_no_baseline:
  "segment_downloads pfx gs = Inr cs \<Longrightarrow> dr_baseline (drain v cs d) = dr_baseline d"
  by (induction gs arbitrary: cs d) (auto split: sum.splits)

context store_contract
begin

lemma wp_run_download:
  assumes "\<And>t. view t = view s \<Longrightarrow> Q (body_at (view s) (dl_key c)) t"
    and "\<And>e t. view t = view s \<Longrightarrow> E e t"
  shows "wp (run_download st w c) Q E s"
  by (cases c; simp add: download_pack_def download_baseline_def)
    (auto intro!: wp_match wp_st_get_to_file wp_ok wp_fail assms split: store_error.split,
     auto dest!: assms(1) simp: body_at_Some)

lemma wp_run_downloads:
  assumes "\<And>t. view t = view s \<Longrightarrow> Q (drain (view s) cs d, None) t"
    and "\<And>d' e t. view t = view s \<Longrightarrow> Q (d', Some e) t"
  shows "wp (run_downloads st w cs d) Q E s"
  using assms
proof (induction cs arbitrary: d s Q)
  case (Cons c cs)
  show ?case unfolding run_downloads.simps
  proof (rule wp_match, rule wp_run_download, goal_cases)
    case (1 t)
    then show ?case using Cons.prems by (auto intro!: Cons.IH)
  next
    case (2 e t)
    then show ?case using Cons.prems(2) by (auto intro!: wp_and_then Cons.IH wp_ok)
  qed
qed (auto intro!: wp_ok)

lemma wp_drain_full_downloads:
  assumes "\<And>t. view t = view s \<Longrightarrow>
      Q (drain (view s) cs \<lparr>dr_segments = [], dr_files = [], dr_baseline = None\<rparr>) t"
    and "\<And>e t. view t = view s \<Longrightarrow> E e t"
  shows "wp (drain_full_downloads st w cs) Q E s"
  unfolding drain_full_downloads_def
  by (intro wp_and_then wp_run_downloads) (auto intro!: wp_ok wp_fail assms)

end

subsection \<open>A full fetch\<close>

text \<open>The manifests a push writes name each pack by its own key.\<close>

definition canonical_packs :: "chain_segment list \<Rightarrow> bool" where
  "canonical_packs gs \<longleftrightarrow> (\<forall>g \<in> set gs. \<exists>sha. is_valid_bundle_stem sha \<and> seg_pack g = pack_key None sha)"

text \<open>The packs of the needed segments and of the baseline, oldest first.\<close>

definition pulled ::
    "ext \<Rightarrow> string option \<Rightarrow> string \<Rightarrow> bucket \<Rightarrow> chain_segment list \<Rightarrow> string option \<Rightarrow> string list" where
  "pulled x pfx r v needed base =
     (case base of None \<Rightarrow> [] | Some sha \<Rightarrow> [bundle_pack x (body_at v (bundle_key pfx r sha))]) @
     map (\<lambda>g. body_at v (pack_key_from_relative pfx (seg_pack g))) (rev needed)"

lemma canonical_pack_sha:
  "canonical_packs gs \<Longrightarrow> g \<in> set gs \<Longrightarrow>
     \<exists>sha. is_valid_bundle_stem sha \<and> seg_pack g = pack_key None sha \<and> segment_pack_sha g = Inr sha"
  unfolding canonical_packs_def segment_pack_sha_def by (fastforce simp: sha_from_pack_key_pack_key)

lemma segment_downloads_mem:
  "segment_downloads pfx gs = Inr cs \<Longrightarrow> c \<in> set cs \<longleftrightarrow>
     (\<exists>g \<in> set gs. \<exists>sha. segment_pack_sha g = Inr sha \<and>
        c = SegmentDownload (seg_sha g) (sha @ ''.pack'') (pack_key_from_relative pfx (seg_pack g)))"
  by (induction gs arbitrary: cs) (auto split: sum.splits)

lemma drained_segment_file:
  assumes "canonical_packs gs" "distinct (map seg_sha gs)" "segment_downloads pfx gs = Inr cs" "g \<in> set gs"
    and base: "\<And>c. c \<in> set bs \<Longrightarrow> \<exists>sha k. c = BaselineDownload sha (sha @ ''.bundle'') k"
  shows "segment_file (drain v (cs @ bs) d) g = body_at v (pack_key_from_relative pfx (seg_pack g))"
proof -
  obtain sha where sha: "seg_pack g = pack_key None sha" "segment_pack_sha g = Inr sha"
    using canonical_pack_sha [OF assms(1,4)] by blast
  let ?c = "SegmentDownload (seg_sha g) (sha @ ''.pack'') (pack_key_from_relative pfx (seg_pack g))"
  have keep: "dr_segments (drain v bs d') = dr_segments d'" for d'
    using base
  proof (induction bs arbitrary: d')
    case (Cons b bs)
    then obtain s k where "b = BaselineDownload s (s @ ''.bundle'') k" by fastforce
    with Cons show ?case by simp
  qed simp
  have "map_of (dr_segments (drain v (cs @ bs) d)) (seg_sha g) = Some (sha @ ''.pack'')"
    using drained_segments [OF assms(2,3,4) sha(2)] by (simp add: keep)
  moreover have "file_bytes (drain v (cs @ bs) d) (dl_file ?c) = body_at v (dl_key ?c)"
  proof (rule drained_file_bytes)
    show "?c \<in> set (cs @ bs)" using segment_downloads_mem [OF assms(3)] assms(4) sha(2) by auto
  next
    fix c'
    assume c': "c' \<in> set (cs @ bs)" "dl_file c' = dl_file ?c"
    have "c' \<notin> set bs"
    proof
      assume "c' \<in> set bs"
      with base obtain s k where "c' = BaselineDownload s (s @ ''.bundle'') k" by blast
      with c'(2) show False by (auto dest: arg_cong [of _ _ last])
    qed
    with c'(1) have "c' \<in> set cs" by simp
    then obtain h sha' where h: "h \<in> set gs" "segment_pack_sha h = Inr sha'"
      "c' = SegmentDownload (seg_sha h) (sha' @ ''.pack'') (pack_key_from_relative pfx (seg_pack h))"
      using segment_downloads_mem [OF assms(3), of c'] by blast
    with canonical_pack_sha [OF assms(1) h(1)] have "seg_pack h = pack_key None sha'" by auto
    with h(3) c'(2) sha(1) show "dl_key c' = dl_key ?c" by simp
  qed
  ultimately show ?thesis by (simp add: segment_file_def)
qed

context store_contract
begin

lemma wp_fetch_full:
  assumes canon: "canonical_packs needed"
    and post: "\<And>q. view (fst q) = view (fst p) \<Longrightarrow>
      snd q = (snd p)\<lparr>rc_packs := rc_packs (snd p) @ pulled x pfx r (view (fst p)) needed base\<rparr> \<Longrightarrow> Q () q"
    and err: "\<And>e q. view (fst q) = view (fst p) \<Longrightarrow> not_missing e \<or> snd q = snd p \<Longrightarrow> E e q"
  shows "wp (fetch_full L x st pfx r needed base) Q E p"
proof (cases "needed = [] \<and> base = None")
  case True
  then show ?thesis by (auto simp: fetch_full_def pulled_def intro!: wp_ok post)
next
  case False
  let ?v = "view (fst p)" and ?init = "\<lparr>dr_segments = [], dr_files = [], dr_baseline = None\<rparr>"
  define bs where "bs = (case base of None \<Rightarrow> [] | Some sha \<Rightarrow> [BaselineDownload sha (sha @ ''.bundle'') (bundle_key pfx r sha)])"
  show ?thesis
  proof (cases "segment_downloads pfx needed")
    case (Inl e)
    with False show ?thesis
      by (auto simp: fetch_full_def spawn_full_downloads_def intro!: wp_and_then wp_of_result err)
  next
    case (Inr cs)
    have spawn: "spawn_full_downloads pfx r needed base = Inr (cs @ bs)"
      by (simp add: spawn_full_downloads_def Inr bs_def)
    have is_base: "\<exists>sha k. c = BaselineDownload sha (sha @ ''.bundle'') k" if "c \<in> set bs" for c
      using that by (auto simp: bs_def split: option.splits)
    let ?d = "drain ?v (cs @ bs) ?init"
    have baseline: "dr_baseline ?d = map_option (\<lambda>sha. (sha, sha @ ''.bundle'')) base"
      by (auto simp: bs_def drained_no_baseline [OF Inr] split: option.split)
    have base_file: "file_bytes ?d (sha @ ''.bundle'') = body_at ?v (bundle_key pfx r sha)" if "base = Some sha" for sha
      using that by (simp add: bs_def file_bytes_def update_conv')
    have rest: "wp (install_segments L ?d (rev needed)) Q E q"
      if q: "view (fst q) = ?v" "snd q = (snd p)\<lparr>rc_packs := rc_packs (snd p) @
          (case base of None \<Rightarrow> [] | Some sha \<Rightarrow> [bundle_pack x (body_at ?v (bundle_key pfx r sha))])\<rparr>" for q
    proof (rule wp_install_segments, goal_cases)
      case (1 q')
      have "segment_file ?d g = body_at ?v (pack_key_from_relative pfx (seg_pack g))" if "g \<in> set needed" for g
        by (rule drained_segment_file [OF canon _ Inr that is_base]) (use 1(2) in \<open>simp_all add: rev_map [symmetric]\<close>)
      then have "map (segment_file ?d) (rev needed) = map (\<lambda>g. body_at ?v (pack_key_from_relative pfx (seg_pack g))) (rev needed)"
        by simp
      with 1(1) q show ?case by (intro post) (auto simp: installs_def pulled_def)
    qed (use q err in auto)
    show ?thesis
      unfolding fetch_full_def if_not_P [OF False] spawn
    proof (rule wp_and_then, rule wp_of_result, simp, rule wp_and_then, rule wp_in_store, rule wp_drain_full_downloads, goal_cases)
      case (1 t)
      show ?case
      proof (cases base)
        case None
        then show ?thesis using baseline 1 rest [of "(t, snd p)"] by (auto intro!: wp_and_then wp_ok)
      next
        case (Some sha)
        then show ?thesis using baseline base_file [OF Some] 1
            rest [of "(t, (snd p)\<lparr>rc_packs := rc_packs (snd p) @ [bundle_pack x (body_at ?v (bundle_key pfx r sha))]\<rparr>)"]
          by (auto intro!: wp_and_then wp_unbundle_at err simp: installs_def)
      qed
    qed (use err in auto)
  qed
qed

end

subsection \<open>Complete histories\<close>

lemma needed_segments_split:
  "needed_segments repo gs = (needed, base) \<Longrightarrow>
     if base then needed = gs else \<exists>h rest. gs = needed @ h # rest \<and> rp_contains repo (seg_sha h)"
  by (induction gs arbitrary: needed) (auto split: if_splits prod.splits)

text \<open>
  \<open>complete packs c\<close> says that a repository with these packs holds all of the history of \<open>c\<close>.
  \<open>supplies\<close>: the baseline of a chain brings the history of \<open>full_at\<close>, and each segment's pack
  that of its commit to a repository that has its parent's.
\<close>

definition supplies ::
    "(string list \<Rightarrow> string \<Rightarrow> bool) \<Rightarrow> ext \<Rightarrow> string option \<Rightarrow> string \<Rightarrow> bucket \<Rightarrow> chain_manifest \<Rightarrow> bool" where
  "supplies complete x pfx r v c \<longleftrightarrow>
     (\<forall>ps. complete (ps @ [bundle_pack x (body_at v (bundle_key pfx r (cm_full_at c)))]) (cm_full_at c)) \<and>
     (\<forall>g \<in> set (cm_segments c). \<forall>ps.
        complete ps (case seg_parent_sha g of None \<Rightarrow> cm_full_at c | Some p \<Rightarrow> p) \<longrightarrow>
        complete (ps @ [body_at v (pack_key_from_relative pfx (seg_pack g))]) (seg_sha g))"

text \<open>Every chain that reads is linked, names its packs by their keys, and is supplied.\<close>

definition chain_supplied ::
    "(string list \<Rightarrow> string \<Rightarrow> bool) \<Rightarrow> ext \<Rightarrow> string option \<Rightarrow> string \<Rightarrow> bucket \<Rightarrow> bool" where
  "chain_supplied complete x pfx r v \<longleftrightarrow>
     (\<forall>c. chain_at x v (chain_key pfx r) = Some c \<longrightarrow>
        chain_ok c \<and> canonical_packs (cm_segments c) \<and> supplies complete x pfx r v c)"

text \<open>A repository that has a commit has its history: git's invariant of repositories that are not shallow.\<close>

definition receiver_complete :: "(string list \<Rightarrow> string \<Rightarrow> bool) \<Rightarrow> receiver_lib \<Rightarrow> string list \<Rightarrow> bool" where
  "receiver_complete complete L ps \<longleftrightarrow>
     (\<forall>repo c. rl_open L ps = Inr repo \<longrightarrow> rp_contains repo c \<longrightarrow> complete ps c)"

lemma linked_pulls:
  assumes "linked tip (needed @ rest) full_at"
    and "\<And>g ps. g \<in> set needed \<Longrightarrow> complete ps (case seg_parent_sha g of None \<Rightarrow> full_at | Some p \<Rightarrow> p) \<Longrightarrow>
      complete (ps @ [body g]) (seg_sha g)"
    and "complete ps (case rest of [] \<Rightarrow> full_at | h # _ \<Rightarrow> seg_sha h)"
  shows "complete (ps @ map body (rev needed)) (if needed = [] \<and> rest = [] then full_at else tip)"
  using assms
proof (induction needed arbitrary: tip)
  case Nil
  then show ?case by (cases rest) auto
next
  case (Cons g needed)
  have g: "seg_sha g = tip" using Cons.prems(1) by simp
  have "complete (ps @ map body (rev needed)) (case seg_parent_sha g of None \<Rightarrow> full_at | Some p \<Rightarrow> p)"
  proof (cases "seg_parent_sha g")
    case None
    with Cons.prems(1,3) show ?thesis by simp
  next
    case (Some p)
    with Cons.prems have l: "linked p (needed @ rest) full_at" by simp
    then have "needed \<noteq> [] \<or> rest \<noteq> []" by auto
    with Some Cons.IH [OF l Cons.prems(2,3)] show ?thesis by auto
  qed
  with Cons.prems(2) [of g "ps @ map body (rev needed)"] g show ?case by simp
qed

lemma pulled_completes:
  assumes "chain_ok c" "supplies complete x pfx r v c" "receiver_complete complete L ps"
    and "rl_open L ps = Inr repo" "needed_segments repo (cm_segments c) = (needed, base)"
  shows "complete (ps @ pulled x pfx r v needed (if base then Some (cm_full_at c) else None)) (cm_tip c)"
proof -
  let ?body = "\<lambda>g. body_at v (pack_key_from_relative pfx (seg_pack g))"
  have l: "linked (cm_tip c) (cm_segments c) (cm_full_at c)" using assms(1) by (simp add: chain_ok_def)
  then have ne: "cm_segments c \<noteq> []" by auto
  show ?thesis
  proof (cases base)
    case True
    with needed_segments_split [OF assms(5)] have gs: "cm_segments c = needed @ []" by simp
    let ?ps = "ps @ [bundle_pack x (body_at v (bundle_key pfx r (cm_full_at c)))]"
    have "complete (?ps @ map ?body (rev needed)) (if needed = [] \<and> [] = ([] :: chain_segment list) then cm_full_at c else cm_tip c)"
      by (rule linked_pulls [OF l [unfolded gs]]) (use assms(2) gs in \<open>auto simp: supplies_def\<close>)
    with True ne gs show ?thesis by (simp add: pulled_def)
  next
    case False
    with needed_segments_split [OF assms(5)] obtain h rest where gs: "cm_segments c = needed @ h # rest"
      and h: "rp_contains repo (seg_sha h)" by auto
    have at: "complete ps (seg_sha h)" using assms(3,4) h by (simp add: receiver_complete_def)
    have "complete (ps @ map ?body (rev needed)) (if needed = [] \<and> h # rest = [] then cm_full_at c else cm_tip c)"
      by (rule linked_pulls [OF l [unfolded gs]]) (use assms(2) gs at in \<open>auto simp: supplies_def\<close>)
    with False show ?thesis by (simp add: pulled_def)
  qed
qed

lemma canonical_needed:
  "canonical_packs gs \<Longrightarrow> needed_segments repo gs = (needed, base) \<Longrightarrow> canonical_packs needed"
  using needed_segments_split [of repo gs needed base] by (auto simp: canonical_packs_def split: if_splits)

text \<open>What a full fetch of the chain on \<open>v\<close> leaves in the receiver.\<close>

definition history_fetched ::
    "(string list \<Rightarrow> string \<Rightarrow> bool) \<Rightarrow> ext \<Rightarrow> string option \<Rightarrow> string \<Rightarrow> bucket \<Rightarrow> receiver \<Rightarrow> receiver \<Rightarrow> bool" where
  "history_fetched complete x pfx ref v r r' \<longleftrightarrow>
     (\<exists>c packs. chain_at x v (chain_key pfx ref) = Some c \<and> complete (rc_packs r') (cm_tip c) \<and>
        r' = r\<lparr>rc_packs := rc_packs r @ packs\<rparr>)"

context store_contract
begin

lemma wp_fetch_once_full:
  assumes "chain_supplied complete x pfx ref (view (fst p))" "receiver_complete complete L (rc_packs (snd p))"
    and post: "\<And>q. view (fst q) = view (fst p) \<Longrightarrow>
      history_fetched complete x pfx ref (view (fst p)) (snd p) (snd q) \<Longrightarrow> Q () q"
    and err: "\<And>e q. view (fst q) = view (fst p) \<Longrightarrow> not_missing e \<or> snd q = snd p \<Longrightarrow> E e q"
  shows "wp (fetch_once L x st pfx ref sha None) Q E p"
  unfolding fetch_once_def
proof (rule wp_and_then, rule wp_in_store, rule wp_map_err, rule wp_load_chain, goal_cases)
  case (1 loaded t)
  show ?case
  proof (cases loaded)
    case None
    with 1 show ?thesis by (auto intro!: wp_fail err)
  next
    case (Some c)
    with 1 assms(1) have c: "chain_at x (view (fst p)) (chain_key pfx ref) = Some c" "chain_ok c"
      "canonical_packs (cm_segments c)" "supplies complete x pfx ref (view (fst p)) c"
      by (auto simp: chain_supplied_def)
    show ?thesis
    proof (cases "rl_open L (rc_packs (snd p))")
      case (Inl e)
      with Some 1 show ?thesis
        by (auto simp: select_needed_segments_def intro!: wp_and_then wp_on_receiver err)
    next
      case (Inr repo)
      obtain needed base where n: "needed_segments repo (cm_segments c) = (needed, base)" by force
      have "complete (rc_packs (snd p) @ pulled x pfx ref (view (fst p)) needed (if base then Some (cm_full_at c) else None)) (cm_tip c)"
        by (rule pulled_completes [OF c(2,4) assms(2) Inr n])
      then have full: "wp (fetch_full L x st pfx ref needed (if base then Some (cm_full_at c) else None)) Q E (t, snd p)"
        using 1 c(1) canonical_needed [OF c(3) n]
        by (intro wp_fetch_full post err) (auto simp: history_fetched_def)
      have "wp (and_then (temp_dir L) (\<lambda>_. fetch_full L x st pfx ref needed (if base then Some (cm_full_at c) else None))) Q E (t, snd p)"
        using 1 full by (auto simp: temp_dir_def intro!: wp_and_then wp_of_result err split: option.splits)
      then show ?thesis using Some Inr n
        by (auto simp: select_needed_segments_def Let_def intro!: wp_and_then wp_on_receiver)
    qed
  qed
qed (auto intro: err)

lemma wp_fetch_retries_full:
  assumes "chain_supplied complete x pfx ref (view (fst p))" "receiver_complete complete L (rc_packs (snd p))"
    and "\<And>ms t. chain_supplied complete x pfx ref (view t) \<Longrightarrow> chain_supplied complete x pfx ref (view (pause ms t))"
    and "\<And>q. history_fetched complete x pfx ref (view (fst q)) (snd p) (snd q) \<Longrightarrow> Q () q"
  shows "wp (fetch_with_pack_missing_retries L x st pause pfx ref sha None attempt) Q (\<lambda>_ _. True) p"
  using assms(1,2,4)
proof (induction "PACK_MISSING_MAX_RETRIES - attempt" arbitrary: attempt p rule: less_induct)
  case less
  show ?case
    unfolding fetch_with_pack_missing_retries.simps [of L x st pause pfx ref sha None attempt]
  proof (rule wp_match, rule wp_fetch_once_full [OF less.prems(1,2)], goal_cases)
    case (1 q)
    with less.prems(3) [of q] show ?case by (auto intro!: wp_ok)
  next
    case (2 e q)
    show ?case
    proof (cases "\<exists>k. e = FetchPackchain (PackMissing k)")
      case False
      then show ?thesis by (cases e) (auto intro!: wp_fail split: packchain_error.split)
    next
      case True
      then obtain k where e: "e = FetchPackchain (PackMissing k)" by blast
      with 2 have q: "snd q = snd p" "view (fst q) = view (fst p)" by auto
      have again: "wp (fetch_with_pack_missing_retries L x st pause pfx ref sha None (attempt + 1)) Q (\<lambda>_ _. True) (pause ms t, snd p)"
        if "view t = view (fst p)" "attempt < PACK_MISSING_MAX_RETRIES" for t ms
        by (rule less.hyps) (use that less.prems assms(3) in auto)
      show ?thesis unfolding e
        using q again
        by (auto intro!: wp_and_then wp_in_store wp_map_err wp_load_chain wp_fail wp_of_result
            simp: sleep_io_def wp_def [of "\<lambda>(s, c). (Inr (), pause _ s, c)"] split: option.split)
    qed
  qed
qed

end

subsection \<open>On a quiet store\<close>

definition receiver_works :: "receiver_lib \<Rightarrow> bool" where
  "receiver_works L \<longleftrightarrow> rl_tempdir L = None \<and> rl_download L = None \<and> rl_reopen L = None \<and> rl_pack_io L = None \<and>
     rl_keep_io L = None \<and> (\<forall>ps. \<exists>repo. rl_open L ps = Inr repo) \<and> (\<forall>ps p. rl_install_thin L ps p = Inr ())"

definition bundle_installs :: "receiver_lib \<Rightarrow> ext \<Rightarrow> string \<Rightarrow> bool" where
  "bundle_installs L x bytes \<longleftrightarrow>
     (\<forall>ps repo. rl_open L ps = Inr repo \<longrightarrow>
        unbundle_file x (Inr (file_reader bytes)) (Inr repo) (rl_lib L) = Inr ())"

lemma working_install_pack:
  assumes "receiver_works L" "\<And>q. installs p [pack] q \<Longrightarrow> Q () q"
  shows "wp (install_pack L pack) Q E p"
proof -
  obtain repo where "rl_open L (rc_packs (snd p)) = Inr repo" using assms(1) unfolding receiver_works_def by blast
  with assms show ?thesis unfolding install_pack_def
    by (intro wp_on_receiver) (auto simp: receiver_works_def installs_def)
qed

lemma working_unbundle_at:
  assumes "receiver_works L" "bundle_installs L x bytes" "\<And>q. installs p [bundle_pack x bytes] q \<Longrightarrow> Q () q"
  shows "wp (unbundle_at L x bytes) Q E p"
proof -
  obtain repo where "rl_open L (rc_packs (snd p)) = Inr repo" using assms(1) unfolding receiver_works_def by blast
  moreover from this assms(2) have unbundled: "unbundle_file x (Inr (file_reader bytes)) (Inr repo) (rl_lib L) = Inr ()"
    by (simp add: bundle_installs_def)
  moreover from this have "install_bundle x (Inr (file_reader bytes)) (Inr repo) (rl_lib L) = Inr ()"
    by (simp add: unbundle_file_def split: sum.splits)
  ultimately show ?thesis using assms(1,3) unfolding unbundle_at_def
    by (intro wp_on_receiver) (auto simp: receiver_works_def installs_def Let_def)
qed

lemma working_install_segments:
  assumes "receiver_works L" "distinct (map seg_sha gs)"
    and "\<And>g. g \<in> set gs \<Longrightarrow> map_of (dr_segments d) (seg_sha g) \<noteq> None"
    and "\<And>q. installs p (map (segment_file d) gs) q \<Longrightarrow> Q () q"
  shows "wp (install_segments L d gs) Q E p"
  using assms(2-4)
proof (induction gs arbitrary: d p Q)
  case (Cons g gs)
  then obtain f where f: "map_of (dr_segments d) (seg_sha g) = Some f" by fastforce
  let ?d = "d\<lparr>dr_segments := AList.delete (seg_sha g) (dr_segments d)\<rparr>"
  have other: "seg_sha h \<noteq> seg_sha g" if "h \<in> set gs" for h
    using imageI [OF that, of seg_sha] Cons.prems(1) by auto
  then have same: "map (segment_file ?d) gs = map (segment_file d) gs" by (auto simp: segment_file_deleted)
  show ?case unfolding install_segments.simps f option.case
  proof (intro wp_and_then working_install_pack assms(1) Cons.IH, goal_cases)
    case (2 q h)
    with other [of h] Cons.prems(2) [of h] show ?case by (simp add: AList.delete_conv')
  next
    case (3 q q')
    have "file_bytes d f = segment_file d g" using f by (simp add: segment_file_def)
    with installs_trans [OF 3] show ?case by (intro Cons.prems(3)) (simp add: same)
  qed (use Cons.prems(1) in simp)
qed (auto intro!: wp_ok)

text \<open>Everything a full fetch of the segments and the baseline asks for is there, and installs.\<close>

definition all_present ::
    "receiver_lib \<Rightarrow> ext \<Rightarrow> string option \<Rightarrow> string \<Rightarrow> bucket \<Rightarrow> chain_segment list \<Rightarrow> string option \<Rightarrow> bool" where
  "all_present L x pfx r v gs base \<longleftrightarrow>
     canonical_packs gs \<and> distinct (map seg_sha gs) \<and>
     (\<forall>g \<in> set gs. v (pack_key_from_relative pfx (seg_pack g)) \<noteq> None) \<and>
     (\<forall>sha. base = Some sha \<longrightarrow> v (bundle_key pfx r sha) \<noteq> None \<and> bundle_installs L x (body_at v (bundle_key pfx r sha)))"

lemma canonical_downloads: "canonical_packs gs \<Longrightarrow> \<exists>cs. segment_downloads pfx gs = Inr cs"
proof (induction gs)
  case (Cons g gs)
  then have "canonical_packs gs" by (simp add: canonical_packs_def)
  with Cons canonical_pack_sha [OF Cons.prems, of g] show ?case by fastforce
qed simp

context calm_store
begin

lemma calm_download:
  assumes "calm s" "view s k \<noteq> None" "\<And>t. calm t \<Longrightarrow> view t = view s \<Longrightarrow> Q (body_at (view s) k) t"
  shows "wp (download_pack st None k) Q E s" "wp (download_baseline st None k) Q E s"
proof -
  from assms(2) obtain b m where b: "view s k = Some (b, m)" by (cases "view s k") auto
  have get: "wp (st_get_to_file st k None) (\<lambda>b t. wp (ok b) Q E t) F s" if "\<And>t. F (NotFound k) t = True" for F
    by (rule calm_wp_get_to_file [OF assms(1)]) (use b assms(3) that in \<open>auto intro!: wp_ok simp: body_at_def\<close>)
  have get: "wp (st_get_to_file st k None) (\<lambda>b t. wp (ok b) Q E t) F s" for F
    by (rule calm_wp_get_to_file [OF assms(1)]) (use b assms(3) in \<open>auto intro!: wp_ok simp: body_at_def\<close>)
  show "wp (download_pack st None k) Q E s" "wp (download_baseline st None k) Q E s"
    unfolding download_pack_def download_baseline_def by (rule wp_match, rule get)+
qed

lemma calm_run_downloads:
  assumes "calm s" "\<And>c. c \<in> set cs \<Longrightarrow> view s (dl_key c) \<noteq> None"
    and "\<And>t. calm t \<Longrightarrow> view t = view s \<Longrightarrow> Q (drain (view s) cs d, None) t"
  shows "wp (run_downloads st None cs d) Q E s"
  using assms
proof (induction cs arbitrary: d s Q)
  case (Cons c cs)
  have run: "run_download st None c = (case c of SegmentDownload _ _ k \<Rightarrow> download_pack st None k
      | BaselineDownload _ _ k \<Rightarrow> download_baseline st None k)" by (cases c) simp_all
  show ?case unfolding run_downloads.simps
  proof (rule wp_match)
    show "wp (run_download st None c) (\<lambda>bytes. wp (run_downloads st None cs (add_download c bytes d)) Q E)
        (\<lambda>e. wp (and_then (run_downloads st None cs d) (\<lambda>(d', _). ok (d', Some e))) Q E) s"
      using Cons.prems Cons.prems(2) [of c] unfolding run
      by (cases c) (auto intro!: calm_download Cons.IH)
  qed
qed (auto intro!: wp_ok)

lemma calm_fetch_full:
  assumes "calm (fst p)" "receiver_works L" "all_present L x pfx r (view (fst p)) needed base"
    and post: "\<And>q. calm (fst q) \<Longrightarrow> view (fst q) = view (fst p) \<Longrightarrow>
      snd q = (snd p)\<lparr>rc_packs := rc_packs (snd p) @ pulled x pfx r (view (fst p)) needed base\<rparr> \<Longrightarrow> Q () q"
  shows "wp (fetch_full L x st pfx r needed base) Q E p"
proof (cases "needed = [] \<and> base = None")
  case True
  then show ?thesis using assms(1) by (auto simp: fetch_full_def pulled_def intro!: wp_ok post)
next
  case False
  let ?v = "view (fst p)" and ?init = "\<lparr>dr_segments = [], dr_files = [], dr_baseline = None\<rparr>"
  from assms(3) have canon: "canonical_packs needed" and dist: "distinct (map seg_sha needed)"
    and there: "\<And>g. g \<in> set needed \<Longrightarrow> ?v (pack_key_from_relative pfx (seg_pack g)) \<noteq> None"
    and base_there: "\<And>sha. base = Some sha \<Longrightarrow> ?v (bundle_key pfx r sha) \<noteq> None \<and> bundle_installs L x (body_at ?v (bundle_key pfx r sha))"
    by (auto simp: all_present_def)
  obtain cs where cs: "segment_downloads pfx needed = Inr cs" using canonical_downloads [OF canon] by blast
  define bs where "bs = (case base of None \<Rightarrow> [] | Some sha \<Rightarrow> [BaselineDownload sha (sha @ ''.bundle'') (bundle_key pfx r sha)])"
  have spawn: "spawn_full_downloads pfx r needed base = Inr (cs @ bs)"
    by (simp add: spawn_full_downloads_def cs bs_def)
  have is_base: "\<exists>sha k. c = BaselineDownload sha (sha @ ''.bundle'') k" if "c \<in> set bs" for c
    using that by (auto simp: bs_def split: option.splits)
  have keys: "?v (dl_key c) \<noteq> None" if "c \<in> set (cs @ bs)" for c
    using that there base_there segment_downloads_mem [OF cs] by (fastforce simp: bs_def split: option.splits)
  let ?d = "drain ?v (cs @ bs) ?init"
  have baseline: "dr_baseline ?d = map_option (\<lambda>sha. (sha, sha @ ''.bundle'')) base"
    by (auto simp: bs_def drained_no_baseline [OF cs] split: option.split)
  have base_file: "file_bytes ?d (sha @ ''.bundle'') = body_at ?v (bundle_key pfx r sha)" if "base = Some sha" for sha
    using that by (simp add: bs_def file_bytes_def update_conv')
  have segs: "dr_segments ?d = dr_segments (drain ?v cs ?init)" by (auto simp: bs_def split: option.split)
  have rest: "wp (install_segments L ?d (rev needed)) Q E q"
    if q: "calm (fst q)" "view (fst q) = ?v" "snd q = (snd p)\<lparr>rc_packs := rc_packs (snd p) @
        (case base of None \<Rightarrow> [] | Some sha \<Rightarrow> [bundle_pack x (body_at ?v (bundle_key pfx r sha))])\<rparr>" for q
  proof (rule working_install_segments [OF assms(2)], goal_cases)
    case 1
    with dist show ?case by (simp add: rev_map [symmetric])
  next
    case (2 g)
    then obtain sha where "segment_pack_sha g = Inr sha" using canonical_pack_sha [OF canon, of g] by auto
    with drained_segments [OF dist cs, of g sha] 2 show ?case unfolding segs by simp
  next
    case (3 q')
    have "segment_file ?d g = body_at ?v (pack_key_from_relative pfx (seg_pack g))" if "g \<in> set needed" for g
      by (rule drained_segment_file [OF canon dist cs that is_base])
    then have "map (segment_file ?d) (rev needed) = map (\<lambda>g. body_at ?v (pack_key_from_relative pfx (seg_pack g))) (rev needed)"
      by simp
    with 3 q show ?case by (intro post) (auto simp: installs_def pulled_def)
  qed
  have dl: "rl_download L = None" using assms(2) by (simp add: receiver_works_def)
  show ?thesis
    unfolding fetch_full_def if_not_P [OF False] spawn dl drain_full_downloads_def
  proof (rule wp_and_then, rule wp_of_result, simp, rule wp_and_then, rule wp_in_store, rule wp_and_then,
      rule calm_run_downloads [OF assms(1) keys], assumption, goal_cases)
    case (1 t)
    show ?case
    proof (cases base)
      case None
      then show ?thesis using baseline 1 rest [of "(t, snd p)"] by (auto intro!: wp_and_then wp_ok)
    next
      case (Some sha)
      then show ?thesis using baseline base_file [OF Some] 1 base_there [OF Some]
          rest [of "(t, (snd p)\<lparr>rc_packs := rc_packs (snd p) @ [bundle_pack x (body_at ?v (bundle_key pfx r sha))]\<rparr>)"]
        by (auto intro!: wp_and_then wp_ok working_unbundle_at assms(2) simp: installs_def)
    qed
  qed simp
qed

end

context calm_store
begin

lemma calm_chain:
  assumes "calm s" "chain_at x (view s) (chain_key pfx r) = Some c"
    and "\<And>t. calm t \<Longrightarrow> view t = view s \<Longrightarrow> Q (Some c) t"
  shows "wp (load_chain x st pfx r) Q E s"
  by (rule calm_load_chain [OF assms(1), where x = x])
    (use assms(2,3) in \<open>auto simp: chain_at_def split: option.splits\<close>)

lemma calm_fetch_once_full:
  assumes "calm (fst p)" "receiver_works L" "chain_at x (view (fst p)) (chain_key pfx ref) = Some c" "chain_ok c"
    and "supplies complete x pfx ref (view (fst p)) c" "receiver_complete complete L (rc_packs (snd p))"
    and present: "all_present L x pfx ref (view (fst p)) (cm_segments c) (Some (cm_full_at c))"
    and post: "\<And>q packs. calm (fst q) \<Longrightarrow> view (fst q) = view (fst p) \<Longrightarrow>
      snd q = (snd p)\<lparr>rc_packs := rc_packs (snd p) @ packs\<rparr> \<Longrightarrow> complete (rc_packs (snd p) @ packs) (cm_tip c) \<Longrightarrow> Q () q"
  shows "wp (fetch_once L x st pfx ref sha None) Q E p"
  unfolding fetch_once_def
proof (rule wp_and_then, rule wp_in_store, rule wp_map_err, rule calm_chain [OF assms(1,3)], goal_cases)
  case (1 t)
  obtain repo where repo: "rl_open L (rc_packs (snd p)) = Inr repo" using assms(2) unfolding receiver_works_def by blast
  obtain needed base where n: "needed_segments repo (cm_segments c) = (needed, base)" by force
  let ?base = "if base then Some (cm_full_at c) else None"
  have "complete (rc_packs (snd p) @ pulled x pfx ref (view (fst p)) needed ?base) (cm_tip c)"
    by (rule pulled_completes [OF assms(4,5,6) repo n])
  moreover have "all_present L x pfx ref (view (fst p)) needed ?base"
    using present needed_segments_split [OF n] by (auto simp: all_present_def canonical_packs_def split: if_splits)
  ultimately have "wp (fetch_full L x st pfx ref needed ?base) Q E (t, snd p)"
    using 1 assms(2) by (intro calm_fetch_full) (auto intro!: post)
  then show ?case using repo n assms(2)
    by (auto simp: select_needed_segments_def temp_dir_def receiver_works_def intro!: wp_and_then wp_on_receiver wp_of_result)
qed

lemma calm_packchain_fetch:
  assumes "calm (fst p)" "receiver_works L" "chain_at x (view (fst p)) (chain_key pfx ref) = Some c" "chain_ok c"
    and "supplies complete x pfx ref (view (fst p)) c" "receiver_complete complete L (rc_packs (snd p))"
    and "all_present L x pfx ref (view (fst p)) (cm_segments c) (Some (cm_full_at c))" "sha \<notin> set (rc_fetched (snd p))"
  shows "wp (packchain_fetch_one L x st pause pfx None sha ref)
    (\<lambda>_ q. calm (fst q) \<and> view (fst q) = view (fst p) \<and> complete (rc_packs (snd q)) (cm_tip c) \<and>
       prefix (rc_packs (snd p)) (rc_packs (snd q)) \<and> rc_fetched (snd q) = sha # rc_fetched (snd p)) (\<lambda>_ _. False) p"
proof -
  have "wp (fetch_with_pack_missing_retries L x st pause pfx ref sha None 0)
      (\<lambda>_ q. calm (fst q) \<and> view (fst q) = view (fst p) \<and> complete (rc_packs (snd q)) (cm_tip c) \<and>
       prefix (rc_packs (snd p)) (rc_packs (snd q)) \<and> rc_fetched (snd q) = rc_fetched (snd p)) (\<lambda>_ _. False) p"
    unfolding fetch_with_pack_missing_retries.simps [of L x st pause pfx ref sha None 0]
    by (rule wp_match, rule calm_fetch_once_full [OF assms(1-7)]) (auto intro!: wp_ok)
  then have "wp (fetch_with_pack_missing_retries L x st pause pfx ref sha None 0)
      (\<lambda>_. wp (remember_fetched sha) (\<lambda>_ q. calm (fst q) \<and> view (fst q) = view (fst p) \<and>
        complete (rc_packs (snd q)) (cm_tip c) \<and> prefix (rc_packs (snd p)) (rc_packs (snd q)) \<and>
        rc_fetched (snd q) = sha # rc_fetched (snd p)) (\<lambda>_ _. False)) (\<lambda>_ _. False) p"
    by (rule wp_mono) (auto simp: remember_fetched_def intro!: wp_on_receiver)
  then show ?thesis using assms(8) unfolding packchain_fetch_one_def already_fetched_def
    by (auto simp: record_boundaries_def intro!: wp_and_then wp_on_receiver wp_ok elim!: wp_mono)
qed

text \<open>The shallow fetch of a chain whose newest segment is missing, and of one whose is there.\<close>

lemma calm_shallow_fails:
  assumes "calm (fst p)" "receiver_works L" "chain_at x (view (fst p)) (chain_key pfx ref) = Some c"
    and c: "cm_segments c = g # gs" "canonical_packs [g]" "view (fst p) (pack_key_from_relative pfx (seg_pack g)) \<noteq> None"
    and new: "rl_open L (rc_packs (snd p)) = Inr repo" "\<not> rp_contains repo (seg_sha g)" "sha \<notin> set (rc_fetched (snd p))"
    and repo': "rl_open L (rc_packs (snd p) @ [body_at (view (fst p)) (pack_key_from_relative pfx (seg_pack g))]) = Inr repo'"
    and walk: "shallow_boundaries repo' sha d = Some (Inl e)"
  shows "wp (packchain_fetch_one L x st pause pfx (Some d) sha ref) (\<lambda>_ _. False)
    (\<lambda>e' q. e' = FetchGit e \<and> calm (fst q) \<and> view (fst q) = view (fst p) \<and> snd q = (snd p)\<lparr>rc_packs :=
       rc_packs (snd p) @ [body_at (view (fst p)) (pack_key_from_relative pfx (seg_pack g))]\<rparr>) p"
proof -
  let ?Q = "\<lambda>_ _. False"
  define E where "E = (\<lambda>e' q. e' = FetchGit e \<and> calm (fst q) \<and> view (fst q) = view (fst p) \<and> snd q = (snd p)\<lparr>rc_packs :=
       rc_packs (snd p) @ [body_at (view (fst p)) (pack_key_from_relative pfx (seg_pack g))]\<rparr>)"
  obtain content where content: "segment_pack_sha g = Inr content" using canonical_pack_sha [OF c(2)] by auto
  have dl: "rl_download L = None" "rl_tempdir L = None" using assms(2) by (auto simp: receiver_works_def)
  obtain needed base where n: "needed_segments repo (cm_segments c) = (g # needed, base)"
    using new(2) by (cases "needed_segments repo gs") (auto simp: c(1))
  have stop: "wp (find_boundaries L sha d) R E q"
    if "calm (fst q)" "view (fst q) = view (fst p)" "snd q = (snd p)\<lparr>rc_packs :=
       rc_packs (snd p) @ [body_at (view (fst p)) (pack_key_from_relative pfx (seg_pack g))]\<rparr>" for q R
    using that repo' walk by (auto simp: find_boundaries_def E_def intro!: wp_on_receiver)
  have seg: "wp (shallow_segments L st pfx sha d (g # needed)) R E (t, snd p)"
    if "calm t" "view t = view (fst p)" for t R
    unfolding shallow_segments.simps content dl map_error_simps
  proof (rule wp_and_then, rule wp_of_result, rule wp_and_then, rule wp_in_store, rule calm_download(1), goal_cases)
    case (3 a u)
    then show ?case
      by (intro wp_and_then working_install_pack assms(2))
        (use that in \<open>auto simp: installs_def intro!: stop\<close>)
  qed (use that c(3) in auto)
  have "wp (fetch_once L x st pfx ref sha (Some d)) ?Q E p"
    unfolding fetch_once_def
    by (rule wp_and_then, rule wp_in_store, rule wp_map_err, rule calm_chain [OF assms(1,3)])
      (use n new(1) dl in \<open>auto simp: select_needed_segments_def temp_dir_def fetch_shallow_def Let_def
        simp del: shallow_segments.simps intro!: wp_and_then wp_on_receiver wp_of_result seg\<close>)
  then have "wp (fetch_with_pack_missing_retries L x st pause pfx ref sha (Some d) 0) ?Q E p"
    unfolding fetch_with_pack_missing_retries.simps [of L x st pause pfx ref sha "Some d" 0]
    by (rule wp_match [OF wp_mono]) (auto simp: E_def intro!: wp_fail)
  then have "wp (packchain_fetch_one L x st pause pfx (Some d) sha ref) ?Q E p"
    using new(3) unfolding packchain_fetch_one_def already_fetched_def
    by (auto intro!: wp_and_then wp_on_receiver elim!: wp_mono)
  then show ?thesis unfolding E_def .
qed

lemma calm_deepening_fails:
  assumes "calm (fst p)" "receiver_works L" "chain_at x (view (fst p)) (chain_key pfx ref) = Some c"
    and c: "cm_segments c = g # gs" and have_tip: "rl_open L (rc_packs (snd p)) = Inr repo" "rp_contains repo (seg_sha g)"
    and walk: "shallow_boundaries repo sha d = Some (Inl e)"
  shows "wp (packchain_fetch_one L x st pause pfx (Some d) sha ref) (\<lambda>_ _. False)
    (\<lambda>e' q. e' = FetchGit e \<and> calm (fst q) \<and> view (fst q) = view (fst p) \<and> rc_packs (snd q) = rc_packs (snd p)) p"
proof -
  have "rl_tempdir L = None" using assms(2) by (simp add: receiver_works_def)
  moreover have n: "needed_segments repo (cm_segments c) = ([], False)" using have_tip(2) c by simp
  ultimately have "wp (fetch_once L x st pfx ref sha (Some d)) (\<lambda>_ q. calm (fst q) \<and> view (fst q) = view (fst p) \<and> snd q = snd p) (\<lambda>_ _. False) p"
    unfolding fetch_once_def
    by (intro wp_and_then wp_in_store wp_map_err calm_chain [OF assms(1,3)])
      (use have_tip(1) in \<open>auto simp: select_needed_segments_def temp_dir_def fetch_shallow_def Let_def
        intro!: wp_and_then wp_on_receiver wp_of_result wp_ok\<close>)
  then have "wp (fetch_with_pack_missing_retries L x st pause pfx ref sha (Some d) 0)
      (\<lambda>_ q. calm (fst q) \<and> view (fst q) = view (fst p) \<and> snd q = snd p) (\<lambda>_ _. False) p"
    unfolding fetch_with_pack_missing_retries.simps [of L x st pause pfx ref sha "Some d" 0]
    by (rule wp_match [OF wp_mono]) (auto intro!: wp_ok)
  then show ?thesis using assms(1) have_tip(1) walk unfolding packchain_fetch_one_def already_fetched_def
    by (auto simp: record_boundaries_def find_boundaries_def remember_fetched_def
        intro!: wp_and_then wp_on_receiver wp_ok elim!: wp_mono)
qed

end

subsection \<open>A receiver on a concrete history\<close>

text \<open>
  Three commits in a row, \<open>c\<close> on \<open>b\<close> on \<open>a\<close>, each pushed on its own: the pack of a push holds
  its commit and the commit before it. The repository reads what its packs hold.
\<close>

definition demo_commits :: "string \<Rightarrow> string list" where
  "demo_commits pack =
     (if pack = ''PACKa'' then [demo_sha CHR ''a'']
      else if pack = ''PACKb'' then [demo_sha CHR ''b'', demo_sha CHR ''a'']
      else if pack = ''PACKc'' then [demo_sha CHR ''c'', demo_sha CHR ''b''] else [])"

definition demo_parents :: "string \<Rightarrow> string list" where
  "demo_parents c =
     (if c = demo_sha CHR ''c'' then [demo_sha CHR ''b'']
      else if c = demo_sha CHR ''b'' then [demo_sha CHR ''a''] else [])"

definition demo_clone :: "string list \<Rightarrow> git_repo" where
  "demo_clone packs =
     (let held = concat (map demo_commits packs);
          look = (\<lambda>c. if c \<in> set held then Inr (demo_parents c) else Inl (FindObject c)) in
      \<lparr>rp_rev_parse = (\<lambda>spec. Inl (RevParse spec)),
       rp_find_object = (\<lambda>c. case look c of Inl e \<Rightarrow> Inl e | Inr ps \<Rightarrow> Inr (CommitObject ps)),
       rp_merge_base = (\<lambda>_ _. Inr None), rp_contains = (\<lambda>c. c \<in> set held), rp_peel_to_commit = look\<rparr>)"

definition demo_receiver_lib :: receiver_lib where
  "demo_receiver_lib =
     \<lparr>rl_open = (\<lambda>packs. Inr (demo_clone packs)), rl_lib = demo_library\<lparr>pl_install := \<lambda>_. Inr ()\<rparr>,
      rl_install_thin = (\<lambda>_ _. Inr ()), rl_tempdir = None, rl_download = None, rl_reopen = None,
      rl_pack_io = None, rl_keep_io = None, rl_shallow_read = None, rl_shallow_remove = None,
      rl_shallow_write = None\<rparr>"

definition empty_receiver :: receiver where
  "empty_receiver = \<lparr>rc_packs = [], rc_shallow = None, rc_fetched = [], rc_boundaries = []\<rparr>"

definition demo_complete :: "string list \<Rightarrow> string \<Rightarrow> bool" where
  "demo_complete packs c \<longleftrightarrow>
     ''PACKa'' \<in> set packs \<and> (c \<noteq> demo_sha CHR ''a'' \<longrightarrow> ''PACKb'' \<in> set packs \<and>
       (c \<noteq> demo_sha CHR ''b'' \<longrightarrow> ''PACKc'' \<in> set packs))"

definition demo_segment :: "char \<Rightarrow> char option \<Rightarrow> chain_segment" where
  "demo_segment c p = \<lparr>seg_sha = demo_sha c, seg_parent_sha = map_option demo_sha p,
     seg_pack = pack_key None (demo_sha c), seg_bytes = 5\<rparr>"

definition demo_long_chain :: chain_manifest where
  "demo_long_chain = \<lparr>cm_v = 1, cm_tip = demo_sha CHR ''c'', cm_full_at = demo_sha CHR ''a'',
     cm_segments = [demo_segment CHR ''c'' (Some CHR ''b''), demo_segment CHR ''b'' (Some CHR ''a''),
       demo_segment CHR ''a'' None]\<rparr>"

definition demo_chain_bucket :: mock_state where
  "demo_chain_bucket = demo_bucket
     [(chain_key (Some ''repo'') demo_main, chain_to_json_pretty demo_ext demo_long_chain, 1),
      (pack_key (Some ''repo'') (demo_sha CHR ''a''), ''PACKa'', 1),
      (pack_key (Some ''repo'') (demo_sha CHR ''b''), ''PACKb'', 1),
      (pack_key (Some ''repo'') (demo_sha CHR ''c''), ''PACKc'', 1),
      (demo_bundle CHR ''a'', write_bundle_header (demo_sha CHR ''a'') demo_main @ ''PACKa'', 1)]"

lemma demo_receiver_works: "receiver_works demo_receiver_lib"
  by (simp add: receiver_works_def demo_receiver_lib_def)

lemma demo_relative [simp]:
  "pack_key_from_relative (Some ''repo'') (pack_key None sha) = pack_key (Some ''repo'') sha"
  by (simp add: pack_key_from_relative_def builder_base join_base key_base_def)

lemma demo_segment_sel [simp]:
  "seg_sha (demo_segment c p) = demo_sha c" "seg_parent_sha (demo_segment c p) = map_option demo_sha p"
  "seg_pack (demo_segment c p) = pack_key None (demo_sha c)"
  by (simp_all add: demo_segment_def)

lemma demo_long_chain_sel [simp]:
  "cm_tip demo_long_chain = demo_sha CHR ''c''" "cm_full_at demo_long_chain = demo_sha CHR ''a''"
  "cm_segments demo_long_chain = [demo_segment CHR ''c'' (Some CHR ''b''), demo_segment CHR ''b'' (Some CHR ''a''),
     demo_segment CHR ''a'' None]"
  by (simp_all add: demo_long_chain_def)

lemma fetch_keys_differ:
  "pack_key pfx sha \<noteq> chain_key pfx' r" "bundle_key pfx r sha \<noteq> chain_key pfx' r'"
  "bundle_key pfx r sha \<noteq> pack_key pfx' sha'"
  by (auto simp: builder_base dest!: arg_cong [of _ _ last])

lemma demo_chain_bodies:
  "body_at (mock_view demo_chain_bucket) (pack_key (Some ''repo'') (demo_sha CHR ''a'')) = ''PACKa''"
  "body_at (mock_view demo_chain_bucket) (pack_key (Some ''repo'') (demo_sha CHR ''b'')) = ''PACKb''"
  "body_at (mock_view demo_chain_bucket) (pack_key (Some ''repo'') (demo_sha CHR ''c'')) = ''PACKc''"
  "body_at (mock_view demo_chain_bucket) (demo_bundle CHR ''a'') = write_bundle_header (demo_sha CHR ''a'') demo_main @ ''PACKa''"
  by (simp_all add: demo_chain_bucket_def body_at_def fetch_keys_differ fetch_keys_differ [symmetric] pack_key_inject)

lemma demo_long_chain_reads:
  "chain_at demo_ext (mock_view demo_chain_bucket) (chain_key (Some ''repo'') demo_main) = Some demo_long_chain"
proof -
  have "chain_wf demo_long_chain"
    by (simp add: chain_wf_def chain_typed_def chain_ok_def demo_long_chain_def demo_segment_def segment_wf_def CHAIN_SCHEMA_VERSION_def)
  then have "chain_from_json_bytes demo_ext (chain_to_json_pretty demo_ext demo_long_chain) = Inr demo_long_chain"
    by (intro chain_bytes_roundtrip) (auto simp: chain_wf_def)
  then show ?thesis by (simp add: chain_at_def demo_chain_bucket_def)
qed

lemma demo_bundle_read:
  "read_bundle_header demo_ext (Inr (file_reader (write_bundle_header (demo_sha CHR ''a'') demo_main @ ''PACKa''))) =
     Inr \<lparr>bh_version = 2, bh_prerequisites = [], bh_refs = [(demo_sha CHR ''a'', demo_main)],
         bh_pack_offset = length (write_bundle_header (demo_sha CHR ''a'') demo_main)\<rparr>"
  using read_written_header [of demo_ext "demo_sha CHR ''a''" demo_main "''a''"]
  by (simp add: header_ref_ok_def demo_main_def utf8_valid_ascii)

lemma demo_bundle_pack: "bundle_pack demo_ext (write_bundle_header (demo_sha CHR ''a'') demo_main @ ''PACKa'') = ''PACKa''"
  by (simp add: bundle_pack_def demo_bundle_read)

lemma demo_present:
  "all_present demo_receiver_lib demo_ext (Some ''repo'') demo_main (mock_view demo_chain_bucket)
     (cm_segments demo_long_chain) (Some (cm_full_at demo_long_chain))"
proof -
  have "bundle_installs demo_receiver_lib demo_ext (write_bundle_header (demo_sha CHR ''a'') demo_main @ ''PACKa'')"
    by (simp add: bundle_installs_def unbundle_file_def install_bundle_def demo_bundle_read demo_receiver_lib_def)
  moreover have "mock_view demo_chain_bucket (pack_key (Some ''repo'') (demo_sha c)) \<noteq> None" if "c \<in> {CHR ''a'', CHR ''b'', CHR ''c''}" for c
    using that unfolding demo_chain_bucket_def demo_bucket_dom by auto
  moreover have "mock_view demo_chain_bucket (demo_bundle CHR ''a'') \<noteq> None"
    unfolding demo_chain_bucket_def demo_bucket_dom by auto
  ultimately show ?thesis
    by (auto simp: all_present_def canonical_packs_def demo_chain_bodies)
qed

lemma demo_supplied:
  "chain_ok demo_long_chain"
  "supplies demo_complete demo_ext (Some ''repo'') demo_main (mock_view demo_chain_bucket) demo_long_chain"
  "receiver_complete demo_complete demo_receiver_lib []"
  by (auto simp: chain_ok_def supplies_def demo_complete_def
      receiver_complete_def demo_receiver_lib_def demo_clone_def demo_chain_bodies demo_bundle_pack)

lemma demo_newest [simp]:
  "rp_find_object (demo_clone [''PACKc'']) c =
     (if c = demo_sha CHR ''c'' \<or> c = demo_sha CHR ''b'' then Inr (CommitObject (demo_parents c)) else Inl (FindObject c))"
  "rp_peel_to_commit (demo_clone [''PACKc'']) c =
     (if c = demo_sha CHR ''c'' \<or> c = demo_sha CHR ''b'' then Inr (demo_parents c) else Inl (FindObject c))"
  by (simp_all add: demo_clone_def demo_commits_def)

lemma demo_deep_walk:
  "shallow_boundaries (demo_clone [''PACKc'']) (demo_sha CHR ''c'') 4 = Some (Inl (FindObject (demo_sha CHR ''a'')))"
proof -
  have "peel_tag_chain (demo_clone [''PACKc'']) (demo_sha CHR ''c'') = Some (Inr (PeeledCommit (demo_sha CHR ''c'') []))"
    by (simp add: peel_tag_chain_def peel_loop.simps [of "demo_clone _"])
  moreover have "boundary_search (demo_clone [''PACKc'']) 4 [] [] [(demo_sha CHR ''c'', 1)] =
      Some (Inl (FindObject (demo_sha CHR ''a'')))"
    by (simp add: boundary_search.simps [of "demo_clone [''PACKc'']"] demo_parents_def)
  ultimately show ?thesis by (simp add: shallow_boundaries_def)
qed

lemma demo_fetch_runs:
  "\<exists>t r'. packchain_fetch_one demo_receiver_lib demo_ext mock_store (\<lambda>_ t. t) (Some ''repo'') None (demo_sha CHR ''c'')
     demo_main (demo_chain_bucket, empty_receiver) = (Inr (), (t, r')) \<and> mock_view t = mock_view demo_chain_bucket"
proof -
  have "mock_calm demo_chain_bucket" unfolding demo_chain_bucket_def by (rule demo_bucket_calm)
  then have "wp (packchain_fetch_one demo_receiver_lib demo_ext mock_store (\<lambda>_ t. t) (Some ''repo'') None (demo_sha CHR ''c'') demo_main)
      (\<lambda>_ q. mock_view (fst q) = mock_view demo_chain_bucket) (\<lambda>_ _. False) (demo_chain_bucket, empty_receiver)"
    using demo_supplied demo_present demo_long_chain_reads
    by (intro wp_mono [OF calm_mock.calm_packchain_fetch [where c = demo_long_chain and complete = demo_complete]] demo_receiver_works)
      (auto simp: empty_receiver_def simp del: demo_long_chain_sel)
  from wp_totalD [OF this] show ?thesis by fastforce
qed

subsection \<open>Properties\<close>

text \<open>C17. A full fetch that answers ok, whatever faults hit it and whatever other clients do to the bucket
  while it waits to retry, leaves a repository that holds all of the history of the chain's tip, by
  installing packs and nothing else; provided the packs of the chains on the bucket supply their
  commits and the repository had the history of every commit it holds.\<close>

theorem ok_fetch_completes_the_history:
  assumes "chain_supplied complete x pfx ref (mock_view s)" "receiver_complete complete L (rc_packs r)"
    and "\<And>ms t. chain_supplied complete x pfx ref (mock_view t) \<Longrightarrow> chain_supplied complete x pfx ref (mock_view (pause ms t))"
    and "sha \<notin> set (rc_fetched r)"
    and "packchain_fetch_one L x mock_store pause pfx None sha ref (s, r) = (Inr (), (t, r'))"
  shows "\<exists>c packs. chain_at x (mock_view t) (chain_key pfx ref) = Some c \<and> complete (rc_packs r') (cm_tip c) \<and>
    r' = r\<lparr>rc_packs := rc_packs r @ packs, rc_fetched := sha # rc_fetched r\<rparr>"
proof -
  have "wp (fetch_with_pack_missing_retries L x mock_store pause pfx ref sha None 0)
      (\<lambda>_ q. history_fetched complete x pfx ref (mock_view (fst q)) r (snd q)) (\<lambda>_ _. True) (s, r)"
    by (rule mock.wp_fetch_retries_full) (use assms(1-3) in auto)
  then have "wp (packchain_fetch_one L x mock_store pause pfx None sha ref)
      (\<lambda>_ q. \<exists>r1. history_fetched complete x pfx ref (mock_view (fst q)) r r1 \<and> snd q = r1\<lparr>rc_fetched := sha # rc_fetched r1\<rparr>)
      (\<lambda>_ _. True) (s, r)"
    unfolding packchain_fetch_one_def already_fetched_def
    using assms(4)
    by (auto simp: record_boundaries_def remember_fetched_def intro!: wp_and_then wp_on_receiver wp_ok elim!: wp_mono; blast)
  with assms(5) show ?thesis by (auto simp: wp_def history_fetched_def)
qed

theorem ok_fetch_completes_the_history_witness:
  "\<exists>t r'. packchain_fetch_one demo_receiver_lib demo_ext mock_store (\<lambda>_ t. t) (Some ''repo'') None (demo_sha CHR ''c'')
       demo_main (demo_chain_bucket, empty_receiver) = (Inr (), (t, r')) \<and>
     demo_complete (rc_packs r') (demo_sha CHR ''c'')"
proof -
  have recv: "receiver_complete demo_complete demo_receiver_lib (rc_packs empty_receiver)" "demo_sha CHR ''c'' \<notin> set (rc_fetched empty_receiver)"
    using demo_supplied(3) by (simp_all add: empty_receiver_def)
  obtain t r' where run: "packchain_fetch_one demo_receiver_lib demo_ext mock_store (\<lambda>_ t. t) (Some ''repo'') None (demo_sha CHR ''c'')
      demo_main (demo_chain_bucket, empty_receiver) = (Inr (), (t, r'))" "mock_view t = mock_view demo_chain_bucket"
    using demo_fetch_runs by blast
  have s: "chain_supplied demo_complete demo_ext (Some ''repo'') demo_main (mock_view demo_chain_bucket)"
    using demo_supplied demo_long_chain_reads demo_present by (simp add: chain_supplied_def all_present_def)
  obtain c where "chain_at demo_ext (mock_view t) (chain_key (Some ''repo'') demo_main) = Some c" "demo_complete (rc_packs r') (cm_tip c)"
    using ok_fetch_completes_the_history [OF s recv(1) _ recv(2) run(1)] by auto
  with run demo_long_chain_reads show ?thesis by auto
qed

text \<open>C18. On a quiet store a full fetch succeeds when the chain reads and everything it names is stored
  and installs, and the repository then holds all of the history of the tip; the store is not
  changed and no installed pack is lost.\<close>

theorem stored_history_is_fetched:
  assumes "mock_calm s" "receiver_works L" "chain_at x (mock_view s) (chain_key pfx ref) = Some c" "chain_ok c"
    and "supplies complete x pfx ref (mock_view s) c" "receiver_complete complete L (rc_packs r)"
    and "all_present L x pfx ref (mock_view s) (cm_segments c) (Some (cm_full_at c))" "sha \<notin> set (rc_fetched r)"
  shows "\<exists>t r'. packchain_fetch_one L x mock_store pause pfx None sha ref (s, r) = (Inr (), (t, r')) \<and>
    mock_view t = mock_view s \<and> complete (rc_packs r') (cm_tip c) \<and> prefix (rc_packs r) (rc_packs r') \<and>
    rc_fetched r' = sha # rc_fetched r"
  using calm_mock.calm_packchain_fetch [of "(s, r)" L x pfx ref c complete sha pause, THEN wp_totalD] assms
  by fastforce

theorem stored_history_is_fetched_witness:
  "\<exists>t r'. packchain_fetch_one demo_receiver_lib demo_ext mock_store (\<lambda>_ t. t) (Some ''repo'') None (demo_sha CHR ''c'')
       demo_main (demo_chain_bucket, empty_receiver) = (Inr (), (t, r')) \<and>
     {''PACKa'', ''PACKb'', ''PACKc''} \<subseteq> set (rc_packs r')"
proof -
  have "mock_calm demo_chain_bucket" unfolding demo_chain_bucket_def by (rule demo_bucket_calm)
  moreover have "receiver_complete demo_complete demo_receiver_lib (rc_packs empty_receiver)" "demo_sha CHR ''c'' \<notin> set (rc_fetched empty_receiver)"
    using demo_supplied(3) by (simp_all add: empty_receiver_def)
  ultimately show ?thesis
    using stored_history_is_fetched [OF _ demo_receiver_works demo_long_chain_reads demo_supplied(1,2) _ demo_present,
        of empty_receiver "demo_sha CHR ''c''" "\<lambda>_ t. t"]
    by (auto simp: demo_complete_def)
qed

text \<open>C38. A shallow fetch never gets past the newest segment of a chain when the walk for the boundary
  leaves that segment's pack: it fails, on a quiet store and with everything stored, having installed
  that one pack, and because the repository now has the tip every later fetch with that depth
  downloads nothing and fails the same way.\<close>

theorem shallow_fetch_stops_at_the_newest_segment:
  assumes "mock_calm s" "receiver_works L" "chain_at x (mock_view s) (chain_key pfx ref) = Some c"
    and "cm_segments c = g # gs" "canonical_packs [g]" "mock_view s (pack_key_from_relative pfx (seg_pack g)) = Some (pack, m)"
    and "rl_open L (rc_packs r) = Inr repo" "\<not> rp_contains repo (seg_sha g)" "sha \<notin> set (rc_fetched r)"
    and "rl_open L (rc_packs r @ [pack]) = Inr repo'" "rp_contains repo' (seg_sha g)"
    and "shallow_boundaries repo' sha depth = Some (Inl e)"
  shows "\<exists>t u r''. packchain_fetch_one L x mock_store pause pfx (Some depth) sha ref (s, r) =
      (Inl (FetchGit e), (t, r\<lparr>rc_packs := rc_packs r @ [pack]\<rparr>)) \<and>
    packchain_fetch_one L x mock_store pause pfx (Some depth) sha ref (t, r\<lparr>rc_packs := rc_packs r @ [pack]\<rparr>) =
      (Inl (FetchGit e), (u, r'')) \<and> rc_packs r'' = rc_packs r @ [pack]"
proof -
  let ?r' = "r\<lparr>rc_packs := rc_packs r @ [pack]\<rparr>"
  have "wp (packchain_fetch_one L x mock_store pause pfx (Some depth) sha ref) (\<lambda>_ _. False)
      (\<lambda>e' q. e' = FetchGit e \<and> mock_calm (fst q) \<and> mock_view (fst q) = mock_view s \<and> snd q = ?r') (s, r)"
    by (rule wp_mono [OF calm_mock.calm_shallow_fails [of "(s, r)" L x pfx ref c g gs repo sha repo' depth e]])
      (use assms in \<open>auto simp: body_at_def\<close>)
  then obtain t where t: "packchain_fetch_one L x mock_store pause pfx (Some depth) sha ref (s, r) = (Inl (FetchGit e), (t, ?r'))"
    "mock_calm t" "mock_view t = mock_view s" by (auto simp: wp_def split: prod.splits sum.splits)
  have "wp (packchain_fetch_one L x mock_store pause pfx (Some depth) sha ref) (\<lambda>_ _. False)
      (\<lambda>e' q. e' = FetchGit e \<and> rc_packs (snd q) = rc_packs ?r') (t, ?r')"
    by (rule wp_mono [OF calm_mock.calm_deepening_fails [of "(t, ?r')" L x pfx ref c g gs repo' sha depth e]])
      (use assms t in auto)
  then obtain u r'' where "packchain_fetch_one L x mock_store pause pfx (Some depth) sha ref (t, ?r') = (Inl (FetchGit e), (u, r''))"
    "rc_packs r'' = rc_packs ?r'" by (auto simp: wp_def split: prod.splits sum.splits)
  with t(1) show ?thesis by auto
qed

theorem shallow_fetch_stops_at_the_newest_segment_witness:
  "\<exists>t u r''. packchain_fetch_one demo_receiver_lib demo_ext mock_store (\<lambda>_ t. t) (Some ''repo'') (Some 4) (demo_sha CHR ''c'')
       demo_main (demo_chain_bucket, empty_receiver) =
       (Inl (FetchGit (FindObject (demo_sha CHR ''a''))), (t, empty_receiver\<lparr>rc_packs := [''PACKc'']\<rparr>)) \<and>
     packchain_fetch_one demo_receiver_lib demo_ext mock_store (\<lambda>_ t. t) (Some ''repo'') (Some 4) (demo_sha CHR ''c'')
       demo_main (t, empty_receiver\<lparr>rc_packs := [''PACKc'']\<rparr>) =
       (Inl (FetchGit (FindObject (demo_sha CHR ''a''))), (u, r'')) \<and> rc_packs r'' = [''PACKc'']"
proof -
  let ?g = "demo_segment CHR ''c'' (Some CHR ''b'')"
  have "mock_calm demo_chain_bucket" unfolding demo_chain_bucket_def by (rule demo_bucket_calm)
  moreover have "mock_view demo_chain_bucket (pack_key_from_relative (Some ''repo'') (seg_pack ?g)) = Some (''PACKc'', 1)"
    by (simp add: demo_chain_bucket_def fetch_keys_differ fetch_keys_differ [symmetric] pack_key_inject)
  moreover have "canonical_packs [?g]" by (auto simp: canonical_packs_def)
  ultimately show ?thesis
    using shallow_fetch_stops_at_the_newest_segment [OF _ demo_receiver_works demo_long_chain_reads demo_long_chain_sel(3) _ _ _ _ _ _ _ demo_deep_walk,
        of "''PACKc''" 1 empty_receiver "demo_clone []" "\<lambda>_ t. t"]
    by (auto simp: empty_receiver_def demo_receiver_lib_def demo_clone_def demo_commits_def)
qed

context calm_store
begin

lemma calm_bundle_fetch:
  assumes "calm (fst p)" "receiver_works L" "bundle_installs L x body"
    and "view (fst p) (bundle_key pfx r sha) = Some (body, m)" "sha \<notin> set (rc_fetched (snd p))"
  shows "wp (bundle_fetch_one L x st pfx None sha r)
    (\<lambda>_ q. calm (fst q) \<and> view (fst q) = view (fst p) \<and>
       snd q = (snd p)\<lparr>rc_packs := rc_packs (snd p) @ [bundle_pack x body], rc_fetched := sha # rc_fetched (snd p)\<rparr>)
    (\<lambda>_ _. False) p"
proof -
  have dl: "rl_download L = None" "rl_tempdir L = None" using assms(2) by (auto simp: receiver_works_def)
  show ?thesis
    unfolding bundle_fetch_one_def already_fetched_def
    by (intro wp_and_then wp_on_receiver)
      (use assms dl in \<open>auto simp: temp_dir_def record_boundaries_def remember_fetched_def installs_def
        intro!: wp_and_then wp_of_result wp_in_store wp_map_err calm_wp_get_to_file working_unbundle_at wp_on_receiver wp_ok\<close>)
qed

end

lemma fetch_line_parses:
  assumes "hex_law x" "is_valid_bundle_stem sha" "ref_name_ok x r" "r \<noteq> []" "CHR '' '' \<notin> set r"
  shows "parse_fetch_args x (sha @ '' '' @ r) = Inr (sha, r)"
proof -
  have "CHR '' '' \<notin> set sha" "sha \<noteq> []" "oid_from_hex x sha = Some sha"
    using assms(1,2) by (auto simp: is_valid_bundle_stem_def list_all_iff is_lower_hex_def less_eq_char_def hex_law_def)
  with assms show ?thesis by (simp add: parse_fetch_args_def sha_from_hex_def)
qed

text \<open>C20. What a push of the bundle engine stored, a fetch installs: after a push that commits on a quiet
  store, the \<open>fetch\<close> line of the pushed commit and ref answers ok and adds exactly the pack of the pushed
  bundle to a repository it installs in.\<close>

theorem pushed_bundles_are_fetched:
  assumes "mock_calm s" "hex_law x" "push_ready x pfx env config spec (mock_view s) pc"
    and "\<not> lock_live (mock_view s) (lock_key pfx (ps_remote_ref spec)) (pc_ttl config) now"
    and "mock_view s (baseline_tombstone_key (prefix_str pfx) uuid) = None"
    and "\<And>sha at. pk_old pc = Some sha \<Longrightarrow> rfc3339_format x tomb_now = Some at \<Longrightarrow>
      json_ok x (json_of_baseline (baseline_tombstone_of at (ps_remote_ref spec) sha))"
    and "CHR '' '' \<notin> set (ps_remote_ref spec)" "receiver_works L" "bundle_installs L x (pk_body pc)"
    and "lg_local_sha (pk_local pc) \<notin> set (rc_fetched r)"
  shows "\<exists>t u r'. push_one x mock_store pfx env config now tomb_now uuid spec s = (Inr (PushOk (ps_remote_ref spec)), t) \<and>
    bundle_fetch_batch L x mock_store pfx [lg_local_sha (pk_local pc) @ '' '' @ ps_remote_ref spec] None (t, r) = (Inr (), (u, r')) \<and>
    rc_packs r' = rc_packs r @ [bundle_pack x (pk_body pc)]"
proof -
  let ?r = "ps_remote_ref spec" and ?new = "lg_local_sha (pk_local pc)"
  obtain t where t: "push_one x mock_store pfx env config now tomb_now uuid spec s = (Inr (PushOk ?r), t)"
    "mock_calm t" "pushed x pfx ?r ?new (pk_body pc) (mock_view s) (mock_view t)"
    using calm_mock.push_one_commits [OF assms(1-6), THEN wp_totalD] by blast
  from assms(3) have ok: "ref_name_ok x ?r" "is_valid_bundle_stem ?new" "?r \<noteq> []"
    by (auto simp: push_ready_def Let_def)
  obtain m where stored: "mock_view t (bundle_key pfx ?r ?new) = Some (pk_body pc, m)" using t(3) by (auto simp: pushed_def)
  note one = calm_mock.calm_bundle_fetch [of "(t, r\<lparr>rc_boundaries := []\<rparr>)", OF _ assms(8,9), simplified, OF t(2) stored assms(10)]
  have "wp (bundle_fetch_batch L x mock_store pfx [?new @ '' '' @ ?r] None)
      (\<lambda>_ q. rc_packs (snd q) = rc_packs r @ [bundle_pack x (pk_body pc)]) (\<lambda>_ _. False) (t, r)"
    unfolding bundle_fetch_batch_def fetch_batch_with_def
    using fetch_line_parses [OF assms(2) ok(2,1,3) assms(7)]
    by (auto intro!: wp_and_then wp_on_receiver wp_match wp_of_result wp_ok wp_mono [OF one])
  from wp_totalD [OF this] t(1) show ?thesis by fastforce
qed

definition demo_real_bundle :: string where
  "demo_real_bundle = write_bundle_header (demo_sha CHR ''a'') demo_main @ ''PACKa''"

definition demo_real_env :: local_env where
  "demo_real_env = demo_env\<lparr>le_bundle_at := \<lambda>_ _. Inr (Inr demo_real_bundle)\<rparr>"

lemma demo_real_sel:
  "le_repo demo_real_env = le_repo demo_env" "le_archive_tempdir demo_real_env = le_archive_tempdir demo_env"
  "le_archive demo_real_env = le_archive demo_env" "le_commit_message demo_real_env = le_commit_message demo_env"
  by (simp_all add: demo_real_env_def)

lemma demo_real_ready:
  "push_ready demo_ext (Some ''repo'') demo_real_env demo_config (demo_push False ''main'')
     (mock_view (demo_pushed CHR ''b'')) (demo_case\<lparr>pk_body := demo_real_bundle\<rparr>)"
proof -
  have "local_git_work demo_real_env = local_git_work demo_env"
    unfolding fun_eq_iff local_git_work_def demo_real_sel by blast
  moreover have "le_push_tempdir demo_real_env = None" "le_bundle_at demo_real_env sha spec = Inr (Inr demo_real_bundle)" for sha spec
    by (simp_all add: demo_real_env_def demo_env_def)
  ultimately show ?thesis using demo_push_ready by (simp add: push_ready_def Let_def)
qed

theorem pushed_bundles_are_fetched_witness:
  "\<exists>t u r'. push_one demo_ext mock_store (Some ''repo'') demo_real_env demo_config 9 9 ''u'' (demo_push False ''main'')
       (demo_pushed CHR ''b'') = (Inr (PushOk demo_main), t) \<and>
     bundle_fetch_batch demo_receiver_lib demo_ext mock_store (Some ''repo'') [demo_sha CHR ''a'' @ '' refs/heads/main''] None
       (t, empty_receiver) = (Inr (), (u, r')) \<and> rc_packs r' = [''PACKa'']"
proof -
  have "bundle_installs demo_receiver_lib demo_ext demo_real_bundle"
    by (simp add: bundle_installs_def unbundle_file_def install_bundle_def demo_real_bundle_def demo_bundle_read demo_receiver_lib_def)
  moreover have "CHR '' '' \<notin> set demo_main" by (simp add: demo_main_def)
  ultimately show ?thesis
    using pushed_bundles_are_fetched [OF _ _ demo_real_ready demo_push_facts(2,3), of 9 demo_receiver_lib empty_receiver]
      demo_push_facts(4) demo_receiver_works
    by (auto simp: demo_case_def empty_receiver_def demo_bundle_pack [unfolded demo_main_def] demo_real_bundle_def demo_main_def)
qed

end
