(* ===== verification/Helper_Loop.thy ===== *)
theory Helper_Loop
  imports Ref_Listing Ref_Fetch Packchain_Push
begin

text \<open>
  The command loop of the remote helper, \<open>src/protocol/mod.rs\<close>, with \<open>option\<close>
  (\<open>src/protocol/option.rs\<close>), \<open>capabilities\<close> (\<open>src/protocol/capabilities.rs\<close>) and the
  resolution of the backend (\<open>src/protocol/backend.rs\<close>, \<open>src/remote.rs\<close>).

  A session runs on the store, the local repository and the stream to git. Its input is what
  \<open>next_line\<close> answers, one line or error after the other. What a push reads outside the bucket
  (clock, UUIDs, local files) is given for every push line of the session, in order.
\<close>

subsection \<open>The state of a session\<close>

type_synonym 's world = "'s \<times> receiver \<times> writer"

definition store_and_writer :: "('s \<times> writer, 'e, 'a) io \<Rightarrow> ('s world, 'e, 'a) io" where
  "store_and_writer m = (\<lambda>(s, r, w). let (res, (s', w')) = m (s, w) in (res, (s', r, w')))"

definition store_and_receiver :: "('s \<times> receiver, 'e, 'a) io \<Rightarrow> ('s world, 'e, 'a) io" where
  "store_and_receiver m = (\<lambda>(s, r, w). let (res, (s', r')) = m (s, r) in (res, (s', r', w)))"

subsection \<open>src/protocol/option.rs, src/protocol/capabilities.rs\<close>

datatype option_request = Verbosity int | Depth nat

datatype option_effect = NoEffect | SetDepth nat

definition parse_option :: "string \<Rightarrow> option_request option" where
  "parse_option args =
     (case split_whitespace args of
        [key, value_text] \<Rightarrow>
          if key = ''verbosity'' then map_option Verbosity (parse_i32 value_text)
          else if key = ''depth'' then map_option Depth (parse_nonzero_u32 value_text)
          else None
      | _ \<Rightarrow> None)"

text \<open>Raising the log level is left out.\<close>

definition handle_option :: "string \<Rightarrow> ('s \<times> writer, io_error, option_effect) io" where
  "handle_option args =
     (let (response, effect) =
        (case parse_option args of
           Some (Verbosity n) \<Rightarrow> if 2 \<le> n then (''ok'' @ [CHR 0x0A], NoEffect) else (''unsupported'' @ [CHR 0x0A], NoEffect)
         | Some (Depth n) \<Rightarrow> (''ok'' @ [CHR 0x0A], SetDepth n)
         | None \<Rightarrow> (''unsupported'' @ [CHR 0x0A], NoEffect)) in
      and_then (write_all response) (\<lambda>_. ok effect))"

definition BASE_CAPABILITIES :: string where
  "BASE_CAPABILITIES = ''*push'' @ [CHR 0x0A] @ ''*fetch'' @ [CHR 0x0A] @ ''option'' @ [CHR 0x0A]"

definition handle_capabilities :: "bool \<Rightarrow> ('s \<times> writer, io_error, unit) io" where
  "handle_capabilities advertise_bundle_uri =
     and_then (write_all BASE_CAPABILITIES) (\<lambda>_.
     and_then (if advertise_bundle_uri then write_all (''bundle-uri'' @ [CHR 0x0A]) else ok ()) (\<lambda>_.
     write_all [CHR 0x0A]))"

subsection \<open>Commands\<close>

datatype command =
    CmdCapabilities
  | CmdBundleUri
  | CmdList bool
  | CmdOption string
  | CmdFetch string
  | CmdPush string
  | CmdEmpty

definition trim_line_ends :: "string \<Rightarrow> string" where
  "trim_line_ends line = rev (dropWhile (\<lambda>c. c = CHR 0x0D \<or> c = CHR 0x0A) (rev line))"

definition parse_command :: "string \<Rightarrow> command option" where
  "parse_command line =
     (let trimmed = trim_line_ends line in
      if trimmed = [] then Some CmdEmpty
      else if trimmed = ''capabilities'' then Some CmdCapabilities
      else if trimmed = ''bundle-uri'' then Some CmdBundleUri
      else if trimmed = ''list for-push'' then Some (CmdList True)
      else if trimmed = ''list'' then Some (CmdList False)
      else
        (case strip_prefix ''option '' trimmed of
           Some rest \<Rightarrow> Some (CmdOption rest)
         | None \<Rightarrow>
             (case strip_prefix ''fetch '' trimmed of
                Some rest \<Rightarrow> Some (CmdFetch rest)
              | None \<Rightarrow> map_option CmdPush (strip_prefix ''push '' trimmed))))"

datatype protocol_error =
    ProtoIo io_error
  | ProtoList list_error
  | ProtoFetch fetch_error
  | ProtoPush push_error
  | InvalidCommand string
  | ProtoBundleUri bundle_uri_error

fun is_broken_pipe :: "protocol_error \<Rightarrow> bool" where
  "is_broken_pipe (ProtoIo e) \<longleftrightarrow> io_kind e \<in> {BrokenPipe, WriteZero}"
| "is_broken_pipe _ \<longleftrightarrow> False"

subsection \<open>Batches\<close>

datatype mode = FetchMode | PushMode

record batch_state =
  bt_mode :: "mode option"
  bt_fetch :: "string list"
  bt_push :: "string list"

definition new_batch :: batch_state where
  "new_batch = \<lparr>bt_mode = None, bt_fetch = [], bt_push = []\<rparr>"

definition accumulate :: "mode \<Rightarrow> string \<Rightarrow> batch_state \<Rightarrow> batch_state" where
  "accumulate incoming cmd b =
     (let b' =
        (if bt_mode b \<noteq> Some incoming
         then (case incoming of FetchMode \<Rightarrow> b\<lparr>bt_push := []\<rparr> | PushMode \<Rightarrow> b\<lparr>bt_fetch := []\<rparr>)
           \<lparr>bt_mode := Some incoming\<rparr>
         else b) in
      case incoming of
        FetchMode \<Rightarrow> b'\<lparr>bt_fetch := bt_fetch b' @ [cmd]\<rparr>
      | PushMode \<Rightarrow> b'\<lparr>bt_push := bt_push b' @ [cmd]\<rparr>)"

definition take_pending :: "batch_state \<Rightarrow> (mode \<times> string list) option \<times> batch_state" where
  "take_pending b =
     (case bt_mode b of
        Some FetchMode \<Rightarrow>
          if bt_fetch b \<noteq> [] then (Some (FetchMode, bt_fetch b), b\<lparr>bt_mode := None, bt_fetch := []\<rparr>) else (None, b)
      | Some PushMode \<Rightarrow>
          if bt_push b \<noteq> [] then (Some (PushMode, bt_push b), b\<lparr>bt_mode := None, bt_push := []\<rparr>) else (None, b)
      | None \<Rightarrow> (None, b))"

text \<open>
  The surroundings of a session: the remote, the libraries, and for the push lines still to
  come what each push reads.
\<close>

record session =
  ss_remote :: remote_url
  ss_engine :: storage_engine
  ss_receiver_lib :: receiver_lib
  ss_lock_ttl :: "string option"
  ss_bundle_push :: "nat \<Rightarrow> string \<Rightarrow> push_input"
  ss_pack_push :: "nat \<Rightarrow> string \<Rightarrow> pack_push_input"

definition write_push_outcomes :: "push_outcome list \<Rightarrow> ('s \<times> writer, io_error, unit) io" where
  "write_push_outcomes outcomes = write_each (map to_protocol_line outcomes)"

text \<open>The inputs of the pushes of a batch, the first of which is push number \<open>n\<close> of the session.\<close>

definition bundle_inputs :: "session \<Rightarrow> nat \<Rightarrow> string list \<Rightarrow> push_input list" where
  "bundle_inputs S n cmds = map (\<lambda>(i, cmd). (ss_bundle_push S i cmd)\<lparr>pi_cmd := cmd\<rparr>) (enumerate n cmds)"

definition pack_inputs :: "session \<Rightarrow> nat \<Rightarrow> string list \<Rightarrow> pack_push_input list" where
  "pack_inputs S n cmds = map (\<lambda>(i, cmd). (ss_pack_push S i cmd)\<lparr>ki_cmd := cmd\<rparr>) (enumerate n cmds)"

definition run_push_batch ::
    "session \<Rightarrow> ext \<Rightarrow> 's store_api \<Rightarrow> nat \<Rightarrow> string list \<Rightarrow> ('s, push_error, push_outcome list) io" where
  "run_push_batch S x st n cmds =
     (let pfx = ru_prefix (ss_remote S) in
      case ss_engine S of
        BundleEngine \<Rightarrow>
          push_batch x st pfx (ss_lock_ttl S) (ru_kind (ss_remote S)) (rf_zip (ru_flags (ss_remote S)))
            (ss_engine S) (bundle_inputs S n cmds)
      | PackchainEngine \<Rightarrow> packchain_push_batch x st pfx (ss_lock_ttl S) (ss_engine S) (pack_inputs S n cmds))"

definition run_fetch_batch ::
    "session \<Rightarrow> ext \<Rightarrow> 's store_api \<Rightarrow> (nat \<Rightarrow> 's \<Rightarrow> 's) \<Rightarrow> string list \<Rightarrow> nat option \<Rightarrow>
     ('s \<times> receiver, fetch_error, unit) io" where
  "run_fetch_batch S x st pause cmds depth =
     (let pfx = ru_prefix (ss_remote S) in
      case ss_engine S of
        BundleEngine \<Rightarrow> bundle_fetch_batch (ss_receiver_lib S) x st pfx cmds depth
      | PackchainEngine \<Rightarrow> packchain_fetch_batch (ss_receiver_lib S) x st pause pfx cmds depth)"

text \<open>What the loop keeps between lines; \<open>lp_pushes\<close> counts the pushes begun.\<close>

record loop_state =
  lp_batch :: batch_state
  lp_depth :: "nat option"
  lp_pushes :: nat

definition flush_batch ::
    "session \<Rightarrow> ext \<Rightarrow> 's store_api \<Rightarrow> (nat \<Rightarrow> 's \<Rightarrow> 's) \<Rightarrow> loop_state \<Rightarrow>
     ('s world, protocol_error, loop_state) io" where
  "flush_batch S x st pause l =
     (let (pending, batch) = take_pending (lp_batch l) in
      and_then
        (case pending of
           None \<Rightarrow> ok (l\<lparr>lp_batch := batch\<rparr>)
         | Some (FetchMode, cmds) \<Rightarrow>
             and_then (map_err ProtoFetch (store_and_receiver (run_fetch_batch S x st pause cmds (lp_depth l)))) (\<lambda>_.
             ok (l\<lparr>lp_batch := batch, lp_depth := None\<rparr>))
         | Some (PushMode, cmds) \<Rightarrow>
             and_then (map_err ProtoPush (store_and_writer (in_store (run_push_batch S x st (lp_pushes l) cmds)))) (\<lambda>outcomes.
             and_then (map_err ProtoIo (store_and_writer (write_push_outcomes outcomes))) (\<lambda>_.
             ok (l\<lparr>lp_batch := batch, lp_pushes := lp_pushes l + length cmds\<rparr>)))) (\<lambda>l'.
      and_then (map_err ProtoIo (store_and_writer (write_all [CHR 0x0A]))) (\<lambda>_.
      ok l')))"

definition advertise_bundle_uri :: "session \<Rightarrow> bool" where
  "advertise_bundle_uri S \<longleftrightarrow> ss_engine S = PackchainEngine \<and> rf_bundle_uri (ru_flags (ss_remote S))"

definition run_command ::
    "session \<Rightarrow> ext \<Rightarrow> 's store_api \<Rightarrow> (nat \<Rightarrow> 's \<Rightarrow> 's) \<Rightarrow> command \<Rightarrow> loop_state \<Rightarrow>
     ('s world, protocol_error, loop_state) io" where
  "run_command S x st pause cmd l =
     (case cmd of
        CmdCapabilities \<Rightarrow>
          and_then (map_err ProtoIo (store_and_writer (handle_capabilities (advertise_bundle_uri S)))) (\<lambda>_. ok l)
      | CmdBundleUri \<Rightarrow>
          and_then (map_err ProtoBundleUri (store_and_writer
            (handle_bundle_uri x st (ss_remote S) (rf_presign_ttl (ru_flags (ss_remote S))) (advertise_bundle_uri S)))) (\<lambda>_. ok l)
      | CmdList for_push \<Rightarrow>
          and_then (map_err ProtoList (store_and_writer
            (handle_list x st (ru_prefix (ss_remote S)) (ss_engine S) for_push))) (\<lambda>_. ok l)
      | CmdOption args \<Rightarrow>
          and_then (map_err ProtoIo (store_and_writer (handle_option args))) (\<lambda>effect.
          ok (case effect of SetDepth d \<Rightarrow> l\<lparr>lp_depth := Some d\<rparr> | NoEffect \<Rightarrow> l))
      | CmdFetch args \<Rightarrow> ok (l\<lparr>lp_batch := accumulate FetchMode args (lp_batch l)\<rparr>)
      | CmdPush args \<Rightarrow> ok (l\<lparr>lp_batch := accumulate PushMode args (lp_batch l)\<rparr>)
      | CmdEmpty \<Rightarrow> flush_batch S x st pause l)"

fun run_lines ::
    "session \<Rightarrow> ext \<Rightarrow> 's store_api \<Rightarrow> (nat \<Rightarrow> 's \<Rightarrow> 's) \<Rightarrow> loop_state \<Rightarrow> (io_error + string) list \<Rightarrow>
     ('s world, protocol_error, unit) io" where
  "run_lines S x st pause l [] = ok ()"
| "run_lines S x st pause l (Inl e # rest) = fail_with (ProtoIo e)"
| "run_lines S x st pause l (Inr line # rest) =
     (case parse_command line of
        None \<Rightarrow> fail_with (InvalidCommand line)
      | Some cmd \<Rightarrow>
          and_then (run_command S x st pause cmd l) (\<lambda>l'. run_lines S x st pause l' rest))"

definition run_session ::
    "session \<Rightarrow> ext \<Rightarrow> 's store_api \<Rightarrow> (nat \<Rightarrow> 's \<Rightarrow> 's) \<Rightarrow> (io_error + string) list \<Rightarrow>
     ('s world, protocol_error, unit) io" where
  "run_session S x st pause lines =
     and_then (store_and_receiver (on_receiver (\<lambda>r. (Inr (), r\<lparr>rc_fetched := []\<rparr>)))) (\<lambda>_.
     run_lines S x st pause \<lparr>lp_batch = new_batch, lp_depth = None, lp_pushes = 0\<rparr> lines)"

subsection \<open>src/protocol/backend.rs\<close>

datatype backend_error =
    BucketNotFound backend_kind string
  | NotAuthorized backend_kind string string
  | BackendNetwork string
  | InvalidCredentials store_error
  | UnknownStoredEngine backend_kind string
  | EngineMismatch backend_kind storage_engine storage_engine

fun container_word :: "backend_kind \<Rightarrow> string" where
  "container_word S3 = ''bucket''"
| "container_word Azure = ''container''"

fun backend_error_display :: "backend_error \<Rightarrow> string" where
  "backend_error_display (BucketNotFound kind name) = container_word kind @ '' not found '' @ name"
| "backend_error_display (NotAuthorized kind action name) =
     ''user not authorized to perform '' @ action @ '' on '' @ container_word kind @ '' '' @ name"
| "backend_error_display (BackendNetwork e) = ''connection error: '' @ e"
| "backend_error_display (InvalidCredentials e) = ''invalid credentials '' @ store_error_display e"
| "backend_error_display (UnknownStoredEngine kind stored) =
     container_word kind @ '' uses unknown storage engine `'' @ stored @ ''`; this client supports '' @ supported_list_str"
| "backend_error_display (EngineMismatch kind url_engine stored_engine) =
     ''URL specifies engine `'' @ engine_as_str url_engine @ ''` but this '' @ container_word kind @ '' uses `'' @
     engine_as_str stored_engine @ ''`; remove the `?engine=` parameter from the remote URL''"

text \<open>
  The texts of an error's sources, outermost first. The errors of the SDKs are their text, and
  have no source of their own here; \<open>Other\<close> is transparent, so its text is its own display.
\<close>

fun store_error_sources :: "store_error \<Rightarrow> string list" where
  "store_error_sources (Network e) = [e]"
| "store_error_sources _ = []"

fun backend_error_sources :: "backend_error \<Rightarrow> string list" where
  "backend_error_sources (BackendNetwork e) = [e]"
| "backend_error_sources (InvalidCredentials e) = store_error_display e # store_error_sources e"
| "backend_error_sources _ = []"

fun append_source_chain :: "string \<Rightarrow> string list \<Rightarrow> string" where
  "append_source_chain msg [] = msg"
| "append_source_chain msg (rendered # sources) =
     append_source_chain (if ends_with msg rendered then msg else msg @ '': '' @ rendered) sources"

definition fatal_message :: "backend_error \<Rightarrow> string" where
  "fatal_message e = append_source_chain (''fatal: '' @ backend_error_display e) (backend_error_sources e)"

fun classify :: "backend_kind \<Rightarrow> string \<Rightarrow> string \<Rightarrow> store_error \<Rightarrow> backend_error" where
  "classify kind name action (NotFound _) = BucketNotFound kind name"
| "classify kind name action (AccessDenied _) = NotAuthorized kind action name"
| "classify kind name action (Network e) = BackendNetwork e"
| "classify kind name action e = InvalidCredentials e"

definition validate_format ::
    "'s store_api \<Rightarrow> backend_kind \<Rightarrow> string \<Rightarrow> storage_engine option \<Rightarrow> ('s, backend_error, storage_engine) io" where
  "validate_format st kind pfx url_engine =
     match_io (st_get_bytes st (join (Some pfx) ''FORMAT''))
       (\<lambda>e. case e of
          NotFound _ \<Rightarrow> ok (case url_engine of Some engine \<Rightarrow> engine | None \<Rightarrow> BundleEngine)
        | Network inner \<Rightarrow> fail_with (BackendNetwork inner)
        | _ \<Rightarrow> fail_with (InvalidCredentials e))
       (\<lambda>bytes.
          if \<not> utf8_valid bytes
          then fail_with (InvalidCredentials (OtherError ''FORMAT key contains non-UTF-8 bytes''))
          else
            (let stored_name = trim bytes in
             case engine_from_name stored_name of
               None \<Rightarrow> fail_with (UnknownStoredEngine kind stored_name)
             | Some stored_engine \<Rightarrow>
                 (case url_engine of
                    Some engine \<Rightarrow>
                      if engine \<noteq> stored_engine then fail_with (EngineMismatch kind engine stored_engine)
                      else ok stored_engine
                  | None \<Rightarrow> ok stored_engine)))"

text \<open>
  \<open>open_store\<close> stands for the constructors of the cloud stores and \<open>probe\<close> for their first
  request: either fails with a store error. The name is the bucket's or the container's.
\<close>

definition build_backend ::
    "(remote_url \<Rightarrow> store_error + 's store_api) \<Rightarrow> ('s store_api \<Rightarrow> string \<Rightarrow> ('s, store_error, unit) io) \<Rightarrow>
     remote_url \<Rightarrow> ('s, backend_error, 's store_api \<times> storage_engine) io" where
  "build_backend open_store probe remote =
     (let pfx = (case ru_prefix remote of Some p \<Rightarrow> p | None \<Rightarrow> []);
          url_engine = rf_engine (ru_flags remote);
          refused = (case remote of
             S3Remote _ bucket _ _ _ \<Rightarrow> classify S3 bucket ''ListObjectsV2''
           | AzureRemote _ _ container _ _ _ \<Rightarrow> classify Azure container ''ListBlobs'') in
      case open_store remote of
        Inl e \<Rightarrow> fail_with (refused e)
      | Inr st \<Rightarrow>
          and_then (map_err refused (probe st pfx)) (\<lambda>_.
          and_then (validate_format st (ru_kind remote) pfx url_engine) (\<lambda>engine.
          ok (st, engine))))"

subsection \<open>src/remote.rs\<close>

record 's remote =
  rm_store :: "'s store_api"
  rm_prefix :: string
  rm_engine :: storage_engine

datatype remote_error = RemoteUrlError url_error | RemoteBackend backend_error

definition remote_open ::
    "(remote_url \<Rightarrow> store_error + 's store_api) \<Rightarrow> ('s store_api \<Rightarrow> string \<Rightarrow> ('s, store_error, unit) io) \<Rightarrow>
     remote_url \<Rightarrow> ('s, backend_error, 's remote) io" where
  "remote_open open_store probe url =
     and_then (build_backend open_store probe url) (\<lambda>(st, engine).
     ok \<lparr>rm_store = st, rm_prefix = (case ru_prefix url of Some p \<Rightarrow> p | None \<Rightarrow> []), rm_engine = engine\<rparr>)"

definition remote_connect ::
    "url_lib \<Rightarrow> string option \<Rightarrow> (remote_url \<Rightarrow> store_error + 's store_api) \<Rightarrow>
     ('s store_api \<Rightarrow> string \<Rightarrow> ('s, store_error, unit) io) \<Rightarrow> string \<Rightarrow> ('s, remote_error, 's remote) io" where
  "remote_connect U env open_store probe url_text =
     and_then (of_result (map_error RemoteUrlError (parse_remote U env url_text))) (\<lambda>url.
     map_err RemoteBackend (remote_open open_store probe url))"

definition remote_key :: "'s remote \<Rightarrow> string \<Rightarrow> string" where
  "remote_key m sfx = join (Some (rm_prefix m)) sfx"

definition get_head :: "'s remote \<Rightarrow> ('s, store_error, string) io" where
  "get_head m = st_get_bytes (rm_store m) (remote_key m ''HEAD'')"

definition put_head :: "'s remote \<Rightarrow> string \<Rightarrow> ('s, store_error, unit) io" where
  "put_head m content = st_put_bytes (rm_store m) (remote_key m ''HEAD'') content default_put_opts"

definition remote_list :: "'s remote \<Rightarrow> string \<Rightarrow> ('s, store_error, object_meta list) io" where
  "remote_list m sfx = st_list (rm_store m) (remote_key m sfx)"

end
