(* ===== verification/Helper_Loop_Proofs.thy ===== *)
theory Helper_Loop_Proofs
  imports Helper_Loop Ref_Listing_Proofs Ref_Fetch_Proofs Packchain_Properties
begin

text \<open>
  The command loop: batches as the code's two lists refine one list of one kind, a session
  of well-formed pushes is answered in order, and the transcript of a whole push session.
\<close>

subsection \<open>Batches\<close>

text \<open>
  A batch holds the commands of one kind. The abstract batch is that kind with its commands;
  the code's assertions (the list of the other kind is empty) are part of \<open>batch_ok\<close>.
\<close>

definition batch_ok :: "batch_state \<Rightarrow> bool" where
  "batch_ok b \<longleftrightarrow>
     (case bt_mode b of
        None \<Rightarrow> bt_fetch b = [] \<and> bt_push b = []
      | Some FetchMode \<Rightarrow> bt_fetch b \<noteq> [] \<and> bt_push b = []
      | Some PushMode \<Rightarrow> bt_fetch b = [] \<and> bt_push b \<noteq> [])"

definition batch_abs :: "batch_state \<Rightarrow> (mode \<times> string list) option" where
  "batch_abs b =
     (case bt_mode b of
        None \<Rightarrow> None
      | Some FetchMode \<Rightarrow> Some (FetchMode, bt_fetch b)
      | Some PushMode \<Rightarrow> Some (PushMode, bt_push b))"

definition add_to_batch :: "mode \<Rightarrow> string \<Rightarrow> (mode \<times> string list) option \<Rightarrow> (mode \<times> string list) option" where
  "add_to_batch m cmd a =
     (case a of
        Some (m', cmds) \<Rightarrow> if m' = m then Some (m, cmds @ [cmd]) else Some (m, [cmd])
      | None \<Rightarrow> Some (m, [cmd]))"

lemma accumulate_refines:
  "batch_ok b \<Longrightarrow> batch_ok (accumulate m cmd b) \<and> batch_abs (accumulate m cmd b) = add_to_batch m cmd (batch_abs b)"
  by (cases m; cases "bt_mode b"; cases "the (bt_mode b)")
    (auto simp: batch_ok_def batch_abs_def add_to_batch_def accumulate_def Let_def)

lemma take_pending_refines:
  "batch_ok b \<Longrightarrow> fst (take_pending b) = batch_abs b \<and> batch_ok (snd (take_pending b)) \<and> batch_abs (snd (take_pending b)) = None"
  by (cases "bt_mode b"; cases "the (bt_mode b)") (auto simp: batch_ok_def batch_abs_def take_pending_def)

lemma new_batch_ok [simp]: "batch_ok new_batch" "batch_abs new_batch = None"
  by (simp_all add: batch_ok_def batch_abs_def new_batch_def)

subsection \<open>Programs on the world of a session\<close>

lemma wp_store_and_writer [wp_intros]:
  "wp m (\<lambda>a q. Q a (fst q, fst (snd p), snd q)) (\<lambda>e q. E e (fst q, fst (snd p), snd q)) (fst p, snd (snd p)) \<Longrightarrow>
   wp (store_and_writer m) Q E p"
  by (cases p) (auto simp: wp_def store_and_writer_def split: prod.splits sum.splits)

lemma wp_store_and_receiver [wp_intros]:
  "wp m (\<lambda>a q. Q a (fst q, snd q, snd (snd p))) (\<lambda>e q. E e (fst q, snd q, snd (snd p))) (fst p, fst (snd p)) \<Longrightarrow>
   wp (store_and_receiver m) Q E p"
  by (cases p) (auto simp: wp_def store_and_receiver_def split: prod.splits sum.splits)

text \<open>On an open stream a write succeeds and adds its text.\<close>

lemma open_write_all:
  assumes "wr_room (snd p) = None" "\<And>w. wrote_text s (snd p) w \<Longrightarrow> wr_room w = None \<Longrightarrow> Q () (fst p, w)"
  shows "wp (write_all s) Q E p"
  by (rule wp_write_all) (use assms in \<open>auto simp: wrote_text_def wrote_part_def\<close>)

lemma open_write_each:
  assumes "wr_room (snd p) = None" "\<And>w. wrote_text (concat ss) (snd p) w \<Longrightarrow> wr_room w = None \<Longrightarrow> Q () (fst p, w)"
  shows "wp (write_each ss) Q E p"
  by (rule wp_write_each) (use assms in \<open>auto simp: wrote_text_def wrote_part_def\<close>)

lemma open_capabilities:
  assumes "wr_room (snd p) = None"
    and "\<And>w. wrote_text (BASE_CAPABILITIES @ (if adv then ''bundle-uri'' @ [CHR 0x0A] else []) @ [CHR 0x0A]) (snd p) w \<Longrightarrow>
      wr_room w = None \<Longrightarrow> Q () (fst p, w)"
  shows "wp (handle_capabilities adv) Q E p"
  unfolding handle_capabilities_def
  by (cases adv; intro wp_and_then open_write_all)
    (use assms in \<open>auto intro!: wp_ok open_write_all simp: wrote_text_def\<close>)

subsection \<open>Lines\<close>

definition plain_line :: "string \<Rightarrow> bool" where
  "plain_line s \<longleftrightarrow> s \<noteq> [] \<and> last s \<noteq> CHR 0x0D \<and> last s \<noteq> CHR 0x0A"

lemma trim_plain: "plain_line s \<Longrightarrow> trim_line_ends s = s"
  by (cases s rule: rev_cases) (auto simp: plain_line_def trim_line_ends_def)

lemma parse_push_line:
  assumes "plain_line args"
  shows "parse_command (''push '' @ args) = Some (CmdPush args)"
proof -
  have "plain_line (''push '' @ args)" using assms by (auto simp: plain_line_def)
  moreover have "strip_prefix ''option '' (''push '' @ args) = None" "strip_prefix ''fetch '' (''push '' @ args) = None"
    by (simp_all add: strip_prefix_None)
  moreover have "strip_prefix ''push '' (''push '' @ args) = Some args" by (rule strip_prefix_append)
  ultimately show ?thesis by (simp add: parse_command_def Let_def trim_plain)
qed

lemma parse_fixed_lines [simp]:
  "parse_command [] = Some CmdEmpty" "parse_command ''capabilities'' = Some CmdCapabilities"
  "parse_command ''list for-push'' = Some (CmdList True)" "parse_command ''list'' = Some (CmdList False)"
  by (simp_all add: parse_command_def trim_line_ends_def)

text \<open>A line is a command in one way only: what it parses to, written out, is the line without its end.\<close>

fun show_command :: "command \<Rightarrow> string" where
  "show_command CmdCapabilities = ''capabilities''"
| "show_command CmdBundleUri = ''bundle-uri''"
| "show_command (CmdList for_push) = (if for_push then ''list for-push'' else ''list'')"
| "show_command (CmdOption args) = ''option '' @ args"
| "show_command (CmdFetch args) = ''fetch '' @ args"
| "show_command (CmdPush args) = ''push '' @ args"
| "show_command CmdEmpty = []"

lemma parse_command_Some:
  "parse_command line = Some cmd \<Longrightarrow> trim_line_ends line = show_command cmd"
  by (auto simp: parse_command_def Let_def split: if_splits option.splits)

subsection \<open>Batches of lines\<close>

text \<open>The two lists and the mode of the loop are one batch of one kind: a command joins the
  batch of its kind, a command of the other kind starts a new batch and drops the one before, a
  blank line takes the batch and leaves none. The list of the other kind is always empty, so
  the code's assertions never fire.\<close>

lemma batches_hold_one_kind_of_command:
  assumes "batch_ok b"
  shows "batch_ok (accumulate m cmd b) \<and> batch_ok (snd (take_pending b)) \<and>
    batch_abs (accumulate m cmd b) = add_to_batch m cmd (batch_abs b) \<and>
    fst (take_pending b) = batch_abs b \<and> batch_abs (snd (take_pending b)) = None"
  using accumulate_refines [OF assms] take_pending_refines [OF assms] by blast

lemma batches_hold_one_kind_of_command_example:
  "batch_abs (accumulate FetchMode ''b c'' (accumulate PushMode ''a:a'' new_batch)) = Some (FetchMode, [''b c'']) \<and>
   bt_push (accumulate FetchMode ''b c'' (accumulate PushMode ''a:a'' new_batch)) = []"
proof -
  have one: "batch_ok (accumulate PushMode ''a:a'' new_batch)" using accumulate_refines new_batch_ok(1) by blast
  have "batch_abs (accumulate PushMode ''a:a'' new_batch) = Some (PushMode, [''a:a''])"
    using accumulate_refines [of new_batch PushMode "''a:a''"] by (simp add: add_to_batch_def)
  with batches_hold_one_kind_of_command [OF one, of FetchMode "''b c''"] show ?thesis
    by (auto simp: add_to_batch_def batch_abs_def batch_ok_def split: option.splits mode.splits)
qed

lemma fold_batch:
  "batch_ok b \<Longrightarrow> batch_ok (fold (accumulate m) cmds b) \<and>
     batch_abs (fold (accumulate m) cmds b) = fold (add_to_batch m) cmds (batch_abs b)"
  by (induction cmds arbitrary: b) (simp_all add: accumulate_refines)

lemma fold_add_to_batch: "fold (add_to_batch m) cmds (Some (m, cs)) = Some (m, cs @ cmds)"
  by (induction cmds arbitrary: cs) (simp_all add: add_to_batch_def)

lemma pushed_lines_batch:
  assumes "args \<noteq> []"
  shows "take_pending (fold (accumulate PushMode) args new_batch) = (Some (PushMode, args), new_batch)"
proof -
  let ?b = "fold (accumulate PushMode) args new_batch"
  have b: "batch_ok ?b" "batch_abs ?b = Some (PushMode, args)"
    using fold_batch [of new_batch PushMode args] assms fold_add_to_batch [of PushMode "tl args" "[hd args]"]
    by (cases args; simp add: add_to_batch_def)+
  then have "bt_mode ?b = Some PushMode" "bt_push ?b = args" "bt_fetch ?b = []"
    by (auto simp: batch_ok_def batch_abs_def split: option.splits mode.splits)
  with assms show ?thesis by (cases ?b) (auto simp: take_pending_def new_batch_def)
qed

text \<open>Push lines run only in memory, until the blank line.\<close>

lemma run_push_lines:
  assumes "\<And>a. a \<in> set args \<Longrightarrow> plain_line a"
  shows "run_lines S x st pause l (map (\<lambda>a. Inr (''push '' @ a)) args @ rest) =
    run_lines S x st pause (l\<lparr>lp_batch := fold (accumulate PushMode) args (lp_batch l)\<rparr>) rest"
  using assms
proof (induction args arbitrary: l)
  case (Cons a args)
  have a: "parse_command (''push '' @ a) = Some (CmdPush a)" by (rule parse_push_line) (simp add: Cons.prems)
  have IH: "run_lines S x st pause l' (map (\<lambda>a. Inr (''push '' @ a)) args @ rest) =
    run_lines S x st pause (l'\<lparr>lp_batch := fold (accumulate PushMode) args (lp_batch l')\<rparr>) rest" for l'
    by (rule Cons.IH) (simp add: Cons.prems)
  have "run_lines S x st pause l (map (\<lambda>a. Inr (''push '' @ a)) (a # args) @ rest) =
      and_then (ok (l\<lparr>lp_batch := accumulate PushMode a (lp_batch l)\<rparr>))
        (\<lambda>l'. run_lines S x st pause l' (map (\<lambda>a. Inr (''push '' @ a)) args @ rest))"
    by (simp add: a [simplified] run_command_def)
  also have "\<dots> = run_lines S x st pause (l\<lparr>lp_batch := fold (accumulate PushMode) (a # args) (lp_batch l)\<rparr>) rest"
    by (simp add: and_then_def match_io_def ok_def IH [simplified] fun_eq_iff)
  finally show ?case .
qed simp

text \<open>What a push batch of the bundle engine writes once its outcomes are known.\<close>

lemma flush_push_batch:
  assumes "ss_engine S = BundleEngine" "args \<noteq> []" "wr_room w = None"
    and batch: "wp (run_push_batch S x st n args) Q F s"
    and post: "\<And>outs t w'. Q outs t \<Longrightarrow> wr_room w' = None \<Longrightarrow>
      wrote_text (concat (map to_protocol_line outs) @ [CHR 0x0A]) w w' \<Longrightarrow> R () (t, r, w')"
    and failed: "\<And>e t. F e t \<Longrightarrow> E (ProtoPush e) (t, r, w)"
  shows "wp (run_lines S x st pause \<lparr>lp_batch = fold (accumulate PushMode) args new_batch, lp_depth = d, lp_pushes = n\<rparr> [Inr []])
    R E (s, r, w)"
proof -
  have p: "take_pending (fold (accumulate PushMode) args new_batch) = (Some (PushMode, args), new_batch)"
    by (rule pushed_lines_batch [OF assms(2)])
  have answer: "wp (write_push_outcomes outs) (\<lambda>_ q. fst q = t \<and> wr_room (snd q) = None \<and>
      wrote_text (concat (map to_protocol_line outs)) w (snd q)) (\<lambda>_ _. False) (t, w)" for outs t
    by (auto simp: write_push_outcomes_def assms(3) intro!: open_write_each)
  have blank: "wp (write_all [CHR 0x0A]) (\<lambda>_ q. R () (fst q, r, snd q)) (\<lambda>_ _. False) (t, w')"
    if "Q outs t" "wr_room w' = None" "wrote_text (concat (map to_protocol_line outs)) w w'" for outs t w'
    by (auto simp: that(2) intro!: open_write_all post [OF that(1)] wrote_text_trans [OF that(3)])
  show ?thesis
    by (auto simp: run_command_def flush_batch_def p assms(1) failed intro!: wp_and_then wp_map_err wp_ok wp_in_store wp_store_and_writer
       wp_mono [OF batch] wp_mono [OF answer] wp_mono [OF blank])
qed

subsection \<open>Whole sessions\<close>

text \<open>A session starts with no commit fetched and no command pending.\<close>

abbreviation first_loop :: loop_state where
  "first_loop \<equiv> \<lparr>lp_batch = new_batch, lp_depth = None, lp_pushes = 0\<rparr>"

lemma wp_run_session:
  "wp (run_lines S x st pause first_loop ls) Q E (s, r\<lparr>rc_fetched := []\<rparr>, w) \<Longrightarrow> wp (run_session S x st pause ls) Q E (s, r, w)"
  unfolding run_session_def by (intro wp_and_then wp_store_and_receiver) (simp add: on_receiver_def wp_def)

text \<open>A batch of pushes answers each of its commands, for the ref the command names, or fails
  with the parse error of its first malformed command.\<close>

definition answers :: "ext \<Rightarrow> string list \<Rightarrow> push_outcome list \<Rightarrow> bool" where
  "answers x = list_all2 (\<lambda>a out. \<exists>spec. parse_push_args x a = Inr spec \<and> outcome_ref out = ps_remote_ref spec)"

definition first_malformed :: "ext \<Rightarrow> string list \<Rightarrow> push_error \<Rightarrow> bool" where
  "first_malformed x as e \<longleftrightarrow>
     (\<exists>pre a post. as = pre @ a # post \<and> (\<forall>b\<in>set pre. \<exists>spec. parse_push_args x b = Inr spec) \<and>
        parse_push_args x a = Inl e)"

lemma answers_parse: "answers x as outs \<Longrightarrow> a \<in> set as \<Longrightarrow> \<exists>spec. parse_push_args x a = Inr spec"
  by (auto simp: answers_def list_all2_conv_all_nth in_set_conv_nth)

lemma push_batch_answers_or_stops:
  "wp (push_batch x st pfx env_ttl kind with_zip engine cmds)
     (\<lambda>outs _. answers x (map pi_cmd cmds) outs)
     (\<lambda>e _. first_malformed x (map pi_cmd cmds) e) s"
  unfolding push_batch_def Let_def
proof (intro wp_if wp_ok, simp add: answers_def, rule wp_fold_io [where
      I = "\<lambda>outs rest _. \<exists>seen. cmds = seen @ rest \<and> answers x (map pi_cmd seen) outs"], goal_cases)
  case (1 outs c rest t)
  then obtain seen where s: "cmds = seen @ c # rest" "answers x (map pi_cmd seen) outs" by blast
  show ?case
  proof (rule wp_and_then, rule wp_of_result, goal_cases)
    case (1 spec)
    with s have next_one: "\<exists>seen. cmds = seen @ rest \<and> answers x (map pi_cmd seen) (outs @ [out])"
      if "outcome_ref out = ps_remote_ref spec" for out
      using that by (intro exI [of _ "seen @ [c]"]) (simp add: answers_def list_all2_appendI)
    show ?case
      by (auto intro!: wp_and_then wp_match wp_mono [OF yields_wp [OF yields_push_one]] wp_ok wp_fail
        next_one elim!: per_ref_error.elims)
  next
    case (2 e)
    with s answers_parse [OF s(2)] show ?case
      unfolding first_malformed_def
      by (intro exI [of _ "map pi_cmd seen"] exI [of _ "pi_cmd c"] exI [of _ "map pi_cmd rest"]) simp
  qed
qed (auto simp: answers_def)

lemma bundle_inputs_cmds [simp]: "map pi_cmd (bundle_inputs S n args) = args"
  by (simp add: bundle_inputs_def comp_def case_prod_beta map_snd_enumerate [unfolded comp_def])

lemma run_push_batch_answers_or_stops:
  "ss_engine S = BundleEngine \<Longrightarrow>
   wp (run_push_batch S x st n args) (\<lambda>outs _. answers x args outs) (\<lambda>e _. first_malformed x args e) s"
  using push_batch_answers_or_stops [of x st "ru_prefix (ss_remote S)" "ss_lock_ttl S"
      "ru_kind (ss_remote S)" "rf_zip (ru_flags (ss_remote S))" "ss_engine S" "bundle_inputs S n args"]
  by (simp add: run_push_batch_def)

text \<open>How a session of these push lines ends.\<close>

definition session_end :: "ext \<Rightarrow> string list \<Rightarrow> writer \<Rightarrow> protocol_error + unit \<Rightarrow> writer \<Rightarrow> bool" where
  "session_end x args w res w' \<longleftrightarrow>
    (case res of
       Inr () \<Rightarrow> \<exists>outs.
         list_all2 (\<lambda>a out. \<exists>spec. parse_push_args x a = Inr spec \<and> outcome_ref out = ps_remote_ref spec) args outs \<and>
         wr_text w' = wr_text w @ concat (map to_protocol_line outs) @ [CHR 0x0A]
     | Inl err \<Rightarrow> \<exists>pre a post e. args = pre @ a # post \<and> (\<forall>b\<in>set pre. \<exists>spec. parse_push_args x b = Inr spec) \<and>
         parse_push_args x a = Inl e \<and> err = ProtoPush e \<and> wr_text w' = wr_text w)"

lemma session_end_simps:
  "session_end x args w (Inr u) w' \<longleftrightarrow>
     (\<exists>outs. answers x args outs \<and> wr_text w' = wr_text w @ concat (map to_protocol_line outs) @ [CHR 0x0A])"
  "session_end x args w (Inl err) w' \<longleftrightarrow>
     (\<exists>e. first_malformed x args e \<and> err = ProtoPush e \<and> wr_text w' = wr_text w)"
  by (simp_all add: session_end_def answers_def split: unit.split) (auto simp: first_malformed_def)


definition demo_session :: session where
  "demo_session =
     \<lparr>ss_remote = S3Remote \<lparr>u_scheme = ''https'', u_host = Some (Domain ''h''), u_host_str = Some ''h'', u_port = None,
        u_segments = Some [''b'', ''repo''], u_query_pairs = [], u_text = ''https://h/b/repo''\<rparr> ''b'' (Some ''repo'') S3PathStyle default_flags,
      ss_engine = BundleEngine, ss_receiver_lib = demo_receiver_lib, ss_lock_ttl = None,
      ss_bundle_push = (\<lambda>_ _. demo_input (demo_push False ''main'')),
      ss_pack_push = (\<lambda>_ cmd. \<lparr>ki_cmd = cmd, ki_env = demo_pack_env, ki_now = 9, ki_tomb_now = 9, ki_uuid = ''u'', ki_json_text = []\<rparr>)\<rparr>"

lemma demo_session_sel [simp]:
  "ss_engine demo_session = BundleEngine" "ru_prefix (ss_remote demo_session) = Some ''repo''" "ss_lock_ttl demo_session = None"
  "ru_kind (ss_remote demo_session) = S3" "ru_flags (ss_remote demo_session) = default_flags"
  "ss_bundle_push demo_session n c = demo_input (demo_push False ''main'')"
  by (simp_all add: demo_session_def ru_kind_def)

text \<open>\<open>main\<close> and \<open>old\<close> as git asks for them.\<close>

lemma demo_refspecs:
  "parse_push_args demo_ext (show_push_spec (demo_push f ''main'')) = Inr (demo_push f ''main'')"
  "parse_push_args demo_ext (show_push_spec (demo_push f ''old'')) = Inr (demo_push f ''old'')"
  "plain_line (show_push_spec (demo_push f l))"
  using parse_show_push_spec [of demo_ext "demo_push f ''main''"] parse_show_push_spec [of demo_ext "demo_push f ''old''"]
  by (auto simp: refspec_ok_def demo_push_def demo_main_def show_push_spec_def plain_line_def)


text \<open>How the session configures the pushes of the bundle engine.\<close>

definition session_config :: "session \<Rightarrow> push_config" where
  "session_config S = \<lparr>pc_zip = rf_zip (ru_flags (ss_remote S)), pc_engine = ss_engine S,
     pc_ttl = lock_ttl_from_env (ss_lock_ttl S), pc_kind = ru_kind (ss_remote S)\<rparr>"

lemma run_push_batch_one:
  assumes "ss_engine S = BundleEngine" "parse_push_args x a = Inr spec" "i = ss_bundle_push S n a"
    and "wp (push_one x st (ru_prefix (ss_remote S)) (pi_env i) (session_config S) (pi_now i) (pi_tomb_now i) (pi_uuid i) spec)
      Q (\<lambda>_ _. False) s"
  shows "wp (run_push_batch S x st n [a]) (\<lambda>outs t. \<exists>out. outs = [out] \<and> Q out t) (\<lambda>_ _. False) s"
proof -
  note one = assms(4) [unfolded assms(1,3) session_config_def]
  show ?thesis
    using assms(2) unfolding run_push_batch_def bundle_inputs_def push_batch_def Let_def assms(1)
    by (auto simp: fold_io.simps assms(3) intro!: wp_and_then wp_of_result wp_match wp_ok
      wp_mono [OF one])
qed

lemma wp_run_line:
  "parse_command line = Some cmd \<Longrightarrow> wp (run_command S x st pause cmd l) (\<lambda>l'. wp (run_lines S x st pause l' rest) Q E) E p \<Longrightarrow>
   wp (run_lines S x st pause l (Inr line # rest)) Q E p"
  by (auto intro: wp_and_then)

text \<open>C2. A whole push session on a quiet store: git asks for the capabilities, for the refs, and
  pushes one ref whose local side succeeds. The helper answers the capabilities, the advertised
  refs, \<open>ok\<close> for the ref and the blank line, and afterwards the pushed commit is what readers see
  of the ref and its lock is free.\<close>

theorem push_session_commits:
  assumes "mock_calm s" "hex_law x" "ss_engine S = BundleEngine" "wr_room w = None"
    and "plain_line a" "parse_push_args x a = Inr spec" "i = ss_bundle_push S 0 a" "pfx = ru_prefix (ss_remote S)"
    and "push_ready x pfx (pi_env i) (session_config S) spec (mock_view s) pc" "listable (prefix_str pfx)"
    and "\<not> lock_live (mock_view s) (lock_key pfx (ps_remote_ref spec)) (pc_ttl (session_config S)) (pi_now i)"
    and "mock_view s (baseline_tombstone_key (prefix_str pfx) (pi_uuid i)) = None"
    and "\<And>sha at. pk_old pc = Some sha \<Longrightarrow> rfc3339_format x (pi_tomb_now i) = Some at \<Longrightarrow>
      json_ok x (json_of_baseline (baseline_tombstone_of at (ps_remote_ref spec) sha))"
    and "bundle_key pfx (ps_remote_ref spec) (lg_local_sha (pk_local pc)) \<notin> hidden x pfx (mock_view s)"
  shows "\<exists>es t r' w'. run_session S x mock_store pause
       [Inr ''capabilities'', Inr ''list for-push'', Inr (''push '' @ a), Inr []] (s, r, w) = (Inr (), (t, r', w')) \<and>
    engine_lists x pfx BundleEngine (mock_view s) es \<and>
    wr_text w' = wr_text w @ BASE_CAPABILITIES @ [CHR 0x0A] @ list_answer None es @ to_protocol_line (PushOk (ps_remote_ref spec)) @ [CHR 0x0A] \<and>
    mock_view t (lock_key pfx (ps_remote_ref spec)) = None \<and>
    visible x pfx (ps_remote_ref spec) (mock_view t) = {bundle_key pfx (ps_remote_ref spec) (lg_local_sha (pk_local pc))}"
proof -
  let ?r = "ps_remote_ref spec"
  define landed where "landed t \<longleftrightarrow> mock_view t (lock_key pfx ?r) = None \<and>
    visible x pfx ?r (mock_view t) = {bundle_key pfx ?r (lg_local_sha (pk_local pc))}" for t
  define said where "said es w' \<longleftrightarrow> wrote_text (BASE_CAPABILITIES @ [CHR 0x0A] @ list_answer None es @
    to_protocol_line (PushOk ?r) @ [CHR 0x0A]) w w'" for es w'
  have u: "utf8_prefix pfx" using assms(9) by (simp add: push_ready_def Let_def)
  have adv: "advertise_bundle_uri S = False" using assms(3) by (simp add: advertise_bundle_uri_def)
  have cmd: "parse_command (''push '' @ a) = Some (CmdPush a)" by (rule parse_push_line [OF assms(5)])
  have push: "wp (run_lines S x mock_store pause first_loop [Inr (''push '' @ a), Inr []])
      (\<lambda>_ (t, _, w'). \<exists>es. engine_lists x pfx BundleEngine (mock_view s) es \<and> landed t \<and> said es w') (\<lambda>_ _. False) (t, r', w')"
    if t: "mock_calm t" "mock_view t = mock_view s" and w': "wr_room w' = None"
      and es: "engine_lists x pfx BundleEngine (mock_view s) es"
      and b: "wrote_text (BASE_CAPABILITIES @ [CHR 0x0A]) w b" "wrote_text (list_answer None es) b w'" for es t r' w' b
  proof -
    note said = wrote_text_trans [OF b]
    have "wp (push_one x mock_store pfx (pi_env i) (session_config S) (pi_now i) (pi_tomb_now i) (pi_uuid i) spec)
        (\<lambda>out q. out = PushOk ?r \<and> landed q) (\<lambda>_ _. False) t"
      by (rule wp_mono [OF calm_mock.push_one_commits [where pc = pc]])
        (use assms t in \<open>auto simp: landed_def pushed_def\<close>)
    then have batch: "wp (run_push_batch S x mock_store 0 [a]) (\<lambda>outs q. \<exists>out. outs = [out] \<and> out = PushOk ?r \<and> landed q) (\<lambda>_ _. False) t"
      using assms(3,6,7,8) by (intro run_push_batch_one) auto
    have lines: "run_lines S x mock_store pause first_loop (map (\<lambda>a. Inr (''push '' @ a)) [a] @ [Inr []]) =
        run_lines S x mock_store pause (first_loop\<lparr>lp_batch := fold (accumulate PushMode) [a] new_batch\<rparr>) [Inr []]"
      by (subst run_push_lines) (use assms(5) in \<open>simp_all only: list.set singleton_iff loop_state.select_convs\<close>)
    have "wp (run_lines S x mock_store pause first_loop (map (\<lambda>a. Inr (''push '' @ a)) [a] @ [Inr []]))
        (\<lambda>_ (t, _, w'). \<exists>es. engine_lists x pfx BundleEngine (mock_view s) es \<and> landed t \<and> said es w') (\<lambda>_ _. False) (t, r', w')"
      unfolding lines loop_state.simps
      by (rule flush_push_batch [OF assms(3) _ w' batch])
        (use es in \<open>auto simp: said_def dest!: wrote_text_trans [OF said]\<close>)
    then show ?thesis by (simp del: run_lines.simps)
  qed
  note push_line = push [unfolded append.simps]
  have "wp (run_session S x mock_store pause [Inr ''capabilities'', Inr ''list for-push'', Inr (''push '' @ a), Inr []])
      (\<lambda>_ (t, _, w'). \<exists>es. engine_lists x pfx BundleEngine (mock_view s) es \<and> landed t \<and> said es w') (\<lambda>_ _. False) (s, r, w)"
  proof (rule wp_run_session)
    have caps: "wp (handle_capabilities False) (\<lambda>_ q. fst q = s \<and> wr_room (snd q) = None \<and>
        wrote_text (BASE_CAPABILITIES @ [CHR 0x0A]) w (snd q)) (\<lambda>_ _. False) (s, w)"
      by (rule open_capabilities) (auto simp: assms(4))
    have refs: "wp (handle_list x mock_store pfx BundleEngine True) (\<lambda>_ q. mock_calm (fst q) \<and> mock_view (fst q) = mock_view s \<and>
        wr_room (snd q) = None \<and> (\<exists>es. engine_lists x pfx BundleEngine (mock_view s) es \<and> wrote_text (list_answer None es) w' (snd q)))
        (\<lambda>_ _. False) (s, w')" if "wr_room w' = None" for w'
      by (rule calm_mock.calm_handle_list) (use assms(1,10) u that in \<open>auto simp: wrote_text_def wrote_part_def\<close>)
    show "wp (run_lines S x mock_store pause first_loop [Inr ''capabilities'', Inr ''list for-push'', Inr (''push '' @ a), Inr []])
      (\<lambda>_ (t, _, w'). \<exists>es. engine_lists x pfx BundleEngine (mock_view s) es \<and> landed t \<and> said es w') (\<lambda>_ _. False)
      (s, r\<lparr>rc_fetched := []\<rparr>, w)"
    proof (rule wp_run_line, rule parse_fixed_lines(2), goal_cases)
      case 1
      show ?case
        unfolding run_command_def command.case adv
        by (intro wp_and_then wp_map_err wp_store_and_writer, simp only: fst_conv snd_conv, rule wp_mono [OF caps])
          (auto simp: run_command_def assms(3) simp flip: assms(8) simp del: run_lines.simps(3)
            intro!: wp_run_line [OF parse_fixed_lines(3)] wp_ok wp_and_then wp_map_err wp_store_and_writer wp_mono [OF refs]
              push_line)
    qed
  qed
  then show ?thesis unfolding landed_def said_def wrote_text_def by (auto dest!: wp_totalD)
qed

theorem push_session_commits_witness:
  "\<exists>t r w. run_session demo_session demo_ext mock_store (\<lambda>_ s. s)
       [Inr ''capabilities'', Inr ''list for-push'', Inr (''push '' @ show_push_spec (demo_push False ''main'')), Inr []]
       (demo_pushed CHR ''b'', empty_receiver, fresh_writer) = (Inr (), (t, r, w)) \<and>
     wr_text w = BASE_CAPABILITIES @ [CHR 0x0A] @ demo_sha CHR ''b'' @ '' refs/heads/main'' @ [CHR 0x0A, CHR 0x0A] @
       ''ok refs/heads/main'' @ [CHR 0x0A, CHR 0x0A] \<and>
     visible demo_ext (Some ''repo'') demo_main (mock_view t) = {demo_bundle CHR ''a''}"
proof -
  have i: "pi_env (demo_input spec) = demo_env" "pi_now (demo_input spec) = 9" "pi_tomb_now (demo_input spec) = 9"
    "pi_uuid (demo_input spec) = ''u''" for spec
    by (simp_all add: demo_input_def)
  have config: "pc_zip (session_config demo_session) = pc_zip demo_config"
    by (simp add: session_config_def demo_config_def default_flags_def)
  have ready: "push_ready demo_ext (Some ''repo'') demo_env (session_config demo_session) (demo_push False ''main'')
      (mock_view (demo_pushed CHR ''b'')) demo_case"
    using demo_push_ready unfolding push_ready_def config .
  have free: "\<not> lock_live (mock_view (demo_pushed CHR ''b''))
      (lock_key (Some ''repo'') (ps_remote_ref (demo_push False ''main''))) ttl 9" for ttl
    by (simp add: lock_live_def demo_pushed_def)
  let ?a = "show_push_spec (demo_push False ''main'')" and ?i = "demo_input (demo_push False ''main'')"
  have "bundle_key (Some ''repo'') demo_main (lg_local_sha (pk_local demo_case)) \<notin> hidden demo_ext (Some ''repo'') (mock_view (demo_pushed CHR ''b''))"
    by (simp add: demo_push_facts(1))
  note session = push_session_commits [of "demo_pushed CHR ''b''" demo_ext demo_session fresh_writer ?a "demo_push False ''main''" ?i
      "Some ''repo''" demo_case, OF _ _ _ _ demo_refspecs(3,1), unfolded i demo_session_sel demo_push_sel fresh_writer_sel append_Nil,
      OF demo_worlds(1) _ refl refl refl refl ready _ free [unfolded demo_push_sel] demo_push_facts(3) demo_push_facts(4) this]
  obtain es t r w where run: "run_session demo_session demo_ext mock_store (\<lambda>_ s. s)
       [Inr ''capabilities'', Inr ''list for-push'', Inr (''push '' @ ?a), Inr []] (demo_pushed CHR ''b'', empty_receiver, fresh_writer) = (Inr (), (t, r, w))"
    "engine_lists demo_ext (Some ''repo'') BundleEngine (mock_view (demo_pushed CHR ''b'')) es"
    "wr_text w = BASE_CAPABILITIES @ [CHR 0x0A] @ list_answer None es @ to_protocol_line (PushOk demo_main) @ [CHR 0x0A]"
    "visible demo_ext (Some ''repo'') demo_main (mock_view t) = {bundle_key (Some ''repo'') demo_main (lg_local_sha (pk_local demo_case))}"
    using session [of "\<lambda>_ s. s" empty_receiver] by (auto simp: listable_def utf8_valid_ascii simp del: run_lines.simps)
  have "es = [\<lparr>lr_sha = demo_sha CHR ''b'', lr_ref_path = demo_main\<rparr>]"
    using run(2) by (intro only_entry) (simp_all add: engine_lists_def demo_advertised)
  with run(1,3,4) show ?thesis
    by (simp add: list_answer_def head_line_def list_line_def demo_main_def demo_case_def)
qed

end
