(* ===== verification/Compact.thy ===== *)
theory Compact
  imports Packchain_Push Ref_Fetch
begin

text \<open>
  Compaction of a chain, \<open>src/packchain/compact.rs\<close>: under the ref's lock the segments and the
  baseline of the chain are installed in a scratch repository, packed again as one baseline
  pack, and the chain is replaced by one segment with the same tip.

  The scratch repository is a \<open>receiver\<close> that starts empty and is dropped at the end. What gix
  makes of it is the record \<open>compact_env\<close>: \<open>receiver_lib\<close> for the installations, and, for the
  packs installed by then, the packing library and the repository \<open>bundle::create\<close> opens.
\<close>

record compact_env =
  ce_scratch :: "io_error option"
  ce_init :: "string option"
  ce_receiver_lib :: receiver_lib
  ce_pack_lib :: "string list \<Rightarrow> pack_library"
  ce_bundle_repo :: "string list \<Rightarrow> bundle_error + git_repo"
  ce_build :: build_io
  ce_read_pack :: "store_error option"
  ce_read_idx :: "store_error option"
  ce_read_bundle :: "store_error option"

record compact_opts =
  co_force :: bool
  co_lock_ttl :: int

datatype compact_action = Compacted | SkippedUnderThreshold | AlreadyMinimal | LockContended

record compact_outcome =
  cp_action :: compact_action
  cp_ref_path :: string
  cp_prior_segments :: nat
  cp_prior_bytes :: nat
  cp_new_pack_sha :: "string option"
  cp_new_pack_bytes :: nat

definition COMPACT_SEGMENTS_THRESHOLD :: nat where
  "COMPACT_SEGMENTS_THRESHOLD = 20"

definition COMPACT_BYTES_THRESHOLD :: nat where
  "COMPACT_BYTES_THRESHOLD = 100 * 1024 * 1024"

definition total_bytes :: "chain_segment list \<Rightarrow> nat" where
  "total_bytes segments = fold (\<lambda>s acc. saturating_add acc (seg_bytes s)) segments 0"

subsection \<open>The scratch repository\<close>

definition scratch_repo :: receiver where
  "scratch_repo = \<lparr>rc_packs = [], rc_shallow = None, rc_fetched = [], rc_boundaries = []\<rparr>"

definition in_scratch :: "('s \<times> receiver, 'e, 'a) io \<Rightarrow> ('s, 'e, 'a) io" where
  "in_scratch m = (\<lambda>s. let (res, (s', _)) = m (s, scratch_repo) in (res, s'))"

definition set_up_scratch :: "compact_env \<Rightarrow> ('t, packchain_error, unit) io" where
  "set_up_scratch env =
     (case ce_scratch env of
        Some e \<Rightarrow> fail_with (PackIo (io_text e))
      | None \<Rightarrow> (case ce_init env of Some e \<Rightarrow> fail_with (PackIo e) | None \<Rightarrow> ok ()))"

text \<open>The downloads: the file of the download directory and the key.\<close>

fun chain_downloads :: "string option \<Rightarrow> chain_segment list \<Rightarrow> packchain_error + (string \<times> string) list" where
  "chain_downloads pfx [] = Inr []"
| "chain_downloads pfx (segment # segments) =
     (case segment_pack_sha segment of
        Inl e \<Rightarrow> Inl e
      | Inr _ \<Rightarrow>
          (case chain_downloads pfx segments of
             Inl e \<Rightarrow> Inl e
           | Inr tasks \<Rightarrow>
               Inr ((seg_sha segment @ ''.pack'', pack_key_from_relative pfx (seg_pack segment)) # tasks)))"

definition download_chain_artefacts ::
    "'s store_api \<Rightarrow> store_error option \<Rightarrow> string option \<Rightarrow> string \<Rightarrow> chain_manifest \<Rightarrow>
     ('s, packchain_error, (string \<times> string) list) io" where
  "download_chain_artefacts st failure pfx ref_name chain =
     and_then (of_result (chain_downloads pfx (cm_segments chain))) (\<lambda>tasks.
     fold_io
       (\<lambda>files (dest, key).
          and_then (map_err PackStore (st_get_to_file st key failure)) (\<lambda>bytes.
          ok (AList.update dest bytes files)))
       [] (tasks @ [(cm_full_at chain @ ''.bundle'', bundle_key pfx ref_name (cm_full_at chain))]))"

definition downloaded :: "(string \<times> string) list \<Rightarrow> string \<Rightarrow> string" where
  "downloaded files name = (case map_of files name of Some bytes \<Rightarrow> bytes | None \<Rightarrow> [])"

text \<open>Installing fails with one of the first three errors only.\<close>

definition install_error :: "fetch_error \<Rightarrow> packchain_error" where
  "install_error e =
     (case e of
        FetchPackchain p \<Rightarrow> p
      | FetchGit g \<Rightarrow> PackGit g
      | FetchIo io \<Rightarrow> PackIo (io_text io)
      | FetchParse line \<Rightarrow> PackIo (''invalid fetch command '' @ line)
      | FetchSha _ \<Rightarrow> PackIo ''invalid SHA in fetch command''
      | FetchRef r \<Rightarrow> PackIo (''invalid ref in fetch command: '' @ r)
      | FetchStore s \<Rightarrow> PackIo (''object-store error during fetch: '' @ store_error_display s))"

definition install_chain_into_repo ::
    "compact_env \<Rightarrow> ext \<Rightarrow> (string \<times> string) list \<Rightarrow> chain_manifest \<Rightarrow>
     ('s \<times> receiver, packchain_error, unit) io" where
  "install_chain_into_repo env x files chain =
     and_then (map_err install_error
       (unbundle_at (ce_receiver_lib env) x (downloaded files (cm_full_at chain @ ''.bundle'')))) (\<lambda>_.
     fold_io
       (\<lambda>_ segment. map_err install_error
          (install_pack (ce_receiver_lib env) (downloaded files (seg_sha segment @ ''.pack''))))
       () (rev (cm_segments chain)))"

text \<open>What is built from the scratch repository: the pack, the path index and the bundle.\<close>

definition rebuild ::
    "compact_env \<Rightarrow> string list \<Rightarrow> string \<Rightarrow> packchain_error + (built_pack \<times> path_index option \<times> string)" where
  "rebuild env packs tip =
     bind_result (map_error PackGit (rl_open (ce_receiver_lib env) packs)) (\<lambda>repo.
     bind_result (map_error PackGit (peel repo tip)) (\<lambda>peeled.
     bind_result (returned (build_baseline_pack (ce_pack_lib env packs) (ce_build env) peeled)) (\<lambda>new_pack.
     bind_result (returned (extract_path_index (pl_trees (ce_pack_lib env packs)) peeled tip)) (\<lambda>index.
     bind_result
       (map_error (\<lambda>e. PackGit (BundleError (bundle_error_display e)))
         (returned (create_bundle (ce_bundle_repo env packs) (ce_pack_lib env packs) tip tip)))
       (\<lambda>bundle. Inr (new_pack, index, bundle))))))"

definition rebuild_in_scratch ::
    "compact_env \<Rightarrow> string \<Rightarrow> ('s \<times> receiver, packchain_error, built_pack \<times> path_index option \<times> string) io" where
  "rebuild_in_scratch env tip = on_receiver (\<lambda>r. (rebuild env (rc_packs r) tip, r))"

subsection \<open>Under the lock\<close>

definition upload_pack_and_idx ::
    "'s store_api \<Rightarrow> compact_env \<Rightarrow> string \<Rightarrow> string \<Rightarrow> built_pack \<Rightarrow> ('s, packchain_error, unit) io" where
  "upload_pack_and_idx st env pkey ikey pack =
     and_then (map_err PackStore (st_put_path st pkey (file_source (ce_read_pack env) (bp_pack pack)) default_put_opts)) (\<lambda>_.
     map_err PackStore (st_put_path st ikey (file_source (ce_read_idx env) (bp_idx pack)) default_put_opts))"

definition upload_bundle ::
    "'s store_api \<Rightarrow> compact_env \<Rightarrow> string \<Rightarrow> string \<Rightarrow> ('s, packchain_error, unit) io" where
  "upload_bundle st env key bundle_bytes =
     map_err PackStore (st_put_path st key (file_source (ce_read_bundle env) bundle_bytes) default_put_opts)"

definition tombstone_prior_baseline_bundle ::
    "ext \<Rightarrow> 's store_api \<Rightarrow> string option \<Rightarrow> string \<Rightarrow> string \<Rightarrow> string \<Rightarrow> int \<Rightarrow> string \<Rightarrow> ('s, 'e, unit) io" where
  "tombstone_prior_baseline_bundle x st pfx ref_name prior_full_sha current_full_sha now uuid =
     and_then (write_baseline_tombstone_best_effort x st pfx ref_name prior_full_sha current_full_sha now uuid)
       (\<lambda>_. ok ())"

definition compacted_chain :: "chain_manifest \<Rightarrow> built_pack \<Rightarrow> chain_manifest" where
  "compacted_chain chain new_pack =
     \<lparr>cm_v = CHAIN_SCHEMA_VERSION, cm_tip = cm_tip chain, cm_full_at = cm_tip chain,
      cm_segments = [\<lparr>seg_sha = cm_tip chain, seg_parent_sha = None,
        seg_pack = pack_key None (bp_content_sha new_pack), seg_bytes = bp_bytes new_pack\<rparr>]\<rparr>"

definition replace_chain ::
    "ext \<Rightarrow> 's store_api \<Rightarrow> string option \<Rightarrow> compact_env \<Rightarrow> string \<Rightarrow> chain_manifest \<Rightarrow>
     built_pack \<times> path_index option \<times> string \<Rightarrow> int \<Rightarrow> string \<Rightarrow> ('s, packchain_error, string \<times> nat) io" where
  "replace_chain x st pfx env ref_name chain built now uuid =
     (let (new_pack, path_index, bundle_bytes) = built;
          content_sha = bp_content_sha new_pack in
      and_then (upload_pack_and_idx st env (pack_key pfx content_sha) (pack_idx_key pfx content_sha) new_pack) (\<lambda>_.
      and_then (upload_bundle st env (bundle_key pfx ref_name (cm_tip chain)) bundle_bytes) (\<lambda>_.
      and_then (write_chain x st pfx ref_name (compacted_chain chain new_pack)) (\<lambda>_.
      and_then (case path_index of Some index \<Rightarrow> write_path_index x st pfx ref_name index | None \<Rightarrow> ok ()) (\<lambda>_.
      and_then (tombstone_prior_baseline_bundle x st pfx ref_name (cm_full_at chain) (cm_tip chain) now uuid) (\<lambda>_.
      ok (content_sha, bp_bytes new_pack)))))))"

definition compact_under_lock ::
    "ext \<Rightarrow> 's store_api \<Rightarrow> string option \<Rightarrow> compact_env \<Rightarrow> string \<Rightarrow> int \<Rightarrow> string \<Rightarrow>
     ('s, packchain_error, string \<times> nat) io" where
  "compact_under_lock x st pfx env ref_name now uuid =
     and_then (load_chain x st pfx ref_name) (\<lambda>loaded.
     case loaded of
       None \<Rightarrow> fail_with (ChainAbsent ref_name)
     | Some chain \<Rightarrow>
         and_then (set_up_scratch env) (\<lambda>_.
         and_then (download_chain_artefacts st (rl_download (ce_receiver_lib env)) pfx ref_name chain) (\<lambda>files.
         and_then
           (in_scratch
             (and_then (install_chain_into_repo env x files chain) (\<lambda>_. rebuild_in_scratch env (cm_tip chain)))) (\<lambda>built.
         replace_chain x st pfx env ref_name chain built now uuid))))"

definition compact ::
    "ext \<Rightarrow> 's store_api \<Rightarrow> string option \<Rightarrow> compact_env \<Rightarrow> string \<Rightarrow> compact_opts \<Rightarrow> int \<Rightarrow> int \<Rightarrow> string \<Rightarrow>
     ('s, packchain_error, compact_outcome) io" where
  "compact x st pfx env ref_name opts now tomb_now uuid =
     and_then (load_chain x st pfx ref_name) (\<lambda>loaded.
     case loaded of
       None \<Rightarrow> fail_with (ChainAbsent ref_name)
     | Some prior \<Rightarrow>
         (let prior_segments = length (cm_segments prior);
              prior_bytes = total_bytes (cm_segments prior);
              outcome = (\<lambda>action. \<lparr>cp_action = action, cp_ref_path = ref_name, cp_prior_segments = prior_segments,
                cp_prior_bytes = prior_bytes, cp_new_pack_sha = None, cp_new_pack_bytes = 0\<rparr>) in
          if prior_segments = 1 \<and> cm_tip prior = cm_full_at prior then ok (outcome AlreadyMinimal)
          else if \<not> co_force opts \<and> prior_segments \<le> COMPACT_SEGMENTS_THRESHOLD \<and>
              prior_bytes \<le> COMPACT_BYTES_THRESHOLD then ok (outcome SkippedUnderThreshold)
          else
            and_then (map_err PackStore (acquire_lock st (lock_key pfx ref_name) (co_lock_ttl opts) now)) (\<lambda>acquired.
            case acquired of
              None \<Rightarrow> ok (outcome LockContended)
            | Some guard \<Rightarrow>
                match_io (compact_under_lock x st pfx env ref_name tomb_now uuid)
                  (\<lambda>e. match_io (release_lock st guard) (\<lambda>_. fail_with e) (\<lambda>_. fail_with e))
                  (\<lambda>(sha, bytes). and_then (release_lock_or_warn st guard) (\<lambda>_.
                     ok ((outcome Compacted)\<lparr>cp_new_pack_sha := Some sha, cp_new_pack_bytes := bytes\<rparr>))))))"

end
