(* ===== verification/Compact_Proofs.thy ===== *)
theory Compact_Proofs
  imports Compact Packchain_Properties Ref_Fetch_Proofs
begin

text \<open>
  Compaction never moves a ref: whatever fails, the chain keeps its tip and its packs, and the
  chains of the other refs are left alone. On a quiet store it succeeds.
\<close>

subsection \<open>Steps\<close>

text \<open>
  \<open>chain_replaced\<close>: after harmless steps that stored the new pack and its index the manifest of
  the compacted chain was written, and harmless steps followed.
\<close>

definition chain_replaced ::
    "ext \<Rightarrow> string option \<Rightarrow> string \<Rightarrow> chain_manifest \<Rightarrow> built_pack \<Rightarrow> bucket \<Rightarrow> bucket \<Rightarrow> bool" where
  "chain_replaced x pfx r c p v v' \<longleftrightarrow>
     (\<exists>u w. harmless False pfx v u \<and> u (pack_key pfx (bp_content_sha p)) \<noteq> None \<and>
        u (pack_idx_key pfx (bp_content_sha p)) \<noteq> None \<and>
        wrote (chain_key pfx r) (chain_to_json_pretty x (compacted_chain c p)) u w \<and> harmless False pfx w v')"

lemma chain_replaced_before:
  "harmless False pfx v u \<Longrightarrow> chain_replaced x pfx r c p u v' \<Longrightarrow> chain_replaced x pfx r c p v v'"
  unfolding chain_replaced_def by (meson harmless_trans)

lemma chain_replaced_after:
  "chain_replaced x pfx r c p v u \<Longrightarrow> harmless False pfx u v' \<Longrightarrow> chain_replaced x pfx r c p v v'"
  unfolding chain_replaced_def by (meson harmless_trans)

lemma compacted_packs:
  assumes "is_valid_bundle_stem (bp_content_sha p)" "v (pack_key pfx (bp_content_sha p)) \<noteq> None"
    "v (pack_idx_key pfx (bp_content_sha p)) \<noteq> None"
  shows "packs_present pfx v (cm_segments (compacted_chain c p))"
  using assms by (simp add: packs_present_def compacted_chain_def sha_from_pack_key_pack_key)

lemma chain_replaced_intact:
  assumes "chain_replaced x pfx r c p v v'" "is_valid_bundle_stem (bp_content_sha p)" "intact x pfx v" "chains_print x"
  shows "intact x pfx v'"
proof -
  from assms(1) obtain u w where u: "harmless False pfx v u" "u (pack_key pfx (bp_content_sha p)) \<noteq> None"
    "u (pack_idx_key pfx (bp_content_sha p)) \<noteq> None" "harmless False pfx w v'"
    "wrote (chain_key pfx r) (chain_to_json_pretty x (compacted_chain c p)) u w"
    unfolding chain_replaced_def by blast
  have "intact x pfx w"
    using assms(4) unfolding chains_print_def
    by (intro intact_write_chain [OF harmless_intact [OF u(1) assms(3)] u(5)] compacted_packs [OF assms(2) u(2,3)]) simp
  with u(4) show ?thesis by (rule harmless_intact)
qed

lemma chain_replaced_chain:
  assumes "prefix ''refs/'' r" "chains_print x" "chain_replaced x pfx r c p v v'"
    and "is_valid_bundle_stem (cm_tip c)" "bp_bytes p < 2 ^ 64"
  shows "chain_at x v' (chain_key pfx r) = Some (compacted_chain c p)"
proof -
  let ?k = "chain_key pfx r" and ?c = "compacted_chain c p"
  from assms(3) obtain u w where w: "harmless False pfx w v'" "wrote ?k (chain_to_json_pretty x ?c) u w"
    unfolding chain_replaced_def by blast
  have "v' ?k = w ?k" using w(1) chain_slot_ref [OF assms(1)] by (simp add: harmless_def)
  moreover obtain m where "w ?k = Some (chain_to_json_pretty x ?c, m)" using w(2) by (auto simp: wrote_def)
  moreover have "chain_typed ?c" "cm_v ?c = CHAIN_SCHEMA_VERSION"
    using assms(4,5) by (simp_all add: compacted_chain_def chain_typed_def segment_wf_def CHAIN_SCHEMA_VERSION_def)
  ultimately show ?thesis
    using assms(2) chain_bytes_roundtrip [of x ?c] by (simp add: chain_at_Some chains_print_def json_ok_def)
qed

text \<open>The chains of other refs.\<close>

lemma chain_replaced_other:
  assumes "chain_replaced x pfx r c p v v'" "chain_slot (prefix_str pfx) k" "k \<noteq> chain_key pfx r"
  shows "v' k = v k"
proof -
  from assms(1) obtain u w where "harmless False pfx v u" "harmless False pfx w v'"
    "wrote (chain_key pfx r) (chain_to_json_pretty x (compacted_chain c p)) u w"
    unfolding chain_replaced_def by blast
  with assms(2,3) show ?thesis by (auto simp: harmless_def wrote_def)
qed

text \<open>
  What compaction relies on: the walks over the scratch repository return, and a pack's length
  fits its 64 bits.
\<close>

definition scratch_typed :: "compact_env \<Rightarrow> bool" where
  "scratch_typed env \<longleftrightarrow> (\<forall>packs.
     (\<forall>tree. enumerate_tree_closure (pl_trees (ce_pack_lib env packs)) tree \<noteq> None) \<and>
     (\<forall>ids pack. pl_pack (ce_pack_lib env packs) ids = Inr pack \<longrightarrow> length pack < 2 ^ 64))"

definition good_pack :: "built_pack \<Rightarrow> bool" where
  "good_pack p \<longleftrightarrow> is_valid_bundle_stem (bp_content_sha p) \<and> bp_bytes p < 2 ^ 64"

lemma rebuild_good:
  assumes "scratch_typed env" "rebuild env packs tip = Inr (p, index, b)"
  shows "good_pack p"
proof -
  from assms(2) obtain peeled where p: "returned (build_baseline_pack (ce_pack_lib env packs) (ce_build env) peeled) = Inr p"
    by (auto simp: rebuild_def)
  have walk: "\<exists>closure. enumerate_tree_closure (pl_trees (ce_pack_lib env packs)) tree = Some closure" for tree
    using assms(1) by (auto simp: scratch_typed_def)
  have "\<exists>ids ex tags. build_pack (ce_pack_lib env packs) (ce_build env) ids ex tags = Inr p"
  proof (cases "open_repo (ce_build env)")
    case (Inr _)
    with p show ?thesis
    proof (cases peeled)
      case (PeeledTree tree tags)
      with walk [of tree] p Inr show ?thesis by (auto simp: build_baseline_pack_def; blast)
    qed (auto simp: build_baseline_pack_def)
  qed (use p in \<open>simp add: build_baseline_pack_def\<close>)
  with assms(1) show ?thesis
    by (auto simp: good_pack_def scratch_typed_def dest!: build_pack_valid)
qed

context store_contract
begin

text \<open>Downloading and rebuilding leave the bucket alone.\<close>

lemma download_same: "keeps (frame view {}) (download_chain_artefacts st failure pfx r c)"
  unfolding download_chain_artefacts_def
  by (intro keeps_intros frame_refl frame_trans keeps_fold_io) (auto intro!: keeps_intros split: prod.split)

end

lemma wp_in_scratch:
  "wp m (\<lambda>a q. Q a (fst q)) (\<lambda>e q. E e (fst q)) (s, scratch_repo) \<Longrightarrow> wp (in_scratch m) Q E s"
  by (auto simp: wp_def in_scratch_def split: prod.splits sum.splits)

text \<open>What happens in the scratch repository is no step of the store.\<close>

lemma wp_receiver_only:
  assumes "\<And>a r'. fst (f (snd p)) = Inr a \<Longrightarrow> r' = snd (f (snd p)) \<Longrightarrow> Q a (fst p, r')"
    "\<And>e r'. fst (f (snd p)) = Inl e \<Longrightarrow> r' = snd (f (snd p)) \<Longrightarrow> E e (fst p, r')"
  shows "wp (on_receiver f) Q E p"
  using assms by (cases p; cases "f (snd p)"; cases "fst (f (snd p))") (auto simp: wp_def on_receiver_def)

definition stays :: "('s \<times> receiver, 'e, 'a) io \<Rightarrow> bool" where
  "stays m \<longleftrightarrow> keeps (\<lambda>p q. fst q = fst p) m"

lemma same_store [simp]: "reflp (\<lambda>p q. fst q = fst p)" "transp (\<lambda>p q. fst q = fst p)"
  by (auto simp: reflp_def transp_def)

lemma stays_intros:
  "stays (on_receiver f)" "stays m \<Longrightarrow> (\<And>a. stays (g a)) \<Longrightarrow> stays (and_then m g)"
  "stays m \<Longrightarrow> stays (map_err h m)" "(\<And>acc y. stays (k acc y)) \<Longrightarrow> stays (fold_io k acc0 ys)"
proof -
  show "stays (on_receiver f)" by (simp add: stays_def keeps_def on_receiver_def split: prod.split)
qed (auto simp: stays_def intro!: keeps_and_then keeps_map_err keeps_fold_io)

lemma stays_installing: "stays (install_chain_into_repo env x files c)" "stays (rebuild_in_scratch env tip)"
  by (auto simp: install_chain_into_repo_def rebuild_in_scratch_def unbundle_at_def install_pack_def
      intro!: stays_intros)

text \<open>The rebuilt files come from some set of installed packs.\<close>

lemma wp_rebuilt:
  fixes s :: 's
  assumes "\<And>packs built. rebuild env packs (cm_tip c) = Inr built \<Longrightarrow> Q built s" "\<And>e. E e s"
  shows "wp (in_scratch (and_then (install_chain_into_repo env x files c) (\<lambda>_. rebuild_in_scratch env (cm_tip c)))) Q E s"
proof (rule wp_in_scratch, rule wp_and_then, rule wpI, goal_cases)
  case (1 a q)
  then have q: "fst q = s" using stays_installing(1) [of env x files c] by (auto simp: stays_def dest: keepsD)
  show ?case
    unfolding rebuild_in_scratch_def
    by (rule wp_receiver_only) (use assms q in auto)
next
  case (2 e q)
  then have "fst q = s" using stays_installing(1) [of env x files c] by (auto simp: stays_def dest: keepsD)
  with assms(2) show ?case by simp
qed

context store_contract
begin

text \<open>The uploads, the manifest and what follows it.\<close>

lemma replace_chain_steps:
  assumes "prefix ''refs/'' r"
  shows "wp (replace_chain x st pfx env r c (p, index, b) now uuid)
    (\<lambda>out t. out = (bp_content_sha p, bp_bytes p) \<and> chain_replaced x pfx r c p (view s) (view t))
    (\<lambda>_ t. harmless False pfx (view s) (view t) \<or> chain_replaced x pfx r c p (view s) (view t)) s"
proof -
  let ?H = "harmless False pfx" and ?R = "harmless_step False pfx view"
  note step = harmless_step_refl harmless_step_trans
  have after: "wp m (\<lambda>_ t. ?H w (view t)) (\<lambda>_ t. ?H w (view t)) u"
    if "keeps ?R m" "?H w (view u)" for m :: "('s, 'e, 'b) io" and w u
    by (rule wpI) (use that in \<open>auto dest!: keepsD simp: harmless_step_def intro: harmless_trans\<close>)
  have put: "?H v v'" if "wrote k body v v'" "\<not> is_chain_json_key k" for k body v v'
    using that by (intro harmless_put not_slot_json)
  have upload: "wp (upload_pack_and_idx st env (pack_key pfx (bp_content_sha p)) (pack_idx_key pfx (bp_content_sha p)) p)
      (\<lambda>_ t. ?H (view s) (view t) \<and> view t (pack_key pfx (bp_content_sha p)) \<noteq> None \<and>
         view t (pack_idx_key pfx (bp_content_sha p)) \<noteq> None) (\<lambda>_ t. ?H (view s) (view t)) s"
    unfolding upload_pack_and_idx_def
  proof (intro wp_and_then wp_map_err wp_st_put_path, goal_cases)
    case (1 body t body' u)
    then have "?H (view s) (view t)" "?H (view t) (view u)" by (auto intro: put not_chain_json)
    with 1 show ?case by (auto simp: wrote_def intro: harmless_trans)
  next
    case (2 body t e u)
    then have "?H (view s) (view t)" "?H (view t) (view u)" by (auto intro: put not_chain_json)
    then show ?case by (rule harmless_trans)
  next
    case (3 e t)
    then show ?case by (auto intro: put not_chain_json)
  qed
  have baseline: "keeps ?R (upload_bundle st env (bundle_key pfx r (cm_tip c)) b)"
    unfolding upload_bundle_def by (intro keeps_intros step not_slot_json not_chain_json)
  have index: "keeps ?R (case index of Some i \<Rightarrow> write_path_index x st pfx r i | None \<Rightarrow> ok ())"
    by (intro keeps_intros step)
  have tombstone: "keeps ?R (tombstone_prior_baseline_bundle x st pfx r (cm_full_at c) (cm_tip c) now uuid)"
    unfolding tombstone_prior_baseline_bundle_def by (intro keeps_intros step)
  have commit: "wp (and_then (write_chain x st pfx r (compacted_chain c p)) (\<lambda>_.
      and_then (case index of Some i \<Rightarrow> write_path_index x st pfx r i | None \<Rightarrow> ok ()) (\<lambda>_.
      and_then (tombstone_prior_baseline_bundle x st pfx r (cm_full_at c) (cm_tip c) now uuid) (\<lambda>_.
      ok (bp_content_sha p, bp_bytes p)))))
    (\<lambda>out t. out = (bp_content_sha p, bp_bytes p) \<and> chain_replaced x pfx r c p (view s) (view t))
    (\<lambda>_ t. ?H (view s) (view t) \<or> chain_replaced x pfx r c p (view s) (view t)) u"
    if u: "?H (view s) (view u)" "view u (pack_key pfx (bp_content_sha p)) \<noteq> None"
      "view u (pack_idx_key pfx (bp_content_sha p)) \<noteq> None" for u
  proof (rule wp_and_then, rule wp_write_chain, goal_cases)
    case (1 w)
    with u have w: "chain_replaced x pfx r c p (view s) (view w)"
      unfolding chain_replaced_def by (intro exI [of _ "view u"] exI [of _ "view w"]) simp
    show ?case
      by (rule wp_and_then, rule wp_mono [OF after [OF index harmless_refl]],
          rule wp_and_then, rule wp_mono [OF after [OF tombstone harmless_refl]])
        (auto intro!: wp_ok intro: chain_replaced_after [OF w] harmless_trans)
  next
    case (2 e w)
    with u show ?case unfolding chain_replaced_def by (metis harmless_refl)
  qed
  show ?thesis
    unfolding replace_chain_def prod.case Let_def
  proof (rule wp_and_then, rule wp_mono [OF upload], goal_cases)
    case (1 a t)
    show ?case
      by (rule wp_and_then, rule wp_mono [OF after [OF baseline harmless_refl]], rule commit)
        (use 1 in \<open>auto simp: harmless_def intro: harmless_trans\<close>)
  qed auto
qed

text \<open>
  What compaction does to the bucket as a whole: nothing but harmless steps, or the chain that was
  there is replaced.
\<close>

lemma compact_under_lock_steps:
  assumes "prefix ''refs/'' r" "scratch_typed env"
  shows "wp (compact_under_lock x st pfx env r now uuid)
    (\<lambda>out t. \<exists>c p. chain_at x (view s) (chain_key pfx r) = Some c \<and> good_pack p \<and> out = (bp_content_sha p, bp_bytes p) \<and>
       chain_replaced x pfx r c p (view s) (view t))
    (\<lambda>_ t. harmless False pfx (view s) (view t) \<or> (\<exists>c p. chain_at x (view s) (chain_key pfx r) = Some c \<and> good_pack p \<and>
       chain_replaced x pfx r c p (view s) (view t))) s"
  unfolding compact_under_lock_def
proof (rule wp_and_then, rule wp_load_chain, goal_cases)
  case (1 loaded t)
  show ?case
  proof (cases loaded)
    case None
    with 1 show ?thesis by (simp add: wp_fail)
  next
    case (Some c)
    define key where "key = chain_key pfx r"
    define Q where "Q out t \<longleftrightarrow> (\<exists>c p. chain_at x (view s) key = Some c \<and> good_pack p \<and> out = (bp_content_sha p, bp_bytes p) \<and>
       chain_replaced x pfx r c p (view s) (view t))" for out t
    define E where "E t \<longleftrightarrow> harmless False pfx (view s) (view t) \<or> (\<exists>c p. chain_at x (view s) key = Some c \<and> good_pack p \<and>
       chain_replaced x pfx r c p (view s) (view t))" for t
    have c: "chain_at x (view s) key = Some c" using 1 Some by (simp add: key_def)
    have same: "E u" if "view u = view s" for u using that by (simp add: E_def)
    have last_step: "wp (replace_chain x st pfx env r c built now uuid) Q (\<lambda>_. E) u"
      if "rebuild env packs (cm_tip c) = Inr built" "view u = view s" for packs built u
    proof -
      obtain p index b where built: "built = (p, index, b)" by (cases built)
      have p: "good_pack p" using rebuild_good [OF assms(2)] that(1) built by blast
      show ?thesis
        unfolding built
        by (rule wp_mono [OF replace_chain_steps [OF assms(1)]]) (use that(2) c p in \<open>auto simp: Q_def E_def\<close>)
    qed
    have down: "wp (download_chain_artefacts st f pfx r c) (\<lambda>_ u. view u = view s) (\<lambda>_ u. view u = view s) u"
      if "view u = view s" for f u
      by (rule wpI) (use keepsD [OF download_same] that in \<open>auto simp: frame_def\<close>)
    have scratch: "wp (set_up_scratch env) (\<lambda>_ u. view u = view s) (\<lambda>_ u. view u = view s) t"
      using 1 by (auto simp: set_up_scratch_def intro!: wp_ok wp_fail split: option.split)
    show ?thesis
      unfolding Some option.case key_def [symmetric] Q_def [symmetric] E_def [symmetric]
    proof (rule wp_and_then, rule wp_mono [OF scratch], rule wp_and_then, rule wp_mono [OF down], assumption, goal_cases)
      case (1 a u files w)
      show ?case
        by (rule wp_and_then, rule wp_rebuilt [where c = c]) (use 1 in \<open>auto intro: last_step same\<close>)
    qed (auto intro: same)
  qed
qed (simp add: harmless_def)

lemma compact_steps:
  fixes x :: ext
  assumes "prefix ''refs/'' r" "scratch_typed env"
  shows "wp (compact x st pfx env r opts now tomb_now uuid)
    (\<lambda>out t. if cp_action out = Compacted
       then \<exists>p. cp_new_pack_sha out = Some (bp_content_sha p) \<and> (\<exists>c. chain_at x (view s) (chain_key pfx r) = Some c \<and>
         good_pack p \<and> chain_replaced x pfx r c p (view s) (view t))
       else harmless False pfx (view s) (view t))
    (\<lambda>_ t. harmless False pfx (view s) (view t) \<or> (\<exists>p c. chain_at x (view s) (chain_key pfx r) = Some c \<and> good_pack p \<and>
       chain_replaced x pfx r c p (view s) (view t))) s"
proof -
  define key where "key = chain_key pfx r"
  define D where "D p t \<longleftrightarrow> (\<exists>c. chain_at x (view s) key = Some c \<and> good_pack p \<and> chain_replaced x pfx r c p (view s) (view t))" for p t
  define H where "H t \<longleftrightarrow> harmless False pfx (view s) (view t)" for t
  note release = harmless_release_lock [OF assms(1), where d = False and pfx = pfx]
    harmless_release_or_warn [OF assms(1), where d = False and pfx = pfx]
  have hs: "H u \<Longrightarrow> harmless_step False pfx view u t \<Longrightarrow> H t" for u t
    unfolding H_def harmless_step_def by (rule harmless_trans)
  have ds: "D p u \<Longrightarrow> harmless_step False pfx view u t \<Longrightarrow> D p t" for p u t
    unfolding D_def harmless_step_def by (meson chain_replaced_after)
  have after: "wp m (\<lambda>_. P) (\<lambda>_. P) u"
    if "keeps (harmless_step False pfx view) m" "P u" "P \<in> {H, D p, \<lambda>t. H t \<or> (\<exists>p. D p t)}"
    for m :: "('s, 'e, 'b) io" and P p u
  proof -
    have "P t" if "harmless_step False pfx view u t" for t
      using \<open>P \<in> _\<close>
    proof (elim insertE emptyE)
      assume "P = (\<lambda>t. H t \<or> (\<exists>p. D p t))"
      with \<open>P u\<close> that hs ds show "P t" by blast
    qed (use \<open>P u\<close> that hs ds in blast)+
    with that(1) show ?thesis by (intro wpI) (auto dest: keepsD)
  qed
  have work: "wp (compact_under_lock x st pfx env r tomb_now uuid)
      (\<lambda>out t. \<exists>p. out = (bp_content_sha p, bp_bytes p) \<and> D p t) (\<lambda>_ t. H t \<or> (\<exists>p. D p t)) u"
    if "frame view {lock_key pfx r} s u" for u
  proof -
    have h: "harmless False pfx (view s) (view u)" by (rule harmless_frame_lock [OF assms(1) that])
    have k: "chain_at x (view u) key = chain_at x (view s) key"
      using frameD [OF that, of key] by (simp add: chain_at_def key_def)
    show ?thesis
      by (rule wp_mono [OF compact_under_lock_steps [OF assms]])
        (use h k in \<open>auto simp: D_def H_def key_def intro: chain_replaced_before harmless_trans\<close>)
  qed
  show ?thesis
    unfolding compact_def Let_def key_def [symmetric] D_def [symmetric] H_def [symmetric]
  proof (rule wp_and_then, rule wp_load_chain, goal_cases)
    case (1 loaded t)
    have same: "H t" using 1 by (simp add: H_def)
    show ?case
    proof (cases loaded)
      case (Some prior)
      have locked: "frame view {lock_key pfx r} s u \<Longrightarrow> H u" for u
        unfolding H_def by (rule harmless_frame_lock [OF assms(1)])
      show ?thesis
        unfolding Some option.case
      proof (intro wp_if wp_ok wp_and_then wp_map_err wp_acquire_lock, goal_cases)
        case (3 g u)
        have u: "frame view {lock_key pfx r} s u" "g = None \<or> g = Some (lock_key pfx r)"
          using 3 1 by (auto simp: frame_def)
        then show ?case
        proof (cases g)
          case (Some guard)
          with u have g: "guard = lock_key pfx r" by simp
          have fails: "wp (match_io (release_lock st guard) (\<lambda>_. fail_with e) (\<lambda>_. fail_with e)) Q
              (\<lambda>_ t. H t \<or> (\<exists>p. D p t)) w" if "H w \<or> (\<exists>p. D p w)" for e :: packchain_error and w and Q :: "compact_outcome \<Rightarrow> _"
            unfolding g by (rule wp_match, rule wp_mono [OF after [of _ "\<lambda>t. H t \<or> (\<exists>p. D p t)", OF release(1) that]]) (auto intro: wp_fail)
          have ends: "wp (and_then (release_lock_or_warn st guard) (\<lambda>_. ok out)) (\<lambda>out t. out = out' \<and> D p t)
              (\<lambda>_ t. H t \<or> (\<exists>p. D p t)) w" if "D p w" "out = out'" for p w out out'
            unfolding g by (rule wp_and_then, rule wp_mono [OF after [of _ "D p", OF release(2) that(1)]]) (use that in \<open>auto intro: wp_ok\<close>)
          show ?thesis
            unfolding Some option.case
            by (rule wp_match, rule wp_mono [OF work [OF u(1)]])
              (auto intro!: fails wp_mono [OF ends [OF _ refl]])
        qed (auto intro!: wp_ok locked)
      qed (use same 1 locked in \<open>auto simp: frame_def\<close>)
    qed (use same in \<open>simp add: wp_fail\<close>)
  qed (simp add: H_def)
qed

end

subsection \<open>On a quiet store\<close>

lemma and_frame:
  assumes "wp m (\<lambda>_ t. C t) (\<lambda>_ _. False) s" "keeps (frame view K) m" "\<And>a t. C t \<Longrightarrow> frame view K s t \<Longrightarrow> Q a t"
  shows "wp m Q E s"
  using assms by (auto simp: wp_def dest!: keepsD split: prod.splits sum.splits)

text \<open>What the compacted chain leaves on the bucket.\<close>

definition compacted_at ::
    "ext \<Rightarrow> string option \<Rightarrow> string \<Rightarrow> chain_manifest \<Rightarrow> built_pack \<Rightarrow> string \<Rightarrow> bucket \<Rightarrow> bool" where
  "compacted_at x pfx r c p b v \<longleftrightarrow>
     chain_at x v (chain_key pfx r) = Some (compacted_chain c p) \<and>
     (\<exists>m. v (pack_key pfx (bp_content_sha p)) = Some (bp_pack p, m)) \<and>
     (\<exists>m. v (pack_idx_key pfx (bp_content_sha p)) = Some (bp_idx p, m)) \<and>
     (\<exists>m. v (bundle_key pfx r (cm_tip c)) = Some (b, m))"

lemma compact_keys:
  assumes "prefix ''refs/'' r"
  shows "pack_idx_key pfx h \<noteq> pack_key pfx h'" "bundle_key pfx r t \<noteq> pack_key pfx h" "bundle_key pfx r t \<noteq> pack_idx_key pfx h"
    "chain_key pfx r \<noteq> pack_key pfx h" "chain_key pfx r \<noteq> pack_idx_key pfx h" "chain_key pfx r \<noteq> bundle_key pfx r t"
    "path_index_key pfx r \<noteq> pack_key pfx h" "path_index_key pfx r \<noteq> pack_idx_key pfx h" "path_index_key pfx r \<noteq> bundle_key pfx r t"
    "path_index_key pfx r \<noteq> chain_key pfx r"
    "baseline_tombstone_key (prefix_str pfx) u \<noteq> pack_key pfx h" "baseline_tombstone_key (prefix_str pfx) u \<noteq> pack_idx_key pfx h"
    "baseline_tombstone_key (prefix_str pfx) u \<noteq> bundle_key pfx r t" "baseline_tombstone_key (prefix_str pfx) u \<noteq> chain_key pfx r"
    "lock_key pfx r \<noteq> pack_key pfx h" "lock_key pfx r \<noteq> pack_idx_key pfx h" "lock_key pfx r \<noteq> bundle_key pfx r t"
    "lock_key pfx r \<noteq> chain_key pfx r"
proof -
  show "pack_idx_key pfx h \<noteq> pack_key pfx h'" by (auto simp: builder_base dest!: arg_cong [of _ _ last])
qed (insert assms, simp_all add: builder_base ref_key_defs baseline_tombstone_key_def
    BASELINE_TOMBSTONE_KEY_FRAGMENT_def prefix_def, auto)

lemma compacted_at_frame:
  assumes "compacted_at x pfx r c p b (view s)" "frame view K s t"
    and "chain_key pfx r \<notin> K" "pack_key pfx (bp_content_sha p) \<notin> K" "pack_idx_key pfx (bp_content_sha p) \<notin> K"
      "bundle_key pfx r (cm_tip c) \<notin> K"
  shows "compacted_at x pfx r c p b (view t)"
  using assms(1) frameD [OF assms(2)] assms(3-6) by (simp add: compacted_at_def chain_at_def)

context calm_store
begin

lemma calm_replace_chain:
  assumes "calm s" "prefix ''refs/'' r" "chains_print x" "is_valid_bundle_stem (cm_tip c)" "bp_bytes p < 2 ^ 64"
    and env: "ce_read_pack env = None" "ce_read_idx env = None" "ce_read_bundle env = None"
  shows "wp (replace_chain x st pfx env r c (p, index, b) now uuid)
    (\<lambda>out t. calm t \<and> out = (bp_content_sha p, bp_bytes p) \<and> compacted_at x pfx r c p b (view t)) (\<lambda>_ _. False) s"
proof -
  note keys = compact_keys [OF assms(2)] compact_keys [OF assms(2), symmetric]
  have index: "wp (case index of Some i \<Rightarrow> write_path_index x st pfx r i | None \<Rightarrow> ok ()) (\<lambda>_. calm) (\<lambda>_ _. False) t" if "calm t" for t
    unfolding write_path_index_def using that by (intro wp_option wp_map_err calm_wp_put_bytes wp_ok)
  have index_frame: "keeps (frame view {path_index_key pfx r})
      (case index of Some i \<Rightarrow> write_path_index x st pfx r i | None \<Rightarrow> ok ())"
    unfolding write_path_index_def by (intro keeps_intros frame_refl frame_trans) simp_all
  have tomb: "wp (tombstone_prior_baseline_bundle x st pfx r (cm_full_at c) (cm_tip c) now uuid) (\<lambda>_. calm) (\<lambda>_ _. False) t"
    if "calm t" for t
    unfolding tombstone_prior_baseline_bundle_def write_baseline_tombstone_best_effort_def
      write_baseline_tombstone_def write_baseline_tombstone_unconditional_def Let_def
    using that by (auto intro!: wp_if wp_option wp_ok wp_and_then wp_match wp_of_result wp_map_err calm_wp_put_bytes)
  have tomb_frame: "keeps (frame view {baseline_tombstone_key (prefix_str pfx) uuid})
      (tombstone_prior_baseline_bundle x st pfx r (cm_full_at c) (cm_tip c) now uuid :: ('s, packchain_error, unit) io)"
    unfolding tombstone_prior_baseline_bundle_def by (intro keeps_intros frame_refl frame_trans) simp_all
  have typed: "chain_from_json_bytes x (chain_to_json_pretty x (compacted_chain c p)) = Inr (compacted_chain c p)"
    using assms(3-5) by (intro chain_bytes_roundtrip)
      (auto simp: chains_print_def json_ok_def compacted_chain_def chain_typed_def segment_wf_def CHAIN_SCHEMA_VERSION_def)
  show ?thesis
    unfolding replace_chain_def prod.case Let_def upload_pack_and_idx_def upload_bundle_def file_source_def env option.case
  proof (rule wp_and_then, rule wp_and_then, rule wp_map_err, rule calm_wp_put_path [OF assms(1)], rule wp_map_err,
      rule calm_wp_put_path, assumption, rule wp_and_then, rule wp_map_err, rule calm_wp_put_path, assumption,
      rule wp_and_then, rule calm_write_chain, assumption, goal_cases)
    case (1 s1 s2 s3 s4)
    have at: "compacted_at x pfx r c p b (view s4)"
      using 1 keys typed by (auto simp: compacted_at_def wrote_def chain_at_def)
    show ?case
    proof (rule wp_and_then, rule and_frame [OF index [OF 1(7)] index_frame], rule wp_and_then,
        rule and_frame [OF tomb tomb_frame], assumption, rule wp_ok, goal_cases)
      case (1 a s5 a' s6)
      then show ?case
        using compacted_at_frame [OF compacted_at_frame [OF at 1(2)] 1(4)] keys by auto
    qed
  qed
qed

end

subsection \<open>Downloading and installing\<close>

definition save_file :: "bucket \<Rightarrow> string \<times> string \<Rightarrow> (string \<times> string) list \<Rightarrow> (string \<times> string) list" where
  "save_file v task files = AList.update (fst task) (body_at v (snd task)) files"

lemma saved_other: "dest \<notin> fst ` set tasks \<Longrightarrow> map_of (fold (save_file v) tasks files) dest = map_of files dest"
  by (induction tasks arbitrary: files) (auto simp: save_file_def update_conv')

lemma saved_file:
  "distinct (map fst tasks) \<Longrightarrow> (dest, key) \<in> set tasks \<Longrightarrow> downloaded (fold (save_file v) tasks files) dest = body_at v key"
proof (induction tasks arbitrary: files)
  case (Cons task tasks)
  show ?case
  proof (cases "task = (dest, key)")
    case True
    moreover have "map_of (save_file v (dest, key) files) dest = Some (body_at v key)"
      by (simp add: save_file_def update_conv')
    ultimately show ?thesis
      using Cons.prems(1) saved_other [of dest tasks v "save_file v task files"] by (simp add: downloaded_def)
  qed (use Cons in auto)
qed simp

definition segment_task :: "string option \<Rightarrow> chain_segment \<Rightarrow> string \<times> string" where
  "segment_task pfx g = (seg_sha g @ ''.pack'', pack_key_from_relative pfx (seg_pack g))"

lemma canonical_chain_downloads:
  "canonical_packs gs \<Longrightarrow> chain_downloads pfx gs = Inr (map (segment_task pfx) gs)"
proof (induction gs)
  case (Cons g gs)
  then have "canonical_packs gs" by (simp add: canonical_packs_def)
  with Cons canonical_pack_sha [OF Cons.prems, of g] show ?case by (fastforce simp: segment_task_def)
qed simp

text \<open>The tasks of a chain have different files.\<close>

definition chain_tasks :: "string option \<Rightarrow> string \<Rightarrow> chain_manifest \<Rightarrow> (string \<times> string) list" where
  "chain_tasks pfx r c = map (segment_task pfx) (cm_segments c) @ [(cm_full_at c @ ''.bundle'', bundle_key pfx r (cm_full_at c))]"

lemma chain_tasks_distinct:
  assumes "distinct (map seg_sha (cm_segments c))"
  shows "distinct (map fst (chain_tasks pfx r c))"
proof -
  have "map fst (map (segment_task pfx) gs) = map (\<lambda>sha. sha @ ''.pack'') (map seg_sha gs)" for gs
    by (simp add: segment_task_def)
  moreover have "inj (\<lambda>sha. sha @ ''.pack'')" by (simp add: inj_def)
  ultimately have "distinct (map fst (map (segment_task pfx) (cm_segments c)))"
    using assms by (simp only: distinct_map) (auto intro: inj_on_subset)
  moreover have "sha @ ''.pack'' \<noteq> sha' @ ''.bundle''" for sha sha' by (auto dest: arg_cong [of _ _ last])
  ultimately show ?thesis by (auto simp: chain_tasks_def segment_task_def)
qed

text \<open>The files a working compaction has downloaded, and the packs it then has installed.\<close>

definition chain_files :: "string option \<Rightarrow> string \<Rightarrow> bucket \<Rightarrow> chain_manifest \<Rightarrow> (string \<times> string) list" where
  "chain_files pfx r v c = fold (save_file v) (chain_tasks pfx r c) []"

lemma chain_files:
  assumes "distinct (map seg_sha (cm_segments c))"
  shows "g \<in> set (cm_segments c) \<Longrightarrow>
      downloaded (chain_files pfx r v c) (seg_sha g @ ''.pack'') = body_at v (pack_key_from_relative pfx (seg_pack g))"
    and "downloaded (chain_files pfx r v c) (cm_full_at c @ ''.bundle'') = body_at v (bundle_key pfx r (cm_full_at c))"
  unfolding chain_files_def
  by (rule saved_file [OF chain_tasks_distinct [OF assms]]; force simp: chain_tasks_def segment_task_def)+

lemma working_install_chain:
  assumes L: "receiver_works (ce_receiver_lib env)" "distinct (map seg_sha (cm_segments c))"
    and "bundle_installs (ce_receiver_lib env) x (body_at v (bundle_key pfx r (cm_full_at c)))"
    and post: "\<And>q. installs p (pulled x pfx r v (cm_segments c) (Some (cm_full_at c))) q \<Longrightarrow> Q () q"
  shows "wp (install_chain_into_repo env x (chain_files pfx r v c) c) Q E p"
proof -
  let ?L = "ce_receiver_lib env" and ?files = "chain_files pfx r v c"
  let ?body = "\<lambda>g. body_at v (pack_key_from_relative pfx (seg_pack g))"
  have packs: "wp (fold_io (\<lambda>_ g. map_err install_error (install_pack ?L (downloaded ?files (seg_sha g @ ''.pack'')))) u gs) Q' E p'"
    if "set gs \<subseteq> set (cm_segments c)" "\<And>q. installs p' (map ?body gs) q \<Longrightarrow> Q' () q" for gs p' u Q'
    using that
  proof (induction gs arbitrary: p' u)
    case (Cons g gs)
    then have "downloaded ?files (seg_sha g @ ''.pack'') = ?body g" by (intro chain_files(1) [OF L(2)]) simp
    then show ?case
      unfolding fold_io.simps
      by (intro wp_and_then wp_map_err working_install_pack L(1) Cons.IH)
        (use Cons.prems in \<open>auto dest: installs_trans\<close>)
  qed (auto intro!: wp_ok simp: installs_def)
  show ?thesis
    unfolding install_chain_into_repo_def chain_files(2) [OF L(2)]
    by (intro wp_and_then wp_map_err working_unbundle_at L(1) assms(3) packs)
      (auto intro!: post simp: pulled_def dest: installs_trans)
qed

context calm_store
begin

lemma calm_save_files:
  assumes "calm s" "\<And>dest key. (dest, key) \<in> set tasks \<Longrightarrow> view s key \<noteq> None"
    and "\<And>t. calm t \<Longrightarrow> view t = view s \<Longrightarrow> Q (fold (save_file (view s)) tasks files) t"
  shows "wp (fold_io (\<lambda>files (dest, key). and_then (map_err PackStore (st_get_to_file st key None)) (\<lambda>bytes.
      ok (AList.update dest bytes files))) files tasks) Q E s"
  using assms
proof (induction tasks arbitrary: files s)
  case (Cons task tasks)
  obtain dest key where task: "task = (dest, key)" by fastforce
  with Cons.prems(2) obtain b m where b: "view s key = Some (b, m)" by fastforce
  show ?case
    unfolding task fold_io.simps prod.case
    by (intro wp_and_then wp_map_err calm_wp_get_to_file Cons.prems(1) wp_ok Cons.IH)
      (use b Cons.prems task in \<open>auto simp: save_file_def\<close>)
qed (auto intro!: wp_ok)

end

subsection \<open>Compaction on a quiet store\<close>

definition compact_ready ::
    "ext \<Rightarrow> string option \<Rightarrow> string \<Rightarrow> compact_env \<Rightarrow> bucket \<Rightarrow> chain_manifest \<Rightarrow> built_pack \<times> path_index option \<times> string \<Rightarrow> bool" where
  "compact_ready x pfx r env v c built \<longleftrightarrow>
     chain_at x v (chain_key pfx r) = Some c \<and> ce_scratch env = None \<and> ce_init env = None \<and>
     ce_read_pack env = None \<and> ce_read_idx env = None \<and> ce_read_bundle env = None \<and>
     receiver_works (ce_receiver_lib env) \<and>
     all_present (ce_receiver_lib env) x pfx r v (cm_segments c) (Some (cm_full_at c)) \<and>
     rebuild env (pulled x pfx r v (cm_segments c) (Some (cm_full_at c))) (cm_tip c) = Inr built \<and>
     bp_bytes (fst built) < 2 ^ 64"

lemma from_relative: "pack_key_from_relative pfx (pack_key None sha) = pack_key pfx sha"
  by (simp add: pack_key_from_relative_def builder_base)

text \<open>The lock is no part of it.\<close>

lemma compact_ready_lock:
  assumes "prefix ''refs/'' r" "compact_ready x pfx r env v c built"
  shows "compact_ready x pfx r env (v(lock_key pfx r \<mapsto> e)) c built"
proof -
  let ?v = "v(lock_key pfx r \<mapsto> e)"
  note keys = compact_keys [OF assms(1), symmetric]
  from assms(2) have canon: "canonical_packs (cm_segments c)" by (simp add: compact_ready_def all_present_def)
  have pack: "?v (pack_key_from_relative pfx (seg_pack g)) = v (pack_key_from_relative pfx (seg_pack g))"
    if "g \<in> set (cm_segments c)" for g
    using canon that keys by (auto simp: canonical_packs_def from_relative)
  have "all_present L x pfx r ?v (cm_segments c) (Some (cm_full_at c)) = all_present L x pfx r v (cm_segments c) (Some (cm_full_at c))" for L
    using pack keys by (auto simp: all_present_def body_at_def)
  moreover have "pulled x pfx r ?v (cm_segments c) (Some (cm_full_at c)) = pulled x pfx r v (cm_segments c) (Some (cm_full_at c))"
    using pack keys by (auto simp: pulled_def body_at_def)
  moreover have "chain_at x ?v (chain_key pfx r) = chain_at x v (chain_key pfx r)" using keys by (simp add: chain_at_def)
  ultimately show ?thesis using assms(2) by (simp add: compact_ready_def)
qed

definition worth_compacting :: "compact_opts \<Rightarrow> chain_manifest \<Rightarrow> bool" where
  "worth_compacting opts c \<longleftrightarrow>
     \<not> (length (cm_segments c) = 1 \<and> cm_tip c = cm_full_at c) \<and>
     (co_force opts \<or> COMPACT_SEGMENTS_THRESHOLD < length (cm_segments c) \<or> COMPACT_BYTES_THRESHOLD < total_bytes (cm_segments c))"

context calm_store
begin

lemma calm_compact_under_lock:
  assumes "calm s" "prefix ''refs/'' r" "chains_print x" "compact_ready x pfx r env (view s) c (p, index, b)"
  shows "wp (compact_under_lock x st pfx env r now uuid)
    (\<lambda>out t. calm t \<and> out = (bp_content_sha p, bp_bytes p) \<and> compacted_at x pfx r c p b (view t)) (\<lambda>_ _. False) s"
proof -
  let ?L = "ce_receiver_lib env" and ?v = "view s"
  from assms(4) have chain: "chain_at x ?v (chain_key pfx r) = Some c"
    and env: "ce_scratch env = None" "ce_init env = None" "ce_read_pack env = None" "ce_read_idx env = None" "ce_read_bundle env = None"
    and L: "receiver_works ?L" "rl_download ?L = None"
    and all: "all_present ?L x pfx r ?v (cm_segments c) (Some (cm_full_at c))"
    and built: "rebuild env (pulled x pfx r ?v (cm_segments c) (Some (cm_full_at c))) (cm_tip c) = Inr (p, index, b)"
    and bytes: "bp_bytes p < 2 ^ 64"
    by (auto simp: compact_ready_def receiver_works_def)
  from all have canon: "canonical_packs (cm_segments c)" and dist: "distinct (map seg_sha (cm_segments c))"
    and there: "\<And>dest key. (dest, key) \<in> set (chain_tasks pfx r c) \<Longrightarrow> ?v key \<noteq> None"
    and installs: "bundle_installs ?L x (body_at ?v (bundle_key pfx r (cm_full_at c)))"
    by (auto simp: all_present_def chain_tasks_def segment_task_def)
  have tip: "is_valid_bundle_stem (cm_tip c)" using chain_at_typed [OF chain] by (simp add: chain_typed_def)
  have down: "wp (download_chain_artefacts st (rl_download ?L) pfx r c)
      (\<lambda>files u. calm u \<and> view u = ?v \<and> files = chain_files pfx r ?v c) (\<lambda>_ _. False) t" if "calm t" "view t = ?v" for t
    unfolding download_chain_artefacts_def canonical_chain_downloads [OF canon] L(2) and_then_of_Inr chain_tasks_def [symmetric]
    by (rule calm_save_files [OF that(1)]) (use that there in \<open>auto simp: chain_files_def\<close>)
  have scratch: "wp (in_scratch (and_then (install_chain_into_repo env x (chain_files pfx r ?v c) c)
      (\<lambda>_. rebuild_in_scratch env (cm_tip c)))) (\<lambda>built t. built = (p, index, b) \<and> t = u) (\<lambda>_ _. False) u" for u
    unfolding rebuild_in_scratch_def
    by (intro wp_in_scratch wp_and_then working_install_chain L dist installs wp_receiver_only)
      (use built in \<open>auto simp: installs_def scratch_repo_def\<close>)
  show ?thesis
    unfolding compact_under_lock_def
  proof (rule wp_and_then, rule calm_chain [OF assms(1) chain], goal_cases)
    case (1 t)
    show ?case
      unfolding option.case set_up_scratch_def env
      by (rule wp_and_then, rule wp_ok, rule wp_and_then, rule wp_mono [OF down [OF 1]], rule wp_and_then,
          erule conjE, erule conjE, simp only:, rule wp_mono [OF scratch])
        (use assms(2,3) tip bytes env in \<open>auto intro!: calm_replace_chain\<close>)
  qed
qed

lemma calm_compact:
  assumes "calm s" "prefix ''refs/'' r" "chains_print x" "compact_ready x pfx r env (view s) c (p, index, b)"
    and "worth_compacting opts c" "\<not> lock_live (view s) (lock_key pfx r) (co_lock_ttl opts) now"
  shows "wp (compact x st pfx env r opts now tomb_now uuid)
    (\<lambda>out t. calm t \<and> cp_action out = Compacted \<and> cp_new_pack_sha out = Some (bp_content_sha p) \<and>
       compacted_at x pfx r c p b (view t) \<and> view t (lock_key pfx r) = None) (\<lambda>_ _. False) s"
proof -
  have chain: "chain_at x (view s) (chain_key pfx r) = Some c" using assms(4) by (simp add: compact_ready_def)
  note keys = compact_keys [OF assms(2), symmetric]
  show ?thesis
    unfolding compact_def Let_def
  proof (rule wp_and_then, rule calm_chain [OF assms(1) chain], unfold option.case, intro wp_if wp_and_then wp_map_err calm_acquire_lock, goal_cases)
    case (4 t m w)
    then have ready: "compact_ready x pfx r env (view w) c (p, index, b)"
      using compact_ready_lock [OF assms(2,4)] by simp
    have end_at: "compacted_at x pfx r c p b (view u)" if "compacted_at x pfx r c p b (view q)" "view u = (view q)(lock_key pfx r := None)" for q u
      using that keys by (auto simp: compacted_at_def chain_at_def)
    show ?case
      unfolding option.case
      by (rule wp_match, rule wp_mono [OF calm_compact_under_lock [OF 4(5) assms(2,3) ready]])
        (auto simp: release_lock_or_warn_def intro!: wp_and_then wp_match calm_release_lock wp_ok intro: end_at)
  qed (use assms(5,6) in \<open>auto simp: worth_compacting_def\<close>)
qed

end

subsection \<open>Properties\<close>

text \<open>The chain of a ref after a compaction, whatever it answered.\<close>

definition same_tip :: "ext \<Rightarrow> string option \<Rightarrow> string \<Rightarrow> chain_manifest \<Rightarrow> bucket \<Rightarrow> bucket \<Rightarrow> bool" where
  "same_tip x pfx r c v v' \<longleftrightarrow>
     (\<exists>c'. chain_at x v' (chain_key pfx r) = Some c' \<and> cm_tip c' = cm_tip c \<and>
        (c' = c \<or> chain_ok c' \<and> cm_full_at c' = cm_tip c \<and> length (cm_segments c') = 1 \<and> canonical_packs (cm_segments c'))) \<and>
     (\<forall>k. chain_slot (prefix_str pfx) k \<longrightarrow> k \<noteq> chain_key pfx r \<longrightarrow> v' k = v k)"

lemma harmless_same_tip:
  assumes "prefix ''refs/'' r" "chain_at x v (chain_key pfx r) = Some c" "harmless False pfx v v'"
  shows "same_tip x pfx r c v v'"
  using assms chain_slot_ref [OF assms(1), of pfx] by (simp add: same_tip_def harmless_def chain_at_def)

lemma replaced_same_tip:
  assumes "prefix ''refs/'' r" "chains_print x" "chain_at x v (chain_key pfx r) = Some c" "good_pack p"
    and "chain_replaced x pfx r c p v v'"
  shows "same_tip x pfx r c v v'" "chain_at x v' (chain_key pfx r) = Some (compacted_chain c p)"
proof -
  have "is_valid_bundle_stem (cm_tip c)" using chain_at_typed [OF assms(3)] by (simp add: chain_typed_def)
  with assms show chain: "chain_at x v' (chain_key pfx r) = Some (compacted_chain c p)"
    by (intro chain_replaced_chain) (auto simp: good_pack_def)
  with assms(4) chain_replaced_other [OF assms(5)] show "same_tip x pfx r c v v'"
    by (auto simp: same_tip_def compacted_chain_def chain_ok_def canonical_packs_def good_pack_def)
qed

text \<open>C7. Compaction never moves a ref: whatever faults hit it and whatever it answers, the chain reads,
  has the tip it had and is either as it was or one segment from its own baseline, the chains of
  other refs are as they were, and if every chain had its packs before, every chain has them
  after. When it answers that it compacted, the chain is that one segment.\<close>

theorem compaction_never_moves_a_ref:
  assumes "prefix ''refs/'' r" "chains_print x" "scratch_typed env" "chain_at x (mock_view s) (chain_key pfx r) = Some c"
    and "compact x mock_store pfx env r opts now tomb_now uuid s = (res, t)"
  shows "same_tip x pfx r c (mock_view s) (mock_view t) \<and>
    (intact x pfx (mock_view s) \<longrightarrow> intact x pfx (mock_view t)) \<and>
    (\<forall>out. res = Inr out \<longrightarrow> cp_action out = Compacted \<longrightarrow>
       (\<exists>sha c'. cp_new_pack_sha out = Some sha \<and> chain_at x (mock_view t) (chain_key pfx r) = Some c' \<and> cm_tip c' = cm_tip c \<and>
          map seg_pack (cm_segments c') = [pack_key None sha]))"
proof -
  have harm: "same_tip x pfx r c (mock_view s) (mock_view t) \<and> (intact x pfx (mock_view s) \<longrightarrow> intact x pfx (mock_view t))"
    if "harmless False pfx (mock_view s) (mock_view t)"
    using that harmless_same_tip [OF assms(1,4)] harmless_intact by blast
  have repl: "same_tip x pfx r c (mock_view s) (mock_view t) \<and> (intact x pfx (mock_view s) \<longrightarrow> intact x pfx (mock_view t)) \<and>
      (\<exists>c'. chain_at x (mock_view t) (chain_key pfx r) = Some c' \<and> cm_tip c' = cm_tip c \<and>
         map seg_pack (cm_segments c') = [pack_key None (bp_content_sha p)])"
    if "good_pack p" "chain_replaced x pfx r c p (mock_view s) (mock_view t)" for p
    using replaced_same_tip [OF assms(1,2,4) that] chain_replaced_intact [OF that(2) _ _ assms(2)] that(1)
    by (auto simp: good_pack_def compacted_chain_def)
  show ?thesis
    using mock.compact_steps [OF assms(1,3), of x pfx opts now tomb_now uuid s] assms(4,5) harm repl
    unfolding wp_def by (cases res; fastforce split: if_splits)
qed

lemma compact_intact:
  assumes "prefix ''refs/'' r" "chains_print x" "scratch_typed env" "intact x pfx (mock_view s)"
  shows "intact x pfx (mock_view (snd (compact x mock_store pfx env r opts now tomb_now uuid s)))"
proof -
  have "chain_replaced x pfx r c p (mock_view s) (mock_view t) \<Longrightarrow> good_pack p \<Longrightarrow> intact x pfx (mock_view t)" for c p t
    using chain_replaced_intact [OF _ _ assms(4,2)] by (simp add: good_pack_def)
  then show ?thesis
    using mock.compact_steps [OF assms(1,3), of x pfx opts now tomb_now uuid s] harmless_intact [OF _ assms(4)]
    unfolding wp_def by (fastforce split: prod.splits sum.splits if_splits)
qed

text \<open>C19. On a quiet store a chain worth compacting, whose packs and baseline are stored and install and
  whose lock is free, is compacted; and a clone that fetches the compacted chain succeeds and has
  the whole history of the tip, provided the new baseline holds it.\<close>

theorem compacted_chains_are_cloned:
  assumes "mock_calm s" "prefix ''refs/'' r" "chains_print x" "scratch_typed env"
    and "compact_ready x pfx r env (mock_view s) c (p, index, b)" "worth_compacting opts c"
    and "\<not> lock_live (mock_view s) (lock_key pfx r) (co_lock_ttl opts) now"
    and "receiver_works L" "bundle_installs L x b" "receiver_complete complete L (rc_packs clone)" "sha \<notin> set (rc_fetched clone)"
    and "\<And>ps. complete (ps @ [bundle_pack x b]) (cm_tip c)"
    and "\<And>ps. complete ps (cm_tip c) \<Longrightarrow> complete (ps @ [bp_pack p]) (cm_tip c)"
  shows "\<exists>out t u clone'. compact x mock_store pfx env r opts now tomb_now uuid s = (Inr out, t) \<and> cp_action out = Compacted \<and>
    chain_at x (mock_view t) (chain_key pfx r) = Some (compacted_chain c p) \<and>
    packchain_fetch_one L x mock_store pause pfx None sha r (t, clone) = (Inr (), (u, clone')) \<and>
    complete (rc_packs clone') (cm_tip c)"
proof -
  obtain out t where t: "compact x mock_store pfx env r opts now tomb_now uuid s = (Inr out, t)" "mock_calm t" "cp_action out = Compacted"
    "compacted_at x pfx r c p b (mock_view t)"
    using calm_mock.calm_compact [OF assms(1-3,5-7), THEN wp_totalD] by blast
  have p: "good_pack p" using assms(5) rebuild_good [OF assms(4)] by (auto simp: compact_ready_def)
  let ?c = "compacted_chain c p"
  have chain: "chain_at x (mock_view t) (chain_key pfx r) = Some ?c" using t(4) by (simp add: compacted_at_def)
  have body: "body_at (mock_view t) (pack_key_from_relative pfx (pack_key None (bp_content_sha p))) = bp_pack p"
    "body_at (mock_view t) (bundle_key pfx r (cm_tip c)) = b"
    using t(4) by (auto simp: compacted_at_def from_relative)
  have present: "all_present L x pfx r (mock_view t) (cm_segments ?c) (Some (cm_full_at ?c))"
    using t(4) p assms(9) body by (auto simp: all_present_def canonical_packs_def compacted_chain_def compacted_at_def good_pack_def from_relative)
  have supplied: "supplies complete x pfx r (mock_view t) ?c"
    using assms(12,13) body by (simp add: supplies_def compacted_chain_def)
  have "chain_ok ?c" by (simp add: chain_ok_def compacted_chain_def)
  with calm_mock.calm_packchain_fetch [of "(t, clone)" L x pfx r ?c complete sha pause, THEN wp_totalD]
  obtain u clone' where "packchain_fetch_one L x mock_store pause pfx None sha r (t, clone) = (Inr (), (u, clone'))"
    "complete (rc_packs clone') (cm_tip c)"
    using t(2) assms(8,10,11) chain supplied present by (fastforce simp: compacted_chain_def)
  with t(1,3) chain show ?thesis by blast
qed

subsection \<open>An example\<close>

text \<open>The three commits of \<open>Ref_Fetch_Proofs\<close>, compacted to one pack.\<close>

definition demo_compact_env :: compact_env where
  "demo_compact_env =
     \<lparr>ce_scratch = None, ce_init = None, ce_receiver_lib = demo_receiver_lib,
      ce_pack_lib = (\<lambda>_. demo_packer\<lparr>pl_follow_ref := \<lambda>_. None\<rparr>), ce_bundle_repo = (\<lambda>_. Inr (demo_repo\<lparr>rp_rev_parse := Inr\<rparr>)),
      ce_build = demo_io, ce_read_pack = None, ce_read_idx = None, ce_read_bundle = None\<rparr>"

definition demo_compacted :: string where
  "demo_compacted = write_bundle_header (demo_sha CHR ''c'') (demo_sha CHR ''c'') @ ''PACK'' @ demo_sha CHR ''c''"

definition demo_compact_index :: path_index where
  "demo_compact_index = \<lparr>px_v = PATH_INDEX_SCHEMA_VERSION, px_tip = demo_sha CHR ''c'', px_tree = []\<rparr>"

lemma demo_compact_env_sel [simp]:
  "ce_scratch demo_compact_env = None" "ce_init demo_compact_env = None" "ce_receiver_lib demo_compact_env = demo_receiver_lib"
  "ce_pack_lib demo_compact_env ps = demo_packer\<lparr>pl_follow_ref := \<lambda>_. None\<rparr>"
  "ce_bundle_repo demo_compact_env ps = Inr (demo_repo\<lparr>rp_rev_parse := Inr\<rparr>)" "ce_build demo_compact_env = demo_io"
  "ce_read_pack demo_compact_env = None" "ce_read_idx demo_compact_env = None" "ce_read_bundle demo_compact_env = None"
  by (simp_all add: demo_compact_env_def)

lemma demo_scratch_typed: "scratch_typed demo_compact_env"
  using demo_walks_return by (auto simp: scratch_typed_def walks_return_def split: if_splits)

lemma demo_rebuild:
  assumes "''PACKc'' \<in> set packs"
  shows "rebuild demo_compact_env packs (demo_sha CHR ''c'') = Inr (demo_pack CHR ''c'', Some demo_compact_index, demo_compacted)"
proof -
  let ?lib = "demo_packer\<lparr>pl_follow_ref := \<lambda>_. None\<rparr>" and ?c = "demo_sha CHR ''c''"
  have "demo_sha CHR ''c'' \<in> set (demo_commits ''PACKc'')" by (simp add: demo_commits_def)
  with assms have "rp_find_object (demo_clone packs) ?c = Inr (CommitObject (demo_parents ?c))"
    by (auto simp: demo_clone_def)
  then have peel: "peel (demo_clone packs) ?c = Inr (PeeledCommit ?c [])"
    by (simp add: peel_def peel_tag_chain_def peel_loop.simps [of "demo_clone _"])
  have pack: "build_baseline_pack ?lib demo_io (PeeledCommit ?c []) = build_baseline_pack demo_packer demo_io (PeeledCommit ?c [])"
    by (simp add: build_baseline_pack_def open_repo_def demo_io_def collect_commits_baseline_def collect_commits_def build_pack_def
        count_objects_as_is_def derive_idx_def)
  have index: "extract_path_index (pl_trees demo_packer) (PeeledCommit ?c []) ?c = Some (Inr (Some demo_compact_index))"
    by (simp add: extract_path_index_def walk_tree_def open_tree_def walk_entries.simps [of "pl_trees demo_packer"]
        sha40_from_oid_def demo_compact_index_def demo_sha_def)
  have tag: "peel_tag_chain (demo_repo\<lparr>rp_rev_parse := Inr\<rparr>) ?c = Some (Inr (PeeledCommit ?c []))"
    by (simp add: peel_tag_chain_def peel_loop.simps [of "demo_repo\<lparr>rp_rev_parse := Inr\<rparr>"]) (simp add: demo_repo_def)
  have bundle_made: "create_bundle (Inr (demo_repo\<lparr>rp_rev_parse := Inr\<rparr>)) ?lib ?c ?c = Some (Inr demo_compacted)"
    by (simp add: create_bundle_def resolve_spec_to_ref_def tag bundle_input_def count_objects_as_is_def
        collect_commit_ids_def count_input_def write_bundle_file_def demo_compacted_def) (simp add: demo_sha_def)
  show ?thesis
    by (simp add: rebuild_def demo_receiver_lib_def peel pack demo_baseline_pack index bundle_made)
qed

lemma demo_compacted_read:
  "read_bundle_header demo_ext (Inr (file_reader demo_compacted)) =
     Inr \<lparr>bh_version = 2, bh_prerequisites = [], bh_refs = [(demo_sha CHR ''c'', demo_sha CHR ''c'')],
         bh_pack_offset = length (write_bundle_header (demo_sha CHR ''c'') (demo_sha CHR ''c''))\<rparr>"
proof -
  have "header_ref_ok (demo_sha CHR ''c'')" by (simp add: header_ref_ok_def utf8_valid_ascii list_all_iff demo_sha_def)
  then show ?thesis
    using read_written_header [of demo_ext "demo_sha CHR ''c''" "demo_sha CHR ''c''" "demo_sha CHR ''c''"]
    by (simp add: demo_compacted_def)
qed

lemma demo_compacted_pack: "bundle_pack demo_ext demo_compacted = ''PACK'' @ demo_sha CHR ''c''"
  unfolding bundle_pack_def demo_compacted_read by (simp add: demo_compacted_def)

lemma demo_compact_ready:
  "compact_ready demo_ext (Some ''repo'') demo_main demo_compact_env (mock_view demo_chain_bucket) demo_long_chain
     (demo_pack CHR ''c'', Some demo_compact_index, demo_compacted)"
proof -
  have "bp_bytes (demo_pack CHR ''c'') = 44" by (simp add: demo_pack_def)
  then show ?thesis
    using demo_long_chain_reads demo_present demo_receiver_works
    by (auto simp: compact_ready_def demo_chain_bodies pulled_def intro!: demo_rebuild)
qed

definition demo_compact_opts :: compact_opts where
  "demo_compact_opts = \<lparr>co_force = True, co_lock_ttl = 60\<rparr>"

lemma demo_worth: "worth_compacting demo_compact_opts demo_long_chain"
  by (simp add: worth_compacting_def demo_compact_opts_def)

lemma demo_chain_unlocked: "\<not> lock_live (mock_view demo_chain_bucket) (lock_key (Some ''repo'') demo_main) ttl now"
proof -
  have "mock_view demo_chain_bucket (lock_key (Some ''repo'') demo_main) = None"
    using demo_bucket_dom [of _ "lock_key (Some ''repo'') demo_main"] compact_keys [of demo_main] unfolding demo_chain_bucket_def by fastforce
  then show ?thesis by (simp add: lock_live_def)
qed

theorem compaction_never_moves_a_ref_witness:
  "same_tip demo_ext (Some ''repo'') demo_main demo_long_chain (mock_view demo_chain_bucket)
     (mock_view (snd (compact demo_ext mock_store (Some ''repo'') demo_compact_env demo_main demo_compact_opts 9 9 ''u'' demo_chain_bucket)))"
  using compaction_never_moves_a_ref [of demo_main demo_ext demo_compact_env demo_chain_bucket "Some ''repo''" demo_long_chain
      demo_compact_opts 9 9 "''u''"] demo_chains_print demo_scratch_typed demo_long_chain_reads
  by (metis demo_main_simps(1) prod.collapse)

theorem compacted_chains_are_cloned_witness:
  "\<exists>out t u clone. compact demo_ext mock_store (Some ''repo'') demo_compact_env demo_main demo_compact_opts 9 9 ''u'' demo_chain_bucket = (Inr out, t) \<and>
     cp_action out = Compacted \<and>
     packchain_fetch_one demo_receiver_lib demo_ext mock_store (\<lambda>_ t. t) (Some ''repo'') None (demo_sha CHR ''c'') demo_main (t, empty_receiver) =
       (Inr (), (u, clone)) \<and> ''PACK'' @ demo_sha CHR ''c'' \<in> set (rc_packs clone)"
proof -
  have calm: "mock_calm demo_chain_bucket" unfolding demo_chain_bucket_def by (rule demo_bucket_calm)
  have installs: "bundle_installs demo_receiver_lib demo_ext demo_compacted"
    by (simp add: bundle_installs_def unbundle_file_def install_bundle_def demo_compacted_read demo_receiver_lib_def)
  have "receiver_complete (\<lambda>ps _. ''PACK'' @ demo_sha CHR ''c'' \<in> set ps) demo_receiver_lib (rc_packs empty_receiver)"
    by (simp add: receiver_complete_def demo_receiver_lib_def demo_clone_def empty_receiver_def)
  from compacted_chains_are_cloned [where now = 9 and tomb_now = 9 and uuid = "''u''" and pause = "\<lambda>_ t. t" and
      sha = "demo_sha CHR ''c''", OF calm _ demo_chains_print demo_scratch_typed demo_compact_ready demo_worth demo_chain_unlocked
      demo_receiver_works installs this]
  show ?thesis by (auto simp: demo_compacted_pack empty_receiver_def demo_pack_def)
qed

text \<open>
  The scratch repository has no refs, so the baseline a compaction makes names the commit itself
  where a bundle names its ref.
\<close>

lemma compacted_baseline_names_no_ref:
  assumes "pl_follow_ref (ce_pack_lib env packs) tip = None"
    and "create_bundle (ce_bundle_repo env packs) (ce_pack_lib env packs) tip tip = Some (Inr b)"
  shows "prefix (write_bundle_header tip tip) b"
  using assms by (auto simp: create_bundle_def write_bundle_file_def resolve_spec_to_ref_def split: sum.splits option.splits prod.splits)

end
