(* ===== verification/Branch_Admin.thy ===== *)
theory Branch_Admin
  imports Packchain_Push Protocol_Stream
begin

text \<open>
  The branch commands of the management program, \<open>src/manage/branch.rs\<close>: open a branch, delete it,
  protect it, unprotect it, with the errors and the listing filters of \<open>src/manage/mod.rs\<close>.
  Programs run on the store and the stream the operator reads. The operator answers a prompt from
  what was written so far and the prompt's text; while the prompt waits other clients may use the
  bucket, which is a function on the store's state.
\<close>

subsection \<open>src/manage/mod.rs\<close>

datatype stale_reason = WasDeleted | ResidueOnly

fun stale_reason_display :: "stale_reason \<Rightarrow> string" where
  "stale_reason_display WasDeleted = ''was deleted between selection and write''"
| "stale_reason_display ResidueOnly =
     ''is considered gone '' @ em_dash @ '' only operational metadata (lock files / PROTECTED# marker) '' @
     ''remains under its prefix''"

datatype manage_error =
    MgStore store_error
  | BranchNotFound string
  | BranchProtected string
  | BranchLocked string string int
  | PartialDelete string "string list" nat
  | InvalidBranch string
  | Cancelled
  | MgIo io_error
  | MgInternal string
  | StaleSnapshot string stale_reason
  | MgPackchain packchain_error

definition fmt_partial_delete :: "string \<Rightarrow> string list \<Rightarrow> nat \<Rightarrow> string" where
  "fmt_partial_delete branch undeleted attempted =
     (let n = length undeleted;
          noun = if n = 1 then ''key'' else ''keys'' in
      ''delete-branch '' @ branch @ '' failed: '' @ show_nat n @ '' of '' @ show_nat attempted @ '' '' @ noun @
      '' could not be deleted: '' @ join_on '', '' undeleted @ '' (retry to converge)'')"

fun manage_error_display :: "string \<Rightarrow> manage_error \<Rightarrow> string" where
  "manage_error_display json_text (MgStore e) = store_error_display e"
| "manage_error_display json_text (BranchNotFound b) = ''branch not found: '' @ b"
| "manage_error_display json_text (BranchProtected b) =
     ''ref is protected. Run git-remote-object-store unprotect <url> <branch> to remove protection before deleting.''"
| "manage_error_display json_text (BranchLocked b lock ttl) =
     ''could not acquire ref lock at '' @ lock @ ''. Another client may be pushing or deleting. '' @
     ''If this persists beyond '' @ show_int ttl @
     ''s, run git-remote-object-store doctor to inspect and optionally clear stale locks.''"
| "manage_error_display json_text (PartialDelete b undeleted attempted) = fmt_partial_delete b undeleted attempted"
| "manage_error_display json_text (InvalidBranch b) = ''invalid branch name: '' @ b"
| "manage_error_display json_text Cancelled = ''operation cancelled''"
| "manage_error_display json_text (MgIo e) = io_text e"
| "manage_error_display json_text (MgInternal e) = ''internal management error: '' @ e"
| "manage_error_display json_text (StaleSnapshot entity reason) =
     ''doctor snapshot is stale: '' @ entity @ '' '' @ stale_reason_display reason @ ''; re-run doctor''"
| "manage_error_display json_text (MgPackchain e) = packchain_error_display json_text e"

definition is_lock_key :: "string \<Rightarrow> bool" where
  "is_lock_key key = ends_with key ''.lock''"

definition has_branch_data :: "object_meta list \<Rightarrow> bool" where
  "has_branch_data entries =
     list_ex (\<lambda>entry.
       (let key_end = (case rsplit_once CHR ''/'' (om_key entry) of None \<Rightarrow> om_key entry | Some (_, s) \<Rightarrow> s) in
        \<not> is_lock_key (om_key entry) \<and> \<not> is_protected_marker_segment key_end)) entries"

subsection \<open>Programs with an operator\<close>

definition on_bucket :: "('s, store_error, 'a) io \<Rightarrow> ('s \<times> writer, manage_error, 'a) io" where
  "on_bucket m = map_err MgStore (in_store m)"

definition writeln :: "string \<Rightarrow> ('s \<times> writer, manage_error, unit) io" where
  "writeln line = map_err MgIo (write_all (line @ [CHR 0x0A]))"

text \<open>The prompter: what the operator answers, and what other clients do until then.\<close>

record 's operator =
  op_select :: "string \<Rightarrow> string \<Rightarrow> string list \<Rightarrow> manage_error + nat"
  op_confirm :: "string \<Rightarrow> string \<Rightarrow> manage_error + bool"
  op_meanwhile :: "'s \<Rightarrow> 's"

definition ask :: "'s operator \<Rightarrow> string \<Rightarrow> ('s \<times> writer, manage_error, bool) io" where
  "ask op question = (\<lambda>(s, w). (op_confirm op (wr_text w) question, (op_meanwhile op s, w)))"

definition pick :: "'s operator \<Rightarrow> string \<Rightarrow> string list \<Rightarrow> ('s \<times> writer, manage_error, nat) io" where
  "pick op question options = (\<lambda>(s, w). (op_select op (wr_text w) question options, (op_meanwhile op s, w)))"

text \<open>What a command reads besides: the environment's lock time to live, the times, a fresh UUID.\<close>

record admin_inputs =
  ai_ttl_env :: "string option"
  ai_now :: int
  ai_tomb_now :: int
  ai_uuid :: string

subsection \<open>src/manage/branch.rs\<close>

record manage_branch =
  mb_prefix :: string
  mb_branch :: string

definition mb_ref :: "manage_branch \<Rightarrow> string" where
  "mb_ref mb = ''refs/heads/'' @ mb_branch mb"

definition branch_prefix :: "manage_branch \<Rightarrow> string" where
  "branch_prefix mb = ref_listing_prefix (Some (mb_prefix mb)) (''refs/heads/'' @ mb_branch mb)"

definition protected_key :: "manage_branch \<Rightarrow> string" where
  "protected_key mb =
     join (Some (mb_prefix mb)) (''refs/heads/'' @ mb_branch mb @ ''/'' @ PROTECTED_MARKER_SEGMENT)"

definition open_branch ::
    "ext \<Rightarrow> 's store_api \<Rightarrow> string \<Rightarrow> string \<Rightarrow> ('s, manage_error, manage_branch) io" where
  "open_branch x st pfx branch =
     (if \<not> ref_name_ok x (''refs/heads/'' @ branch) then fail_with (InvalidBranch branch)
      else
        (let mb = \<lparr>mb_prefix = pfx, mb_branch = branch\<rparr> in
         and_then (map_err MgStore (st_list st (branch_prefix mb))) (\<lambda>entries.
         if entries = [] then fail_with (BranchNotFound (mb_branch mb)) else ok mb)))"

definition validated_ref_name :: "ext \<Rightarrow> manage_branch \<Rightarrow> manage_error + string" where
  "validated_ref_name x mb =
     (if ref_name_ok x (mb_ref mb) then Inr (mb_ref mb) else Inl (InvalidBranch (mb_branch mb)))"

definition prefix_opt :: "manage_branch \<Rightarrow> string option" where
  "prefix_opt mb = (if mb_prefix mb \<noteq> [] then Some (mb_prefix mb) else None)"

definition acquire_ref_lock ::
    "ext \<Rightarrow> 's store_api \<Rightarrow> manage_branch \<Rightarrow> admin_inputs \<Rightarrow> ('s, manage_error, string \<times> lock_guard) io" where
  "acquire_ref_lock x st mb inputs =
     and_then (of_result (validated_ref_name x mb)) (\<lambda>ref_name.
     let lock = lock_key (prefix_opt mb) ref_name;
         ttl = lock_ttl_from_env (ai_ttl_env inputs) in
     and_then (map_err MgStore (acquire_lock st lock ttl (ai_now inputs))) (\<lambda>acquired.
     case acquired of
       None \<Rightarrow> fail_with (BranchLocked (mb_branch mb) lock (whole_seconds ttl))
     | Some guard \<Rightarrow> ok (lock, guard)))"

definition release_or_warn :: "'s store_api \<Rightarrow> lock_guard \<Rightarrow> ('s, 'e, unit) io" where
  "release_or_warn st guard = match_io (release_lock st guard) (\<lambda>_. ok ()) (\<lambda>_. ok ())"

text \<open>Acquire, work, release on every exit: what the three commands share.\<close>

definition under_ref_lock ::
    "ext \<Rightarrow> 's store_api \<Rightarrow> manage_branch \<Rightarrow> admin_inputs \<Rightarrow>
     (string \<Rightarrow> ('s \<times> writer, manage_error, unit) io) \<Rightarrow> ('s \<times> writer, manage_error, unit) io" where
  "under_ref_lock x st mb inputs work =
     and_then (in_store (acquire_ref_lock x st mb inputs)) (\<lambda>(lock, guard).
     match_io (work lock)
       (\<lambda>e. and_then (in_store (release_or_warn st guard)) (\<lambda>_. fail_with e))
       (\<lambda>_. in_store (release_or_warn st guard)))"

definition try_tombstone_baseline ::
    "ext \<Rightarrow> 's store_api \<Rightarrow> manage_branch \<Rightarrow> object_meta list \<Rightarrow> admin_inputs \<Rightarrow> ('s, 'e, string option) io" where
  "try_tombstone_baseline x st mb fresh inputs =
     (if \<not> ref_name_ok x (mb_ref mb) then ok None
      else try_write_baseline_tombstone x st (prefix_opt mb) (mb_ref mb) fresh (ai_tomb_now inputs) (ai_uuid inputs))"

text \<open>One step of the sweep, which collects the keys that could not be deleted.\<close>

definition sweep_key ::
    "'s store_api \<Rightarrow> string option \<Rightarrow> string list \<Rightarrow> object_meta \<Rightarrow> ('s, 'e, string list) io" where
  "sweep_key st deferred undeleted object =
     (if deferred = Some (om_key object) then ok undeleted
      else
        match_io (st_delete st (om_key object))
          (\<lambda>e. case e of NotFound _ \<Rightarrow> ok undeleted | _ \<Rightarrow> ok (undeleted @ [om_key object]))
          (\<lambda>_. ok undeleted))"

definition sweep_keys ::
    "'s store_api \<Rightarrow> string option \<Rightarrow> object_meta list \<Rightarrow> ('s, 'e, string list) io" where
  "sweep_keys st deferred fresh = fold_io (sweep_key st deferred) [] fresh"

definition delete_under_lock ::
    "ext \<Rightarrow> 's store_api \<Rightarrow> manage_branch \<Rightarrow> admin_inputs \<Rightarrow> string \<Rightarrow> ('s \<times> writer, manage_error, unit) io" where
  "delete_under_lock x st mb inputs lock =
     and_then (on_bucket (st_list st (branch_prefix mb))) (\<lambda>entries.
     let fresh = filter (\<lambda>m. om_key m \<noteq> lock) entries in
     if fresh = [] then
       writeln (''Branch '' @ mb_branch mb @ '' is already gone (concurrent delete during prompt); nothing to do'')
     else if entries_have_protected_marker fresh then fail_with (BranchProtected (mb_branch mb))
     else
       and_then (in_store (try_tombstone_baseline x st mb fresh inputs)) (\<lambda>deferred.
       and_then (in_store (sweep_keys st deferred fresh)) (\<lambda>undeleted.
       let attempted = length fresh - (if deferred \<noteq> None then 1 else 0) in
       if undeleted \<noteq> [] then fail_with (PartialDelete (mb_branch mb) undeleted attempted)
       else
         and_then (in_store (verify_no_orphan_protected_after_delete st (prefix_opt mb) (mb_ref mb))) (\<lambda>_.
         writeln (''Branch '' @ mb_branch mb @ '' has been deleted'')))))"

definition delete_question :: "manage_branch \<Rightarrow> nat \<Rightarrow> string" where
  "delete_question mb n = ''Delete branch '' @ mb_branch mb @ '' ('' @ show_nat n @ '' objects)?''"

definition delete_into ::
    "ext \<Rightarrow> 's store_api \<Rightarrow> 's operator \<Rightarrow> manage_branch \<Rightarrow> admin_inputs \<Rightarrow> ('s \<times> writer, manage_error, unit) io" where
  "delete_into x st op mb inputs =
     and_then (on_bucket (st_list st (branch_prefix mb))) (\<lambda>initial.
     if entries_have_protected_marker initial then fail_with (BranchProtected (mb_branch mb))
     else
       and_then (ask op (delete_question mb (length initial))) (\<lambda>confirmed.
       if \<not> confirmed then writeln ''Aborted''
       else
         and_then (of_result (validated_ref_name x mb)) (\<lambda>_.
         under_ref_lock x st mb inputs (delete_under_lock x st mb inputs))))"

definition protect_under_lock ::
    "'s store_api \<Rightarrow> manage_branch \<Rightarrow> ('s \<times> writer, manage_error, unit) io" where
  "protect_under_lock st mb =
     and_then (on_bucket (st_list st (branch_prefix mb))) (\<lambda>fresh.
     if \<not> has_branch_data fresh then fail_with (BranchNotFound (mb_branch mb))
     else
       and_then (on_bucket (st_put_bytes st (protected_key mb) [] default_put_opts)) (\<lambda>_.
       writeln (''Branch '' @ mb_branch mb @ '' is now protected'')))"

definition protect_into ::
    "ext \<Rightarrow> 's store_api \<Rightarrow> manage_branch \<Rightarrow> admin_inputs \<Rightarrow> ('s \<times> writer, manage_error, unit) io" where
  "protect_into x st mb inputs = under_ref_lock x st mb inputs (\<lambda>_. protect_under_lock st mb)"

definition unprotect_under_lock ::
    "'s store_api \<Rightarrow> manage_branch \<Rightarrow> ('s \<times> writer, manage_error, unit) io" where
  "unprotect_under_lock st mb =
     match_io (in_store (st_delete st (protected_key mb)))
       (\<lambda>e. case e of
          NotFound _ \<Rightarrow> writeln (''Branch '' @ mb_branch mb @ '' is now unprotected'')
        | _ \<Rightarrow> fail_with (MgStore e))
       (\<lambda>_. writeln (''Branch '' @ mb_branch mb @ '' is now unprotected''))"

definition unprotect_into ::
    "ext \<Rightarrow> 's store_api \<Rightarrow> manage_branch \<Rightarrow> admin_inputs \<Rightarrow> ('s \<times> writer, manage_error, unit) io" where
  "unprotect_into x st mb inputs = under_ref_lock x st mb inputs (\<lambda>_. unprotect_under_lock st mb)"

end
