(* ===== verification/Branch_Admin_Proofs.thy ===== *)
theory Branch_Admin_Proofs
  imports Branch_Admin Compact_Proofs
begin

text \<open>
  The branch commands: a deletion leaves a protected branch alone and otherwise leaves exactly what
  its answer says, and the marker is what \<open>protect\<close> and \<open>unprotect\<close> answer.
\<close>

subsection \<open>Names\<close>

lemma key_base_opt [simp]: "key_base (prefix_opt mb) = key_base (Some (mb_prefix mb))"
  by (simp add: prefix_opt_def)

lemma branch_prefix_ref: "branch_prefix mb = ref_listing_prefix (prefix_opt mb) (mb_ref mb)"
  by (simp add: branch_prefix_def mb_ref_def ref_listing_prefix_base)

lemma protected_key_ref: "protected_key mb = protected_marker_key (prefix_opt mb) (mb_ref mb)"
  by (simp add: protected_key_def mb_ref_def protected_marker_key_def ref_listing_prefix_base join_base)

lemma prefix_opt_str [simp]: "(case prefix_opt mb of None \<Rightarrow> [] | Some p \<Rightarrow> p) = mb_prefix mb"
  by (simp add: prefix_opt_def)

abbreviation branch_lock :: "manage_branch \<Rightarrow> string" where
  "branch_lock mb \<equiv> lock_key (prefix_opt mb) (mb_ref mb)"

lemma branch_key_facts [simp]:
  "prefix (branch_prefix mb) (protected_key mb)" "prefix (branch_prefix mb) (branch_lock mb)"
  "protected_key mb \<noteq> branch_lock mb"
  "\<not> prefix (branch_prefix mb) (baseline_tombstone_key (mb_prefix mb) uuid)"
  by (simp_all add: branch_prefix_ref protected_key_ref)
    (auto simp: mb_ref_def ref_listing_prefix_base baseline_tombstone_key_def join_base prefix_def
      BASELINE_TOMBSTONE_KEY_FRAGMENT_def)

text \<open>Names that are well-formed text, as every Rust string is.\<close>

definition branch_text :: "manage_branch \<Rightarrow> bool" where
  "branch_text mb \<longleftrightarrow> utf8_valid (mb_prefix mb) \<and> utf8_valid (mb_branch mb)"

lemma listable_branch [simp]: "branch_text mb \<Longrightarrow> listable (branch_prefix mb)"
proof -
  assume t: "branch_text mb"
  have "utf8_valid (''refs/heads/'' @ mb_branch mb)"
    by (rule utf8_valid_append) (use t in \<open>simp_all add: branch_text_def utf8_valid_ascii\<close>)
  with t show ?thesis
    unfolding branch_prefix_ref by (intro listable_ref) (auto simp: branch_text_def prefix_opt_def mb_ref_def)
qed

lemma prefix_protected_found:
  assumes "lists p ms v" "prefix p (protected_key mb)" "v (protected_key mb) \<noteq> None"
  shows "entries_have_protected_marker (filter (\<lambda>m. om_key m \<noteq> branch_lock mb) ms)"
proof -
  from assms have "protected_key mb \<in> set (map om_key ms)" by (simp add: lists_def)
  then obtain m where "m \<in> set ms" "om_key m = protected_key mb" by auto
  then show ?thesis
    by (intro protected_marker_found [of m]) (auto simp: protected_key_ref simp flip: branch_key_facts(3))
qed

subsection \<open>The operator's programs\<close>

lemma wp_on_bucket [wp_intros]:
  "wp m (\<lambda>a t. Q a (t, snd p)) (\<lambda>e t. E (MgStore e) (t, snd p)) (fst p) \<Longrightarrow> wp (on_bucket m) Q E p"
  unfolding on_bucket_def by (intro wp_intros)

lemma wp_writeln [wp_intros]:
  assumes "\<And>w. wrote_text (line @ [CHR 0x0A]) (snd p) w \<Longrightarrow> Q () (fst p, w)" "\<And>w. E (MgIo broken_pipe) (fst p, w)"
  shows "wp (writeln line) Q E p"
  unfolding writeln_def by (intro wp_intros assms)

lemma wp_ask [wp_intros]:
  assumes "\<And>b. op_confirm op (wr_text (snd p)) q = Inr b \<Longrightarrow> Q b (op_meanwhile op (fst p), snd p)"
    and "\<And>e. op_confirm op (wr_text (snd p)) q = Inl e \<Longrightarrow> E e (op_meanwhile op (fst p), snd p)"
  shows "wp (ask op q) Q E p"
  using assms by (cases p; cases "op_confirm op (wr_text (snd p)) q") (auto simp: wp_def ask_def)

context store_contract
begin

lemma wp_release_or_warn [wp_intros]:
  assumes "\<And>t. frame view {k} s t \<Longrightarrow> (honest s \<Longrightarrow> honest t) \<Longrightarrow> Q () t"
  shows "wp (release_or_warn st k) Q E s"
  unfolding release_or_warn_def release_lock_def
  by (intro wp_match wp_delete_idempotent wp_ok assms) (auto simp: frame_def)

lemma wp_acquire_ref_lock [wp_intros]:
  assumes "\<And>t. frame view {branch_lock mb} s t \<Longrightarrow> (honest s \<Longrightarrow> honest t) \<Longrightarrow> Q (branch_lock mb, branch_lock mb) t"
    and "\<And>e t. frame view {branch_lock mb} s t \<Longrightarrow> (\<And>b. e \<noteq> BranchNotFound b) \<Longrightarrow> (\<And>b und n. e \<noteq> PartialDelete b und n) \<Longrightarrow> E e t"
  shows "wp (acquire_ref_lock x st mb inputs) Q E s"
  unfolding acquire_ref_lock_def Let_def validated_ref_name_def
  by (intro wp_and_then wp_of_result)
    (auto split: if_splits option.split intro!: wp_intros assms frame_same)

text \<open>The work runs on a bucket that differs in the lock only, and so does what is left of its result.\<close>

lemma wp_under_ref_lock:
  assumes "\<And>e t. frame view {branch_lock mb} s t \<Longrightarrow> (\<And>b. e \<noteq> BranchNotFound b) \<Longrightarrow> (\<And>b und n. e \<noteq> PartialDelete b und n) \<Longrightarrow>
      E e (t, w)"
    and "\<And>t. frame view {branch_lock mb} s t \<Longrightarrow> (honest s \<Longrightarrow> honest t) \<Longrightarrow>
      wp (work (branch_lock mb))
        (\<lambda>_ (u, w'). \<forall>u'. frame view {branch_lock mb} u u' \<longrightarrow> Q () (u', w'))
        (\<lambda>e (u, w'). \<forall>u'. frame view {branch_lock mb} u u' \<longrightarrow> E e (u', w')) (t, w)"
  shows "wp (under_ref_lock x st mb inputs work) Q E (s, w)"
  unfolding under_ref_lock_def
proof (rule wp_and_then, rule wp_in_store, rule wp_acquire_ref_lock, goal_cases)
  case (1 t)
  show ?case
    unfolding prod.case snd_conv
    by (rule wp_match, rule wp_mono [OF assms(2)])
      (use 1 in \<open>auto intro!: wp_intros split: prod.splits\<close>)
qed (use assms(1) in auto)

subsection \<open>Deleting\<close>

lemma wp_verify_no_orphan:
  assumes "\<And>t. view t = view s \<Longrightarrow> Q () t"
  shows "wp (verify_no_orphan_protected_after_delete st pfx r) Q E s"
  unfolding verify_no_orphan_protected_after_delete_def
  by (intro wp_match wp_st_head wp_ok assms)

lemma wp_try_tombstone_baseline:
  assumes "\<And>t. (honest s \<Longrightarrow> honest t) \<Longrightarrow> frame view {baseline_tombstone_key (mb_prefix mb) (ai_uuid inputs)} s t \<Longrightarrow> Q None t"
    and "\<And>c at t. (honest s \<Longrightarrow> honest t) \<Longrightarrow> chain_at x (view s) (chain_key (prefix_opt mb) (mb_ref mb)) = Some c \<Longrightarrow>
      rfc3339_format x (ai_tomb_now inputs) = Some at \<Longrightarrow>
      bundle_key (prefix_opt mb) (mb_ref mb) (cm_full_at c) \<in> om_key ` set fresh \<Longrightarrow>
      wrote (baseline_tombstone_key (mb_prefix mb) (ai_uuid inputs))
        (json_print x (json_of_baseline \<lparr>bt_v = TOMBSTONE_SCHEMA_VERSION, bt_marked_at = at, bt_ref_name = mb_ref mb, bt_sha = cm_full_at c\<rparr>))
        (view s) (view t) \<Longrightarrow> Q (Some (bundle_key (prefix_opt mb) (mb_ref mb) (cm_full_at c))) t"
  shows "wp (try_tombstone_baseline x st mb fresh inputs) Q E s"
proof -
  have none: "wp (ok None) Q E t" if "view t = view s" "honest s \<Longrightarrow> honest t" for t
    by (rule wp_ok) (use that in \<open>auto intro!: assms(1) frame_same\<close>)
  show ?thesis
    unfolding try_tombstone_baseline_def try_write_baseline_tombstone_def write_baseline_tombstone_for_orphan_def
      write_baseline_tombstone_unconditional_def Let_def rfc3339_now_def prefix_opt_str
  proof (intro wp_if wp_match wp_load_chain, goal_cases)
    case (2 c t)
    show ?case
    proof (cases c)
      case (Some c')
      note hyps = 2 Some
      show ?thesis
        unfolding Some option.case
      proof (rule wp_if, goal_cases)
        case 2
        then have mem: "bundle_key (prefix_opt mb) (mb_ref mb) (cm_full_at c') \<in> om_key ` set fresh"
          by (auto simp: list_ex_iff intro: rev_image_eqI)
        show ?case
        proof (intro wp_match wp_and_then wp_of_result wp_map_err wp_st_put_bytes, goal_cases)
          case (1 at u)
          then show ?case using hyps mem by (intro wp_ok assms(2)) (auto split: option.splits)
        next
          case (2 at e u)
          then show ?case using hyps by (intro wp_ok assms(1)) (auto simp: frame_def wrote_def)
        qed (use hyps none in auto)
      qed (use hyps none in auto)
    qed (use 2 none in auto)
  qed (use none in auto)
qed

lemma wp_sweep_keys:
  assumes "honest s"
    and "\<And>und t. honest t \<Longrightarrow> set und \<subseteq> om_key ` set ms \<Longrightarrow>
      (\<And>k. k \<in> om_key ` set ms \<Longrightarrow> Some k \<noteq> d \<Longrightarrow> k \<notin> set und \<Longrightarrow> view t k = None) \<Longrightarrow>
      frame view {k \<in> om_key ` set ms. Some k \<noteq> d} s t \<Longrightarrow> Q und t"
  shows "wp (sweep_keys st d ms) Q E s"
proof -
  define I :: "string list \<Rightarrow> object_meta list \<Rightarrow> 's \<Rightarrow> bool" where "I undeleted done t \<longleftrightarrow> honest t \<and> set undeleted \<subseteq> om_key ` set done \<and>
      (\<forall>k \<in> om_key ` set done. Some k \<noteq> d \<longrightarrow> k \<notin> set undeleted \<longrightarrow> view t k = None) \<and>
      frame view {k \<in> om_key ` set done. Some k \<noteq> d} s t" for undeleted "done" t
  have step: "wp (sweep_key st d undeleted m) (\<lambda>undeleted'. I undeleted' (before @ [m])) E t"
    if I: "I undeleted before t" for undeleted before m t
  proof (cases "d = Some (om_key m)")
    case True
    then show ?thesis using I by (auto simp: sweep_key_def I_def frame_def intro!: wp_ok)
  next
    case False
    show ?thesis
      unfolding sweep_key_def if_not_P [OF False]
    proof (rule wp_match, rule wp_st_delete, goal_cases)
      case (1 u)
      then show ?case using I False by (intro wp_ok) (auto simp: I_def frame_def)
    next
      case (2 e u)
      show ?case
      proof (cases e)
        case (NotFound k)
        then show ?thesis using 2 I False by (auto simp: I_def frame_def intro!: wp_ok)
      qed (use 2 I False in \<open>auto simp: I_def frame_def intro!: wp_ok\<close>)
    qed
  qed
  have all: "wp (fold_io (sweep_key st d) undeleted rest) (\<lambda>undeleted'. I undeleted' (before @ rest)) E t"
    if "I undeleted before t" for undeleted before rest t
    using that
  proof (induction rest arbitrary: undeleted before t)
    case Nil
    then show ?case by (simp add: wp_ok)
  next
    case (Cons m rest)
    show ?case
      unfolding fold_io.simps
      by (rule wp_and_then, rule wp_mono [OF step [OF Cons.prems]])
        (use Cons.IH [of _ "before @ [m]"] in auto)
  qed
  have "I [] [] s" using assms(1) by (simp add: I_def frame_def)
  show ?thesis
    unfolding sweep_keys_def
    by (rule wp_mono [OF all [OF \<open>I [] [] s\<close>]]) (auto simp: I_def intro!: assms(2))
qed

end

text \<open>
  What a deletion leaves: below the branch nothing but the keys in \<open>L\<close>, the lock, and the baseline a
  tombstone was written for; elsewhere everything but the key of that tombstone.
\<close>

definition baseline_doc :: "manage_branch \<Rightarrow> string \<Rightarrow> chain_manifest \<Rightarrow> baseline_tombstone" where
  "baseline_doc mb at c =
     \<lparr>bt_v = TOMBSTONE_SCHEMA_VERSION, bt_marked_at = at, bt_ref_name = mb_ref mb, bt_sha = cm_full_at c\<rparr>"

definition deferred_baseline :: "ext \<Rightarrow> manage_branch \<Rightarrow> admin_inputs \<Rightarrow> bucket \<Rightarrow> bucket \<Rightarrow> string \<Rightarrow> bool" where
  "deferred_baseline x mb inputs v v' k \<longleftrightarrow>
     (\<exists>c at m. chain_at x v (chain_key (prefix_opt mb) (mb_ref mb)) = Some c \<and>
        rfc3339_format x (ai_tomb_now inputs) = Some at \<and>
        k = bundle_key (prefix_opt mb) (mb_ref mb) (cm_full_at c) \<and> v' k = v k \<and>
        v' (baseline_tombstone_key (mb_prefix mb) (ai_uuid inputs)) = Some (json_print x (json_of_baseline (baseline_doc mb at c)), m))"

definition swept_branch ::
    "ext \<Rightarrow> manage_branch \<Rightarrow> admin_inputs \<Rightarrow> string set \<Rightarrow> bucket \<Rightarrow> bucket \<Rightarrow> bool" where
  "swept_branch x mb inputs L v v' \<longleftrightarrow>
     (\<forall>k. k \<noteq> branch_lock mb \<longrightarrow>
        (if prefix (branch_prefix mb) k then v' k = None \<or> k \<in> L \<or> deferred_baseline x mb inputs v v' k
         else v' k = v k \<or> k = baseline_tombstone_key (mb_prefix mb) (ai_uuid inputs)))"

lemma branch_lock_other [simp]:
  "chain_key (prefix_opt mb) (mb_ref mb) \<noteq> branch_lock mb"
  "bundle_key (prefix_opt mb) (mb_ref mb) sha \<noteq> branch_lock mb"
  "baseline_tombstone_key (mb_prefix mb) uuid \<noteq> branch_lock mb"
proof -
  show "chain_key (prefix_opt mb) (mb_ref mb) \<noteq> branch_lock mb" by (simp add: builder_base lock_key_def)
  have "last (bundle_key (prefix_opt mb) (mb_ref mb) sha) \<noteq> last (branch_lock mb)"
    by (simp add: builder_base lock_key_def)
  then show "bundle_key (prefix_opt mb) (mb_ref mb) sha \<noteq> branch_lock mb" by metis
  show "baseline_tombstone_key (mb_prefix mb) uuid \<noteq> branch_lock mb" by (metis branch_key_facts(2,4))
qed

lemma swept_branch_lock:
  assumes "swept_branch x mb inputs L v v'" "\<And>k. k \<noteq> branch_lock mb \<Longrightarrow> v k = u k" "\<And>k. k \<noteq> branch_lock mb \<Longrightarrow> v' k = u' k"
  shows "swept_branch x mb inputs L u u'"
proof -
  have c: "chain_at x v (chain_key (prefix_opt mb) (mb_ref mb)) = chain_at x u (chain_key (prefix_opt mb) (mb_ref mb))"
    by (simp add: chain_at_def assms(2))
  have "deferred_baseline x mb inputs v v' k \<Longrightarrow> deferred_baseline x mb inputs u u' k" for k
    using assms(2,3) [of k] unfolding deferred_baseline_def c
    by (metis (no_types, lifting) assms(2,3) branch_lock_other(2,3))
  with assms show ?thesis unfolding swept_branch_def by metis
qed

context store_contract
begin

lemma delete_under_lock_effect:
  assumes "branch_text mb" "honest s"
  shows "wp (delete_under_lock x st mb inputs (branch_lock mb))
    (\<lambda>_ (t, _). swept_branch x mb inputs {} (view s) (view t))
    (\<lambda>e (t, _). \<forall>b und n. e = PartialDelete b und n \<longrightarrow>
       b = mb_branch mb \<and> und \<noteq> [] \<and> swept_branch x mb inputs (set und) (view s) (view t)) (s, w)"
proof -
  let ?p = "branch_prefix mb" and ?l = "branch_lock mb"
  let ?tomb = "baseline_tombstone_key (mb_prefix mb) (ai_uuid inputs)"
  define E where "E e q \<longleftrightarrow> (\<forall>b und n. e = PartialDelete b und n \<longrightarrow>
       b = mb_branch mb \<and> und \<noteq> [] \<and> swept_branch x mb inputs (set und) (view s) (view (fst q)))" for e and q :: "'s \<times> writer"
  have "wp (delete_under_lock x st mb inputs ?l) (\<lambda>_ q. swept_branch x mb inputs {} (view s) (view (fst q))) E (s, w)"
    unfolding delete_under_lock_def Let_def
  proof (rule wp_and_then, rule wp_on_bucket, rule wp_st_list, goal_cases)
    case (1 ms t)
    define fresh where "fresh = filter (\<lambda>m. om_key m \<noteq> ?l) ms"
    have "lists ?p ms (view s)" using 1(3) assms(1) by simp
    then have keys: "om_key ` set fresh = {k. prefix ?p k \<and> view s k \<noteq> None \<and> k \<noteq> ?l}"
      by (auto simp: fresh_def lists_def image_iff set_eq_iff) metis+
    have t: "view t = view s" "honest t" using 1 assms(2) by auto
    have sweep: "wp (and_then (in_store (sweep_keys st d fresh)) (\<lambda>undeleted.
        if undeleted \<noteq> [] then fail_with (PartialDelete (mb_branch mb) undeleted (length fresh - (if d \<noteq> None then 1 else 0)))
        else and_then (in_store (verify_no_orphan_protected_after_delete st (prefix_opt mb) (mb_ref mb)))
          (\<lambda>_. writeln (''Branch '' @ mb_branch mb @ '' has been deleted''))))
        (\<lambda>_ q. swept_branch x mb inputs {} (view s) (view (fst q))) E (u, w)"
      if u: "honest u" "frame view {?tomb} s u"
        and d: "\<And>k. d = Some k \<Longrightarrow> deferred_baseline x mb inputs (view s) (view u) k" for u d
    proof (rule wp_and_then, rule wp_in_store, rule wp_sweep_keys, goal_cases)
      case (2 und q)
      have swept: "swept_branch x mb inputs (set und) (view s) (view q)"
        unfolding swept_branch_def
      proof (intro allI impI, goal_cases)
        case (1 k)
        show ?case
        proof (cases "prefix ?p k")
          case True
          then have k: "k \<noteq> ?tomb" by auto
          show ?thesis
          proof (cases "d = Some k")
            case True
            have "view q k = view u k" "view q ?tomb = view u ?tomb"
              using 2(4) keys True by (auto simp: frame_def)
            then have "deferred_baseline x mb inputs (view s) (view q) k"
              using d [OF True] by (auto simp: deferred_baseline_def)
            with \<open>prefix ?p k\<close> show ?thesis by simp
          next
            case False
            have "view q k = None \<or> k \<in> set und"
            proof (cases "k \<in> om_key ` set fresh")
              case True
              then show ?thesis using 2(3) [of k] False by auto
            next
              case False
              then have "view s k = None" using keys 1 \<open>prefix ?p k\<close> by auto
              then show ?thesis using False 2(4) u(2) k by (auto simp: frame_def)
            qed
            then show ?thesis using True by auto
          qed
        next
          case False
          then show ?thesis using 2(4) u(2) keys by (auto simp: frame_def)
        qed
      qed
      show ?case
      proof (rule wp_if, goal_cases)
        case 1
        then show ?case using swept by (intro wp_fail) (simp add: E_def)
      next
        case 2
        then have "und = []" by simp
        then show ?case
          using swept by (intro wp_and_then wp_in_store wp_verify_no_orphan wp_writeln) (auto simp: E_def)
      qed
    qed (use u in auto)
    have "wp (if fresh = [] then writeln (''Branch '' @ mb_branch mb @ '' is already gone (concurrent delete during prompt); nothing to do'')
      else if entries_have_protected_marker fresh then fail_with (BranchProtected (mb_branch mb))
      else and_then (in_store (try_tombstone_baseline x st mb fresh inputs)) (\<lambda>d.
        and_then (in_store (sweep_keys st d fresh)) (\<lambda>undeleted.
        if undeleted \<noteq> [] then fail_with (PartialDelete (mb_branch mb) undeleted (length fresh - (if d \<noteq> None then 1 else 0)))
        else and_then (in_store (verify_no_orphan_protected_after_delete st (prefix_opt mb) (mb_ref mb)))
          (\<lambda>_. writeln (''Branch '' @ mb_branch mb @ '' has been deleted'')))))
        (\<lambda>_ q. swept_branch x mb inputs {} (view s) (view (fst q))) E (t, w)"
    proof (intro wp_if, goal_cases)
      case 1
      then have "\<And>k. prefix ?p k \<Longrightarrow> k \<noteq> ?l \<Longrightarrow> view s k = None" using keys
        by (metis (mono_tags, lifting) empty_iff image_empty list.set(1) mem_Collect_eq)
      then show ?case using t by (intro wp_writeln) (auto simp: E_def swept_branch_def)
    next
      case 2
      then show ?case by (intro wp_fail) (simp add: E_def)
    next
      case 3
      show ?case
      proof (rule wp_and_then, rule wp_in_store, rule wp_try_tombstone_baseline, goal_cases)
        case (1 u)
        then show ?case using t unfolding snd_conv by (intro sweep) (auto simp: frame_def)
      next
        case (2 c at u)
        then have "deferred_baseline x mb inputs (view s) (view u) (bundle_key (prefix_opt mb) (mb_ref mb) (cm_full_at c))"
          using t by (auto simp: deferred_baseline_def wrote_def baseline_doc_def)
        with 2 show ?case using t unfolding snd_conv by (intro sweep) (auto simp: frame_def wrote_def)
      qed
    qed
    then show ?case unfolding fresh_def snd_conv .
  next
    case (2 e t)
    then show ?case by (simp add: E_def)
  qed
  then show ?thesis
    by (rule wp_mono) (auto simp: E_def split: prod.splits)
qed

end

text \<open>
  The whole command. Other clients act while the operator is asked: whatever the store's state is
  then, the bucket they leave is \<open>v\<close>.
\<close>

definition others_leave :: "('s \<Rightarrow> bucket) \<Rightarrow> ('s \<Rightarrow> bool) \<Rightarrow> 's operator \<Rightarrow> 's \<Rightarrow> bucket \<Rightarrow> bool" where
  "others_leave view honest op s v \<longleftrightarrow>
     (\<forall>t. view t = view s \<longrightarrow> view (op_meanwhile op t) = v \<and> (honest t \<longrightarrow> honest (op_meanwhile op t)))"

text \<open>Under a protection marker the critical section of a deletion changes nothing.\<close>

context store_contract
begin

lemma delete_under_lock_protected:
  assumes "branch_text mb" "view s (protected_key mb) \<noteq> None"
  shows "wp (delete_under_lock x st mb inputs (branch_lock mb)) (\<lambda>_ _. False) (\<lambda>_ (t, _). view t = view s) (s, w)"
  unfolding delete_under_lock_def Let_def
proof (rule wp_and_then, rule wp_on_bucket, rule wp_st_list, goal_cases)
  case (1 ms t)
  have found: "entries_have_protected_marker (filter (\<lambda>m. om_key m \<noteq> branch_lock mb) ms)"
    by (rule prefix_protected_found [of "branch_prefix mb" _ "view s"]) (use 1(3) assms in auto)
  then have "filter (\<lambda>m. om_key m \<noteq> branch_lock mb) ms \<noteq> []" by (auto simp: entries_have_protected_marker_def)
  with found show ?case using 1(1) by (simp add: wp_fail)
qed simp

lemma wp_delete_into:
  assumes named: "branch_text mb" and others: "others_leave view honest op s v"
    and same: "\<And>e t w'. view t = view s \<Longrightarrow> (\<And>b und n. e \<noteq> PartialDelete b und n) \<Longrightarrow> E e (t, w')"
    and refused: "\<And>n e t w'. op_confirm op (wr_text w) (delete_question mb n) = Inl e \<Longrightarrow> view t = v \<Longrightarrow> E e (t, w')"
    and aborted: "\<And>n t w'. op_confirm op (wr_text w) (delete_question mb n) = Inr False \<Longrightarrow> view t = v \<Longrightarrow> Q () (t, w')"
    and lost: "\<And>e t w'. (\<And>k. k \<noteq> branch_lock mb \<Longrightarrow> view t k = v k) \<Longrightarrow> (\<And>b und n. e \<noteq> PartialDelete b und n) \<Longrightarrow> E e (t, w')"
    and work: "\<And>n t w'. op_confirm op (wr_text w) (delete_question mb n) = Inr True \<Longrightarrow> (honest s \<Longrightarrow> honest t) \<Longrightarrow>
      (\<And>k. k \<noteq> branch_lock mb \<Longrightarrow> view t k = v k) \<Longrightarrow>
      wp (delete_under_lock x st mb inputs (branch_lock mb))
        (\<lambda>_ (u, w'). \<forall>u'. frame view {branch_lock mb} u u' \<longrightarrow> Q () (u', w'))
        (\<lambda>e (u, w'). \<forall>u'. frame view {branch_lock mb} u u' \<longrightarrow> E e (u', w')) (t, w')"
  shows "wp (delete_into x st op mb inputs) Q E (s, w)"
  unfolding delete_into_def
proof (rule wp_and_then, rule wp_on_bucket, rule wp_st_list, goal_cases)
  case (1 ms t)
  have t: "view t = view s" "view (op_meanwhile op t) = v" "honest s \<Longrightarrow> honest (op_meanwhile op t)"
    using others 1 by (auto simp: others_leave_def)
  show ?case
    unfolding snd_conv
  proof (rule wp_if, goal_cases)
    case 1
    then show ?case using t by (intro wp_fail same) auto
  next
    case 2
    show ?case
    proof (rule wp_and_then, rule wp_ask, unfold fst_conv snd_conv, goal_cases)
      case (1 b)
      show ?case
      proof (rule wp_if, goal_cases)
        case 2
        then have yes: "op_confirm op (wr_text w) (delete_question mb (length ms)) = Inr True" using 1 by simp
        show ?case
        proof (rule wp_and_then, rule wp_of_result, rule wp_under_ref_lock, goal_cases)
          case (1 r e u)
          show ?case by (rule lost) (use 1 t in \<open>auto dest: frameD\<close>)
        next
          case (2 r u)
          show ?case by (rule work [OF yes]) (use 2 t in \<open>auto dest: frameD\<close>)
        next
          case (3 e)
          then show ?case using t by (intro lost) (auto simp: validated_ref_name_def split: if_splits)
        qed
      qed (use 1 t in \<open>auto intro!: wp_writeln aborted lost\<close>)
    qed (use t refused in auto)
  qed
qed (use same in auto)

end

text \<open>C31. A deletion leaves a protected branch alone. Whatever faults hit the command, whatever it
  answers, and whatever other clients do while the operator is asked: if the branch carries the
  protection marker when the prompt is answered, then afterwards every key but the lock is as
  those clients left it (or the command ended before the prompt and the bucket is as it was),
  and the command only answers that all went well when the operator said no.\<close>

theorem protected_branches_are_not_deleted:
  assumes "branch_text mb" "others_leave mock_view mock_honest op s v" "v (protected_key mb) \<noteq> None"
    and "delete_into x mock_store op mb inputs (s, w) = (res, (t, w'))"
  shows "(mock_view t = mock_view s \<or> (\<forall>k. k \<noteq> branch_lock mb \<longrightarrow> mock_view t k = v k)) \<and>
    (res = Inr () \<longrightarrow> (\<exists>n. op_confirm op (wr_text w) (delete_question mb n) = Inr False))"
proof -
  let ?S = "\<lambda>t. mock_view t = mock_view s \<or> (\<forall>k. k \<noteq> branch_lock mb \<longrightarrow> mock_view t k = v k)"
  have "wp (delete_into x mock_store op mb inputs)
      (\<lambda>_ (t, _). ?S t \<and> (\<exists>n. op_confirm op (wr_text w) (delete_question mb n) = Inr False)) (\<lambda>_ (t, _). ?S t) (s, w)"
  proof (rule mock.wp_delete_into [OF assms(1,2)], goal_cases)
    case (5 n t w')
    then have "mock_view t (protected_key mb) \<noteq> None" using assms(3) by simp
    from mock.delete_under_lock_protected [OF assms(1) this] show ?case
      by (rule wp_mono) (use 5(3) in \<open>auto simp: frame_def\<close>)
  qed auto
  with assms(4) show ?thesis by (cases res) (auto simp: wp_def)
qed

text \<open>C33. What a deletion answers is what it did, on an honest store with any faults: after a success
  nothing is left below the branch but the lock and, for a packchain branch, the baseline its
  chain named, for which a tombstone was written; after a partial failure the keys it names may
  be left as well, which are the branch's and at least one. Elsewhere nothing but that tombstone
  is written.\<close>

theorem deletions_leave_what_they_answer:
  assumes "branch_text mb" "mock_honest s" "others_leave mock_view mock_honest op s v"
    and "op_confirm op = (\<lambda>_ _. Inr True)" "delete_into x mock_store op mb inputs (s, w) = (res, (t, w'))"
  shows "(res = Inr () \<longrightarrow> swept_branch x mb inputs {} v (mock_view t)) \<and>
    (\<forall>b und n. res = Inl (PartialDelete b und n) \<longrightarrow>
       b = mb_branch mb \<and> und \<noteq> [] \<and> swept_branch x mb inputs (set und) v (mock_view t))"
proof -
  define E where "E e t \<longleftrightarrow> (\<forall>b und n. e = PartialDelete b und n \<longrightarrow>
       b = mb_branch mb \<and> und \<noteq> [] \<and> swept_branch x mb inputs (set und) v (mock_view t))" for e t
  have "wp (delete_into x mock_store op mb inputs)
      (\<lambda>_ (t, _). swept_branch x mb inputs {} v (mock_view t)) (\<lambda>e (t, _). E e t) (s, w)"
  proof (rule mock.wp_delete_into [OF assms(1,3)], goal_cases)
    case (5 n t w')
    have t: "mock_honest t" using 5 assms(2) by simp
    have lock: "swept_branch x mb inputs L v (mock_view u')"
      if "swept_branch x mb inputs L (mock_view t) (mock_view u)" "frame mock_view {branch_lock mb} u u'" for L u u'
      by (rule swept_branch_lock [OF that(1)]) (use 5(3) that(2) in \<open>auto simp: frame_def\<close>)
    show ?case
      by (rule wp_mono [OF mock.delete_under_lock_effect [OF assms(1) t]]) (auto simp: E_def intro: lock)
  qed (use assms(4) in \<open>auto simp: E_def\<close>)
  with assms(5) show ?thesis unfolding E_def by (cases res) (auto simp: wp_def)
qed

subsection \<open>Protecting\<close>

text \<open>A branch has data when a key below it is neither a lock nor a protection marker.\<close>

definition branch_data :: "manage_branch \<Rightarrow> bucket \<Rightarrow> bool" where
  "branch_data mb v \<longleftrightarrow>
     (\<exists>k. prefix (branch_prefix mb) k \<and> v k \<noteq> None \<and> \<not> suffix ''.lock'' k \<and> \<not> suffix (CHR ''/'' # PROTECTED_MARKER_SEGMENT) k)"

lemma branch_prefix_sep: "prefix (branch_prefix mb) k \<Longrightarrow> CHR ''/'' \<in> set k"
  by (auto simp: branch_prefix_def ref_listing_prefix_base prefix_def)

lemma marker_segment_suffix:
  assumes "CHR ''/'' \<in> set k"
  shows "(case rsplit_once CHR ''/'' k of None \<Rightarrow> k | Some (_, seg) \<Rightarrow> seg) = PROTECTED_MARKER_SEGMENT \<longleftrightarrow>
    suffix (CHR ''/'' # PROTECTED_MARKER_SEGMENT) k"
proof -
  have free: "CHR ''/'' \<notin> set PROTECTED_MARKER_SEGMENT" by (simp add: PROTECTED_MARKER_SEGMENT_def)
  obtain a b where ab: "rsplit_once CHR ''/'' k = Some (a, b)"
    using assms rsplit_once_None [of "CHR ''/''" k] by (cases "rsplit_once CHR ''/'' k") auto
  then have k: "k = a @ CHR ''/'' # b" "CHR ''/'' \<notin> set b" by (auto simp: rsplit_once_Some)
  show ?thesis
  proof
    assume "(case rsplit_once CHR ''/'' k of None \<Rightarrow> k | Some (_, seg) \<Rightarrow> seg) = PROTECTED_MARKER_SEGMENT"
    with ab k show "suffix (CHR ''/'' # PROTECTED_MARKER_SEGMENT) k" by (simp add: suffix_def)
  next
    assume "suffix (CHR ''/'' # PROTECTED_MARKER_SEGMENT) k"
    then obtain d where "k = d @ CHR ''/'' # PROTECTED_MARKER_SEGMENT" by (auto simp: suffix_def)
    then have "rsplit_once CHR ''/'' k = Some (d, PROTECTED_MARKER_SEGMENT)" using free by simp
    then show "(case rsplit_once CHR ''/'' k of None \<Rightarrow> k | Some (_, seg) \<Rightarrow> seg) = PROTECTED_MARKER_SEGMENT" by simp
  qed
qed

lemma listed_branch_data:
  assumes "lists (branch_prefix mb) ms v"
  shows "has_branch_data ms \<longleftrightarrow> branch_data mb v"
proof -
  have keys: "om_key ` set ms = {k. prefix (branch_prefix mb) k \<and> v k \<noteq> None}" using assms by (simp add: lists_def)
  have "has_branch_data ms \<longleftrightarrow> (\<exists>k \<in> om_key ` set ms. \<not> suffix ''.lock'' k \<and>
      (case rsplit_once CHR ''/'' k of None \<Rightarrow> k | Some (_, seg) \<Rightarrow> seg) \<noteq> PROTECTED_MARKER_SEGMENT)"
    by (auto simp: has_branch_data_def list_ex_iff is_lock_key_def is_protected_marker_segment_def)
  also have "\<dots> \<longleftrightarrow> branch_data mb v"
    unfolding keys branch_data_def using marker_segment_suffix branch_prefix_sep by auto
  finally show ?thesis .
qed

lemma branch_data_lock:
  assumes "\<And>k. k \<noteq> branch_lock mb \<Longrightarrow> v k = u k"
  shows "branch_data mb v \<longleftrightarrow> branch_data mb u"
proof -
  have "suffix ''.lock'' (branch_lock mb)" by (simp add: lock_key_def suffix_def)
  then have "(v k \<noteq> None \<and> \<not> suffix ''.lock'' k) \<longleftrightarrow> (u k \<noteq> None \<and> \<not> suffix ''.lock'' k)" for k
    using assms [of k] by (cases "k = branch_lock mb") auto
  then show ?thesis unfolding branch_data_def by metis
qed

context store_contract
begin

lemma protect_under_lock_effect:
  assumes "branch_text mb"
  shows "wp (protect_under_lock st mb)
    (\<lambda>_ (t, _). branch_data mb (view s) \<and> wrote (protected_key mb) [] (view s) (view t))
    (\<lambda>e (t, _). (view t = view s \<or> wrote (protected_key mb) [] (view s) (view t)) \<and>
       (\<forall>b. e = BranchNotFound b \<longrightarrow> \<not> branch_data mb (view s) \<and> view t = view s)) (s, w)"
  unfolding protect_under_lock_def
proof (rule wp_and_then, rule wp_on_bucket, rule wp_st_list, goal_cases)
  case (1 ms t)
  have data: "has_branch_data ms \<longleftrightarrow> branch_data mb (view s)"
    by (rule listed_branch_data) (use 1(3) assms in simp)
  show ?case
  proof (rule wp_if, goal_cases)
    case 2
    then show ?case
      using 1 data by (intro wp_and_then wp_on_bucket wp_st_put_bytes wp_writeln) auto
  qed (use 1 data in \<open>auto intro!: wp_fail\<close>)
qed auto

lemma unprotect_under_lock_effect:
  assumes "honest s"
  shows "wp (unprotect_under_lock st mb)
    (\<lambda>_ (t, _). view t = (view s)(protected_key mb := None))
    (\<lambda>_ (t, _). view t = view s \<or> view t = (view s)(protected_key mb := None)) (s, w)"
  unfolding unprotect_under_lock_def
proof (rule wp_match, rule wp_in_store, rule wp_st_delete, goal_cases)
  case (2 e t)
  then show ?case using assms by (cases e) (auto intro!: wp_writeln wp_fail simp: fun_upd_idem)
qed (auto intro!: wp_writeln)

end

text \<open>C34. The protection marker is what the commands answer, on an honest store with any faults. After
  \<open>protect\<close> succeeds the marker is there and the branch had data; it answers that the branch is
  gone only when nothing but locks and markers was left, and then writes no marker. After
  \<open>unprotect\<close> succeeds the marker is gone. Neither touches a key but the marker and the lock.\<close>

theorem protection_is_what_was_answered:
  assumes "branch_text mb" "mock_honest s"
    and "protect_into x mock_store mb inputs (s, w) = (res, (t, w'))"
    and "unprotect_into x mock_store mb inputs (s, w) = (res', (t', w''))"
  shows "frame mock_view {protected_key mb, branch_lock mb} s t \<and>
    (res = Inr () \<longrightarrow> branch_data mb (mock_view s) \<and> mock_view t (protected_key mb) \<noteq> None) \<and>
    (\<forall>b. res = Inl (BranchNotFound b) \<longrightarrow>
       \<not> branch_data mb (mock_view s) \<and> mock_view t (protected_key mb) = mock_view s (protected_key mb)) \<and>
    frame mock_view {protected_key mb, branch_lock mb} s t' \<and>
    (res' = Inr () \<longrightarrow> mock_view t' (protected_key mb) = None)"
proof -
  let ?K = "{protected_key mb, branch_lock mb}"
  define E where "E e t \<longleftrightarrow> frame mock_view ?K s t \<and> (\<forall>b. e = BranchNotFound b \<longrightarrow>
       \<not> branch_data mb (mock_view s) \<and> mock_view t (protected_key mb) = mock_view s (protected_key mb))" for e t
  have protect: "wp (protect_into x mock_store mb inputs)
      (\<lambda>_ (t, _). frame mock_view ?K s t \<and> branch_data mb (mock_view s) \<and> mock_view t (protected_key mb) \<noteq> None)
      (\<lambda>e (t, _). E e t) (s, w)"
    unfolding protect_into_def
  proof (rule mock.wp_under_ref_lock, goal_cases)
    case (2 t)
    have data: "branch_data mb (mock_view t) \<longleftrightarrow> branch_data mb (mock_view s)"
      by (rule branch_data_lock) (use 2(1) in \<open>auto simp: frame_def\<close>)
    show ?case
      by (rule wp_mono [OF mock.protect_under_lock_effect [OF assms(1)]])
        (use 2(1) in \<open>auto simp: data E_def frame_def wrote_def\<close>)
  qed (auto simp: E_def frame_def)
  have unprotect: "wp (unprotect_into x mock_store mb inputs)
      (\<lambda>_ (t, _). frame mock_view ?K s t \<and> mock_view t (protected_key mb) = None) (\<lambda>_ (t, _). frame mock_view ?K s t) (s, w)"
    unfolding unprotect_into_def
  proof (rule mock.wp_under_ref_lock, goal_cases)
    case (2 t)
    then have "mock_honest t" using assms(2) by simp
    then show ?case
      by (rule wp_mono [OF mock.unprotect_under_lock_effect]) (use 2(1) in \<open>auto simp: frame_def\<close>)
  qed (auto simp: frame_def)
  have "frame mock_view ?K s t \<and>
    (res = Inr () \<longrightarrow> branch_data mb (mock_view s) \<and> mock_view t (protected_key mb) \<noteq> None) \<and>
    (\<forall>b. res = Inl (BranchNotFound b) \<longrightarrow>
       \<not> branch_data mb (mock_view s) \<and> mock_view t (protected_key mb) = mock_view s (protected_key mb))"
    using protect assms(3) unfolding E_def by (cases res) (auto simp: wp_def)
  moreover have "frame mock_view ?K s t' \<and> (res' = Inr () \<longrightarrow> mock_view t' (protected_key mb) = None)"
    using unprotect assms(4) by (cases res') (auto simp: wp_def)
  ultimately show ?thesis by blast
qed

subsection \<open>On a quiet store\<close>

lemma wp_writeln_open:
  "wr_room (snd p) = None \<Longrightarrow> (\<And>w. wr_room w = None \<Longrightarrow> Q () (fst p, w)) \<Longrightarrow> wp (writeln line) Q E p"
  unfolding writeln_def
  by (rule wp_map_err, rule wp_write_all) (auto simp: wrote_text_def wrote_part_def)

text \<open>The baseline a deletion leaves, when it can write the tombstone.\<close>

definition kept_baseline :: "ext \<Rightarrow> manage_branch \<Rightarrow> admin_inputs \<Rightarrow> bucket \<Rightarrow> string option" where
  "kept_baseline x mb inputs v =
     (case (chain_at x v (chain_key (prefix_opt mb) (mb_ref mb)), rfc3339_format x (ai_tomb_now inputs)) of
        (Some c, Some _) \<Rightarrow>
          (let k = bundle_key (prefix_opt mb) (mb_ref mb) (cm_full_at c) in if v k \<noteq> None then Some k else None)
      | _ \<Rightarrow> None)"

definition branch_deleted :: "ext \<Rightarrow> manage_branch \<Rightarrow> admin_inputs \<Rightarrow> bucket \<Rightarrow> bucket \<Rightarrow> bool" where
  "branch_deleted x mb inputs v v' \<longleftrightarrow>
     (\<forall>k. prefix (branch_prefix mb) k \<longrightarrow> v' k = (if kept_baseline x mb inputs v = Some k then v k else None)) \<and>
     (\<forall>k. \<not> prefix (branch_prefix mb) k \<longrightarrow> k \<noteq> baseline_tombstone_key (mb_prefix mb) (ai_uuid inputs) \<longrightarrow> v' k = v k)"

context calm_store
begin

lemma calm_sweep_key:
  assumes "calm s"
    and "\<And>t. calm t \<Longrightarrow> view t = without ({om_key m} \<inter> {k. d \<noteq> Some k}) (view s) \<Longrightarrow> Q undeleted t"
  shows "wp (sweep_key st d undeleted m) Q E s"
proof (cases "d = Some (om_key m)")
  case True
  show ?thesis
    unfolding sweep_key_def if_P [OF True]
    by (rule wp_ok, rule assms(2)) (use True assms(1) in \<open>auto simp: without_def\<close>)
next
  case False
  show ?thesis
    unfolding sweep_key_def if_not_P [OF False]
  proof (rule wp_match, rule calm_wp_delete [OF assms(1)], goal_cases)
    case (1 t)
    then show ?case using False by (intro wp_ok assms(2)) (auto simp: without_def)
  next
    case (2 t)
    then have "view t = without ({om_key m} \<inter> {k. d \<noteq> Some k}) (view s)" using False by (auto simp: without_def)
    with 2 show ?case by (simp add: wp_ok assms(2))
  qed
qed

lemma calm_sweep_keys:
  assumes "calm s" "\<And>t. calm t \<Longrightarrow> view t = without {k \<in> om_key ` set ms. d \<noteq> Some k} (view s) \<Longrightarrow> Q [] t"
  shows "wp (sweep_keys st d ms) Q E s"
  unfolding sweep_keys_def using assms
proof (induction ms arbitrary: s)
  case Nil
  then show ?case by (auto intro!: wp_ok simp: without_def)
next
  case (Cons m ms)
  show ?case
    unfolding fold_io.simps
  proof (rule wp_and_then, rule calm_sweep_key [OF Cons.prems(1)], goal_cases)
    case (1 t)
    show ?case
      by (rule Cons.IH [OF 1(1)], rule Cons.prems(2), assumption) (auto simp: 1(2) without_def fun_eq_iff)
  qed
qed

end

context calm_store
begin

lemma calm_try_tombstone_baseline:
  assumes "calm s" "ref_name_ok x (mb_ref mb)"
    and "om_key ` set fresh = {k. prefix (branch_prefix mb) k \<and> view s k \<noteq> None \<and> k \<noteq> branch_lock mb}"
    and "\<And>t. calm t \<Longrightarrow> frame view {baseline_tombstone_key (mb_prefix mb) (ai_uuid inputs)} s t \<Longrightarrow>
      Q (kept_baseline x mb inputs (view s)) t"
  shows "wp (try_tombstone_baseline x st mb fresh inputs) Q E s"
proof -
  let ?ck = "chain_key (prefix_opt mb) (mb_ref mb)" and ?bk = "\<lambda>c. bundle_key (prefix_opt mb) (mb_ref mb) (cm_full_at c)"
  have none: "wp (ok None) Q E t" if "calm t" "view t = view s" "kept_baseline x mb inputs (view s) = None" for t
    using assms(4) [of t] that by (intro wp_ok) (simp add: frame_def)
  have mem: "list_ex (\<lambda>m. om_key m = ?bk c) fresh \<longleftrightarrow> view s (?bk c) \<noteq> None" for c
  proof -
    have "list_ex (\<lambda>m. om_key m = ?bk c) fresh \<longleftrightarrow> ?bk c \<in> om_key ` set fresh"
      by (auto simp: list_ex_iff intro: rev_image_eqI)
    then show ?thesis by (simp add: assms(3) branch_prefix_ref)
  qed
  have kept: "kept_baseline x mb inputs (view s) =
      (if rfc3339_format x (ai_tomb_now inputs) = None \<or> view s (?bk c) = None then None else Some (?bk c))"
    if "chain_at x (view s) ?ck = Some c" for c
    using that by (auto simp: kept_baseline_def Let_def split: option.splits)
  have absent: "kept_baseline x mb inputs (view s) = None" if "chain_at x (view s) ?ck = None"
    using that by (simp add: kept_baseline_def)
  show ?thesis
    unfolding try_tombstone_baseline_def if_not_P [OF not_not [THEN iffD2, OF assms(2)]] try_write_baseline_tombstone_def
      write_baseline_tombstone_for_orphan_def write_baseline_tombstone_unconditional_def rfc3339_now_def prefix_opt_str
  proof (rule wp_match, rule calm_load_chain [OF assms(1)], goal_cases)
    case (1 c t)
    show ?case
    proof (cases c)
      case None
      then show ?thesis using 1 absent by (auto intro!: none)
    next
      case (Some c')
      then have c': "chain_at x (view s) ?ck = Some c'" using 1 by simp
      show ?thesis
      proof (cases "view s (?bk c') = None")
        case True
        then show ?thesis using Some 1 kept [OF c'] by (auto simp: mem intro!: none)
      next
        case False
        show ?thesis
        proof (cases "rfc3339_format x (ai_tomb_now inputs)")
          case None
          then show ?thesis
            using Some False 1 kept [OF c'] by (auto simp: mem intro!: wp_match wp_and_then wp_of_result none)
        next
          case (Some at)
          show ?thesis
            unfolding \<open>c = Some c'\<close> option.case Let_def Some sum.case
            by (intro wp_if wp_match wp_and_then wp_of_result wp_map_err calm_wp_put_bytes 1(1))
              (use 1 False kept [OF c'] Some mem assms(4) in \<open>auto simp: frame_def wrote_def intro!: wp_ok\<close>)
        qed
      qed
    qed
  next
    case (2 e b m t)
    then show ?case by (intro none absent) (auto simp: chain_at_def)
  qed
qed

lemma calm_delete_under_lock:
  assumes "branch_text mb" "calm s" "ref_name_ok x (mb_ref mb)" "wr_room w = None"
    and free: "\<And>d. prefix (branch_prefix mb) (d @ CHR ''/'' # PROTECTED_MARKER_SEGMENT) \<Longrightarrow>
      view s (d @ CHR ''/'' # PROTECTED_MARKER_SEGMENT) = None"
    and post: "\<And>t w. calm t \<Longrightarrow> wr_room w = None \<Longrightarrow>
      (\<forall>k. prefix (branch_prefix mb) k \<longrightarrow> k \<noteq> branch_lock mb \<longrightarrow> view t k = (if kept_baseline x mb inputs (view s) = Some k then view s k else None)) \<Longrightarrow>
      (\<forall>k. \<not> prefix (branch_prefix mb) k \<longrightarrow> k \<noteq> baseline_tombstone_key (mb_prefix mb) (ai_uuid inputs) \<longrightarrow> view t k = view s k) \<Longrightarrow> Q () (t, w)"
  shows "wp (delete_under_lock x st mb inputs (branch_lock mb)) Q E (s, w)"
  unfolding delete_under_lock_def Let_def
proof (rule wp_and_then, rule wp_on_bucket, rule calm_wp_list, unfold fst_conv snd_conv, rule assms(2), goal_cases)
  case (1 ms t)
  let ?p = "branch_prefix mb" and ?l = "branch_lock mb"
  define fresh where "fresh = filter (\<lambda>m. om_key m \<noteq> ?l) ms"
  have "view t = view s" using 1 by simp
  have "lists ?p ms (view s)" using 1(3) assms(1) by simp
  then have keys: "om_key ` set fresh = {k. prefix ?p k \<and> view s k \<noteq> None \<and> k \<noteq> ?l}"
    by (auto simp: fresh_def lists_def image_iff set_eq_iff) metis+
  have np: "\<not> entries_have_protected_marker fresh"
  proof
    assume "entries_have_protected_marker fresh"
    then obtain e d where e: "e \<in> set fresh" "om_key e = d @ CHR ''/'' # PROTECTED_MARKER_SEGMENT"
      unfolding entries_protected_iff by blast
    then have "d @ CHR ''/'' # PROTECTED_MARKER_SEGMENT \<in> om_key ` set fresh" by (auto intro: rev_image_eqI)
    then show False using free [of d] unfolding keys by simp
  qed
  show ?case
    unfolding fresh_def [symmetric] if_not_P [OF np]
  proof (rule wp_if, goal_cases)
    case a: 1
    then have "\<And>k. prefix ?p k \<Longrightarrow> k \<noteq> ?l \<Longrightarrow> view s k = None"
      using keys by (metis (mono_tags, lifting) empty_iff image_empty list.set(1) mem_Collect_eq)
    then show ?case using 1 assms(4) by (intro wp_writeln_open) (auto intro!: post)
  next
    case 2
    show ?case
    proof (rule wp_and_then, rule wp_in_store, rule calm_try_tombstone_baseline [OF _ assms(3)], unfold fst_conv snd_conv, goal_cases)
      case (3 u)
      show ?case
      proof (rule wp_and_then, rule wp_in_store, rule calm_sweep_keys, unfold fst_conv snd_conv, rule 3(1), goal_cases)
        case b: (1 q)
        let ?kept = "kept_baseline x mb inputs (view s)"
        have u: "view u k = view s k" if "k \<noteq> baseline_tombstone_key (mb_prefix mb) (ai_uuid inputs)" for k
          using 3(2) 1(2) that by (simp add: frame_def)
        have q: "view q k = (if ?kept = Some k then view s k else None)" if "prefix ?p k" "k \<noteq> ?l" for k
        proof -
          have k: "k \<noteq> baseline_tombstone_key (mb_prefix mb) (ai_uuid inputs)" using that(1) by auto
          have "k \<in> om_key ` set fresh \<longleftrightarrow> view s k \<noteq> None" using keys that by simp
          then show ?thesis using b(2) u [OF k] \<open>view t = view s\<close> by (auto simp: without_def)
        qed
        have q': "view q k = view s k"
          if "\<not> prefix ?p k" "k \<noteq> baseline_tombstone_key (mb_prefix mb) (ai_uuid inputs)" for k
          using keys that b(2) u [OF that(2)] by (auto simp: without_def)
        have "wp (and_then (in_store (verify_no_orphan_protected_after_delete st (prefix_opt mb) (mb_ref mb)))
            (\<lambda>_. writeln (''Branch '' @ mb_branch mb @ '' has been deleted''))) Q E (q, w)"
          by (intro wp_and_then wp_in_store calm_verify_no_orphan wp_writeln_open)
            (use b(1) q q' assms(4) in \<open>auto intro!: post\<close>)
        then show ?case by simp
      qed
    qed (use 1 keys in auto)
  qed
qed

end

lemma kept_baseline_lock:
  assumes "\<And>k. k \<noteq> branch_lock mb \<Longrightarrow> v k = u k"
  shows "kept_baseline x mb inputs v = kept_baseline x mb inputs u"
proof -
  have "chain_at x v (chain_key (prefix_opt mb) (mb_ref mb)) = chain_at x u (chain_key (prefix_opt mb) (mb_ref mb))"
    by (simp add: chain_at_def assms)
  then show ?thesis by (simp add: kept_baseline_def assms Let_def split: option.split)
qed

lemma kept_baseline_Some:
  assumes "kept_baseline x mb inputs v = Some b"
  shows "\<exists>c :: chain_manifest. b = bundle_key (prefix_opt mb) (mb_ref mb) (cm_full_at c) \<and> v b \<noteq> None"
proof -
  obtain c where c: "chain_at x v (chain_key (prefix_opt mb) (mb_ref mb)) = Some c"
    using assms by (cases "chain_at x v (chain_key (prefix_opt mb) (mb_ref mb))") (auto simp: kept_baseline_def)
  obtain at where "rfc3339_format x (ai_tomb_now inputs) = Some at"
    using assms c by (cases "rfc3339_format x (ai_tomb_now inputs)") (auto simp: kept_baseline_def)
  with assms c have "b = bundle_key (prefix_opt mb) (mb_ref mb) (cm_full_at c) \<and> v b \<noteq> None"
    by (auto simp: kept_baseline_def Let_def split: if_splits)
  then show ?thesis by blast
qed

lemma kept_baseline_not_lock: "kept_baseline x mb inputs v \<noteq> Some (branch_lock mb)"
  by (auto simp: kept_baseline_def Let_def split: option.split)

text \<open>A branch without a protection marker below it, at whatever depth.\<close>

definition unprotected :: "manage_branch \<Rightarrow> bucket \<Rightarrow> bool" where
  "unprotected mb v \<longleftrightarrow> (\<forall>d. prefix (branch_prefix mb) (d @ CHR ''/'' # PROTECTED_MARKER_SEGMENT) \<longrightarrow>
     v (d @ CHR ''/'' # PROTECTED_MARKER_SEGMENT) = None)"

lemma unprotectedD:
  "unprotected mb v \<Longrightarrow> prefix (branch_prefix mb) (d @ CHR ''/'' # PROTECTED_MARKER_SEGMENT) \<Longrightarrow>
     v (d @ CHR ''/'' # PROTECTED_MARKER_SEGMENT) = None"
  by (simp add: unprotected_def)

lemma unprotected_lists:
  assumes "unprotected mb v" "lists (branch_prefix mb) ms v"
  shows "\<not> entries_have_protected_marker ms"
proof
  assume "entries_have_protected_marker ms"
  then obtain e d where e: "e \<in> set ms" "om_key e = d @ CHR ''/'' # PROTECTED_MARKER_SEGMENT"
    unfolding entries_protected_iff by blast
  then have "om_key e \<in> set (map om_key ms)" by (metis image_eqI list.set_map)
  with assms(2) have "prefix (branch_prefix mb) (om_key e) \<and> v (om_key e) \<noteq> None" by (simp add: lists_def)
  with e(2) unprotectedD [OF assms(1), of d] show False by simp
qed

lemma lock_not_marker: "branch_lock mb \<noteq> d @ CHR ''/'' # PROTECTED_MARKER_SEGMENT"
proof
  assume "branch_lock mb = d @ CHR ''/'' # PROTECTED_MARKER_SEGMENT"
  then have "last (branch_lock mb) = last (d @ CHR ''/'' # PROTECTED_MARKER_SEGMENT)" by simp
  then show False by (simp add: lock_key_def PROTECTED_MARKER_SEGMENT_def)
qed

context calm_store
begin

lemma calm_under_ref_lock:
  assumes "calm s" "ref_name_ok x (mb_ref mb)"
    and "\<not> lock_live (view s) (branch_lock mb) (lock_ttl_from_env (ai_ttl_env inputs)) (ai_now inputs)"
    and "\<And>t m. calm t \<Longrightarrow> view t = (view s)(branch_lock mb \<mapsto> ([], m)) \<Longrightarrow>
      wp (work (branch_lock mb))
        (\<lambda>_ (u, w'). calm u \<and> (\<forall>u'. calm u' \<longrightarrow> view u' = (view u)(branch_lock mb := None) \<longrightarrow> Q () (u', w')))
        (\<lambda>_ _. False) (t, w)"
  shows "wp (under_ref_lock x st mb inputs work) Q E (s, w)"
  unfolding under_ref_lock_def acquire_ref_lock_def validated_ref_name_def if_P [OF assms(2)] Let_def
proof (rule wp_and_then, rule wp_in_store, rule wp_and_then, rule wp_of_result, rule wp_and_then, rule wp_map_err,
    unfold fst_conv snd_conv, goal_cases)
  case (1 r)
  then have r: "r = mb_ref mb" by simp
  show ?case
    unfolding r
  proof (rule calm_acquire_lock [OF assms(1)], goal_cases)
    case (1 m t)
    show ?case
      unfolding option.case
    proof (rule wp_ok, unfold prod.case, rule wp_match, rule wp_mono [OF assms(4) [OF 1(1,3)]], goal_cases)
      case (1 a p)
      obtain u w' where p: "p = (u, w')" by force
      from 1 show ?case
        unfolding p release_or_warn_def prod.case
        by (intro wp_in_store wp_match calm_release_lock) (auto intro!: wp_ok)
    qed simp
  next
    case (2 t)
    with assms(3) show ?case by simp
  qed
qed simp

lemma calm_delete_into:
  assumes "branch_text mb" "calm s" "ref_name_ok x (mb_ref mb)" "wr_room w = None"
    and others: "others_leave view calm op s v" and yes: "\<And>shown q. op_confirm op shown q = Inr True"
    and free: "unprotected mb (view s)" "unprotected mb v"
    and lock: "\<not> lock_live v (branch_lock mb) (lock_ttl_from_env (ai_ttl_env inputs)) (ai_now inputs)"
    and post: "\<And>t w. calm t \<Longrightarrow> wr_room w = None \<Longrightarrow> branch_deleted x mb inputs v (view t) \<Longrightarrow> Q () (t, w)"
  shows "wp (delete_into x st op mb inputs) Q E (s, w)"
  unfolding delete_into_def
proof (rule wp_and_then, rule wp_on_bucket, rule calm_wp_list, unfold fst_conv snd_conv, rule assms(2), goal_cases)
  case (1 ms t)
  have np: "\<not> entries_have_protected_marker ms"
    by (rule unprotected_lists [OF free(1)]) (use 1(3) assms(1) in simp)
  let ?s = "op_meanwhile op t"
  have s: "view ?s = v" "calm ?s" using others 1 by (auto simp: others_leave_def)
  show ?case
    unfolding if_not_P [OF np]
  proof (rule wp_and_then, rule wp_ask, unfold yes fst_conv snd_conv, goal_cases)
    case (1 b)
    then have b: "\<not> \<not> b" by simp
    show ?case
      unfolding if_not_P [OF b]
    proof (rule wp_and_then, rule wp_of_result, rule calm_under_ref_lock [OF s(2) assms(3)], goal_cases)
      case 1
      then show ?case using lock s(1) by simp
    next
      case (2 r t m)
      then have t: "view t k = v k" if "k \<noteq> branch_lock mb" for k using that s(1) by simp
      have kept: "kept_baseline x mb inputs (view t) = kept_baseline x mb inputs v"
        by (rule kept_baseline_lock) (rule t)
      show ?case
      proof (rule calm_delete_under_lock [OF assms(1) 2(2) assms(3,4)], goal_cases)
        case (1 d)
        then show ?case using t [of "d @ CHR ''/'' # PROTECTED_MARKER_SEGMENT"] unprotectedD [OF free(2)] lock_not_marker by metis
      next
        case (2 u w')
        have "branch_deleted x mb inputs v ((view u)(branch_lock mb := None))"
          using 2(3,4) t kept_baseline_not_lock unfolding kept branch_deleted_def by auto
        with 2 show ?case by (auto intro!: post)
      qed
    qed (use assms(3) in \<open>simp add: validated_ref_name_def\<close>)
  qed auto
qed

lemma calm_protect_into:
  assumes "branch_text mb" "calm s" "ref_name_ok x (mb_ref mb)" "wr_room w = None" "branch_data mb (view s)"
    and "\<not> lock_live (view s) (branch_lock mb) (lock_ttl_from_env (ai_ttl_env inputs)) (ai_now inputs)"
    and post: "\<And>t w m. calm t \<Longrightarrow> wr_room w = None \<Longrightarrow>
      view t = (view s)(protected_key mb \<mapsto> ([], m), branch_lock mb := None) \<Longrightarrow> Q () (t, w)"
  shows "wp (protect_into x st mb inputs) Q E (s, w)"
  unfolding protect_into_def
proof (rule calm_under_ref_lock [OF assms(2,3,6)], goal_cases)
  case (1 t m)
  have data: "branch_data mb (view t)" using assms(5) branch_data_lock [of mb "view t" "view s"] 1(2) by simp
  show ?case
    unfolding protect_under_lock_def
  proof (rule wp_and_then, rule wp_on_bucket, rule calm_wp_list, unfold fst_conv snd_conv, rule 1(1), goal_cases)
    case a: (1 ms u)
    have "has_branch_data ms"
      using listed_branch_data [of mb ms "view t"] a(3) assms(1) data by simp
    then have has: "\<not> \<not> has_branch_data ms" by simp
    show ?case
      unfolding if_not_P [OF has]
    proof (rule wp_and_then, rule wp_on_bucket, rule calm_wp_put_bytes, unfold fst_conv snd_conv, rule a(1), goal_cases)
      case b: (1 q)
      then obtain m' where q: "view q = (view s)(branch_lock mb \<mapsto> ([], m), protected_key mb \<mapsto> ([], m'))"
        using a(2) 1(2) by (auto simp: wrote_def)
      show ?case
        by (rule wp_writeln_open)
          (use b(1) assms(4) q in \<open>auto intro!: post [of _ _ m'] simp: fun_upd_twist\<close>)
    qed
  qed
qed

end

text \<open>On a quiet store the deletion of an unprotected branch whose lock is free succeeds once the
  operator agrees: everything below the branch is gone, the lock included, but for the baseline
  of a packchain branch, and nothing else changes but that baseline's tombstone.\<close>

lemma agreed_deletions_succeed:
  assumes "branch_text mb" "mock_calm s" "ref_name_ok x (mb_ref mb)" "wr_room w = None"
    and "others_leave mock_view mock_calm op s v" "\<forall>shown q. op_confirm op shown q = Inr True"
    and "unprotected mb (mock_view s)" "unprotected mb v"
    and "\<not> lock_live v (branch_lock mb) (lock_ttl_from_env (ai_ttl_env inputs)) (ai_now inputs)"
  shows "\<exists>t w'. delete_into x mock_store op mb inputs (s, w) = (Inr (), (t, w')) \<and> branch_deleted x mb inputs v (mock_view t)"
  using calm_mock.calm_delete_into [OF assms(1-5) _ assms(7-9),
      where Q = "\<lambda>_ (t, _). branch_deleted x mb inputs v (mock_view t)", THEN wp_totalD] assms(6) by fastforce

text \<open>C39. The deferred baseline keeps a deleted packchain branch alive for the next command: after a
  deletion that answered that all is done, and although the chain is gone, the branch still
  opens and \<open>protect\<close> succeeds and leaves a protection marker for a ref that does not exist.\<close>

theorem deleted_branches_can_be_protected:
  assumes "branch_text mb" "mock_calm s" "ref_name_ok x (mb_ref mb)" "wr_room w = None"
    and "others_leave mock_view mock_calm op s v" "\<forall>shown q. op_confirm op shown q = Inr True"
    and "unprotected mb (mock_view s)" "unprotected mb v"
    and "\<not> lock_live v (branch_lock mb) (lock_ttl_from_env (ai_ttl_env inputs)) (ai_now inputs)"
    and "kept_baseline x mb inputs v = Some b"
  shows "\<exists>t w' u t' w''. delete_into x mock_store op mb inputs (s, w) = (Inr (), (t, w')) \<and>
    open_branch x mock_store (mb_prefix mb) (mb_branch mb) t = (Inr mb, u) \<and>
    protect_into x mock_store mb inputs (u, w') = (Inr (), (t', w'')) \<and>
    mock_view t' (chain_key (prefix_opt mb) (mb_ref mb)) = None \<and> mock_view t' (protected_key mb) \<noteq> None"
proof -
  let ?ck = "chain_key (prefix_opt mb) (mb_ref mb)"
  obtain t w' where t: "delete_into x mock_store op mb inputs (s, w) = (Inr (), (t, w'))" "mock_calm t" "wr_room w' = None"
    "branch_deleted x mb inputs v (mock_view t)"
    using calm_mock.calm_delete_into [OF assms(1-5) _ assms(7-9),
        where Q = "\<lambda>_ (t, w'). mock_calm t \<and> wr_room w' = None \<and> branch_deleted x mb inputs v (mock_view t)", THEN wp_totalD]
      assms(6) by fastforce
  obtain c :: chain_manifest where b: "b = bundle_key (prefix_opt mb) (mb_ref mb) (cm_full_at c)" "v b \<noteq> None"
    using kept_baseline_Some [OF assms(10)] by blast
  have "prefix (branch_prefix mb) b" by (simp add: b(1) branch_prefix_ref)
  then have kept: "mock_view t b \<noteq> None" using t(4) assms(10) b(2) by (auto simp: branch_deleted_def)
  have "b \<noteq> ?ck" "b \<noteq> branch_lock mb" unfolding b(1) using fetch_keys_differ(2) by auto
  then have gone: "mock_view t ?ck = None" "mock_view t (branch_lock mb) = None"
    using t(4) assms(10) by (auto simp: branch_deleted_def branch_prefix_ref)
  have mb: "\<lparr>mb_prefix = mb_prefix mb, mb_branch = mb_branch mb\<rparr> = mb" by simp
  have "wp (open_branch x mock_store (mb_prefix mb) (mb_branch mb)) (\<lambda>m u. m = mb \<and> mock_calm u \<and> mock_view u = mock_view t) (\<lambda>_ _. False) t"
    unfolding open_branch_def Let_def mb
  proof (intro wp_if wp_and_then wp_map_err calm_mock.calm_wp_list [OF t(2)], goal_cases)
    case (2 ms u)
    then have "lists (branch_prefix mb) ms (mock_view t)" using assms(1) by simp
    then have "b \<in> set (map om_key ms)" using kept \<open>prefix (branch_prefix mb) b\<close> by (simp add: lists_def)
    with 2 show ?case by auto
  next
    case (3 ms u)
    then show ?case by (auto intro!: wp_ok)
  qed (use assms(3) in \<open>simp_all add: mb_ref_def\<close>)
  then obtain u where u: "open_branch x mock_store (mb_prefix mb) (mb_branch mb) t = (Inr mb, u)" "mock_calm u" "mock_view u = mock_view t"
    using wp_totalD by fastforce
  have "\<not> suffix ''.lock'' b" "\<not> suffix (CHR ''/'' # PROTECTED_MARKER_SEGMENT) b"
    unfolding b(1) PROTECTED_MARKER_SEGMENT_def
    by (auto simp: bundle_key_base suffix_def dest!: arg_cong [of _ _ last])
  then have data: "branch_data mb (mock_view u)"
    using kept \<open>prefix (branch_prefix mb) b\<close> u(3) unfolding branch_data_def by auto
  have free: "\<not> lock_live (mock_view u) (branch_lock mb) (lock_ttl_from_env (ai_ttl_env inputs)) (ai_now inputs)"
    using gone(2) u(3) by (simp add: lock_live_def)
  have "?ck \<noteq> protected_key mb"
    by (auto simp: protected_key_ref protected_marker_key_def builder_base PROTECTED_MARKER_SEGMENT_def)
  then obtain t' w'' where "protect_into x mock_store mb inputs (u, w') = (Inr (), (t', w''))"
    "mock_view t' ?ck = None" "mock_view t' (protected_key mb) \<noteq> None"
    using calm_mock.calm_protect_into [OF assms(1) u(2) assms(3) t(3) data free,
        where Q = "\<lambda>_ (t', _). mock_view t' ?ck = None \<and> mock_view t' (protected_key mb) \<noteq> None", THEN wp_totalD] gone(1) u(3)
    by fastforce
  with t(1) u(1) show ?thesis by blast
qed

subsection \<open>An example\<close>

text \<open>The packchain branch of \<open>Ref_Fetch_Proofs\<close>, deleted; and protected while the operator is asked.\<close>

definition demo_branch :: manage_branch where
  "demo_branch = \<lparr>mb_prefix = ''repo'', mb_branch = ''main''\<rparr>"

definition demo_inputs :: admin_inputs where
  "demo_inputs = \<lparr>ai_ttl_env = None, ai_now = 9, ai_tomb_now = 9, ai_uuid = ''u''\<rparr>"

definition yes_man :: "(mock_state \<Rightarrow> mock_state) \<Rightarrow> mock_state operator" where
  "yes_man others = \<lparr>op_select = (\<lambda>_ _ _. Inr 0), op_confirm = (\<lambda>_ _. Inr True), op_meanwhile = others\<rparr>"

definition protect_meanwhile :: "mock_state \<Rightarrow> mock_state" where
  "protect_meanwhile = insert_with (protected_key demo_branch) [] 5 default_put_opts"

lemma demo_branch_sel [simp]:
  "mb_prefix demo_branch = ''repo''" "mb_branch demo_branch = ''main''" "mb_ref demo_branch = demo_main"
  "prefix_opt demo_branch = Some ''repo''" "branch_text demo_branch"
  by (simp_all add: demo_branch_def mb_ref_def demo_main_def prefix_opt_def branch_text_def utf8_valid_ascii)

lemma demo_inputs_sel [simp]:
  "ai_ttl_env demo_inputs = None" "ai_now demo_inputs = 9" "ai_tomb_now demo_inputs = 9" "ai_uuid demo_inputs = ''u''"
  by (simp_all add: demo_inputs_def)

lemma yes_man_sel [simp]: "op_confirm (yes_man others) shown q = Inr True" "op_select (yes_man others) shown q options = Inr 0" "op_meanwhile (yes_man others) = others"
  by (simp_all add: yes_man_def)

lemma yes_man_confirm: "op_confirm (yes_man others) = (\<lambda>_ _. Inr True)"
  by (simp add: yes_man_def)

lemma others_idle [simp]: "others_leave mock_view P (yes_man (\<lambda>t. t)) s (mock_view s)"
  by (simp add: others_leave_def)

lemma demo_chain_bucket_calm [simp]: "mock_calm demo_chain_bucket" "mock_honest demo_chain_bucket"
  by (simp_all add: demo_chain_bucket_def)

lemma demo_unprotected: "unprotected demo_branch (mock_view demo_chain_bucket)"
  unfolding unprotected_def
proof (intro allI impI)
  fix d
  have "last (d @ CHR ''/'' # PROTECTED_MARKER_SEGMENT) = CHR ''#''" by (simp add: PROTECTED_MARKER_SEGMENT_def)
  moreover have "last k \<noteq> CHR ''#''" if "mock_view demo_chain_bucket k \<noteq> None" for k
    using that unfolding demo_chain_bucket_def demo_bucket_dom by (auto simp: builder_base)
  ultimately show "mock_view demo_chain_bucket (d @ CHR ''/'' # PROTECTED_MARKER_SEGMENT) = None" by metis
qed

lemma demo_kept: "kept_baseline demo_ext demo_branch demo_inputs (mock_view demo_chain_bucket) = Some (demo_bundle CHR ''a'')"
proof -
  have "mock_view demo_chain_bucket (demo_bundle CHR ''a'') \<noteq> None"
    unfolding demo_chain_bucket_def demo_bucket_dom by simp
  then show ?thesis by (simp add: kept_baseline_def demo_long_chain_reads)
qed

theorem protected_branches_are_not_deleted_witness:
  "case delete_into demo_ext mock_store (yes_man protect_meanwhile) demo_branch demo_inputs (demo_chain_bucket, fresh_writer) of
     (res, (t, _)) \<Rightarrow> res \<noteq> Inr () \<and> mock_view t (chain_key (Some ''repo'') demo_main) = mock_view demo_chain_bucket (chain_key (Some ''repo'') demo_main)"
proof -
  let ?s = demo_chain_bucket and ?ck = "chain_key (Some ''repo'') demo_main"
  have others: "others_leave mock_view mock_honest (yes_man protect_meanwhile) ?s (mock_view (protect_meanwhile ?s))"
    by (simp add: others_leave_def protect_meanwhile_def)
  have marker: "mock_view (protect_meanwhile ?s) (protected_key demo_branch) \<noteq> None"
    by (simp add: protect_meanwhile_def)
  have same: "mock_view (protect_meanwhile ?s) ?ck = mock_view ?s ?ck"
    by (simp add: protect_meanwhile_def protected_key_ref protected_marker_key_def builder_base PROTECTED_MARKER_SEGMENT_def)
  obtain res t w' where run: "delete_into demo_ext mock_store (yes_man protect_meanwhile) demo_branch demo_inputs (?s, fresh_writer) = (res, (t, w'))"
    by (metis prod.exhaust)
  have "?ck \<noteq> branch_lock demo_branch" using branch_lock_other(1) [of demo_branch] by simp
  with protected_branches_are_not_deleted [OF demo_branch_sel(5) others marker run] same run show ?thesis by auto
qed

theorem deletions_leave_what_they_answer_witness:
  "case delete_into demo_ext mock_store (yes_man (\<lambda>t. t)) demo_branch demo_inputs (demo_chain_bucket, fresh_writer) of
     (res, (t, _)) \<Rightarrow> res = Inr () \<longrightarrow> swept_branch demo_ext demo_branch demo_inputs {} (mock_view demo_chain_bucket) (mock_view t)"
proof -
  obtain res t w' where run: "delete_into demo_ext mock_store (yes_man (\<lambda>t. t)) demo_branch demo_inputs (demo_chain_bucket, fresh_writer) = (res, (t, w'))"
    by (metis prod.exhaust)
  from deletions_leave_what_they_answer [OF demo_branch_sel(5) demo_chain_bucket_calm(2) others_idle yes_man_confirm run] run
  show ?thesis by simp
qed

theorem protection_is_what_was_answered_witness:
  "case (protect_into demo_ext mock_store demo_branch demo_inputs (demo_chain_bucket, fresh_writer),
      unprotect_into demo_ext mock_store demo_branch demo_inputs (demo_chain_bucket, fresh_writer)) of
     ((res, (t, _)), (res', (t', _))) \<Rightarrow>
       (res = Inr () \<longrightarrow> mock_view t (protected_key demo_branch) \<noteq> None) \<and> (res' = Inr () \<longrightarrow> mock_view t' (protected_key demo_branch) = None)"
proof -
  obtain res t w' where run: "protect_into demo_ext mock_store demo_branch demo_inputs (demo_chain_bucket, fresh_writer) = (res, (t, w'))"
    by (metis prod.exhaust)
  obtain res' t' w'' where run': "unprotect_into demo_ext mock_store demo_branch demo_inputs (demo_chain_bucket, fresh_writer) = (res', (t', w''))"
    by (metis prod.exhaust)
  from protection_is_what_was_answered [OF demo_branch_sel(5) demo_chain_bucket_calm(2) run run'] run run'
  show ?thesis by simp
qed

lemma agreed_deletions_succeed_example:
  "\<exists>t w. delete_into demo_ext mock_store (yes_man (\<lambda>t. t)) demo_branch demo_inputs (demo_chain_bucket, fresh_writer) = (Inr (), (t, w)) \<and>
     branch_deleted demo_ext demo_branch demo_inputs (mock_view demo_chain_bucket) (mock_view t)"
  by (rule agreed_deletions_succeed) (simp_all add: demo_unprotected demo_chain_unlocked)

theorem deleted_branches_can_be_protected_witness:
  "\<exists>t w u t' w'. delete_into demo_ext mock_store (yes_man (\<lambda>t. t)) demo_branch demo_inputs (demo_chain_bucket, fresh_writer) = (Inr (), (t, w)) \<and>
     open_branch demo_ext mock_store ''repo'' ''main'' t = (Inr demo_branch, u) \<and>
     protect_into demo_ext mock_store demo_branch demo_inputs (u, w) = (Inr (), (t', w')) \<and>
     mock_view t' (chain_key (Some ''repo'') demo_main) = None \<and> mock_view t' (protected_key demo_branch) \<noteq> None"
  using deleted_branches_can_be_protected [of demo_branch demo_chain_bucket demo_ext fresh_writer "yes_man (\<lambda>t. t)"
      "mock_view demo_chain_bucket" demo_inputs, OF _ _ _ _ _ _ _ _ _ demo_kept]
  by (simp add: demo_unprotected demo_chain_unlocked)

end
