(* ===== verification/Chain_Audit.thy ===== *)
theory Chain_Audit
  imports Compact "HOL-Library.AList"
begin

text \<open>
  The audit of a packchain bucket for \<open>doctor\<close> and \<open>compact\<close>, \<open>src/packchain/audit.rs\<close>: what a listing
  and the documents it names say about orphaned packs, pending tombstones, the chains and the
  packs they miss. The map from pack shas is an association list.
\<close>

record orphan_summary =
  os_pack_count :: nat
  os_bytes :: nat

record tombstone_row =
  tr_run_id :: string
  tr_marked_at :: string
  tr_age_hours :: int
  tr_orphan_count :: nat

record branch_row =
  br_ref_path :: string
  br_segments_total :: nat
  br_bytes_total :: nat
  br_recommend_compact :: bool
  br_has_full_at_segment :: bool

record dangling_row =
  dr_ref_path :: string
  dr_missing_pack_key :: string

record audit_report =
  ar_orphans :: orphan_summary
  ar_tombstones :: "tombstone_row list"
  ar_branches :: "branch_row list"
  ar_dangling :: "dangling_row list"

definition audit_branch :: "string \<Rightarrow> chain_manifest \<Rightarrow> branch_row" where
  "audit_branch ref_path chain =
     (let segments_total = length (cm_segments chain);
          bytes_total = total_bytes (cm_segments chain) in
      \<lparr>br_ref_path = ref_path, br_segments_total = segments_total, br_bytes_total = bytes_total,
       br_recommend_compact = (COMPACT_SEGMENTS_THRESHOLD < segments_total \<or> COMPACT_BYTES_THRESHOLD < bytes_total),
       br_has_full_at_segment = list_ex (\<lambda>s. seg_sha s = cm_full_at chain) (cm_segments chain)\<rparr>)"

definition pack_present :: "string \<Rightarrow> (string \<times> object_meta) list \<Rightarrow> bool" where
  "pack_present pack_field pack_metas =
     (case sha_from_pack_key pack_field of None \<Rightarrow> False | Some sha \<Rightarrow> map_of pack_metas sha \<noteq> None)"

definition audit_chain_step ::
    "ext \<Rightarrow> 's store_api \<Rightarrow> string \<Rightarrow> (string \<times> chain_manifest) list \<Rightarrow> object_meta \<Rightarrow>
     ('s, packchain_error, (string \<times> chain_manifest) list) io" where
  "audit_chain_step x st pfx out meta =
     (case ref_path_from_chain_key (Some pfx) (om_key meta) of
        None \<Rightarrow> ok out
      | Some ref_path \<Rightarrow>
          if \<not> ref_name_ok x ref_path then ok out
          else
            match_io (st_get_bytes st (om_key meta)) (\<lambda>_. ok out) (\<lambda>body.
            case chain_from_json_bytes x body of
              Inl _ \<Rightarrow> ok out
            | Inr chain \<Rightarrow> ok (out @ [(ref_path, chain)])))"

definition load_chains ::
    "ext \<Rightarrow> 's store_api \<Rightarrow> string \<Rightarrow> object_meta list \<Rightarrow>
     ('s, packchain_error, (string \<times> chain_manifest) list) io" where
  "load_chains x st pfx listing =
     fold_io (audit_chain_step x st pfx) [] (filter (\<lambda>m. is_chain_json_key (om_key m)) listing)"

definition pack_metas_from_objects :: "string \<Rightarrow> object_meta list \<Rightarrow> (string \<times> object_meta) list" where
  "pack_metas_from_objects pfx listing =
     (let packs_prefix = join (Some pfx) ''packs/'' in
      fold (\<lambda>meta out.
        if \<not> starts_with (om_key meta) packs_prefix then out
        else
          (case strip_suffix ''.pack'' (last_segment CHR ''/'' (om_key meta)) of
             None \<Rightarrow> out
           | Some sha_str \<Rightarrow>
               (case sha40_try_new sha_str of Inl _ \<Rightarrow> out | Inr sha \<Rightarrow> AList.update sha meta out)))
        listing [])"

definition audit_is_tombstone_key :: "string \<Rightarrow> string \<Rightarrow> bool" where
  "audit_is_tombstone_key key pfx =
     (starts_with key (join (Some pfx) ''gc/tombstones-'') \<and> ends_with key ''.json'')"

definition tombstone_step ::
    "ext \<Rightarrow> 's store_api \<Rightarrow> string \<Rightarrow> int \<Rightarrow> tombstone_row list \<Rightarrow> object_meta \<Rightarrow>
     ('s, packchain_error, tombstone_row list) io" where
  "tombstone_step x st pfx now out meta =
     (if \<not> audit_is_tombstone_key (om_key meta) pfx then ok out
      else
        match_io (st_get_bytes st (om_key meta)) (\<lambda>_. ok out) (\<lambda>body.
        case tombstone_from_json_bytes x body of
          Inl _ \<Rightarrow> ok out
        | Inr tombstone \<Rightarrow>
            (let age_hours = (case rfc3339_parse x (tb_marked_at tombstone) of
                                None \<Rightarrow> 0 | Some m \<Rightarrow> whole_hours (now - m)) in
             ok (out @ [\<lparr>tr_run_id = tb_run_id tombstone, tr_marked_at = tb_marked_at tombstone,
               tr_age_hours = age_hours, tr_orphan_count = length (tb_orphan_packs tombstone)\<rparr>]))))"

definition load_tombstones ::
    "ext \<Rightarrow> 's store_api \<Rightarrow> string \<Rightarrow> object_meta list \<Rightarrow> int \<Rightarrow> ('s, packchain_error, tombstone_row list) io" where
  "load_tombstones x st pfx listing now =
     and_then (fold_io (tombstone_step x st pfx now) [] listing) (\<lambda>out.
     ok (sort_key tr_marked_at out))"

text \<open>The report from what was loaded.\<close>

definition audit_orphans :: "(string \<times> chain_manifest) list \<Rightarrow> (string \<times> object_meta) list \<Rightarrow> orphan_summary" where
  "audit_orphans loaded pack_metas =
     (let referenced = List.map_filter (\<lambda>s. sha_from_pack_key (seg_pack s)) (concat (map (\<lambda>(_, chain). cm_segments chain) loaded)) in
      fold (\<lambda>(_, meta) acc. \<lparr>os_pack_count = os_pack_count acc + 1, os_bytes = saturating_add (os_bytes acc) (om_size meta)\<rparr>)
        (filter (\<lambda>(sha, _). sha \<notin> set referenced) pack_metas) \<lparr>os_pack_count = 0, os_bytes = 0\<rparr>)"

definition audit_dangling :: "(string \<times> chain_manifest) list \<Rightarrow> (string \<times> object_meta) list \<Rightarrow> dangling_row list" where
  "audit_dangling loaded pack_metas =
     sort_key dr_ref_path (sort_key dr_missing_pack_key
       (concat (map (\<lambda>(ref_path, chain).
          map (\<lambda>s. \<lparr>dr_ref_path = ref_path, dr_missing_pack_key = seg_pack s\<rparr>)
            (filter (\<lambda>s. \<not> pack_present (seg_pack s) pack_metas) (cm_segments chain))) loaded)))"

definition audit ::
    "ext \<Rightarrow> 's store_api \<Rightarrow> string \<Rightarrow> object_meta list \<Rightarrow> int \<Rightarrow> ('s, packchain_error, audit_report) io" where
  "audit x st pfx listing now =
     and_then (load_chains x st pfx listing) (\<lambda>loaded.
     let pack_metas = pack_metas_from_objects pfx listing in
     and_then (load_tombstones x st pfx listing now) (\<lambda>tombstones.
     ok \<lparr>ar_orphans = audit_orphans loaded pack_metas, ar_tombstones = tombstones,
         ar_branches = sort_key br_ref_path (map (\<lambda>(ref_path, chain). audit_branch ref_path chain) loaded),
         ar_dangling = audit_dangling loaded pack_metas\<rparr>))"

context store_contract
begin

lemma audit_reads [keeps_intros]: "keeps (frame view {}) (audit x st p listing now)"
  unfolding audit_def load_chains_def audit_chain_step_def load_tombstones_def tombstone_step_def
  by (intro keeps_intros keeps_frame_same wp_st_get_bytes) (auto simp: Let_def split: option.split sum.split intro!: keeps_intros)

end

end
