(* ===== verification/Doctor.thy ===== *)
theory Doctor
  imports Chain_Audit Branch_Admin Rust_Text
begin

text \<open>
  The management program's \<open>doctor\<close>, \<open>src/manage/doctor.rs\<close>, and the snapshot of a repository it works on,
  \<open>src/manage/snapshot.rs\<close>. The snapshot's map of refs is an association list in ascending order of the
  ref, as a \<open>BTreeMap\<close> iterates. What a run reads besides the bucket is \<open>doctor_inputs\<close>: the times, the
  random suffixes of the quarantine branches, and the \<open>time\<close> crate's display of a date.
\<close>

subsection \<open>src/manage/snapshot.rs\<close>

record snap_bundle =
  sb_sha :: string
  sb_key :: string
  sb_last_modified :: int

record malformed_bundle =
  mf_ref_path :: string
  mf_key :: string

record ref_snapshot =
  rs_is_protected :: bool
  rs_bundles :: "snap_bundle list"
  rs_has_chain :: bool

definition default_ref_snapshot :: ref_snapshot where
  "default_ref_snapshot = \<lparr>rs_is_protected = False, rs_bundles = [], rs_has_chain = False\<rparr>"

definition snapshot_has_data :: "ref_snapshot \<Rightarrow> bool" where
  "snapshot_has_data r \<longleftrightarrow> rs_bundles r \<noteq> [] \<or> rs_has_chain r"

record repo_snapshot =
  sn_head :: "string option"
  sn_refs :: "(string \<times> ref_snapshot) list"
  sn_malformed :: "malformed_bundle list"

definition empty_snapshot :: repo_snapshot where
  "empty_snapshot = \<lparr>sn_head = None, sn_refs = [], sn_malformed = []\<rparr>"

definition is_head_valid :: "repo_snapshot \<Rightarrow> bool" where
  "is_head_valid snapshot =
     (case Option.bind (sn_head snapshot) (map_of (sn_refs snapshot)) of None \<Rightarrow> False | Some r \<Rightarrow> snapshot_has_data r)"

text \<open>\<open>refs.entry(ref).or_default()\<close>, updated.\<close>

fun update_entry ::
    "string \<Rightarrow> (ref_snapshot \<Rightarrow> ref_snapshot) \<Rightarrow> (string \<times> ref_snapshot) list \<Rightarrow> (string \<times> ref_snapshot) list" where
  "update_entry k f [] = [(k, f default_ref_snapshot)]"
| "update_entry k f ((k', r) # refs) =
     (if k = k' then (k', f r) # refs
      else if k < k' then (k, f default_ref_snapshot) # (k', r) # refs
      else (k', r) # update_entry k f refs)"

definition is_bookkeeping_dir :: "string \<Rightarrow> bool" where
  "is_bookkeeping_dir relative = list_ex (starts_with relative) [''gc/'', ''lfs/'', ''packs/'']"

text \<open>\<open>classify_into\<close> once the object is known not to be HEAD: no store call is left.\<close>

definition classify_ref_object :: "string \<Rightarrow> object_meta \<Rightarrow> repo_snapshot \<Rightarrow> repo_snapshot" where
  "classify_ref_object relative object snapshot =
     (if is_bookkeeping_dir relative then snapshot
      else
        (case rsplit_once CHR ''/'' relative of
           None \<Rightarrow> snapshot
         | Some (ref_path, key_end) \<Rightarrow>
             if is_lock_key key_end \<or> key_end = ''repo.zip'' then snapshot
             else if is_protected_marker_segment key_end then
               snapshot\<lparr>sn_refs := update_entry ref_path (\<lambda>r. r\<lparr>rs_is_protected := True\<rparr>) (sn_refs snapshot)\<rparr>
             else
               (case strip_suffix ''.bundle'' key_end of
                  Some stem \<Rightarrow>
                    if is_valid_bundle_stem stem then
                      snapshot\<lparr>sn_refs := update_entry ref_path
                        (\<lambda>r. r\<lparr>rs_bundles := rs_bundles r @
                          [\<lparr>sb_sha = stem, sb_key = om_key object, sb_last_modified = om_last_modified object\<rparr>]\<rparr>)
                        (sn_refs snapshot)\<rparr>
                    else
                      snapshot\<lparr>sn_malformed := sn_malformed snapshot @ [\<lparr>mf_ref_path = ref_path, mf_key = om_key object\<rparr>]\<rparr>
                | None \<Rightarrow>
                    if key_end = ''chain.json'' then
                      snapshot\<lparr>sn_refs := update_entry ref_path (\<lambda>r. r\<lparr>rs_has_chain := True\<rparr>) (sn_refs snapshot)\<rparr>
                    else snapshot)))"

definition head_of_body :: "string \<Rightarrow> string option" where
  "head_of_body body =
     (if utf8_valid body then (let s = trim body in if s = [] then None else Some s) else None)"

definition classify_into ::
    "'s store_api \<Rightarrow> string \<Rightarrow> object_meta \<Rightarrow> repo_snapshot \<Rightarrow> ('s, manage_error, repo_snapshot) io" where
  "classify_into st list_prefix object snapshot =
     (case strip_prefix list_prefix (om_key object) of
        None \<Rightarrow> ok snapshot
      | Some relative \<Rightarrow>
          if relative = ''HEAD'' then
            and_then (map_err MgStore (st_get_bytes st (om_key object))) (\<lambda>body.
            ok (snapshot\<lparr>sn_head := head_of_body body\<rparr>))
          else ok (classify_ref_object relative object snapshot))"

definition analyze_objects ::
    "ext \<Rightarrow> 's store_api \<Rightarrow> object_meta list \<Rightarrow> string \<Rightarrow> ('s, manage_error, repo_snapshot) io" where
  "analyze_objects x st listing list_prefix =
     (let pfx = (case strip_suffix ''/'' list_prefix of Some s \<Rightarrow> if s \<noteq> [] then Some s else None | None \<Rightarrow> None) in
      and_then (map_err MgStore (tombstoned_bundle_keys x st pfx)) (\<lambda>hidden_keys.
      fold_io
        (\<lambda>snapshot object.
           if om_key object \<in> set hidden_keys then ok snapshot else classify_into st list_prefix object snapshot)
        empty_snapshot listing))"

subsection \<open>Options and inputs\<close>

record doctor_opts =
  do_delete_bundle :: bool
  do_lock_ttl_seconds :: "nat option"
  do_delete_stale_locks :: bool
  do_engine :: storage_engine

record doctor_inputs =
  di_ttl_env :: "string option"
  di_audit_now :: int
  di_scan_now :: int
  di_recheck_now :: "string \<Rightarrow> int"
  di_uuid :: "string \<Rightarrow> string"
  di_show_time :: "int \<Rightarrow> string"

record doctor =
  dc_prefix :: string
  dc_opts :: doctor_opts

definition resolved_lock_ttl_seconds :: "doctor \<Rightarrow> doctor_inputs \<Rightarrow> nat" where
  "resolved_lock_ttl_seconds d inputs =
     (case do_lock_ttl_seconds (dc_opts d) of Some n \<Rightarrow> n | None \<Rightarrow> lock_ttl_from_env_seconds (di_ttl_env inputs))"

definition emit :: "string \<Rightarrow> ('s \<times> writer, manage_error, unit) io" where
  "emit t = map_err MgIo (write_all t)"

definition text_line :: "string \<Rightarrow> string" where
  "text_line t = t @ [CHR 0x0A]"

subsection \<open>Reports\<close>

definition report_label :: "doctor \<Rightarrow> string" where
  "report_label d = (if dc_prefix d = [] then ''(root)'' else dc_prefix d)"

definition ref_status :: "ref_snapshot \<Rightarrow> string" where
  "ref_status r =
     (case length (rs_bundles r) of
        0 \<Rightarrow> if rs_has_chain r then ''Ok'' else ''No bundles''
      | Suc 0 \<Rightarrow> ''Ok''
      | _ \<Rightarrow> ''Multiple bundles'')"

definition report :: "doctor \<Rightarrow> repo_snapshot \<Rightarrow> string" where
  "report d snapshot =
     text_line (report_label d @ '':'') @
     concat (map (\<lambda>(ref_path, r).
       text_line ('' '' @ (if rs_is_protected r then ''*'' else []) @ '' '' @ ref_path @ '': '' @ ref_status r)) (sn_refs snapshot)) @
     text_line (''  HEAD: '' @
       (case sn_head snapshot of
          Some h \<Rightarrow>
            (case map_of (sn_refs snapshot) h of
               Some r \<Rightarrow> if snapshot_has_data r then h else ''Invalid''
             | None \<Rightarrow> ''Invalid'')
        | None \<Rightarrow> ''Invalid''))"

definition render_malformed_bundles_section :: "malformed_bundle list \<Rightarrow> string" where
  "render_malformed_bundles_section entries =
     text_line [] @ text_line ''Malformed bundle keys (push silently ignores these):'' @
     concat (map (\<lambda>entry. text_line (''  - '' @ mf_key entry @ '' (ref '' @ mf_ref_path entry @ '')'')) entries) @
     text_line (''  Delete each key manually (`aws s3 rm` / `az storage blob delete`) and re-push the ref.'')"

text \<open>
  \<open>bytes as f64\<close> rounds to 53 bits, half to even; dividing by a power of two is exact; \<open>{:.1}\<close> rounds
  to tenths, half to even.
\<close>

definition round_half_even :: "nat \<Rightarrow> nat \<Rightarrow> nat" where
  "round_half_even n m =
     (let q = n div m; r = n mod m in
      if m < 2 * r \<or> (2 * r = m \<and> odd q) then q + 1 else q)"

fun excess_bits :: "nat \<Rightarrow> nat" where
  "excess_bits n = (if n < 2 ^ 53 then 0 else Suc (excess_bits (n div 2)))"

declare excess_bits.simps [simp del]

definition as_f64 :: "nat \<Rightarrow> nat" where
  "as_f64 n = round_half_even n (2 ^ excess_bits n) * 2 ^ excess_bits n"

definition one_decimal :: "nat \<Rightarrow> nat \<Rightarrow> string" where
  "one_decimal n unit =
     (let tenths = round_half_even (10 * as_f64 n) unit in show_nat (tenths div 10) @ ''.'' @ show_nat (tenths mod 10))"

definition format_bytes :: "nat \<Rightarrow> string" where
  "format_bytes bytes =
     (if 2 ^ 30 \<le> bytes then one_decimal bytes (2 ^ 30) @ '' GiB''
      else if 2 ^ 20 \<le> bytes then one_decimal bytes (2 ^ 20) @ '' MiB''
      else if 2 ^ 10 \<le> bytes then one_decimal bytes (2 ^ 10) @ '' KiB''
      else show_nat bytes @ '' B'')"

definition format_age :: "int \<Rightarrow> string" where
  "format_age hours =
     (if hours \<le> 0 then ''<1h''
      else if hours < 48 then show_int hours @ ''h ago''
      else show_int (hours div 24) @ ''d ago'')"

definition render_packchain_section :: "audit_report \<Rightarrow> string" where
  "render_packchain_section r =
     text_line [] @ text_line ''=== Packchain ==='' @
     text_line (''Orphans: '' @ show_nat (os_pack_count (ar_orphans r)) @ '' pack(s), '' @ format_bytes (os_bytes (ar_orphans r))) @
     (if ar_tombstones r = [] then text_line ''Tombstones (pending sweep): none''
      else text_line ''Tombstones (pending sweep):'' @
        concat (map (\<lambda>t. text_line (''  - run id '' @ tr_run_id t @ '', marked '' @ tr_marked_at t @ '' ('' @
          format_age (tr_age_hours t) @ ''), '' @ show_nat (tr_orphan_count t) @ '' pack(s)'')) (ar_tombstones r))) @
     (let candidates = filter br_recommend_compact (ar_branches r) in
      if candidates = [] then text_line ''Branches needing compaction: none''
      else text_line ''Branches needing compaction:'' @
        concat (map (\<lambda>b. text_line (''  - '' @ br_ref_path b @ '': '' @ show_nat (br_segments_total b) @ '' segment(s), '' @
          format_bytes (br_bytes_total b) @ '' since full_at  [recommend compact]'')) candidates)) @
     (let corrupt = filter (\<lambda>b. \<not> br_has_full_at_segment b) (ar_branches r) in
      if ar_dangling r = [] \<and> corrupt = [] then text_line ''ERRORS: none''
      else text_line ''ERRORS:'' @
        concat (map (\<lambda>d. text_line (''  - '' @ dr_ref_path d @ ''/chain.json references missing pack '' @ dr_missing_pack_key d))
          (ar_dangling r)) @
        concat (map (\<lambda>b. text_line (''  - '' @ br_ref_path b @
          ''/chain.json full_at not present in segments (corrupt manifest)'')) corrupt))"

definition maybe_render_packchain_section ::
    "ext \<Rightarrow> 's store_api \<Rightarrow> doctor \<Rightarrow> doctor_inputs \<Rightarrow> object_meta list \<Rightarrow> ('s, manage_error, string option) io" where
  "maybe_render_packchain_section x st d inputs listing =
     (if do_engine (dc_opts d) \<noteq> PackchainEngine then ok None
      else
        and_then (map_err MgPackchain (audit x st (dc_prefix d) listing (di_audit_now inputs))) (\<lambda>r.
        ok (Some (render_packchain_section r))))"

subsection \<open>Several bundles for one ref\<close>

definition quarantine_ref :: "doctor_inputs \<Rightarrow> string \<Rightarrow> snap_bundle \<Rightarrow> string" where
  "quarantine_ref inputs ref_path losing = ref_path @ ''_'' @ take 8 (di_uuid inputs (sb_key losing))"

definition evict_losing_bundle ::
    "'s store_api \<Rightarrow> doctor \<Rightarrow> doctor_inputs \<Rightarrow> string \<Rightarrow> snap_bundle \<Rightarrow> ('s \<times> writer, manage_error, unit) io" where
  "evict_losing_bundle st d inputs ref_path losing =
     (let remove =
        match_io (in_store (st_delete st (sb_key losing)))
          (\<lambda>e. case e of
             NotFound _ \<Rightarrow> writeln (''Skipping '' @ sb_sha losing @ '': loser bundle already gone before delete'')
           | _ \<Rightarrow> fail_with (MgStore e))
          (\<lambda>_. ok ()) in
      if do_delete_bundle (dc_opts d) then
        and_then (writeln (''Removing '' @ sb_sha losing)) (\<lambda>_. remove)
      else
        (let new_ref = quarantine_ref inputs ref_path losing;
             dst_key = bundle_key (Some (dc_prefix d)) new_ref (sb_sha losing) in
         and_then (writeln (''Moving '' @ sb_sha losing @ '' to new branch '' @ new_ref)) (\<lambda>_.
         match_io (in_store (st_copy st (sb_key losing) dst_key))
           (\<lambda>e. case e of
              NotFound _ \<Rightarrow> writeln (''Skipping '' @ sb_sha losing @ '': loser bundle already gone before quarantine copy'')
            | _ \<Rightarrow> fail_with (MgStore e))
           (\<lambda>_. remove))))"

definition set_ref :: "string \<Rightarrow> ref_snapshot \<Rightarrow> repo_snapshot \<Rightarrow> repo_snapshot" where
  "set_ref ref_path r snapshot = snapshot\<lparr>sn_refs := map (\<lambda>(k, r'). if k = ref_path then (k, r) else (k, r')) (sn_refs snapshot)\<rparr>"

definition fix_multiple_bundles ::
    "'s store_api \<Rightarrow> 's operator \<Rightarrow> doctor \<Rightarrow> doctor_inputs \<Rightarrow> repo_snapshot \<Rightarrow> string \<Rightarrow>
     ('s \<times> writer, manage_error, repo_snapshot) io" where
  "fix_multiple_bundles st op d inputs snapshot ref_path =
     and_then (emit (text_line [] @ text_line (''Fix multiple bundles for repo '' @ report_label d @ '' and ref '' @ ref_path))) (\<lambda>_.
     case map_of (sn_refs snapshot) ref_path of
       None \<Rightarrow> fail_with (MgInternal (''fix_multiple_bundles called with ref '' @ ref_path @ '' absent from snapshot''))
     | Some entry \<Rightarrow>
         (let bundles = rs_bundles entry;
              labels = map (\<lambda>b. sb_sha b @ '' '' @ di_show_time inputs (sb_last_modified b)) bundles in
          and_then (pick op ''Choose the bundle to keep'' labels) (\<lambda>keep_idx.
          if length bundles \<le> keep_idx then
            fail_with (MgInternal (''prompter returned out-of-range index '' @ show_nat keep_idx @ '' for '' @
              show_nat (length bundles) @ '' bundle(s)''))
          else
            (let keeper = bundles ! keep_idx in
             and_then (ask op ''Confirm and apply changes'') (\<lambda>confirmed.
             if \<not> confirmed then and_then (writeln ''Aborted'') (\<lambda>_. ok snapshot)
             else
               and_then
                 (match_io (in_store (st_head st (sb_key keeper)))
                   (\<lambda>e. case e of
                      NotFound _ \<Rightarrow>
                        and_then (writeln (''Selected keeper bundle '' @ sb_sha keeper @ '' for '' @ ref_path @
                          '' is no longer present on the bucket; refusing to evict losers. Re-run doctor.'')) (\<lambda>_.
                        fail_with (StaleSnapshot ref_path WasDeleted))
                    | _ \<Rightarrow> fail_with (MgStore e))
                   (\<lambda>_. ok ())) (\<lambda>_.
               and_then (writeln (''Keeping '' @ sb_sha keeper)) (\<lambda>_.
               let (keepers, losers) = partition (\<lambda>b. sb_sha b = sb_sha keeper) bundles in
               and_then (fold_io (\<lambda>_ losing. evict_losing_bundle st d inputs ref_path losing) () losers) (\<lambda>_.
               ok (set_ref ref_path (entry\<lparr>rs_bundles := keepers\<rparr>) snapshot)))))))))"

subsection \<open>HEAD\<close>

definition short_branch_name :: "string \<Rightarrow> string" where
  "short_branch_name full = last_segment CHR ''/'' full"

definition fix_head ::
    "'s store_api \<Rightarrow> 's operator \<Rightarrow> doctor \<Rightarrow> repo_snapshot \<Rightarrow> ('s \<times> writer, manage_error, repo_snapshot) io" where
  "fix_head st op d snapshot =
     and_then (emit (text_line [] @ text_line (''Fix invalid HEAD for repo '' @ report_label d))) (\<lambda>_.
     let candidates = map fst (filter (\<lambda>(k, r). starts_with k ''refs/heads/'' \<and> snapshot_has_data r) (sn_refs snapshot)) in
     if candidates = [] then
       and_then (writeln ''No `refs/heads/*` available to assign as HEAD; skipping.'') (\<lambda>_. ok snapshot)
     else
       and_then (pick op ''Choose the new HEAD branch'' (map short_branch_name candidates)) (\<lambda>chosen.
       if length candidates \<le> chosen then
         fail_with (MgInternal (''prompter returned out-of-range index '' @ show_nat chosen @ '' for '' @
           show_nat (length candidates) @ '' HEAD candidate(s)''))
       else
         (let new_head = candidates ! chosen in
          and_then (on_bucket (st_list st (ref_listing_prefix (Some (dc_prefix d)) new_head))) (\<lambda>recheck.
          if \<not> has_branch_data recheck then
            (let residue_only = (recheck \<noteq> []) in
             and_then
               (if residue_only then
                  writeln (''Selected branch '' @ new_head @ '' is considered gone '' @ em_dash @
                    '' only operational metadata (lock files / PROTECTED# marker) remains under its prefix. '' @
                    ''Refusing to write stale HEAD. Re-run doctor.'')
                else
                  writeln (''Selected branch '' @ new_head @ '' was deleted between selection and HEAD write; '' @
                    ''refusing to write stale HEAD. Re-run doctor.'')) (\<lambda>_.
             fail_with (StaleSnapshot new_head (if residue_only then ResidueOnly else WasDeleted))))
          else
            and_then (writeln (''Setting '' @ new_head @ '' as HEAD'')) (\<lambda>_.
            and_then (on_bucket (st_put_bytes st (join (Some (dc_prefix d)) ''HEAD'') new_head default_put_opts)) (\<lambda>_.
            ok (snapshot\<lparr>sn_head := Some new_head\<rparr>)))))))"

subsection \<open>Stale locks\<close>

text \<open>A clock that runs behind the store makes an age negative; such a lock counts as stale for a zero limit only.\<close>

definition lock_age :: "int \<Rightarrow> nat \<Rightarrow> int \<Rightarrow> nat option" where
  "lock_age now ttl last_modified =
     (let raw_age = now - last_modified in
      if raw_age < 0 then (if ttl = 0 then Some 0 else None)
      else if int ttl < raw_age then Some (nat raw_age) else None)"

definition scan_stale_locks :: "int \<Rightarrow> object_meta list \<Rightarrow> nat \<Rightarrow> (string \<times> nat) list" where
  "scan_stale_locks now listing ttl =
     List.map_filter (\<lambda>m. map_option (Pair (om_key m)) (lock_age now ttl (om_last_modified m)))
       (filter (\<lambda>m. is_lock_key (om_key m)) listing)"

datatype delete_outcome = LockDeleted | SkippedNotStale | SkippedDisappeared | SkippedHeadError | DeleteFailed

definition delete_stale_lock_if_still_stale ::
    "'s store_api \<Rightarrow> doctor_inputs \<Rightarrow> string \<Rightarrow> nat \<Rightarrow> ('s \<times> writer, manage_error, delete_outcome) io" where
  "delete_stale_lock_if_still_stale st inputs key ttl =
     match_io (in_store (st_head st key))
       (\<lambda>e. case e of
          NotFound _ \<Rightarrow>
            and_then (writeln (''Skipping '' @ key @ '': lock disappeared concurrently'')) (\<lambda>_. ok SkippedDisappeared)
        | _ \<Rightarrow>
            and_then (writeln (''Failed to re-check '' @ key @ '': '' @ store_error_display e)) (\<lambda>_. ok SkippedHeadError))
       (\<lambda>meta.
          if lock_age (di_recheck_now inputs key) ttl (om_last_modified meta) = None then
            and_then (writeln (''Skipping '' @ key @ '': lock no longer stale, refusing to delete'')) (\<lambda>_. ok SkippedNotStale)
          else
            match_io (in_store (st_delete st key))
              (\<lambda>e. and_then (writeln (''Failed to delete '' @ key @ '': '' @ store_error_display e)) (\<lambda>_. ok DeleteFailed))
              (\<lambda>_. and_then (writeln (''Deleted '' @ key)) (\<lambda>_. ok LockDeleted)))"

definition count_outcome :: "delete_outcome \<Rightarrow> nat \<times> nat \<Rightarrow> nat \<times> nat" where
  "count_outcome outcome counts =
     (let (deleted, skipped) = counts in
      case outcome of
        LockDeleted \<Rightarrow> (deleted + 1, skipped)
      | DeleteFailed \<Rightarrow> (deleted, skipped)
      | _ \<Rightarrow> (deleted, skipped + 1))"

definition list_and_handle_stale_locks ::
    "'s store_api \<Rightarrow> doctor \<Rightarrow> doctor_inputs \<Rightarrow> object_meta list \<Rightarrow> ('s \<times> writer, manage_error, unit) io" where
  "list_and_handle_stale_locks st d inputs listing =
     and_then (emit (text_line [] @ text_line ''Scanning for stale locks...'')) (\<lambda>_.
     let ttl = resolved_lock_ttl_seconds d inputs * 10 ^ 9;
         stale = scan_stale_locks (di_scan_now inputs) listing ttl in
     if stale = [] then writeln ''No stale locks found.''
     else
       and_then (writeln ''Found stale locks:'') (\<lambda>_.
       and_then
         (fold_io (\<lambda>_ (key, age). writeln ('' - '' @ key @ '' (age: '' @ show_nat (age div 10 ^ 9) @ ''s)'')) () stale) (\<lambda>_.
       if \<not> do_delete_stale_locks (dc_opts d) then
         emit (text_line [] @ text_line ''Run with --delete-stale-locks to remove them automatically.'')
       else
         and_then (emit (text_line [] @ text_line ''Deleting stale locks...'')) (\<lambda>_.
         and_then
           (fold_io (\<lambda>counts (key, _).
              and_then (delete_stale_lock_if_still_stale st inputs key ttl) (\<lambda>outcome. ok (count_outcome outcome counts)))
              (0, 0) stale) (\<lambda>(deleted, skipped).
         if 0 < skipped then
           writeln (''Skipped '' @ show_nat skipped @ '' lock(s) that became fresh or disappeared since listing; deleted '' @
             show_nat deleted @ ''.'')
         else ok ())))))"

subsection \<open>A run\<close>

definition doctor_run ::
    "ext \<Rightarrow> 's store_api \<Rightarrow> 's operator \<Rightarrow> doctor \<Rightarrow> doctor_inputs \<Rightarrow> ('s \<times> writer, manage_error, unit) io" where
  "doctor_run x st op d inputs =
     (let list_prefix = join (Some (dc_prefix d)) [] in
      and_then (on_bucket (st_list st list_prefix)) (\<lambda>listing.
      and_then (in_store (analyze_objects x st listing list_prefix)) (\<lambda>snapshot.
      and_then (emit (report d snapshot)) (\<lambda>_.
      and_then (if sn_malformed snapshot \<noteq> [] then emit (render_malformed_bundles_section (sn_malformed snapshot)) else ok ()) (\<lambda>_.
      and_then (in_store (maybe_render_packchain_section x st d inputs listing)) (\<lambda>packchain.
      and_then (case packchain of Some t \<Rightarrow> emit t | None \<Rightarrow> ok ()) (\<lambda>_.
      and_then
        (fold_io (fix_multiple_bundles st op d inputs) snapshot
          (map fst (filter (\<lambda>(_, r). 1 < length (rs_bundles r)) (sn_refs snapshot)))) (\<lambda>fixed.
      and_then (if \<not> is_head_valid fixed then fix_head st op d fixed else ok fixed) (\<lambda>_.
      list_and_handle_stale_locks st d inputs listing)))))))))"

end
