(* ===== verification/Doctor_Proofs.thy ===== *)
theory Doctor_Proofs
  imports Doctor Branch_Admin_Proofs
begin

text \<open>
  \<open>doctor\<close>: its snapshot shows every bundle in view, and a run loses nothing but what it was told to
  give up: bundles of a ref that keeps another one, each with a copy unless deletion was asked
  for, and locks that were found stale twice.
\<close>

subsection \<open>The map of refs\<close>

abbreviation ascending :: "(string \<times> 'a) list \<Rightarrow> bool" where
  "ascending refs \<equiv> sorted_wrt (<) (map fst refs)"

lemma update_entry_keys: "fst ` set (update_entry k f refs) = insert k (fst ` set refs)"
  by (induction k f refs rule: update_entry.induct) auto

lemma update_entry_ascending: "ascending refs \<Longrightarrow> ascending (update_entry k f refs)"
proof (induction k f refs rule: update_entry.induct)
  case (2 k f k' r refs)
  have keys: "k'' \<in> fst ` set refs \<Longrightarrow> k' < k''" for k'' using 2(2) by auto
  have "ascending ((k', r) # update_entry k f refs)" if "\<not> k < k'" "k \<noteq> k'"
  proof -
    have "k' < k''" if "k'' \<in> fst ` set (update_entry k f refs)" for k''
      using that keys \<open>\<not> k < k'\<close> \<open>k \<noteq> k'\<close> unfolding update_entry_keys by (auto simp: not_less order.order_iff_strict)
    with 2 that show ?thesis by auto
  qed
  moreover have "ascending ((k, f default_ref_snapshot) # (k', r) # refs)" if "k < k'"
    using that 2(2) keys by (auto intro: less_trans)
  ultimately show ?case using 2(2) by auto
qed simp

definition entry_of :: "(string \<times> ref_snapshot) list \<Rightarrow> string \<Rightarrow> ref_snapshot" where
  "entry_of refs r = (case map_of refs r of None \<Rightarrow> default_ref_snapshot | Some rs \<Rightarrow> rs)"

lemma update_entry_lookup:
  "ascending refs \<Longrightarrow> map_of (update_entry k f refs) = (map_of refs)(k \<mapsto> f (entry_of refs k))"
proof (induction k f refs rule: update_entry.induct)
  case (2 k f k' r refs)
  have "map_of refs k = None" if "k < k'"
  proof (rule ccontr)
    assume "map_of refs k \<noteq> None"
    then have "k' < k" using 2(2) by (auto dest!: map_of_SomeD)
    with that show False by simp
  qed
  with 2 show ?case by (auto simp: entry_of_def fun_upd_twist)
qed (simp add: entry_of_def)

lemma entry_of_update:
  "ascending refs \<Longrightarrow> entry_of (update_entry k f refs) r = (if r = k then f (entry_of refs k) else entry_of refs r)"
  by (simp add: entry_of_def update_entry_lookup)

subsection \<open>The snapshot\<close>

text \<open>The keys of a ref that the snapshot reads, in the order of the listing.\<close>

definition bundle_rel :: "string \<Rightarrow> string \<Rightarrow> bool" where
  "bundle_rel r rel \<longleftrightarrow> \<not> is_bookkeeping_dir rel \<and>
     (case strip_suffix ''.bundle'' (last_segment CHR ''/'' rel) of
        Some sha \<Rightarrow> is_valid_bundle_stem sha \<and> rel = r @ ''/'' @ sha @ ''.bundle''
      | None \<Rightarrow> False)"

lemma bundle_rel_iff:
  "bundle_rel r rel \<longleftrightarrow> \<not> is_bookkeeping_dir rel \<and> (\<exists>sha. is_valid_bundle_stem sha \<and> rel = r @ ''/'' @ sha @ ''.bundle'')"
proof -
  have "last_segment CHR ''/'' (r @ CHR ''/'' # sha @ ''.bundle'') = sha @ ''.bundle''" if "is_valid_bundle_stem sha" for sha
    by (rule last_segment_append) (use that in simp)
  then show ?thesis by (auto simp: bundle_rel_def split: option.splits)
qed

lemma bundle_end_facts:
  assumes "key_end = sha @ ''.bundle''"
  shows "\<not> is_lock_key key_end" "key_end \<noteq> ''repo.zip''" "\<not> is_protected_marker_segment key_end"
proof -
  have e: "last key_end = CHR ''e''" by (simp add: assms)
  then show "key_end \<noteq> ''repo.zip''" "\<not> is_protected_marker_segment key_end"
    by (auto simp: is_protected_marker_segment_def PROTECTED_MARKER_SEGMENT_def)
  show "\<not> is_lock_key key_end"
  proof
    assume "is_lock_key key_end"
    then obtain u where "key_end = u @ ''.lock''" by (auto simp: is_lock_key_def suffix_def)
    with e show False by simp
  qed
qed

definition snap_of :: "string \<Rightarrow> object_meta \<Rightarrow> snap_bundle" where
  "snap_of p m =
     \<lparr>sb_sha = (case strip_suffix ''.bundle'' (last_segment CHR ''/'' (om_key m)) of Some sha \<Rightarrow> sha | None \<Rightarrow> []),
      sb_key = om_key m, sb_last_modified = om_last_modified m\<rparr>"

lemma classify_bundles:
  assumes "ascending (sn_refs s)" "om_key m = p @ rel"
  shows "ascending (sn_refs (classify_ref_object rel m s))"
    and "rs_bundles (entry_of (sn_refs (classify_ref_object rel m s)) r) =
      rs_bundles (entry_of (sn_refs s) r) @ (if bundle_rel r rel then [snap_of p m] else [])"
proof -
  show "ascending (sn_refs (classify_ref_object rel m s))"
    using assms(1) by (auto simp: classify_ref_object_def update_entry_ascending split: option.split)
  show "rs_bundles (entry_of (sn_refs (classify_ref_object rel m s)) r) =
      rs_bundles (entry_of (sn_refs s) r) @ (if bundle_rel r rel then [snap_of p m] else [])"
  proof (cases "is_bookkeeping_dir rel")
    case True
    then show ?thesis by (simp add: classify_ref_object_def bundle_rel_def)
  next
    case False
    show ?thesis
    proof (cases "rsplit_once CHR ''/'' rel")
      case None
      then have "CHR ''/'' \<notin> set rel" by (simp add: rsplit_once_None)
      then have "\<not> bundle_rel r rel" by (auto simp: bundle_rel_iff)
      with None False show ?thesis by (simp add: classify_ref_object_def)
    next
      case (Some pair)
      obtain ref key_end where pair: "pair = (ref, key_end)" by force
      with Some have rel: "rel = ref @ CHR ''/'' # key_end" "CHR ''/'' \<notin> set key_end" by (auto simp: rsplit_once_Some)
      have seg: "last_segment CHR ''/'' (u @ rel) = key_end" for u
        using last_segment_append [OF rel(2), of "u @ ref"] rel(1) by simp
      show ?thesis
      proof (cases "strip_suffix ''.bundle'' key_end")
        case (Some stem)
        then have ke: "key_end = stem @ ''.bundle''" by simp
        have rel_iff: "bundle_rel r rel \<longleftrightarrow> is_valid_bundle_stem stem \<and> r = ref"
          using False Some seg [of "[]"] rel(1) ke by (auto simp: bundle_rel_def)
        have snap: "snap_of p m = \<lparr>sb_sha = stem, sb_key = om_key m, sb_last_modified = om_last_modified m\<rparr>"
          by (simp add: snap_of_def assms(2) seg Some)
        show ?thesis
          using \<open>rsplit_once CHR ''/'' rel = Some pair\<close> pair False Some bundle_end_facts [OF ke] rel_iff snap
          by (simp add: classify_ref_object_def entry_of_update [OF assms(1)])
      next
        case None
        then have "\<not> bundle_rel r rel" using seg [of "[]"] by (simp add: bundle_rel_def)
        then show ?thesis
          using \<open>rsplit_once CHR ''/'' rel = Some pair\<close> pair False None
          by (auto simp: classify_ref_object_def entry_of_update [OF assms(1)])
      qed
    qed
  qed
qed

definition shown_bundles :: "string \<Rightarrow> object_meta list \<Rightarrow> string \<Rightarrow> snap_bundle list" where
  "shown_bundles p ms r = map (snap_of p)
     (filter (\<lambda>m. case strip_prefix (key_base (Some p)) (om_key m) of Some rel \<Rightarrow> bundle_rel r rel | None \<Rightarrow> False) ms)"

definition snapshot_shows :: "string \<Rightarrow> object_meta list \<Rightarrow> repo_snapshot \<Rightarrow> bool" where
  "snapshot_shows p ms snapshot \<longleftrightarrow>
     ascending (sn_refs snapshot) \<and> (\<forall>r. rs_bundles (entry_of (sn_refs snapshot) r) = shown_bundles p ms r)"

lemma not_head_bundle: "\<not> bundle_rel r ''HEAD''"
  by (auto simp: bundle_rel_iff dest!: arg_cong [of _ _ last])

lemma snapshot_shows_step:
  assumes "snapshot_shows p ms snapshot" "om_key m = key_base (Some p) @ rel"
  shows "rel \<noteq> ''HEAD'' \<Longrightarrow> snapshot_shows p (ms @ [m]) (classify_ref_object rel m snapshot)"
    and "rel = ''HEAD'' \<Longrightarrow> snapshot_shows p (ms @ [m]) (snapshot\<lparr>sn_head := h\<rparr>)"
  using assms classify_bundles [of snapshot m "key_base (Some p)" rel]
  by (auto simp: snapshot_shows_def shown_bundles_def snap_of_def not_head_bundle)

context store_contract
begin

lemma wp_classify_into:
  assumes "om_key m = base @ rel"
    and "rel \<noteq> ''HEAD'' \<Longrightarrow> Q (classify_ref_object rel m snapshot) s"
    and "\<And>h t. rel = ''HEAD'' \<Longrightarrow> view t = view s \<Longrightarrow> (honest s \<Longrightarrow> honest t) \<Longrightarrow> Q (snapshot\<lparr>sn_head := h\<rparr>) t"
    and "\<And>e t. view t = view s \<Longrightarrow> E e t"
  shows "wp (classify_into st base m snapshot) Q E s"
  unfolding classify_into_def assms(1) strip_prefix_append option.case
  by (intro wp_if wp_and_then wp_map_err wp_st_get_bytes wp_ok assms(2-4))

lemma wp_analyze_objects:
  assumes "utf8_valid p" "lists (key_base (Some p)) ms (view s)"
    and "\<And>h snapshot t. view t = view s \<Longrightarrow> (honest s \<Longrightarrow> honest t) \<Longrightarrow>
      h \<subseteq> hidden x (if p = [] then None else Some p) (view s) \<Longrightarrow>
      snapshot_shows p (filter (\<lambda>m. om_key m \<notin> h) ms) snapshot \<Longrightarrow> Q snapshot t"
    and "\<And>e t. view t = view s \<Longrightarrow> E e t"
  shows "wp (analyze_objects x st ms (join (Some p) [])) Q E s"
proof -
  let ?pfx = "if p = [] then None else Some p"
  have base: "join (Some p) [] = key_base (Some p)" by (simp add: join_base)
  have pfx: "(case strip_suffix ''/'' (key_base (Some p)) of Some s \<Rightarrow> if s \<noteq> [] then Some s else None | None \<Rightarrow> None) = ?pfx"
    by (simp add: key_base_def strip_suffix_def)
  have under: "\<exists>rel. om_key m = key_base (Some p) @ rel" if "m \<in> set ms" for m
  proof -
    have "om_key m \<in> set (map om_key ms)" using that by simp
    with assms(2) have "prefix (key_base (Some p)) (om_key m)" by (simp add: lists_def)
    then show ?thesis by (auto simp: prefix_def)
  qed
  define keep :: "string set \<Rightarrow> object_meta list \<Rightarrow> object_meta list" where "keep h = filter (\<lambda>m. om_key m \<notin> h)" for h
  have loop: "wp (fold_io (\<lambda>snapshot object.
        if om_key object \<in> set hs then ok snapshot else classify_into st (key_base (Some p)) object snapshot) snapshot rest)
      Q E t"
    if "set hs \<subseteq> hidden x ?pfx (view s)" "before @ rest = ms" "view t = view s" "honest s \<Longrightarrow> honest t"
      "snapshot_shows p (keep (set hs) before) snapshot" for hs before rest snapshot t
    using that
  proof (induction rest arbitrary: before snapshot t)
    case Nil
    then show ?case by (auto simp: keep_def intro!: wp_ok assms(3) [where h = "set hs"])
  next
    case (Cons m rest)
    have next_step: "wp (fold_io (\<lambda>snapshot object.
        if om_key object \<in> set hs then ok snapshot else classify_into st (key_base (Some p)) object snapshot) snapshot' rest) Q E u"
      if "view u = view s" "honest s \<Longrightarrow> honest u" "snapshot_shows p (keep (set hs) (before @ [m])) snapshot'" for u snapshot'
      by (rule Cons.IH [of "before @ [m]"]) (use Cons.prems that in auto)
    obtain rel where rel: "om_key m = key_base (Some p) @ rel" using under [of m] Cons.prems(2) by auto
    show ?case
      unfolding fold_io.simps
    proof (rule wp_and_then, rule wp_if, goal_cases)
      case 1
      then show ?case using Cons.prems by (intro wp_ok next_step) (auto simp: keep_def)
    next
      case 2
      then have more: "keep (set hs) (before @ [m]) = keep (set hs) before @ [m]"
        using Cons.prems(1) by (simp add: keep_def)
      show ?case
      proof (rule wp_classify_into [OF rel], goal_cases)
        case 1
        show ?case
          by (rule next_step) (use Cons.prems more snapshot_shows_step(1) [OF Cons.prems(5) rel 1] in auto)
      next
        case (2 h u)
        then show ?case
          by (intro next_step) (use Cons.prems more snapshot_shows_step(2) [OF Cons.prems(5) rel 2(1), of h] in auto)
      next
        case (3 e u)
        then show ?case using Cons.prems(3) by (intro assms(4)) simp
      qed
    qed
  qed
  have empty: "snapshot_shows p [] empty_snapshot"
    by (simp add: snapshot_shows_def shown_bundles_def empty_snapshot_def entry_of_def default_ref_snapshot_def)
  show ?thesis
    unfolding analyze_objects_def base pfx Let_def
  proof (rule wp_and_then, rule wp_map_err, rule wp_tombstoned_bundle_keys, goal_cases)
    case (2 hs t)
    then show ?case by (intro loop [of hs "[]"]) (use empty in \<open>auto simp: keep_def\<close>)
  qed (use assms(1,4) in auto)
qed

end

subsection \<open>What a run gives up\<close>

abbreviation ref_bundle :: "doctor \<Rightarrow> string \<Rightarrow> string \<Rightarrow> string" where
  "ref_bundle d r sha \<equiv> bundle_key (Some (dc_prefix d)) r sha"

definition quarantine_key :: "doctor \<Rightarrow> doctor_inputs \<Rightarrow> string \<Rightarrow> string \<Rightarrow> string" where
  "quarantine_key d inputs r sha = ref_bundle d (r @ ''_'' @ take 8 (di_uuid inputs (ref_bundle d r sha))) sha"

definition stored_bundle :: "doctor \<Rightarrow> bucket \<Rightarrow> string \<times> string \<Rightarrow> bool" where
  "stored_bundle d v b \<longleftrightarrow> (case b of (r, sha) \<Rightarrow> is_valid_bundle_stem sha \<and> v (ref_bundle d r sha) \<noteq> None)"

text \<open>The random suffixes name new branches, a different one for each bundle.\<close>

definition fresh_quarantine :: "doctor \<Rightarrow> doctor_inputs \<Rightarrow> bucket \<Rightarrow> bool" where
  "fresh_quarantine d inputs v \<longleftrightarrow>
     (\<forall>r sha. stored_bundle d v (r, sha) \<longrightarrow> v (quarantine_key d inputs r sha) = None) \<and>
     (\<forall>r sha r' sha'. stored_bundle d v (r, sha) \<longrightarrow> stored_bundle d v (r', sha') \<longrightarrow>
        quarantine_key d inputs r sha = quarantine_key d inputs r' sha' \<longrightarrow> r = r' \<and> sha = sha')"

text \<open>\<open>L\<close>: the bundles that were up for eviction. Each is still there, or gone with a copy left.\<close>

definition doctored :: "doctor \<Rightarrow> doctor_inputs \<Rightarrow> bucket \<Rightarrow> bucket \<Rightarrow> (string \<times> string) set \<Rightarrow> bool" where
  "doctored d inputs v w L \<longleftrightarrow>
     (\<forall>k. (\<forall>(r, sha) \<in> L. k \<noteq> ref_bundle d r sha \<and> k \<noteq> quarantine_key d inputs r sha) \<longrightarrow> w k = v k) \<and>
     (\<forall>(r, sha) \<in> L. w (ref_bundle d r sha) = v (ref_bundle d r sha) \<or>
        w (ref_bundle d r sha) = None \<and>
        (do_delete_bundle (dc_opts d) \<or> (\<exists>m. w (quarantine_key d inputs r sha) = Some (body_at v (ref_bundle d r sha), m))))"

definition spared :: "doctor \<Rightarrow> bucket \<Rightarrow> (string \<times> string) set \<Rightarrow> bool" where
  "spared d v L \<longleftrightarrow> (\<forall>(r, sha) \<in> L. stored_bundle d v (r, sha) \<and> (\<exists>sha'. stored_bundle d v (r, sha') \<and> (r, sha') \<notin> L))"

lemma doctored_start [simp]: "doctored d inputs v v {}"
  by (simp add: doctored_def)

lemma quarantine_apart:
  assumes "fresh_quarantine d inputs v" "stored_bundle d v (r, sha)" "stored_bundle d v (r', sha')"
  shows "quarantine_key d inputs r sha \<noteq> ref_bundle d r' sha'"
    "(r, sha) \<noteq> (r', sha') \<Longrightarrow> quarantine_key d inputs r sha \<noteq> quarantine_key d inputs r' sha'"
    "(r, sha) \<noteq> (r', sha') \<Longrightarrow> ref_bundle d r sha \<noteq> ref_bundle d r' sha'"
proof -
  have "v (quarantine_key d inputs r sha) = None" "v (ref_bundle d r' sha') \<noteq> None"
    using assms unfolding fresh_quarantine_def stored_bundle_def by auto
  then show "quarantine_key d inputs r sha \<noteq> ref_bundle d r' sha'" by metis
  show "(r, sha) \<noteq> (r', sha') \<Longrightarrow> quarantine_key d inputs r sha \<noteq> quarantine_key d inputs r' sha'"
    using assms unfolding fresh_quarantine_def by blast
  show "(r, sha) \<noteq> (r', sha') \<Longrightarrow> ref_bundle d r sha \<noteq> ref_bundle d r' sha'"
    using assms(2,3) by (auto simp: stored_bundle_def bundle_key_inject)
qed

lemma doctored_untouched:
  assumes "doctored d inputs v w L" "fresh_quarantine d inputs v" "\<forall>b \<in> L. stored_bundle d v b"
    and "stored_bundle d v (r, sha)" "(r, sha) \<notin> L"
  shows "w (ref_bundle d r sha) = v (ref_bundle d r sha)"
proof -
  have "ref_bundle d r sha \<noteq> ref_bundle d r' sha' \<and> ref_bundle d r sha \<noteq> quarantine_key d inputs r' sha'"
    if "(r', sha') \<in> L" for r' sha'
  proof -
    have "stored_bundle d v (r', sha')" using assms(3) that by blast
    with quarantine_apart(3) [OF assms(2,4) this] quarantine_apart(1) [OF assms(2) this assms(4)] that assms(5)
    show ?thesis by auto
  qed
  with assms(1) show ?thesis unfolding doctored_def by blast
qed

lemma doctored_evict:
  assumes "doctored d inputs v w L" "fresh_quarantine d inputs v" "\<forall>b \<in> L. stored_bundle d v b"
    and "stored_bundle d v (r, sha)" "(r, sha) \<notin> L"
    and "\<And>k. k \<noteq> ref_bundle d r sha \<Longrightarrow> k \<noteq> quarantine_key d inputs r sha \<Longrightarrow> w' k = w k"
    and "w' (ref_bundle d r sha) = w (ref_bundle d r sha) \<or>
      w' (ref_bundle d r sha) = None \<and>
      (do_delete_bundle (dc_opts d) \<or> (\<exists>m. w' (quarantine_key d inputs r sha) = Some (body_at v (ref_bundle d r sha), m)))"
  shows "doctored d inputs v w' (insert (r, sha) L)"
proof -
  have keep: "w' (ref_bundle d r' sha') = w (ref_bundle d r' sha')"
    "w' (quarantine_key d inputs r' sha') = w (quarantine_key d inputs r' sha')" if "(r', sha') \<in> L" for r' sha'
  proof -
    have s: "stored_bundle d v (r', sha')" "(r', sha') \<noteq> (r, sha)" using assms(3,5) that by auto
    show "w' (ref_bundle d r' sha') = w (ref_bundle d r' sha')"
      using assms(6) quarantine_apart(3) [OF assms(2) s(1) assms(4)] quarantine_apart(1) [OF assms(2,4) s(1)] s(2) by metis
    show "w' (quarantine_key d inputs r' sha') = w (quarantine_key d inputs r' sha')"
      using assms(6) quarantine_apart(1,2) [OF assms(2) s(1) assms(4)] s(2) by metis
  qed
  show ?thesis
    using assms(1,6,7) keep doctored_untouched [OF assms(1-5)] unfolding doctored_def by (auto simp: split_beta)
qed

context store_contract
begin

lemma evict_effect:
  assumes "fresh_quarantine d inputs v" "doctored d inputs v (view s) L" "\<forall>b \<in> L. stored_bundle d v b"
    and "stored_bundle d v (r, sb_sha b)" "(r, sb_sha b) \<notin> L" "sb_key b = ref_bundle d r (sb_sha b)"
  shows "wp (evict_losing_bundle st d inputs r b)
    (\<lambda>_ p. doctored d inputs v (view (fst p)) (insert (r, sb_sha b) L))
    (\<lambda>_ p. doctored d inputs v (view (fst p)) (insert (r, sb_sha b) L)) (s, w)"
proof -
  let ?k = "ref_bundle d r (sb_sha b)" and ?q = "quarantine_key d inputs r (sb_sha b)"
  define D where "D p \<longleftrightarrow> doctored d inputs v (view (fst p)) (insert (r, sb_sha b) L)" for p :: "'s \<times> writer"
  have q: "?q = ref_bundle d (quarantine_ref inputs r b) (sb_sha b)"
    by (simp add: quarantine_key_def quarantine_ref_def assms(6))
  have differ: "?q \<noteq> ?k" by (rule quarantine_apart(1) [OF assms(1,4,4)])
  have now: "view s ?k = v ?k" by (rule doctored_untouched [OF assms(2,1,3-5)])
  note evict = doctored_evict [OF assms(2,1,3-5)]
  have same: "D (t, w')" if "view t = view s" for t w'
    unfolding D_def fst_conv by (rule evict) (use that in auto)
  have remove: "wp (match_io (in_store (st_delete st ?k))
      (\<lambda>e. case e of
         NotFound _ \<Rightarrow> writeln (''Skipping '' @ sb_sha b @ '': loser bundle already gone before delete'')
       | _ \<Rightarrow> fail_with (MgStore e))
      (\<lambda>_. ok ())) (\<lambda>_. D) (\<lambda>_. D) (t, w')"
    if t: "\<And>k. k \<noteq> ?q \<Longrightarrow> view t k = view s k"
      and copied: "do_delete_bundle (dc_opts d) \<or> (\<exists>m. view t ?q = Some (body_at v ?k, m))" for t w'
  proof -
    have still: "D (u, w'')" if "view u = view t" for u w''
      unfolding D_def fst_conv by (rule evict) (use that t differ in auto)
    have gone: "D (u, w'')" if "view u = (view t)(?k := None)" for u w''
      unfolding D_def fst_conv by (rule evict) (use that t copied differ in auto)
    show ?thesis
    proof (rule wp_match, rule wp_in_store, rule wp_st_delete, goal_cases)
      case (1 u)
      then show ?case by (intro wp_ok) (simp add: gone)
    next
      case (2 e u)
      then have "D (u, w'')" for w'' using still gone by auto
      then show ?case by (cases e) (auto intro!: wp_writeln wp_fail)
    qed
  qed
  have "wp (evict_losing_bundle st d inputs r b) (\<lambda>_. D) (\<lambda>_. D) (s, w)"
    unfolding evict_losing_bundle_def Let_def assms(6) q [symmetric]
  proof (rule wp_if, goal_cases)
    case 1
    show ?case
      by (rule wp_and_then, rule wp_writeln, unfold fst_conv snd_conv, rule remove) (use 1 same in auto)
  next
    case 2
    show ?case
    proof (rule wp_and_then, rule wp_writeln, unfold fst_conv snd_conv, rule wp_match, rule wp_in_store, rule wp_st_copy,
        unfold fst_conv snd_conv, goal_cases)
      case (1 w' body m t)
      then have "body_at v ?k = body" using now by simp
      with 1 show ?case by (intro remove) (auto simp: wrote_def)
    next
      case (2 w' e t)
      have "D (t, w'')" for w''
        unfolding D_def fst_conv by (rule evict) (use 2 differ in \<open>auto simp: wrote_def\<close>)
      then show ?case by (cases e) (auto intro!: wp_writeln wp_fail)
    next
      case 3
      then show ?case by (simp add: same)
    qed
  qed
  then show ?thesis by (simp add: D_def [abs_def])
qed

end

definition good_entry :: "doctor \<Rightarrow> bucket \<Rightarrow> string \<Rightarrow> snap_bundle list \<Rightarrow> bool" where
  "good_entry d v r bundles \<longleftrightarrow>
     (\<forall>b \<in> set bundles. sb_key b = ref_bundle d r (sb_sha b) \<and> stored_bundle d v (r, sb_sha b)) \<and> distinct (map sb_sha bundles)"

text \<open>Nobody else uses the bucket while the operator thinks.\<close>

definition others_idle_in :: "('s \<Rightarrow> bucket) \<Rightarrow> 's operator \<Rightarrow> bool" where
  "others_idle_in view op \<longleftrightarrow> (\<forall>t. view (op_meanwhile op t) = view t)"

lemma wp_pick [wp_intros]:
  assumes "\<And>n. op_select op (wr_text (snd p)) q options = Inr n \<Longrightarrow> Q n (op_meanwhile op (fst p), snd p)"
    and "\<And>e. op_select op (wr_text (snd p)) q options = Inl e \<Longrightarrow> E e (op_meanwhile op (fst p), snd p)"
  shows "wp (pick op q options) Q E p"
  using assms by (cases p; cases "op_select op (wr_text (snd p)) q options") (auto simp: wp_def pick_def)

lemma wp_emit [wp_intros]:
  assumes "\<And>w. Q () (fst p, w)" "\<And>w. E (MgIo broken_pipe) (fst p, w)"
  shows "wp (emit t) Q E p"
  unfolding emit_def by (intro wp_intros assms)

text \<open>The bundles of one ref that were up for eviction in one go.\<close>

definition given_up ::
    "doctor \<Rightarrow> doctor_inputs \<Rightarrow> bucket \<Rightarrow> (string \<times> string) set \<Rightarrow> string \<Rightarrow> string set \<Rightarrow> bucket \<Rightarrow> bool" where
  "given_up d inputs v L r shas w \<longleftrightarrow> (\<exists>L'. L' \<subseteq> {r} \<times> shas \<and> doctored d inputs v w (L \<union> L'))"

lemma given_up_more:
  assumes "given_up d inputs v (insert (r, sha) L) r (sb_sha ` set losers) u" "sha = sb_sha b"
  shows "given_up d inputs v L r (sb_sha ` set (b # losers)) u"
proof -
  obtain L' where "L' \<subseteq> {r} \<times> sb_sha ` set losers" "doctored d inputs v u (insert (r, sha) L \<union> L')"
    using assms(1) by (auto simp: given_up_def)
  then show ?thesis unfolding given_up_def assms(2) by (intro exI [of _ "insert (r, sb_sha b) L'"]) auto
qed

lemma spared_union:
  assumes "spared d v L" "\<forall>sha. (r, sha) \<notin> L" "L' \<subseteq> {r} \<times> shas"
    and "\<forall>sha \<in> shas. stored_bundle d v (r, sha)" "stored_bundle d v (r, kept)" "kept \<notin> shas"
  shows "spared d v (L \<union> L')"
  unfolding spared_def
proof (intro ballI, clarify)
  fix r' sha
  assume "(r', sha) \<in> L \<union> L'"
  then show "stored_bundle d v (r', sha) \<and> (\<exists>sha'. stored_bundle d v (r', sha') \<and> (r', sha') \<notin> L \<union> L')"
  proof
    assume "(r', sha) \<in> L"
    with assms(1) obtain sha' where "stored_bundle d v (r', sha)" "stored_bundle d v (r', sha')" "(r', sha') \<notin> L"
      unfolding spared_def by blast
    moreover have "r' \<noteq> r" using assms(2) \<open>(r', sha) \<in> L\<close> by blast
    ultimately show ?thesis using assms(3) by blast
  next
    assume "(r', sha) \<in> L'"
    with assms(3) have "r' = r" "sha \<in> shas" by auto
    with assms(2-6) show ?thesis by blast
  qed
qed

text \<open>The same, and each of them left a bundle of its ref behind.\<close>

definition settled ::
    "doctor \<Rightarrow> doctor_inputs \<Rightarrow> bucket \<Rightarrow> (string \<times> string) set \<Rightarrow> string \<Rightarrow> bucket \<Rightarrow> bool" where
  "settled d inputs v L r w \<longleftrightarrow>
     (\<exists>L'. fst ` L' \<subseteq> {r} \<and> doctored d inputs v w (L \<union> L') \<and> spared d v (L \<union> L'))"

lemma given_up_settled:
  assumes "given_up d inputs v L r shas w" "spared d v L" "\<forall>sha. (r, sha) \<notin> L"
    and "\<forall>sha \<in> shas. stored_bundle d v (r, sha)" "stored_bundle d v (r, kept)" "kept \<notin> shas"
  shows "settled d inputs v L r w"
proof -
  obtain L' where "L' \<subseteq> {r} \<times> shas" "doctored d inputs v w (L \<union> L')" using assms(1) by (auto simp: given_up_def)
  then show ?thesis using spared_union [OF assms(2,3) _ assms(4-6)] unfolding settled_def by (intro exI [of _ L']) auto
qed

definition only_losers :: "doctor \<Rightarrow> doctor_inputs \<Rightarrow> bucket \<Rightarrow> bucket \<Rightarrow> bool" where
  "only_losers d inputs v w \<longleftrightarrow> (\<exists>L. doctored d inputs v w L \<and> spared d v L)"

lemma set_ref_other: "r' \<noteq> r \<Longrightarrow> map_of (sn_refs (set_ref r rs snapshot)) r' = map_of (sn_refs snapshot) r'"
proof -
  assume "r' \<noteq> r"
  then have "map_of (map (\<lambda>(k, r'). if k = r then (k, rs) else (k, r')) refs) r' = map_of refs r'" for refs
    by (induction refs) auto
  then show ?thesis by (simp add: set_ref_def)
qed

text \<open>HEAD as the run leaves it: a branch with data.\<close>

definition head_set :: "doctor \<Rightarrow> bucket \<Rightarrow> bucket \<Rightarrow> bool" where
  "head_set d u w \<longleftrightarrow>
     (\<exists>b. wrote (join (Some (dc_prefix d)) ''HEAD'') (''refs/heads/'' @ b) u w \<and>
       (branch_text \<lparr>mb_prefix = dc_prefix d, mb_branch = b\<rparr> \<longrightarrow> branch_data \<lparr>mb_prefix = dc_prefix d, mb_branch = b\<rparr> u))"

text \<open>Locks that were found stale when the bucket was listed, and again before they are deleted.\<close>

definition stale_at_scan :: "doctor \<Rightarrow> doctor_inputs \<Rightarrow> bucket \<Rightarrow> string set" where
  "stale_at_scan d inputs v =
     {k. \<exists>b m. v k = Some (b, m) \<and> lock_age (di_scan_now inputs) (resolved_lock_ttl_seconds d inputs * 10 ^ 9) m \<noteq> None}"

definition swept_locks :: "doctor \<Rightarrow> doctor_inputs \<Rightarrow> string set \<Rightarrow> bucket \<Rightarrow> bucket \<Rightarrow> bool" where
  "swept_locks d inputs K u w \<longleftrightarrow>
     (\<forall>k. w k = u k \<or> w k = None \<and> k \<in> K \<and> is_lock_key k \<and> do_delete_stale_locks (dc_opts d) \<and>
       (\<exists>b m. u k = Some (b, m) \<and>
          lock_age (di_recheck_now inputs k) (resolved_lock_ttl_seconds d inputs * 10 ^ 9) m \<noteq> None))"

text \<open>The three things a run may do to the bucket, in their order.\<close>

definition doctor_spares :: "doctor \<Rightarrow> doctor_inputs \<Rightarrow> bucket \<Rightarrow> bucket \<Rightarrow> bool" where
  "doctor_spares d inputs v w \<longleftrightarrow>
     (\<exists>u u'. only_losers d inputs v u \<and> (u' = u \<or> head_set d u u') \<and> swept_locks d inputs (stale_at_scan d inputs v) u' w)"

lemma swept_locks_refl [simp]: "swept_locks d inputs K u u"
  by (simp add: swept_locks_def)

lemma shown_good:
  assumes "lists (key_base (Some (dc_prefix d))) ms v"
  shows "good_entry d v r (shown_bundles (dc_prefix d) (filter keep ms) r)"
proof -
  let ?base = "key_base (Some (dc_prefix d))"
  define shown where "shown = filter (\<lambda>m. case strip_prefix ?base (om_key m) of Some rel \<Rightarrow> bundle_rel r rel | None \<Rightarrow> False) (filter keep ms)"
  have key: "om_key m = ref_bundle d r (sb_sha (snap_of (dc_prefix d) m)) \<and> stored_bundle d v (r, sb_sha (snap_of (dc_prefix d) m))"
    if "m \<in> set shown" for m
  proof -
    obtain rel where rel: "om_key m = ?base @ rel" "bundle_rel r rel" "m \<in> set ms"
      using \<open>m \<in> set shown\<close> by (auto simp: shown_def split: option.splits)
    then obtain sha where sha: "is_valid_bundle_stem sha" "om_key m = ?base @ r @ ''/'' @ sha @ ''.bundle''"
      by (auto simp: bundle_rel_iff)
    then have k: "om_key m = ref_bundle d r sha" by (simp add: bundle_key_base)
    have "last_segment CHR ''/'' (om_key m) = sha @ ''.bundle''"
      using last_segment_append [of "CHR ''/''" "sha @ ''.bundle''" "?base @ r"] sha by simp
    then have "sb_sha (snap_of (dc_prefix d) m) = sha" by (simp add: snap_of_def)
    moreover have "v (om_key m) \<noteq> None" using assms rel(3) by (auto simp: lists_def)
    ultimately show ?thesis using k sha(1) by (simp add: stored_bundle_def)
  qed
  have "inj_on om_key (set ms)" using assms by (simp add: lists_def distinct_map)
  have inj: "inj_on (\<lambda>m. sb_sha (snap_of (dc_prefix d) m)) (set shown)"
  proof (rule inj_onI)
    fix m m'
    assume m: "m \<in> set shown" "m' \<in> set shown" "sb_sha (snap_of (dc_prefix d) m) = sb_sha (snap_of (dc_prefix d) m')"
    then have "om_key m = om_key m'" using key by simp
    moreover have "m \<in> set ms" "m' \<in> set ms" using m(1,2) by (simp_all add: shown_def)
    ultimately show "m = m'" using \<open>inj_on om_key (set ms)\<close> by (simp add: inj_on_def)
  qed
  have "distinct ms" using assms by (simp add: lists_def distinct_map)
  then have "distinct shown" by (simp add: shown_def)
  with inj have "distinct (map sb_sha (map (snap_of (dc_prefix d)) shown))" by (simp add: distinct_map o_def)
  moreover have "sb_key (snap_of (dc_prefix d) m) = om_key m" for m by (simp add: snap_of_def)
  ultimately show ?thesis using key unfolding good_entry_def shown_bundles_def shown_def [symmetric] by auto
qed

context store_contract
begin

lemma evict_all:
  assumes "fresh_quarantine d inputs v" "doctored d inputs v (view s) L" "\<forall>b \<in> L. stored_bundle d v b"
    and "\<forall>sha. (r, sha) \<in> L \<longrightarrow> sha \<notin> sb_sha ` set losers" "good_entry d v r losers"
  shows "wp (fold_io (\<lambda>_ losing. evict_losing_bundle st d inputs r losing) () losers)
    (\<lambda>_ p. given_up d inputs v L r (sb_sha ` set losers) (view (fst p)))
    (\<lambda>_ p. given_up d inputs v L r (sb_sha ` set losers) (view (fst p))) (s, w)"
  using assms(2-5)
proof (induction losers arbitrary: L s w)
  case Nil
  then show ?case by (auto simp: given_up_def intro!: wp_ok)
next
  case (Cons b losers)
  let ?L = "insert (r, sb_sha b) L"
  have b: "sb_key b = ref_bundle d r (sb_sha b)" "stored_bundle d v (r, sb_sha b)" "(r, sb_sha b) \<notin> L"
    "sb_sha b \<notin> sb_sha ` set losers" "good_entry d v r losers"
    using Cons.prems by (auto simp: good_entry_def)
  have more: "given_up d inputs v ?L r (sb_sha ` set losers) u \<Longrightarrow> given_up d inputs v L r (sb_sha ` set (b # losers)) u" for u
    by (rule given_up_more) simp_all
  show ?case
    unfolding fold_io.simps
  proof (rule wp_and_then, rule wp_mono [OF evict_effect [OF assms(1) Cons.prems(1,2) b(2,3,1)]], goal_cases)
    case (1 u p)
    have "wp (fold_io (\<lambda>_ losing. evict_losing_bundle st d inputs r losing) () losers)
        (\<lambda>_ p. given_up d inputs v ?L r (sb_sha ` set losers) (view (fst p)))
        (\<lambda>_ p. given_up d inputs v ?L r (sb_sha ` set losers) (view (fst p))) (fst p, snd p)"
      by (rule Cons.IH) (use 1 b Cons.prems(2,3) in auto)
    then show ?case unfolding prod.collapse unit_eq [of u] by (rule wp_mono) (rule more, assumption)+
  next
    case (2 e p)
    then show ?case by (intro more) (auto simp: given_up_def)
  qed
qed

lemma fix_multiple_effect:
  assumes fresh: "fresh_quarantine d inputs v" and idle: "others_idle_in view op"
    and state: "doctored d inputs v (view s) L" "spared d v L" "\<forall>sha. (r, sha) \<notin> L"
    and entry: "\<And>entry. map_of (sn_refs snapshot) r = Some entry \<Longrightarrow> good_entry d v r (rs_bundles entry)"
  shows "wp (fix_multiple_bundles st op d inputs snapshot r)
    (\<lambda>snapshot' p. settled d inputs v L r (view (fst p)) \<and> (snapshot' = snapshot \<or> (\<exists>rs. snapshot' = set_ref r rs snapshot)))
    (\<lambda>_ p. settled d inputs v L r (view (fst p))) (s, w)"
proof -
  define P where "P p \<longleftrightarrow> settled d inputs v L r (view (fst p))" for p :: "'s \<times> writer"
  have same: "P (t, w')" if "view t = view s" for t w'
    unfolding P_def settled_def by (rule exI [of _ "{}"]) (use that state in auto)
  have m: "view (op_meanwhile op t) = view t" for t using idle by (simp add: others_idle_in_def)
  have stored: "\<forall>b \<in> L. stored_bundle d v b" using state(2) by (auto simp: spared_def)
  have "wp (fix_multiple_bundles st op d inputs snapshot r)
      (\<lambda>snapshot' p. P p \<and> (snapshot' = snapshot \<or> (\<exists>rs. snapshot' = set_ref r rs snapshot))) (\<lambda>_. P) (s, w)"
    unfolding fix_multiple_bundles_def Let_def
  proof (rule wp_and_then, rule wp_emit, unfold fst_conv snd_conv, rule wp_option, goal_cases)
    case 1
    then show ?case by (intro wp_fail same) simp
  next
    case (2 w' entry)
    note good = assms(6) [OF 2]
    show ?case
    proof (rule wp_and_then, rule wp_pick, unfold fst_conv snd_conv, goal_cases)
      case (1 idx)
      show ?case
      proof (rule wp_if, goal_cases)
        case 1
        then show ?case by (intro wp_fail same) (simp add: m)
      next
        case 2
        define keeper where "keeper = rs_bundles entry ! idx"
        have keeper: "keeper \<in> set (rs_bundles entry)" using 2 by (simp add: keeper_def)
        define losers where "losers = filter (Not \<circ> (\<lambda>b. sb_sha b = sb_sha keeper)) (rs_bundles entry)"
        have losers: "good_entry d v r losers"
          using good by (auto simp: good_entry_def losers_def distinct_map_filter)
        have "wp (fold_io (\<lambda>_ losing. evict_losing_bundle st d inputs r losing) () losers) (\<lambda>_. P) (\<lambda>_. P) (t, w'')"
          if "view t = view s" for t w''
        proof (rule wp_mono [OF evict_all [OF fresh _ stored _ losers]])
          show "doctored d inputs v (view t) L" using that state(1) by simp
          show "\<forall>sha. (r, sha) \<in> L \<longrightarrow> sha \<notin> sb_sha ` set losers" using state(3) by blast
          have kept: "stored_bundle d v (r, sb_sha keeper)" "sb_sha keeper \<notin> sb_sha ` set losers"
            using good keeper by (auto simp: good_entry_def losers_def)
          have "settled d inputs v L r u" if "given_up d inputs v L r (sb_sha ` set losers) u" for u
            by (rule given_up_settled [OF that state(2,3) _ kept]) (use losers in \<open>auto simp: good_entry_def\<close>)
          then show "given_up d inputs v L r (sb_sha ` set losers) (view (fst p)) \<Longrightarrow> P p"
            "given_up d inputs v L r (sb_sha ` set losers) (view (fst p)) \<Longrightarrow> P p" for p
            by (simp_all add: P_def)
        qed
        note evicted = this
        show ?case
        proof (rule wp_and_then, rule wp_ask, unfold fst_conv snd_conv, goal_cases)
          case (1 confirmed)
          show ?case
          proof (rule wp_if, goal_cases)
            case 1
            show ?case by (intro wp_and_then wp_writeln wp_ok) (auto simp: m same)
          next
            case 2
            show ?case
              unfolding keeper_def [symmetric] partition_filter_conv prod.case losers_def [symmetric]
            proof (rule wp_and_then, rule wp_match, rule wp_in_store, rule wp_st_head, unfold fst_conv snd_conv, goal_cases)
              case (1 body mt t)
              then have t: "view t = view s" by (simp add: m)
              show ?case
                by (rule wp_ok, rule wp_and_then, rule wp_writeln, unfold fst_conv snd_conv, rule wp_and_then,
                    rule wp_mono [OF evicted [OF t]]) (auto intro!: wp_ok simp: same t)
            next
              case (2 e t)
              then have "view t = view s" by (simp add: m)
              then show ?case by (cases e) (auto intro!: wp_and_then wp_writeln wp_fail same)
            qed
          qed
        qed (simp add: same m)
      qed
    qed (simp add: same m)
  qed (simp add: same)
  then show ?thesis by (simp add: P_def [abs_def])
qed

lemma fix_all_effect:
  assumes fresh: "fresh_quarantine d inputs v" and idle: "others_idle_in view op"
    and "doctored d inputs v (view s) L" "spared d v L" "distinct rs"
    and "\<And>r entry. r \<in> set rs \<Longrightarrow> map_of (sn_refs snapshot) r = Some entry \<Longrightarrow> good_entry d v r (rs_bundles entry)"
    and "\<And>r sha. r \<in> set rs \<Longrightarrow> (r, sha) \<notin> L"
  shows "wp (fold_io (fix_multiple_bundles st op d inputs) snapshot rs)
    (\<lambda>_ p. only_losers d inputs v (view (fst p))) (\<lambda>_ p. only_losers d inputs v (view (fst p))) (s, w)"
  using assms(3-7)
proof (induction rs arbitrary: snapshot L s w)
  case Nil
  then show ?case by (auto simp: only_losers_def intro!: wp_ok)
next
  case (Cons r rs)
  show ?case
    unfolding fold_io.simps
  proof (rule wp_and_then, rule wp_mono [OF fix_multiple_effect [OF fresh idle Cons.prems(1,2)]], goal_cases)
    case 1
    then show ?case using Cons.prems(5) by auto
  next
    case (2 entry)
    then show ?case using Cons.prems(4) by auto
  next
    case (3 snapshot' p)
    then obtain L' where L': "fst ` L' \<subseteq> {r}" "doctored d inputs v (view (fst p)) (L \<union> L')" "spared d v (L \<union> L')"
      by (auto simp: settled_def)
    have other: "map_of (sn_refs snapshot') r' = map_of (sn_refs snapshot) r'" if "r' \<noteq> r" for r'
      using 3 that set_ref_other by auto
    have "wp (fold_io (fix_multiple_bundles st op d inputs) snapshot' rs)
      (\<lambda>_ p. only_losers d inputs v (view (fst p))) (\<lambda>_ p. only_losers d inputs v (view (fst p))) (fst p, snd p)"
    proof (rule Cons.IH [OF L'(2,3)])
      show "distinct rs" using Cons.prems(3) by simp
      show "good_entry d v r' (rs_bundles entry)" if "r' \<in> set rs" "map_of (sn_refs snapshot') r' = Some entry" for r' entry
        using that other Cons.prems(3,4) by (metis distinct.simps(2) list.set_intros(2))
      show "(r', sha) \<notin> L \<union> L'" if "r' \<in> set rs" for r' sha
        using that L'(1) Cons.prems(3,5) by (auto simp: image_subset_iff)
    qed
    then show ?case by simp
  next
    case (4 e p)
    then show ?case by (auto simp: settled_def only_losers_def)
  qed
qed

lemma wp_packchain_section:
  assumes "\<And>r t. view t = view s \<Longrightarrow> Q r t" "\<And>e t. view t = view s \<Longrightarrow> E e t"
  shows "wp (maybe_render_packchain_section x st d inputs listing) Q E s"
proof -
  have "keeps (frame view {}) (maybe_render_packchain_section x st d inputs listing)"
    unfolding maybe_render_packchain_section_def by (intro keeps_intros) auto
  then show ?thesis by (rule wp_keeps [where ?s0.0 = s]) (auto simp: frame_def transp_def intro!: assms ext)
qed

lemma fix_head_effect:
  assumes idle: "others_idle_in view op"
  shows "wp (fix_head st op d snapshot)
    (\<lambda>_ p. view (fst p) = view s \<or> head_set d (view s) (view (fst p)))
    (\<lambda>_ p. view (fst p) = view s \<or> head_set d (view s) (view (fst p))) (s, w)"
proof -
  define P where "P p \<longleftrightarrow> view (fst p) = view s \<or> head_set d (view s) (view (fst p))" for p :: "'s \<times> writer"
  have same: "view t = view s \<Longrightarrow> P (t, w')" for t w' by (simp add: P_def)
  have m: "view (op_meanwhile op t) = view t" for t using idle by (simp add: others_idle_in_def)
  define candidates where "candidates = map fst (filter (\<lambda>(k, r). starts_with k ''refs/heads/'' \<and> snapshot_has_data r) (sn_refs snapshot))"
  have heads: "starts_with c ''refs/heads/''" if "c \<in> set candidates" for c using that by (auto simp: candidates_def)
  have "wp (fix_head st op d snapshot) (\<lambda>_. P) (\<lambda>_. P) (s, w)"
    unfolding fix_head_def candidates_def [symmetric] Let_def
  proof (rule wp_and_then, rule wp_emit, unfold fst_conv snd_conv, rule wp_if, goal_cases)
    case (1 w')
    show ?case by (intro wp_and_then wp_writeln wp_ok) (simp_all add: same)
  next
    case (2 w')
    show ?case
    proof (rule wp_and_then, rule wp_pick, unfold fst_conv snd_conv, rule wp_if, goal_cases)
      case (1 n)
      show ?case by (intro wp_fail same) (simp add: m)
    next
      case (2 n)
      obtain b where b: "candidates ! n = ''refs/heads/'' @ b"
        using heads [of "candidates ! n"] 2(2) by (auto simp: prefix_def)
      have prefix: "ref_listing_prefix (Some (dc_prefix d)) (''refs/heads/'' @ b) = branch_prefix \<lparr>mb_prefix = dc_prefix d, mb_branch = b\<rparr>"
        by (simp add: branch_prefix_def)
      show ?case
        unfolding b
      proof (rule wp_and_then, rule wp_on_bucket, rule wp_st_list, unfold fst_conv snd_conv, rule wp_if, goal_cases)
        case (1 ms t)
        then have "view t = view s" by (simp add: m)
        then show ?case by (intro wp_and_then wp_if wp_writeln wp_fail) (simp_all add: same)
      next
        case (2 ms t)
        then have t: "view t = view s" by (simp add: m)
        have set: "P (u, w'')" if "wrote (join (Some (dc_prefix d)) ''HEAD'') (''refs/heads/'' @ b) (view t) (view u)" for u w''
        proof -
          have "branch_data \<lparr>mb_prefix = dc_prefix d, mb_branch = b\<rparr> (view s)" if "branch_text \<lparr>mb_prefix = dc_prefix d, mb_branch = b\<rparr>"
          proof -
            have "lists (branch_prefix \<lparr>mb_prefix = dc_prefix d, mb_branch = b\<rparr>) ms (view s)"
              using 2(3) listable_branch [OF that] unfolding prefix m by blast
            with 2(4) show ?thesis by (simp add: listed_branch_data)
          qed
          then show ?thesis using that t by (auto simp: P_def head_set_def)
        qed
        show ?case
        proof (rule wp_and_then, rule wp_writeln, unfold fst_conv snd_conv, rule wp_and_then, rule wp_on_bucket,
            rule wp_st_put_bytes, unfold fst_conv snd_conv, goal_cases)
          case (1 w'' u)
          show ?case by (rule wp_ok, rule set, rule 1(3))
        next
          case (2 w'' e u)
          from 2(3) show ?case by (rule disjE) (simp add: same t, rule set)
        qed (simp add: same t)
      next
        case (3 e t)
        then show ?case by (simp add: m same)
      qed
    next
      case (3 e)
      then show ?case by (simp add: m same)
    qed
  next
    case 3
    show ?case by (simp add: same)
  qed
  then show ?thesis by (simp add: P_def [abs_def])
qed

lemma stale_lock_effect:
  assumes "swept_locks d inputs K u (view s)" "key \<in> K" "do_delete_stale_locks (dc_opts d)" "is_lock_key key"
    and "ttl = resolved_lock_ttl_seconds d inputs * 10 ^ 9"
  shows "wp (delete_stale_lock_if_still_stale st inputs key ttl)
    (\<lambda>_ p. swept_locks d inputs K u (view (fst p))) (\<lambda>_ p. swept_locks d inputs K u (view (fst p))) (s, w)"
proof -
  define P where "P p \<longleftrightarrow> swept_locks d inputs K u (view (fst p))" for p :: "'s \<times> writer"
  have same: "view t = view s \<Longrightarrow> P (t, w')" for t w' using assms(1) by (simp add: P_def)
  have "wp (delete_stale_lock_if_still_stale st inputs key ttl) (\<lambda>_. P) (\<lambda>_. P) (s, w)"
    unfolding delete_stale_lock_if_still_stale_def
  proof (rule wp_match, rule wp_in_store, rule wp_st_head, unfold fst_conv snd_conv, goal_cases)
    case (1 b m t)
    show ?case
    proof (rule wp_if, goal_cases)
      case 1
      show ?case by (intro wp_and_then wp_writeln wp_ok) (simp_all add: same \<open>view t = view s\<close>)
    next
      case 2
      have kept: "view s key = u key" using assms(1) [unfolded swept_locks_def, rule_format, of key] 1(4) by auto
      have gone: "P (t', w')" if "view t' = (view t)(key := None)" for t' w'
      proof -
        have "u key = Some (b, om_last_modified m)" using kept 1(4) by simp
        with assms(1-4) that 1(1) 2 show ?thesis unfolding P_def swept_locks_def assms(5) [symmetric] by auto
      qed
      show ?case
      proof (rule wp_match, rule wp_in_store, rule wp_st_delete, unfold fst_conv snd_conv, goal_cases)
        case (1 t')
        show ?case by (intro wp_and_then wp_writeln wp_ok) (simp_all add: gone 1)
      next
        case (2 e t')
        then have "P (t', w')" for w' using gone same \<open>view t = view s\<close> by auto
        then show ?case by (intro wp_and_then wp_writeln wp_ok) simp_all
      qed
    qed
  next
    case (2 e t)
    then have "P (t, w')" for w' using same by simp
    then show ?case by (cases e) (auto intro!: wp_and_then wp_writeln wp_ok)
  qed
  then show ?thesis by (simp add: P_def [abs_def])
qed

lemma stale_locks_effect:
  assumes "lists base listing v"
  shows "wp (list_and_handle_stale_locks st d inputs listing)
    (\<lambda>_ p. swept_locks d inputs (stale_at_scan d inputs v) (view s) (view (fst p)))
    (\<lambda>_ p. swept_locks d inputs (stale_at_scan d inputs v) (view s) (view (fst p))) (s, w)"
proof -
  define ttl where "ttl = resolved_lock_ttl_seconds d inputs * 10 ^ 9"
  define stale where "stale = scan_stale_locks (di_scan_now inputs) listing ttl"
  define P where "P p \<longleftrightarrow> swept_locks d inputs (stale_at_scan d inputs v) (view s) (view (fst p))" for p :: "'s \<times> writer"
  have same: "P (s, w')" for w' by (simp add: P_def swept_locks_def)
  have mem: "key \<in> stale_at_scan d inputs v \<and> is_lock_key key" if "(key, age) \<in> set stale" for key age
  proof -
    have "\<exists>m \<in> set listing. is_lock_key key \<and> key = om_key m \<and> lock_age (di_scan_now inputs) ttl (om_last_modified m) \<noteq> None"
      using that by (auto simp: stale_def scan_stale_locks_def List.map_filter_def)
    then obtain m where m: "m \<in> set listing" "is_lock_key key" "key = om_key m"
      "lock_age (di_scan_now inputs) ttl (om_last_modified m) \<noteq> None" by blast
    with assms obtain b where "v key = Some (b, om_last_modified m)" by (auto simp: lists_def)
    with m show ?thesis by (auto simp: stale_at_scan_def ttl_def)
  qed
  have say: "wp (fold_io (\<lambda>_ (key, age). writeln (g key age)) () xs) (\<lambda>_ p. fst p = s) (\<lambda>_ p. fst p = s) (s, w')"
    for g :: "string \<Rightarrow> nat \<Rightarrow> string" and xs w'
    by (induction xs arbitrary: w') (auto intro!: wp_ok wp_and_then wp_writeln)
  have sweep: "wp (fold_io (\<lambda>counts (key, _). and_then (delete_stale_lock_if_still_stale st inputs key ttl)
        (\<lambda>outcome. ok (count_outcome outcome counts))) counts xs) (\<lambda>_. P) (\<lambda>_. P) p"
    if "P p" "set xs \<subseteq> set stale" "do_delete_stale_locks (dc_opts d)" for p counts xs
    using that(1,2)
  proof (induction xs arbitrary: p counts)
    case Nil
    then show ?case by (auto intro!: wp_ok)
  next
    case (Cons entry xs)
    obtain key age where entry: "entry = (key, age)" by force
    with Cons.prems mem have key: "key \<in> stale_at_scan d inputs v" "is_lock_key key" by auto
    have start: "swept_locks d inputs (stale_at_scan d inputs v) (view s) (view (fst p))" using Cons.prems(1) by (simp add: P_def)
    have "wp (delete_stale_lock_if_still_stale st inputs key ttl) (\<lambda>_. P) (\<lambda>_. P) p"
      using stale_lock_effect [OF start key(1) that(3) key(2) ttl_def, of "snd p"] by (simp add: P_def [abs_def])
    then show ?case
      unfolding fold_io.simps entry prod.case
      by (intro wp_and_then) (rule wp_mono, assumption, auto intro!: wp_ok Cons.IH Cons.prems(2) [THEN subset_trans [rotated]])
  qed
  have "wp (list_and_handle_stale_locks st d inputs listing) (\<lambda>_. P) (\<lambda>_. P) (s, w)"
    unfolding list_and_handle_stale_locks_def Let_def ttl_def [symmetric] stale_def [symmetric]
  proof (rule wp_and_then, rule wp_emit, unfold fst_conv snd_conv, rule wp_if, goal_cases)
    case 1
    show ?case by (intro wp_writeln) (simp_all add: same)
  next
    case (2 w')
    show ?case
    proof (rule wp_and_then, rule wp_writeln, unfold fst_conv snd_conv, rule wp_and_then, rule wp_mono [OF say], goal_cases)
      case (1 w1 u p)
      then obtain w2 where p: "p = (s, w2)" by (metis prod.collapse)
      show ?case
        unfolding p
      proof (rule wp_if, goal_cases)
        case 1
        show ?case by (intro wp_emit) (simp_all add: same)
      next
        case 2
        show ?case
          by (rule wp_and_then, rule wp_emit, unfold fst_conv snd_conv, rule wp_and_then, rule wp_mono [OF sweep])
            (use 2 in \<open>auto simp: P_def intro!: same [unfolded P_def] wp_if wp_writeln wp_ok split: prod.split\<close>)
      qed
    next
      case (2 w1 e p)
      then show ?case using same [of "snd p"] by (metis prod.collapse)
    qed (simp add: same)
  qed (simp add: same)
  then show ?thesis by (simp add: P_def [abs_def])
qed

lemma doctor_run_effect:
  assumes "utf8_valid (dc_prefix d)" "others_idle_in view op" "fresh_quarantine d inputs (view s)"
  shows "wp (doctor_run x st op d inputs)
    (\<lambda>_ p. doctor_spares d inputs (view s) (view (fst p))) (\<lambda>_ p. doctor_spares d inputs (view s) (view (fst p))) (s, w)"
proof -
  define P where "P p \<longleftrightarrow> doctor_spares d inputs (view s) (view (fst p))" for p :: "'s \<times> writer"
  have P3: "P p" if "only_losers d inputs (view s) u" "u' = u \<or> head_set d u u'"
      "swept_locks d inputs (stale_at_scan d inputs (view s)) u' (view (fst p))" for p u u'
    using that unfolding P_def doctor_spares_def by blast
  have P2: "P p" if "only_losers d inputs (view s) u" "view (fst p) = u \<or> head_set d u (view (fst p))" for p u
    by (rule P3 [OF that]) simp
  have P1: "P p" if "only_losers d inputs (view s) (view (fst p))" for p by (rule P2 [OF that]) simp
  have start: "only_losers d inputs (view s) (view s)"
    unfolding only_losers_def by (intro exI [of _ "{}"]) (simp add: spared_def)
  have P0: "P p" if "view (fst p) = view s" for p by (rule P1) (simp add: that start)
  have listed: "listable (key_base (Some (dc_prefix d)))"
    using assms(1) by (auto simp: listable_def key_base_def utf8_valid_snoc_ascii utf8_valid_ascii)
  have base: "join (Some (dc_prefix d)) [] = key_base (Some (dc_prefix d))" by (simp add: join_base)
  have "wp (doctor_run x st op d inputs) (\<lambda>_. P) (\<lambda>_. P) (s, w)"
    unfolding doctor_run_def Let_def
  proof (rule wp_and_then, rule wp_on_bucket, rule wp_st_list, unfold fst_conv snd_conv, goal_cases)
    case (1 listing t)
    then have lists: "lists (key_base (Some (dc_prefix d))) listing (view s)" using listed unfolding base by simp
    have t: "view t = view s" by fact
    show ?case
    proof (rule wp_and_then, rule wp_in_store, unfold fst_conv snd_conv, rule wp_analyze_objects [OF assms(1)], unfold t, rule lists,
        goal_cases)
      case (1 h snapshot t1)
      have good: "good_entry d (view s) r (rs_bundles entry)" if "map_of (sn_refs snapshot) r = Some entry" for r entry
      proof -
        have "rs_bundles entry = shown_bundles (dc_prefix d) (filter (\<lambda>m. om_key m \<notin> h) listing) r"
          using 1(4) [unfolded snapshot_shows_def, THEN conjunct2, rule_format, of r] that by (simp add: entry_of_def)
        then show ?thesis by (simp add: shown_good [OF lists])
      qed
      have distinct: "distinct (map fst (filter Q (sn_refs snapshot)))" for Q
        using 1(4) by (simp add: snapshot_shows_def strict_sorted_iff distinct_map_filter)
      have fix_all: "wp (fold_io (fix_multiple_bundles st op d inputs) snapshot (map fst (filter Q (sn_refs snapshot))))
        (\<lambda>_ p. only_losers d inputs (view s) (view (fst p))) (\<lambda>_ p. only_losers d inputs (view s) (view (fst p))) (u, w')"
        if "view u = view s" for Q u w'
        by (rule fix_all_effect [OF assms(3,2), where L = "{}"]) (use that good distinct in \<open>auto simp: spared_def\<close>)
      have head: "wp (if \<not> is_head_valid fixed then fix_head st op d fixed else ok fixed)
        (\<lambda>_ p. view (fst p) = view u \<or> head_set d (view u) (view (fst p)))
        (\<lambda>_ p. view (fst p) = view u \<or> head_set d (view u) (view (fst p))) (u, w')" for fixed u w'
        by (intro wp_if fix_head_effect assms(2) wp_ok) simp
      show ?case
      proof (rule wp_and_then, rule wp_emit, unfold fst_conv snd_conv, rule wp_and_then, goal_cases)
        case (1 w1)
        have pack_section: "wp (and_then (in_store (maybe_render_packchain_section x st d inputs listing)) (\<lambda>packchain.
            and_then (case packchain of Some t \<Rightarrow> emit t | None \<Rightarrow> ok ()) (\<lambda>_.
            and_then (fold_io (fix_multiple_bundles st op d inputs) snapshot
                (map fst (filter (\<lambda>(_, r). 1 < length (rs_bundles r)) (sn_refs snapshot)))) (\<lambda>fixed.
            and_then (if \<not> is_head_valid fixed then fix_head st op d fixed else ok fixed) (\<lambda>_.
            list_and_handle_stale_locks st d inputs listing))))) (\<lambda>_. P) (\<lambda>_. P) (t1, w2)" for w2
        proof (rule wp_and_then, rule wp_in_store, unfold fst_conv snd_conv, rule wp_packchain_section, goal_cases)
          case (1 packchain t2)
          then have t2: "view t2 = view s" using \<open>view t1 = view s\<close> by simp
          have rest: "wp (and_then (fold_io (fix_multiple_bundles st op d inputs) snapshot
                (map fst (filter (\<lambda>(_, r). 1 < length (rs_bundles r)) (sn_refs snapshot)))) (\<lambda>fixed.
            and_then (if \<not> is_head_valid fixed then fix_head st op d fixed else ok fixed) (\<lambda>_.
            list_and_handle_stale_locks st d inputs listing))) (\<lambda>_. P) (\<lambda>_. P) (t2, w3)" (is "wp ?rest _ _ _") for w3
          proof (rule wp_and_then, rule wp_mono [OF fix_all [OF t2]], goal_cases)
            case (1 fixed p)
            then have losers: "only_losers d inputs (view s) (view (fst p))" by simp
            obtain s2 w4 where p: "p = (s2, w4)" by force
            show ?case
              unfolding p
            proof (rule wp_and_then, rule wp_mono [OF head], goal_cases)
              case (1 fixed' q)
              obtain s3 w5 where q: "q = (s3, w5)" by force
              show ?case
                unfolding q
                by (rule wp_mono [OF stale_locks_effect [OF lists]]) (use 1 losers p q in \<open>auto intro: P3\<close>)
            qed (use losers p in \<open>auto intro: P2\<close>)
          qed (auto intro: P1)
          show ?case
            unfolding snd_conv
          proof (rule wp_and_then, cases packchain)
            case None
            show "wp (case packchain of None \<Rightarrow> ok () | Some t \<Rightarrow> emit t) (\<lambda>_. wp ?rest (\<lambda>_. P) (\<lambda>_. P)) (\<lambda>_. P) (t2, w2)"
              unfolding None option.case by (rule wp_ok, rule rest)
          next
            case (Some section_text)
            show "wp (case packchain of None \<Rightarrow> ok () | Some t \<Rightarrow> emit t) (\<lambda>_. wp ?rest (\<lambda>_. P) (\<lambda>_. P)) (\<lambda>_. P) (t2, w2)"
              unfolding Some option.case by (rule wp_emit, unfold fst_conv snd_conv, rule rest) (simp add: P0 t2)
          qed
        qed (simp add: P0 \<open>view t1 = view s\<close>)
        show ?case
          by (rule wp_if, rule wp_emit, unfold fst_conv snd_conv, rule pack_section, simp add: P0 \<open>view t1 = view s\<close>,
              rule wp_ok, rule pack_section)
      next
        case (2 w1)
        then show ?case by (simp add: P0 \<open>view t1 = view s\<close>)
      qed
    next
      case (2 e t1)
      then show ?case by (simp add: P0)
    qed
  next
    case (2 e t)
    then show ?case by (simp add: P0)
  qed
  then show ?thesis by (simp add: P_def [abs_def])
qed


end

subsection \<open>What that means for the repository\<close>

lemma doctor_spares_bundles:
  assumes "doctor_spares d inputs v w"
  obtains u where "only_losers d inputs v u" "\<And>r sha. w (ref_bundle d r sha) = u (ref_bundle d r sha)"
proof -
  obtain u u' where u: "only_losers d inputs v u" "u' = u \<or> head_set d u u'"
    "swept_locks d inputs (stale_at_scan d inputs v) u' w"
    using assms unfolding doctor_spares_def by blast
  have "w (ref_bundle d r sha) = u (ref_bundle d r sha)" for r sha
  proof -
    let ?k = "ref_bundle d r sha"
    have "last ?k = CHR ''e''" by (simp add: bundle_key_base)
    then have "\<not> is_lock_key ?k" "?k \<noteq> join (Some (dc_prefix d)) ''HEAD''"
      by (auto simp: is_lock_key_def suffix_def join_base)
    then have "w ?k = u' ?k" "u' ?k = u ?k"
      using u(2,3) unfolding swept_locks_def head_set_def by (metis, auto simp: wrote_def)
    then show ?thesis by simp
  qed
  with u(1) show ?thesis by (rule that)
qed

lemma spared_stored: "spared d v L \<Longrightarrow> \<forall>b \<in> L. stored_bundle d v b"
  by (auto simp: spared_def)

lemma doctor_keeps_refs:
  assumes "doctor_spares d inputs v w" "fresh_quarantine d inputs v" "stored_bundle d v (r, sha)"
  shows "\<exists>sha'. stored_bundle d v (r, sha') \<and> w (ref_bundle d r sha') = v (ref_bundle d r sha')"
proof -
  obtain u where u: "only_losers d inputs v u" "\<And>r sha. w (ref_bundle d r sha) = u (ref_bundle d r sha)"
    using doctor_spares_bundles [OF assms(1)] by blast
  then obtain L where L: "doctored d inputs v u L" "spared d v L" by (auto simp: only_losers_def)
  obtain sha' where "stored_bundle d v (r, sha')" "(r, sha') \<notin> L"
    using L(2) assms(3) unfolding spared_def by blast
  moreover from this L have "u (ref_bundle d r sha') = v (ref_bundle d r sha')"
    by (intro doctored_untouched [OF _ assms(2) spared_stored])
  ultimately show ?thesis using u(2) by auto
qed

lemma doctor_keeps_bodies:
  assumes "doctor_spares d inputs v w" "fresh_quarantine d inputs v" "stored_bundle d v (r, sha)" "\<not> do_delete_bundle (dc_opts d)"
  shows "\<exists>k m. k \<in> {ref_bundle d r sha, quarantine_key d inputs r sha} \<and> w k = Some (body_at v (ref_bundle d r sha), m)"
proof -
  obtain u where u: "only_losers d inputs v u" "\<And>r sha. w (ref_bundle d r sha) = u (ref_bundle d r sha)"
    using doctor_spares_bundles [OF assms(1)] by blast
  then obtain L where L: "doctored d inputs v u L" "spared d v L" by (auto simp: only_losers_def)
  obtain b m where b: "v (ref_bundle d r sha) = Some (b, m)" using assms(3) by (auto simp: stored_bundle_def)
  have "u (ref_bundle d r sha) = v (ref_bundle d r sha) \<or>
      (\<exists>m. u (quarantine_key d inputs r sha) = Some (body_at v (ref_bundle d r sha), m))"
  proof (cases "(r, sha) \<in> L")
    case True
    with L(1) assms(4) show ?thesis unfolding doctored_def by blast
  next
    case False
    then show ?thesis using doctored_untouched [OF L(1) assms(2) spared_stored [OF L(2)] assms(3)] by simp
  qed
  then show ?thesis using u(2) b by (auto simp: quarantine_key_def body_at_def)
qed

text \<open>C32. \<open>doctor\<close> loses nothing it was not told to. On any store, whatever faults hit the run and
  whatever the operator answers, if nobody else uses the bucket meanwhile and the random suffixes
  name new branches: every object is as it was, but for bundles of refs that keep another bundle,
  their copies under the new branches, HEAD, which is only set to a branch that has data, and
  locks that were found stale twice. So every ref that had a bundle has one that was not touched,
  and without \<open>--delete-bundle\<close> every bundle's content is still there, in place or as a copy.\<close>

theorem doctor_loses_only_what_it_was_told:
  assumes "utf8_valid (dc_prefix d)" "others_idle_in mock_view op" "fresh_quarantine d inputs (mock_view s)"
    and "doctor_run x mock_store op d inputs (s, w) = (res, (t, w'))"
  shows "doctor_spares d inputs (mock_view s) (mock_view t) \<and>
    (\<forall>r sha. stored_bundle d (mock_view s) (r, sha) \<longrightarrow>
      (\<exists>sha'. stored_bundle d (mock_view s) (r, sha') \<and> mock_view t (ref_bundle d r sha') = mock_view s (ref_bundle d r sha')) \<and>
      (\<not> do_delete_bundle (dc_opts d) \<longrightarrow>
        (\<exists>k m. k \<in> {ref_bundle d r sha, quarantine_key d inputs r sha} \<and>
          mock_view t k = Some (body_at (mock_view s) (ref_bundle d r sha), m))))"
proof -
  have "doctor_spares d inputs (mock_view s) (mock_view t)"
    using mock.doctor_run_effect [OF assms(1-3), of x w] assms(4) by (cases res) (simp_all add: wp_def)
  then show ?thesis
    by (intro conjI allI impI) (assumption, rule doctor_keeps_refs [OF _ assms(3)], assumption+,
      rule doctor_keeps_bodies [OF _ assms(3)], assumption+)
qed

subsection \<open>A ref with two bundles\<close>

definition twin_bucket :: mock_state where
  "twin_bucket = demo_bucket [(demo_bundle CHR ''a'', ''A'', 0), (demo_bundle CHR ''b'', ''B'', 1)]"

definition demo_doctor :: doctor where
  "demo_doctor = \<lparr>dc_prefix = ''repo'', dc_opts =
     \<lparr>do_delete_bundle = False, do_lock_ttl_seconds = None, do_delete_stale_locks = True, do_engine = BundleEngine\<rparr>\<rparr>"

definition demo_rounds :: doctor_inputs where
  "demo_rounds = \<lparr>di_ttl_env = None, di_audit_now = 0, di_scan_now = 0, di_recheck_now = (\<lambda>_. 0),
     di_uuid = (\<lambda>k. if k = demo_bundle CHR ''a'' then ''11111111'' else ''22222222''), di_show_time = show_int\<rparr>"

lemma demo_doctor_sel [simp]:
  "dc_prefix demo_doctor = ''repo''" "do_delete_bundle (dc_opts demo_doctor) = False"
  by (simp_all add: demo_doctor_def)

lemma demo_suffixes [simp]:
  "take 8 (di_uuid demo_rounds (demo_bundle CHR ''a'')) = ''11111111''"
  "take 8 (di_uuid demo_rounds (demo_bundle CHR ''b'')) = ''22222222''"
  by (simp_all add: demo_rounds_def bundle_key_inject)

lemma twin_stored:
  "stored_bundle demo_doctor (mock_view twin_bucket) (r, sha) \<longleftrightarrow> r = demo_main \<and> (sha = demo_sha CHR ''a'' \<or> sha = demo_sha CHR ''b'')"
  unfolding stored_bundle_def twin_bucket_def demo_bucket_dom by (auto simp: bundle_key_inject)

lemma twin_quarantine: "fresh_quarantine demo_doctor demo_rounds (mock_view twin_bucket)"
proof -
  have "mock_view twin_bucket (bundle_key (Some ''repo'') (demo_main @ CHR ''_'' # u) (demo_sha c)) = None" if "is_lower_hex c" for u c
    using that unfolding twin_bucket_def by (simp add: bundle_key_inject)
  then show ?thesis by (auto simp: fresh_quarantine_def twin_stored quarantine_key_def bundle_key_inject)
qed

theorem doctor_loses_only_what_it_was_told_witness:
  "case doctor_run demo_ext mock_store (yes_man (\<lambda>t. t)) demo_doctor demo_rounds (twin_bucket, fresh_writer) of
     (res, (t, _)) \<Rightarrow> \<exists>k m k' m'. mock_view t k = Some (''A'', m) \<and> mock_view t k' = Some (''B'', m')"
proof -
  obtain res t w' where run: "doctor_run demo_ext mock_store (yes_man (\<lambda>t. t)) demo_doctor demo_rounds (twin_bucket, fresh_writer) = (res, (t, w'))"
    by (metis prod.exhaust)
  have "utf8_valid (dc_prefix demo_doctor)" "others_idle_in mock_view (yes_man (\<lambda>t. t))"
    by (simp_all add: utf8_valid_ascii others_idle_in_def)
  note kept = doctor_loses_only_what_it_was_told [OF this twin_quarantine run, THEN conjunct2, rule_format, unfolded twin_stored, THEN conjunct2]
  have "body_at (mock_view twin_bucket) (ref_bundle demo_doctor demo_main (demo_sha CHR ''a'')) = ''A''"
    "body_at (mock_view twin_bucket) (ref_bundle demo_doctor demo_main (demo_sha CHR ''b'')) = ''B''"
    by (simp_all add: twin_bucket_def body_at_def bundle_key_inject)
  then show ?thesis
    using kept [of demo_main "demo_sha CHR ''a''"] kept [of demo_main "demo_sha CHR ''b''"] run by auto
qed

end
