(* ===== verification/Maintenance.thy ===== *)
theory Maintenance
  imports Chain_Audit Branch_Admin
begin

text \<open>
  The management program's \<open>gc\<close> and \<open>compact\<close> commands: \<open>src/manage/gc.rs\<close>,
  \<open>src/manage/gc_output.rs\<close> and \<open>src/manage/compact.rs\<close>, over the mark, sweep and compaction of the
  packchain engine. What a run reads besides the bucket is \<open>maintenance_inputs\<close>: the environment,
  the times, fresh identifiers, and the scratch repository each compaction gets.
\<close>

record maintenance_inputs =
  mi_ttl_env :: "string option"
  mi_grace_env :: "string option"
  mi_audit_now :: int
  mi_scratch :: "string \<Rightarrow> compact_env"
  mi_lock_now :: "string \<Rightarrow> int"
  mi_tomb_now :: "string \<Rightarrow> int"
  mi_uuid :: "string \<Rightarrow> string"
  mi_mark_now :: int
  mi_run_id :: string
  mi_sweep_now :: "string \<Rightarrow> int"

subsection \<open>src/manage/gc_output.rs\<close>

definition plural :: "nat \<Rightarrow> string \<Rightarrow> string \<Rightarrow> string" where
  "plural n singular plural_form = (if n = 1 then singular else plural_form)"

definition format_mark_outcome :: "mark_outcome \<Rightarrow> ('s \<times> writer, manage_error, unit) io" where
  "format_mark_outcome outcome =
     (if mk_orphan_count outcome = 0 then writeln ''gc mark: no orphan packs.''
      else
        (let noun = plural (mk_orphan_count outcome) ''pack'' ''packs'' in
         writeln (''gc mark: '' @ show_nat (mk_orphan_count outcome) @ '' orphan '' @ noun @ '' tombstoned (run id '' @
           mk_run_id outcome @ '').'')))"

definition format_sweep_outcome :: "sweep_outcome \<Rightarrow> ('s \<times> writer, manage_error, unit) io" where
  "format_sweep_outcome outcome =
     (if swept_tombstones outcome = 0 \<and> deferred_tombstones outcome = 0 then writeln ''gc sweep: no tombstones present.''
      else
        writeln (''gc sweep: '' @
          show_nat (swept_tombstones outcome) @ '' '' @ plural (swept_tombstones outcome) ''tombstone'' ''tombstones'' @ '' applied, '' @
          show_nat (deleted_objects outcome) @ '' '' @ plural (deleted_objects outcome) ''object'' ''objects'' @ '' deleted, '' @
          show_nat (skipped_repointed_packs outcome) @ '' repointed '' @
          plural (skipped_repointed_packs outcome) ''pack'' ''packs'' @ '' skipped, '' @
          show_nat (deferred_tombstones outcome) @ '' '' @
          plural (deferred_tombstones outcome) ''tombstone'' ''tombstones'' @ '' deferred.''))"

subsection \<open>src/manage/gc.rs\<close>

datatype gc_mode = MarkThenSweep | MarkOnly | SweepOnly

record gc_opts =
  go_mode :: gc_mode
  go_force :: bool
  go_grace_hours :: "nat option"

definition mark_reported ::
    "ext \<Rightarrow> 's store_api \<Rightarrow> string \<Rightarrow> maintenance_inputs \<Rightarrow> ('s \<times> writer, manage_error, unit) io" where
  "mark_reported x st pfx inputs =
     and_then (in_store (map_err MgPackchain (mark x st pfx \<lparr>mk_dry_run = False\<rparr> (mi_mark_now inputs) (mi_run_id inputs))))
       format_mark_outcome"

definition sweep_reported ::
    "ext \<Rightarrow> 's store_api \<Rightarrow> string \<Rightarrow> bool \<Rightarrow> nat option \<Rightarrow> maintenance_inputs \<Rightarrow> ('s \<times> writer, manage_error, unit) io" where
  "sweep_reported x st pfx force grace inputs =
     (let grace_hours = resolve_grace_hours (mi_grace_env inputs) grace in
      and_then (in_store (map_err MgPackchain (sweep x st pfx \<lparr>sw_grace_hours = grace_hours, sw_force = force\<rparr> (mi_sweep_now inputs))))
        format_sweep_outcome)"

definition gc_run ::
    "ext \<Rightarrow> 's store_api \<Rightarrow> string \<Rightarrow> gc_opts \<Rightarrow> maintenance_inputs \<Rightarrow> ('s \<times> writer, manage_error, unit) io" where
  "gc_run x st pfx opts inputs =
     and_then (if go_mode opts \<noteq> SweepOnly then mark_reported x st pfx inputs else ok ()) (\<lambda>_.
     if go_mode opts \<noteq> MarkOnly then sweep_reported x st pfx (go_force opts) (go_grace_hours opts) inputs else ok ())"

subsection \<open>src/manage/compact.rs\<close>

record compact_command =
  cc_ref_name :: "string option"
  cc_force :: bool
  cc_with_gc :: bool
  cc_lock_ttl_seconds :: "nat option"
  cc_gc_grace_hours :: "nat option"

record run_summary =
  su_any_compacted :: bool
  su_skipped_vanished :: nat

definition command_prefix :: "string \<Rightarrow> string option" where
  "command_prefix pfx = (if pfx = [] then None else Some pfx)"

definition audit_for_compaction_candidates ::
    "ext \<Rightarrow> 's store_api \<Rightarrow> string \<Rightarrow> maintenance_inputs \<Rightarrow> ('s, manage_error, audit_report) io" where
  "audit_for_compaction_candidates x st pfx inputs =
     and_then (map_err MgStore (st_list st (join (Some pfx) []))) (\<lambda>listing.
     map_err MgPackchain (audit x st pfx listing (mi_audit_now inputs)))"

text \<open>One more candidate's name, checked.\<close>

definition resolve_name :: "ext \<Rightarrow> string list \<Rightarrow> branch_row \<Rightarrow> ('s, manage_error, string list) io" where
  "resolve_name x resolved row =
     (if ref_name_ok x (br_ref_path row) then ok (resolved @ [br_ref_path row]) else fail_with (InvalidBranch (br_ref_path row)))"

definition resolve_targets ::
    "ext \<Rightarrow> 's store_api \<Rightarrow> 's operator \<Rightarrow> string \<Rightarrow> compact_command \<Rightarrow> maintenance_inputs \<Rightarrow>
     ('s \<times> writer, manage_error, string list) io" where
  "resolve_targets x st op pfx opts inputs =
     (case cc_ref_name opts of
        Some name \<Rightarrow> if ref_name_ok x name then ok [name] else fail_with (InvalidBranch name)
      | None \<Rightarrow>
          and_then (in_store (audit_for_compaction_candidates x st pfx inputs)) (\<lambda>report.
          let candidates = filter br_recommend_compact (ar_branches report) in
          if candidates = [] then ok []
          else
            and_then (writeln ''Branches recommended for compaction:'') (\<lambda>_.
            and_then
              (fold_io (\<lambda>_ row. writeln (''  - '' @ br_ref_path row @ '': '' @ show_nat (br_segments_total row) @ '' segment(s), '' @
                 show_nat (br_bytes_total row) @ '' byte(s)'')) () candidates) (\<lambda>_.
            and_then (ask op ''Compact all of the above?'') (\<lambda>confirmed.
            if \<not> confirmed then and_then (writeln ''Aborted'') (\<lambda>_. fail_with Cancelled)
            else fold_io (resolve_name x) [] candidates)))))"

definition write_outcome :: "compact_outcome \<Rightarrow> ('s \<times> writer, manage_error, unit) io" where
  "write_outcome outcome =
     (case cp_action outcome of
        Compacted \<Rightarrow>
          (let new_pack = (case cp_new_pack_sha outcome of Some sha \<Rightarrow> sha | None \<Rightarrow> ''?'') in
           writeln (''compact: '' @ cp_ref_path outcome @ '' rewritten to single segment (was '' @ show_nat (cp_prior_segments outcome) @
             '' segment(s), '' @ show_nat (cp_prior_bytes outcome) @ '' byte(s); new pack '' @ new_pack @ '' at '' @
             show_nat (cp_new_pack_bytes outcome) @ '' byte(s))''))
      | SkippedUnderThreshold \<Rightarrow>
          writeln (''compact: '' @ cp_ref_path outcome @ '' below heuristic ('' @ show_nat (cp_prior_segments outcome) @ '' segment(s), '' @
            show_nat (cp_prior_bytes outcome) @ '' byte(s)); skipping. Use --force to compact unconditionally.'')
      | AlreadyMinimal \<Rightarrow>
          writeln (''compact: '' @ cp_ref_path outcome @ '' already a single-segment chain at the tip; nothing to do.'')
      | LockContended \<Rightarrow>
          writeln (''compact: '' @ cp_ref_path outcome @ '' per-ref lock is held by another client; try again later.''))"

definition compact_target ::
    "ext \<Rightarrow> 's store_api \<Rightarrow> string \<Rightarrow> compact_opts \<Rightarrow> maintenance_inputs \<Rightarrow> run_summary \<Rightarrow> string \<Rightarrow>
     ('s \<times> writer, manage_error, run_summary) io" where
  "compact_target x st pfx opts inputs summary ref_name =
     match_io
       (in_store (compact x st (command_prefix pfx) (mi_scratch inputs ref_name) ref_name opts
          (mi_lock_now inputs ref_name) (mi_tomb_now inputs ref_name) (mi_uuid inputs ref_name)))
       (\<lambda>e. case e of
          ChainAbsent r \<Rightarrow>
            and_then (writeln (''compact: '' @ r @ '' vanished between selection and compact (concurrent delete?); skipping'')) (\<lambda>_.
            ok (summary\<lparr>su_skipped_vanished := su_skipped_vanished summary + 1\<rparr>))
        | _ \<Rightarrow> fail_with (MgPackchain e))
       (\<lambda>outcome.
          and_then (write_outcome outcome) (\<lambda>_.
          ok (if cp_action outcome = Compacted then summary\<lparr>su_any_compacted := True\<rparr> else summary)))"

definition compact_targets_into ::
    "ext \<Rightarrow> 's store_api \<Rightarrow> string \<Rightarrow> string list \<Rightarrow> compact_opts \<Rightarrow> maintenance_inputs \<Rightarrow>
     ('s \<times> writer, manage_error, run_summary) io" where
  "compact_targets_into x st pfx targets opts inputs =
     and_then (fold_io (compact_target x st pfx opts inputs) \<lparr>su_any_compacted = False, su_skipped_vanished = 0\<rparr> targets) (\<lambda>summary.
     and_then
       (if 0 < su_skipped_vanished summary then
          writeln (''compact: skipped '' @ show_nat (su_skipped_vanished summary) @
            '' vanished ref(s) (chain.json removed concurrently).'')
        else ok ()) (\<lambda>_.
     ok summary))"

definition compact_run ::
    "ext \<Rightarrow> 's store_api \<Rightarrow> 's operator \<Rightarrow> string \<Rightarrow> compact_command \<Rightarrow> maintenance_inputs \<Rightarrow> ('s \<times> writer, manage_error, unit) io" where
  "compact_run x st op pfx opts inputs =
     (let lock_ttl = saturating_duration_seconds (resolve_lock_ttl_seconds (mi_ttl_env inputs) (cc_lock_ttl_seconds opts));
          engine_opts = \<lparr>co_force = cc_force opts, co_lock_ttl = lock_ttl\<rparr> in
      and_then (resolve_targets x st op pfx opts inputs) (\<lambda>targets.
      if targets = [] then writeln ''compact: no refs match the criteria; nothing to do.''
      else
        and_then (compact_targets_into x st pfx targets engine_opts inputs) (\<lambda>summary.
        if cc_with_gc opts \<and> su_any_compacted summary then
          and_then (mark_reported x st pfx inputs) (\<lambda>_. sweep_reported x st pfx False (cc_gc_grace_hours opts) inputs)
        else if cc_with_gc opts then writeln ''compact: no refs were compacted; skipping gc.''
        else ok ())))"

end
