(* ===== verification/Maintenance_Proofs.thy ===== *)
theory Maintenance_Proofs
  imports Maintenance Branch_Admin_Proofs Compact_Proofs
begin

text \<open>
  The \<open>gc\<close> and \<open>compact\<close> commands do nothing to the bucket but mark, sweep and compact. The
  interface \<open>bucket_moves\<close> is a relation on store states that holds of these three and of whatever
  leaves the objects alone; every run of a command respects it.
\<close>

lemma yields_fold_inv:
  assumes "I acc" "\<And>acc y. I acc \<Longrightarrow> y \<in> set xs \<Longrightarrow> yields I F (f acc y)"
  shows "yields I F (fold_io f acc xs)"
  using assms
proof (induction xs arbitrary: acc)
  case (Cons y xs)
  then show ?case by (auto intro: yields_and_then)
qed (simp add: yields_ok)

lemma keeps_in_store: "keeps R m \<Longrightarrow> keeps (\<lambda>p q. R (fst p) (fst q)) (in_store m)"
  by (auto simp: keeps_def in_store_def case_prod_beta)

lemma keeps_writeln: "(\<And>s. R s s) \<Longrightarrow> keeps (\<lambda>p q. R (fst p) (fst q)) (writeln line)"
  by (rule keeps_from_wp, rule wp_writeln) auto

text \<open>The rows of an audit are refs whose chains were listed.\<close>

lemma audit_rows_listed:
  "yields (\<lambda>report. \<forall>row \<in> set (ar_branches report). \<exists>m \<in> set listing. om_key m = chain_key (Some p) (br_ref_path row))
     (\<lambda>_. True) (audit x st p listing now)"
proof -
  let ?I = "\<lambda>out :: (string \<times> chain_manifest) list. \<forall>(r, c) \<in> set out. \<exists>m \<in> set listing. om_key m = chain_key (Some p) r"
  have "yields ?I (\<lambda>_. True) (load_chains x st p listing)"
    unfolding load_chains_def
  proof (rule yields_fold_inv)
    fix out :: "(string \<times> chain_manifest) list" and meta
    assume I: "?I out" and meta: "meta \<in> set (filter (\<lambda>m. is_chain_json_key (om_key m)) listing)"
    show "yields ?I (\<lambda>_. True) (audit_chain_step x st p out meta)"
    proof (cases "ref_path_from_chain_key (Some p) (om_key meta)")
      case None
      then show ?thesis using I by (simp add: audit_chain_step_def yields_ok)
    next
      case (Some r)
      then have "om_key meta = chain_key (Some p) r" by (simp add: ref_path_from_chain_key_Some)
      then have add: "?I (out @ [(r, c)])" for c using I meta by auto
      show ?thesis
        unfolding audit_chain_step_def Some option.case
        by (rule yields_if, rule yields_ok, rule I, rule yields_match [where A = "\<lambda>_. True" and B = "\<lambda>_. True"], rule yields_any)
          (simp_all add: yields_ok I add yields_sum)
    qed
  qed simp
  note loaded = this
  show ?thesis
    unfolding audit_def Let_def
    by (rule yields_and_then [OF loaded], rule yields_and_then [where A = "\<lambda>_. True"], rule yields_any, simp, simp, rule yields_ok)
      (auto simp: audit_branch_def Let_def)
qed

locale bucket_moves = store_contract +
  fixes x :: ext and pfx :: string and R :: "'a \<Rightarrow> 'a \<Rightarrow> bool"
  assumes moves_refl: "reflp R" and moves_trans: "transp R"
    and stays: "view t = view s \<Longrightarrow> R s t"
    and mark_moves: "R s (snd (mark x st pfx mark_opts now run_id s))"
    and sweep_moves: "R s (snd (sweep x st pfx sweep_opts now_at s))"
    and compact_moves: "prefix ''refs/'' r \<Longrightarrow> scratch_typed scratch \<Longrightarrow>
      R s (snd (compact x st (command_prefix pfx) scratch r opts now tomb_now uuid s))"
begin

abbreviation moved :: "'a \<times> writer \<Rightarrow> 'a \<times> writer \<Rightarrow> bool" where
  "moved p q \<equiv> R (fst p) (fst q)"

lemma moved_rel: "reflp moved" "transp moved"
  using moves_refl moves_trans by (auto simp: reflp_def transp_def)

lemma keeps_bucket:
  "(\<And>s. R s (snd (m s))) \<Longrightarrow> keeps moved (in_store (map_err h m))"
  by (intro keeps_in_store keeps_map_err moves_refl moves_trans) (simp add: keeps_def)

lemma keeps_say: "keeps moved (writeln line)"
  by (rule keeps_writeln) (simp add: stays)

lemmas move_intros = moved_rel keeps_bucket keeps_say keeps_and_then keeps_match keeps_if keeps_ok keeps_fail

lemma reports_move: "keeps moved (mark_reported x st pfx inputs)" "keeps moved (sweep_reported x st pfx force grace inputs)"
  unfolding mark_reported_def sweep_reported_def format_mark_outcome_def format_sweep_outcome_def Let_def
  by (intro move_intros mark_moves sweep_moves)+

lemma gc_run_moves: "keeps moved (gc_run x st pfx opts inputs)"
  unfolding gc_run_def by (intro move_intros reports_move)

lemma targets_move:
  assumes "\<And>r. r \<in> set targets \<Longrightarrow> prefix ''refs/'' r" "\<And>r. scratch_typed (mi_scratch inputs r)"
  shows "keeps moved (compact_targets_into x st pfx targets opts inputs)"
proof -
  have one: "keeps moved (compact_target x st pfx opts inputs summary r)" if "r \<in> set targets" for summary r
  proof -
    have "keeps R (compact x st (command_prefix pfx) (mi_scratch inputs r) r opts
        (mi_lock_now inputs r) (mi_tomb_now inputs r) (mi_uuid inputs r))"
      using compact_moves assms that by (simp add: keeps_def)
    then show ?thesis
      unfolding compact_target_def write_outcome_def Let_def
      by (intro keeps_match moved_rel keeps_in_store) (auto intro!: move_intros split: packchain_error.split compact_action.split)
  qed
  show ?thesis
    unfolding compact_targets_into_def by (intro move_intros keeps_fold_io_mem one)
qed

lemma candidates_are_refs:
  assumes "utf8_valid pfx" "\<And>r. view s (chain_key (Some pfx) r) \<noteq> None \<Longrightarrow> prefix ''refs/'' r"
  shows "wp (audit_for_compaction_candidates x st pfx inputs)
    (\<lambda>report t. view t = view s \<and> (\<forall>row \<in> set (ar_branches report). prefix ''refs/'' (br_ref_path row)))
    (\<lambda>_ t. view t = view s) s"
  unfolding audit_for_compaction_candidates_def
proof (rule wp_and_then, rule wp_map_err, rule wp_st_list, goal_cases)
  case (1 listing t)
  have "listable (key_base (Some pfx))"
    using assms(1) by (auto simp: listable_def key_base_def utf8_valid_snoc_ascii utf8_valid_ascii)
  then have lists: "lists (key_base (Some pfx)) listing (view s)" using 1(3) by (simp add: join_base)
  have row: "prefix ''refs/'' r" if "m \<in> set listing" "om_key m = chain_key (Some pfx) r" for m r
  proof -
    have "view s (om_key m) \<noteq> None" using lists that(1) by (auto simp: lists_def)
    then show ?thesis using assms(2) that(2) by simp
  qed
  have "wp (audit x st pfx listing (mi_audit_now inputs)) (\<lambda>_ u. view u = view s) (\<lambda>_ u. view u = view s) t"
    by (rule wp_keeps [OF audit_reads, where ?s0.0 = t]) (use 1 in \<open>auto simp: frame_def intro: ext\<close>)
  then show ?case
    by (intro wp_map_err, rule wp_mono [OF wp_conj [OF _ yields_wp [OF audit_rows_listed]]])
      (auto dest: row)
qed simp

lemma resolve_targets_moves:
  assumes "utf8_valid pfx" "\<And>r. view s (chain_key (Some pfx) r) \<noteq> None \<Longrightarrow> prefix ''refs/'' r"
    and "\<And>r. cc_ref_name opts = Some r \<Longrightarrow> prefix ''refs/'' r" "\<And>t. R t (op_meanwhile op t)"
  shows "wp (resolve_targets x st op pfx opts inputs)
    (\<lambda>targets p. R s (fst p) \<and> (\<forall>r \<in> set targets. prefix ''refs/'' r)) (\<lambda>_ p. R s (fst p)) (s, w)"
proof (cases "cc_ref_name opts")
  case (Some r)
  then show ?thesis using assms(3) by (auto simp: resolve_targets_def intro!: wp_ok wp_fail stays)
next
  case None
  have names: "yields (\<lambda>targets. \<forall>r \<in> set targets. prefix ''refs/'' r) (\<lambda>_. True) (fold_io (resolve_name x) [] rows)"
    if "\<forall>row \<in> set rows. prefix ''refs/'' (br_ref_path row)" for rows
    by (rule yields_fold_inv) (use that in \<open>auto simp: resolve_name_def intro!: yields_ok yields_fail\<close>)
  have silent: "keeps moved (fold_io (resolve_name x) [] rows)" for rows
    unfolding resolve_name_def by (intro keeps_fold_io move_intros)
  have say: "keeps moved (fold_io (\<lambda>_ row. writeln (g row)) () rows)" for g :: "branch_row \<Rightarrow> string" and rows
    by (intro keeps_fold_io move_intros)
  have then_R: "R s t \<Longrightarrow> R t u \<Longrightarrow> R s u" for t u using moves_trans by (rule transpD)
  show ?thesis
    unfolding resolve_targets_def None option.case Let_def
  proof (rule wp_and_then, rule wp_in_store, unfold fst_conv snd_conv, rule wp_mono [OF candidates_are_refs [OF assms(1,2)]],
      assumption, goal_cases)
    case (1 report t)
    then have t: "R s t" by (simp add: stays)
    define candidates where "candidates = filter br_recommend_compact (ar_branches report)"
    have refs: "\<forall>row \<in> set candidates. prefix ''refs/'' (br_ref_path row)" using 1 by (simp add: candidates_def)
    have asked: "wp (and_then (ask op ''Compact all of the above?'') (\<lambda>confirmed.
        if \<not> confirmed then and_then (writeln ''Aborted'') (\<lambda>_. fail_with Cancelled)
        else fold_io (resolve_name x) [] candidates))
      (\<lambda>targets p. R s (fst p) \<and> (\<forall>r \<in> set targets. prefix ''refs/'' r)) (\<lambda>_ p. R s (fst p)) p"
      if p: "R s (fst p)" for p
    proof (rule wp_and_then, rule wp_ask, goal_cases)
      case (1 confirmed)
      have now: "R s (op_meanwhile op (fst p))" using then_R [OF p] assms(4) by simp
      show ?case
      proof (rule wp_if, goal_cases)
        case 1
        show ?case by (intro wp_and_then wp_writeln wp_fail) (simp_all add: now)
      next
        case 2
        have "wp (fold_io (resolve_name x) [] candidates) (\<lambda>_ q. R s (fst q)) (\<lambda>_ q. R s (fst q)) (op_meanwhile op (fst p), snd p)"
          by (rule wp_keeps [OF silent moved_rel(2), where ?s0.0 = "(op_meanwhile op (fst p), snd p)"])
            (auto intro: then_R [OF now] simp: stays)
        then show ?case by (rule wp_mono [OF wp_conj [OF _ yields_wp [OF names [OF refs]]]]) auto
      qed
    next
      case (2 e)
      show ?case using then_R [OF p] assms(4) by simp
    qed
    show ?case
      unfolding candidates_def [symmetric]
    proof (rule wp_if, goal_cases)
      case 1
      show ?case by (intro wp_ok) (simp add: t)
    next
      case 2
      show ?case
        by (rule wp_and_then, rule wp_writeln, unfold fst_conv snd_conv, rule wp_and_then,
            rule wp_keeps [OF say moved_rel(2), where ?s0.0 = "(t, w)"])
          (auto intro: asked then_R [OF t] simp: stays t)
    qed
  next
    case (2 e t)
    then show ?case by (simp add: stays)
  qed
qed

lemma compact_run_moves:
  assumes "utf8_valid pfx" "\<And>r. view s (chain_key (Some pfx) r) \<noteq> None \<Longrightarrow> prefix ''refs/'' r"
    and "\<And>r. cc_ref_name opts = Some r \<Longrightarrow> prefix ''refs/'' r" "\<And>t. R t (op_meanwhile op t)"
    and "\<And>r. scratch_typed (mi_scratch inputs r)"
  shows "wp (compact_run x st op pfx opts inputs) (\<lambda>_ p. R s (fst p)) (\<lambda>_ p. R s (fst p)) (s, w)"
  unfolding compact_run_def Let_def
proof (rule wp_and_then, rule wp_mono [OF resolve_targets_moves [OF assms(1-4)]], assumption, assumption, goal_cases)
  case (1 targets p)
  then have p: "R s (fst p)" by simp
  have "keeps moved (compact_targets_into x st pfx targets engine_opts inputs)" for engine_opts
    by (rule targets_move) (use 1 assms(5) in auto)
  then have "keeps moved (if targets = [] then writeln line
      else and_then (compact_targets_into x st pfx targets engine_opts inputs) (\<lambda>summary.
        if cc_with_gc opts \<and> su_any_compacted summary then
          and_then (mark_reported x st pfx inputs) (\<lambda>_. sweep_reported x st pfx False (cc_gc_grace_hours opts) inputs)
        else if cc_with_gc opts then writeln line' else ok ()))" for line line' engine_opts
    by (intro move_intros reports_move)
  then show ?case
    by (rule wp_keeps [where ?s0.0 = p]) (use p moves_refl in \<open>auto intro: moved_rel(2) reflpD transpD [OF moves_trans]\<close>)
qed simp

end

end
