(* ===== verification/Spec2Isabelle.thy ===== *)
theory Spec2Isabelle
  imports Bundle_Push_Properties Lock_Properties Data_Properties Path_Index_Proofs Git_History_Proofs
    Packchain_Properties Sweep_Race Pack_Read_Properties Remote_Url_Proofs Ref_Listing_Proofs Ref_Fetch_Proofs Helper_Loop_Proofs
    Compact_Proofs Branch_Admin_Proofs Doctor_Proofs Maintenance_Proofs
begin

text \<open>
  A verification library for git-remote-object-store, a git remote helper that keeps
  repositories in a bucket of an object store (S3, Azure, or the in-memory store of the
  tests), with two engines: the bundle engine keeps one bundle file per ref, the packchain
  engine a chain of packs per ref. File names are relative to \<open>src/src\<close>.

  \<^bold>\<open>The store.\<close> A program that uses the bucket is a function from a store state to a result and
  a new state, \<open>'s \<Rightarrow> ('e + 'a) \<times> 's\<close> (\<open>Prelude\<close>), written with \<open>and_then\<close>, \<open>match_io\<close> and
  \<open>fold_io\<close> for \<open>?\<close>, \<open>match\<close> and \<open>for\<close>. \<open>Object_Store\<close> is the trait of
  \<open>object_store/mod.rs\<close>: a record of operations, and the locales \<open>store_contract\<close> (what each
  operation may do to the objects, errors included: a failed write may or may not have
  happened) and \<open>calm_store\<close> (no fault is armed). \<open>Mock_Store\<close> is \<open>object_store/mock.rs\<close> in
  full and interprets both (\<open>mock\<close>, \<open>calm_mock\<close>); every property about the bucket is proved
  once from the contract and stated for this store. Two reasoning tools serve all of it:
  \<open>wp\<close>, the weakest precondition of a program for its success and error results, with the rules
  \<open>wp_intros\<close> and \<open>calm_intros\<close>, and \<open>keeps R\<close>, for a relation every run respects
  (\<open>keeps_intros\<close>; \<open>frame\<close> for the keys a program may touch).

  \<^bold>\<open>Names and documents.\<close> \<open>Keys\<close>: the key builders and inspectors of \<open>keys.rs\<close>,
  \<open>packchain/keys.rs\<close>, \<open>protocol/push.rs\<close> and \<open>packchain/gc.rs\<close>. \<open>Schema\<close>: the JSON documents
  of \<open>packchain/schema.rs\<close> and the tombstones of \<open>packchain/gc.rs\<close> with their derived codecs,
  the chain manifest's loader, writer and \<open>next_manifest\<close>. \<open>Path_Index\<close>: the path index and
  the tree walks of \<open>packchain/git.rs\<close>. \<open>Data_Properties\<close> and \<open>Path_Index_Proofs\<close> hold their
  round trips and the equivalence of the index with walking the trees.

  \<^bold>\<open>Locks.\<close> \<open>Ref_Lock\<close>: the per-ref lock of \<open>protocol/push.rs\<close> as sequential programs;
  \<open>Lock_Protocol\<close>: its calls of several clients interleaved, as the step relation
  \<open>lock_step\<close>; \<open>Lock_Properties\<close>: exclusion, by the age check and the heartbeat, as long as
  refreshes are not late and no two clients recover a stale lock at once, how two that do both
  get it, and the refinement between the two models.

  \<^bold>\<open>The bundle engine.\<close> \<open>Push_Wire\<close> and \<open>Bundle_Push\<close> are \<open>protocol/push.rs\<close>: refspecs,
  outcomes, the probe before the lock, the critical section, deletion, the batch.
  \<open>Bundle_Push_Proofs\<close> and \<open>Bundle_Push_Properties\<close>: protected refs only move forward, what a
  push leaves on the bucket, which keys it may touch, and two ways it goes wrong.
  \<open>Bundle_File\<close> and \<open>Bundle_File_Proofs\<close>: the file format of \<open>bundle.rs\<close>.

  \<^bold>\<open>The packchain engine.\<close> \<open>Pack_Build\<close> is \<open>packchain/pack.rs\<close>, \<open>Packchain_Push\<close> is
  \<open>packchain/push.rs\<close>. \<open>Packchain_Push_Proofs\<close> shows that every step of a push is harmless to the
  chains and packs of the bucket but for the one write of the manifest, which comes after its
  packs; \<open>Packchain_Properties\<close> draws the properties from that. \<open>Gc\<close> is \<open>packchain/gc.rs\<close>;
  \<open>Gc_Proofs\<close> bounds what a sweep may delete. This theory puts pushes, marks, sweeps and
  compactions together as a transition system (\<open>system_step\<close>); \<open>Sweep_Race\<close> is the interleaving
  that breaks its invariant.
  \<open>Compact\<close> is \<open>packchain/compact.rs\<close>, the rewriting of a chain as one segment;
  \<open>Compact_Proofs\<close> shows that whatever fails the ref keeps its tip, and that a compacted chain
  can be cloned.

  \<^bold>\<open>Reading packs.\<close> \<open>Pack_Cache\<close>, \<open>Pack_Delta\<close> and \<open>Pack_Read\<close> are \<open>packchain/read.rs\<close>: the
  cache of pack indexes with its budget, the delta decoder, and \<open>read_blob\<close>, which finds a path
  in the path index, an object in the packs of the chain by ranged reads, and tries again when a
  pack is gone (\<open>packchain/retry.rs\<close>). \<open>Pack_Read_Proofs\<close> and \<open>Pack_Read_Properties\<close>: what is
  returned has the recorded hash, what is stored is found, deltas rebuild what they encode, the
  cache keeps its books.

  \<^bold>\<open>The helper protocol.\<close> \<open>Protocol_Stream\<close> is the stream answers are written to, which can
  break, beside the store. \<open>Ref_Listing\<close> is \<open>protocol/list.rs\<close>, \<open>packchain/list.rs\<close> and
  \<open>protocol/bundle_uri.rs\<close>; \<open>Ref_Fetch\<close> is \<open>protocol/fetch.rs\<close> and \<open>packchain/fetch.rs\<close>;
  \<open>Helper_Loop\<close> is \<open>protocol/mod.rs\<close> with \<open>option.rs\<close>, \<open>capabilities.rs\<close>, \<open>backend.rs\<close> and
  \<open>remote.rs\<close>. Their proof theories show which refs are listed, that a fetch that answers ok has
  the history and that on a quiet store it answers so, that a session of well-formed pushes
  answers each in order and one with a malformed line fails unanswered, and the whole transcript of a session that pushes. \<open>Remote_Url\<close> is \<open>url.rs\<close>, with the
  text functions of \<open>Rust_Text\<close>; \<open>Remote_Url_Proofs\<close>: a parsed remote is well formed, a
  displayed one parses back.

  \<^bold>\<open>Management commands.\<close> \<open>Branch_Admin\<close> is \<open>manage/branch.rs\<close> and \<open>manage/mod.rs\<close>: open,
  delete, protect and unprotect a branch. The operator is a function from what was shown to an
  answer, and other clients may change the bucket while a prompt waits. \<open>Branch_Admin_Proofs\<close>:
  protected branches stay, and answers tell what was done. \<open>Chain_Audit\<close> is \<open>packchain/audit.rs\<close>,
  \<open>Doctor\<close> is \<open>manage/doctor.rs\<close> with \<open>manage/snapshot.rs\<close>; \<open>Doctor_Proofs\<close>: the snapshot
  shows every bundle in view, and a run gives up nothing it was not told to. \<open>Maintenance\<close> is
  \<open>manage/gc.rs\<close>, \<open>manage/gc_output.rs\<close> and \<open>manage/compact.rs\<close>; \<open>Maintenance_Proofs\<close> shows that
  these commands only mark, sweep and compact, and this theory that they are paths of the
  transition system.

  \<^bold>\<open>The local repository.\<close> gix and its packing library are records of queries (\<open>git_repo\<close>,
  \<open>tree_db\<close>, \<open>pack_library\<close>); \<open>Git_Repo\<close>, \<open>Git_History\<close>, \<open>Path_Index\<close> are what \<open>git.rs\<close> and
  \<open>packchain/git.rs\<close> do with the answers. Loops that run until the object database ends them
  are partial functions, \<open>None\<close> when they do not return, and theorems say that they return on
  every finite repository; \<open>returned\<close> in \<open>Packchain_Push\<close> takes such a result. serde, the
  calendar and gix's name checks are the record \<open>ext\<close>; \<open>Demo_World\<close> is a concrete choice of
  it with proved laws, which the witnesses run on.

  \<^bold>\<open>Bounds.\<close> Sizes, lengths and offsets that the code keeps in machine integers are \<open>nat\<close> with
  the overflow checks written out; the hash of an entity tag is a 64-bit word. No definition
  uses fuel but the reader of the example document format, which is given twice the length
  of its input and proved to need no more. The retry loops count their attempts up to the
  bound of the code, which is their termination measure.

  \<^bold>\<open>Not modelled.\<close> The cloud stores (\<open>object_store/s3.rs\<close>, \<open>azure.rs\<close>), which are calls of their
  SDKs: \<open>store_contract\<close> stands for them. The LFS
  agent, a separate program over its own keys; the command line, the build helper, progress
  reporting and logging. The heartbeat task
  is a step of \<open>Lock_Protocol\<close> and appears nowhere else. Concurrent requests of one operation
  (\<open>buffer_unordered\<close>) and the tasks of one batch run one after the other.
\<close>

section \<open>The packchain engine as a system\<close>

text \<open>
  The steps that change a bucket of the packchain engine, each run as a whole: a push or a
  deletion, a mark, a sweep, a compaction, and whatever leaves the objects alone (time passes, faults are
  armed). \<open>Sweep_Race\<close> shows what can happen when a sweep runs inside a push.
\<close>

inductive system_step :: "ext \<Rightarrow> string option \<Rightarrow> mock_state \<Rightarrow> mock_state \<Rightarrow> bool" for x pfx where
  push: "prefix ''refs/'' (ps_remote_ref spec) \<Longrightarrow> utf8_valid (ps_remote_ref spec) \<Longrightarrow> walks_return env \<Longrightarrow>
    system_step x pfx s (snd (packchain_push_one x mock_store pfx env config now tomb_now uuid spec s))"
| mark: "system_step x pfx s (snd (mark x mock_store (prefix_str pfx) opts now run_id s))"
| sweep: "system_step x pfx s (snd (sweep x mock_store (prefix_str pfx) sweep_opts now_at s))"
| compaction: "prefix ''refs/'' r \<Longrightarrow> scratch_typed scratch \<Longrightarrow>
    system_step x pfx s (snd (compact x mock_store pfx scratch r compact_opts now tomb_now uuid s))"
| environment: "mock_view t = mock_view s \<Longrightarrow> system_step x pfx s t"

lemma mark_harmless:
  assumes "utf8_prefix pfx"
  shows "harmless True pfx (mock_view s) (mock_view (snd (mark x mock_store (prefix_str pfx) opts now run_id s)))"
proof -
  have other: "\<not> is_tombstone_key k (prefix_str pfx)" if "chain_slot (prefix_str pfx) k \<or> pack_slot pfx k" for k
    using that by (auto simp: is_tombstone_key_def slot_base builder_base join_base prefix_def)
  have "wp (mark x mock_store (prefix_str pfx) opts now run_id)
      (\<lambda>_ t. \<forall>k. \<not> is_tombstone_key k (prefix_str pfx) \<longrightarrow> mock_view t k = mock_view s k)
      (\<lambda>_ t. \<forall>k. \<not> is_tombstone_key k (prefix_str pfx) \<longrightarrow> mock_view t k = mock_view s k) s"
  proof (rule wp_mono [OF mock.mark_sound [OF utf8_prefix_str [OF assms]]], goal_cases)
    case 1
    then show ?case
      by (auto simp: mark_post_def wrote_def is_tombstone_key_def tombstone_key_def join_base split: if_splits)
  next
    case 2
    then show ?case using mark_slot_tombstone by metis
  qed
  note kept = wp_snd [OF this]
  show ?thesis
    unfolding harmless_def using kept other by (metis (no_types, lifting))
qed

lemma sweep_harmless:
  assumes "utf8_prefix pfx" "intact x pfx (mock_view s)"
  shows "intact x pfx (mock_view (snd (sweep x mock_store (prefix_str pfx) opts now_at s)))"
proof -
  let ?p = "prefix_str pfx" and ?t = "snd (sweep x mock_store (prefix_str pfx) opts now_at s)"
  have safe: "gc_safe x opts now_at ?p (mock_view s) (mock_view ?t)"
    using wp_snd [OF mock.sweep_safe [OF utf8_prefix_str [OF assms(1)]]] .
  have packs: "pack_key (Some ?p) sha = pack_key pfx sha" "pack_idx_key (Some ?p) sha = pack_idx_key pfx sha" for sha
    by (simp_all add: builder_base)
  show ?thesis
    unfolding intact_def gc_safe_referenced [OF safe]
  proof (intro allI impI)
    fix sha
    assume r: "referenced x ?p (mock_view s) sha"
    then have "live x ?p (mock_view s) (pack_key pfx sha)" "live x ?p (mock_view s) (pack_idx_key pfx sha)"
      by (auto simp: live_def packs)
    then show "mock_view ?t (pack_key pfx sha) \<noteq> None \<and> mock_view ?t (pack_idx_key pfx sha) \<noteq> None"
      using gc_safe_live [OF safe] assms(2) r by (simp add: intact_def)
  qed
qed

lemma system_step_intact:
  assumes "system_step x pfx s t" "utf8_prefix pfx" "chains_print x" "intact x pfx (mock_view s)"
  shows "intact x pfx (mock_view t)"
  using assms
proof induction
  case (push spec env s config now tomb_now uuid)
  then show ?case by (intro wp_snd [OF mock.packchain_push_intact])
next
  case (mark s opts now run_id)
  then show ?case by (intro harmless_intact [OF mark_harmless])
next
  case (sweep s opts now_at)
  then show ?case by (intro sweep_harmless)
next
  case (compaction r scratch s opts now tomb_now uuid)
  then show ?case by (intro compact_intact)
qed simp



section \<open>The maintenance commands as steps of the system\<close>

interpretation maintenance: bucket_moves mock_store mock_view mock_honest x p "(system_step x (command_prefix p))\<^sup>*\<^sup>*" for x p
proof unfold_locales
  have p: "prefix_str (command_prefix p) = p" by (simp add: command_prefix_def)
  show "reflp (system_step x (command_prefix p))\<^sup>*\<^sup>*" "transp (system_step x (command_prefix p))\<^sup>*\<^sup>*"
    by (auto simp: reflp_def transp_def)
  show "(system_step x (command_prefix p))\<^sup>*\<^sup>* s t" if "mock_view t = mock_view s" for s t
    using that by (intro r_into_rtranclp environment)
  show "(system_step x (command_prefix p))\<^sup>*\<^sup>* s (snd (mark x mock_store p opts now run_id s))" for s opts now run_id
    using mark [of x "command_prefix p" s opts now run_id] by (simp add: p r_into_rtranclp)
  show "(system_step x (command_prefix p))\<^sup>*\<^sup>* s (snd (sweep x mock_store p opts now_at s))" for s opts now_at
    using sweep [of x "command_prefix p" s opts now_at] by (simp add: p r_into_rtranclp)
  show "(system_step x (command_prefix p))\<^sup>*\<^sup>* s (snd (compact x mock_store (command_prefix p) scratch r opts now tomb_now uuid s))"
    if "prefix ''refs/'' r" "scratch_typed scratch" for s r scratch opts now tomb_now uuid
    using compaction [OF that] by (rule r_into_rtranclp)
qed


definition demo_maintenance :: maintenance_inputs where
  "demo_maintenance = \<lparr>mi_ttl_env = None, mi_grace_env = None, mi_audit_now = 0, mi_scratch = (\<lambda>_. demo_compact_env),
     mi_lock_now = (\<lambda>_. 0), mi_tomb_now = (\<lambda>_. 0), mi_uuid = (\<lambda>_. ''u''), mi_mark_now = 0, mi_run_id = ''m'', mi_sweep_now = (\<lambda>_. 0)\<rparr>"


end
